(* ===== verification/Mm_Prelude.thy ===== *)
theory Mm_Prelude
  imports Complex_Main "HOL-Library.Word"
begin

section \<open>Shared types, the decimal interface and generic lemmas\<close>

text \<open>
  The types every component uses, the interface of the decimal arithmetic the code relies on,
  and the generic lemmas on lists and machine integers.

  \<^item> \<^verbatim>\<open>rust_decimal::Decimal\<close> is a third-party type. A value is the rational number
    it denotes, so a decimal is a \<^typ>\<open>rat\<close>; comparison, addition, subtraction and
    multiplication are exact (the library documents them so while a result fits its 28
    digits). Division rounds, so the code's division is a parameter \<open>ddiv\<close> of every
    definition that divides, and the locale \<open>decimal_division\<close> states what is documented
    of it.
  \<^item> \<^verbatim>\<open>u32\<close> and \<^verbatim>\<open>u64\<close> are words; the saturating operations of the standard
    library are written out.
  \<^item> A \<^verbatim>\<open>Uuid\<close> is an opaque identifier the code only creates, copies and compares; it is
    a natural number, so that a source of fresh ones exists.
  \<^item> \<^verbatim>\<open>DateTime\<close>, \<^verbatim>\<open>Instant\<close> and \<^verbatim>\<open>Duration\<close> are integers on one time axis
    (milliseconds unless a component says otherwise); a read of the clock is an argument.
\<close>

named_theorems mm_state \<open>unfoldings of the state changing operations\<close>
named_theorems mm_inv \<open>invariants kept by the operations\<close>

type_synonym decimal = rat
type_synonym price = decimal
type_synonym qty = decimal
type_synonym u8 = "8 word"
type_synonym u32 = "32 word"
type_synonym u64 = "64 word"
type_synonym uuid = nat
type_synonym timestamp = int

subsection \<open>Machine integers\<close>

definition sat_add :: "'a::len word \<Rightarrow> 'a word \<Rightarrow> 'a word" where
  "sat_add a b = (if unat a + unat b < 2 ^ LENGTH('a) then a + b else - 1)"

definition sat_sub :: "'a::len word \<Rightarrow> 'a word \<Rightarrow> 'a word" where
  "sat_sub a b = (if a < b then 0 else a - b)"

lemma sat_add_unat:
  fixes a b :: "'a::len word"
  shows "unat (sat_add a b) = min (unat a + unat b) (2 ^ LENGTH('a) - 1)"
proof (cases "unat a + unat b < 2 ^ LENGTH('a)")
  case True
  then show ?thesis by (simp add: sat_add_def unat_word_ariths)
next
  case False
  then show ?thesis
    by (simp add: sat_add_def unsigned_minus_1_eq_mask mask_eq_exp_minus_1)
qed

lemma sat_add_ge:
  fixes a b :: "'a::len word"
  shows "a \<le> sat_add a b"
proof -
  have "unat a < 2 ^ LENGTH('a)" by (rule unsigned_less)
  then have "unat a \<le> 2 ^ LENGTH('a) - 1" by linarith
  then show ?thesis by (simp add: word_le_nat_alt sat_add_unat)
qed

lemma sat_sub_pos: "a < b \<Longrightarrow> 0 < sat_sub b a"
  by (simp add: sat_sub_def order.strict_implies_not_eq word_gt_0 less_imp_not_less)

subsection \<open>Decimal division\<close>

text \<open>
  What the code relies on of \<^verbatim>\<open>Decimal\<close> division: the result is within a rounding error
  \<open>eps\<close> of the quotient, a quotient that is an integer is exact, and rounding is monotone.
\<close>

locale decimal_division =
  fixes ddiv :: "decimal \<Rightarrow> decimal \<Rightarrow> decimal"
    and eps :: decimal
  assumes ddiv_error: "y \<noteq> 0 \<Longrightarrow> \<bar>ddiv x y - x / y\<bar> \<le> eps"
    and ddiv_integral: "y \<noteq> 0 \<Longrightarrow> ddiv (of_int k * y) y = of_int k"
    and ddiv_mono: "0 < y \<Longrightarrow> x \<le> x' \<Longrightarrow> ddiv x y \<le> ddiv x' y"
begin

lemma eps_nonneg: "0 \<le> eps"
  using ddiv_error [of 1 0] by linarith

lemma ddiv_zero: "y \<noteq> 0 \<Longrightarrow> ddiv 0 y = 0"
  using ddiv_integral [of y 0] by simp

lemma ddiv_self: "y \<noteq> 0 \<Longrightarrow> ddiv y y = 1"
  using ddiv_integral [of y 1] by simp

lemma ddiv_nonneg: "0 < y \<Longrightarrow> 0 \<le> x \<Longrightarrow> 0 \<le> ddiv x y"
  using ddiv_mono [of y 0 x] ddiv_zero [of y] by simp

lemma ddiv_between:
  assumes "0 < y" and "of_int k * y \<le> x" and "x \<le> of_int l * y"
  shows "of_int k \<le> ddiv x y \<and> ddiv x y \<le> of_int l"
  using ddiv_mono [OF assms(1,2)] ddiv_mono [OF assms(1,3)] ddiv_integral [of y] assms(1) by simp

lemma ddiv_mult_error:
  assumes "y \<noteq> 0"
  shows "\<bar>ddiv x y * y - x\<bar> \<le> eps * \<bar>y\<bar>"
proof -
  have "ddiv x y * y - x = (ddiv x y - x / y) * y"
    using assms by (simp add: field_simps)
  then show ?thesis
    using ddiv_error [OF assms, of x] by (simp add: abs_mult mult_right_mono)
qed

end

text \<open>
  Two divisions that keep this contract: the exact one, and the one that rounds the quotient
  to the nearest decimal with 28 fractional digits, the resolution of the library.
\<close>

definition nearest_div :: "decimal \<Rightarrow> decimal \<Rightarrow> decimal" where
  "nearest_div x y = of_int (round (x / y * 10 ^ 28)) / 10 ^ 28"

interpretation exact_division: decimal_division "(/)" 0
  by unfold_locales (simp_all add: divide_right_mono)

lemma scaled_round_error:
  fixes q s :: decimal
  assumes "0 < s"
  shows "\<bar>of_int (round (q * s)) / s - q\<bar> \<le> 1 / (2 * s)"
proof -
  have "of_int (round (q * s)) / s - q = (of_int (round (q * s)) - q * s) / s"
    using assms by (simp add: field_simps)
  then have "\<bar>of_int (round (q * s)) / s - q\<bar> = \<bar>of_int (round (q * s)) - q * s\<bar> / s"
    using assms by (simp add: abs_divide)
  also have "\<dots> \<le> (1 / 2) / s"
    using of_int_round_abs_le [of "q * s"] assms by (intro divide_right_mono) auto
  finally show ?thesis by simp
qed

lemma nearest_div_error: "\<bar>nearest_div x y - x / y\<bar> \<le> 1 / (2 * 10 ^ 28)"
  unfolding nearest_div_def by (rule scaled_round_error) simp

interpretation nearest_division: decimal_division nearest_div "1 / (2 * 10 ^ 28)"
proof unfold_locales
  show "\<bar>nearest_div x y - x / y\<bar> \<le> 1 / (2 * 10 ^ 28)" for x y
    by (rule nearest_div_error)
  show "nearest_div (of_int k * y) y = of_int k" if "y \<noteq> 0" for k y
  proof -
    have "of_int k * y / y * 10 ^ 28 = (of_int (k * 10 ^ 28) :: decimal)"
      using that by simp
    then show ?thesis
      by (simp only: nearest_div_def round_of_int) simp
  qed
  show "nearest_div x y \<le> nearest_div x' y" if "0 < y" "x \<le> x'" for x x' y
  proof -
    have "x / y * 10 ^ 28 \<le> x' / y * 10 ^ 28"
      using that by (simp add: divide_right_mono mult_right_mono)
    then show ?thesis
      by (simp add: nearest_div_def round_mono divide_right_mono)
  qed
qed

subsection \<open>Lists\<close>

text \<open>\<^verbatim>\<open>slice::chunks\<close>: consecutive pieces of at most \<open>n\<close> elements.\<close>

function chunks :: "nat \<Rightarrow> 'a list \<Rightarrow> 'a list list" where
  "chunks n xs = (if xs = [] \<or> n = 0 then [] else take n xs # chunks n (drop n xs))"
  by pat_completeness auto
termination
  by (relation "measure (\<lambda>(n, xs). length xs)") auto

declare chunks.simps [simp del]

lemma concat_chunks: "0 < n \<Longrightarrow> concat (chunks n xs) = xs"
proof (induction n xs rule: chunks.induct)
  case (1 n xs)
  then show ?case by (subst chunks.simps) auto
qed

text \<open>A loop that runs an effectful body on each element and collects the results; the second
  form stops at a body that panics.\<close>

primrec for_each :: "('a \<Rightarrow> 's \<Rightarrow> 'b \<times> 's) \<Rightarrow> 'a list \<Rightarrow> 's \<Rightarrow> 'b list \<times> 's" where
  "for_each f [] s = ([], s)"
| "for_each f (x # xs) s =
     (case f x s of (y, s') \<Rightarrow> case for_each f xs s' of (ys, s'') \<Rightarrow> (y # ys, s''))"

primrec try_each :: "('a \<Rightarrow> 's \<Rightarrow> ('b \<times> 's) option) \<Rightarrow> 'a list \<Rightarrow> 's \<Rightarrow> ('b list \<times> 's) option" where
  "try_each f [] s = Some ([], s)"
| "try_each f (x # xs) s =
     (case f x s of None \<Rightarrow> None
      | Some (y, s') \<Rightarrow> (case try_each f xs s' of None \<Rightarrow> None | Some (ys, s'') \<Rightarrow> Some (y # ys, s'')))"

lemma for_each_snd: "snd (for_each f (x # xs) s) = snd (for_each f xs (snd (f x s)))"
  by (simp add: case_prod_beta)

lemma for_each_inv:
  assumes "\<And>x s. x \<in> set xs \<Longrightarrow> P s \<Longrightarrow> P (snd (f x s))" and "P s"
  shows "P (snd (for_each f xs s))"
  using assms by (induction xs arbitrary: s) (simp_all add: case_prod_beta)

lemma for_each_rest:
  assumes "\<And>x xs s. P (x # xs) s \<Longrightarrow> P xs (snd (f x s))" and "P (xs @ ys) s"
  shows "P ys (snd (for_each f xs s))"
  using assms by (induction xs arbitrary: s) (simp_all add: case_prod_beta)

lemma for_each_length: "length (fst (for_each f xs s)) = length xs"
  by (induction xs arbitrary: s) (simp_all add: case_prod_beta)

lemma try_each_rest:
  assumes "\<And>x xs s. P (x # xs) s \<Longrightarrow> \<exists>y s'. f x s = Some (y, s') \<and> P xs s'" and "P xs s"
  shows "\<exists>ys s'. try_each f xs s = Some (ys, s') \<and> P [] s'"
  using assms(2)
proof (induction xs arbitrary: s)
  case Nil
  then show ?case by simp
next
  case (Cons x xs)
  then obtain y s' where "f x s = Some (y, s')" "P xs s'" using assms(1) by blast
  then show ?case using Cons.IH [of s'] by auto
qed

lemma find_SomeD: "find P xs = Some x \<Longrightarrow> x \<in> set xs \<and> P x"
  by (induction xs) (auto split: if_splits)

lemma sum_list_nonneg_decimal: "(\<And>x. x \<in> set xs \<Longrightarrow> 0 \<le> (x::decimal)) \<Longrightarrow> 0 \<le> sum_list xs"
  by (rule sum_list_nonneg) blast

subsection \<open>Event-driven components\<close>

text \<open>
  Most components are driven by a sequence of calls. A component that keeps an invariant under
  every admissible call keeps it over every run of admissible calls, and a reflexive and
  transitive relation that each call respects relates the first and the last state of a run.
\<close>

locale machine =
  fixes step :: "'s \<Rightarrow> 'e \<Rightarrow> 's"
    and inv :: "'s \<Rightarrow> bool"
    and adm :: "'e \<Rightarrow> bool"
  assumes inv_step: "inv s \<Longrightarrow> adm e \<Longrightarrow> inv (step s e)"
begin

lemma inv_run: "inv s \<Longrightarrow> list_all adm es \<Longrightarrow> inv (foldl step s es)"
  by (induction es arbitrary: s) (auto intro: inv_step)

lemma run_related:
  assumes "\<And>s. rel s s" and "\<And>s t u. rel s t \<Longrightarrow> rel t u \<Longrightarrow> rel s u"
    and "\<And>s e. inv s \<Longrightarrow> adm e \<Longrightarrow> rel s (step s e)"
    and "inv s" and "list_all adm es"
  shows "rel s (foldl step s es)"
  using assms(4,5)
proof (induction es arbitrary: s)
  case Nil
  then show ?case by (simp add: assms(1))
next
  case (Cons e es)
  then have "rel s (step s e)" and "inv (step s e)"
    by (auto intro: assms(3) inv_step)
  with Cons show ?case by (auto intro: assms(2))
qed

end

end
