(* ===== verification/Std_Maps.thy ===== *)
theory Std_Maps
  imports Mm_Prelude "HOL-Library.AList"
begin

section \<open>The standard library's maps\<close>

text \<open>
  \<^verbatim>\<open>HashMap\<close> and \<^verbatim>\<open>BTreeMap\<close> of the Rust standard library.

  \<^item> A \<^verbatim>\<open>HashMap\<close> is an association list with distinct keys. Its order stands for the
    unspecified iteration order: theorems about code that iterates a hash map are stated for
    every such list.
  \<^item> A \<^verbatim>\<open>BTreeMap\<close> is an association list with strictly ascending keys, the order its
    iterators use.

  The locale \<open>std_map\<close> is the contract both keep; what the components need of a loop of
  inserts and removes is proved once inside it.
\<close>

type_synonym ('k, 'v) hash_map = "('k \<times> 'v) list"
type_synonym ('k, 'v) btree_map = "('k \<times> 'v) list"

subsection \<open>The contract\<close>

locale std_map =
  fixes get :: "'m \<Rightarrow> 'k \<Rightarrow> 'v option"
    and ins :: "'k \<Rightarrow> 'v \<Rightarrow> 'm \<Rightarrow> 'm"
    and del :: "'k \<Rightarrow> 'm \<Rightarrow> 'm"
    and entries :: "'m \<Rightarrow> ('k \<times> 'v) list"
    and invar :: "'m \<Rightarrow> bool"
  assumes get_ins: "invar m \<Longrightarrow> get (ins k v m) = (get m)(k \<mapsto> v)"
    and get_del: "invar m \<Longrightarrow> get (del k m) = (get m)(k := None)"
    and get_entries: "invar m \<Longrightarrow> map_of (entries m) = get m"
    and distinct_entries: "invar m \<Longrightarrow> distinct (map fst (entries m))"
    and invar_ins: "invar m \<Longrightarrow> invar (ins k v m)"
    and invar_del: "invar m \<Longrightarrow> invar (del k m)"
begin

text \<open>A loop that inserts an element or removes its key; the last write of a key wins.\<close>

lemma invar_writes:
  "invar m \<Longrightarrow> invar (fold (\<lambda>x m. if rm x then del (key x) m else ins (key x) (val x) m) xs m)"
  by (induction xs arbitrary: m) (auto simp: invar_ins invar_del)

lemma get_writes:
  "invar m \<Longrightarrow>
   get (fold (\<lambda>x m. if rm x then del (key x) m else ins (key x) (val x) m) xs m) k =
     (case find (\<lambda>x. key x = k) (rev xs) of
        None \<Rightarrow> get m k
      | Some x \<Rightarrow> if rm x then None else Some (val x))"
proof (induction xs rule: rev_induct)
  case Nil
  then show ?case by simp
next
  case (snoc x xs)
  then show ?case
    by (auto simp: get_ins get_del invar_writes fun_upd_def)
qed

lemma invar_inserts: "invar m \<Longrightarrow> invar (fold (\<lambda>x. ins (key x) (val x)) xs m)"
  using invar_writes [of m "\<lambda>_. False" key val xs] by simp

lemma get_inserts:
  "invar m \<Longrightarrow>
   get (fold (\<lambda>x. ins (key x) (val x)) xs m) k =
     (case find (\<lambda>x. key x = k) (rev xs) of None \<Rightarrow> get m k | Some x \<Rightarrow> Some (val x))"
  using get_writes [of m "\<lambda>_. False" key val xs k] by (simp cong: option.case_cong)

lemma dom_inserts: "invar m \<Longrightarrow> dom (get (fold (\<lambda>x. ins (key x) (val x)) xs m)) = dom (get m) \<union> key ` set xs"
  by (induction xs arbitrary: m) (auto simp: get_ins invar_ins)

lemma get_removes: "invar m \<Longrightarrow> get (fold del ks m) k = (if k \<in> set ks then None else get m k)"
  by (induction ks arbitrary: m) (auto simp: get_del invar_del)

lemma invar_removes: "invar m \<Longrightarrow> invar (fold del ks m)"
  by (induction ks arbitrary: m) (auto simp: invar_del)

lemma entries_iff: "invar m \<Longrightarrow> (k, v) \<in> set (entries m) \<longleftrightarrow> get m k = Some v"
  using distinct_entries get_entries by (metis map_of_eq_Some_iff)

lemma all_entries: "invar m \<Longrightarrow> (\<forall>x \<in> set (entries m). P x) \<longleftrightarrow> (\<forall>k v. get m k = Some v \<longrightarrow> P (k, v))"
  using entries_iff by (metis surj_pair)

lemma keys_iff: "invar m \<Longrightarrow> k \<in> fst ` set (entries m) \<longleftrightarrow> get m k \<noteq> None"
  using get_entries by (metis map_of_eq_None_iff)

end

subsection \<open>HashMap\<close>

definition hm_ok :: "('k, 'v) hash_map \<Rightarrow> bool" where
  "hm_ok m \<longleftrightarrow> distinct (map fst m)"

definition hm_get :: "('k, 'v) hash_map \<Rightarrow> 'k \<Rightarrow> 'v option" where
  "hm_get m k = map_of m k"

definition hm_insert :: "'k \<Rightarrow> 'v \<Rightarrow> ('k, 'v) hash_map \<Rightarrow> ('k, 'v) hash_map" where
  "hm_insert k v m = AList.update k v m"

definition hm_remove :: "'k \<Rightarrow> ('k, 'v) hash_map \<Rightarrow> ('k, 'v) hash_map" where
  "hm_remove k m = AList.delete k m"

definition hm_contains :: "('k, 'v) hash_map \<Rightarrow> 'k \<Rightarrow> bool" where
  "hm_contains m k \<longleftrightarrow> hm_get m k \<noteq> None"

lemma hm_empty [simp]: "hm_ok []" "hm_get [] = Map.empty"
  by (simp_all add: hm_ok_def hm_get_def fun_eq_iff)

interpretation hm: std_map hm_get hm_insert hm_remove "\<lambda>m. m" hm_ok
  by unfold_locales
    (simp_all add: hm_get_def hm_insert_def hm_remove_def hm_ok_def fun_eq_iff
      update_conv' delete_conv' distinct_update distinct_delete)

lemmas hm_simps = hm.get_ins hm.get_del hm.invar_ins hm.invar_del

text \<open>Changing the value of a present key in place (\<^verbatim>\<open>get_mut\<close>).\<close>

lemma hm_keys_insert_present:
  "hm_get m k \<noteq> None \<Longrightarrow> map fst (hm_insert k v m) = map fst m"
  unfolding hm_get_def hm_insert_def by (induction m) auto

lemma hm_insert_insert: "hm_insert k v (hm_insert k v' m) = hm_insert k v m"
  unfolding hm_insert_def by (induction m) auto

lemma hm_insert_same: "hm_get m k = Some v \<Longrightarrow> hm_insert k v m = m"
  unfolding hm_insert_def hm_get_def by (induction m) (auto split: if_splits)

subsection \<open>BTreeMap\<close>

definition bt_ok :: "('k::linorder, 'v) btree_map \<Rightarrow> bool" where
  "bt_ok m \<longleftrightarrow> sorted_wrt (<) (map fst m)"

definition bt_get :: "('k::linorder, 'v) btree_map \<Rightarrow> 'k \<Rightarrow> 'v option" where
  "bt_get m k = map_of m k"

fun bt_insert :: "'k::linorder \<Rightarrow> 'v \<Rightarrow> ('k, 'v) btree_map \<Rightarrow> ('k, 'v) btree_map" where
  "bt_insert k v [] = [(k, v)]"
| "bt_insert k v (e # m) =
     (if fst e < k then e # bt_insert k v m
      else if fst e = k then (k, v) # m
      else (k, v) # e # m)"

definition bt_remove :: "'k::linorder \<Rightarrow> ('k, 'v) btree_map \<Rightarrow> ('k, 'v) btree_map" where
  "bt_remove k m = filter (\<lambda>e. fst e \<noteq> k) m"

lemma bt_insert_keys: "fst ` set (bt_insert k v m) = insert k (fst ` set m)"
  by (induction k v m rule: bt_insert.induct) auto

lemma bt_ok_Cons: "bt_ok (e # m) \<longleftrightarrow> (\<forall>k \<in> fst ` set m. fst e < k) \<and> bt_ok m"
  by (auto simp: bt_ok_def)

lemma bt_ok_Nil [simp]: "bt_ok []"
  by (simp add: bt_ok_def)

lemma bt_get_Nil [simp]: "bt_get [] = Map.empty"
  by (simp add: bt_get_def fun_eq_iff)

lemma bt_insert_ok: "bt_ok m \<Longrightarrow> bt_ok (bt_insert k v m)"
  by (induction k v m rule: bt_insert.induct) (auto simp: bt_ok_Cons bt_insert_keys)

lemma bt_insert_get: "bt_ok m \<Longrightarrow> bt_get (bt_insert k v m) = (bt_get m)(k \<mapsto> v)"
  by (induction k v m rule: bt_insert.induct) (auto simp: bt_get_def bt_ok_Cons fun_eq_iff)

lemma bt_remove_ok: "bt_ok m \<Longrightarrow> bt_ok (bt_remove k m)"
  by (induction m) (auto simp: bt_ok_Cons bt_remove_def)

lemma bt_remove_get: "bt_get (bt_remove k m) = (bt_get m)(k := None)"
  unfolding bt_remove_def bt_get_def by (induction m) (auto simp: fun_eq_iff)

lemma bt_ok_distinct: "bt_ok m \<Longrightarrow> distinct (map fst m)"
  by (simp add: bt_ok_def strict_sorted_iff)

interpretation bt: std_map bt_get bt_insert bt_remove "\<lambda>m. m" bt_ok
  by unfold_locales
    (simp_all add: bt_insert_get bt_remove_get bt_insert_ok bt_remove_ok bt_ok_distinct
      bt_get_def fun_eq_iff)

text \<open>The first and the last key are the least and the greatest.\<close>

lemma bt_first_min:
  assumes "bt_ok m" and "m \<noteq> []"
  shows "fst (hd m) = Min (fst ` set m)"
proof -
  have "k \<in> fst ` set m \<Longrightarrow> fst (hd m) \<le> k" for k
    using assms by (cases m) (auto simp: bt_ok_Cons)
  then show ?thesis
    using assms(2) by (intro Min_eqI [symmetric]) auto
qed

lemma bt_last_max:
  assumes "bt_ok m" and "m \<noteq> []"
  shows "fst (last m) = Max (fst ` set m)"
proof -
  obtain m' e where m: "m = m' @ [e]"
    using assms(2) by (cases m rule: rev_cases) auto
  then have "k \<in> fst ` set m \<Longrightarrow> k \<le> fst (last m)" for k
    using assms(1) by (auto simp: bt_ok_def sorted_wrt_append)
  then show ?thesis
    using assms(2) by (intro Max_eqI [symmetric]) auto
qed

subsection \<open>A map with a secondary index\<close>

text \<open>
  A primary map and an index from a key of its values back to the primary key, each the inverse
  of the other.
\<close>

definition indexed :: "('v \<Rightarrow> 'k) \<Rightarrow> ('i \<Rightarrow> 'v option) \<Rightarrow> ('k \<Rightarrow> 'i option) \<Rightarrow> bool" where
  "indexed key prim idx \<longleftrightarrow> (\<forall>k i. idx k = Some i \<longleftrightarrow> (\<exists>v. prim i = Some v \<and> key v = k))"

lemma indexedI:
  assumes "\<And>k i. idx k = Some i \<Longrightarrow> \<exists>v. prim i = Some v \<and> key v = k"
    and "\<And>i v. prim i = Some v \<Longrightarrow> idx (key v) = Some i"
  shows "indexed key prim idx"
  unfolding indexed_def
proof (intro allI iffI)
  show "idx k = Some i" if "\<exists>v. prim i = Some v \<and> key v = k" for k i
    using that assms(2) by auto
qed (rule assms(1))

lemma indexed_primD: "indexed key prim idx \<Longrightarrow> prim i = Some v \<Longrightarrow> idx (key v) = Some i"
  unfolding indexed_def by blast

lemma indexed_idxD: "indexed key prim idx \<Longrightarrow> idx k = Some i \<Longrightarrow> \<exists>v. prim i = Some v \<and> key v = k"
  unfolding indexed_def by blast

lemma indexed_inj: "indexed key prim idx \<Longrightarrow> idx k = Some i \<Longrightarrow> idx k' = Some i \<Longrightarrow> k = k'"
  using indexed_idxD [of key prim idx k i] indexed_idxD [of key prim idx k' i] by auto

lemma indexed_insert:
  assumes "indexed key prim idx" and "prim i = None" and "idx (key v) = None"
  shows "indexed key (prim(i \<mapsto> v)) (idx(key v \<mapsto> i))"
proof (rule indexedI)
  show "\<exists>w. (prim(i \<mapsto> v)) j = Some w \<and> key w = k" if "(idx(key v \<mapsto> i)) k = Some j" for k j
    using that indexed_idxD [OF assms(1), of k j] assms(2) by (cases "k = key v") auto
  show "(idx(key v \<mapsto> i)) (key w) = Some j" if "(prim(i \<mapsto> v)) j = Some w" for j w
    using that indexed_primD [OF assms(1), of j w] assms(3) by (cases "j = i") auto
qed

lemma indexed_remove:
  assumes "indexed key prim idx" and "prim i = Some v"
  shows "indexed key (prim(i := None)) (idx(key v := None))"
proof (rule indexedI)
  note at = indexed_primD [OF assms]
  show "\<exists>w. (prim(i := None)) j = Some w \<and> key w = k" if "(idx(key v := None)) k = Some j" for k j
    using that indexed_idxD [OF assms(1), of k j] indexed_inj [OF assms(1) at, of k]
    by (cases "k = key v") auto
  show "(idx(key v := None)) (key w) = Some j" if "(prim(i := None)) j = Some w" for j w
    using that indexed_primD [OF assms(1), of j w] at by (cases "j = i") auto
qed

lemma indexed_rekey:
  assumes "indexed key prim idx" and "prim i = Some v" and "idx (key v') = None"
  shows "indexed key (prim(i \<mapsto> v')) (idx(key v := None, key v' \<mapsto> i))"
proof -
  have "(idx(key v := None)) (key v') = None" using assms(3) by simp
  then have "indexed key ((prim(i := None))(i \<mapsto> v')) ((idx(key v := None))(key v' \<mapsto> i))"
    by (rule indexed_insert [OF indexed_remove [OF assms(1,2)], rotated]) simp
  then show ?thesis by simp
qed

lemma indexed_update:
  assumes "indexed key prim idx" and "prim i = Some v" and "key v' = key v"
  shows "indexed key (prim(i \<mapsto> v')) idx"
proof (rule indexedI)
  show "\<exists>w. (prim(i \<mapsto> v')) j = Some w \<and> key w = k" if "idx k = Some j" for k j
    using that indexed_idxD [OF assms(1), of k j] assms(2,3) by (cases "j = i") auto
  show "idx (key w) = Some j" if "(prim(i \<mapsto> v')) j = Some w" for j w
    using that indexed_primD [OF assms(1), of j] assms(2,3) by (cases "j = i") auto
qed

end
