(* ===== verification/Common_Types.thy ===== *)
theory Common_Types
  imports Mm_Prelude
begin

section \<open>The common data types\<close>

text \<open>
  The types of \<^verbatim>\<open>crates/common/src/types.rs\<close> the components share, and the rounding of a
  price to the tick and of a quantity to the lot. Field names carry a prefix for their struct.
  A division by a zero tick or lot panics in the code; the model returns \<open>None\<close> there.
\<close>

type_synonym order_id = uuid

datatype side = Buy | Sell

primrec opposite :: "side \<Rightarrow> side" where
  "opposite Buy = Sell"
| "opposite Sell = Buy"

datatype order_type = Limit | Market

datatype time_in_force = Gtc | Ioc | Fok | PostOnly | Day | Gtd

datatype order_status = Open | PartiallyFilled | Filled | Cancelled | Rejected

record quote =
  q_side :: side
  q_price :: price
  q_qty :: qty

record quote_pair =
  qp_bid :: "quote option"
  qp_ask :: "quote option"

record live_order =
  lo_order_id :: order_id
  lo_symbol :: string
  lo_side :: side
  lo_price :: price
  lo_qty :: qty
  lo_filled_qty :: qty
  lo_status :: order_status
  lo_created_at :: timestamp

record fill =
  f_trade_id :: u64
  f_order_id :: order_id
  f_symbol :: string
  f_side :: side
  f_price :: price
  f_qty :: qty
  f_is_maker :: bool
  f_timestamp :: timestamp

record trade =
  t_trade_id :: u64
  t_symbol :: string
  t_price :: price
  t_qty :: qty
  t_taker_side :: side
  t_timestamp :: timestamp

record price_level =
  pl_price :: price
  pl_qty :: qty

datatype wallet_type =
  Spot | UsdMarginedFutures | CoinMarginedFutures | Margin | Funding | Unified

record balance =
  bal_asset :: string
  bal_wallet :: wallet_type
  bal_total :: decimal
  bal_locked :: decimal
  bal_available :: decimal

datatype trading_status = Trading | Halted | PreTrading | Break | Delisted

record product_spec =
  ps_symbol :: string
  ps_base_asset :: string
  ps_quote_asset :: string
  ps_tick_size :: decimal
  ps_lot_size :: decimal
  ps_min_notional :: decimal
  ps_maker_fee :: decimal
  ps_taker_fee :: decimal
  ps_trading_status :: trading_status

text \<open>\<^verbatim>\<open>(x / step).floor() * step\<close>, the shape of both roundings.\<close>

definition round_down :: "(decimal \<Rightarrow> decimal \<Rightarrow> decimal) \<Rightarrow> decimal \<Rightarrow> decimal \<Rightarrow> decimal option" where
  "round_down ddiv step x = (if step = 0 then None else Some (of_int \<lfloor>ddiv x step\<rfloor> * step))"

definition round_price :: "(decimal \<Rightarrow> decimal \<Rightarrow> decimal) \<Rightarrow> product_spec \<Rightarrow> price \<Rightarrow> price option" where
  "round_price ddiv p x = round_down ddiv (ps_tick_size p) x"

definition round_qty :: "(decimal \<Rightarrow> decimal \<Rightarrow> decimal) \<Rightarrow> product_spec \<Rightarrow> qty \<Rightarrow> qty option" where
  "round_qty ddiv p x = round_down ddiv (ps_lot_size p) x"

definition meets_min_notional :: "product_spec \<Rightarrow> price \<Rightarrow> qty \<Rightarrow> bool" where
  "meets_min_notional p x q \<longleftrightarrow> ps_min_notional p \<le> x * q"

subsection \<open>Rounding\<close>

lemma opposite_opposite [simp]: "opposite (opposite s) = s"
  by (cases s) auto

context decimal_division
begin

text \<open>A rounded value is on the grid, at most one step below and never above its input by
  more than the rounding error of the division.\<close>

lemma round_down_bounds:
  assumes "round_down ddiv step x = Some r" and "0 < step"
  shows "x - step - eps * step < r \<and> r \<le> x + eps * step"
proof -
  define q where "q = ddiv x step"
  have r: "r = of_int \<lfloor>q\<rfloor> * step"
    using assms by (simp add: round_down_def q_def)
  have err: "\<bar>q * step - x\<bar> \<le> eps * step"
    using ddiv_mult_error [of step x] assms(2) by (simp add: q_def)
  have "of_int \<lfloor>q\<rfloor> \<le> q" and "q < of_int \<lfloor>q\<rfloor> + 1"
    by linarith+
  then have "of_int \<lfloor>q\<rfloor> * step \<le> q * step" and "q * step < (of_int \<lfloor>q\<rfloor> + 1) * step"
    using assms(2) by (simp_all only: mult_right_mono mult_strict_right_mono less_imp_le)
  then have "r \<le> q * step" and "q * step < r + step"
    by (simp_all add: r distrib_right)
  then show ?thesis using err by linarith
qed

lemma round_down_idem:
  assumes "round_down ddiv step x = Some r"
  shows "round_down ddiv step r = Some r"
  using assms by (auto simp: round_down_def ddiv_integral split: if_splits)

end

end
