(* ===== verification/Order_Book.thy ===== *)
theory Order_Book
  imports Std_Maps Common_Types
begin

section \<open>The local order book\<close>

text \<open>
  \<^verbatim>\<open>crates/common/src/orderbook.rs\<close>: the mirror of the venue's book, its updates
  (\<open>apply_snapshot\<close>, \<open>apply_delta\<close>), the top-of-book and depth queries and the sweep
  estimate \<open>sweep_vwap\<close>. Both sides are \<^verbatim>\<open>BTreeMap\<close>s, so the best bid is the last key
  of the bids and the best ask the first key of the asks. The clock read of an update is the
  argument \<open>now_ms\<close>.
\<close>

record local_order_book =
  ob_symbol :: string
  ob_bids :: "(price, qty) btree_map"
  ob_asks :: "(price, qty) btree_map"
  ob_sequence :: u64
  ob_last_update_ms :: timestamp

record sweep_result =
  sw_side :: side
  sw_target_qty :: qty
  sw_filled_qty :: qty
  sw_notional :: decimal
  sw_vwap :: price
  sw_impact_bps :: decimal
  sw_fully_filled :: bool

definition new_book :: "string \<Rightarrow> local_order_book" where
  "new_book symbol =
     \<lparr>ob_symbol = symbol, ob_bids = [], ob_asks = [], ob_sequence = 0, ob_last_update_ms = 0\<rparr>"

subsection \<open>Updates\<close>

definition insert_levels :: "price_level list \<Rightarrow> (price, qty) btree_map \<Rightarrow> (price, qty) btree_map" where
  "insert_levels ls m = fold (\<lambda>l. bt_insert (pl_price l) (pl_qty l)) ls m"

definition apply_snapshot ::
  "local_order_book \<Rightarrow> price_level list \<Rightarrow> price_level list \<Rightarrow> u64 \<Rightarrow> timestamp \<Rightarrow> local_order_book" where
  "apply_snapshot b bids asks seq now_ms =
     b\<lparr>ob_bids := insert_levels bids [], ob_asks := insert_levels asks [],
       ob_sequence := seq, ob_last_update_ms := now_ms\<rparr>"

definition update_levels :: "price_level list \<Rightarrow> (price, qty) btree_map \<Rightarrow> (price, qty) btree_map" where
  "update_levels ls m =
     fold (\<lambda>l m. if pl_qty l = 0 then bt_remove (pl_price l) m
                 else bt_insert (pl_price l) (pl_qty l) m) ls m"

definition apply_delta ::
  "local_order_book \<Rightarrow> price_level list \<Rightarrow> price_level list \<Rightarrow> u64 \<Rightarrow> timestamp \<Rightarrow> local_order_book" where
  "apply_delta b bids asks seq now_ms =
     (if seq \<le> ob_sequence b then b
      else b\<lparr>ob_bids := update_levels bids (ob_bids b), ob_asks := update_levels asks (ob_asks b),
             ob_sequence := seq, ob_last_update_ms := now_ms\<rparr>)"

subsection \<open>Top of book\<close>

definition best_bid :: "local_order_book \<Rightarrow> price option" where
  "best_bid b = (if ob_bids b = [] then None else Some (fst (last (ob_bids b))))"

definition best_ask :: "local_order_book \<Rightarrow> price option" where
  "best_ask b = (if ob_asks b = [] then None else Some (fst (hd (ob_asks b))))"

definition best_bid_qty :: "local_order_book \<Rightarrow> qty option" where
  "best_bid_qty b = (if ob_bids b = [] then None else Some (snd (last (ob_bids b))))"

definition best_ask_qty :: "local_order_book \<Rightarrow> qty option" where
  "best_ask_qty b = (if ob_asks b = [] then None else Some (snd (hd (ob_asks b))))"

definition mid_price :: "(decimal \<Rightarrow> decimal \<Rightarrow> decimal) \<Rightarrow> local_order_book \<Rightarrow> price option" where
  "mid_price ddiv b =
     Option.bind (best_bid b) (\<lambda>bid. Option.bind (best_ask b) (\<lambda>ask. Some (ddiv (bid + ask) 2)))"

definition spread :: "local_order_book \<Rightarrow> price option" where
  "spread b = Option.bind (best_ask b) (\<lambda>ask. Option.bind (best_bid b) (\<lambda>bid. Some (ask - bid)))"

definition spread_bps :: "(decimal \<Rightarrow> decimal \<Rightarrow> decimal) \<Rightarrow> local_order_book \<Rightarrow> decimal option" where
  "spread_bps ddiv b =
     Option.bind (mid_price ddiv b) (\<lambda>mid.
       if mid = 0 then None
       else Option.bind (spread b) (\<lambda>s. Some (ddiv s mid * 10000)))"

definition weighted_mid :: "(decimal \<Rightarrow> decimal \<Rightarrow> decimal) \<Rightarrow> local_order_book \<Rightarrow> price option" where
  "weighted_mid ddiv b =
     Option.bind (best_bid b) (\<lambda>bid_price. Option.bind (best_ask b) (\<lambda>ask_price.
     Option.bind (bt_get (ob_bids b) bid_price) (\<lambda>bid_qty.
     Option.bind (bt_get (ob_asks b) ask_price) (\<lambda>ask_qty.
       if bid_qty + ask_qty = 0 then mid_price ddiv b
       else Some (ddiv (bid_price * ask_qty + ask_price * bid_qty) (bid_qty + ask_qty))))))"

subsection \<open>Depth\<close>

definition bid_depth :: "local_order_book \<Rightarrow> nat \<Rightarrow> qty" where
  "bid_depth b levels = sum_list (take levels (rev (map snd (ob_bids b))))"

definition ask_depth :: "local_order_book \<Rightarrow> nat \<Rightarrow> qty" where
  "ask_depth b levels = sum_list (take levels (map snd (ob_asks b)))"

definition bid_depth_within_pct_quote ::
  "(decimal \<Rightarrow> decimal \<Rightarrow> decimal) \<Rightarrow> local_order_book \<Rightarrow> decimal \<Rightarrow> decimal" where
  "bid_depth_within_pct_quote ddiv b pct =
     (case mid_price ddiv b of
        None \<Rightarrow> 0
      | Some mid \<Rightarrow>
          if mid = 0 then 0
          else sum_list (map (\<lambda>(p, q). p * q)
                 (takeWhile (\<lambda>(p, q). mid * (1 - ddiv pct 100) \<le> p) (rev (ob_bids b)))))"

definition ask_depth_within_pct_quote ::
  "(decimal \<Rightarrow> decimal \<Rightarrow> decimal) \<Rightarrow> local_order_book \<Rightarrow> decimal \<Rightarrow> decimal" where
  "ask_depth_within_pct_quote ddiv b pct =
     (case mid_price ddiv b of
        None \<Rightarrow> 0
      | Some mid \<Rightarrow>
          if mid = 0 then 0
          else sum_list (map (\<lambda>(p, q). p * q)
                 (takeWhile (\<lambda>(p, q). p \<le> mid * (1 + ddiv pct 100)) (ob_asks b))))"

definition top_bids :: "local_order_book \<Rightarrow> nat \<Rightarrow> price_level list" where
  "top_bids b n = map (\<lambda>(p, q). \<lparr>pl_price = p, pl_qty = q\<rparr>) (take n (rev (ob_bids b)))"

definition top_asks :: "local_order_book \<Rightarrow> nat \<Rightarrow> price_level list" where
  "top_asks b n = map (\<lambda>(p, q). \<lparr>pl_price = p, pl_qty = q\<rparr>) (take n (ob_asks b))"

definition imbalance :: "(decimal \<Rightarrow> decimal \<Rightarrow> decimal) \<Rightarrow> local_order_book \<Rightarrow> nat \<Rightarrow> decimal option" where
  "imbalance ddiv b levels =
     (let bid_d = bid_depth b levels; ask_d = ask_depth b levels; total = bid_d + ask_d
      in if total = 0 then None else Some (ddiv (bid_d - ask_d) total))"

subsection \<open>The sweep\<close>

text \<open>The loop of \<open>sweep_vwap\<close>; its state is \<open>(remaining, filled, notional)\<close>.\<close>

fun sweep_loop :: "(price \<times> qty) list \<Rightarrow> qty \<times> qty \<times> decimal \<Rightarrow> qty \<times> qty \<times> decimal" where
  "sweep_loop [] st = st"
| "sweep_loop ((p, q) # ls) (remaining, filled, notional) =
     (if remaining \<le> 0 then (remaining, filled, notional)
      else let tk = (if remaining \<le> q then remaining else q)
           in sweep_loop ls (remaining - tk, filled + tk, notional + tk * p))"

definition sweep_side :: "local_order_book \<Rightarrow> side \<Rightarrow> (price \<times> qty) list" where
  "sweep_side b s = (case s of Buy \<Rightarrow> ob_asks b | Sell \<Rightarrow> rev (ob_bids b))"

definition sweep_vwap ::
  "(decimal \<Rightarrow> decimal \<Rightarrow> decimal) \<Rightarrow> local_order_book \<Rightarrow> side \<Rightarrow> qty \<Rightarrow> sweep_result option" where
  "sweep_vwap ddiv b s target_qty =
     (if target_qty \<le> 0 then None
      else Option.bind (mid_price ddiv b) (\<lambda>mid.
        if mid \<le> 0 then None
        else case sweep_loop (sweep_side b s) (target_qty, 0, 0) of (remaining, filled, notional) \<Rightarrow>
          if filled \<le> 0 then None
          else let vwap = ddiv notional filled;
                   signed = (case s of Buy \<Rightarrow> vwap - mid | Sell \<Rightarrow> mid - vwap)
               in Some \<lparr>sw_side = s, sw_target_qty = target_qty, sw_filled_qty = filled,
                        sw_notional = notional, sw_vwap = vwap,
                        sw_impact_bps = max (ddiv signed mid * 10000) 0,
                        sw_fully_filled = (remaining \<le> 0)\<rparr>))"

definition impact_bps ::
  "(decimal \<Rightarrow> decimal \<Rightarrow> decimal) \<Rightarrow> local_order_book \<Rightarrow> side \<Rightarrow> qty \<Rightarrow> (price \<times> decimal) option" where
  "impact_bps ddiv b s sz =
     Option.bind (sweep_vwap ddiv b s sz) (\<lambda>r. Some (sw_vwap r, sw_impact_bps r))"

subsection \<open>Well-formed books\<close>

definition book_ok :: "local_order_book \<Rightarrow> bool" where
  "book_ok b \<longleftrightarrow> bt_ok (ob_bids b) \<and> bt_ok (ob_asks b)"

text \<open>The last level with a price, which is what a batch of levels says about that price.\<close>

definition last_level :: "price_level list \<Rightarrow> price \<Rightarrow> price_level option" where
  "last_level ls p = find (\<lambda>l. pl_price l = p) (rev ls)"

lemma new_book_ok [mm_inv]: "book_ok (new_book s)"
  by (simp add: new_book_def book_ok_def)

lemma insert_levels_ok: "bt_ok m \<Longrightarrow> bt_ok (insert_levels ls m)"
  unfolding insert_levels_def by (rule bt.invar_inserts)

lemma update_levels_ok: "bt_ok m \<Longrightarrow> bt_ok (update_levels ls m)"
  unfolding update_levels_def by (rule bt.invar_writes)

lemma insert_levels_get:
  "bt_ok m \<Longrightarrow> bt_get (insert_levels ls m) p =
     (case last_level ls p of None \<Rightarrow> bt_get m p | Some l \<Rightarrow> Some (pl_qty l))"
  unfolding insert_levels_def last_level_def by (rule bt.get_inserts)

lemma update_levels_get:
  "bt_ok m \<Longrightarrow> bt_get (update_levels ls m) p =
     (case last_level ls p of
        None \<Rightarrow> bt_get m p
      | Some l \<Rightarrow> if pl_qty l = 0 then None else Some (pl_qty l))"
  unfolding update_levels_def last_level_def by (rule bt.get_writes)

lemma apply_snapshot_ok [mm_inv]: "book_ok (apply_snapshot b bids asks seq now)"
  by (simp add: apply_snapshot_def book_ok_def insert_levels_ok)

lemma apply_delta_ok [mm_inv]: "book_ok b \<Longrightarrow> book_ok (apply_delta b bids asks seq now)"
  by (simp add: apply_delta_def book_ok_def update_levels_ok)

lemma apply_snapshot_get:
  "bt_get (ob_bids (apply_snapshot b bids asks seq now)) p = map_option pl_qty (last_level bids p)"
  "bt_get (ob_asks (apply_snapshot b bids asks seq now)) p = map_option pl_qty (last_level asks p)"
  by (simp_all add: apply_snapshot_def insert_levels_get split: option.split)

lemma apply_snapshot_sequence [simp]: "ob_sequence (apply_snapshot b bids asks seq now) = seq"
  by (simp add: apply_snapshot_def)

lemma apply_delta_sequence: "ob_sequence (apply_delta b bids asks seq now) = max (ob_sequence b) seq"
  by (auto simp: apply_delta_def max_def)

lemma book_prices:
  assumes "book_ok b"
  shows "fst ` set (ob_bids b) = dom (bt_get (ob_bids b))"
    and "fst ` set (ob_asks b) = dom (bt_get (ob_asks b))"
  using bt.keys_iff assms unfolding book_ok_def dom_def by blast+

lemma best_bid_Max:
  assumes "book_ok b"
  shows "best_bid b = (if dom (bt_get (ob_bids b)) = {} then None
                       else Some (Max (dom (bt_get (ob_bids b)))))"
  using bt_last_max [of "ob_bids b"] assms
  by (auto simp: best_bid_def book_ok_def book_prices [OF assms, symmetric])

lemma best_ask_Min:
  assumes "book_ok b"
  shows "best_ask b = (if dom (bt_get (ob_asks b)) = {} then None
                       else Some (Min (dom (bt_get (ob_asks b)))))"
  using bt_first_min [of "ob_asks b"] assms
  by (auto simp: best_ask_def book_ok_def book_prices [OF assms, symmetric])

subsection \<open>What the sweep takes\<close>

definition total_qty :: "(price \<times> qty) list \<Rightarrow> qty" where
  "total_qty ls = sum_list (map snd ls)"

definition nonneg_levels :: "(price \<times> qty) list \<Rightarrow> bool" where
  "nonneg_levels ls \<longleftrightarrow> (\<forall>l \<in> set ls. 0 \<le> snd l)"

lemma total_qty_simps [simp]:
  "total_qty [] = 0" "total_qty (l # ls) = snd l + total_qty ls"
  by (simp_all add: total_qty_def)

lemma nonneg_levels_simps [simp]:
  "nonneg_levels []" "nonneg_levels (l # ls) \<longleftrightarrow> 0 \<le> snd l \<and> nonneg_levels ls"
  by (simp_all add: nonneg_levels_def)

lemma total_qty_nonneg: "nonneg_levels ls \<Longrightarrow> 0 \<le> total_qty ls"
  by (induction ls) auto

lemma total_qty_rev [simp]: "total_qty (rev ls) = total_qty ls"
  by (simp add: total_qty_def flip: rev_map)

lemma nonneg_levels_rev [simp]: "nonneg_levels (rev ls) = nonneg_levels ls"
  by (simp add: nonneg_levels_def)

lemma sweep_loop_filled:
  assumes "nonneg_levels ls" and "0 \<le> r"
  shows "\<exists>n'. sweep_loop ls (r, f, n) = (r - min r (total_qty ls), f + min r (total_qty ls), n')"
  using assms
proof (induction ls "(r, f, n)" arbitrary: r f n rule: sweep_loop.induct)
  case 1
  then show ?case by simp
next
  case (2 p q ls remaining filled notional)
  have rest: "0 \<le> total_qty ls"
    using 2 by (simp add: total_qty_nonneg)
  show ?case
  proof (cases "remaining \<le> q")
    case True
    then have "sweep_loop ls (0, filled + remaining, notional + remaining * p)
        = (0, filled + remaining, notional + remaining * p)"
      by (cases ls) (auto simp: Let_def)
    with True rest 2 show ?thesis by (auto simp: Let_def min_def)
  next
    case False
    with 2 rest show ?thesis by (auto simp: Let_def min_def)
  qed
qed

text \<open>The notional the loop adds, and that prices may be negated: a sell is a sweep over
  negated prices.\<close>

fun sweep_cost :: "(price \<times> qty) list \<Rightarrow> qty \<Rightarrow> decimal" where
  "sweep_cost [] t = 0"
| "sweep_cost ((p, q) # ls) t = (if t \<le> 0 then 0 else min t q * p + sweep_cost ls (t - min t q))"

lemma sweep_loop_notional:
  "snd (snd (sweep_loop ls (r, f, n))) = n + sweep_cost ls r"
  by (induction ls "(r, f, n)" arbitrary: r f n rule: sweep_loop.induct)
    (auto simp: Let_def min_def)

lemma sweep_cost_zero: "sweep_cost ls 0 = 0"
  by (cases ls) auto

lemma sweep_cost_neg: "sweep_cost (map (\<lambda>(p, q). (- p, q)) ls) t = - sweep_cost ls t"
  by (induction ls t rule: sweep_cost.induct) auto

text \<open>An allocation takes at most each level's quantity.\<close>

definition allocation :: "(price \<times> qty) list \<Rightarrow> qty list \<Rightarrow> bool" where
  "allocation ls as \<longleftrightarrow> list_all2 (\<lambda>l a. 0 \<le> a \<and> a \<le> snd l) ls as"

definition alloc_cost :: "(price \<times> qty) list \<Rightarrow> qty list \<Rightarrow> decimal" where
  "alloc_cost ls as = sum_list (map2 (\<lambda>l a. fst l * a) ls as)"

lemma allocation_sum_nonneg: "allocation ls as \<Longrightarrow> 0 \<le> sum_list as"
  unfolding allocation_def by (induction rule: list_all2_induct) auto

lemma sweep_cost_lower:
  assumes "allocation ls as" and "sorted (map fst ls)" and "\<forall>l \<in> set ls. lo \<le> fst l"
    and "0 \<le> t" and "t \<le> sum_list as"
  shows "sweep_cost ls t + (sum_list as - t) * lo \<le> alloc_cost ls as"
  using assms unfolding allocation_def
proof (induction arbitrary: t lo rule: list_all2_induct)
  case Nil
  then show ?case by (simp add: alloc_cost_def)
next
  case (Cons l ls a as)
  obtain p q where l: "l = (p, q)" by fastforce
  have a: "0 \<le> a" "a \<le> q" and lo: "lo \<le> p" and srt: "sorted (map fst ls)"
    and ge: "\<forall>l \<in> set ls. p \<le> fst l"
    using Cons.hyps(1) Cons.prems l by auto
  have tail: "0 \<le> sum_list as"
    using Cons.hyps(2) allocation_sum_nonneg by (auto simp: allocation_def)
  let ?tk = "min t q"
  have t': "0 \<le> t - ?tk" and "t - ?tk \<le> sum_list as"
    using a tail Cons.prems by (auto simp: min_def)
  from Cons.IH [OF srt ge this]
  have ih: "sweep_cost ls (t - ?tk) + (sum_list as - (t - ?tk)) * p \<le> alloc_cost ls as" .
  have "sweep_cost (l # ls) t = ?tk * p + sweep_cost ls (t - ?tk)"
    using Cons.prems a by (cases "t = 0") (auto simp: l, cases ls, auto)
  moreover have "alloc_cost (l # ls) (a # as) = p * a + alloc_cost ls as"
    by (simp add: alloc_cost_def l)
  moreover have "(sum_list (a # as) - t) * lo \<le> (sum_list (a # as) - t) * p"
    using Cons.prems lo by (intro mult_left_mono) auto
  ultimately show ?case
    using ih by (simp add: algebra_simps)
qed

lemma sweep_cost_least:
  assumes "allocation ls as" and "sorted (map fst ls)"
  shows "sweep_cost ls (sum_list as) \<le> alloc_cost ls as"
proof -
  have "\<forall>l \<in> set ls. fst (hd ls) \<le> fst l"
    using assms(2) by (cases ls) auto
  from sweep_cost_lower [OF assms(1,2) this, of "sum_list as"] allocation_sum_nonneg [OF assms(1)]
  show ?thesis by simp
qed

lemma alloc_cost_neg: "alloc_cost (map (\<lambda>(p, q). (- p, q)) ls) as = - alloc_cost ls as"
  unfolding alloc_cost_def by (induction ls as rule: list_induct2') auto

lemma sweep_cost_cap: "nonneg_levels ls \<Longrightarrow> sweep_cost ls t = sweep_cost ls (min t (total_qty ls))"
proof (induction ls t rule: sweep_cost.induct)
  case (1 t)
  then show ?case by simp
next
  case (2 p q ls t)
  show ?case
  proof (cases "t \<le> q + total_qty ls")
    case False
    then have "t - min t q = t - q" "min (t - q) (total_qty ls) = total_qty ls"
      using 2 total_qty_nonneg [of ls] by (auto simp: min_def)
    then show ?thesis
      using 2 False total_qty_nonneg [of ls] by (auto simp: min_def sweep_cost_zero)
  qed (simp add: min_def)
qed

text \<open>The side a sweep walks is sorted best price first.\<close>

lemma sweep_side_sorted:
  assumes "book_ok b"
  shows "sorted (map fst (map (\<lambda>(p, q). (case s of Buy \<Rightarrow> p | Sell \<Rightarrow> - p, q)) (sweep_side b s)))"
proof (cases s)
  case Buy
  then show ?thesis
    using assms by (simp add: sweep_side_def book_ok_def bt_ok_def strict_sorted_iff comp_def case_prod_beta)
next
  case Sell
  have "sorted_wrt (\<lambda>x y. - x \<le> - y) (rev (map fst (ob_bids b)))"
    using assms by (simp add: book_ok_def bt_ok_def sorted_wrt_rev strict_sorted_iff)
  then show ?thesis
    using Sell by (simp add: sweep_side_def sorted_wrt_map comp_def case_prod_beta rev_map)
qed

lemma mid_price_nonneg_iff:
  "mid_price ddiv b = Some m \<Longrightarrow> ob_bids b \<noteq> [] \<and> ob_asks b \<noteq> []"
  by (auto simp: mid_price_def best_bid_def best_ask_def split: if_splits)

lemma sweep_vwap_SomeD:
  assumes "sweep_vwap ddiv b s t = Some r" and "nonneg_levels (sweep_side b s)"
  shows "0 < t" and "sw_filled_qty r = min t (total_qty (sweep_side b s))"
    and "0 < sw_filled_qty r" and "sw_notional r = sweep_cost (sweep_side b s) t"
    and "sw_fully_filled r \<longleftrightarrow> t \<le> total_qty (sweep_side b s)"
    and "sw_vwap r = ddiv (sw_notional r) (sw_filled_qty r)" and "0 \<le> sw_impact_bps r"
proof -
  show t: "0 < t" using assms(1) by (auto simp: sweep_vwap_def split: if_splits)
  obtain n where loop: "sweep_loop (sweep_side b s) (t, 0, 0)
      = (t - min t (total_qty (sweep_side b s)), min t (total_qty (sweep_side b s)), n)"
    using sweep_loop_filled [OF assms(2), of t 0 0] t by auto
  have n: "n = sweep_cost (sweep_side b s) t"
    using sweep_loop_notional [of "sweep_side b s" t 0 0] loop by simp
  note d = assms(1) [unfolded sweep_vwap_def loop Let_def]
  show "sw_filled_qty r = min t (total_qty (sweep_side b s))"
    and "0 < sw_filled_qty r" and "sw_notional r = sweep_cost (sweep_side b s) t"
    and "sw_fully_filled r \<longleftrightarrow> t \<le> total_qty (sweep_side b s)"
    and "sw_vwap r = ddiv (sw_notional r) (sw_filled_qty r)" and "0 \<le> sw_impact_bps r"
    using d n by (auto split: if_splits bind_splits simp: min_def)
qed

subsection \<open>Properties\<close>

text \<open>
  An incremental update is dropped when its sequence number is not above the book's, and
  otherwise overlays the two sides: the last level given for a price decides it, a zero quantity
  removes the price, every other price keeps its quantity, and the book stays well formed.
\<close>

theorem apply_delta_overlay:
  assumes "book_ok b"
  shows "(seq \<le> ob_sequence b \<longrightarrow> apply_delta b bids asks seq now = b) \<and>
    (ob_sequence b < seq \<longrightarrow>
       (let b' = apply_delta b bids asks seq now;
            overlay = (\<lambda>old ls p. case last_level ls p of
                None \<Rightarrow> bt_get old p
              | Some l \<Rightarrow> if pl_qty l = 0 then None else Some (pl_qty l))
        in book_ok b' \<and> ob_sequence b' = seq \<and>
           (\<forall>p. bt_get (ob_bids b') p = overlay (ob_bids b) bids p) \<and>
           (\<forall>p. bt_get (ob_asks b') p = overlay (ob_asks b) asks p)))"
  using assms by (auto simp: apply_delta_def book_ok_def update_levels_ok update_levels_get Let_def)

theorem apply_delta_overlay_witness:
  "let b = apply_snapshot (new_book ''BTCUSDT'') [\<lparr>pl_price = 100, pl_qty = 2\<rparr>] [\<lparr>pl_price = 101, pl_qty = 1\<rparr>] 7 0;
       b' = apply_delta b [\<lparr>pl_price = 100, pl_qty = 0\<rparr>, \<lparr>pl_price = 99, pl_qty = 3\<rparr>] [] 8 1
   in book_ok b \<and> bt_get (ob_bids b') 100 = None \<and> bt_get (ob_bids b') 99 = Some 3
      \<and> bt_get (ob_asks b') 101 = Some 1"
proof -
  let ?b = "apply_snapshot (new_book ''BTCUSDT'') [\<lparr>pl_price = 100, pl_qty = 2\<rparr>]
    [\<lparr>pl_price = 101, pl_qty = 1\<rparr>] 7 0"
  have ok: "book_ok ?b" by (rule apply_snapshot_ok)
  have sq: "ob_sequence ?b = 7" by (simp add: apply_snapshot_def)
  show ?thesis
    using ok apply_delta_overlay [OF ok, of 8 "[\<lparr>pl_price = 100, pl_qty = 0\<rparr>, \<lparr>pl_price = 99, pl_qty = 3\<rparr>]" "[]" 1]
    by (simp add: Let_def sq last_level_def apply_snapshot_get)
qed

text \<open>
  The best bid and the best ask are the greatest bid price and the least ask price of the
  book, and missing exactly when the side is empty; they are strictly apart in a book that is
  not crossed, so the spread is positive there.
\<close>

theorem top_of_book:
  assumes "book_ok b"
  shows "best_bid b = (if dom (bt_get (ob_bids b)) = {} then None
                       else Some (Max (dom (bt_get (ob_bids b)))))
    \<and> best_ask b = (if dom (bt_get (ob_asks b)) = {} then None
                     else Some (Min (dom (bt_get (ob_asks b)))))
    \<and> ((\<forall>x \<in> dom (bt_get (ob_bids b)). \<forall>y \<in> dom (bt_get (ob_asks b)). x < y) \<longrightarrow>
        (\<forall>s. spread b = Some s \<longrightarrow> 0 < s))"
proof -
  have "0 < s" if s: "spread b = Some s"
    and lt: "\<forall>x \<in> dom (bt_get (ob_bids b)). \<forall>y \<in> dom (bt_get (ob_asks b)). x < y" for s
  proof -
    have "ob_bids b \<noteq> []" "ob_asks b \<noteq> []" "s = fst (hd (ob_asks b)) - fst (last (ob_bids b))"
      using s by (auto simp: spread_def best_bid_def best_ask_def split: if_splits)
    then show ?thesis
      using lt by (simp add: book_prices [OF assms, symmetric])
  qed
  then show ?thesis
    using best_bid_Max [OF assms] best_ask_Min [OF assms] by blast
qed

theorem top_of_book_witness:
  "let b = apply_snapshot (new_book ''BTCUSDT'') [\<lparr>pl_price = 99, pl_qty = 2\<rparr>, \<lparr>pl_price = 100, pl_qty = 2\<rparr>]
         [\<lparr>pl_price = 101, pl_qty = 1\<rparr>] 7 0
   in book_ok b \<and> best_bid b = Some 100 \<and> spread b = Some 1 \<and> (0::decimal) < 1"
proof -
  let ?b = "apply_snapshot (new_book ''BTCUSDT'') [\<lparr>pl_price = 99, pl_qty = 2\<rparr>, \<lparr>pl_price = 100, pl_qty = 2\<rparr>]
    [\<lparr>pl_price = 101, pl_qty = 1\<rparr>] 7 0"
  have ok: "book_ok ?b" by (rule apply_snapshot_ok)
  have bids: "ob_bids ?b = [(99, 2), (100, 2)]" and asks: "ob_asks ?b = [(101, 1)]"
    by (simp_all add: apply_snapshot_def insert_levels_def)
  have "spread ?b = Some 1"
    by (simp add: spread_def best_bid_def best_ask_def bids asks)
  then show ?thesis
    using ok top_of_book [OF ok] by (simp add: bids asks bt_get_def best_bid_def dom_def split: if_splits)
qed

text \<open>
  A sweep estimate fills exactly the smaller of the requested size and the depth of the side
  it walks, reports a full fill exactly when the depth covers the request, never reports a
  negative impact, and its average price times the filled size is the notional up to the
  rounding of the division.
\<close>

theorem sweep_vwap_fill:
  assumes "decimal_division ddiv eps" and "nonneg_levels (sweep_side b s)"
    and "sweep_vwap ddiv b s t = Some r"
  shows "sw_filled_qty r = min t (total_qty (sweep_side b s))
    \<and> (sw_fully_filled r \<longleftrightarrow> t \<le> total_qty (sweep_side b s))
    \<and> 0 < sw_filled_qty r \<and> 0 \<le> sw_impact_bps r
    \<and> \<bar>sw_vwap r * sw_filled_qty r - sw_notional r\<bar> \<le> eps * sw_filled_qty r"
  using decimal_division.ddiv_mult_error [OF assms(1), of "sw_filled_qty r" "sw_notional r"]
    sweep_vwap_SomeD [OF assms(3,2)] by simp

definition example_book :: local_order_book where
  "example_book = \<lparr>ob_symbol = ''BTCUSDT'', ob_bids = [(98, 5), (99, 1)],
     ob_asks = [(101, 1), (103, 4)], ob_sequence = 1, ob_last_update_ms = 0\<rparr>"

lemma example_book_ok: "book_ok example_book"
  by (simp add: example_book_def book_ok_def bt_ok_def)

lemma example_sweep:
  "sweep_vwap (/) example_book Buy 2 =
     Some \<lparr>sw_side = Buy, sw_target_qty = 2, sw_filled_qty = 2, sw_notional = 204, sw_vwap = 102,
           sw_impact_bps = 200, sw_fully_filled = True\<rparr>"
  by (simp add: sweep_vwap_def mid_price_def best_bid_def best_ask_def example_book_def sweep_side_def)

theorem sweep_vwap_fill_witness:
  "\<exists>r. sweep_vwap (/) example_book Buy 2 = Some r \<and> sw_filled_qty r = 2 \<and> sw_fully_filled r
       \<and> 0 \<le> sw_impact_bps r \<and> sw_vwap r = 102"
proof -
  have nn: "nonneg_levels (sweep_side example_book Buy)"
    by (simp add: example_book_def sweep_side_def)
  show ?thesis
    using sweep_vwap_fill [OF exact_division.decimal_division_axioms nn example_sweep]
    by (simp add: example_sweep)
qed

text \<open>
  The sweep is the best execution the book allows: any way of taking the same size within
  the displayed quantities costs at least as much when buying and yields at most as much when
  selling.
\<close>

theorem sweep_vwap_best_execution:
  assumes "book_ok b" and "nonneg_levels (sweep_side b s)"
    and "sweep_vwap ddiv b s t = Some r"
    and "allocation (sweep_side b s) as" and "sum_list as = sw_filled_qty r"
  shows "(case s of Buy \<Rightarrow> sw_notional r \<le> alloc_cost (sweep_side b s) as
                  | Sell \<Rightarrow> alloc_cost (sweep_side b s) as \<le> sw_notional r)"
proof -
  note d = sweep_vwap_SomeD [OF assms(3,2)]
  have n: "sw_notional r = sweep_cost (sweep_side b s) (sum_list as)"
    using d(2,4) assms(5) sweep_cost_cap [OF assms(2), of t] by simp
  show ?thesis
  proof (cases s)
    case Buy
    then show ?thesis
      using sweep_cost_least [OF assms(4)] sweep_side_sorted [OF assms(1), of s] n by simp
  next
    case Sell
    let ?neg = "map (\<lambda>(p, q). (- p, q)) (sweep_side b s)"
    have "allocation ?neg as"
      using assms(4) unfolding allocation_def by (simp add: list.rel_map case_prod_beta)
    then have "sweep_cost ?neg (sum_list as) \<le> alloc_cost ?neg as"
      using sweep_cost_least sweep_side_sorted [OF assms(1), of s] Sell by simp
    then show ?thesis
      using Sell n by (simp add: sweep_cost_neg alloc_cost_neg)
  qed
qed

theorem sweep_vwap_best_execution_witness:
  "\<exists>r. sweep_vwap (/) example_book Buy 2 = Some r
       \<and> sw_notional r \<le> alloc_cost (sweep_side example_book Buy) [0, 2]"
proof -
  have nn: "nonneg_levels (sweep_side example_book Buy)"
    and al: "allocation (sweep_side example_book Buy) [0, 2]"
    by (simp_all add: example_book_def sweep_side_def allocation_def)
  show ?thesis
    using sweep_vwap_best_execution [OF example_book_ok nn example_sweep al] by (simp add: example_sweep)
qed

text \<open>
  The book imbalance always lies between -1 and 1, and is missing exactly when the counted
  levels hold nothing.
\<close>

theorem imbalance_range:
  assumes "decimal_division ddiv eps" and "nonneg_levels (ob_bids b)" and "nonneg_levels (ob_asks b)"
  shows "(imbalance ddiv b n = None \<longleftrightarrow> bid_depth b n + ask_depth b n = 0)
    \<and> (\<forall>x. imbalance ddiv b n = Some x \<longrightarrow> - 1 \<le> x \<and> x \<le> 1)"
proof -
  have nn: "0 \<le> bid_depth b n" "0 \<le> ask_depth b n"
    using assms(2,3) by (auto simp: bid_depth_def ask_depth_def nonneg_levels_def
        intro!: sum_list_nonneg dest!: in_set_takeD)
  have "- 1 \<le> x \<and> x \<le> 1" if x: "imbalance ddiv b n = Some x" for x
  proof -
    let ?t = "bid_depth b n + ask_depth b n"
    have "x = ddiv (bid_depth b n - ask_depth b n) ?t" and "0 < ?t"
      using x nn by (auto simp: imbalance_def Let_def split: if_splits)
    then show ?thesis
      using decimal_division.ddiv_between [OF assms(1), of ?t "- 1" "bid_depth b n - ask_depth b n" 1] nn
      by simp
  qed
  then show ?thesis by (auto simp: imbalance_def Let_def)
qed

theorem imbalance_range_witness:
  "\<exists>x. imbalance nearest_div example_book 2 = Some x \<and> - 1 \<le> x \<and> x \<le> 1"
proof -
  have b: "nonneg_levels (ob_bids example_book)" and a: "nonneg_levels (ob_asks example_book)"
    by (simp_all add: example_book_def)
  have "bid_depth example_book 2 + ask_depth example_book 2 \<noteq> 0"
    by (simp add: bid_depth_def ask_depth_def example_book_def)
  then show ?thesis
    using imbalance_range [OF nearest_division.decimal_division_axioms b a, of 2] by auto
qed

end
