(* ===== verification/Book_Keeper.thy ===== *)
theory Book_Keeper
  imports Order_Book
begin

section \<open>The book keeper\<close>

text \<open>
  \<^verbatim>\<open>crates/engine/src/book_keeper.rs\<close>: the handler that feeds market events into the
  local book, watches the sequence numbers and raises \<open>needs_resync\<close> when the stream has a
  gap. The events are those of \<^verbatim>\<open>crates/exchange/core/src/events.rs\<close>. The counter metric
  and the log lines have no effect on the state and are left out; the two clock reads of an
  update (wall clock for the book, monotonic for the keeper) are the arguments \<open>now_ms\<close> and
  \<open>now\<close>.
\<close>

datatype venue_id = Custom | Binance | Bybit | Okx | Kraken | Coinbase | HyperLiquid

datatype market_event =
    BookSnapshot venue_id string "price_level list" "price_level list" u64
  | BookDelta venue_id string "price_level list" "price_level list" u64
  | TradeEvent venue_id trade
  | FillEvent venue_id fill
  | OrderUpdate venue_id order_id order_status qty
  | BalanceUpdate venue_id string wallet_type decimal decimal decimal
  | Liquidation venue_id string side qty decimal timestamp
  | Connected venue_id
  | Disconnected venue_id

record book_keeper =
  bk_book :: local_order_book
  bk_last_update :: "timestamp option"
  bk_last_sequence :: "u64 option"
  bk_gap_count :: u64
  bk_needs_resync :: bool
  bk_venue :: string

definition new_book_keeper :: "string \<Rightarrow> book_keeper" where
  "new_book_keeper symbol =
     \<lparr>bk_book = new_book symbol, bk_last_update = None, bk_last_sequence = None,
      bk_gap_count = 0, bk_needs_resync = False, bk_venue = ''custom''\<rparr>"

text \<open>The gap check of a delta against the last sequence number: \<open>None\<close> drops the delta,
  otherwise the counter and the flag after the check.\<close>

definition check_gap :: "book_keeper \<Rightarrow> u64 \<Rightarrow> (u64 \<times> bool) option" where
  "check_gap k seq =
     (case bk_last_sequence k of
        None \<Rightarrow> Some (bk_gap_count k, bk_needs_resync k)
      | Some lst \<Rightarrow>
          if seq \<le> lst then None
          else let jump = sat_sub seq lst
               in if 1 < jump \<and> jump < 1000 \<and> \<not> bk_needs_resync k
                  then Some (sat_add (bk_gap_count k) 1, True)
                  else Some (bk_gap_count k, bk_needs_resync k))"

definition on_event :: "book_keeper \<Rightarrow> market_event \<Rightarrow> timestamp \<Rightarrow> timestamp \<Rightarrow> book_keeper \<times> bool" where
  "on_event k ev now_ms now =
     (case ev of
        BookSnapshot venue symbol bids asks seq \<Rightarrow>
          (k\<lparr>bk_book := apply_snapshot (bk_book k) bids asks seq now_ms,
             bk_needs_resync := False, bk_last_sequence := Some seq,
             bk_last_update := Some now\<rparr>, True)
      | BookDelta venue symbol bids asks seq \<Rightarrow>
          (case check_gap k seq of
             None \<Rightarrow> (k, False)
           | Some (gaps, resync) \<Rightarrow>
               (k\<lparr>bk_book := apply_delta (bk_book k) bids asks seq now_ms,
                  bk_gap_count := gaps, bk_needs_resync := resync,
                  bk_last_sequence := Some seq, bk_last_update := Some now\<rparr>, True))
      | _ \<Rightarrow> (k, False))"

definition is_ready :: "book_keeper \<Rightarrow> bool" where
  "is_ready k \<longleftrightarrow> best_bid (bk_book k) \<noteq> None \<and> best_ask (bk_book k) \<noteq> None"

text \<open>A run of the handler over a stream of events with the clock values it reads.\<close>

definition keeper_step :: "book_keeper \<Rightarrow> market_event \<times> timestamp \<times> timestamp \<Rightarrow> book_keeper" where
  "keeper_step k e = (case e of (ev, now_ms, now) \<Rightarrow> fst (on_event k ev now_ms now))"

definition on_events :: "book_keeper \<Rightarrow> (market_event \<times> timestamp \<times> timestamp) list \<Rightarrow> book_keeper" where
  "on_events k es = foldl keeper_step k es"

subsection \<open>The invariant\<close>

text \<open>The book is well formed and carries the sequence number the keeper remembers.\<close>

definition keeper_ok :: "book_keeper \<Rightarrow> bool" where
  "keeper_ok k \<longleftrightarrow> book_ok (bk_book k) \<and>
     ob_sequence (bk_book k) = (case bk_last_sequence k of None \<Rightarrow> 0 | Some s \<Rightarrow> s)"

lemma new_book_keeper_ok [mm_inv]: "keeper_ok (new_book_keeper s)"
  by (simp add: keeper_ok_def new_book_keeper_def new_book_ok) (simp add: new_book_def)

lemma on_event_ok [mm_inv]: "keeper_ok k \<Longrightarrow> keeper_ok (fst (on_event k ev now_ms now))"
proof (cases ev)
  case (BookDelta venue symbol bids asks seq)
  assume ok: "keeper_ok k"
  show ?thesis
  proof (cases "check_gap k seq")
    case None
    with ok BookDelta show ?thesis by (simp add: on_event_def)
  next
    case (Some gr)
    then obtain g r where "check_gap k seq = Some (g, r)" by (cases gr) auto
    moreover from this have "case_option True (\<lambda>l. l < seq) (bk_last_sequence k)"
      by (auto simp: check_gap_def Let_def split: option.splits if_splits)
    ultimately show ?thesis
      using ok BookDelta by (auto simp: on_event_def keeper_ok_def apply_delta_ok apply_delta_sequence max_def
          split: option.splits)
  qed
qed (auto simp: on_event_def keeper_ok_def apply_snapshot_ok apply_snapshot_sequence)

interpretation keeper: machine keeper_step keeper_ok "\<lambda>_. True"
  by unfold_locales (auto simp: keeper_step_def on_event_ok)

lemma on_events_ok [mm_inv]: "keeper_ok k \<Longrightarrow> keeper_ok (on_events k es)"
  unfolding on_events_def by (rule keeper.inv_run) (simp_all add: list_all_iff)

lemma on_events_snoc:
  "on_events k (es @ [(ev, now_ms, now)]) = fst (on_event (on_events k es) ev now_ms now)"
  by (simp add: on_events_def keeper_step_def)

lemma gap_count_mono: "bk_gap_count k \<le> bk_gap_count (fst (on_event k ev now_ms now))"
  by (auto simp: on_event_def check_gap_def Let_def sat_add_ge split: market_event.splits option.splits)

subsection \<open>What the resynchronisation flag means\<close>

text \<open>The sequence number a stream of events has reached: a snapshot sets it, a later delta
  raises it.\<close>

definition accept_seq :: "u64 option \<Rightarrow> market_event \<Rightarrow> u64 option" where
  "accept_seq l ev =
     (case ev of
        BookSnapshot v s bids asks seq \<Rightarrow> Some seq
      | BookDelta v s bids asks seq \<Rightarrow>
          Some (case l of None \<Rightarrow> seq | Some lst \<Rightarrow> if seq \<le> lst then lst else seq)
      | _ \<Rightarrow> l)"

definition reached_seq :: "(market_event \<times> timestamp \<times> timestamp) list \<Rightarrow> u64 option" where
  "reached_seq es = fold (\<lambda>e l. accept_seq l (fst e)) es None"

definition is_snapshot :: "market_event \<Rightarrow> bool" where
  "is_snapshot ev \<longleftrightarrow> (\<exists>v s bids asks seq. ev = BookSnapshot v s bids asks seq)"

text \<open>An event is a gap after \<open>pre\<close> when it is a delta that skips at least one and fewer
  than 999 sequence numbers.\<close>

definition gap_after :: "(market_event \<times> timestamp \<times> timestamp) list \<Rightarrow> market_event \<Rightarrow> bool" where
  "gap_after pre ev \<longleftrightarrow>
     (case ev of
        BookDelta v s bids asks seq \<Rightarrow>
          (case reached_seq pre of
             None \<Rightarrow> False
           | Some lst \<Rightarrow> lst < seq \<and> 1 < seq - lst \<and> seq - lst < 1000)
      | _ \<Rightarrow> False)"

definition pending_gap :: "(market_event \<times> timestamp \<times> timestamp) list \<Rightarrow> bool" where
  "pending_gap es \<longleftrightarrow>
     (\<exists>pre e post. es = pre @ e # post \<and> gap_after pre (fst e) \<and> (\<forall>p \<in> set post. \<not> is_snapshot (fst p)))"

lemma reached_seq_snoc: "reached_seq (es @ [e]) = accept_seq (reached_seq es) (fst e)"
  by (simp add: reached_seq_def)

lemma pending_gap_snoc:
  "pending_gap (es @ [e]) \<longleftrightarrow> gap_after es (fst e) \<or> (pending_gap es \<and> \<not> is_snapshot (fst e))"
proof
  assume "pending_gap (es @ [e])"
  then obtain pre x post where split: "es @ [e] = pre @ x # post"
    and g: "gap_after pre (fst x)" and post: "\<forall>p \<in> set post. \<not> is_snapshot (fst p)"
    by (auto simp: pending_gap_def)
  show "gap_after es (fst e) \<or> (pending_gap es \<and> \<not> is_snapshot (fst e))"
  proof (cases post rule: rev_cases)
    case Nil
    with split g show ?thesis by simp
  next
    case (snoc post' y)
    with split have "es = pre @ x # post'" "y = e" by auto
    moreover have "\<forall>p \<in> set post'. \<not> is_snapshot (fst p)" "\<not> is_snapshot (fst y)"
      using post snoc by auto
    ultimately show ?thesis using g unfolding pending_gap_def by blast
  qed
next
  assume "gap_after es (fst e) \<or> (pending_gap es \<and> \<not> is_snapshot (fst e))"
  then show "pending_gap (es @ [e])"
  proof
    assume "gap_after es (fst e)"
    then show ?thesis unfolding pending_gap_def by (metis append_Nil2 empty_iff list.set(1))
  next
    assume "pending_gap es \<and> \<not> is_snapshot (fst e)"
    then obtain pre x post where "es = pre @ x # post" and g: "gap_after pre (fst x)"
      and "\<forall>p \<in> set post. \<not> is_snapshot (fst p)" and "\<not> is_snapshot (fst e)"
      unfolding pending_gap_def by blast
    then have "es @ [e] = pre @ x # (post @ [e])" "\<forall>p \<in> set (post @ [e]). \<not> is_snapshot (fst p)"
      by auto
    with g show ?thesis unfolding pending_gap_def by blast
  qed
qed

lemma keeper_reached:
  "bk_last_sequence (on_events (new_book_keeper s) es) = reached_seq es"
proof (induction es rule: rev_induct)
  case Nil
  then show ?case by (simp add: on_events_def reached_seq_def new_book_keeper_def)
next
  case (snoc e es)
  then show ?case
    by (cases e) (auto simp: on_events_snoc reached_seq_snoc on_event_def check_gap_def accept_seq_def
        Let_def split: market_event.split option.splits)
qed

subsection \<open>Properties\<close>

text \<open>
  Over any stream of events the book stays well formed and in step with the last accepted
  sequence number, and the resynchronisation flag is up exactly when some delta since the last
  snapshot skipped between 1 and 998 sequence numbers: no gap of that size is missed, none is
  invented, and only a snapshot clears it.
\<close>

theorem needs_resync_iff_gap:
  "keeper_ok (on_events (new_book_keeper symbol) es)
   \<and> bk_last_sequence (on_events (new_book_keeper symbol) es) = reached_seq es
   \<and> (bk_needs_resync (on_events (new_book_keeper symbol) es) \<longleftrightarrow> pending_gap es)"
proof -
  have "bk_needs_resync (on_events (new_book_keeper symbol) es) \<longleftrightarrow> pending_gap es"
  proof (induction es rule: rev_induct)
    case Nil
    then show ?case by (simp add: on_events_def new_book_keeper_def pending_gap_def)
  next
    case (snoc e es)
    obtain ev now_ms now where e: "e = (ev, now_ms, now)" by (cases e)
    show ?case
      using snoc keeper_reached [of symbol es]
      by (cases ev) (auto simp: e on_events_snoc pending_gap_snoc on_event_def check_gap_def
          gap_after_def is_snapshot_def sat_sub_def Let_def split: option.splits)
  qed
  then show ?thesis
    by (simp add: on_events_ok new_book_keeper_ok keeper_reached)
qed

end
