(* ===== verification/Balance_Cache.thy ===== *)
theory Balance_Cache
  imports Std_Maps Common_Types
begin

section \<open>The balance cache\<close>

text \<open>
  \<^verbatim>\<open>crates/engine/src/balance_cache.rs\<close>: balances per asset and wallet with local
  reservations for pending orders. Every public operation is a definition; the variants without
  a wallet argument act on the configured wallet. The warning logged by a refused reservation
  is left out.
\<close>

record asset_balance =
  ab_total :: decimal
  ab_locked :: decimal
  ab_reserved :: decimal

definition ab_available :: "asset_balance \<Rightarrow> decimal" where
  "ab_available b = max (ab_total b - ab_locked b - ab_reserved b) 0"

record balance_cache =
  bc_balances :: "(string \<times> wallet_type, asset_balance) hash_map"
  bc_configured_wallet :: wallet_type
  bc_paper_mode :: bool

definition bc_new_for :: "wallet_type \<Rightarrow> balance_cache" where
  "bc_new_for w = \<lparr>bc_balances = [], bc_configured_wallet = w, bc_paper_mode = False\<rparr>"

definition bc_new :: balance_cache where
  "bc_new = bc_new_for Spot"

definition bc_new_paper_for :: "wallet_type \<Rightarrow> balance_cache" where
  "bc_new_paper_for w = \<lparr>bc_balances = [], bc_configured_wallet = w, bc_paper_mode = True\<rparr>"

definition update_one_balance :: "balance \<Rightarrow> (string \<times> wallet_type, asset_balance) hash_map
    \<Rightarrow> (string \<times> wallet_type, asset_balance) hash_map" where
  "update_one_balance b m =
     (let k = (bal_asset b, bal_wallet b);
          entry = (case hm_get m k of
                     None \<Rightarrow> \<lparr>ab_total = 0, ab_locked = 0, ab_reserved = 0\<rparr>
                   | Some e \<Rightarrow> e)
      in hm_insert k (entry\<lparr>ab_total := bal_total b, ab_locked := bal_locked b\<rparr>) m)"

definition update_from_exchange :: "balance_cache \<Rightarrow> balance list \<Rightarrow> balance_cache" where
  "update_from_exchange c bs = c\<lparr>bc_balances := fold update_one_balance bs (bc_balances c)\<rparr>"

definition available_in :: "balance_cache \<Rightarrow> string \<Rightarrow> wallet_type \<Rightarrow> decimal" where
  "available_in c asset w =
     (case hm_get (bc_balances c) (asset, w) of None \<Rightarrow> 0 | Some b \<Rightarrow> ab_available b)"

definition available :: "balance_cache \<Rightarrow> string \<Rightarrow> decimal" where
  "available c asset = available_in c asset (bc_configured_wallet c)"

definition total_in :: "balance_cache \<Rightarrow> string \<Rightarrow> wallet_type \<Rightarrow> decimal" where
  "total_in c asset w =
     (case hm_get (bc_balances c) (asset, w) of None \<Rightarrow> 0 | Some b \<Rightarrow> ab_total b)"

definition can_afford_in ::
  "balance_cache \<Rightarrow> side \<Rightarrow> price \<Rightarrow> qty \<Rightarrow> string \<Rightarrow> string \<Rightarrow> wallet_type \<Rightarrow> bool" where
  "can_afford_in c s p q base quote w =
     (if bc_paper_mode c then True
      else case s of
             Buy \<Rightarrow> p * q \<le> available_in c quote w
           | Sell \<Rightarrow> q \<le> available_in c base w)"

definition can_afford :: "balance_cache \<Rightarrow> side \<Rightarrow> price \<Rightarrow> qty \<Rightarrow> string \<Rightarrow> string \<Rightarrow> bool" where
  "can_afford c s p q base quote = can_afford_in c s p q base quote (bc_configured_wallet c)"

text \<open>The asset and the amount an order needs.\<close>

definition required :: "side \<Rightarrow> price \<Rightarrow> qty \<Rightarrow> string \<Rightarrow> string \<Rightarrow> string \<times> decimal" where
  "required s p q base quote = (case s of Buy \<Rightarrow> (quote, p * q) | Sell \<Rightarrow> (base, q))"

definition reserve_in ::
  "balance_cache \<Rightarrow> side \<Rightarrow> price \<Rightarrow> qty \<Rightarrow> string \<Rightarrow> string \<Rightarrow> wallet_type \<Rightarrow> balance_cache \<times> bool" where
  "reserve_in c s p q base quote w =
     (if bc_paper_mode c then (c, True)
      else case required s p q base quote of (asset, amount) \<Rightarrow>
        case hm_get (bc_balances c) (asset, w) of
          None \<Rightarrow> (c, False)
        | Some b \<Rightarrow>
            if amount \<le> ab_available b
            then (c\<lparr>bc_balances := hm_insert (asset, w)
                     (b\<lparr>ab_reserved := ab_reserved b + amount\<rparr>) (bc_balances c)\<rparr>, True)
            else (c, False))"

definition reserve :: "balance_cache \<Rightarrow> side \<Rightarrow> price \<Rightarrow> qty \<Rightarrow> string \<Rightarrow> string \<Rightarrow> balance_cache \<times> bool" where
  "reserve c s p q base quote = reserve_in c s p q base quote (bc_configured_wallet c)"

definition release_in ::
  "balance_cache \<Rightarrow> side \<Rightarrow> price \<Rightarrow> qty \<Rightarrow> string \<Rightarrow> string \<Rightarrow> wallet_type \<Rightarrow> balance_cache" where
  "release_in c s p q base quote w =
     (case required s p q base quote of (asset, amount) \<Rightarrow>
        case hm_get (bc_balances c) (asset, w) of
          None \<Rightarrow> c
        | Some b \<Rightarrow>
            c\<lparr>bc_balances := hm_insert (asset, w)
               (b\<lparr>ab_reserved := max (ab_reserved b - amount) 0\<rparr>) (bc_balances c)\<rparr>)"

definition release :: "balance_cache \<Rightarrow> side \<Rightarrow> price \<Rightarrow> qty \<Rightarrow> string \<Rightarrow> string \<Rightarrow> balance_cache" where
  "release c s p q base quote = release_in c s p q base quote (bc_configured_wallet c)"

definition reset_reservations :: "balance_cache \<Rightarrow> balance_cache" where
  "reset_reservations c =
     c\<lparr>bc_balances := map (\<lambda>(k, b). (k, b\<lparr>ab_reserved := 0\<rparr>)) (bc_balances c)\<rparr>"

subsection \<open>Order flow against one venue snapshot\<close>

datatype balance_op =
    Reserve side price qty string string wallet_type
  | Release side price qty string string wallet_type
  | ResetReservations

fun balance_step :: "balance_cache \<Rightarrow> balance_op \<Rightarrow> balance_cache" where
  "balance_step c (Reserve s p q base quote w) = fst (reserve_in c s p q base quote w)"
| "balance_step c (Release s p q base quote w) = release_in c s p q base quote w"
| "balance_step c ResetReservations = reset_reservations c"

text \<open>An order has a non-negative price and quantity.\<close>

fun order_sized :: "balance_op \<Rightarrow> bool" where
  "order_sized (Reserve s p q base quote w) \<longleftrightarrow> 0 \<le> p \<and> 0 \<le> q"
| "order_sized (Release s p q base quote w) \<longleftrightarrow> 0 \<le> p \<and> 0 \<le> q"
| "order_sized ResetReservations \<longleftrightarrow> True"

definition covered :: "asset_balance \<Rightarrow> bool" where
  "covered b \<longleftrightarrow> 0 \<le> ab_reserved b \<and> ab_reserved b \<le> ab_total b - ab_locked b"

definition cache_ok :: "balance_cache \<Rightarrow> bool" where
  "cache_ok c \<longleftrightarrow> hm_ok (bc_balances c) \<and> (\<forall>k b. hm_get (bc_balances c) k = Some b \<longrightarrow> covered b)"

lemma required_nonneg: "0 \<le> p \<Longrightarrow> 0 \<le> q \<Longrightarrow> 0 \<le> snd (required s p q base quote)"
  by (simp add: required_def split: side.split)

lemma reset_reservations_get:
  "hm_get (bc_balances (reset_reservations c)) k =
     map_option (\<lambda>b. b\<lparr>ab_reserved := 0\<rparr>) (hm_get (bc_balances c) k)"
  by (simp add: reset_reservations_def hm_get_def map_of_map)

lemma reset_reservations_fields:
  "bc_configured_wallet (reset_reservations c) = bc_configured_wallet c"
  "bc_paper_mode (reset_reservations c) = bc_paper_mode c"
  by (simp_all add: reset_reservations_def)

lemma reset_reservations_hm_ok: "hm_ok (bc_balances c) \<Longrightarrow> hm_ok (bc_balances (reset_reservations c))"
  by (simp add: reset_reservations_def hm_ok_def comp_def case_prod_beta)

lemma insert_covered:
  assumes "cache_ok c" and "covered b"
  shows "cache_ok (c\<lparr>bc_balances := hm_insert k b (bc_balances c)\<rparr>)"
  using assms by (auto simp: cache_ok_def hm_simps)

lemma reserve_in_ok [mm_inv]:
  assumes "cache_ok c" and "0 \<le> p" and "0 \<le> q"
  shows "cache_ok (fst (reserve_in c s p q base quote w))"
proof -
  have "covered (b\<lparr>ab_reserved := ab_reserved b + a\<rparr>)"
    if "covered b" "0 \<le> a" "a \<le> ab_available b" for a b
    using that by (auto simp: covered_def ab_available_def)
  then show ?thesis
    using assms required_nonneg [OF assms(2,3), of s base quote]
    by (auto simp: reserve_in_def cache_ok_def hm_simps split: prod.splits option.splits)
qed

lemma release_in_ok [mm_inv]:
  assumes "cache_ok c" and "0 \<le> p" and "0 \<le> q"
  shows "cache_ok (release_in c s p q base quote w)"
proof -
  have "covered (b\<lparr>ab_reserved := max (ab_reserved b - a) 0\<rparr>)" if "covered b" "0 \<le> a" for a b
    using that by (auto simp: covered_def)
  then show ?thesis
    using assms required_nonneg [OF assms(2,3), of s base quote]
    by (auto simp: release_in_def cache_ok_def hm_simps split: prod.splits option.splits)
qed

lemma reset_reservations_ok [mm_inv]:
  assumes "cache_ok c"
  shows "cache_ok (reset_reservations c)"
proof -
  have "covered (b\<lparr>ab_reserved := 0\<rparr>)" if "covered b" for b
    using that by (simp add: covered_def)
  then show ?thesis
    using assms by (auto simp: cache_ok_def reset_reservations_hm_ok reset_reservations_get)
qed

interpretation ledger: machine balance_step cache_ok order_sized
proof
  show "cache_ok (balance_step c op)" if "cache_ok c" "order_sized op" for c op
    using that by (cases op) (auto intro: mm_inv)
qed

text \<open>What the venue reported is never changed by the order flow.\<close>

definition same_venue :: "balance_cache \<Rightarrow> balance_cache \<Rightarrow> bool" where
  "same_venue c c' \<longleftrightarrow>
     (\<forall>k. map_option (\<lambda>b. (ab_total b, ab_locked b)) (hm_get (bc_balances c') k)
        = map_option (\<lambda>b. (ab_total b, ab_locked b)) (hm_get (bc_balances c) k))
     \<and> bc_configured_wallet c' = bc_configured_wallet c \<and> bc_paper_mode c' = bc_paper_mode c"

lemma balance_step_same_venue: "cache_ok c \<Longrightarrow> same_venue c (balance_step c op)"
  by (cases op)
    (auto simp: same_venue_def reserve_in_def release_in_def reset_reservations_get cache_ok_def hm_simps
      reset_reservations_fields option.map_comp comp_def split: prod.splits option.splits)

subsection \<open>Properties\<close>

text \<open>
  C8: between two balance reports of the venue, no sequence of reservations, releases and resets
  for orders of non-negative size over-commits a wallet: if every balance was covered, every
  balance stays covered (its reservations are non-negative and at most its free balance), and
  the totals the venue reported are unchanged.
\<close>

theorem no_overcommit:
  assumes "cache_ok c" and "list_all order_sized ops"
    and "hm_get (bc_balances (foldl balance_step c ops)) k = Some b'"
  shows "\<exists>b. hm_get (bc_balances c) k = Some b \<and> ab_total b' = ab_total b \<and> ab_locked b' = ab_locked b
    \<and> 0 \<le> ab_reserved b' \<and> ab_reserved b' \<le> ab_total b - ab_locked b"
proof -
  have "cache_ok (foldl balance_step c ops)"
    by (rule ledger.inv_run [OF assms(1,2)])
  then have cov: "covered b'"
    using assms(3) unfolding cache_ok_def by blast
  have "same_venue c (foldl balance_step c ops)"
    by (rule ledger.run_related [where rel = same_venue])
      (use assms(1,2) balance_step_same_venue in \<open>simp_all add: same_venue_def\<close>)
  then have "map_option (\<lambda>b. (ab_total b, ab_locked b)) (hm_get (bc_balances (foldl balance_step c ops)) k)
      = map_option (\<lambda>b. (ab_total b, ab_locked b)) (hm_get (bc_balances c) k)"
    unfolding same_venue_def by blast
  then have "map_option (\<lambda>b. (ab_total b, ab_locked b)) (hm_get (bc_balances c) k)
      = Some (ab_total b', ab_locked b')"
    using assms(3) by simp
  then show ?thesis
    using cov by (auto simp: covered_def)
qed

definition example_cache :: balance_cache where
  "example_cache = update_from_exchange (bc_new_for Spot)
     [\<lparr>bal_asset = ''USDT'', bal_wallet = Spot, bal_total = 1000, bal_locked = 100, bal_available = 900\<rparr>,
      \<lparr>bal_asset = ''USDT'', bal_wallet = Margin, bal_total = 50, bal_locked = 0, bal_available = 50\<rparr>]"

lemma example_cache_balances:
  "bc_balances example_cache =
     [((''USDT'', Spot), \<lparr>ab_total = 1000, ab_locked = 100, ab_reserved = 0\<rparr>),
      ((''USDT'', Margin), \<lparr>ab_total = 50, ab_locked = 0, ab_reserved = 0\<rparr>)]"
  "\<not> bc_paper_mode example_cache"
  by (simp_all add: example_cache_def update_from_exchange_def bc_new_for_def update_one_balance_def
      hm_get_def hm_insert_def Let_def)

lemma example_cache_ok: "cache_ok example_cache"
  by (simp add: cache_ok_def example_cache_balances hm_ok_def hm_get_def covered_def)

theorem no_overcommit_witness:
  "let ops = [Reserve Buy 100 8 ''BTC'' ''USDT'' Spot, Reserve Buy 100 2 ''BTC'' ''USDT'' Spot];
       c' = foldl balance_step example_cache ops
   in \<exists>b b'. hm_get (bc_balances c') (''USDT'', Spot) = Some b' \<and> ab_reserved b' = 800
        \<and> hm_get (bc_balances example_cache) (''USDT'', Spot) = Some b
        \<and> ab_reserved b' \<le> ab_total b - ab_locked b"
proof -
  let ?ops = "[Reserve Buy 100 8 ''BTC'' ''USDT'' Spot, Reserve Buy 100 2 ''BTC'' ''USDT'' Spot]"
  have adm: "list_all order_sized ?ops" by simp
  have r: "hm_get (bc_balances (foldl balance_step example_cache ?ops)) (''USDT'', Spot)
      = Some \<lparr>ab_total = 1000, ab_locked = 100, ab_reserved = 800\<rparr>"
    by (simp add: reserve_in_def required_def example_cache_balances hm_get_def hm_insert_def ab_available_def)
  show ?thesis
    using no_overcommit [OF example_cache_ok adm r] r by auto
qed

text \<open>
  A granted reservation lowers the available balance of exactly one asset and wallet by
  exactly the order's cost and leaves every other balance alone, and releasing the same order
  restores the cache.
\<close>

theorem reserve_release_roundtrip:
  assumes "cache_ok c" and "\<not> bc_paper_mode c" and "0 \<le> p" and "0 \<le> q"
    and "reserve_in c s p q base quote w = (c', True)"
  shows "(case required s p q base quote of (asset, amount) \<Rightarrow>
      available_in c' asset w = available_in c asset w - amount
      \<and> (\<forall>a v. (a, v) \<noteq> (asset, w) \<longrightarrow> available_in c' a v = available_in c a v))
    \<and> release_in c' s p q base quote w = c"
proof -
  obtain asset amount where req: "required s p q base quote = (asset, amount)" by fastforce
  have pos: "0 \<le> amount" using required_nonneg [OF assms(3,4), of s base quote] req by simp
  have ok: "hm_ok (bc_balances c)" using assms(1) by (simp add: cache_ok_def)
  obtain b where b: "hm_get (bc_balances c) (asset, w) = Some b" "amount \<le> ab_available b"
    and c': "c' = c\<lparr>bc_balances := hm_insert (asset, w) (b\<lparr>ab_reserved := ab_reserved b + amount\<rparr>) (bc_balances c)\<rparr>"
    using assms(2,5) req by (auto simp: reserve_in_def split: option.splits if_splits)
  have cov: "covered b" using assms(1) b(1) by (auto simp: cache_ok_def)
  then have "ab_available (b\<lparr>ab_reserved := ab_reserved b + amount\<rparr>) = ab_available b - amount"
    using b(2) pos by (auto simp: ab_available_def covered_def max_def)
  moreover have "max (ab_reserved b + amount - amount) 0 = ab_reserved b"
    using cov by (simp add: covered_def)
  ultimately show ?thesis
    using ok b(1) by (auto simp: req c' available_in_def release_in_def hm_simps hm_insert_insert hm_insert_same)
qed

theorem reserve_release_roundtrip_witness:
  "\<exists>c'. reserve_in example_cache Buy 100 8 ''BTC'' ''USDT'' Spot = (c', True)
     \<and> available_in c' ''USDT'' Spot = 100 \<and> available_in c' ''USDT'' Margin = 50
     \<and> release_in c' Buy 100 8 ''BTC'' ''USDT'' Spot = example_cache"
proof -
  have snd: "snd (reserve_in example_cache Buy 100 8 ''BTC'' ''USDT'' Spot)"
    and av: "available_in example_cache ''USDT'' Spot = 900" "available_in example_cache ''USDT'' Margin = 50"
    by (simp_all add: reserve_in_def required_def example_cache_balances hm_get_def ab_available_def available_in_def)
  then obtain c' where c': "reserve_in example_cache Buy 100 8 ''BTC'' ''USDT'' Spot = (c', True)"
    by (metis prod.collapse)
  show ?thesis
    using reserve_release_roundtrip [OF example_cache_ok example_cache_balances(2) _ _ c'] c' av
    by (auto simp: required_def)
qed

text \<open>
  Outside paper mode the affordability check and the reservation agree on every order that
  needs a positive amount: an order is reserved exactly when the check says it is affordable,
  and a refused order changes nothing.
\<close>

theorem reserve_iff_can_afford:
  assumes "\<not> bc_paper_mode c" and "0 < snd (required s p q base quote)"
  shows "snd (reserve_in c s p q base quote w) = can_afford_in c s p q base quote w
    \<and> (\<not> can_afford_in c s p q base quote w \<longrightarrow> fst (reserve_in c s p q base quote w) = c)"
  using assms
  by (auto simp: reserve_in_def can_afford_in_def required_def available_in_def
      split: side.splits option.splits)

theorem reserve_iff_can_afford_witness:
  "\<not> snd (reserve_in example_cache Buy 100 10 ''BTC'' ''USDT'' Spot)
   \<and> \<not> can_afford_in example_cache Buy 100 10 ''BTC'' ''USDT'' Spot"
proof -
  have pos: "0 < snd (required Buy 100 10 ''BTC'' ''USDT'')" by (simp add: required_def)
  have "\<not> can_afford_in example_cache Buy 100 10 ''BTC'' ''USDT'' Spot"
    by (simp add: can_afford_in_def available_in_def example_cache_balances hm_get_def ab_available_def)
  then show ?thesis
    using reserve_iff_can_afford [OF example_cache_balances(2) pos, of Spot] by simp
qed

end
