(* ===== verification/Connector.thy ===== *)
theory Connector
  imports Common_Types
begin

section \<open>The exchange connector\<close>

text \<open>
  The trait \<^verbatim>\<open>ExchangeConnector\<close> of \<^verbatim>\<open>crates/exchange/core/src/connector.rs\<close>, as far as the
  order manager uses it. The venue behind it is not part of the program, so a connector is a
  record of functions over an arbitrary venue state, and the two other effects of the order
  manager, a fresh UUID and the clock, are read from the same state. An error is its text.

  The locale \<open>venue\<close> states what the order manager relies on: an id the venue or the UUID
  generator hands out was never handed out before, and a batch returns at most one id per order.
  The in-memory connector of the engine's tests (\<^verbatim>\<open>crates/engine/src/test_support.rs\<close>) keeps
  this contract.
\<close>

record new_order =
  no_symbol :: string
  no_side :: side
  no_order_type :: order_type
  no_price :: "price option"
  no_qty :: qty
  no_time_in_force :: "time_in_force option"
  no_client_order_id :: "string option"
  no_reduce_only :: bool

record amend_request =
  am_order_id :: order_id
  am_symbol :: string
  am_new_price :: "price option"
  am_new_qty :: "qty option"

record 'v connector =
  supports_amend :: bool
  max_batch_size :: nat
  classify_error :: "string \<Rightarrow> string"
  place_order :: "new_order \<Rightarrow> 'v \<Rightarrow> (string + order_id) \<times> 'v"
  place_orders_batch :: "new_order list \<Rightarrow> 'v \<Rightarrow> (string + order_id list) \<times> 'v"
  cancel_order :: "string \<Rightarrow> order_id \<Rightarrow> 'v \<Rightarrow> (string + unit) \<times> 'v"
  cancel_orders_batch :: "string \<Rightarrow> order_id list \<Rightarrow> 'v \<Rightarrow> (string + unit) \<times> 'v"
  amend_order :: "amend_request \<Rightarrow> 'v \<Rightarrow> (string + unit) \<times> 'v"
  get_open_orders :: "string \<Rightarrow> 'v \<Rightarrow> (string + live_order list) \<times> 'v"
  new_v4 :: "'v \<Rightarrow> uuid \<times> 'v"
  utc_now :: "'v \<Rightarrow> timestamp \<times> 'v"

text \<open>The trait's default \<^verbatim>\<open>amend_order\<close>: cancel and place again.\<close>

definition amend_default ::
  "(string \<Rightarrow> order_id \<Rightarrow> 'v \<Rightarrow> (string + unit) \<times> 'v) \<Rightarrow> (new_order \<Rightarrow> 'v \<Rightarrow> (string + order_id) \<times> 'v)
    \<Rightarrow> amend_request \<Rightarrow> 'v \<Rightarrow> (string + unit) \<times> 'v" where
  "amend_default cancel place a v =
     (case cancel (am_symbol a) (am_order_id a) v of
        (Inl e, v1) \<Rightarrow> (Inl e, v1)
      | (Inr _, v1) \<Rightarrow>
          (case place \<lparr>no_symbol = am_symbol a, no_side = Buy, no_order_type = Limit,
                       no_price = am_new_price a,
                       no_qty = (case am_new_qty a of None \<Rightarrow> 0 | Some q \<Rightarrow> q),
                       no_time_in_force = Some PostOnly, no_client_order_id = None,
                       no_reduce_only = False\<rparr> v1 of
             (Inl e, v2) \<Rightarrow> (Inl e, v2)
           | (Inr _, v2) \<Rightarrow> (Inr (), v2)))"

subsection \<open>What the order manager relies on\<close>

locale venue =
  fixes conn :: "'v connector"
    and issued :: "'v \<Rightarrow> order_id set"
  assumes place_fresh: "place_order conn no v = (Inr i, v') \<Longrightarrow> i \<notin> issued v \<and> issued v' = insert i (issued v)"
    and place_error: "place_order conn no v = (Inl e, v') \<Longrightarrow> issued v \<subseteq> issued v'"
    and batch_fresh: "place_orders_batch conn nos v = (Inr is, v') \<Longrightarrow>
      length is \<le> length nos \<and> distinct is \<and> set is \<inter> issued v = {} \<and> issued v' = issued v \<union> set is"
    and batch_error: "place_orders_batch conn nos v = (Inl e, v') \<Longrightarrow> issued v \<subseteq> issued v'"
    and cancel_issued: "issued v \<subseteq> issued (snd (cancel_order conn s i v))"
    and cancel_batch_issued: "issued v \<subseteq> issued (snd (cancel_orders_batch conn s is v))"
    and amend_issued: "issued v \<subseteq> issued (snd (amend_order conn a v))"
    and open_issued: "issued v \<subseteq> issued (snd (get_open_orders conn s v))"
    and uuid_fresh: "new_v4 conn v = (i, v') \<Longrightarrow> i \<notin> issued v \<and> issued v' = insert i (issued v)"
    and now_issued: "issued (snd (utc_now conn v)) = issued v"

subsection \<open>The in-memory connector of the engine's tests\<close>

text \<open>The part of \<^verbatim>\<open>MockConnector\<close> the order operations touch. Its UUIDs and its clock are
  counters.\<close>

record mock_connector =
  mk_placed :: "new_order list"
  mk_cancelled :: "order_id list"
  mk_place_batch_calls :: nat
  mk_place_single_calls :: nat
  mk_cancel_batch_calls :: nat
  mk_cancel_single_calls :: nat
  mk_fail_next_batch_place :: bool
  mk_fail_next_batch_cancel :: bool
  mk_open_orders :: "live_order list"
  mk_next_uuid :: uuid
  mk_clock :: timestamp

definition mock_new_v4 :: "mock_connector \<Rightarrow> uuid \<times> mock_connector" where
  "mock_new_v4 m = (mk_next_uuid m, m\<lparr>mk_next_uuid := mk_next_uuid m + 1\<rparr>)"

definition mock_place_order :: "new_order \<Rightarrow> mock_connector \<Rightarrow> (string + order_id) \<times> mock_connector" where
  "mock_place_order no m =
     (case mock_new_v4 (m\<lparr>mk_place_single_calls := mk_place_single_calls m + 1,
                          mk_placed := mk_placed m @ [no]\<rparr>) of
        (i, m') \<Rightarrow> (Inr i, m'))"

definition mock_place_orders_batch ::
  "new_order list \<Rightarrow> mock_connector \<Rightarrow> (string + order_id list) \<times> mock_connector" where
  "mock_place_orders_batch nos m =
     (let m1 = m\<lparr>mk_place_batch_calls := mk_place_batch_calls m + 1\<rparr>
      in if mk_fail_next_batch_place m1
         then (Inl ''injected batch place failure'', m1\<lparr>mk_fail_next_batch_place := False\<rparr>)
         else case for_each (\<lambda>no m. mock_new_v4 (m\<lparr>mk_placed := mk_placed m @ [no]\<rparr>)) nos m1 of
                (is, m2) \<Rightarrow> (Inr is, m2))"

definition mock_cancel_order ::
  "string \<Rightarrow> order_id \<Rightarrow> mock_connector \<Rightarrow> (string + unit) \<times> mock_connector" where
  "mock_cancel_order s i m =
     (Inr (), m\<lparr>mk_cancel_single_calls := mk_cancel_single_calls m + 1,
                mk_cancelled := mk_cancelled m @ [i]\<rparr>)"

definition mock_cancel_orders_batch ::
  "string \<Rightarrow> order_id list \<Rightarrow> mock_connector \<Rightarrow> (string + unit) \<times> mock_connector" where
  "mock_cancel_orders_batch s is m =
     (let m1 = m\<lparr>mk_cancel_batch_calls := mk_cancel_batch_calls m + 1\<rparr>
      in if mk_fail_next_batch_cancel m1
         then (Inl ''injected batch cancel failure'', m1\<lparr>mk_fail_next_batch_cancel := False\<rparr>)
         else (Inr (), m1\<lparr>mk_cancelled := mk_cancelled m1 @ is\<rparr>))"

definition mock_conn :: "nat \<Rightarrow> mock_connector connector" where
  "mock_conn batch =
     \<lparr>supports_amend = False, max_batch_size = batch, classify_error = (\<lambda>e. e),
      place_order = mock_place_order, place_orders_batch = mock_place_orders_batch,
      cancel_order = mock_cancel_order, cancel_orders_batch = mock_cancel_orders_batch,
      amend_order = amend_default mock_cancel_order mock_place_order,
      get_open_orders = (\<lambda>s m. (Inr (mk_open_orders m), m)),
      new_v4 = mock_new_v4,
      utc_now = (\<lambda>m. (mk_clock m, m\<lparr>mk_clock := mk_clock m + 1\<rparr>))\<rparr>"

definition mock_new :: mock_connector where
  "mock_new =
     \<lparr>mk_placed = [], mk_cancelled = [], mk_place_batch_calls = 0, mk_place_single_calls = 0,
      mk_cancel_batch_calls = 0, mk_cancel_single_calls = 0, mk_fail_next_batch_place = False,
      mk_fail_next_batch_cancel = False, mk_open_orders = [], mk_next_uuid = 0, mk_clock = 0\<rparr>"

definition mock_issued :: "mock_connector \<Rightarrow> order_id set" where
  "mock_issued m = {i. i < mk_next_uuid m}"

lemma mock_batch_ids:
  "for_each (\<lambda>no m. mock_new_v4 (m\<lparr>mk_placed := mk_placed m @ [no]\<rparr>)) nos m = (is, m') \<Longrightarrow>
   mk_next_uuid m' = mk_next_uuid m + length nos
   \<and> is = [mk_next_uuid m ..< mk_next_uuid m + length nos]"
proof (induction nos arbitrary: m "is")
  case Nil
  then show ?case by simp
next
  case (Cons no nos)
  let ?m = "m\<lparr>mk_placed := mk_placed m @ [no], mk_next_uuid := mk_next_uuid m + 1\<rparr>"
  obtain js where js: "for_each (\<lambda>no m. mock_new_v4 (m\<lparr>mk_placed := mk_placed m @ [no]\<rparr>)) nos ?m = (js, m')"
    and "is": "is = mk_next_uuid m # js"
    using Cons.prems by (auto simp: mock_new_v4_def split: prod.splits)
  show ?case
    using Cons.IH [OF js] by (simp add: "is" upt_conv_Cons del: upt_Suc)
qed

interpretation mock: venue "mock_conn batch" mock_issued for batch
proof unfold_locales
  fix no :: new_order and v i v'
  assume "place_order (mock_conn batch) no v = (Inr i, v')"
  then show "i \<notin> mock_issued v \<and> mock_issued v' = insert i (mock_issued v)"
    by (auto simp: mock_conn_def mock_place_order_def mock_new_v4_def mock_issued_def)
next
  fix nos :: "new_order list" and v "is" v'
  assume "place_orders_batch (mock_conn batch) nos v = (Inr is, v')"
  then have "mk_next_uuid v' = mk_next_uuid v + length nos
      \<and> is = [mk_next_uuid v ..< mk_next_uuid v + length nos]"
    by (auto simp: mock_conn_def mock_place_orders_batch_def Let_def dest: mock_batch_ids
        split: if_splits prod.splits)
  then show "length is \<le> length nos \<and> distinct is \<and> set is \<inter> mock_issued v = {}
      \<and> mock_issued v' = mock_issued v \<union> set is"
    by (auto simp: mock_issued_def)
qed (auto simp: mock_conn_def mock_place_order_def mock_place_orders_batch_def mock_cancel_order_def
    mock_cancel_orders_batch_def mock_new_v4_def mock_issued_def amend_default_def Let_def
    split: if_splits prod.splits)

end
