(* ===== verification/Order_Manager.thy ===== *)
theory Order_Manager
  imports Std_Maps Connector "HOL-Library.Product_Lexorder"
begin

section \<open>The order manager\<close>

text \<open>
  \<^verbatim>\<open>crates/engine/src/order_manager.rs\<close>: the book of our live orders, the diff of the desired
  quotes against it, and its execution on a venue. Every operation that changes state is a
  definition over the pair of the manager and the venue state; \<open>None\<close> is a panic (a zero tick,
  an out-of-range slice). The surveillance tracker is the tape of events fed to it; its
  identifiers are the ids themselves instead of their debug text. Log lines and the counters
  that only feed them are left out.
\<close>

datatype surveillance_event =
    OrderPlaced order_id string side price qty timestamp
  | OrderCancelled order_id string timestamp

record order_manager =
  om_live_orders :: "(order_id, live_order) hash_map"
  om_price_index :: "(side \<times> price, order_id) hash_map"
  om_paper_mode :: bool
  om_surveillance :: "surveillance_event list option"

type_synonym 'v om_state = "order_manager \<times> 'v"

datatype batch_place_outcome =
    Placed order_id
  | PlacedFallback order_id
  | PlaceFailed string
  | Unacknowledged string

datatype batch_cancel_outcome = CancelDone | CancelledFallback | CancelFailed string

record amend_plan_entry =
  ae_order_id :: order_id
  ae_side :: side
  ae_old_price :: price
  ae_new_price :: price
  ae_qty :: qty

record order_diff_plan =
  to_cancel :: "order_id list"
  to_amend :: "amend_plan_entry list"
  to_place :: "quote list"

definition MIN_BATCH_SIZE :: nat where
  "MIN_BATCH_SIZE = 2"

definition om_new :: order_manager where
  "om_new = \<lparr>om_live_orders = [], om_price_index = [], om_paper_mode = False, om_surveillance = None\<rparr>"

definition om_new_paper :: order_manager where
  "om_new_paper = \<lparr>om_live_orders = [], om_price_index = [], om_paper_mode = True, om_surveillance = None\<rparr>"

definition attach_surveillance :: "surveillance_event list \<Rightarrow> order_manager \<Rightarrow> order_manager" where
  "attach_surveillance tape m = m\<lparr>om_surveillance := Some tape\<rparr>"

definition feed_surveillance :: "surveillance_event \<Rightarrow> order_manager \<Rightarrow> order_manager" where
  "feed_surveillance ev m =
     (case om_surveillance m of
        None \<Rightarrow> m
      | Some tape \<Rightarrow> m\<lparr>om_surveillance := Some (tape @ [ev])\<rparr>)"

definition live_count :: "order_manager \<Rightarrow> nat" where
  "live_count m = length (om_live_orders m)"

definition live_order_ids :: "order_manager \<Rightarrow> order_id list" where
  "live_order_ids m = map fst (om_live_orders m)"

definition remaining :: "live_order \<Rightarrow> qty" where
  "remaining o' = lo_qty o' - lo_filled_qty o'"

definition locked_value_quote :: "order_manager \<Rightarrow> qty" where
  "locked_value_quote m = sum_list (map (\<lambda>(i, o'). lo_price o' * remaining o') (om_live_orders m))"

primrec status_label :: "order_status \<Rightarrow> string" where
  "status_label Open = ''live''"
| "status_label PartiallyFilled = ''live''"
| "status_label Filled = ''filled''"
| "status_label Cancelled = ''cancelling''"
| "status_label Rejected = ''rejected''"

definition live_orders_snapshot :: "order_manager \<Rightarrow> (order_id \<times> side \<times> price \<times> qty \<times> string) list" where
  "live_orders_snapshot m =
     map (\<lambda>(i, o'). (lo_order_id o', lo_side o', lo_price o', remaining o', status_label (lo_status o')))
       (om_live_orders m)"

subsection \<open>The diff\<close>

type_synonym desired_map = "(side \<times> price, qty) hash_map"
type_synonym stale_entry = "side \<times> price \<times> qty \<times> order_id"
type_synonym new_entry = "side \<times> price \<times> qty"

definition add_desired ::
  "(decimal \<Rightarrow> decimal \<Rightarrow> decimal) \<Rightarrow> product_spec \<Rightarrow> side \<Rightarrow> quote option \<Rightarrow> desired_map \<Rightarrow> desired_map option" where
  "add_desired ddiv product s quo d =
     (case quo of
        None \<Rightarrow> Some d
      | Some q \<Rightarrow> map_option (\<lambda>p. hm_insert (s, p) (q_qty q) d) (round_price ddiv product (q_price q)))"

primrec desired_prices ::
  "(decimal \<Rightarrow> decimal \<Rightarrow> decimal) \<Rightarrow> product_spec \<Rightarrow> quote_pair list \<Rightarrow> desired_map \<Rightarrow> desired_map option" where
  "desired_prices ddiv product [] d = Some d"
| "desired_prices ddiv product (pair # pairs) d =
     Option.bind (add_desired ddiv product Buy (qp_bid pair) d) (\<lambda>d1.
     Option.bind (add_desired ddiv product Sell (qp_ask pair) d1) (\<lambda>d2.
     desired_prices ddiv product pairs d2))"

definition stale_entries :: "order_manager \<Rightarrow> desired_map \<Rightarrow> stale_entry list" where
  "stale_entries m d =
     List.map_filter
       (\<lambda>((s, p), i).
          if hm_contains d (s, p) then None
          else map_option (\<lambda>o'. (s, p, remaining o', i)) (hm_get (om_live_orders m) i))
       (om_price_index m)"

definition new_entries :: "order_manager \<Rightarrow> desired_map \<Rightarrow> new_entry list" where
  "new_entries m d =
     List.map_filter
       (\<lambda>((s, p), q). if hm_contains (om_price_index m) (s, p) then None else Some (s, p, q)) d"

primrec side_key :: "side \<Rightarrow> nat" where
  "side_key Buy = 0"
| "side_key Sell = 1"

fun nearest_loop ::
  "bool list \<Rightarrow> decimal \<Rightarrow> new_entry \<Rightarrow> nat \<Rightarrow> stale_entry list \<Rightarrow> nat option \<Rightarrow> decimal \<Rightarrow> nat option" where
  "nearest_loop consumed max_distance new i [] best_idx best_distance = best_idx"
| "nearest_loop consumed max_distance (s, new_price, new_qty) i ((s_side, s_price, s_qty, _) # rest)
       best_idx best_distance =
     (if consumed ! i \<or> s_side \<noteq> s \<or> s_qty \<noteq> new_qty
      then nearest_loop consumed max_distance (s, new_price, new_qty) (i + 1) rest best_idx best_distance
      else let distance = \<bar>new_price - s_price\<bar>
           in if distance \<le> max_distance \<and> distance < best_distance
              then nearest_loop consumed max_distance (s, new_price, new_qty) (i + 1) rest (Some i) distance
              else nearest_loop consumed max_distance (s, new_price, new_qty) (i + 1) rest best_idx best_distance)"

fun pair_amends ::
  "stale_entry list \<Rightarrow> decimal \<Rightarrow> bool list \<Rightarrow> new_entry list
    \<Rightarrow> new_entry list \<times> amend_plan_entry list \<times> bool list" where
  "pair_amends stale max_distance consumed [] = ([], [], consumed)"
| "pair_amends stale max_distance consumed ((s, new_price, new_qty) # new_quotes) =
     (case nearest_loop consumed max_distance (s, new_price, new_qty) 0 stale None (max_distance + 1) of
        Some idx \<Rightarrow>
          (case stale ! idx of (_, old_price, qty, order_id) \<Rightarrow>
           case pair_amends stale max_distance (consumed[idx := True]) new_quotes of (kept, amends, c) \<Rightarrow>
             (kept,
              \<lparr>ae_order_id = order_id, ae_side = s, ae_old_price = old_price,
               ae_new_price = new_price, ae_qty = qty\<rparr> # amends,
              c))
      | None \<Rightarrow>
          (case pair_amends stale max_distance consumed new_quotes of (kept, amends, c) \<Rightarrow>
             ((s, new_price, new_qty) # kept, amends, c)))"

definition retain_unconsumed :: "stale_entry list \<Rightarrow> bool list \<Rightarrow> stale_entry list" where
  "retain_unconsumed stale consumed = map fst (filter (\<lambda>(e, c). \<not> c) (zip stale consumed))"

definition diff_plan ::
  "order_manager \<Rightarrow> desired_map \<Rightarrow> product_spec \<Rightarrow> u32 \<Rightarrow> order_diff_plan" where
  "diff_plan m d product amend_epsilon_ticks =
     (let stale = sort_key (\<lambda>(s, p, _). (side_key s, p)) (stale_entries m d);
          new_quotes = sort_key (\<lambda>(s, p, _). (side_key s, p)) (new_entries m d);
          (new_quotes', amends, stale') =
            (if 0 < amend_epsilon_ticks
             then case pair_amends stale (ps_tick_size product * of_nat (unat amend_epsilon_ticks))
                         (replicate (length stale) False) new_quotes of
                    (kept, amends, consumed) \<Rightarrow> (kept, amends, retain_unconsumed stale consumed)
             else (new_quotes, [], stale))
      in \<lparr>to_cancel = map (\<lambda>(_, _, _, i). i) stale',
          to_amend = amends,
          to_place = map (\<lambda>(s, p, q). \<lparr>q_side = s, q_price = p, q_qty = q\<rparr>) new_quotes'\<rparr>)"

definition diff_orders ::
  "(decimal \<Rightarrow> decimal \<Rightarrow> decimal) \<Rightarrow> order_manager \<Rightarrow> quote_pair list \<Rightarrow> product_spec \<Rightarrow> u32
    \<Rightarrow> order_diff_plan option" where
  "diff_orders ddiv m desired product amend_epsilon_ticks =
     map_option (\<lambda>d. diff_plan m d product amend_epsilon_ticks) (desired_prices ddiv product desired [])"

subsection \<open>Tracking\<close>

definition track_order :: "'v connector \<Rightarrow> live_order \<Rightarrow> 'v om_state \<Rightarrow> 'v om_state" where
  "track_order conn ord mv =
     (case utc_now conn (snd mv) of (ts, v1) \<Rightarrow>
        let m1 = feed_surveillance
                   (OrderPlaced (lo_order_id ord) (lo_symbol ord) (lo_side ord) (lo_price ord) (lo_qty ord) ts)
                   (fst mv)
        in (m1\<lparr>om_price_index := hm_insert (lo_side ord, lo_price ord) (lo_order_id ord) (om_price_index m1),
               om_live_orders := hm_insert (lo_order_id ord) ord (om_live_orders m1)\<rparr>, v1))"

definition remove_order :: "'v connector \<Rightarrow> order_id \<Rightarrow> 'v om_state \<Rightarrow> 'v om_state" where
  "remove_order conn i mv =
     (case hm_get (om_live_orders (fst mv)) i of
        None \<Rightarrow> mv
      | Some ord \<Rightarrow>
          (case utc_now conn (snd mv) of (ts, v1) \<Rightarrow>
             let m1 = feed_surveillance (OrderCancelled i (lo_symbol ord) ts)
                        ((fst mv)\<lparr>om_live_orders := hm_remove i (om_live_orders (fst mv))\<rparr>)
             in (m1\<lparr>om_price_index := hm_remove (lo_side ord, lo_price ord) (om_price_index m1)\<rparr>, v1)))"

definition reprice_order :: "order_id \<Rightarrow> price \<Rightarrow> order_manager \<Rightarrow> order_manager" where
  "reprice_order i new_price m =
     (case hm_get (om_live_orders m) i of
        None \<Rightarrow> m
      | Some ord \<Rightarrow>
          m\<lparr>om_live_orders := hm_insert i (ord\<lparr>lo_price := new_price\<rparr>) (om_live_orders m),
            om_price_index := hm_insert (lo_side ord, new_price) i
              (hm_remove (lo_side ord, lo_price ord) (om_price_index m))\<rparr>)"

definition on_fill :: "'v connector \<Rightarrow> order_id \<Rightarrow> qty \<Rightarrow> 'v om_state \<Rightarrow> 'v om_state" where
  "on_fill conn i filled_qty mv =
     (case hm_get (om_live_orders (fst mv)) i of
        None \<Rightarrow> mv
      | Some ord \<Rightarrow>
          let ord' = ord\<lparr>lo_filled_qty := lo_filled_qty ord + filled_qty\<rparr>;
              m1 = (fst mv)\<lparr>om_live_orders := hm_insert i ord' (om_live_orders (fst mv))\<rparr>
          in if lo_qty ord' \<le> lo_filled_qty ord'
             then remove_order conn (lo_order_id ord') (m1, snd mv)
             else (m1, snd mv))"

text \<open>The literal every placement path tracks: a fresh open order stamped with the clock.\<close>

definition track_new ::
  "'v connector \<Rightarrow> string \<Rightarrow> side \<Rightarrow> price \<Rightarrow> qty \<Rightarrow> order_id \<Rightarrow> 'v om_state \<Rightarrow> 'v om_state" where
  "track_new conn symbol s p q i mv =
     (case utc_now conn (snd mv) of (ts, v1) \<Rightarrow>
        track_order conn
          \<lparr>lo_order_id = i, lo_symbol = symbol, lo_side = s, lo_price = p, lo_qty = q,
           lo_filled_qty = 0, lo_status = Open, lo_created_at = ts\<rparr> (fst mv, v1))"

definition limit_order :: "string \<Rightarrow> side \<Rightarrow> price \<Rightarrow> qty \<Rightarrow> time_in_force \<Rightarrow> bool \<Rightarrow> new_order" where
  "limit_order symbol s p q tif reduce =
     \<lparr>no_symbol = symbol, no_side = s, no_order_type = Limit, no_price = Some p, no_qty = q,
      no_time_in_force = Some tif, no_client_order_id = None, no_reduce_only = reduce\<rparr>"

subsection \<open>Placing\<close>

definition place_one_quote_outcome ::
  "'v connector \<Rightarrow> string \<Rightarrow> quote \<Rightarrow> 'v om_state \<Rightarrow> batch_place_outcome \<times> 'v om_state" where
  "place_one_quote_outcome conn symbol quo mv =
     (if om_paper_mode (fst mv) then
        (case new_v4 conn (snd mv) of (i, v1) \<Rightarrow>
           (Placed i, track_new conn symbol (q_side quo) (q_price quo) (q_qty quo) i (fst mv, v1)))
      else
        case place_order conn (limit_order symbol (q_side quo) (q_price quo) (q_qty quo) PostOnly False) (snd mv) of
          (Inr i, v1) \<Rightarrow>
            (Placed i, track_new conn symbol (q_side quo) (q_price quo) (q_qty quo) i (fst mv, v1))
        | (Inl e, v1) \<Rightarrow> (PlaceFailed (classify_error conn e), (fst mv, v1)))"

definition place_one_quote_fallback ::
  "'v connector \<Rightarrow> string \<Rightarrow> quote \<Rightarrow> 'v om_state \<Rightarrow> batch_place_outcome \<times> 'v om_state" where
  "place_one_quote_fallback conn symbol quo mv =
     (case place_one_quote_outcome conn symbol quo mv of
        (Placed i, mv') \<Rightarrow> (PlacedFallback i, mv')
      | other \<Rightarrow> other)"

definition place_one_quote_unack ::
  "'v connector \<Rightarrow> string \<Rightarrow> quote \<Rightarrow> 'v om_state \<Rightarrow> batch_place_outcome \<times> 'v om_state" where
  "place_one_quote_unack conn symbol quo mv =
     (case place_one_quote_outcome conn symbol quo mv of
        (Placed i, mv') \<Rightarrow> (PlacedFallback i, mv')
      | (PlaceFailed r, mv') \<Rightarrow> (Unacknowledged r, mv')
      | other \<Rightarrow> other)"

definition track_acked ::
  "'v connector \<Rightarrow> string \<Rightarrow> order_id \<times> quote \<Rightarrow> 'v om_state \<Rightarrow> batch_place_outcome \<times> 'v om_state" where
  "track_acked conn symbol iq mv =
     (Placed (fst iq),
      track_new conn symbol (q_side (snd iq)) (q_price (snd iq)) (q_qty (snd iq)) (fst iq) mv)"

definition place_chunk ::
  "'v connector \<Rightarrow> string \<Rightarrow> quote list \<Rightarrow> 'v om_state \<Rightarrow> (batch_place_outcome list \<times> 'v om_state) option" where
  "place_chunk conn symbol chunk mv =
     (case place_orders_batch conn
             (map (\<lambda>quo. limit_order symbol (q_side quo) (q_price quo) (q_qty quo) PostOnly False) chunk)
             (snd mv) of
        (Inr ids, v1) \<Rightarrow>
          (if length ids = length chunk
           then Some (for_each (track_acked conn symbol) (zip ids chunk) (fst mv, v1))
           else
             (case for_each (track_acked conn symbol) (zip ids chunk) (fst mv, v1) of (acked, mv1) \<Rightarrow>
                if length chunk < length ids then None
                else
                  (case for_each (place_one_quote_unack conn symbol) (drop (length ids) chunk) mv1 of
                     (retried, mv2) \<Rightarrow> Some (acked @ retried, mv2))))
      | (Inl e, v1) \<Rightarrow> Some (for_each (place_one_quote_fallback conn symbol) chunk (fst mv, v1)))"

definition place_quotes_batched ::
  "'v connector \<Rightarrow> string \<Rightarrow> quote list \<Rightarrow> 'v om_state \<Rightarrow> (batch_place_outcome list \<times> 'v om_state) option" where
  "place_quotes_batched conn symbol quotes mv =
     (if quotes = [] then Some ([], mv)
      else if om_paper_mode (fst mv)
      then Some (for_each (place_one_quote_outcome conn symbol) quotes mv)
      else
        let max_batch = max (max_batch_size conn) 1
        in if length quotes < MIN_BATCH_SIZE \<or> max_batch < MIN_BATCH_SIZE
           then Some (for_each (place_one_quote_outcome conn symbol) quotes mv)
           else map_option (\<lambda>(oss, mv'). (concat oss, mv'))
                  (try_each (place_chunk conn symbol) (chunks max_batch quotes) mv))"

subsection \<open>Cancelling\<close>

definition cancel_one_outcome ::
  "'v connector \<Rightarrow> string \<Rightarrow> order_id \<Rightarrow> 'v om_state \<Rightarrow> batch_cancel_outcome \<times> 'v om_state" where
  "cancel_one_outcome conn symbol i mv =
     (if om_paper_mode (fst mv) then (CancelDone, remove_order conn i mv)
      else
        case cancel_order conn symbol i (snd mv) of
          (Inr _, v1) \<Rightarrow> (CancelDone, remove_order conn i (fst mv, v1))
        | (Inl e, v1) \<Rightarrow> (CancelFailed (classify_error conn e), remove_order conn i (fst mv, v1)))"

definition cancel_one_fallback ::
  "'v connector \<Rightarrow> string \<Rightarrow> order_id \<Rightarrow> 'v om_state \<Rightarrow> batch_cancel_outcome \<times> 'v om_state" where
  "cancel_one_fallback conn symbol i mv =
     (case cancel_one_outcome conn symbol i mv of
        (CancelDone, mv') \<Rightarrow> (CancelledFallback, mv')
      | other \<Rightarrow> other)"

definition cancel_chunk ::
  "'v connector \<Rightarrow> string \<Rightarrow> order_id list \<Rightarrow> 'v om_state \<Rightarrow> batch_cancel_outcome list \<times> 'v om_state" where
  "cancel_chunk conn symbol chunk mv =
     (case cancel_orders_batch conn symbol chunk (snd mv) of
        (Inr _, v1) \<Rightarrow> for_each (\<lambda>i mv. (CancelDone, remove_order conn i mv)) chunk (fst mv, v1)
      | (Inl e, v1) \<Rightarrow> for_each (cancel_one_fallback conn symbol) chunk (fst mv, v1))"

definition cancel_orders_batched ::
  "'v connector \<Rightarrow> string \<Rightarrow> order_id list \<Rightarrow> 'v om_state \<Rightarrow> batch_cancel_outcome list \<times> 'v om_state" where
  "cancel_orders_batched conn symbol order_ids mv =
     (if order_ids = [] then ([], mv)
      else if om_paper_mode (fst mv) then for_each (cancel_one_outcome conn symbol) order_ids mv
      else
        let max_batch = max (max_batch_size conn) 1
        in if length order_ids < MIN_BATCH_SIZE \<or> max_batch < MIN_BATCH_SIZE
           then for_each (cancel_one_outcome conn symbol) order_ids mv
           else (case for_each (cancel_chunk conn symbol) (chunks max_batch order_ids) mv of
                   (oss, mv') \<Rightarrow> (concat oss, mv')))"

subsection \<open>Executing a diff\<close>

text \<open>One step of the amend loop: the order cancels and the quotes to place grow by a failed amend.\<close>

definition amend_one ::
  "'v connector \<Rightarrow> string \<Rightarrow> amend_plan_entry \<Rightarrow> 'v om_state
    \<Rightarrow> (order_id \<times> quote) list \<times> 'v om_state" where
  "amend_one conn symbol entry mv =
     (if om_paper_mode (fst mv)
      then ([], (reprice_order (ae_order_id entry) (ae_new_price entry) (fst mv), snd mv))
      else
        case amend_order conn \<lparr>am_order_id = ae_order_id entry, am_symbol = symbol,
                              am_new_price = Some (ae_new_price entry),
                              am_new_qty = Some (ae_qty entry)\<rparr> (snd mv) of
          (Inr _, v1) \<Rightarrow> ([], (reprice_order (ae_order_id entry) (ae_new_price entry) (fst mv), v1))
        | (Inl e, v1) \<Rightarrow>
            ([(ae_order_id entry,
               \<lparr>q_side = ae_side entry, q_price = ae_new_price entry, q_qty = ae_qty entry\<rparr>)],
             (fst mv, v1)))"

definition execute_plan ::
  "'v connector \<Rightarrow> string \<Rightarrow> order_diff_plan \<Rightarrow> 'v om_state
    \<Rightarrow> (batch_cancel_outcome list \<times> batch_place_outcome list \<times> 'v om_state) option" where
  "execute_plan conn symbol plan mv =
     (case for_each (amend_one conn symbol) (to_amend plan) mv of (failed, mv1) \<Rightarrow>
      case cancel_orders_batched conn symbol (to_cancel plan @ map fst (concat failed)) mv1 of
        (cancel_outcomes, mv2) \<Rightarrow>
          map_option (\<lambda>(place_outcomes, mv3). (cancel_outcomes, place_outcomes, mv3))
            (place_quotes_batched conn symbol (to_place plan @ map snd (concat failed)) mv2))"

definition execute_diff ::
  "(decimal \<Rightarrow> decimal \<Rightarrow> decimal) \<Rightarrow> 'v connector \<Rightarrow> string \<Rightarrow> quote_pair list \<Rightarrow> product_spec \<Rightarrow> u32
    \<Rightarrow> 'v om_state \<Rightarrow> 'v om_state option" where
  "execute_diff ddiv conn symbol desired product amend_epsilon_ticks mv =
     Option.bind
       (diff_orders ddiv (fst mv) desired product (if supports_amend conn then amend_epsilon_ticks else 0))
       (\<lambda>plan. map_option (\<lambda>(_, _, mv'). mv') (execute_plan conn symbol plan mv))"

subsection \<open>Unwind slices\<close>

definition execute_unwind_slice_flagged ::
  "(decimal \<Rightarrow> decimal \<Rightarrow> decimal) \<Rightarrow> 'v connector \<Rightarrow> string \<Rightarrow> quote \<Rightarrow> product_spec \<Rightarrow> bool
    \<Rightarrow> 'v om_state \<Rightarrow> ((string + unit) \<times> 'v om_state) option" where
  "execute_unwind_slice_flagged ddiv conn symbol quo product reduce_only mv =
     Option.bind (round_price ddiv product (q_price quo)) (\<lambda>p.
     Option.bind (round_qty ddiv product (q_qty quo)) (\<lambda>q.
       Some
         (if q = 0 then (Inr (), mv)
          else if om_paper_mode (fst mv) then
            (case new_v4 conn (snd mv) of (i, v1) \<Rightarrow>
               (Inr (), track_new conn symbol (q_side quo) p q i (fst mv, v1)))
          else
            case place_order conn (limit_order symbol (q_side quo) p q Ioc reduce_only) (snd mv) of
              (Inr i, v1) \<Rightarrow> (Inr (), track_new conn symbol (q_side quo) p q i (fst mv, v1))
            | (Inl e, v1) \<Rightarrow> (Inl e, (fst mv, v1)))))"

definition execute_unwind_slice ::
  "(decimal \<Rightarrow> decimal \<Rightarrow> decimal) \<Rightarrow> 'v connector \<Rightarrow> string \<Rightarrow> quote \<Rightarrow> product_spec
    \<Rightarrow> 'v om_state \<Rightarrow> ((string + unit) \<times> 'v om_state) option" where
  "execute_unwind_slice ddiv conn symbol quo product mv =
     execute_unwind_slice_flagged ddiv conn symbol quo product False mv"

definition execute_reduce_slice ::
  "(decimal \<Rightarrow> decimal \<Rightarrow> decimal) \<Rightarrow> 'v connector \<Rightarrow> string \<Rightarrow> quote \<Rightarrow> product_spec
    \<Rightarrow> 'v om_state \<Rightarrow> ((string + unit) \<times> 'v om_state) option" where
  "execute_reduce_slice ddiv conn symbol quo product mv =
     execute_unwind_slice_flagged ddiv conn symbol quo product True mv"

subsection \<open>Cancel all\<close>

definition remove_orders :: "'v connector \<Rightarrow> order_id list \<Rightarrow> 'v om_state \<Rightarrow> 'v om_state" where
  "remove_orders conn ids mv = fold (remove_order conn) ids mv"

definition cancel_each :: "'v connector \<Rightarrow> string \<Rightarrow> order_id list \<Rightarrow> 'v \<Rightarrow> 'v" where
  "cancel_each conn symbol ids v = fold (\<lambda>i v. snd (cancel_order conn symbol i v)) ids v"

definition issue_cancels :: "'v connector \<Rightarrow> string \<Rightarrow> order_id list \<Rightarrow> 'v \<Rightarrow> 'v" where
  "issue_cancels conn symbol ids v =
     (let max_batch = max (max_batch_size conn) 1
      in if MIN_BATCH_SIZE \<le> length ids \<and> MIN_BATCH_SIZE \<le> max_batch
         then fold (\<lambda>chunk v. case cancel_orders_batch conn symbol chunk v of
                                (Inl e, v1) \<Rightarrow> cancel_each conn symbol chunk v1
                              | (Inr _, v1) \<Rightarrow> v1)
                (chunks max_batch ids) v
         else cancel_each conn symbol ids v)"

text \<open>The verification pass: sync with the venue's open orders, retry the survivors once, sync again.\<close>

definition retry_survivors ::
  "'v connector \<Rightarrow> string \<Rightarrow> order_id list \<Rightarrow> order_id list \<Rightarrow> 'v om_state
    \<Rightarrow> (order_id list + unit) \<times> 'v om_state" where
  "retry_survivors conn symbol ids survivors mv =
     (case get_open_orders conn symbol (cancel_each conn symbol survivors (snd mv)) of
        (Inl e, v1) \<Rightarrow> (Inl survivors, (fst mv, v1))
      | (Inr final_orders, v1) \<Rightarrow>
          let final_open = lo_order_id ` set final_orders;
              survivors' = filter (\<lambda>i. i \<in> final_open) survivors;
              mv1 = remove_orders conn (filter (\<lambda>i. i \<notin> final_open) ids) (fst mv, v1)
          in if survivors' = [] then (Inr (), mv1) else (Inl survivors', mv1))"

definition verify_cancelled ::
  "'v connector \<Rightarrow> string \<Rightarrow> order_id list \<Rightarrow> live_order list \<Rightarrow> 'v om_state
    \<Rightarrow> (order_id list + unit) \<times> 'v om_state" where
  "verify_cancelled conn symbol ids venue_orders mv =
     (let still_open = lo_order_id ` set venue_orders;
          mv1 = remove_orders conn (filter (\<lambda>i. i \<notin> still_open) ids) mv;
          survivors = filter (\<lambda>i. i \<in> still_open) ids
      in if survivors = [] then (Inr (), mv1)
         else retry_survivors conn symbol ids survivors mv1)"

definition cancel_all ::
  "'v connector \<Rightarrow> string \<Rightarrow> 'v om_state \<Rightarrow> (order_id list + unit) \<times> 'v om_state" where
  "cancel_all conn symbol mv =
     (let ids = live_order_ids (fst mv)
      in if ids = [] then (Inr (), mv)
         else if om_paper_mode (fst mv) then (Inr (), remove_orders conn ids mv)
         else
           case get_open_orders conn symbol (issue_cancels conn symbol ids (snd mv)) of
             (Inl e, v1) \<Rightarrow> (Inr (), remove_orders conn ids (fst mv, v1))
           | (Inr venue_orders, v1) \<Rightarrow> verify_cancelled conn symbol ids venue_orders (fst mv, v1))"

subsection \<open>Paper fills\<close>

definition crossed :: "price \<Rightarrow> side \<Rightarrow> live_order \<Rightarrow> bool" where
  "crossed trade_price taker_side o' \<longleftrightarrow>
     (case (taker_side, lo_side o') of
        (Buy, Sell) \<Rightarrow> lo_price o' \<le> trade_price
      | (Sell, Buy) \<Rightarrow> trade_price \<le> lo_price o'
      | _ \<Rightarrow> False)"

text \<open>\<^verbatim>\<open>rand_trade_id\<close>: an atomic counter that wraps; the argument is its value.\<close>

definition rand_trade_id :: "u64 \<Rightarrow> u64 \<times> u64" where
  "rand_trade_id next = (next, next + 1)"

fun paper_fill_loop ::
  "'v connector \<Rightarrow> (order_id \<times> price) list \<Rightarrow> u64 \<Rightarrow> 'v om_state \<Rightarrow> fill list \<times> u64 \<times> 'v om_state" where
  "paper_fill_loop conn [] next mv = ([], next, mv)"
| "paper_fill_loop conn ((i, fill_price) # candidates) next mv =
     (case hm_get (om_live_orders (fst mv)) i of
        None \<Rightarrow> paper_fill_loop conn candidates next mv
      | Some ord \<Rightarrow>
          (case rand_trade_id next of (tid, next') \<Rightarrow>
           case utc_now conn (snd mv) of (ts, v1) \<Rightarrow>
           case paper_fill_loop conn candidates next'
                  ((fst mv)\<lparr>om_live_orders := hm_remove i (om_live_orders (fst mv)),
                           om_price_index := hm_remove (lo_side ord, lo_price ord) (om_price_index (fst mv))\<rparr>, v1) of
             (fills, next'', mv') \<Rightarrow>
               (\<lparr>f_trade_id = tid, f_order_id = lo_order_id ord, f_symbol = lo_symbol ord,
                 f_side = lo_side ord, f_price = fill_price, f_qty = remaining ord,
                 f_is_maker = True, f_timestamp = ts\<rparr> # fills, next'', mv')))"

definition paper_match_trade_filtered ::
  "'v connector \<Rightarrow> price \<Rightarrow> side \<Rightarrow> (order_id \<Rightarrow> price option) \<Rightarrow> u64 \<Rightarrow> 'v om_state
    \<Rightarrow> fill list \<times> u64 \<times> 'v om_state" where
  "paper_match_trade_filtered conn trade_price taker_side should_fill next mv =
     (if \<not> om_paper_mode (fst mv) then ([], next, mv)
      else
        let candidates =
          List.map_filter (\<lambda>i. map_option (\<lambda>p. (i, p)) (should_fill i))
            (map lo_order_id (filter (crossed trade_price taker_side) (map snd (om_live_orders (fst mv)))))
        in paper_fill_loop conn candidates next mv)"

definition paper_match_trade ::
  "'v connector \<Rightarrow> price \<Rightarrow> side \<Rightarrow> u64 \<Rightarrow> 'v om_state \<Rightarrow> fill list \<times> u64 \<times> 'v om_state" where
  "paper_match_trade conn trade_price taker_side next mv =
     (let prices = fold (\<lambda>(_, o'). hm_insert (lo_order_id o') (lo_price o')) (om_live_orders (fst mv)) []
      in paper_match_trade_filtered conn trade_price taker_side (hm_get prices) next mv)"

end
