(* ===== verification/Order_Diff.thy ===== *)
theory Order_Diff
  imports Order_Manager "HOL-Library.Multiset"
begin

section \<open>Correctness of the order diff\<close>

text \<open>
  The plan of \<^verbatim>\<open>OrderManager::diff_orders\<close>: it retires exactly the live orders that are on no
  desired level and creates exactly the desired levels that have no live order, an amend is a
  pair of both within the tick window, and the plan does not depend on the iteration order of
  the hash maps.
\<close>

subsection \<open>Consistency of the two maps\<close>

definition index_ok :: "order_manager \<Rightarrow> bool" where
  "index_ok m \<longleftrightarrow>
     hm_ok (om_live_orders m) \<and> hm_ok (om_price_index m)
     \<and> list_all (\<lambda>(k, i). case hm_get (om_live_orders m) i of
                            None \<Rightarrow> False | Some o' \<Rightarrow> (lo_side o', lo_price o') = k) (om_price_index m)
     \<and> list_all (\<lambda>(i, o'). lo_order_id o' = i
                    \<and> hm_get (om_price_index m) (lo_side o', lo_price o') = Some i) (om_live_orders m)"

lemma hm_all:
  assumes "hm_ok m"
  shows "list_all (\<lambda>(k, v). P k v) m \<longleftrightarrow> (\<forall>k v. hm_get m k = Some v \<longrightarrow> P k v)"
proof -
  have "list_all (\<lambda>(k, v). P k v) m \<longleftrightarrow> (\<forall>k v. (k, v) \<in> set m \<longrightarrow> P k v)"
    by (auto simp: list_all_iff)
  then show ?thesis by (simp add: hm.entries_iff [OF assms])
qed

lemma index_ok_iff:
  "index_ok m \<longleftrightarrow>
     hm_ok (om_live_orders m) \<and> hm_ok (om_price_index m)
     \<and> (\<forall>k i. hm_get (om_price_index m) k = Some i \<longrightarrow>
          (\<exists>o'. hm_get (om_live_orders m) i = Some o' \<and> (lo_side o', lo_price o') = k))
     \<and> (\<forall>i o'. hm_get (om_live_orders m) i = Some o' \<longrightarrow>
          lo_order_id o' = i \<and> hm_get (om_price_index m) (lo_side o', lo_price o') = Some i)"
proof (cases "hm_ok (om_live_orders m) \<and> hm_ok (om_price_index m)")
  case True
  have *: "(case x of None \<Rightarrow> False | Some o' \<Rightarrow> P o') \<longleftrightarrow> (\<exists>o'. x = Some o' \<and> P o')" for x :: "live_order option" and P
    by (cases x) auto
  show ?thesis
    unfolding index_ok_def using True by (simp add: hm_all *)
qed (auto simp: index_ok_def)

abbreviation level_of_order :: "live_order \<Rightarrow> side \<times> price" where
  "level_of_order o' \<equiv> (lo_side o', lo_price o')"

lemma index_ok_indexed:
  "index_ok m \<longleftrightarrow>
     hm_ok (om_live_orders m) \<and> hm_ok (om_price_index m)
     \<and> indexed level_of_order (hm_get (om_live_orders m)) (hm_get (om_price_index m))
     \<and> (\<forall>i o'. hm_get (om_live_orders m) i = Some o' \<longrightarrow> lo_order_id o' = i)"
  unfolding index_ok_iff indexed_def by blast

lemma index_okE:
  assumes "index_ok m" and "hm_get (om_price_index m) k = Some i"
  obtains o' where "hm_get (om_live_orders m) i = Some o'" "level_of_order o' = k" "lo_order_id o' = i"
  using assms unfolding index_ok_iff by blast

lemma index_inj:
  assumes "index_ok m" and "hm_get (om_price_index m) k = Some i" and "hm_get (om_price_index m) k' = Some i"
  shows "k = k'"
  using assms by (auto simp: index_ok_indexed dest: indexed_inj)

subsection \<open>The desired levels\<close>

text \<open>The quotes of the desired pairs as the loop meets them, and the level of one.\<close>

primrec desired_quotes :: "quote_pair list \<Rightarrow> (side \<times> quote) list" where
  "desired_quotes [] = []"
| "desired_quotes (p # ps) =
     map (Pair Buy) (case qp_bid p of None \<Rightarrow> [] | Some q \<Rightarrow> [q])
     @ map (Pair Sell) (case qp_ask p of None \<Rightarrow> [] | Some q \<Rightarrow> [q]) @ desired_quotes ps"

definition level_of :: "(decimal \<Rightarrow> decimal \<Rightarrow> decimal) \<Rightarrow> product_spec \<Rightarrow> side \<times> quote \<Rightarrow> side \<times> price" where
  "level_of ddiv product sq =
     (fst sq, of_int \<lfloor>ddiv (q_price (snd sq)) (ps_tick_size product)\<rfloor> * ps_tick_size product)"

text \<open>What the caller asks for at a level: the size of the last quote that rounds to it.\<close>

definition desired_qty ::
  "(decimal \<Rightarrow> decimal \<Rightarrow> decimal) \<Rightarrow> product_spec \<Rightarrow> quote_pair list \<Rightarrow> side \<times> price \<Rightarrow> qty option" where
  "desired_qty ddiv product pairs k =
     map_option (\<lambda>sq. q_qty (snd sq))
       (find (\<lambda>sq. level_of ddiv product sq = k) (rev (desired_quotes pairs)))"

lemma add_desired_eq:
  assumes "ps_tick_size product \<noteq> 0"
  shows "add_desired ddiv product s quo d =
     Some (fold (\<lambda>sq. hm_insert (level_of ddiv product sq) (q_qty (snd sq)))
        (map (Pair s) (case quo of None \<Rightarrow> [] | Some q \<Rightarrow> [q])) d)"
  using assms by (simp add: add_desired_def round_price_def round_down_def level_of_def split: option.split)

lemma desired_prices_fold:
  assumes "ps_tick_size product \<noteq> 0"
  shows "desired_prices ddiv product pairs d =
     Some (fold (\<lambda>sq. hm_insert (level_of ddiv product sq) (q_qty (snd sq))) (desired_quotes pairs) d)"
  by (induction pairs arbitrary: d)
    (simp_all add: add_desired_eq [OF assms])

lemma desired_prices_tick:
  assumes "desired_prices ddiv product pairs d = Some d'"
  shows "ps_tick_size product \<noteq> 0 \<or> (desired_quotes pairs = [] \<and> d' = d)"
  using assms
  by (induction pairs arbitrary: d)
    (auto simp: add_desired_def round_price_def round_down_def split: option.splits)

lemma desired_prices_ok:
  assumes "desired_prices ddiv product pairs [] = Some d"
  shows "hm_ok d"
proof (cases "ps_tick_size product = 0")
  case True
  then show ?thesis using desired_prices_tick [OF assms] by simp
next
  case False
  then show ?thesis
    using assms by (simp add: desired_prices_fold) (metis hm.invar_inserts hm_empty(1))
qed

lemma desired_prices_get:
  assumes "desired_prices ddiv product pairs [] = Some d"
  shows "hm_get d k = desired_qty ddiv product pairs k"
proof (cases "ps_tick_size product = 0")
  case True
  then show ?thesis using desired_prices_tick [OF assms] by (simp add: desired_qty_def)
next
  case False
  then show ?thesis
    using assms hm.get_inserts [of "[]" "level_of ddiv product" "\<lambda>sq. q_qty (snd sq)" "desired_quotes pairs" k]
    by (auto simp: desired_prices_fold desired_qty_def split: option.splits)
qed

subsection \<open>The pairing loop\<close>

definition eligible :: "bool list \<Rightarrow> decimal \<Rightarrow> new_entry \<Rightarrow> stale_entry list \<Rightarrow> nat \<Rightarrow> bool" where
  "eligible consumed max_distance new stale j \<longleftrightarrow>
     (case new of (s, p, q) \<Rightarrow> case stale ! j of (s', p', q', _) \<Rightarrow>
        j < length stale \<and> \<not> consumed ! j \<and> s' = s \<and> q' = q \<and> \<bar>p - p'\<bar> \<le> max_distance)"

definition distance_to :: "new_entry \<Rightarrow> stale_entry \<Rightarrow> decimal" where
  "distance_to new e = \<bar>fst (snd new) - fst (snd e)\<bar>"

definition nearest_inv ::
  "bool list \<Rightarrow> decimal \<Rightarrow> new_entry \<Rightarrow> stale_entry list \<Rightarrow> nat \<Rightarrow> nat option \<Rightarrow> decimal \<Rightarrow> bool" where
  "nearest_inv consumed max_distance new stale i b bd \<longleftrightarrow>
     (case b of
        None \<Rightarrow> bd = max_distance + 1 \<and> (\<forall>j < i. \<not> eligible consumed max_distance new stale j)
      | Some j \<Rightarrow> eligible consumed max_distance new stale j \<and> bd = distance_to new (stale ! j)
          \<and> (\<forall>j' < i. eligible consumed max_distance new stale j' \<longrightarrow> bd \<le> distance_to new (stale ! j')))"

lemma nearest_inv_skip:
  assumes "nearest_inv c mx new stale i b bd" and "\<not> eligible c mx new stale i"
  shows "nearest_inv c mx new stale (i + 1) b bd"
  using assms by (auto simp: nearest_inv_def less_Suc_eq split: option.splits)

lemma nearest_inv_take:
  assumes "nearest_inv c mx new stale i b bd" and "eligible c mx new stale i"
    and "distance_to new (stale ! i) < bd"
  shows "nearest_inv c mx new stale (i + 1) (Some i) (distance_to new (stale ! i))"
  using assms by (force simp: nearest_inv_def less_Suc_eq split: option.splits)

lemma nearest_inv_keep:
  assumes "nearest_inv c mx new stale i b bd" and "eligible c mx new stale i"
    and "\<not> distance_to new (stale ! i) < bd"
  shows "nearest_inv c mx new stale (i + 1) b bd"
proof -
  have "distance_to new (stale ! i) \<le> mx"
    using assms(2) by (auto simp: eligible_def distance_to_def split: prod.splits)
  then show ?thesis
    using assms by (auto simp: nearest_inv_def less_Suc_eq split: option.splits)
qed

lemma nearest_loop_inv:
  assumes "stale = pre @ rest" and "i = length pre" and "nearest_inv c mx new stale i b bd"
  shows "\<exists>bd'. nearest_inv c mx new stale (length stale) (nearest_loop c mx new i rest b bd) bd'"
  using assms
proof (induction c mx new i rest b bd arbitrary: pre rule: nearest_loop.induct)
  case (1 c mx new i b bd)
  then show ?case by auto
next
  case (2 c mx s p q i s' p' q' o' rest b bd)
  let ?e = "(s', p', q', o')"
  have here: "stale ! i = ?e" "i < length stale" using 2(4,5) by auto
  have step: "stale = (pre @ [?e]) @ rest" "i + 1 = length (pre @ [?e])" using 2(4,5) by auto
  have el: "eligible c mx (s, p, q) stale i \<longleftrightarrow> \<not> (c ! i \<or> s' \<noteq> s \<or> q' \<noteq> q) \<and> \<bar>p - p'\<bar> \<le> mx"
    using here by (auto simp: eligible_def)
  have dist: "distance_to (s, p, q) (stale ! i) = \<bar>p - p'\<bar>" using here by (simp add: distance_to_def)
  show ?case
  proof (cases "c ! i \<or> s' \<noteq> s \<or> q' \<noteq> q")
    case True
    then have "nearest_inv c mx (s, p, q) stale (i + 1) b bd"
      using nearest_inv_skip [OF 2(6)] el by blast
    from 2(1) [OF True step this] show ?thesis using True by simp
  next
    case no: False
    show ?thesis
    proof (cases "\<bar>p - p'\<bar> \<le> mx \<and> \<bar>p - p'\<bar> < bd")
      case True
      then have "nearest_inv c mx (s, p, q) stale (i + 1) (Some i) \<bar>p - p'\<bar>"
        using nearest_inv_take [OF 2(6)] el no dist by simp
      from 2(2) [OF no refl True step this] show ?thesis using no True by (simp add: Let_def)
    next
      case False
      then have "nearest_inv c mx (s, p, q) stale (i + 1) b bd"
        using nearest_inv_keep [OF 2(6)] nearest_inv_skip [OF 2(6)] el no dist by metis
      from 2(3) [OF no refl False step this] show ?thesis using no False by (auto simp: Let_def)
    qed
  qed
qed

lemma nearest_loop_correct:
  "case nearest_loop c mx new 0 stale None (mx + 1) of
     None \<Rightarrow> (\<forall>j. \<not> eligible c mx new stale j)
   | Some j \<Rightarrow> eligible c mx new stale j
       \<and> (\<forall>j'. eligible c mx new stale j' \<longrightarrow> distance_to new (stale ! j) \<le> distance_to new (stale ! j'))"
proof -
  have "eligible c mx new stale j \<Longrightarrow> j < length stale" for j
    by (auto simp: eligible_def split: prod.splits)
  moreover obtain bd' where
    "nearest_inv c mx new stale (length stale) (nearest_loop c mx new 0 stale None (mx + 1)) bd'"
    using nearest_loop_inv [of stale "[]" stale 0 c mx new None "mx + 1"] by (auto simp: nearest_inv_def)
  ultimately show ?thesis
    by (auto simp: nearest_inv_def split: option.splits)
qed

text \<open>What an amend retires and what it creates.\<close>

definition retired :: "amend_plan_entry \<Rightarrow> stale_entry" where
  "retired a = (ae_side a, ae_old_price a, ae_qty a, ae_order_id a)"

definition created :: "amend_plan_entry \<Rightarrow> new_entry" where
  "created a = (ae_side a, ae_new_price a, ae_qty a)"

lemma retain_unconsumed_Cons:
  "retain_unconsumed (e # es) (b # bs) = (if b then [] else [e]) @ retain_unconsumed es bs"
  by (simp add: retain_unconsumed_def)

lemma retain_unconsumed_all: "retain_unconsumed es (replicate (length es) False) = es"
  by (induction es) (simp_all add: retain_unconsumed_Cons, simp add: retain_unconsumed_def)

lemma retain_unconsumed_update:
  assumes "j < length es" and "length bs = length es" and "\<not> bs ! j"
  shows "mset (retain_unconsumed es bs) = add_mset (es ! j) (mset (retain_unconsumed es (bs[j := True])))"
  using assms
proof (induction es arbitrary: bs j)
  case Nil
  then show ?case by simp
next
  case (Cons e es)
  then obtain b bs' where bs: "bs = b # bs'" by (cases bs) auto
  show ?case
    using Cons by (cases j) (auto simp: bs retain_unconsumed_Cons)
qed

lemma pair_amends_correct:
  assumes "pair_amends stale mx consumed nq = (kept, amends, c)" and "length consumed = length stale"
  shows "mset nq = mset kept + mset (map created amends)
    \<and> mset (retain_unconsumed stale consumed) = mset (retain_unconsumed stale c) + mset (map retired amends)
    \<and> (\<forall>a \<in> set amends. \<bar>ae_new_price a - ae_old_price a\<bar> \<le> mx)"
  using assms
proof (induction stale mx consumed nq arbitrary: kept amends c rule: pair_amends.induct)
  case (1 stale mx consumed)
  then show ?case by simp
next
  case (2 stale mx consumed s p q nq)
  show ?case
  proof (cases "nearest_loop consumed mx (s, p, q) 0 stale None (mx + 1)")
    case None
    then show ?thesis using 2(1) [OF None] 2(3,4) by (auto split: prod.splits)
  next
    case (Some j)
    then have el: "eligible consumed mx (s, p, q) stale j"
      using nearest_loop_correct [of consumed mx "(s, p, q)" stale] by simp
    then obtain p' i where e: "stale ! j = (s, p', q, i)"
      and j: "j < length stale" "\<not> consumed ! j" and dist: "\<bar>p - p'\<bar> \<le> mx"
      by (auto simp: eligible_def split: prod.splits)
    let ?a = "\<lparr>ae_order_id = i, ae_side = s, ae_old_price = p', ae_new_price = p, ae_qty = q\<rparr>"
    obtain amends' where rest: "pair_amends stale mx (consumed[j := True]) nq = (kept, amends', c)"
      and amends: "amends = ?a # amends'"
      using 2(3) Some e by (auto split: prod.splits)
    have "mset (retain_unconsumed stale consumed)
        = add_mset (s, p', q, i) (mset (retain_unconsumed stale (consumed[j := True])))"
      using retain_unconsumed_update [OF j(1) 2(4) j(2)] e by simp
    then show ?thesis
      using 2(2) [OF Some e [symmetric] refl refl rest] 2(4) dist
      by (auto simp: amends created_def retired_def)
  qed
qed

subsection \<open>The plan\<close>

lemma set_map_filter: "y \<in> set (List.map_filter f xs) \<longleftrightarrow> (\<exists>x \<in> set xs. f x = Some y)"
  by (force simp: List.map_filter_def)

lemma distinct_map_filter_key:
  assumes "distinct (map g xs)" and "\<And>x y. x \<in> set xs \<Longrightarrow> f x = Some y \<Longrightarrow> h y = g x"
  shows "distinct (map h (List.map_filter f xs))"
  using assms
proof (induction xs)
  case Nil
  then show ?case by (simp add: List.map_filter_simps)
next
  case (Cons x xs)
  then have "f x = Some y \<Longrightarrow> h y \<notin> h ` set (List.map_filter f xs)" for y
    by (auto simp: set_map_filter) (metis image_eqI)
  then show ?case
    using Cons by (auto simp: List.map_filter_simps split: option.splits)
qed

lemma stale_entries_iff:
  assumes "index_ok m"
  shows "(s, p, q, i) \<in> set (stale_entries m d) \<longleftrightarrow>
    hm_get (om_price_index m) (s, p) = Some i \<and> hm_get d (s, p) = None
    \<and> (\<exists>o'. hm_get (om_live_orders m) i = Some o' \<and> remaining o' = q)"
  using assms hm.entries_iff [of "om_price_index m"]
  by (auto simp: stale_entries_def set_map_filter index_ok_iff hm_contains_def Bex_def split: if_splits)

lemma new_entries_iff:
  assumes "hm_ok d"
  shows "(s, p, q) \<in> set (new_entries m d) \<longleftrightarrow>
    hm_get d (s, p) = Some q \<and> hm_get (om_price_index m) (s, p) = None"
  using hm.entries_iff [OF assms]
  by (auto simp: new_entries_def set_map_filter hm_contains_def Bex_def split: if_splits)

definition level :: "side \<times> price \<times> 'a \<Rightarrow> side \<times> price" where
  "level e = (fst e, fst (snd e))"

lemma stale_entries_levels: "hm_ok (om_price_index m) \<Longrightarrow> distinct (map level (stale_entries m d))"
  unfolding stale_entries_def hm_ok_def
  by (erule distinct_map_filter_key) (auto simp: level_def split: if_splits)

lemma new_entries_levels: "hm_ok d \<Longrightarrow> distinct (map level (new_entries m d))"
  unfolding new_entries_def hm_ok_def
  by (erule distinct_map_filter_key) (auto simp: level_def split: if_splits)

lemma diff_plan_correct:
  assumes "diff_plan m d product eps = plan"
  obtains cancels places where
    "to_cancel plan = map (\<lambda>(_, _, _, i). i) cancels"
    "to_place plan = map (\<lambda>(s, p, q). \<lparr>q_side = s, q_price = p, q_qty = q\<rparr>) places"
    "mset (stale_entries m d) = mset (cancels @ map retired (to_amend plan))"
    "mset (new_entries m d) = mset (places @ map created (to_amend plan))"
    "\<forall>a \<in> set (to_amend plan).
       \<bar>ae_new_price a - ae_old_price a\<bar> \<le> ps_tick_size product * of_nat (unat eps)"
    "eps = 0 \<longrightarrow> to_amend plan = []"
proof -
  define stale where "stale = sort_key (\<lambda>(s, p, _). (side_key s, p)) (stale_entries m d)"
  define nq where "nq = sort_key (\<lambda>(s, p, _). (side_key s, p)) (new_entries m d)"
  have ms: "mset (stale_entries m d) = mset stale" "mset (new_entries m d) = mset nq"
    by (simp_all add: stale_def nq_def)
  show thesis
  proof (cases "0 < eps")
    case False
    then have "plan = \<lparr>to_cancel = map (\<lambda>(_, _, _, i). i) stale, to_amend = [],
        to_place = map (\<lambda>(s, p, q). \<lparr>q_side = s, q_price = p, q_qty = q\<rparr>) nq\<rparr>"
      using assms by (simp add: diff_plan_def stale_def [symmetric] nq_def [symmetric])
    then show thesis
      using that [of stale nq] ms by simp
  next
    case True
    obtain kept amends c where pa:
      "pair_amends stale (ps_tick_size product * of_nat (unat eps)) (replicate (length stale) False) nq
         = (kept, amends, c)"
      by (metis prod_cases3)
    have plan: "plan = \<lparr>to_cancel = map (\<lambda>(_, _, _, i). i) (retain_unconsumed stale c), to_amend = amends,
        to_place = map (\<lambda>(s, p, q). \<lparr>q_side = s, q_price = p, q_qty = q\<rparr>) kept\<rparr>"
      using assms True pa by (simp add: diff_plan_def stale_def [symmetric] nq_def [symmetric])
    show thesis
      using that [of "retain_unconsumed stale c" kept] pair_amends_correct [OF pa] ms word_gt_0 [THEN iffD1, OF True]
      by (simp add: plan retain_unconsumed_all)
  qed
qed

subsection \<open>Independence of the iteration order\<close>

lemma same_entries:
  assumes "hm_ok m" and "hm_ok m'" and "hm_get m = hm_get m'"
  shows "mset m = mset m'"
proof -
  have "set m = set m'"
    using assms hm.entries_iff [of m] hm.entries_iff [of m'] by auto
  moreover have "distinct m" "distinct m'"
    using assms(1,2) by (simp_all add: hm_ok_def distinct_map)
  ultimately show ?thesis by (simp add: set_eq_iff_mset_eq_distinct)
qed

lemma mset_map_filter:
  assumes "mset xs = mset ys"
  shows "mset (List.map_filter f xs) = mset (List.map_filter f ys)"
proof -
  have "mset (List.map_filter f xs) = image_mset (\<lambda>x. the (f x)) (filter_mset (\<lambda>x. f x \<noteq> None) (mset xs))" for xs
    by (induction xs) (auto simp: List.map_filter_simps split: option.splits)
  then show ?thesis using assms by simp
qed

lemma sort_key_unique:
  fixes f :: "'a \<Rightarrow> 'b::linorder"
  assumes "mset xs = mset ys" and "inj_on f (set xs)"
  shows "sort_key f xs = sort_key f ys"
  using assms sort_key_inj_key_eq [of xs "sort_key f ys" f] by simp

lemma side_key_inj: "side_key s = side_key s' \<longleftrightarrow> s = s'"
  by (cases s; cases s') simp_all

lemma inj_on_level:
  assumes "distinct (map level (xs :: (side \<times> price \<times> 'a) list))"
  shows "inj_on (\<lambda>(s, p, _). (side_key s, p)) (set xs)"
proof -
  have "inj (\<lambda>k :: side \<times> price. (side_key (fst k), snd k))"
    by (rule injI) (simp add: side_key_inj prod_eq_iff)
  then have "inj_on ((\<lambda>k. (side_key (fst k), snd k)) \<circ> level) (set xs)"
    using assms by (intro comp_inj_on) (auto simp: distinct_map intro: inj_on_subset)
  moreover have "(\<lambda>k. (side_key (fst k), snd k)) \<circ> level = (\<lambda>(s, p, _ :: 'a). (side_key s, p))"
    by (auto simp: level_def)
  ultimately show ?thesis by simp
qed

lemma diff_plan_order_independent:
  assumes "hm_ok d" and "hm_ok d'" and "hm_get d = hm_get d'"
    and "hm_ok (om_price_index m)" and "hm_ok (om_price_index m')"
    and "hm_get (om_price_index m) = hm_get (om_price_index m')"
    and "hm_get (om_live_orders m) = hm_get (om_live_orders m')"
  shows "diff_plan m d product eps = diff_plan m' d' product eps"
proof -
  have "mset (stale_entries m d) = mset (stale_entries m' d')"
    unfolding stale_entries_def hm_contains_def assms(3,7)
    by (rule mset_map_filter) (rule same_entries [OF assms(4-6)])
  then have "sort_key (\<lambda>(s, p, _). (side_key s, p)) (stale_entries m d)
      = sort_key (\<lambda>(s, p, _). (side_key s, p)) (stale_entries m' d')"
    by (rule sort_key_unique) (rule inj_on_level [OF stale_entries_levels [OF assms(4)]])
  moreover have "mset (new_entries m d) = mset (new_entries m' d')"
    unfolding new_entries_def hm_contains_def assms(6)
    by (rule mset_map_filter) (rule same_entries [OF assms(1-3)])
  then have "sort_key (\<lambda>(s, p, _). (side_key s, p)) (new_entries m d)
      = sort_key (\<lambda>(s, p, _). (side_key s, p)) (new_entries m' d')"
    by (rule sort_key_unique) (rule inj_on_level [OF new_entries_levels [OF assms(1)]])
  ultimately show ?thesis by (simp add: diff_plan_def)
qed

subsection \<open>Properties\<close>

lemma diff_orders_some:
  assumes "diff_orders ddiv m desired product eps = Some plan"
  obtains d where "desired_prices ddiv product desired [] = Some d" "diff_plan m d product eps = plan"
    "hm_ok d" "hm_get d = desired_qty ddiv product desired"
proof -
  obtain d where d: "desired_prices ddiv product desired [] = Some d" "diff_plan m d product eps = plan"
    using assms by (auto simp: diff_orders_def)
  show thesis
    using that [OF d desired_prices_ok [OF d(1)]] desired_prices_get [OF d(1)] by blast
qed

lemma plan_levels:
  assumes "index_ok m" and "diff_orders ddiv m desired product eps = Some plan"
  shows "distinct (map (\<lambda>q. (q_side q, q_price q)) (to_place plan)
             @ map (\<lambda>a. (ae_side a, ae_new_price a)) (to_amend plan))"
    and "\<lparr>q_side = s, q_price = p, q_qty = q\<rparr> \<in> set (to_place plan) \<or> (s, p, q) \<in> created ` set (to_amend plan)
      \<longleftrightarrow> desired_qty ddiv product desired (s, p) = Some q \<and> hm_get (om_price_index m) (s, p) = None"
proof -
  obtain d where d: "diff_plan m d product eps = plan" "hm_ok d" "hm_get d = desired_qty ddiv product desired"
    by (rule diff_orders_some [OF assms(2)])
  obtain places where pl: "to_place plan = map (\<lambda>(s, p, q). \<lparr>q_side = s, q_price = p, q_qty = q\<rparr>) places"
    and ms: "mset (new_entries m d) = mset (places @ map created (to_amend plan))"
    by (rule diff_plan_correct [OF d(1)])
  have "mset (map level (new_entries m d)) = mset (map level (places @ map created (to_amend plan)))"
    using ms by (simp only: mset_map)
  then have "distinct (map level (places @ map created (to_amend plan)))"
    using new_entries_levels [OF d(2), of m] by (metis mset_eq_imp_distinct_iff)
  then show "distinct (map (\<lambda>q. (q_side q, q_price q)) (to_place plan)
             @ map (\<lambda>a. (ae_side a, ae_new_price a)) (to_amend plan))"
    by (simp add: pl level_def [abs_def] created_def comp_def case_prod_beta)
  have "set (new_entries m d) = set places \<union> created ` set (to_amend plan)"
    using mset_eq_setD [OF ms] by simp
  then show "\<lparr>q_side = s, q_price = p, q_qty = q\<rparr> \<in> set (to_place plan) \<or> (s, p, q) \<in> created ` set (to_amend plan)
      \<longleftrightarrow> desired_qty ddiv product desired (s, p) = Some q \<and> hm_get (om_price_index m) (s, p) = None"
    using new_entries_iff [OF d(2), of s p q m] d(3) by (force simp: pl)
qed

lemma plan_orders:
  assumes "index_ok m" and "diff_orders ddiv m desired product eps = Some plan"
  shows "distinct (to_cancel plan @ map ae_order_id (to_amend plan))"
    and "i \<in> set (to_cancel plan) \<union> ae_order_id ` set (to_amend plan)
      \<longleftrightarrow> (\<exists>k. hm_get (om_price_index m) k = Some i \<and> desired_qty ddiv product desired k = None)"
    and "a \<in> set (to_amend plan) \<Longrightarrow>
      \<exists>o'. hm_get (om_live_orders m) (ae_order_id a) = Some o' \<and> lo_side o' = ae_side a
        \<and> lo_price o' = ae_old_price a \<and> remaining o' = ae_qty a
        \<and> \<bar>ae_new_price a - ae_old_price a\<bar> \<le> ps_tick_size product * of_nat (unat eps)"
proof -
  obtain d where d: "diff_plan m d product eps = plan" "hm_ok d" "hm_get d = desired_qty ddiv product desired"
    by (rule diff_orders_some [OF assms(2)])
  obtain cancels places where ca: "to_cancel plan = map (\<lambda>(_, _, _, i). i) cancels"
    and "to_place plan = map (\<lambda>(s, p, q). \<lparr>q_side = s, q_price = p, q_qty = q\<rparr>) places"
    and ms: "mset (stale_entries m d) = mset (cancels @ map retired (to_amend plan))"
    and "mset (new_entries m d) = mset (places @ map created (to_amend plan))"
    and near: "\<forall>a \<in> set (to_amend plan).
       \<bar>ae_new_price a - ae_old_price a\<bar> \<le> ps_tick_size product * of_nat (unat eps)"
    and "eps = 0 \<longrightarrow> to_amend plan = []"
    by (rule diff_plan_correct [OF d(1)])
  let ?id = "\<lambda>(_, _, _, i). i"
  have ids: "to_cancel plan @ map ae_order_id (to_amend plan) = map ?id (cancels @ map retired (to_amend plan))"
    by (simp add: ca retired_def)
  have "inj_on ?id (set (stale_entries m d))"
    using index_inj [OF assms(1)] stale_entries_iff [OF assms(1)]
    by (auto simp: inj_on_def)
  moreover have "distinct (stale_entries m d)"
    using stale_entries_levels [of m d] assms(1) by (simp add: index_ok_def distinct_map)
  ultimately have dist: "distinct (map ?id (stale_entries m d))"
    by (simp add: distinct_map)
  have "mset (map ?id (stale_entries m d)) = mset (to_cancel plan @ map ae_order_id (to_amend plan))"
    unfolding ids using ms by (simp only: mset_map)
  then show "distinct (to_cancel plan @ map ae_order_id (to_amend plan))"
    using dist by (metis mset_eq_imp_distinct_iff)
  have se: "set (stale_entries m d) = set cancels \<union> retired ` set (to_amend plan)"
    using mset_eq_setD [OF ms] by simp
  have "set (to_cancel plan) \<union> ae_order_id ` set (to_amend plan) = ?id ` set (stale_entries m d)"
    unfolding se image_Un ca by (force simp: retired_def)
  moreover have "i \<in> ?id ` set (stale_entries m d)
      \<longleftrightarrow> (\<exists>k. hm_get (om_price_index m) k = Some i \<and> desired_qty ddiv product desired k = None)"
  proof -
    have "i \<in> ?id ` set (stale_entries m d) \<longleftrightarrow> (\<exists>s p q. (s, p, q, i) \<in> set (stale_entries m d))"
      by force
    also have "\<dots> \<longleftrightarrow> (\<exists>s p. hm_get (om_price_index m) (s, p) = Some i \<and> desired_qty ddiv product desired (s, p) = None
        \<and> (\<exists>o'. hm_get (om_live_orders m) i = Some o'))"
      unfolding stale_entries_iff [OF assms(1)] d(3) by blast
    also have "\<dots> \<longleftrightarrow> (\<exists>k. hm_get (om_price_index m) k = Some i \<and> desired_qty ddiv product desired k = None)"
      using index_okE [OF assms(1)] by (metis prod.exhaust)
    finally show ?thesis .
  qed
  ultimately show "i \<in> set (to_cancel plan) \<union> ae_order_id ` set (to_amend plan)
      \<longleftrightarrow> (\<exists>k. hm_get (om_price_index m) k = Some i \<and> desired_qty ddiv product desired k = None)"
    by simp
  show "\<exists>o'. hm_get (om_live_orders m) (ae_order_id a) = Some o' \<and> lo_side o' = ae_side a
        \<and> lo_price o' = ae_old_price a \<and> remaining o' = ae_qty a
        \<and> \<bar>ae_new_price a - ae_old_price a\<bar> \<le> ps_tick_size product * of_nat (unat eps)"
    if a: "a \<in> set (to_amend plan)"
  proof -
    have "retired a \<in> set (stale_entries m d)" using a se by blast
    then have "hm_get (om_price_index m) (ae_side a, ae_old_price a) = Some (ae_order_id a)"
      and "\<exists>o'. hm_get (om_live_orders m) (ae_order_id a) = Some o' \<and> remaining o' = ae_qty a"
      using stale_entries_iff [OF assms(1)] by (auto simp: retired_def)
    then show ?thesis
      using bspec [OF near a] index_okE [OF assms(1)] by (metis option.inject prod.inject)
  qed
qed

definition example_order :: "order_id \<Rightarrow> side \<Rightarrow> price \<Rightarrow> qty \<Rightarrow> live_order" where
  "example_order i s p q =
     \<lparr>lo_order_id = i, lo_symbol = ''BTCUSDT'', lo_side = s, lo_price = p, lo_qty = q,
      lo_filled_qty = 0, lo_status = Open, lo_created_at = 0\<rparr>"

definition example_manager :: "bool \<Rightarrow> order_manager" where
  "example_manager paper =
     \<lparr>om_live_orders = [(0, example_order 0 Buy 100 1), (1, example_order 1 Buy 97 1), (2, example_order 2 Sell 105 2)],
      om_price_index = [((Sell, 105), 2), ((Buy, 100), 0), ((Buy, 97), 1)],
      om_paper_mode = paper, om_surveillance = None\<rparr>"

definition example_product :: product_spec where
  "example_product =
     \<lparr>ps_symbol = ''BTCUSDT'', ps_base_asset = ''BTC'', ps_quote_asset = ''USDT'', ps_tick_size = 1,
      ps_lot_size = 1, ps_min_notional = 10, ps_maker_fee = 0, ps_taker_fee = 0, ps_trading_status = Trading\<rparr>"

definition example_desired :: "quote_pair list" where
  "example_desired =
     [\<lparr>qp_bid = Some \<lparr>q_side = Buy, q_price = 203/2, q_qty = 1\<rparr>,
       qp_ask = Some \<lparr>q_side = Sell, q_price = 105, q_qty = 2\<rparr>\<rparr>]"

lemmas example_defs = example_order_def example_manager_def example_product_def example_desired_def

lemma example_manager_ok: "index_ok (example_manager b)"
  by (simp add: index_ok_def example_defs hm_ok_def hm_get_def)

lemma example_plan:
  "diff_orders (/) (example_manager b) example_desired example_product 2 =
     Some \<lparr>to_cancel = [1],
           to_amend = [\<lparr>ae_order_id = 0, ae_side = Buy, ae_old_price = 100, ae_new_price = 101, ae_qty = 1\<rparr>],
           to_place = []\<rparr>"
proof -
  have "\<lfloor>203 / 2 :: decimal\<rfloor> = 101" by (rule floor_unique) simp_all
  then show ?thesis
    by (simp add: diff_orders_def example_defs add_desired_def round_price_def round_down_def diff_plan_def
        stale_entries_def new_entries_def List.map_filter_simps hm_contains_def hm_get_def hm_insert_def
        remaining_def retain_unconsumed_def)
qed

text \<open>
  C2: the diff plans exactly the difference. For a consistent manager, the cancelled and the
  amended orders together are, each once, exactly the live orders on a level nobody desires, and
  the placed quotes together with the amend targets are, one per level, exactly the desired
  levels with no live order, each with the size asked for.
\<close>

theorem diff_orders_exact:
  assumes "index_ok m" and "diff_orders ddiv m desired product eps = Some plan"
  shows "distinct (to_cancel plan @ map ae_order_id (to_amend plan))
    \<and> set (to_cancel plan @ map ae_order_id (to_amend plan))
        = {i. \<exists>k. hm_get (om_price_index m) k = Some i \<and> desired_qty ddiv product desired k = None}
    \<and> distinct (map (\<lambda>q. (q_side q, q_price q)) (to_place plan)
         @ map (\<lambda>a. (ae_side a, ae_new_price a)) (to_amend plan))
    \<and> (\<forall>s p q. \<lparr>q_side = s, q_price = p, q_qty = q\<rparr> \<in> set (to_place plan)
           \<or> (\<exists>a \<in> set (to_amend plan). ae_side a = s \<and> ae_new_price a = p \<and> ae_qty a = q)
         \<longleftrightarrow> desired_qty ddiv product desired (s, p) = Some q \<and> hm_get (om_price_index m) (s, p) = None)"
proof -
  have "(s, p, q) \<in> created ` set (to_amend plan)
      \<longleftrightarrow> (\<exists>a \<in> set (to_amend plan). ae_side a = s \<and> ae_new_price a = p \<and> ae_qty a = q)" for s p q
    by (auto simp: created_def image_iff)
  then show ?thesis
    using plan_orders(1,2) [OF assms] plan_levels [OF assms] by (simp add: set_eq_iff)
qed

theorem diff_orders_exact_witness:
  "\<exists>plan. diff_orders (/) (example_manager False) example_desired example_product 2 = Some plan
     \<and> distinct (to_cancel plan @ map ae_order_id (to_amend plan))
     \<and> set (to_cancel plan @ map ae_order_id (to_amend plan))
         = {i. \<exists>k. hm_get (om_price_index (example_manager False)) k = Some i
                \<and> desired_qty (/) example_product example_desired k = None}
     \<and> to_cancel plan = [1]"
  by (rule exI, rule conjI, rule example_plan)
    (use diff_orders_exact [OF example_manager_ok example_plan, of False] in \<open>simp add: insert_commute\<close>)

text \<open>
  An amend keeps to its window. Every amended order is live, on the side and at the old
  price the plan names, its unfilled size is the size asked for at the new price, and the new
  price is at most the allowed number of ticks away; with no allowance nothing is amended.
\<close>

theorem diff_orders_amend_window:
  assumes "index_ok m" and "diff_orders ddiv m desired product eps = Some plan" and "a \<in> set (to_amend plan)"
  shows "eps \<noteq> 0
    \<and> (\<exists>o'. hm_get (om_live_orders m) (ae_order_id a) = Some o' \<and> lo_side o' = ae_side a
        \<and> lo_price o' = ae_old_price a \<and> remaining o' = ae_qty a
        \<and> desired_qty ddiv product desired (ae_side a, ae_new_price a) = Some (remaining o')
        \<and> \<bar>ae_new_price a - lo_price o'\<bar> \<le> ps_tick_size product * of_nat (unat eps))"
proof -
  have "eps \<noteq> 0"
    using diff_orders_some [OF assms(2)] diff_plan_correct assms(3) by (metis list.set(1) empty_iff)
  moreover have "desired_qty ddiv product desired (ae_side a, ae_new_price a) = Some (ae_qty a)"
    using plan_levels(2) [OF assms(1,2), of "ae_side a" "ae_new_price a" "ae_qty a"] assms(3)
    by (auto simp: created_def)
  ultimately show ?thesis
    using plan_orders(3) [OF assms] by auto
qed

theorem diff_orders_amend_window_witness:
  "\<exists>o'. hm_get (om_live_orders (example_manager False)) 0 = Some o' \<and> lo_price o' = 100
     \<and> desired_qty (/) example_product example_desired (Buy, 101) = Some (remaining o')
     \<and> \<bar>101 - lo_price o'\<bar> \<le> ps_tick_size example_product * of_nat (unat (2 :: u32))"
  using diff_orders_amend_window [OF example_manager_ok example_plan, of _ False] by auto

text \<open>
  The plan does not depend on the iteration order of the hash maps: two managers that hold
  the same orders and the same index produce the same plan, entry by entry.
\<close>

theorem diff_orders_order_independent:
  assumes "index_ok m" and "index_ok m'"
    and "hm_get (om_live_orders m) = hm_get (om_live_orders m')"
    and "hm_get (om_price_index m) = hm_get (om_price_index m')"
  shows "diff_orders ddiv m desired product eps = diff_orders ddiv m' desired product eps"
proof (cases "desired_prices ddiv product desired []")
  case (Some d)
  then have "hm_ok d" by (rule desired_prices_ok)
  then have "diff_plan m d product eps = diff_plan m' d product eps"
    using assms by (intro diff_plan_order_independent) (auto simp: index_ok_def)
  then show ?thesis by (simp add: diff_orders_def Some)
qed (simp add: diff_orders_def)

theorem diff_orders_order_independent_witness:
  "let m = example_manager False;
       m' = m\<lparr>om_live_orders := rev (om_live_orders m), om_price_index := rev (om_price_index m)\<rparr>
   in diff_orders (/) m example_desired example_product 2 = diff_orders (/) m' example_desired example_product 2"
proof -
  let ?m = "example_manager False"
  let ?m' = "?m\<lparr>om_live_orders := rev (om_live_orders ?m), om_price_index := rev (om_price_index ?m)\<rparr>"
  have "index_ok ?m'"
    by (simp add: index_ok_def example_defs hm_ok_def hm_get_def)
  moreover have "hm_get (om_live_orders ?m) = hm_get (om_live_orders ?m')"
    "hm_get (om_price_index ?m) = hm_get (om_price_index ?m')"
    by (auto simp: example_defs hm_get_def fun_eq_iff)
  ultimately show ?thesis
    using diff_orders_order_independent [OF example_manager_ok] by simp
qed

end
