(* ===== verification/Order_Execution.thy ===== *)
theory Order_Execution
  imports Order_Diff
begin

section \<open>Correctness of the execution of a diff\<close>

text \<open>
  The order manager against a venue. \<open>levels m\<close> is what the manager means: the live order on
  each side and price. Tracking, removing and repricing are updates of it, and from there the
  execution of a plan is followed through the amend, cancel and placement phases, whatever the
  venue answers.
\<close>

subsection \<open>The levels of a manager\<close>

abbreviation live :: "order_manager \<Rightarrow> order_id \<Rightarrow> live_order option" where
  "live m \<equiv> hm_get (om_live_orders m)"

definition levels :: "order_manager \<Rightarrow> side \<times> price \<Rightarrow> live_order option" where
  "levels m k = Option.bind (hm_get (om_price_index m) k) (live m)"

lemma feed_surveillance_fields [simp]:
  "om_live_orders (feed_surveillance ev m) = om_live_orders m"
  "om_price_index (feed_surveillance ev m) = om_price_index m"
  "om_paper_mode (feed_surveillance ev m) = om_paper_mode m"
  by (simp_all add: feed_surveillance_def split: option.splits)

lemma levels_iff:
  assumes "index_ok m"
  shows "levels m k = Some o' \<longleftrightarrow> live m (lo_order_id o') = Some o' \<and> (lo_side o', lo_price o') = k"
proof
  assume "levels m k = Some o'"
  then obtain i where i: "hm_get (om_price_index m) k = Some i" "live m i = Some o'"
    by (auto simp: levels_def bind_eq_Some_conv)
  show "live m (lo_order_id o') = Some o' \<and> (lo_side o', lo_price o') = k"
    using index_okE [OF assms i(1)] i(2) by (metis option.inject)
next
  assume o': "live m (lo_order_id o') = Some o' \<and> (lo_side o', lo_price o') = k"
  then have "hm_get (om_price_index m) k = Some (lo_order_id o')"
    using assms indexed_primD [of level_of_order "live m"] by (auto simp: index_ok_indexed)
  then show "levels m k = Some o'"
    using o' by (simp add: levels_def)
qed

lemma levels_None_iff:
  assumes "index_ok m"
  shows "levels m k = None \<longleftrightarrow> hm_get (om_price_index m) k = None"
proof (cases "hm_get (om_price_index m) k")
  case (Some i)
  then obtain o' where "live m i = Some o'" by (rule index_okE [OF assms])
  then show ?thesis using Some by (simp add: levels_def)
qed (simp add: levels_def)

lemma live_levels:
  assumes "index_ok m" and "live m i = Some o'"
  shows "levels m (lo_side o', lo_price o') = Some o' \<and> lo_order_id o' = i"
proof -
  have "lo_order_id o' = i" using assms by (auto simp: index_ok_indexed)
  then show ?thesis using assms levels_iff by blast
qed

lemma live_index:
  assumes "index_ok m" and "live m i = Some o'"
  shows "hm_get (om_price_index m) (level_of_order o') = Some i"
proof -
  have "indexed level_of_order (live m) (hm_get (om_price_index m))"
    using assms(1) unfolding index_ok_indexed by blast
  from indexed_primD [OF this assms(2)] show ?thesis .
qed

lemma levels_index:
  assumes "index_ok m" and "levels m k = Some o'"
  shows "hm_get (om_price_index m) k = Some (lo_order_id o')"
proof -
  have "live m (lo_order_id o') = Some o'" "level_of_order o' = k"
    using assms levels_iff by blast+
  from live_index [OF assms(1) this(1)] this(2) show ?thesis by simp
qed

subsection \<open>Tracking, removing, repricing\<close>

lemma track_order_maps:
  assumes "index_ok (fst mv)"
  shows "live (fst (track_order conn ord mv)) = (live (fst mv))(lo_order_id ord \<mapsto> ord)"
    and "hm_get (om_price_index (fst (track_order conn ord mv)))
       = (hm_get (om_price_index (fst mv)))(level_of_order ord \<mapsto> lo_order_id ord)"
    and "hm_ok (om_live_orders (fst (track_order conn ord mv)))"
    and "hm_ok (om_price_index (fst (track_order conn ord mv)))"
  using assms by (simp_all add: index_ok_indexed track_order_def Let_def case_prod_beta hm_simps)

lemma track_order_state:
  assumes "index_ok (fst mv)" and "live (fst mv) (lo_order_id ord) = None"
    and "levels (fst mv) (level_of_order ord) = None"
  shows "index_ok (fst (track_order conn ord mv))"
    and "levels (fst (track_order conn ord mv)) = (levels (fst mv))(level_of_order ord \<mapsto> ord)"
    and "live (fst (track_order conn ord mv)) = (live (fst mv))(lo_order_id ord \<mapsto> ord)"
proof -
  note maps = track_order_maps [OF assms(1)]
  show "live (fst (track_order conn ord mv)) = (live (fst mv))(lo_order_id ord \<mapsto> ord)" by (rule maps)
  show ok: "index_ok (fst (track_order conn ord mv))"
    unfolding index_ok_indexed maps(1,2) using assms maps(3,4)
    by (auto simp: index_ok_indexed levels_None_iff intro!: indexed_insert)
  have "hm_get (om_price_index (fst mv)) k \<noteq> Some (lo_order_id ord)" for k
    using assms(1,2) index_okE by (metis option.distinct(1))
  then show "levels (fst (track_order conn ord mv)) = (levels (fst mv))(level_of_order ord \<mapsto> ord)"
    by (auto simp: levels_def maps fun_eq_iff split: Option.bind_splits)
qed

lemma remove_order_state:
  assumes "index_ok (fst mv)"
  shows "index_ok (fst (remove_order conn i mv))
    \<and> live (fst (remove_order conn i mv)) = (live (fst mv))(i := None)"
proof (cases "live (fst mv) i")
  case None
  then show ?thesis using assms by (auto simp: remove_order_def fun_eq_iff)
next
  case (Some ord)
  have "live (fst (remove_order conn i mv)) = (live (fst mv))(i := None)"
    "hm_get (om_price_index (fst (remove_order conn i mv)))
       = (hm_get (om_price_index (fst mv)))(level_of_order ord := None)"
    "hm_ok (om_live_orders (fst (remove_order conn i mv)))"
    "hm_ok (om_price_index (fst (remove_order conn i mv)))"
    using assms Some by (simp_all add: index_ok_indexed remove_order_def Let_def case_prod_beta hm_simps)
  then show ?thesis
    using assms Some indexed_remove [of level_of_order "live (fst mv)" _ i ord]
    by (auto simp: index_ok_indexed)
qed

lemma reprice_order_state:
  assumes "index_ok m" and "live m i = Some ord" and "levels m (lo_side ord, new_price) = None"
  shows "index_ok (reprice_order i new_price m)
    \<and> live (reprice_order i new_price m) = (live m)(i \<mapsto> ord\<lparr>lo_price := new_price\<rparr>)"
proof -
  have free: "hm_get (om_price_index m) (lo_side ord, new_price) = None"
    using assms by (simp add: levels_None_iff)
  have "live (reprice_order i new_price m) = (live m)(i \<mapsto> ord\<lparr>lo_price := new_price\<rparr>)"
    "hm_get (om_price_index (reprice_order i new_price m))
       = (hm_get (om_price_index m))(level_of_order ord := None, (lo_side ord, new_price) \<mapsto> i)"
    "hm_ok (om_live_orders (reprice_order i new_price m))"
    "hm_ok (om_price_index (reprice_order i new_price m))"
    using assms(1,2) by (simp_all add: index_ok_indexed reprice_order_def hm_simps)
  then show ?thesis
    using assms(1,2) free
      indexed_rekey [of level_of_order "live m" _ i ord "ord\<lparr>lo_price := new_price\<rparr>"]
    by (auto simp: index_ok_indexed)
qed

lemma track_order_paper [simp]: "om_paper_mode (fst (track_order conn ord mv)) = om_paper_mode (fst mv)"
  by (simp add: track_order_def Let_def case_prod_beta)

lemma remove_order_paper [simp]: "om_paper_mode (fst (remove_order conn i mv)) = om_paper_mode (fst mv)"
  by (simp add: remove_order_def Let_def case_prod_beta split: option.splits)

lemma reprice_order_paper [simp]: "om_paper_mode (reprice_order i p m) = om_paper_mode m"
  by (simp add: reprice_order_def split: option.splits)

subsection \<open>The cancel phase\<close>

text \<open>The effect of every cancel path: the orders are gone from the manager, nothing else changes.\<close>

definition removed :: "('v \<Rightarrow> order_id set) \<Rightarrow> order_id set \<Rightarrow> 'v om_state \<Rightarrow> 'v om_state \<Rightarrow> bool" where
  "removed issued ids mv mv' \<longleftrightarrow>
     (index_ok (fst mv) \<longrightarrow>
        index_ok (fst mv') \<and> live (fst mv') = (\<lambda>i. if i \<in> ids then None else live (fst mv) i))
     \<and> om_paper_mode (fst mv') = om_paper_mode (fst mv) \<and> issued (snd mv) \<subseteq> issued (snd mv')"

lemma removed_comp:
  assumes "removed issued ids mv mv'" and "removed issued ids' mv' mv''"
  shows "removed issued (ids \<union> ids') mv mv''"
  using assms unfolding removed_def by (auto simp: fun_eq_iff)

lemma removed_for_each:
  assumes "\<And>x mv. removed issued (ids x) mv (snd (f x mv))"
  shows "removed issued (\<Union>x \<in> set xs. ids x) mv (snd (for_each f xs mv))"
proof (induction xs arbitrary: mv)
  case Nil
  show ?case by (simp add: removed_def)
next
  case (Cons x xs)
  show ?case
    using removed_comp [OF assms Cons.IH] by (simp add: case_prod_beta)
qed

context venue
begin

lemma remove_order_removed: "removed issued {i} mv (remove_order conn i mv)"
  using remove_order_state [of mv conn i] now_issued [of "snd mv"]
  by (auto simp: removed_def fun_eq_iff remove_order_def Let_def case_prod_beta split: option.split)

lemma remove_order_removed_after:
  assumes "issued (snd mv) \<subseteq> issued v1"
  shows "removed issued {i} mv (remove_order conn i (fst mv, v1))"
  using remove_order_removed [of i "(fst mv, v1)"] assms by (auto simp: removed_def)

lemma cancel_one_removed: "removed issued {i} mv (snd (cancel_one_outcome conn symbol i mv))"
  using remove_order_removed [of i mv] remove_order_removed_after [of mv _ i]
    cancel_issued [of "snd mv" symbol i]
  by (auto simp: cancel_one_outcome_def split: prod.splits sum.splits)

lemma cancel_fallback_removed: "removed issued {i} mv (snd (cancel_one_fallback conn symbol i mv))"
  using cancel_one_removed [of i mv symbol]
  by (auto simp: cancel_one_fallback_def split: prod.splits batch_cancel_outcome.splits)

lemma cancel_chunk_removed: "removed issued (set chunk) mv (snd (cancel_chunk conn symbol chunk mv))"
proof -
  obtain r v1 where r: "cancel_orders_batch conn symbol chunk (snd mv) = (r, v1)" by fastforce
  have keep: "removed issued {} mv (fst mv, v1)"
    using cancel_batch_issued [of "snd mv" symbol chunk] r by (auto simp: removed_def)
  have "removed issued (\<Union>i \<in> set chunk. {i}) (fst mv, v1) (snd (cancel_chunk conn symbol chunk mv))"
    using removed_for_each [of issued "\<lambda>i. {i}" "\<lambda>i mv. (CancelDone, remove_order conn i mv)" chunk]
      removed_for_each [of issued "\<lambda>i. {i}" "cancel_one_fallback conn symbol" chunk]
      remove_order_removed cancel_fallback_removed
    by (auto simp: cancel_chunk_def r split: sum.splits)
  from removed_comp [OF keep this] show ?thesis by simp
qed

lemma cancel_batched_removed:
  "removed issued (set ids) mv (snd (cancel_orders_batched conn symbol ids mv))"
proof -
  have each: "removed issued (set ids) mv (snd (for_each (cancel_one_outcome conn symbol) ids mv))"
    using removed_for_each [of issued "\<lambda>i. {i}" "cancel_one_outcome conn symbol" ids mv, OF cancel_one_removed]
    by simp
  have "removed issued (\<Union>c \<in> set (chunks n ids). set c) mv
      (snd (for_each (cancel_chunk conn symbol) (chunks n ids) mv))" for n
    by (rule removed_for_each [OF cancel_chunk_removed])
  moreover have "(\<Union>c \<in> set (chunks n ids). set c) = set ids" if "0 < n" for n
    using concat_chunks [OF that, of ids] by (metis set_concat)
  ultimately have batched: "0 < n \<Longrightarrow>
      removed issued (set ids) mv (snd (for_each (cancel_chunk conn symbol) (chunks n ids) mv))" for n
    by metis
  show ?thesis
    using each batched [of "max (max_batch_size conn) 1"]
    by (auto simp: cancel_orders_batched_def Let_def case_prod_beta)
qed

end

subsection \<open>The placement phase\<close>

abbreviation level_of_quote :: "quote \<Rightarrow> side \<times> price" where
  "level_of_quote quo \<equiv> (q_side quo, q_price quo)"

text \<open>
  While the quotes \<open>qs\<close> are placed on the manager \<open>m0\<close> and \<open>rest\<close> are still to come: what was there
  is there, what is new is an unfilled order for one of the quotes, the levels of the rest are
  free, and in paper mode every quote so far is on its level.
\<close>

definition placing ::
  "('v \<Rightarrow> order_id set) \<Rightarrow> order_manager \<Rightarrow> quote list \<Rightarrow> quote list \<Rightarrow> 'v om_state \<Rightarrow> bool" where
  "placing issued m0 qs rest mv \<longleftrightarrow>
     index_ok (fst mv) \<and> dom (live (fst mv)) \<subseteq> issued (snd mv)
     \<and> om_paper_mode (fst mv) = om_paper_mode m0
     \<and> (\<forall>k o'. levels m0 k = Some o' \<longrightarrow> levels (fst mv) k = Some o')
     \<and> (\<forall>k o'. levels (fst mv) k = Some o' \<longrightarrow> levels m0 k = Some o' \<or>
          levels m0 k = None \<and> (\<exists>quo \<in> set qs. level_of_quote quo = k \<and> remaining o' = q_qty quo))
     \<and> distinct (map level_of_quote rest)
     \<and> (\<forall>quo \<in> set rest. levels (fst mv) (level_of_quote quo) = None)
     \<and> (\<exists>before. qs = before @ rest
          \<and> (om_paper_mode m0 \<longrightarrow> (\<forall>quo \<in> set before. levels (fst mv) (level_of_quote quo) \<noteq> None)))"

lemma placing_skip:
  assumes "placing issued m0 qs (quo # rest) mv" and "\<not> om_paper_mode m0" and "issued (snd mv) \<subseteq> issued v'"
  shows "placing issued m0 qs rest (fst mv, v')"
  using assms unfolding placing_def by auto

lemma placing_venue:
  assumes "placing issued m0 qs rest mv" and "issued (snd mv) \<subseteq> issued v'"
  shows "placing issued m0 qs rest (fst mv, v')"
  using assms unfolding placing_def by auto

context venue
begin

lemma track_new_placing:
  assumes "placing issued m0 qs (quo # rest) mv" and "live (fst mv) i = None" and "i \<in> issued (snd mv)"
  shows "placing issued m0 qs rest
      (track_new conn symbol (q_side quo) (q_price quo) (q_qty quo) i mv)"
    and "live (fst (track_new conn symbol (q_side quo) (q_price quo) (q_qty quo) i mv)) j \<noteq> None \<Longrightarrow>
      j = i \<or> live (fst mv) j \<noteq> None"
    and "issued (snd (track_new conn symbol (q_side quo) (q_price quo) (q_qty quo) i mv)) = issued (snd mv)"
proof -
  obtain ts v1 where ts: "utc_now conn (snd mv) = (ts, v1)" by fastforce
  define ord where "ord = \<lparr>lo_order_id = i, lo_symbol = symbol, lo_side = q_side quo, lo_price = q_price quo,
    lo_qty = q_qty quo, lo_filled_qty = 0, lo_status = Open, lo_created_at = ts\<rparr>"
  let ?mv = "track_order conn ord (fst mv, v1)"
  have eq: "track_new conn symbol (q_side quo) (q_price quo) (q_qty quo) i mv = ?mv"
    by (simp add: track_new_def ts ord_def)
  have fields: "lo_order_id ord = i" "level_of_order ord = level_of_quote quo" "remaining ord = q_qty quo"
    by (simp_all add: ord_def remaining_def)
  have ok: "index_ok (fst mv)" and free: "levels (fst mv) (level_of_quote quo) = None"
    using assms(1) by (auto simp: placing_def)
  have st: "index_ok (fst ?mv)"
      "levels (fst ?mv) = (levels (fst mv))(level_of_quote quo \<mapsto> ord)"
      "live (fst ?mv) = (live (fst mv))(i \<mapsto> ord)"
    using track_order_state [of "(fst mv, v1)" ord conn] ok free assms(2) fields by auto
  have iss: "issued (snd ?mv) = issued (snd mv)"
    using now_issued [of "snd mv"] now_issued [of v1] ts
    by (simp add: track_order_def Let_def case_prod_beta)
  obtain before where before: "qs = before @ quo # rest"
    "om_paper_mode m0 \<longrightarrow> (\<forall>q \<in> set before. levels (fst mv) (level_of_quote q) \<noteq> None)"
    using assms(1) by (auto simp: placing_def)
  have new: "levels m0 k = Some o' \<or>
      levels m0 k = None \<and> (\<exists>q \<in> set qs. level_of_quote q = k \<and> remaining o' = q_qty q)"
    if "levels (fst ?mv) k = Some o'" for k o'
  proof (cases "k = level_of_quote quo")
    case True
    then have "o' = ord" using that st(2) by simp
    moreover have "levels m0 k = None" using free True assms(1)
      unfolding placing_def by (metis not_Some_eq option.distinct(1))
    ultimately show ?thesis using True fields(3) before(1) by auto
  next
    case False
    then have "levels (fst mv) k = Some o'" using that st(2) by simp
    then show ?thesis using assms(1) unfolding placing_def by blast
  qed
  have ex: "\<exists>before'. qs = before' @ rest
      \<and> (om_paper_mode m0 \<longrightarrow> (\<forall>q \<in> set before'. levels (fst ?mv) (level_of_quote q) \<noteq> None))"
    using before by (intro exI [of _ "before @ [quo]"]) (auto simp: st(2))
  have keep: "levels (fst ?mv) k = Some o'" if "levels m0 k = Some o'" for k o'
    using that assms(1) free unfolding placing_def st(2) by (metis fun_upd_other option.distinct(1))
  have dist: "level_of_quote quo \<notin> level_of_quote ` set rest" "distinct (map level_of_quote rest)"
    using assms(1) by (simp_all add: placing_def)
  have free': "levels (fst ?mv) (level_of_quote q) = None" if "q \<in> set rest" for q
  proof -
    have "level_of_quote q \<in> level_of_quote ` set rest" using that by (rule imageI)
    then have "level_of_quote q \<noteq> level_of_quote quo" using dist(1) by metis
    moreover have "levels (fst mv) (level_of_quote q) = None"
      using that assms(1) by (simp add: placing_def)
    ultimately show ?thesis unfolding st(2) by (metis fun_upd_other)
  qed
  have "dom (live (fst ?mv)) \<subseteq> issued (snd ?mv)" "om_paper_mode (fst ?mv) = om_paper_mode m0"
    using assms(1,3) by (auto simp: placing_def st(3) iss split: if_splits)
  then show "placing issued m0 qs rest (track_new conn symbol (q_side quo) (q_price quo) (q_qty quo) i mv)"
    unfolding eq placing_def using st(1) keep new dist(2) free' ex by blast
  show "live (fst (track_new conn symbol (q_side quo) (q_price quo) (q_qty quo) i mv)) j \<noteq> None \<Longrightarrow>
      j = i \<or> live (fst mv) j \<noteq> None"
    unfolding eq st(3) by (auto split: if_splits)
  show "issued (snd (track_new conn symbol (q_side quo) (q_price quo) (q_qty quo) i mv)) = issued (snd mv)"
    unfolding eq by (rule iss)
qed

lemma place_one_placing:
  assumes "placing issued m0 qs (quo # rest) mv"
  shows "placing issued m0 qs rest (snd (place_one_quote_outcome conn symbol quo mv))"
proof (cases "om_paper_mode (fst mv)")
  case True
  obtain i v1 where i: "new_v4 conn (snd mv) = (i, v1)" by fastforce
  have fresh: "i \<notin> issued (snd mv)" "issued v1 = insert i (issued (snd mv))"
    using uuid_fresh [OF i] by simp_all
  have "placing issued m0 qs (quo # rest) (fst mv, v1)"
    using placing_venue [OF assms] fresh(2) by auto
  moreover have "live (fst mv) i = None"
    using assms fresh(1) by (auto simp: placing_def dom_def)
  ultimately show ?thesis
    using track_new_placing(1) [of m0 qs quo rest "(fst mv, v1)" i] fresh(2) True
    by (simp add: place_one_quote_outcome_def i)
next
  case False
  obtain r v1 where r:
    "place_order conn (limit_order symbol (q_side quo) (q_price quo) (q_qty quo) PostOnly False) (snd mv) = (r, v1)"
    by fastforce
  show ?thesis
  proof (cases r)
    case (Inl e)
    then have "issued (snd mv) \<subseteq> issued v1" using place_error r by blast
    then show ?thesis
      using placing_skip [OF assms] assms False Inl r
      by (simp add: place_one_quote_outcome_def placing_def)
  next
    case (Inr i)
    then have fresh: "i \<notin> issued (snd mv)" "issued v1 = insert i (issued (snd mv))"
      using place_fresh r by blast+
    have "placing issued m0 qs (quo # rest) (fst mv, v1)"
      using placing_venue [OF assms] fresh(2) by auto
    moreover have "live (fst mv) i = None"
      using assms fresh(1) by (auto simp: placing_def dom_def)
    ultimately show ?thesis
      using track_new_placing(1) [of m0 qs quo rest "(fst mv, v1)" i] fresh(2) False
      by (simp add: place_one_quote_outcome_def r Inr)
  qed
qed

lemma place_variants_state:
  "snd (place_one_quote_fallback conn symbol quo mv) = snd (place_one_quote_outcome conn symbol quo mv)"
  "snd (place_one_quote_unack conn symbol quo mv) = snd (place_one_quote_outcome conn symbol quo mv)"
  by (simp_all add: place_one_quote_fallback_def place_one_quote_unack_def
      split: prod.splits batch_place_outcome.splits)

lemma track_acked_placing:
  assumes "placing issued m0 qs (map snd ps @ rest) mv"
    and "distinct (map fst ps)" and "\<forall>i \<in> set (map fst ps). live (fst mv) i = None \<and> i \<in> issued (snd mv)"
  shows "placing issued m0 qs rest (snd (for_each (track_acked conn symbol) ps mv))"
  using assms
proof (induction ps arbitrary: mv)
  case Nil
  then show ?case by simp
next
  case (Cons p ps)
  let ?mv = "track_new conn symbol (q_side (snd p)) (q_price (snd p)) (q_qty (snd p)) (fst p) mv"
  have step: "placing issued m0 qs (map snd ps @ rest) ?mv"
    and new: "\<And>j. live (fst ?mv) j \<noteq> None \<Longrightarrow> j = fst p \<or> live (fst mv) j \<noteq> None"
    and iss: "issued (snd ?mv) = issued (snd mv)"
    using track_new_placing [of m0 qs "snd p" "map snd ps @ rest" mv "fst p" symbol] Cons.prems(1,3) by auto
  have "live (fst ?mv) i = None \<and> i \<in> issued (snd ?mv)" if i: "i \<in> set (map fst ps)" for i
  proof -
    have "i \<noteq> fst p" using i Cons.prems(2) by (metis distinct.simps(2) list.simps(9))
    moreover have "live (fst mv) i = None" "i \<in> issued (snd mv)" using i Cons.prems(3) by auto
    ultimately show ?thesis using new [of i] iss by metis
  qed
  then have "placing issued m0 qs rest (snd (for_each (track_acked conn symbol) ps ?mv))"
    using Cons.prems(2) by (intro Cons.IH [OF step]) auto
  moreover have "snd (track_acked conn symbol p mv) = ?mv" by (simp add: track_acked_def)
  ultimately show ?case by (simp only: for_each_snd)
qed

lemma place_each_placing:
  assumes "placing issued m0 qs (xs @ rest) mv"
    and "\<And>quo mv. snd (f quo mv) = snd (place_one_quote_outcome conn symbol quo mv)"
  shows "placing issued m0 qs rest (snd (for_each f xs mv))"
  by (rule for_each_rest [of "\<lambda>xs. placing issued m0 qs xs", OF _ assms(1)])
    (simp add: assms(2) place_one_placing)

lemma place_chunk_placing:
  assumes "placing issued m0 qs (chunk @ rest) mv"
  shows "\<exists>os mv'. place_chunk conn symbol chunk mv = Some (os, mv') \<and> placing issued m0 qs rest mv'"
proof -
  let ?nos = "map (\<lambda>quo. limit_order symbol (q_side quo) (q_price quo) (q_qty quo) PostOnly False) chunk"
  obtain r v1 where r: "place_orders_batch conn ?nos (snd mv) = (r, v1)" by fastforce
  show ?thesis
  proof (cases r)
    case (Inl e)
    then have "placing issued m0 qs (chunk @ rest) (fst mv, v1)"
      using placing_venue [OF assms] batch_error r by blast
    then have "placing issued m0 qs rest (snd (for_each (place_one_quote_fallback conn symbol) chunk (fst mv, v1)))"
      by (rule place_each_placing [OF _ place_variants_state(1)])
    then show ?thesis
      unfolding place_chunk_def r Inl by (metis (no_types, lifting) case_prod_conv prod.collapse sum.case(1))
  next
    case (Inr ids)
    have b: "length ids \<le> length chunk" "distinct ids" "set ids \<inter> issued (snd mv) = {}"
      "issued v1 = issued (snd mv) \<union> set ids"
      using batch_fresh [of ?nos "snd mv" ids v1] r Inr by auto
    have split: "map snd (zip ids chunk) @ drop (length ids) chunk @ rest = chunk @ rest"
      using b(1) by (simp add: map_snd_zip_take min_def flip: append_assoc)
    have "placing issued m0 qs (map snd (zip ids chunk) @ drop (length ids) chunk @ rest) (fst mv, v1)"
      unfolding split using placing_venue [OF assms] b(4) by blast
    moreover have fsts: "map fst (zip ids chunk) = ids"
      using b(1) by (simp add: map_fst_zip_take)
    moreover have "\<forall>i \<in> set ids. live (fst mv) i = None \<and> i \<in> issued v1"
    proof -
      have "dom (live (fst mv)) \<subseteq> issued (snd mv)" using assms by (simp add: placing_def)
      then show ?thesis using b(3,4) by blast
    qed
    ultimately have acked: "placing issued m0 qs (drop (length ids) chunk @ rest)
        (snd (for_each (track_acked conn symbol) (zip ids chunk) (fst mv, v1)))"
      using b(2) by (intro track_acked_placing) (simp_all only: fsts fst_conv snd_conv)
    obtain as mv1 where f1: "for_each (track_acked conn symbol) (zip ids chunk) (fst mv, v1) = (as, mv1)"
      by (rule prod.exhaust)
    obtain rs mv2 where f2: "for_each (place_one_quote_unack conn symbol) (drop (length ids) chunk) mv1 = (rs, mv2)"
      by (rule prod.exhaust)
    have "placing issued m0 qs rest mv2"
      using place_each_placing [OF acked place_variants_state(2), of symbol] f1 f2 by simp
    moreover have "place_chunk conn symbol chunk mv = Some (as @ rs, mv2)"
    proof (cases "length ids = length chunk")
      case True
      then show ?thesis using f1 f2 by (simp add: place_chunk_def r Inr)
    next
      case False
      then show ?thesis using f1 f2 b(1) by (simp add: place_chunk_def r Inr)
    qed
    ultimately show ?thesis by blast
  qed
qed

lemma place_batched_placing:
  assumes "placing issued m0 quotes quotes mv"
  shows "\<exists>os mv'. place_quotes_batched conn symbol quotes mv = Some (os, mv') \<and> placing issued m0 quotes [] mv'"
proof -
  have each: "placing issued m0 quotes [] (snd (for_each (place_one_quote_outcome conn symbol) quotes mv))"
    using place_each_placing [of m0 quotes quotes "[]" mv "place_one_quote_outcome conn symbol"] assms by simp
  define n where "n = max (max_batch_size conn) (Suc 0)"
  have "placing issued m0 quotes (concat (chunks n quotes)) mv"
    using assms by (simp add: concat_chunks n_def)
  then have batched: "\<exists>oss mv'. try_each (place_chunk conn symbol) (chunks n quotes) mv = Some (oss, mv')
      \<and> placing issued m0 quotes (concat []) mv'"
  proof (rule try_each_rest [where P = "\<lambda>cs. placing issued m0 quotes (concat cs)", rotated])
    show "\<exists>y s'. place_chunk conn symbol x s = Some (y, s') \<and> placing issued m0 quotes (concat xs) s'"
      if "placing issued m0 quotes (concat (x # xs)) s" for x xs s
      by (rule place_chunk_placing) (use that in simp)
  qed
  show ?thesis
  proof (cases "quotes = [] \<or> om_paper_mode (fst mv) \<or> length quotes < MIN_BATCH_SIZE \<or> n < MIN_BATCH_SIZE")
    case True
    then have "place_quotes_batched conn symbol quotes mv
        = Some (for_each (place_one_quote_outcome conn symbol) quotes mv)"
      by (cases "quotes = []") (auto simp: place_quotes_batched_def n_def [symmetric] Let_def)
    then show ?thesis using each by (metis prod.collapse)
  next
    case False
    obtain oss mv' where "try_each (place_chunk conn symbol) (chunks n quotes) mv = Some (oss, mv')"
      and pl: "placing issued m0 quotes [] mv'"
      using batched by auto
    then have "place_quotes_batched conn symbol quotes mv = Some (concat oss, mv')"
      using False by (simp add: place_quotes_batched_def n_def [symmetric] Let_def)
    then show ?thesis using pl by blast
  qed
qed

end

subsection \<open>The amend phase\<close>

abbreviation level_of_amend :: "amend_plan_entry \<Rightarrow> side \<times> price" where
  "level_of_amend a \<equiv> (ae_side a, ae_new_price a)"

definition amend_fallback :: "amend_plan_entry \<Rightarrow> order_id \<times> quote" where
  "amend_fallback a =
     (ae_order_id a, \<lparr>q_side = ae_side a, q_price = ae_new_price a, q_qty = ae_qty a\<rparr>)"

text \<open>The amends a manager can take: distinct live orders to distinct free levels.\<close>

definition amendable :: "order_manager \<Rightarrow> amend_plan_entry list \<Rightarrow> bool" where
  "amendable m as \<longleftrightarrow>
     distinct (map ae_order_id as) \<and> distinct (map level_of_amend as)
     \<and> (\<forall>a \<in> set as. (\<exists>o'. live m (ae_order_id a) = Some o' \<and> lo_side o' = ae_side a)
          \<and> levels m (level_of_amend a) = None)"

lemma amendable_reprice:
  assumes "index_ok m" and "amendable m (a # as)"
  shows "index_ok (reprice_order (ae_order_id a) (ae_new_price a) m)
    \<and> live (reprice_order (ae_order_id a) (ae_new_price a) m)
        = (live m)(ae_order_id a := map_option (\<lambda>o'. o'\<lparr>lo_price := ae_new_price a\<rparr>) (live m (ae_order_id a)))
    \<and> amendable (reprice_order (ae_order_id a) (ae_new_price a) m) as"
proof -
  let ?m = "reprice_order (ae_order_id a) (ae_new_price a) m"
  obtain ord where ord: "live m (ae_order_id a) = Some ord" "lo_side ord = ae_side a"
    and free: "levels m (level_of_amend a) = None"
    using assms(2) by (auto simp: amendable_def)
  have st: "index_ok ?m" "live ?m = (live m)(ae_order_id a \<mapsto> ord\<lparr>lo_price := ae_new_price a\<rparr>)"
    using reprice_order_state [OF assms(1) ord(1), of "ae_new_price a"] ord(2) free by simp_all
  have "levels ?m (level_of_amend b) = None" if b: "b \<in> set as" for b
  proof (rule ccontr)
    assume "levels ?m (level_of_amend b) \<noteq> None"
    then obtain o' where o': "live ?m (lo_order_id o') = Some o'" "level_of_order o' = level_of_amend b"
      using levels_iff [OF st(1)] by (metis option.exhaust)
    have "level_of_amend b \<in> level_of_amend ` set as" using b by (rule imageI)
    then have "level_of_amend b \<noteq> level_of_amend a" using assms(2) by (auto simp: amendable_def)
    then have "lo_order_id o' \<noteq> ae_order_id a" using o' st(2) ord(2) by auto
    then have "levels m (level_of_amend b) = Some o'"
      using o' st(2) levels_iff [OF assms(1)] by simp
    then show False using assms(2) b by (auto simp: amendable_def)
  qed
  moreover have "ae_order_id b \<noteq> ae_order_id a" if "b \<in> set as" for b
    using assms(2) that by (auto simp: amendable_def) (metis image_eqI)
  ultimately have "amendable ?m as"
    using assms(2) st(2) by (simp add: amendable_def)
  then show ?thesis using st ord(1) by simp
qed

context venue
begin

lemma amend_one_cases:
  assumes "amend_one conn symbol a mv = (fl, mv')"
  shows "(fl = [] \<and> fst mv' = reprice_order (ae_order_id a) (ae_new_price a) (fst mv)
      \<or> fl = [amend_fallback a] \<and> fst mv' = fst mv \<and> \<not> om_paper_mode (fst mv))
    \<and> issued (snd mv) \<subseteq> issued (snd mv')"
proof -
  let ?req = "\<lparr>am_order_id = ae_order_id a, am_symbol = symbol, am_new_price = Some (ae_new_price a),
      am_new_qty = Some (ae_qty a)\<rparr>"
  obtain r v1 where r: "amend_order conn ?req (snd mv) = (r, v1)" by (rule prod.exhaust)
  then have "issued (snd mv) \<subseteq> issued v1" using amend_issued [of "snd mv" ?req] by simp
  then show ?thesis
    using assms r by (cases r) (auto simp: amend_one_def amend_fallback_def split: if_splits)
qed

lemma amend_phase:
  assumes "for_each (amend_one conn symbol) as mv = (failed, mv')"
    and "index_ok (fst mv)" and "amendable (fst mv) as"
  shows "\<exists>P. concat failed = map amend_fallback (filter P as)
    \<and> (om_paper_mode (fst mv) \<longrightarrow> filter P as = [])
    \<and> index_ok (fst mv') \<and> om_paper_mode (fst mv') = om_paper_mode (fst mv)
    \<and> issued (snd mv) \<subseteq> issued (snd mv')
    \<and> live (fst mv') = (\<lambda>i. case find (\<lambda>a. ae_order_id a = i \<and> \<not> P a) as of
         None \<Rightarrow> live (fst mv) i
       | Some a \<Rightarrow> map_option (\<lambda>o'. o'\<lparr>lo_price := ae_new_price a\<rparr>) (live (fst mv) i))"
  using assms
proof (induction as arbitrary: mv failed)
  case Nil
  then show ?case by simp
next
  case (Cons a as)
  obtain fl mv1 where one: "amend_one conn symbol a mv = (fl, mv1)" by (rule prod.exhaust)
  obtain failed' where rest: "for_each (amend_one conn symbol) as mv1 = (failed', mv')"
    and failed: "failed = fl # failed'"
    using Cons.prems(1) one by (auto split: prod.splits)
  have a: "b \<in> set as \<Longrightarrow> b \<noteq> a \<and> ae_order_id b \<noteq> ae_order_id a" for b
    using Cons.prems(3) by (auto simp: amendable_def) (metis image_eqI)
  note one' = amend_one_cases [OF one]
  show ?case
  proof (cases "fl = []")
    case True
    then have m1: "fst mv1 = reprice_order (ae_order_id a) (ae_new_price a) (fst mv)" using one' by simp
    note rp = amendable_reprice [OF Cons.prems(2,3)]
    obtain P where P: "concat failed' = map amend_fallback (filter P as)"
      "om_paper_mode (fst mv1) \<longrightarrow> filter P as = []" "index_ok (fst mv')"
      "om_paper_mode (fst mv') = om_paper_mode (fst mv1)" "issued (snd mv1) \<subseteq> issued (snd mv')"
      and live': "live (fst mv') = (\<lambda>i. case find (\<lambda>a. ae_order_id a = i \<and> \<not> P a) as of
         None \<Rightarrow> live (fst mv1) i
       | Some a \<Rightarrow> map_option (\<lambda>o'. o'\<lparr>lo_price := ae_new_price a\<rparr>) (live (fst mv1) i))"
      using Cons.IH [OF rest] rp unfolding m1 by blast
    define P' where "P' = (\<lambda>x. x \<noteq> a \<and> P x)"
    have f: "filter P' (a # as) = filter P as"
      "find (\<lambda>b. ae_order_id b = i \<and> \<not> P' b) as = find (\<lambda>b. ae_order_id b = i \<and> \<not> P b) as" for i
      using a by (auto simp: P'_def intro!: filter_cong find_cong)
    have none: "find (\<lambda>b. ae_order_id b = ae_order_id a \<and> \<not> P b) as = None"
      using a by (auto simp: find_None_iff)
    have "live (fst mv') i = (case find (\<lambda>b. ae_order_id b = i \<and> \<not> P' b) (a # as) of
         None \<Rightarrow> live (fst mv) i
       | Some a \<Rightarrow> map_option (\<lambda>o'. o'\<lparr>lo_price := ae_new_price a\<rparr>) (live (fst mv) i))" for i
    proof (cases "i = ae_order_id a")
      case True
      moreover have "\<not> P' a" by (simp add: P'_def)
      ultimately show ?thesis using none rp by (simp add: live' m1)
    next
      case False
      then show ?thesis using rp by (auto simp: live' m1 f(2) split: option.split)
    qed
    then show ?thesis
      using P one' f(1) by (intro exI [of _ P']) (auto simp: failed True m1)
  next
    case False
    then have m1: "fst mv1 = fst mv" "fl = [amend_fallback a]" "\<not> om_paper_mode (fst mv)" using one' by auto
    have "amendable (fst mv1) as" using Cons.prems(3) m1(1) by (simp add: amendable_def)
    then obtain P where P: "concat failed' = map amend_fallback (filter P as)"
      "om_paper_mode (fst mv1) \<longrightarrow> filter P as = []" "index_ok (fst mv')"
      "om_paper_mode (fst mv') = om_paper_mode (fst mv1)" "issued (snd mv1) \<subseteq> issued (snd mv')"
      and live': "live (fst mv') = (\<lambda>i. case find (\<lambda>a. ae_order_id a = i \<and> \<not> P a) as of
         None \<Rightarrow> live (fst mv1) i
       | Some a \<Rightarrow> map_option (\<lambda>o'. o'\<lparr>lo_price := ae_new_price a\<rparr>) (live (fst mv1) i))"
      using Cons.IH [OF rest] Cons.prems(2) unfolding m1(1) by blast
    define P' where "P' = (\<lambda>x. x = a \<or> P x)"
    have f: "filter P' (a # as) = a # filter P as"
      "find (\<lambda>b. ae_order_id b = i \<and> \<not> P' b) (a # as) = find (\<lambda>b. ae_order_id b = i \<and> \<not> P b) as" for i
      using a by (auto simp: P'_def intro!: filter_cong find_cong)
    show ?thesis
      using P one' m1 live' [unfolded m1(1)]
      by (intro exI [of _ P'] conjI) (auto simp: failed f simp del: find.simps filter.simps)
  qed
qed

end

subsection \<open>The whole execution\<close>

text \<open>The manager between two calls: its two maps agree and the venue has issued its ids.\<close>

definition manager_ok :: "('v \<Rightarrow> order_id set) \<Rightarrow> 'v om_state \<Rightarrow> bool" where
  "manager_ok issued mv \<longleftrightarrow> index_ok (fst mv) \<and> dom (live (fst mv)) \<subseteq> issued (snd mv)"

text \<open>
  The manager once the amends and the cancels are through: exactly the orders that were on a
  desired level and the orders amended onto one.
\<close>

lemma plan_amendable:
  assumes "index_ok m" and "diff_orders ddiv m desired product eps = Some plan"
  shows "amendable m (to_amend plan)"
proof -
  have "levels m (level_of_amend a) = None" if "a \<in> set (to_amend plan)" for a
    using plan_levels(2) [OF assms, of "ae_side a" "ae_new_price a" "ae_qty a"] that
    by (auto simp: levels_None_iff [OF assms(1)] created_def)
  moreover have "\<exists>o'. live m (ae_order_id a) = Some o' \<and> lo_side o' = ae_side a" if "a \<in> set (to_amend plan)" for a
    using plan_orders(3) [OF assms that] by blast
  ultimately show ?thesis
    using plan_orders(1) [OF assms] plan_levels(1) [OF assms] by (simp add: amendable_def)
qed

lemma find_image_None: "i \<notin> f ` set xs \<Longrightarrow> find (\<lambda>y. f y = i) xs = None"
  by (induction xs) auto

lemma find_distinct_id:
  assumes "distinct (map f xs)" and "x \<in> set xs"
  shows "find (\<lambda>y. f y = f x) xs = Some x"
  using assms by (induction xs) (auto simp: image_iff)

lemma find_conj_distinct:
  assumes "distinct (map f xs)"
  shows "find (\<lambda>y. f y = i \<and> Q y) xs = (case find (\<lambda>y. f y = i) xs of
      None \<Rightarrow> None | Some y \<Rightarrow> if Q y then Some y else None)"
  using assms
proof (induction xs)
  case Nil
  then show ?case by simp
next
  case (Cons x xs)
  have "find (\<lambda>y. f y = i \<and> Q y) xs = None" if "f x = i"
    using that Cons.prems by (auto simp: find_None_iff) (metis image_eqI)
  then show ?case using Cons by auto
qed

text \<open>What is live after the amends and the cancels, and its levels.\<close>

definition settled ::
  "order_manager \<Rightarrow> order_diff_plan \<Rightarrow> (amend_plan_entry \<Rightarrow> bool) \<Rightarrow> order_id \<Rightarrow> live_order option" where
  "settled m plan P i =
     (if i \<in> set (to_cancel plan) then None
      else case find (\<lambda>a. ae_order_id a = i) (to_amend plan) of
             None \<Rightarrow> live m i
           | Some a \<Rightarrow>
               if P a then None else map_option (\<lambda>o'. o'\<lparr>lo_price := ae_new_price a\<rparr>) (live m i))"

lemma settled_kept:
  assumes "index_ok m" and "diff_orders ddiv m desired product eps = Some plan"
    and "levels m k = Some o'" and "desired_qty ddiv product desired k \<noteq> None"
  shows "settled m plan P (lo_order_id o') = Some o'"
proof -
  have o': "live m (lo_order_id o') = Some o'"
    using assms(3) levels_iff [OF assms(1)] by blast
  have "hm_get (om_price_index m) k = Some (lo_order_id o')"
    by (rule levels_index [OF assms(1,3)])
  then have "lo_order_id o' \<notin> set (to_cancel plan) \<union> ae_order_id ` set (to_amend plan)"
    using plan_orders(2) [OF assms(1,2)] index_inj [OF assms(1)] assms(4) by metis
  moreover from this have "find (\<lambda>a. ae_order_id a = lo_order_id o') (to_amend plan) = None"
    by (intro find_image_None) blast
  ultimately show ?thesis using o' by (simp add: settled_def)
qed

lemma settled_amended:
  assumes "index_ok m" and "diff_orders ddiv m desired product eps = Some plan"
    and "a \<in> set (to_amend plan)"
  shows "settled m plan P (ae_order_id a) =
      (if P a then None else map_option (\<lambda>o'. o'\<lparr>lo_price := ae_new_price a\<rparr>) (live m (ae_order_id a)))"
proof -
  have "distinct (map ae_order_id (to_amend plan))" "ae_order_id a \<notin> set (to_cancel plan)"
    using plan_orders(1) [OF assms(1,2)] assms(3) by auto
  then show ?thesis
    using find_distinct_id [of ae_order_id, OF _ assms(3)] by (simp add: settled_def)
qed

lemma settled_cases:
  assumes "index_ok m" and "diff_orders ddiv m desired product eps = Some plan"
    and "settled m plan P i = Some o'"
  obtains "live m i = Some o'" "desired_qty ddiv product desired (level_of_order o') \<noteq> None"
  | a ord where "a \<in> set (to_amend plan)" "\<not> P a" "ae_order_id a = i" "live m i = Some ord"
      "lo_side ord = ae_side a" "o' = ord\<lparr>lo_price := ae_new_price a\<rparr>"
proof (cases "find (\<lambda>a. ae_order_id a = i) (to_amend plan)")
  case None
  then have i: "live m i = Some o'" "i \<notin> set (to_cancel plan)"
    using assms(3) by (simp_all add: settled_def split: if_splits)
  have "i \<notin> ae_order_id ` set (to_amend plan)" using None by (auto simp: find_None_iff)
  then have ni: "i \<notin> set (to_cancel plan) \<union> ae_order_id ` set (to_amend plan)" using i(2) by blast
  have "hm_get (om_price_index m) (level_of_order o') = Some i"
    by (rule live_index [OF assms(1) i(1)])
  moreover have "\<not> (\<exists>k. hm_get (om_price_index m) k = Some i \<and> desired_qty ddiv product desired k = None)"
    using ni by (rule contrapos_nn) (rule plan_orders(2) [OF assms(1,2), THEN iffD2])
  ultimately have "desired_qty ddiv product desired (level_of_order o') \<noteq> None" by metis
  then show thesis by (rule that(1) [OF i(1)])
next
  case (Some a)
  then have a: "a \<in> set (to_amend plan)" "ae_order_id a = i" using find_SomeD by fastforce+
  obtain ord where "live m i = Some ord" "lo_side ord = ae_side a"
    using plan_orders(3) [OF assms(1,2) a(1)] a(2) by auto
  then show thesis
    using that(2) [OF a(1) _ a(2)] assms(3) Some by (auto simp: settled_def split: if_splits)
qed

lemma settled_levels:
  assumes "index_ok m" and "diff_orders ddiv m desired product eps = Some plan"
    and "index_ok m'" and "live m' = settled m plan P"
  shows "levels m' k = Some o' \<longleftrightarrow>
      levels m k = Some o' \<and> desired_qty ddiv product desired k \<noteq> None
      \<or> (\<exists>a \<in> set (to_amend plan). \<not> P a \<and> level_of_amend a = k
          \<and> live m (ae_order_id a) \<noteq> None
          \<and> o' = (the (live m (ae_order_id a)))\<lparr>lo_price := ae_new_price a\<rparr>)" (is "?l \<longleftrightarrow> ?r")
proof
  assume ?l
  then have o': "settled m plan P (lo_order_id o') = Some o'" "level_of_order o' = k"
    using levels_iff [OF assms(3)] assms(4) by auto
  from settled_cases [OF assms(1,2) o'(1)] show ?r
  proof cases
    case 1
    then show ?thesis using o'(2) live_levels [OF assms(1) 1(1)] by simp
  next
    case (2 a ord)
    then show ?thesis using o'(2) by auto
  qed
next
  assume ?r
  then consider "levels m k = Some o'" "desired_qty ddiv product desired k \<noteq> None"
    | a ord where "a \<in> set (to_amend plan)" "\<not> P a" "level_of_amend a = k"
        "live m (ae_order_id a) = Some ord" "o' = ord\<lparr>lo_price := ae_new_price a\<rparr>"
    by auto
  then show ?l
  proof cases
    case 1
    then show ?thesis
      using settled_kept [OF assms(1,2) 1] levels_iff [OF assms(3)] levels_iff [OF assms(1)] assms(4) by simp
  next
    case (2 a ord)
    then have "lo_order_id ord = ae_order_id a" "lo_side ord = ae_side a"
      using live_levels [OF assms(1)] plan_orders(3) [OF assms(1,2) 2(1)] by auto
    then show ?thesis
      using 2 settled_amended [OF assms(1,2) 2(1), of P] levels_iff [OF assms(3)] assms(4) by auto
  qed
qed

lemma amended_order:
  assumes "index_ok m" and "diff_orders ddiv m desired product eps = Some plan" and "a \<in> set (to_amend plan)"
  shows "levels m (level_of_amend a) = None"
    and "live m (ae_order_id a) \<noteq> None"
    and "desired_qty ddiv product desired (level_of_amend a) = Some (remaining (the (live m (ae_order_id a))))"
proof -
  have "(ae_side a, ae_new_price a, ae_qty a) \<in> created ` set (to_amend plan)"
    using assms(3) by (auto simp: created_def)
  then have "desired_qty ddiv product desired (level_of_amend a) = Some (ae_qty a)"
    "hm_get (om_price_index m) (level_of_amend a) = None"
    using plan_levels(2) [OF assms(1,2)] by blast+
  then show "levels m (level_of_amend a) = None" "live m (ae_order_id a) \<noteq> None"
    "desired_qty ddiv product desired (level_of_amend a) = Some (remaining (the (live m (ae_order_id a))))"
    using plan_orders(3) [OF assms] by (auto simp: levels_None_iff [OF assms(1)])
qed

lemma missing_level:
  assumes "index_ok m" and "diff_orders ddiv m desired product eps = Some plan"
    and "levels m k = None" and "desired_qty ddiv product desired k \<noteq> None"
  obtains quo where "quo \<in> set (to_place plan @ map (snd \<circ> amend_fallback) (filter P (to_amend plan)))"
      "level_of_quote quo = k"
  | a where "a \<in> set (to_amend plan)" "\<not> P a" "level_of_amend a = k"
proof -
  obtain s p q where k: "k = (s, p)" "desired_qty ddiv product desired (s, p) = Some q"
    using assms(4) by (cases k) auto
  have "hm_get (om_price_index m) (s, p) = None"
    using assms(3) by (simp add: levels_None_iff [OF assms(1)] k(1))
  then have "\<lparr>q_side = s, q_price = p, q_qty = q\<rparr> \<in> set (to_place plan) \<or> (s, p, q) \<in> created ` set (to_amend plan)"
    using plan_levels(2) [OF assms(1,2), of s p q] k(2) by blast
  then consider "\<lparr>q_side = s, q_price = p, q_qty = q\<rparr> \<in> set (to_place plan)"
    | a where "a \<in> set (to_amend plan)" "ae_side a = s" "ae_new_price a = p"
    by (auto simp: created_def)
  then show thesis
  proof cases
    case 1
    then show thesis using that(1) [of "\<lparr>q_side = s, q_price = p, q_qty = q\<rparr>"] k(1) by simp
  next
    case (2 a)
    show thesis
    proof (cases "P a")
      case True
      then show thesis using that(1) [of "snd (amend_fallback a)"] 2 k(1) by (auto simp: amend_fallback_def)
    next
      case False
      then show thesis using that(2) [of a] 2 k(1) by simp
    qed
  qed
qed

text \<open>The manager after an execution, against the manager before it and the desired quotes.\<close>

definition converged ::
  "(decimal \<Rightarrow> decimal \<Rightarrow> decimal) \<Rightarrow> product_spec \<Rightarrow> quote_pair list \<Rightarrow> order_manager \<Rightarrow> order_manager \<Rightarrow> bool" where
  "converged ddiv product desired m m' \<longleftrightarrow>
     (\<forall>k o'. levels m' k = Some o' \<longrightarrow> desired_qty ddiv product desired k \<noteq> None
         \<and> (levels m k = Some o'
            \<or> levels m k = None \<and> desired_qty ddiv product desired k = Some (remaining o')))
     \<and> (\<forall>k o'. levels m k = Some o' \<and> desired_qty ddiv product desired k \<noteq> None \<longrightarrow> levels m' k = Some o')
     \<and> (om_paper_mode m \<longrightarrow> (\<forall>k. desired_qty ddiv product desired k \<noteq> None \<longrightarrow> levels m' k \<noteq> None))"

lemma convergedI:
  assumes "\<And>k o'. levels m' k = Some o' \<Longrightarrow> desired_qty ddiv product desired k \<noteq> None
       \<and> (levels m k = Some o' \<or> levels m k = None \<and> desired_qty ddiv product desired k = Some (remaining o'))"
    and "\<And>k o'. levels m k = Some o' \<Longrightarrow> desired_qty ddiv product desired k \<noteq> None \<Longrightarrow> levels m' k = Some o'"
    and "\<And>k. om_paper_mode m \<Longrightarrow> desired_qty ddiv product desired k \<noteq> None \<Longrightarrow> levels m' k \<noteq> None"
  shows "converged ddiv product desired m m'"
  unfolding converged_def using assms by simp

text \<open>The quotes to place, fallbacks of failed amends included, are for free levels.\<close>

lemma settled_free:
  assumes "index_ok m" and "diff_orders ddiv m desired product eps = Some plan"
    and "index_ok m'" and "live m' = settled m plan P"
    and "quo \<in> set (to_place plan @ map (snd \<circ> amend_fallback) (filter P (to_amend plan)))"
  shows "levels m' (level_of_quote quo) = None"
    and "levels m (level_of_quote quo) = None
      \<and> desired_qty ddiv product desired (level_of_quote quo) = Some (q_qty quo)"
proof -
  have [simp]: "\<lparr>q_side = q_side quo, q_price = q_price quo, q_qty = q_qty quo\<rparr> = quo" by simp
  have "\<lparr>q_side = q_side quo, q_price = q_price quo, q_qty = q_qty quo\<rparr> \<in> set (to_place plan)
      \<or> (q_side quo, q_price quo, q_qty quo) \<in> created ` set (to_amend plan)"
    using assms(5) by (auto simp: amend_fallback_def created_def image_iff)
  then have idx: "desired_qty ddiv product desired (level_of_quote quo) = Some (q_qty quo)"
    "hm_get (om_price_index m) (level_of_quote quo) = None"
    using plan_levels(2) [OF assms(1,2)] by blast+
  then show lv: "levels m (level_of_quote quo) = None
      \<and> desired_qty ddiv product desired (level_of_quote quo) = Some (q_qty quo)"
    by (simp add: levels_None_iff [OF assms(1)])
  have dist: "distinct (map level_of_quote (to_place plan) @ map level_of_amend (to_amend plan))"
    by (rule plan_levels(1) [OF assms(1,2)])
  have "level_of_amend a \<noteq> level_of_quote quo" if a: "a \<in> set (to_amend plan)" "\<not> P a" for a
  proof (cases "quo \<in> set (to_place plan)")
    case True
    then have "level_of_quote quo \<in> level_of_quote ` set (to_place plan)" by (rule imageI)
    moreover have "level_of_amend a \<in> level_of_amend ` set (to_amend plan)" using a(1) by (rule imageI)
    moreover have "level_of_quote ` set (to_place plan) \<inter> level_of_amend ` set (to_amend plan) = {}"
      using dist by simp
    ultimately show ?thesis by (metis IntI empty_iff)
  next
    case False
    then obtain b where b: "b \<in> set (to_amend plan)" "P b" "quo = snd (amend_fallback b)"
      using assms(5) by auto
    have inj: "inj_on level_of_amend (set (to_amend plan))" using dist by (simp add: distinct_map)
    have "level_of_amend a \<noteq> level_of_amend b"
      using inj_onD [OF inj _ a(1) b(1)] a(2) b(2) by blast
    then show ?thesis by (simp add: b(3) amend_fallback_def)
  qed
  then show "levels m' (level_of_quote quo) = None"
    using settled_levels [OF assms(1-4), of "level_of_quote quo"] lv by (metis not_Some_eq)
qed

lemma settled_distinct:
  assumes "index_ok m" and "diff_orders ddiv m desired product eps = Some plan"
  shows "distinct (map level_of_quote (to_place plan @ map (snd \<circ> amend_fallback) (filter P (to_amend plan))))"
proof -
  have dist: "distinct (map level_of_quote (to_place plan) @ map level_of_amend (to_amend plan))"
    by (rule plan_levels(1) [OF assms])
  have "map level_of_quote (map (snd \<circ> amend_fallback) (filter P (to_amend plan)))
      = map level_of_amend (filter P (to_amend plan))"
    by (simp add: amend_fallback_def)
  moreover have "distinct (map level_of_amend (filter P (to_amend plan)))"
    using dist by (simp add: distinct_map_filter)
  moreover have "set (map level_of_amend (filter P (to_amend plan))) \<subseteq> set (map level_of_amend (to_amend plan))"
    by auto
  ultimately show ?thesis
    using dist by (simp only: map_append distinct_append) blast
qed

context venue
begin

lemma before_placement:
  assumes ok: "manager_ok issued mv"
    and plan: "diff_orders ddiv (fst mv) desired product eps = Some plan"
    and am: "for_each (amend_one conn symbol) (to_amend plan) mv = (failed, mv1)"
    and ca: "cancel_orders_batched conn symbol (to_cancel plan @ map fst (concat failed)) mv1 = (outs, mv2)"
  shows "\<exists>P. map snd (concat failed) = map (snd \<circ> amend_fallback) (filter P (to_amend plan))
    \<and> index_ok (fst mv2) \<and> live (fst mv2) = settled (fst mv) plan P
    \<and> dom (live (fst mv2)) \<subseteq> issued (snd mv2)
    \<and> om_paper_mode (fst mv2) = om_paper_mode (fst mv)"
proof -
  have m: "index_ok (fst mv)" "dom (live (fst mv)) \<subseteq> issued (snd mv)" using ok by (auto simp: manager_ok_def)
  obtain P where P: "concat failed = map amend_fallback (filter P (to_amend plan))"
    "index_ok (fst mv1)" "om_paper_mode (fst mv1) = om_paper_mode (fst mv)" "issued (snd mv) \<subseteq> issued (snd mv1)"
    and live1: "live (fst mv1) = (\<lambda>i. case find (\<lambda>a. ae_order_id a = i \<and> \<not> P a) (to_amend plan) of
         None \<Rightarrow> live (fst mv) i
       | Some a \<Rightarrow> map_option (\<lambda>o'. o'\<lparr>lo_price := ae_new_price a\<rparr>) (live (fst mv) i))"
    using amend_phase [OF am m(1) plan_amendable [OF m(1) plan]] by blast
  let ?ids = "set (to_cancel plan @ map fst (concat failed))"
  have rem: "index_ok (fst mv2)" "live (fst mv2) = (\<lambda>i. if i \<in> ?ids then None else live (fst mv1) i)"
    "om_paper_mode (fst mv2) = om_paper_mode (fst mv1)" "issued (snd mv1) \<subseteq> issued (snd mv2)"
    using cancel_batched_removed [of "to_cancel plan @ map fst (concat failed)" mv1 symbol] ca P(2)
    by (simp_all add: removed_def)
  have dist: "distinct (map ae_order_id (to_amend plan))" using plan_orders(1) [OF m(1) plan] by simp
  have ids: "?ids = set (to_cancel plan) \<union> ae_order_id ` {a \<in> set (to_amend plan). P a}"
    by (auto simp: P(1) amend_fallback_def)
  note rem2 = rem(2) [unfolded ids]
  have "live (fst mv2) i = settled (fst mv) plan P i" for i
  proof (cases "find (\<lambda>a. ae_order_id a = i) (to_amend plan)")
    case None
    then have "i \<notin> ae_order_id ` set (to_amend plan)" by (auto simp: find_None_iff)
    then show ?thesis
      using None by (auto simp: rem2 live1 settled_def find_conj_distinct [OF dist])
  next
    case (Some a)
    then have a: "a \<in> set (to_amend plan)" "ae_order_id a = i" using find_SomeD by fastforce+
    have "i \<in> ae_order_id ` {a \<in> set (to_amend plan). P a} \<longleftrightarrow> P a"
      using a dist by (auto simp: distinct_map inj_on_def)
    then show ?thesis
      using Some by (auto simp: rem2 live1 settled_def find_conj_distinct [OF dist])
  qed
  then have live2: "live (fst mv2) = settled (fst mv) plan P" by blast
  have "dom (live (fst mv2)) \<subseteq> dom (live (fst mv))"
    by (auto simp: rem(2) live1 dom_def split: if_splits option.splits)
  then show ?thesis
    using P rem m(2) live2 by (intro exI [of _ P]) auto
qed

lemma execute_plan_correct:
  assumes ok: "manager_ok issued mv"
    and plan: "diff_orders ddiv (fst mv) desired product eps = Some plan"
  shows "\<exists>outs pouts mv'. execute_plan conn symbol plan mv = Some (outs, pouts, mv') \<and> manager_ok issued mv'
    \<and> converged ddiv product desired (fst mv) (fst mv')"
proof -
  have m: "index_ok (fst mv)" using ok by (simp add: manager_ok_def)
  obtain failed mv1 where am: "for_each (amend_one conn symbol) (to_amend plan) mv = (failed, mv1)"
    by (rule prod.exhaust)
  obtain outs mv2 where ca: "cancel_orders_batched conn symbol (to_cancel plan @ map fst (concat failed)) mv1 = (outs, mv2)"
    by (rule prod.exhaust)
  obtain P where fb: "map snd (concat failed) = map (snd \<circ> amend_fallback) (filter P (to_amend plan))"
    and m2: "index_ok (fst mv2)" "live (fst mv2) = settled (fst mv) plan P"
      "dom (live (fst mv2)) \<subseteq> issued (snd mv2)" "om_paper_mode (fst mv2) = om_paper_mode (fst mv)"
    using before_placement [OF ok plan am ca] by blast
  define qs where "qs = to_place plan @ map (snd \<circ> amend_fallback) (filter P (to_amend plan))"
  note free = settled_free [OF m plan m2(1,2)]
  have "placing issued (fst mv2) qs qs mv2"
    unfolding placing_def
    using m2 free(1) settled_distinct [OF m plan, of P] unfolding qs_def by auto
  from place_batched_placing [OF this, of symbol] obtain pouts mv' where
    pl: "place_quotes_batched conn symbol qs mv2 = Some (pouts, mv')" "placing issued (fst mv2) qs [] mv'" by blast
  note lv2 = settled_levels [OF m plan m2(1,2)]
  have "execute_plan conn symbol plan mv = Some (outs, pouts, mv')"
    using pl(1) by (simp add: execute_plan_def am ca fb qs_def)
  moreover have "manager_ok issued mv'"
    using pl(2) by (simp add: placing_def manager_ok_def)
  moreover have "converged ddiv product desired (fst mv) (fst mv')"
  proof (rule convergedI)
    have keep: "levels (fst mv2) k = Some o' \<Longrightarrow> levels (fst mv') k = Some o'" for k o'
      using pl(2) unfolding placing_def by blast
    show kept: "levels (fst mv') k = Some o'"
      if "levels (fst mv) k = Some o'" "desired_qty ddiv product desired k \<noteq> None" for k o'
      by (rule keep) (use lv2 that in blast)
    show "desired_qty ddiv product desired k \<noteq> None
       \<and> (levels (fst mv) k = Some o' \<or> levels (fst mv) k = None
            \<and> desired_qty ddiv product desired k = Some (remaining o'))"
      if lv': "levels (fst mv') k = Some o'" for k o'
    proof (cases "levels (fst mv2) k = Some o'")
      case True
      then show ?thesis
        using lv2 amended_order [OF m plan] by (auto simp: remaining_def)
    next
      case False
      then obtain quo where "quo \<in> set qs" "level_of_quote quo = k" "remaining o' = q_qty quo"
        using pl(2) lv' unfolding placing_def by metis
      then show ?thesis using free(2) [of quo] unfolding qs_def by auto
    qed
    show "levels (fst mv') k \<noteq> None"
      if paper: "om_paper_mode (fst mv)" and des: "desired_qty ddiv product desired k \<noteq> None" for k
    proof (cases "levels (fst mv) k")
      case (Some o')
      then show ?thesis using kept [OF _ des] by simp
    next
      case None
      from m plan None des show ?thesis
      proof (cases rule: missing_level [where P = P])
        case (1 quo)
        then show ?thesis
          using pl(2) paper m2(4) unfolding placing_def qs_def by auto
      next
        case (2 a)
        then have "levels (fst mv2) k = Some ((the (live (fst mv) (ae_order_id a)))\<lparr>lo_price := ae_new_price a\<rparr>)"
          using lv2 amended_order [OF m plan 2(1)] by blast
        then show ?thesis using keep by simp
      qed
    qed
  qed
  ultimately show ?thesis by blast
qed

end

subsection \<open>Properties\<close>

text \<open>
  C1: executing a diff brings the manager onto the desired quotes. Let the venue hand out fresh,
  distinct order ids and acknowledge no batch with more ids than it was given orders (an
  over-acknowledging venue makes the code panic, \<^verbatim>\<open>oversized_ack_panics\<close>); it may otherwise answer
  every call with success or any error. From a manager whose two maps agree and hold ids issued
  before, and with a tick size other than zero, the execution returns; afterwards the two maps agree, every live order is
  on a desired level, an order that was already on a desired level is untouched, every other live
  order has the desired size unfilled, and in paper mode every desired level has a live order.
\<close>

theorem execute_diff_levels:
  assumes "venue conn issued" and "manager_ok issued mv" and "ps_tick_size product \<noteq> 0"
  shows "\<exists>mv'. execute_diff ddiv conn symbol desired product eps mv = Some mv'
    \<and> manager_ok issued mv'
    \<and> (\<forall>k o'. levels (fst mv') k = Some o' \<longrightarrow> desired_qty ddiv product desired k \<noteq> None
         \<and> (levels (fst mv) k = Some o'
            \<or> levels (fst mv) k = None \<and> desired_qty ddiv product desired k = Some (remaining o')))
    \<and> (\<forall>k o'. levels (fst mv) k = Some o' \<and> desired_qty ddiv product desired k \<noteq> None \<longrightarrow>
         levels (fst mv') k = Some o')
    \<and> (om_paper_mode (fst mv) \<longrightarrow> (\<forall>k. desired_qty ddiv product desired k \<noteq> None \<longrightarrow> levels (fst mv') k \<noteq> None))"
proof -
  define ticks where "ticks = (if supports_amend conn then eps else 0)"
  obtain plan where plan: "diff_orders ddiv (fst mv) desired product ticks = Some plan"
    by (simp add: diff_orders_def desired_prices_fold [OF assms(3)])
  obtain outs pouts mv' where ex: "execute_plan conn symbol plan mv = Some (outs, pouts, mv')"
    and res: "manager_ok issued mv'" "converged ddiv product desired (fst mv) (fst mv')"
    using venue.execute_plan_correct [OF assms(1,2) plan, of symbol] by blast
  have "execute_diff ddiv conn symbol desired product eps mv = Some mv'"
    using plan ex by (simp add: execute_diff_def ticks_def)
  then have "\<exists>mv'. execute_diff ddiv conn symbol desired product eps mv = Some mv' \<and> manager_ok issued mv'
      \<and> converged ddiv product desired (fst mv) (fst mv')"
    using res by blast
  then show ?thesis unfolding converged_def .
qed

definition example_venue :: mock_connector where
  "example_venue = mock_new\<lparr>mk_next_uuid := 3\<rparr>"

lemma example_manager_venue: "manager_ok mock_issued (example_manager b, example_venue)"
  using example_manager_ok [of b]
  by (auto simp: manager_ok_def mock_issued_def example_venue_def example_defs hm_get_def split: if_splits)

lemma example_desired_levels:
  "desired_qty (/) example_product example_desired (Buy, 101) = Some 1"
  "desired_qty (/) example_product example_desired (Buy, 97) = None"
proof -
  have "\<lfloor>203 / 2 :: decimal\<rfloor> = 101" by (rule floor_unique) simp_all
  then show "desired_qty (/) example_product example_desired (Buy, 101) = Some 1"
    "desired_qty (/) example_product example_desired (Buy, 97) = None"
    by (simp_all add: desired_qty_def level_of_def example_defs)
qed

theorem execute_diff_levels_witness:
  "\<exists>mv'. execute_diff (/) (mock_conn 20) ''BTCUSDT'' example_desired example_product 2
           (example_manager True, example_venue) = Some mv'
     \<and> levels (fst mv') (Buy, 101) \<noteq> None \<and> levels (fst mv') (Buy, 97) = None"
proof -
  have tick: "ps_tick_size example_product \<noteq> 0" by (simp add: example_product_def)
  have paper: "om_paper_mode (fst (example_manager True, example_venue))" by (simp add: example_manager_def)
  obtain mv' where mv': "execute_diff (/) (mock_conn 20) ''BTCUSDT'' example_desired example_product 2
           (example_manager True, example_venue) = Some mv'"
    and lv: "\<And>k o'. levels (fst mv') k = Some o' \<Longrightarrow> desired_qty (/) example_product example_desired k \<noteq> None"
    and all: "\<And>k. desired_qty (/) example_product example_desired k \<noteq> None \<Longrightarrow> levels (fst mv') k \<noteq> None"
    using execute_diff_levels [OF mock.venue_axioms example_manager_venue [of True] tick, of "(/)" 20 "''BTCUSDT''" example_desired 2]
      paper by blast
  have "levels (fst mv') (Buy, 97) = None"
    using lv [of "(Buy, 97)"] example_desired_levels(2) by (cases "levels (fst mv') (Buy, 97)") auto
  moreover have "levels (fst mv') (Buy, 101) \<noteq> None"
    using all [of "(Buy, 101)"] example_desired_levels(1) by simp
  ultimately show ?thesis using mv' by blast
qed

end
