(* ===== verification/Order_Lifecycle.thy ===== *)
theory Order_Lifecycle
  imports Order_Execution
begin

section \<open>Fills, cancel-all and paper matching\<close>

text \<open>
  The other operations of the order manager: fills and the surveillance tape, the verified
  \<^verbatim>\<open>cancel_all\<close>, the paper-mode matching, and what a batch acknowledgement with too many ids does.
\<close>

lemma remove_orders_state:
  assumes "index_ok (fst mv)"
  shows "index_ok (fst (remove_orders conn ids mv))
    \<and> live (fst (remove_orders conn ids mv)) = (\<lambda>i. if i \<in> set ids then None else live (fst mv) i)"
  using assms
proof (induction ids arbitrary: mv)
  case Nil
  then show ?case by (simp add: remove_orders_def)
next
  case (Cons i ids)
  then show ?case
    using remove_order_state [OF Cons.prems, of conn i] Cons.IH [of "remove_order conn i mv"]
    by (auto simp: remove_orders_def fun_eq_iff)
qed

lemma live_ids: "set (live_order_ids m) = dom (live m)"
  by (simp add: live_order_ids_def hm_get_def [abs_def] dom_map_of_conv_image_fst)

lemma remove_orders_rest:
  assumes "index_ok (fst mv)" and "dom (live (fst mv)) \<subseteq> set ids"
  shows "index_ok (fst (remove_orders conn (filter (\<lambda>i. i \<notin> keep) ids) mv))
    \<and> dom (live (fst (remove_orders conn (filter (\<lambda>i. i \<notin> keep) ids) mv))) = dom (live (fst mv)) \<inter> keep"
  using remove_orders_state [OF assms(1), of conn "filter (\<lambda>i. i \<notin> keep) ids"] assms(2)
  by (auto simp: dom_def)

text \<open>The result of a cancel-all tells which orders are still tracked.\<close>

definition reports_live :: "(order_id list + unit) \<times> 'v om_state \<Rightarrow> bool" where
  "reports_live res \<longleftrightarrow>
     index_ok (fst (snd res)) \<and>
     (case fst res of
        Inr _ \<Rightarrow> dom (live (fst (snd res))) = {}
      | Inl ids \<Rightarrow> ids \<noteq> [] \<and> set ids = dom (live (fst (snd res))))"

lemma retry_survivors_reports:
  assumes "index_ok (fst mv)" and "dom (live (fst mv)) = set survivors" and "set survivors \<subseteq> set ids"
    and "survivors \<noteq> []"
  shows "reports_live (retry_survivors conn symbol ids survivors mv)
    \<and> dom (live (fst (snd (retry_survivors conn symbol ids survivors mv)))) \<subseteq> set survivors"
proof -
  obtain q v1 where q: "get_open_orders conn symbol (cancel_each conn symbol survivors (snd mv)) = (q, v1)"
    by (rule prod.exhaust)
  show ?thesis
  proof (cases q)
    case (Inl e)
    then show ?thesis using assms q by (simp add: retry_survivors_def reports_live_def)
  next
    case (Inr orders)
    then show ?thesis
      using remove_orders_rest [of "(fst mv, v1)" ids conn "lo_order_id ` set orders"] assms q
      by (auto simp: retry_survivors_def reports_live_def Let_def filter_empty_conv)
  qed
qed

lemma verify_cancelled_reports:
  assumes "index_ok (fst mv)" and "dom (live (fst mv)) = set ids"
  shows "reports_live (verify_cancelled conn symbol ids orders mv)
    \<and> dom (live (fst (snd (verify_cancelled conn symbol ids orders mv)))) \<subseteq> set ids"
proof -
  let ?mv = "remove_orders conn (filter (\<lambda>i. i \<notin> lo_order_id ` set orders) ids) mv"
  let ?survivors = "filter (\<lambda>i. i \<in> lo_order_id ` set orders) ids"
  have st: "index_ok (fst ?mv)" "dom (live (fst ?mv)) = set ?survivors"
    using remove_orders_rest [of mv ids conn "lo_order_id ` set orders"] assms by auto
  show ?thesis
  proof (cases "?survivors = []")
    case True
    then show ?thesis using st by (simp add: verify_cancelled_def reports_live_def Let_def)
  next
    case False
    then show ?thesis
      using retry_survivors_reports [OF st _ False, of ids conn symbol]
      by (simp add: verify_cancelled_def Let_def) blast
  qed
qed

text \<open>
  C3: cancel-all reports the truth about the local book. When it returns Ok no order is
  tracked any more, whatever path it took; when it returns an error, the ids it names are exactly
  the orders still tracked, at least one, all of them tracked before; and the two maps agree.
\<close>

theorem cancel_all_outcome:
  assumes "index_ok (fst mv)" and "cancel_all conn symbol mv = (r, mv')"
  shows "index_ok (fst mv') \<and>
    (case r of
       Inr _ \<Rightarrow> dom (live (fst mv')) = {}
     | Inl ids \<Rightarrow> ids \<noteq> [] \<and> set ids = dom (live (fst mv')) \<and> set ids \<subseteq> dom (live (fst mv)))"
proof -
  define ids where "ids = live_order_ids (fst mv)"
  have dom: "dom (live (fst mv)) = set ids" using live_ids [of "fst mv"] by (simp add: ids_def)
  have gone: "index_ok (fst (remove_orders conn ids (fst mv, v)))
      \<and> dom (live (fst (remove_orders conn ids (fst mv, v)))) = {}" for v
    using remove_orders_state [of "(fst mv, v)" conn ids] assms(1) dom by (auto simp: dom_def)
  obtain q v1 where q: "get_open_orders conn symbol (issue_cancels conn symbol ids (snd mv)) = (q, v1)"
    by (rule prod.exhaust)
  have "reports_live (cancel_all conn symbol mv) \<and> dom (live (fst (snd (cancel_all conn symbol mv)))) \<subseteq> set ids"
  proof (cases "ids = [] \<or> om_paper_mode (fst mv) \<or> isl q")
    case True
    then show ?thesis
      using gone [of v1] gone [of "snd mv"] assms(1) dom
      by (cases q) (auto simp: cancel_all_def ids_def [symmetric] q reports_live_def Let_def)
  next
    case False
    then obtain orders where "cancel_all conn symbol mv = verify_cancelled conn symbol ids orders (fst mv, v1)"
      using q by (cases q) (auto simp: cancel_all_def ids_def [symmetric] Let_def)
    then show ?thesis
      using verify_cancelled_reports [of "(fst mv, v1)" ids conn symbol orders] assms(1) dom by simp
  qed
  then show ?thesis
    using assms(2) dom by (auto simp: reports_live_def split: sum.splits)
qed

theorem cancel_all_outcome_witness:
  "let mv' = snd (cancel_all (mock_conn 20) ''BTCUSDT'' (example_manager False, example_venue))
   in index_ok (fst mv') \<and> dom (live (fst mv')) = {}"
proof -
  obtain r mv' where r: "cancel_all (mock_conn 20) ''BTCUSDT'' (example_manager False, example_venue) = (r, mv')"
    by (rule prod.exhaust)
  have "isl (fst (cancel_all (mock_conn 20) ''BTCUSDT'' (example_manager False, example_venue))) = False"
    by (simp add: cancel_all_def Let_def example_defs live_order_ids_def mock_conn_def example_venue_def
        mock_new_def issue_cancels_def MIN_BATCH_SIZE_def mock_cancel_orders_batch_def chunks.simps
        verify_cancelled_def)
  then have "\<exists>u. r = Inr u" using r by (cases r) auto
  then show ?thesis
    using cancel_all_outcome [OF _ r] example_manager_ok [of False] r by auto
qed

subsection \<open>Fills\<close>

lemma insert_live_ok:
  assumes "index_ok m" and "live m i = Some ord" and "level_of_order ord' = level_of_order ord" and "lo_order_id ord' = i"
  shows "index_ok (m\<lparr>om_live_orders := hm_insert i ord' (om_live_orders m)\<rparr>)
    \<and> live (m\<lparr>om_live_orders := hm_insert i ord' (om_live_orders m)\<rparr>) = (live m)(i \<mapsto> ord')"
  using assms indexed_update [of level_of_order "live m" _ i ord ord']
  by (auto simp: index_ok_indexed hm_simps)

text \<open>
  A fill adds to the filled quantity of its order and to nothing else; the order leaves the
  book exactly when it is completely filled, and the surveillance tape then receives a
  cancellation of the filled order.
\<close>

theorem on_fill_effect:
  assumes "index_ok (fst mv)" and "live (fst mv) i = Some ord"
  shows "index_ok (fst (on_fill conn i q mv))
    \<and> live (fst (on_fill conn i q mv)) =
        (live (fst mv))(i := if lo_qty ord \<le> lo_filled_qty ord + q then None
                            else Some (ord\<lparr>lo_filled_qty := lo_filled_qty ord + q\<rparr>))
    \<and> om_surveillance (fst (on_fill conn i q mv)) =
        (if lo_qty ord \<le> lo_filled_qty ord + q
         then map_option (\<lambda>tape. tape @ [OrderCancelled i (lo_symbol ord) (fst (utc_now conn (snd mv)))])
                (om_surveillance (fst mv))
         else om_surveillance (fst mv))"
proof -
  define ord' where "ord' = ord\<lparr>lo_filled_qty := lo_filled_qty ord + q\<rparr>"
  define m1 where "m1 = (fst mv)\<lparr>om_live_orders := hm_insert i ord' (om_live_orders (fst mv))\<rparr>"
  have id: "lo_order_id ord = i" using assms by (auto simp: index_ok_indexed)
  have m1: "index_ok m1" "live m1 = (live (fst mv))(i \<mapsto> ord')"
    using insert_live_ok [OF assms, of ord'] id by (simp_all add: m1_def ord'_def)
  have eq: "on_fill conn i q mv =
      (if lo_qty ord \<le> lo_filled_qty ord + q then remove_order conn i (m1, snd mv) else (m1, snd mv))"
    using assms(2) id by (simp add: on_fill_def m1_def ord'_def Let_def)
  have "om_surveillance (fst (remove_order conn i (m1, snd mv))) =
      map_option (\<lambda>tape. tape @ [OrderCancelled i (lo_symbol ord) (fst (utc_now conn (snd mv)))])
        (om_surveillance (fst mv))"
    using m1(2) by (simp add: remove_order_def Let_def case_prod_beta feed_surveillance_def ord'_def split: option.split)
      (simp add: m1_def)
  then show ?thesis
    using m1 remove_order_state [of "(m1, snd mv)" conn i] by (auto simp: eq ord'_def m1_def)
qed

theorem on_fill_effect_witness:
  "live (fst (on_fill (mock_conn 20) 2 2 (example_manager False, example_venue))) 2 = None
   \<and> index_ok (fst (on_fill (mock_conn 20) 2 2 (example_manager False, example_venue)))"
proof -
  have l: "live (fst (example_manager False, example_venue)) 2 = Some (example_order 2 Sell 105 2)"
    by (simp add: example_manager_def hm_get_def)
  show ?thesis
    using on_fill_effect [of "(example_manager False, example_venue)" 2 "example_order 2 Sell 105 2" "mock_conn 20" 2]
      example_manager_ok [of False] l by (simp add: example_order_def)
qed

subsection \<open>Acknowledgements\<close>

text \<open>
  A batch acknowledgement with more ids than orders panics: the slice of the unacknowledged
  orders starts past its end, so the execution of the diff does not return.
\<close>

theorem oversized_ack_panics:
  assumes "place_orders_batch conn
      (map (\<lambda>quo. limit_order symbol (q_side quo) (q_price quo) (q_qty quo) PostOnly False) chunk) (snd mv)
      = (Inr ids, v1)"
    and "length chunk < length ids"
  shows "place_chunk conn symbol chunk mv = None"
  using assms by (simp add: place_chunk_def split: prod.split)

theorem oversized_ack_panics_witness:
  "place_chunk ((mock_conn 20)\<lparr>place_orders_batch := \<lambda>nos v. (Inr [7, 8], v)\<rparr>) ''BTCUSDT''
     [\<lparr>q_side = Buy, q_price = 1, q_qty = 1\<rparr>] (om_new, mock_new) = None"
  by (rule oversized_ack_panics [where ids = "[7, 8]"]) simp_all

subsection \<open>Paper matching\<close>

lemma drop_live_ok:
  assumes "index_ok m" and "live m i = Some ord"
  shows "index_ok (m\<lparr>om_live_orders := hm_remove i (om_live_orders m),
                    om_price_index := hm_remove (level_of_order ord) (om_price_index m)\<rparr>)"
    and "hm_get (hm_remove i (om_live_orders m)) = (live m)(i := None)"
  using assms indexed_remove [of level_of_order "live m" _ i ord]
  by (auto simp: index_ok_indexed hm_simps)

definition fill_view :: "fill \<Rightarrow> order_id \<times> side \<times> price \<times> qty" where
  "fill_view f = (f_order_id f, f_side f, f_price f, f_qty f)"

lemma paper_fill_loop_state:
  assumes "index_ok (fst mv)" and "distinct (map fst cs)" and "\<forall>i \<in> fst ` set cs. live (fst mv) i \<noteq> None"
    and "paper_fill_loop conn cs tid mv = (fills, tid', mv')"
  shows "index_ok (fst mv')
    \<and> live (fst mv') = (\<lambda>i. if i \<in> fst ` set cs then None else live (fst mv) i)
    \<and> map fill_view fills = map (\<lambda>(i, p). let ord = the (live (fst mv) i) in (i, lo_side ord, p, remaining ord)) cs"
  using assms
proof (induction conn cs tid mv arbitrary: fills rule: paper_fill_loop.induct)
  case (1 conn tid mv)
  then show ?case by simp
next
  case (2 conn i p cs tid mv)
  obtain ord where ord: "live (fst mv) i = Some ord" using 2(5) by auto
  have id: "lo_order_id ord = i" using 2(3) ord by (auto simp: index_ok_indexed)
  obtain ts v1 where ts: "utc_now conn (snd mv) = (ts, v1)" by (rule prod.exhaust)
  let ?m = "(fst mv)\<lparr>om_live_orders := hm_remove i (om_live_orders (fst mv)),
      om_price_index := hm_remove (level_of_order ord) (om_price_index (fst mv))\<rparr>"
  note m = drop_live_ok [OF 2(3) ord]
  obtain fills' where rest: "paper_fill_loop conn cs (tid + 1) (?m, v1) = (fills', tid', mv')"
    and fills: "map fill_view fills = (i, lo_side ord, p, remaining ord) # map fill_view fills'"
    using 2(6) ord ts id by (auto simp: rand_trade_id_def fill_view_def split: prod.splits)
  have i: "i \<notin> fst ` set cs" using 2(4) by simp
  have pre: "\<forall>j \<in> fst ` set cs. live ?m j \<noteq> None" using 2(5) i m(2) by auto
  have IH: "index_ok (fst mv')" "live (fst mv') = (\<lambda>j. if j \<in> fst ` set cs then None else live ?m j)"
    "map fill_view fills' = map (\<lambda>(i, p). let ord = the (live ?m i) in (i, lo_side ord, p, remaining ord)) cs"
    using 2(2) [OF ord rand_trade_id_def [symmetric] ts [symmetric], unfolded fst_conv] m(1) 2(4) pre rest by simp_all
  have "map (\<lambda>(i, p). let ord = the (live ?m i) in (i, lo_side ord, p, remaining ord)) cs
      = map (\<lambda>(i, p). let ord = the (live (fst mv) i) in (i, lo_side ord, p, remaining ord)) cs"
    using i m(2) by (intro map_cong) (auto simp: Let_def rev_image_eqI)
  then show ?case
    using IH ord fills m(2) by (auto simp: fun_eq_iff)
qed

lemma live_prices:
  assumes "index_ok m"
  shows "hm_get (fold (\<lambda>(_, o'). hm_insert (lo_order_id o') (lo_price o')) (om_live_orders m) []) i
      = map_option lo_price (live m i)"
proof -
  have ok: "hm_ok (om_live_orders m)" using assms by (simp add: index_ok_indexed)
  have ids: "lo_order_id o' = i" if "(i, o') \<in> set (om_live_orders m)" for i o'
    using that assms by (simp add: hm.entries_iff [OF ok] index_ok_indexed)
  have "find (\<lambda>e. lo_order_id (snd e) = i) (rev (om_live_orders m)) = map_option (Pair i) (live m i)"
  proof (cases "live m i")
    case None
    then have "i \<notin> fst ` set (om_live_orders m)" using hm.keys_iff [OF ok] by simp
    then show ?thesis using None ids by (force simp: find_None_iff)
  next
    case (Some o')
    then have e: "(i, o') \<in> set (om_live_orders m)" using hm.entries_iff [OF ok] by simp
    have "distinct (map fst (rev (om_live_orders m)))" using ok by (simp add: hm_ok_def rev_map [symmetric])
    then have "find (\<lambda>e. fst e = fst (i, o')) (rev (om_live_orders m)) = Some (i, o')"
      by (rule find_distinct_id) (use e in simp)
    moreover have "find (\<lambda>e. lo_order_id (snd e) = i) (rev (om_live_orders m))
        = find (\<lambda>e. fst e = fst (i, o')) (rev (om_live_orders m))"
      using ids by (intro find_cong) auto
    ultimately show ?thesis using Some by simp
  qed
  then show ?thesis
    using hm.get_inserts [of "[]" "\<lambda>e. lo_order_id (snd e)" "\<lambda>e. lo_price (snd e)" "om_live_orders m" i]
    by (simp add: case_prod_beta' split: option.split)
qed

text \<open>A trade reaches a resting order: an aggressive buy the sells at or below its price, and conversely.\<close>

definition touches :: "price \<Rightarrow> side \<Rightarrow> live_order \<Rightarrow> bool" where
  "touches p taker ord \<longleftrightarrow>
     lo_side ord = opposite taker \<and> (if taker = Buy then lo_price ord \<le> p else p \<le> lo_price ord)"

lemma crossed_touches: "crossed p taker ord = touches p taker ord"
  by (cases taker; cases "lo_side ord") (auto simp: crossed_def touches_def)

text \<open>
  C4: in paper mode a public trade fills exactly the resting orders it crosses, each once, at its
  own price and for its whole unfilled quantity; these orders leave the book and no other does.
\<close>

theorem paper_match_trade_exact:
  assumes "index_ok (fst mv)" and "om_paper_mode (fst mv)"
    and "paper_match_trade conn p taker tid mv = (fills, tid', mv')"
  shows "index_ok (fst mv')
    \<and> (\<forall>i. live (fst mv') i = (case live (fst mv) i of
           None \<Rightarrow> None | Some ord \<Rightarrow> if touches p taker ord then None else Some ord))
    \<and> distinct (map f_order_id fills)
    \<and> set (map (\<lambda>f. (f_order_id f, f_side f, f_price f, f_qty f)) fills)
        = {(lo_order_id ord, lo_side ord, lo_price ord, remaining ord) | ord.
            \<exists>i. live (fst mv) i = Some ord \<and> touches p taker ord}"
proof -
  define m where "m = fst mv"
  have ok: "hm_ok (om_live_orders m)" and ids: "\<And>i o'. live m i = Some o' \<Longrightarrow> lo_order_id o' = i"
    using assms(1) by (auto simp: index_ok_indexed m_def)
  define hit where "hit = filter (crossed p taker) (map snd (om_live_orders m))"
  define cs where "cs = map (\<lambda>o'. (lo_order_id o', lo_price o')) hit"
  have in_hit: "o' \<in> set hit \<longleftrightarrow> (\<exists>i. live m i = Some o') \<and> crossed p taker o'" for o'
    by (force simp: hit_def hm.entries_iff [OF ok, symmetric])
  have "List.map_filter (\<lambda>i. map_option (\<lambda>p. (i, p)) (map_option lo_price (live m i))) (map lo_order_id hit) = cs"
    if "set hit \<subseteq> {o'. live m (lo_order_id o') = Some o'}"
    using that unfolding cs_def by (induction hit) (auto simp: List.map_filter_simps)
  moreover have self: "set hit \<subseteq> {o'. live m (lo_order_id o') = Some o'}" using in_hit ids by auto
  ultimately have "paper_match_trade conn p taker tid mv = paper_fill_loop conn cs tid mv"
    using assms(2) live_prices [OF assms(1)]
    by (simp add: paper_match_trade_def paper_match_trade_filtered_def Let_def hit_def m_def)
  then have run: "paper_fill_loop conn cs tid mv = (fills, tid', mv')" using assms(3) by simp
  have fst_cs: "map fst cs = map lo_order_id hit" by (simp add: cs_def)
  have dist: "distinct (map fst cs)"
  proof -
    have "distinct (map lo_order_id (map snd (om_live_orders m)))"
      using ok ids hm.entries_iff [OF ok] unfolding hm_ok_def
      by (metis (no_types, lifting) map_cong list.map_comp comp_apply prod.collapse)
    then show ?thesis unfolding fst_cs hit_def by (rule distinct_map_filter)
  qed
  have "\<forall>i \<in> fst ` set cs. live (fst mv) i \<noteq> None"
    using self by (auto simp: cs_def m_def)
  from paper_fill_loop_state [OF assms(1) dist this run]
  have st: "index_ok (fst mv')" "live (fst mv') = (\<lambda>i. if i \<in> fst ` set cs then None else live m i)"
    "map fill_view fills = map (\<lambda>(i, p). let ord = the (live m i) in (i, lo_side ord, p, remaining ord)) cs"
    unfolding m_def by blast+
  have views: "map fill_view fills = map (\<lambda>o'. (lo_order_id o', lo_side o', lo_price o', remaining o')) hit"
    unfolding st(3) cs_def using self by (auto simp: Let_def)
  have "map f_order_id fills = map fst (map fill_view fills)" by (simp add: fill_view_def)
  then have "distinct (map f_order_id fills)" using dist fst_cs by (simp add: views comp_def)
  moreover have "i \<in> fst ` set cs \<longleftrightarrow> (\<exists>o'. live m i = Some o' \<and> crossed p taker o')" for i
    using in_hit ids by (auto simp: cs_def image_iff)
  then have "live (fst mv') i = (case live m i of
           None \<Rightarrow> None | Some ord \<Rightarrow> if crossed p taker ord then None else Some ord)" for i
    by (auto simp: st(2) split: option.split)
  moreover have "set (map fill_view fills) = {(lo_order_id ord, lo_side ord, lo_price ord, remaining ord) | ord.
            \<exists>i. live m i = Some ord \<and> crossed p taker ord}"
    unfolding views using in_hit by auto
  ultimately show ?thesis
    using st(1) unfolding crossed_touches by (simp add: fill_view_def [abs_def] m_def)
qed

theorem paper_match_trade_exact_witness:
  "\<exists>fills tid' mv'. paper_match_trade (mock_conn 20) 99 Sell 1 (example_manager True, example_venue) = (fills, tid', mv')
     \<and> live (fst mv') 0 = None \<and> live (fst mv') 1 \<noteq> None \<and> distinct (map f_order_id fills)"
proof -
  obtain fills tid' mv' where
    r: "paper_match_trade (mock_conn 20) 99 Sell 1 (example_manager True, example_venue) = (fills, tid', mv')"
    by (rule prod_cases3)
  have "index_ok (fst (example_manager True, example_venue))" "om_paper_mode (fst (example_manager True, example_venue))"
    using example_manager_ok [of True] by (simp_all add: example_manager_def)
  from paper_match_trade_exact [OF this r] show ?thesis
    using r by (simp add: example_manager_def hm_get_def touches_def example_order_def)
qed

end
