(* ===== verification/Order_Id_Map.thy ===== *)
theory Order_Id_Map
  imports Std_Maps Common_Types
begin

section \<open>The order id map\<close>

text \<open>
  \<^verbatim>\<open>crates/engine/src/order_id_map.rs\<close>: the two-way map between internal ids and the ids of the
  exchange, and the client ids.
\<close>

record order_id_map =
  im_to_exchange :: "(order_id, string) hash_map"
  im_to_internal :: "(string, order_id) hash_map"
  im_client_to_internal :: "(string, order_id) hash_map"

definition im_new :: order_id_map where
  "im_new = \<lparr>im_to_exchange = [], im_to_internal = [], im_client_to_internal = []\<rparr>"

definition im_insert :: "order_id \<Rightarrow> string \<Rightarrow> order_id_map \<Rightarrow> order_id_map" where
  "im_insert i e m =
     m\<lparr>im_to_exchange := hm_insert i e (im_to_exchange m),
       im_to_internal := hm_insert e i (im_to_internal m)\<rparr>"

definition im_insert_client_id :: "string \<Rightarrow> order_id \<Rightarrow> order_id_map \<Rightarrow> order_id_map" where
  "im_insert_client_id c i m = m\<lparr>im_client_to_internal := hm_insert c i (im_client_to_internal m)\<rparr>"

definition get_exchange_id :: "order_id_map \<Rightarrow> order_id \<Rightarrow> string option" where
  "get_exchange_id m i = hm_get (im_to_exchange m) i"

definition get_internal_id :: "order_id_map \<Rightarrow> string \<Rightarrow> order_id option" where
  "get_internal_id m e = hm_get (im_to_internal m) e"

definition get_by_client_id :: "order_id_map \<Rightarrow> string \<Rightarrow> order_id option" where
  "get_by_client_id m c = hm_get (im_client_to_internal m) c"

definition im_remove :: "order_id \<Rightarrow> order_id_map \<Rightarrow> order_id_map" where
  "im_remove i m =
     (case hm_get (im_to_exchange m) i of
        None \<Rightarrow> m
      | Some e \<Rightarrow> m\<lparr>im_to_exchange := hm_remove i (im_to_exchange m),
                   im_to_internal := hm_remove e (im_to_internal m)\<rparr>)"

definition im_len :: "order_id_map \<Rightarrow> nat" where
  "im_len m = length (im_to_exchange m)"

definition im_is_empty :: "order_id_map \<Rightarrow> bool" where
  "im_is_empty m \<longleftrightarrow> im_to_exchange m = []"

definition im_clear :: "order_id_map \<Rightarrow> order_id_map" where
  "im_clear m = \<lparr>im_to_exchange = [], im_to_internal = [], im_client_to_internal = []\<rparr>"

subsection \<open>The operations as steps\<close>

datatype id_op = Insert order_id string | InsertClientId string order_id | Remove order_id | Clear

fun id_step :: "order_id_map \<Rightarrow> id_op \<Rightarrow> order_id_map" where
  "id_step m (Insert i e) = im_insert i e m"
| "id_step m (InsertClientId c i) = im_insert_client_id c i m"
| "id_step m (Remove i) = im_remove i m"
| "id_step m Clear = im_clear m"

definition ids_ok :: "order_id_map \<Rightarrow> bool" where
  "ids_ok m \<longleftrightarrow> hm_ok (im_to_exchange m) \<and> hm_ok (im_to_internal m) \<and> hm_ok (im_client_to_internal m)
     \<and> indexed (\<lambda>e. e) (hm_get (im_to_exchange m)) (hm_get (im_to_internal m))"

text \<open>A run in which every registration is for a pair of ids that are both unknown at that point.\<close>

fun fresh_run :: "order_id_map \<Rightarrow> id_op list \<Rightarrow> bool" where
  "fresh_run m [] \<longleftrightarrow> True"
| "fresh_run m (op # ops) \<longleftrightarrow>
     (case op of
        Insert i e \<Rightarrow> get_exchange_id m i = None \<and> get_internal_id m e = None
      | _ \<Rightarrow> True) \<and> fresh_run (id_step m op) ops"

lemma ids_ok_new: "ids_ok im_new"
  by (simp add: ids_ok_def im_new_def indexed_def)

lemma im_insert_ok:
  "ids_ok m \<Longrightarrow> get_exchange_id m i = None \<Longrightarrow> get_internal_id m e = None \<Longrightarrow> ids_ok (im_insert i e m)"
  using indexed_insert [of "\<lambda>e. e" "hm_get (im_to_exchange m)" "hm_get (im_to_internal m)" i e]
  by (simp add: ids_ok_def im_insert_def hm_simps get_exchange_id_def get_internal_id_def)

lemma im_remove_ok: "ids_ok m \<Longrightarrow> ids_ok (im_remove i m)"
  using indexed_remove [of "\<lambda>e. e" "hm_get (im_to_exchange m)" "hm_get (im_to_internal m)" i]
  by (auto simp: ids_ok_def im_remove_def hm_simps split: option.splits)

lemma im_client_ok: "ids_ok m \<Longrightarrow> ids_ok (im_insert_client_id c i m)"
  by (simp add: ids_ok_def im_insert_client_id_def hm_simps)

lemma im_clear_ok: "ids_ok (im_clear m)"
  using ids_ok_new by (simp add: im_new_def im_clear_def)

lemma ids_ok_run:
  "ids_ok m \<Longrightarrow> fresh_run m ops \<Longrightarrow> ids_ok (foldl id_step m ops)"
proof (induction ops arbitrary: m)
  case Nil
  then show ?case by simp
next
  case (Cons op ops)
  then have "ids_ok (id_step m op)"
    by (cases op) (simp_all add: im_insert_ok im_remove_ok im_client_ok im_clear_ok)
  then show ?case using Cons by simp
qed

text \<open>
  As long as every registration is for ids that are not registered, the two directions are
  inverse to each other after any run of operations: an internal id maps to an exchange id
  exactly when that exchange id maps back to it.
\<close>

theorem id_map_bijective:
  assumes "fresh_run im_new ops"
  shows "get_exchange_id (foldl id_step im_new ops) i = Some e
    \<longleftrightarrow> get_internal_id (foldl id_step im_new ops) e = Some i"
  using ids_ok_run [OF ids_ok_new assms] by (auto simp: ids_ok_def get_exchange_id_def get_internal_id_def indexed_def)

theorem id_map_bijective_witness:
  "let m = foldl id_step im_new [Insert 1 ''A'', Insert 2 ''B'', Remove 1, Insert 3 ''A'']
   in get_exchange_id m 3 = Some ''A'' \<longleftrightarrow> get_internal_id m ''A'' = Some 3"
proof -
  have "fresh_run im_new [Insert 1 ''A'', Insert 2 ''B'', Remove 1, Insert 3 ''A'']"
    by (simp add: im_new_def im_insert_def im_remove_def get_exchange_id_def get_internal_id_def
        hm_get_def hm_insert_def hm_remove_def)
  from id_map_bijective [OF this] show ?thesis by (simp only: Let_def)
qed

text \<open>
  Registering an internal id a second time under another exchange id leaves the old exchange
  id resolving to it, and removing the order then removes only the new one: the old exchange id
  still maps to an order that is gone.
\<close>

theorem reinsert_leaves_stale_id:
  assumes "ids_ok m" and "get_exchange_id m i = Some e" and "e' \<noteq> e"
  shows "get_internal_id (im_remove i (im_insert i e' m)) e = Some i
    \<and> get_exchange_id (im_remove i (im_insert i e' m)) i = None"
  using assms
  by (auto simp: ids_ok_def get_exchange_id_def get_internal_id_def im_insert_def im_remove_def hm_simps
      dest: indexed_primD)

theorem reinsert_leaves_stale_id_witness:
  "get_internal_id (im_remove 1 (im_insert 1 ''B'' (im_insert 1 ''A'' im_new))) ''A'' = Some 1"
  using reinsert_leaves_stale_id [of "im_insert 1 ''A'' im_new" 1 "''A''" "''B''"]
    im_insert_ok [OF ids_ok_new, of 1 "''A''"]
  by (simp add: get_exchange_id_def get_internal_id_def im_new_def im_insert_def hm_get_def hm_insert_def)

end
