(* ===== verification/Kill_Switch.thy ===== *)
theory Kill_Switch
  imports Common_Types
begin

section \<open>The kill switch\<close>

text \<open>
  \<^verbatim>\<open>crates/risk/src/kill_switch.rs\<close> and the decision type of \<^verbatim>\<open>crates/risk/src/margin_guard.rs\<close>.
  Every method is a definition; a method that reads the clock takes the time as an argument, in
  milliseconds, and a day boundary is a change of the day number of the time. The counters are
  32-bit words that wrap as in a release build. Log lines are left out; a dash in a reason text is
  written as a hyphen.
\<close>

datatype kill_level = Normal | WidenSpreads | StopNewOrders | CancelAll | FlattenAll | Disconnect

primrec kill_rank :: "kill_level \<Rightarrow> nat" where
  "kill_rank Normal = 0"
| "kill_rank WidenSpreads = 1"
| "kill_rank StopNewOrders = 2"
| "kill_rank CancelAll = 3"
| "kill_rank FlattenAll = 4"
| "kill_rank Disconnect = 5"

lemma kill_rank_inj: "kill_rank a = kill_rank b \<longleftrightarrow> a = b"
  by (cases a; cases b) simp_all

instantiation kill_level :: linorder
begin

definition less_eq_kill_level :: "kill_level \<Rightarrow> kill_level \<Rightarrow> bool" where
  "less_eq_kill_level a b \<longleftrightarrow> kill_rank a \<le> kill_rank b"

definition less_kill_level :: "kill_level \<Rightarrow> kill_level \<Rightarrow> bool" where
  "less_kill_level a b \<longleftrightarrow> kill_rank a < kill_rank b"

instance
  by standard (auto simp: less_eq_kill_level_def less_kill_level_def kill_rank_inj)

end

lemmas kill_order = less_eq_kill_level_def less_kill_level_def

lemma Normal_least [simp]: "Normal \<le> l"
  by (cases l) (simp_all add: kill_order)

definition spread_multiplier :: "kill_level \<Rightarrow> decimal" where
  "spread_multiplier l = (case l of Normal \<Rightarrow> 1 | WidenSpreads \<Rightarrow> 2 | _ \<Rightarrow> 1)"

definition size_multiplier :: "kill_level \<Rightarrow> decimal" where
  "size_multiplier l = (case l of Normal \<Rightarrow> 1 | WidenSpreads \<Rightarrow> 1 / 2 | _ \<Rightarrow> 0)"

primrec level_name :: "kill_level \<Rightarrow> string" where
  "level_name Normal = ''NORMAL''"
| "level_name WidenSpreads = ''WIDEN_SPREADS''"
| "level_name StopNewOrders = ''STOP_NEW_ORDERS''"
| "level_name CancelAll = ''CANCEL_ALL''"
| "level_name FlattenAll = ''FLATTEN_ALL''"
| "level_name Disconnect = ''DISCONNECT''"

datatype margin_guard_decision =
  MgNormal | MgWidenSpreads | MgReduce | MgStopNewOrders | MgCancelAll | MgStale

primrec kill_level_of :: "margin_guard_decision \<Rightarrow> kill_level option" where
  "kill_level_of MgNormal = None"
| "kill_level_of MgWidenSpreads = Some WidenSpreads"
| "kill_level_of MgStale = Some WidenSpreads"
| "kill_level_of MgReduce = Some WidenSpreads"
| "kill_level_of MgStopNewOrders = Some StopNewOrders"
| "kill_level_of MgCancelAll = Some CancelAll"

record kill_switch_config =
  daily_loss_limit :: decimal
  daily_loss_warning :: decimal
  max_position_value :: decimal
  max_message_rate :: u32
  max_consecutive_errors :: u32
  no_fill_timeout_secs :: u64

definition default_kill_switch_config :: kill_switch_config where
  "default_kill_switch_config =
     \<lparr>daily_loss_limit = 1000, daily_loss_warning = 500, max_position_value = 50000,
      max_message_rate = 100, max_consecutive_errors = 10, no_fill_timeout_secs = 300\<rparr>"

record kill_switch =
  ks_config :: kill_switch_config
  current_level :: kill_level
  ks_reason :: string
  activated_at :: "timestamp option"
  daily_pnl :: decimal
  message_count_this_second :: u32
  consecutive_errors :: u32
  last_fill_at :: "timestamp option"
  day_start :: timestamp
  low_mr_since :: "timestamp option"

definition MR_LOW_THRESHOLD :: decimal where
  "MR_LOW_THRESHOLD = 3 / 10"

definition MR_SUSTAIN_SECS :: int where
  "MR_SUSTAIN_SECS = 3"

text \<open>\<^verbatim>\<open>num_seconds\<close> of a duration truncates towards zero; \<^verbatim>\<open>date_naive\<close> is the day of a time.\<close>

definition num_seconds :: "int \<Rightarrow> int" where
  "num_seconds ms = (if 0 \<le> ms then ms div 1000 else - (- ms div 1000))"

definition day_of :: "timestamp \<Rightarrow> int" where
  "day_of t = t div 86400000"

definition ks_new :: "kill_switch_config \<Rightarrow> timestamp \<Rightarrow> kill_switch" where
  "ks_new cfg now =
     \<lparr>ks_config = cfg, current_level = Normal, ks_reason = '''', activated_at = None, daily_pnl = 0,
      message_count_this_second = 0, consecutive_errors = 0, last_fill_at = None, day_start = now,
      low_mr_since = None\<rparr>"

definition escalate :: "kill_level \<Rightarrow> string \<Rightarrow> timestamp \<Rightarrow> kill_switch \<Rightarrow> kill_switch" where
  "escalate l r now k =
     (if current_level k < l
      then k\<lparr>current_level := l, ks_reason := r, activated_at := Some now\<rparr>
      else k)"

definition manual_trigger :: "kill_level \<Rightarrow> string \<Rightarrow> timestamp \<Rightarrow> kill_switch \<Rightarrow> kill_switch" where
  "manual_trigger l r now k =
     k\<lparr>current_level := l, ks_reason := ''MANUAL: '' @ r, activated_at := Some now\<rparr>"

definition ks_reset :: "kill_switch \<Rightarrow> kill_switch" where
  "ks_reset k = k\<lparr>current_level := Normal, ks_reason := '''', activated_at := None, consecutive_errors := 0\<rparr>"

definition update_pnl :: "decimal \<Rightarrow> timestamp \<Rightarrow> kill_switch \<Rightarrow> kill_switch" where
  "update_pnl pnl now k =
     (let k1 = (if day_of now \<noteq> day_of (day_start k) then k\<lparr>daily_pnl := 0, day_start := now\<rparr> else k);
          k2 = k1\<lparr>daily_pnl := pnl\<rparr>
      in if daily_pnl k2 < - daily_loss_limit (ks_config k2)
         then escalate CancelAll ''daily loss limit breached'' now k2
         else if daily_pnl k2 < - daily_loss_warning (ks_config k2)
         then escalate WidenSpreads ''daily loss warning threshold'' now k2
         else k2)"

definition update_position_value :: "decimal \<Rightarrow> timestamp \<Rightarrow> kill_switch \<Rightarrow> kill_switch" where
  "update_position_value v now k =
     (if max_position_value (ks_config k) < v
      then escalate StopNewOrders ''max position value exceeded'' now k else k)"

primrec margin_reason :: "margin_guard_decision \<Rightarrow> string" where
  "margin_reason MgNormal = ''''"
| "margin_reason MgWidenSpreads = ''margin ratio elevated (>= widen_ratio)''"
| "margin_reason MgReduce = ''margin ratio high - engine reducing proactively (>= reduce_ratio)''"
| "margin_reason MgStopNewOrders = ''margin ratio high (>= stop_ratio)''"
| "margin_reason MgCancelAll = ''margin ratio critical (>= cancel_ratio) - pre-liquidation''"
| "margin_reason MgStale = ''margin feed stale - venue data outage, widening pre-emptively''"

definition update_margin_ratio :: "margin_guard_decision \<Rightarrow> timestamp \<Rightarrow> kill_switch \<Rightarrow> kill_switch" where
  "update_margin_ratio d now k =
     (case kill_level_of d of
        None \<Rightarrow> k
      | Some l \<Rightarrow> if d = MgNormal then k else escalate l (margin_reason d) now k)"

definition update_market_resilience :: "decimal \<Rightarrow> timestamp \<Rightarrow> timestamp \<Rightarrow> kill_switch \<Rightarrow> kill_switch" where
  "update_market_resilience score now clock k =
     (if score < MR_LOW_THRESHOLD then
        let anchor = (case low_mr_since k of None \<Rightarrow> now | Some t \<Rightarrow> t);
            k1 = k\<lparr>low_mr_since := Some anchor\<rparr>;
            elapsed = num_seconds (now - anchor)
        in if MR_SUSTAIN_SECS \<le> elapsed \<and> current_level k1 = Normal
           then escalate WidenSpreads ''market resilience sustained below threshold'' clock k1
           else k1
      else k\<lparr>low_mr_since := None\<rparr>)"

definition on_message_sent :: "timestamp \<Rightarrow> kill_switch \<Rightarrow> kill_switch" where
  "on_message_sent now k =
     (let k1 = k\<lparr>message_count_this_second := message_count_this_second k + 1\<rparr>
      in if max_message_rate (ks_config k1) < message_count_this_second k1
         then escalate CancelAll ''runaway algorithm detected - max message rate exceeded'' now k1
         else k1)"

definition tick_second :: "timestamp \<Rightarrow> kill_switch \<Rightarrow> kill_switch" where
  "tick_second now k =
     (let k1 = k\<lparr>message_count_this_second := 0\<rparr>
      in if no_fill_timeout_secs (ks_config k1) = 0 then k1
         else case last_fill_at k1 of
                None \<Rightarrow> k1
              | Some last_fill \<Rightarrow>
                  let elapsed = (of_int (num_seconds (now - last_fill)) :: u64)
                  in if no_fill_timeout_secs (ks_config k1) < elapsed
                     then escalate WidenSpreads ''no fills for extended period'' now k1
                     else k1)"

definition ks_on_fill :: "timestamp \<Rightarrow> kill_switch \<Rightarrow> kill_switch" where
  "ks_on_fill now k = k\<lparr>last_fill_at := Some now, consecutive_errors := 0\<rparr>"

definition on_error :: "timestamp \<Rightarrow> kill_switch \<Rightarrow> kill_switch" where
  "on_error now k =
     (let k1 = k\<lparr>consecutive_errors := consecutive_errors k + 1\<rparr>
      in if max_consecutive_errors (ks_config k1) \<le> consecutive_errors k1
         then escalate StopNewOrders ''too many consecutive API errors'' now k1
         else k1)"

definition allow_new_orders :: "kill_switch \<Rightarrow> bool" where
  "allow_new_orders k \<longleftrightarrow> current_level k < StopNewOrders"

subsection \<open>The switch as a state machine\<close>

datatype ks_event =
    UpdatePnl decimal timestamp
  | UpdatePositionValue decimal timestamp
  | UpdateMarginRatio margin_guard_decision timestamp
  | UpdateMarketResilience decimal timestamp timestamp
  | MessageSent timestamp
  | TickSecond timestamp
  | FillSeen timestamp
  | ErrorSeen timestamp
  | ManualTrigger kill_level string timestamp
  | ResetSwitch

fun ks_step :: "kill_switch \<Rightarrow> ks_event \<Rightarrow> kill_switch" where
  "ks_step k (UpdatePnl p t) = update_pnl p t k"
| "ks_step k (UpdatePositionValue v t) = update_position_value v t k"
| "ks_step k (UpdateMarginRatio d t) = update_margin_ratio d t k"
| "ks_step k (UpdateMarketResilience s t c) = update_market_resilience s t c k"
| "ks_step k (MessageSent t) = on_message_sent t k"
| "ks_step k (TickSecond t) = tick_second t k"
| "ks_step k (FillSeen t) = ks_on_fill t k"
| "ks_step k (ErrorSeen t) = on_error t k"
| "ks_step k (ManualTrigger l r t) = manual_trigger l r t k"
| "ks_step k ResetSwitch = ks_reset k"

fun automatic :: "ks_event \<Rightarrow> bool" where
  "automatic (ManualTrigger l r t) \<longleftrightarrow> False"
| "automatic ResetSwitch \<longleftrightarrow> False"
| "automatic _ \<longleftrightarrow> True"

lemma escalate_level: "current_level (escalate l r now k) = max (current_level k) l"
  by (auto simp: escalate_def max_def)

lemma escalate_config [simp]: "ks_config (escalate l r now k) = ks_config k"
  by (simp add: escalate_def)

lemmas ks_ops = update_pnl_def update_position_value_def update_margin_ratio_def
  update_market_resilience_def on_message_sent_def tick_second_def ks_on_fill_def on_error_def
  manual_trigger_def ks_reset_def

lemma ks_step_config: "ks_config (ks_step k e) = ks_config k"
  by (cases e) (auto simp: ks_ops Let_def split: option.split)

text \<open>What one event asks for: the level an automatic event escalates to.\<close>

definition demanded :: "kill_switch \<Rightarrow> ks_event \<Rightarrow> kill_level" where
  "demanded k e =
     (case e of
        UpdatePnl p t \<Rightarrow>
          (if p < - daily_loss_limit (ks_config k) then CancelAll
           else if p < - daily_loss_warning (ks_config k) then WidenSpreads else Normal)
      | UpdatePositionValue v t \<Rightarrow> (if max_position_value (ks_config k) < v then StopNewOrders else Normal)
      | UpdateMarginRatio d t \<Rightarrow> (case kill_level_of d of None \<Rightarrow> Normal | Some l \<Rightarrow> l)
      | MessageSent t \<Rightarrow>
          (if max_message_rate (ks_config k) < message_count_this_second k + 1 then CancelAll else Normal)
      | ErrorSeen t \<Rightarrow>
          (if max_consecutive_errors (ks_config k) \<le> consecutive_errors k + 1 then StopNewOrders else Normal)
      | _ \<Rightarrow> Normal)"

lemma demanded_reached: "automatic e \<Longrightarrow> max (current_level k) (demanded k e) \<le> current_level (ks_step k e)"
proof -
  have N: "max x Normal = x" for x by (simp add: max_absorb1)
  show "automatic e \<Longrightarrow> max (current_level k) (demanded k e) \<le> current_level (ks_step k e)"
    by (cases e)
      (auto simp: demanded_def ks_ops Let_def escalate_level N split: option.splits margin_guard_decision.splits)
qed

interpretation switch: machine ks_step "\<lambda>_. True" automatic
  by unfold_locales simp

lemma ks_run_config: "ks_config (foldl ks_step k es) = ks_config k"
  by (induction es arbitrary: k) (simp_all add: ks_step_config)

lemma automatic_run_level:
  assumes "list_all automatic es"
  shows "current_level k \<le> current_level (foldl ks_step k es)"
proof (rule switch.run_related [where rel = "\<lambda>a b. current_level a \<le> current_level b"])
  show "current_level s \<le> current_level (ks_step s e)" if "automatic e" for s e
    using demanded_reached [OF that, of s] by simp
qed (use assms in auto)

text \<open>
  The switch latches. Over any run of automatic events the level never falls, and every
  level demanded on the way is still in force at the end: a daily loss beyond the limit, a
  message rate or an error count beyond the maximum, a position beyond its bound and a margin
  decision all hold until an operator acts. The thresholds are those the switch started with.
\<close>

theorem kill_switch_latches:
  assumes "list_all automatic (es1 @ e # es2)"
  shows "max (current_level k) (demanded (foldl ks_step k es1) e) \<le> current_level (foldl ks_step k (es1 @ e # es2))
    \<and> ks_config (foldl ks_step k es1) = ks_config k"
proof -
  let ?k = "foldl ks_step k es1"
  have "current_level k \<le> current_level ?k" by (rule automatic_run_level) (use assms in simp)
  moreover have "max (current_level ?k) (demanded ?k e) \<le> current_level (ks_step ?k e)"
    by (rule demanded_reached) (use assms in simp)
  moreover have "current_level (ks_step ?k e) \<le> current_level (foldl ks_step (ks_step ?k e) es2)"
    by (rule automatic_run_level) (use assms in simp)
  ultimately show ?thesis by (auto simp: ks_run_config intro: order_trans)
qed

theorem kill_switch_latches_witness:
  "CancelAll \<le> current_level (foldl ks_step (ks_new default_kill_switch_config 0)
      ([FillSeen 1] @ UpdatePnl (- 1500) 2 # [UpdatePnl 300 3, TickSecond 4]))"
proof -
  have "demanded (foldl ks_step (ks_new default_kill_switch_config 0) [FillSeen 1]) (UpdatePnl (- 1500) 2) = CancelAll"
    by (simp add: demanded_def ks_on_fill_def ks_new_def default_kill_switch_config_def)
  then show ?thesis
    using kill_switch_latches [of "[FillSeen 1]" "UpdatePnl (- 1500) 2" "[UpdatePnl 300 3, TickSecond 4]"
        "ks_new default_kill_switch_config 0"] by simp
qed

lemma messages_count:
  assumes "message_count_this_second k = of_nat n" and "n + length ts < 2 ^ 32"
  shows "message_count_this_second (foldl ks_step k (map MessageSent ts)) = of_nat (n + length ts)"
  using assms
proof (induction ts arbitrary: k n)
  case Nil
  then show ?case by simp
next
  case (Cons t ts)
  have "message_count_this_second (ks_step k (MessageSent t)) = of_nat (n + 1)"
    using Cons.prems(1) by (simp add: on_message_sent_def Let_def escalate_def)
  from Cons.IH [OF this] Cons.prems(2) show ?case by simp
qed

text \<open>
  A runaway algorithm is stopped. Within one second, once more messages are sent than the
  configured rate allows, the switch is at CancelAll or above and no new order is allowed,
  whatever its state was before.
\<close>

theorem runaway_stopped:
  assumes "unat (max_message_rate (ks_config k)) < length ts" and "length ts < 2 ^ 32"
  shows "CancelAll \<le> current_level (foldl ks_step (tick_second t k) (map MessageSent ts))
    \<and> \<not> allow_new_orders (foldl ks_step (tick_second t k) (map MessageSent ts))"
proof -
  obtain ts' t' where ts: "ts = ts' @ [t']" using assms(1) by (cases ts rule: rev_cases) auto
  let ?k = "foldl ks_step (tick_second t k) (map MessageSent ts')"
  have "message_count_this_second (tick_second t k) = of_nat 0"
    by (auto simp: tick_second_def Let_def escalate_def split: option.split)
  then have cnt: "message_count_this_second ?k = of_nat (length ts')"
    using messages_count [of "tick_second t k" 0 ts'] assms(2) ts by simp
  have cfg: "ks_config ?k = ks_config k"
    using ks_step_config [of k "TickSecond t"] by (simp add: ks_run_config)
  have "unat (of_nat (length ts) :: u32) = length ts"
    using assms(2) by (simp add: unat_of_nat)
  then have "max_message_rate (ks_config k) < of_nat (length ts)"
    using assms(1) by (simp add: word_less_nat_alt)
  then have "demanded ?k (MessageSent t') = CancelAll"
    using ts by (simp add: demanded_def cnt cfg add.commute)
  then have "CancelAll \<le> current_level (ks_step ?k (MessageSent t'))"
    using demanded_reached [of "MessageSent t'" ?k] by simp
  then show ?thesis
    by (auto simp: ts allow_new_orders_def kill_order)
qed

theorem runaway_stopped_witness:
  "CancelAll \<le> current_level (foldl ks_step
     (tick_second 0 (ks_new (default_kill_switch_config\<lparr>max_message_rate := 2\<rparr>) 0)) (map MessageSent [1, 2, 3]))"
  using runaway_stopped [of "ks_new (default_kill_switch_config\<lparr>max_message_rate := 2\<rparr>) 0" "[1, 2, 3]" 0]
  by (simp add: ks_new_def)

text \<open>
  The size multiplier and the admission of new orders agree at every level, and market
  resilience alone never stops quoting: it can only take a switch at Normal to WidenSpreads, and
  only when the score has been low for the sustain window since it was last good.
\<close>

theorem soft_inputs_stay_soft:
  shows "(0 < size_multiplier (current_level k) \<longleftrightarrow> allow_new_orders k)
    \<and> current_level (update_market_resilience score now clock k) \<le> max (current_level k) WidenSpreads
    \<and> (current_level (update_market_resilience score now clock k) \<noteq> current_level k \<longrightarrow>
         score < MR_LOW_THRESHOLD \<and> current_level k = Normal
         \<and> (\<exists>t. low_mr_since k = Some t \<and> MR_SUSTAIN_SECS * 1000 \<le> now - t))"
proof (intro conjI)
  show "0 < size_multiplier (current_level k) \<longleftrightarrow> allow_new_orders k"
    by (cases "current_level k") (simp_all add: size_multiplier_def allow_new_orders_def kill_order)
  show "current_level (update_market_resilience score now clock k) \<le> max (current_level k) WidenSpreads"
    by (auto simp: update_market_resilience_def Let_def escalate_level split: option.split)
  have "MR_SUSTAIN_SECS \<le> num_seconds d \<Longrightarrow> MR_SUSTAIN_SECS * 1000 \<le> d" for d
    by (auto simp: num_seconds_def MR_SUSTAIN_SECS_def split: if_splits)
  moreover have "\<not> MR_SUSTAIN_SECS \<le> num_seconds 0" by (simp add: num_seconds_def MR_SUSTAIN_SECS_def)
  ultimately show "current_level (update_market_resilience score now clock k) \<noteq> current_level k \<longrightarrow>
         score < MR_LOW_THRESHOLD \<and> current_level k = Normal
         \<and> (\<exists>t. low_mr_since k = Some t \<and> MR_SUSTAIN_SECS * 1000 \<le> now - t)"
    by (auto simp: update_market_resilience_def Let_def split: option.splits if_splits)
qed

theorem soft_inputs_stay_soft_witness:
  "let k = (ks_new default_kill_switch_config 0)\<lparr>low_mr_since := Some 0\<rparr>
   in current_level (update_market_resilience (1 / 10) 3000 3000 k) = WidenSpreads
      \<and> current_level (update_market_resilience (1 / 10) 3000 3000 k) \<le> max (current_level k) WidenSpreads"
proof -
  let ?k = "(ks_new default_kill_switch_config 0)\<lparr>low_mr_since := Some 0\<rparr>"
  have "current_level (update_market_resilience (1 / 10) 3000 3000 ?k) = WidenSpreads"
    by (simp add: update_market_resilience_def MR_LOW_THRESHOLD_def MR_SUSTAIN_SECS_def num_seconds_def
        escalate_def ks_new_def kill_order)
  then show ?thesis
    using soft_inputs_stay_soft [of ?k "1 / 10" 3000 3000] by (simp only: Let_def)
qed

end
