(* ===== verification/Margin_Guard.thy ===== *)
theory Margin_Guard
  imports Kill_Switch Std_Maps
begin

section \<open>The margin guard\<close>

text \<open>
  \<^verbatim>\<open>crates/risk/src/margin_guard.rs\<close>: margin snapshots of the venue and the thresholds that turn
  them into a decision for the kill switch. Times are unix milliseconds; \<^verbatim>\<open>i64\<close> division by
  1000 truncates towards zero, as \<open>num_seconds\<close> does.
\<close>

record position_margin =
  pm_symbol :: string
  pm_side :: side
  pm_size :: decimal
  pm_entry_price :: decimal
  pm_mark_price :: decimal
  pm_isolated_margin :: "decimal option"
  pm_liq_price :: "decimal option"
  pm_adl_quantile :: "u8 option"

record account_margin_info =
  ami_total_equity :: decimal
  ami_total_initial_margin :: decimal
  ami_total_maintenance_margin :: decimal
  ami_available_balance :: decimal
  ami_margin_ratio :: decimal
  ami_positions :: "position_margin list"
  ami_reported_at_ms :: int

datatype margin_mode_cfg = Isolated | Cross

record per_symbol_margin =
  ps_mode :: margin_mode_cfg
  ps_leverage :: u32

record margin_config =
  mc_refresh_interval_secs :: u64
  mc_widen_ratio :: decimal
  mc_reduce_ratio :: "decimal option"
  mc_stop_ratio :: decimal
  mc_cancel_ratio :: decimal
  mc_max_stale_secs :: u64
  mc_default_mode :: margin_mode_cfg
  mc_default_leverage :: u32
  mc_default_maintenance_margin_rate :: decimal
  mc_per_symbol :: "(string, per_symbol_margin) hash_map"

record margin_guard_thresholds =
  widen_ratio :: decimal
  reduce_ratio :: decimal
  stop_ratio :: decimal
  cancel_ratio :: decimal
  max_stale_secs :: int
  default_mmr :: decimal

definition from_config :: "(decimal \<Rightarrow> decimal \<Rightarrow> decimal) \<Rightarrow> margin_config \<Rightarrow> margin_guard_thresholds" where
  "from_config ddiv cfg =
     (let midpoint = ddiv (mc_widen_ratio cfg + mc_stop_ratio cfg) 2
      in \<lparr>widen_ratio = mc_widen_ratio cfg,
          reduce_ratio = (case mc_reduce_ratio cfg of None \<Rightarrow> midpoint | Some r \<Rightarrow> r),
          stop_ratio = mc_stop_ratio cfg, cancel_ratio = mc_cancel_ratio cfg,
          max_stale_secs = sint (mc_max_stale_secs cfg),
          default_mmr = mc_default_maintenance_margin_rate cfg\<rparr>)"

record margin_guard =
  mg_thresholds :: margin_guard_thresholds
  mg_symbol :: string
  mg_mode :: margin_mode_cfg
  mg_last :: "account_margin_info option"

definition mg_new :: "margin_guard_thresholds \<Rightarrow> margin_guard" where
  "mg_new t = \<lparr>mg_thresholds = t, mg_symbol = '''', mg_mode = Cross, mg_last = None\<rparr>"

definition with_symbol_mode :: "string \<Rightarrow> margin_mode_cfg \<Rightarrow> margin_guard \<Rightarrow> margin_guard" where
  "with_symbol_mode s mode g = g\<lparr>mg_symbol := s, mg_mode := mode\<rparr>"

definition mg_update :: "account_margin_info \<Rightarrow> margin_guard \<Rightarrow> margin_guard" where
  "mg_update info g = g\<lparr>mg_last := Some info\<rparr>"

definition wants_reduce :: "margin_guard_decision \<Rightarrow> bool" where
  "wants_reduce d \<longleftrightarrow> d = MgReduce"

definition is_stale :: "margin_guard_decision \<Rightarrow> bool" where
  "is_stale d \<longleftrightarrow> d = MgStale"

definition effective_mmr :: "(decimal \<Rightarrow> decimal \<Rightarrow> decimal) \<Rightarrow> margin_guard \<Rightarrow> decimal" where
  "effective_mmr ddiv g =
     (let dflt = default_mmr (mg_thresholds g)
      in case mg_last g of
           None \<Rightarrow> dflt
         | Some info \<Rightarrow>
             let total_notional = sum_list (map (\<lambda>p. \<bar>pm_size p\<bar> * pm_mark_price p) (ami_positions info))
             in if total_notional \<le> 0 then dflt
                else let inferred = ddiv (ami_total_maintenance_margin info) total_notional;
                         flr = ddiv dflt 10;
                         cl = dflt * 10
                     in min (max inferred flr) cl)"

definition observed_ratio :: "(decimal \<Rightarrow> decimal \<Rightarrow> decimal) \<Rightarrow> margin_guard \<Rightarrow> decimal option" where
  "observed_ratio ddiv g =
     Option.bind (mg_last g) (\<lambda>info.
       if mg_mode g = Cross then Some (ami_margin_ratio info)
       else case find (\<lambda>p. pm_symbol p = mg_symbol g) (ami_positions info) of
              None \<Rightarrow> Some (ami_margin_ratio info)
            | Some pos \<Rightarrow>
                (case pm_isolated_margin pos of
                   None \<Rightarrow> Some (ami_margin_ratio info)
                 | Some isolated \<Rightarrow>
                     if isolated \<le> 0 then Some 1
                     else Some (ddiv (\<bar>pm_size pos\<bar> * pm_mark_price pos * effective_mmr ddiv g) isolated)))"

definition max_adl_quantile :: "margin_guard \<Rightarrow> u8 option" where
  "max_adl_quantile g =
     Option.bind (mg_last g) (\<lambda>info.
       case List.map_filter pm_adl_quantile (ami_positions info) of
         [] \<Rightarrow> None
       | q # qs \<Rightarrow> Some (fold max qs q))"

definition adl_elevated :: "margin_guard \<Rightarrow> bool" where
  "adl_elevated g = (case max_adl_quantile g of None \<Rightarrow> False | Some q \<Rightarrow> 3 \<le> q)"

definition bucket :: "decimal \<Rightarrow> margin_guard_thresholds \<Rightarrow> margin_guard_decision" where
  "bucket ratio t =
     (if cancel_ratio t \<le> ratio then MgCancelAll
      else if stop_ratio t \<le> ratio then MgStopNewOrders
      else if reduce_ratio t \<le> ratio then MgReduce
      else if widen_ratio t \<le> ratio then MgWidenSpreads
      else MgNormal)"

definition decide :: "(decimal \<Rightarrow> decimal \<Rightarrow> decimal) \<Rightarrow> margin_guard \<Rightarrow> int \<Rightarrow> margin_guard_decision" where
  "decide ddiv g now_ms =
     (case mg_last g of
        None \<Rightarrow> MgStale
      | Some info \<Rightarrow>
          let age_secs = num_seconds (now_ms - ami_reported_at_ms info)
          in if max_stale_secs (mg_thresholds g) < age_secs then MgStale
             else let ratio = (case observed_ratio ddiv g of None \<Rightarrow> ami_margin_ratio info | Some r \<Rightarrow> r);
                      b = bucket ratio (mg_thresholds g)
                  in if adl_elevated g \<and> b = MgNormal then MgWidenSpreads else b)"

definition projected_ratio ::
  "(decimal \<Rightarrow> decimal \<Rightarrow> decimal) \<Rightarrow> margin_guard \<Rightarrow> decimal \<Rightarrow> u32 \<Rightarrow> decimal option" where
  "projected_ratio ddiv g notional_delta leverage =
     Option.bind (mg_last g) (\<lambda>info.
       let lev = of_nat (unat (max leverage 1));
           im_needed = ddiv notional_delta lev;
           mm_delta = notional_delta * effective_mmr ddiv g;
           wallet =
             (if ami_total_equity info \<le> 0 then Some 1
              else let projected_equity = ami_total_equity info - im_needed
                   in if projected_equity \<le> 0 then Some 1
                      else Some (ddiv (ami_total_maintenance_margin info + mm_delta) projected_equity))
       in if mg_mode g = Isolated
          then case find (\<lambda>p. pm_symbol p = mg_symbol g) (ami_positions info) of
                 None \<Rightarrow> wallet
               | Some pos \<Rightarrow>
                   (case pm_isolated_margin pos of
                      None \<Rightarrow> wallet
                    | Some isolated \<Rightarrow>
                        let position_mm_current = \<bar>pm_size pos\<bar> * pm_mark_price pos * effective_mmr ddiv g;
                            projected_iso = isolated + im_needed
                        in if projected_iso \<le> 0 then Some 1
                           else Some (ddiv (position_mm_current + mm_delta) projected_iso))
          else wallet)"

subsection \<open>Properties\<close>

definition decision_level :: "margin_guard_decision \<Rightarrow> kill_level" where
  "decision_level d = (case kill_level_of d of None \<Rightarrow> Normal | Some l \<Rightarrow> l)"

definition thresholds_ok :: "margin_guard_thresholds \<Rightarrow> bool" where
  "thresholds_ok t \<longleftrightarrow>
     widen_ratio t \<le> reduce_ratio t \<and> reduce_ratio t \<le> stop_ratio t \<and> stop_ratio t \<le> cancel_ratio t"

text \<open>
  The margin guard fails safe. With no snapshot, or one older than the staleness budget, it
  asks for wider spreads; with a fresh one, the level it asks for is the one of the highest
  threshold the observed ratio has reached, raised to wider spreads when a position is near the
  front of the deleverage queue. Thresholds are in their documented order.
\<close>

theorem margin_guard_fail_safe:
  assumes "thresholds_ok (mg_thresholds g)"
  shows "decision_level (decide ddiv g now) =
    (case mg_last g of
       None \<Rightarrow> WidenSpreads
     | Some info \<Rightarrow>
         if max_stale_secs (mg_thresholds g) < num_seconds (now - ami_reported_at_ms info) then WidenSpreads
         else let r = the (observed_ratio ddiv g); t = mg_thresholds g
              in max (if adl_elevated g then WidenSpreads else Normal)
                   (if cancel_ratio t \<le> r then CancelAll
                    else if stop_ratio t \<le> r then StopNewOrders
                    else if widen_ratio t \<le> r then WidenSpreads else Normal))"
proof (cases "mg_last g")
  case None
  then show ?thesis by (simp add: decide_def decision_level_def)
next
  case (Some info)
  then have "observed_ratio ddiv g \<noteq> None"
    by (simp add: observed_ratio_def split: option.split)
  then obtain r where r: "observed_ratio ddiv g = Some r" by blast
  show ?thesis
    using Some r assms
    by (auto simp: decide_def decision_level_def Let_def bucket_def thresholds_ok_def max_def kill_order)
qed

definition example_guard :: margin_guard where
  "example_guard =
     mg_update \<lparr>ami_total_equity = 10000, ami_total_initial_margin = 2000, ami_total_maintenance_margin = 8500,
        ami_available_balance = 8000, ami_margin_ratio = 85 / 100, ami_positions = [], ami_reported_at_ms = 0\<rparr>
       (mg_new \<lparr>widen_ratio = 1 / 2, reduce_ratio = 65 / 100, stop_ratio = 8 / 10, cancel_ratio = 9 / 10,
          max_stale_secs = 30, default_mmr = 5 / 1000\<rparr>)"

theorem margin_guard_fail_safe_witness:
  "decision_level (decide (/) example_guard 1000) = StopNewOrders
   \<and> decision_level (decide (/) example_guard 60000) = WidenSpreads"
  using margin_guard_fail_safe [of example_guard "(/)" 1000] margin_guard_fail_safe [of example_guard "(/)" 60000]
  by (simp add: example_guard_def mg_update_def mg_new_def thresholds_ok_def num_seconds_def observed_ratio_def
      adl_elevated_def max_adl_quantile_def List.map_filter_simps Let_def max_def kill_order)

text \<open>
  The maintenance-margin rate the guard infers from a snapshot stays within a factor of ten of
  the configured default, whatever the venue reports, up to the rounding of the division.
\<close>

theorem effective_mmr_clamped:
  assumes "decimal_division ddiv eps" and "0 \<le> default_mmr (mg_thresholds g)" and "eps \<le> default_mmr (mg_thresholds g)"
  shows "default_mmr (mg_thresholds g) / 10 - eps \<le> effective_mmr ddiv g
    \<and> effective_mmr ddiv g \<le> default_mmr (mg_thresholds g) * 10"
proof -
  let ?d = "default_mmr (mg_thresholds g)"
  have err: "\<bar>ddiv ?d 10 - ?d / 10\<bar> \<le> eps" and pos: "0 \<le> eps"
    using decimal_division.ddiv_error [OF assms(1), of 10] decimal_division.eps_nonneg [OF assms(1)] by simp_all
  then have "?d / 10 - eps \<le> ddiv ?d 10" "ddiv ?d 10 \<le> ?d * 10"
    using assms(2,3) by linarith+
  then show ?thesis
    using assms(2) pos by (auto simp: effective_mmr_def Let_def min_def max_def split: option.split)
qed

theorem effective_mmr_clamped_witness:
  "default_mmr (mg_thresholds example_guard) / 10 \<le> effective_mmr (/) example_guard"
  using effective_mmr_clamped [OF exact_division.decimal_division_axioms, of example_guard]
  by (simp add: example_guard_def mg_update_def mg_new_def)

end
