(* ===== verification/Circuit_Breaker.thy ===== *)
theory Circuit_Breaker
  imports Common_Types
begin

section \<open>The circuit breaker and the exposure limits\<close>

text \<open>
  \<^verbatim>\<open>crates/risk/src/circuit_breaker.rs\<close>, \<^verbatim>\<open>crates/risk/src/exposure.rs\<close> and the sweep of checks in
  \<^verbatim>\<open>refresh_quotes\<close> of \<^verbatim>\<open>crates/engine/src/market_maker.rs\<close> that drives them. The clock is an
  argument; \<^verbatim>\<open>as i64 * 1000\<close> is a 64-bit multiplication. Log lines, audit records and incidents
  are left out.
\<close>

datatype trip_reason = MaxDrawdown | MaxExposure | StaleBook | WideSpread | Manual

record risk_config =
  rc_max_inventory :: decimal
  rc_max_exposure_quote :: decimal
  rc_max_drawdown_quote :: decimal
  rc_inventory_skew_factor :: decimal
  rc_max_spread_bps :: decimal
  rc_max_spread_to_quote_bps :: "decimal option"
  rc_stale_book_timeout_secs :: u64
  rc_max_order_size :: decimal
  rc_max_daily_volume_quote :: decimal
  rc_max_hourly_volume_quote :: decimal

record circuit_breaker =
  cb_tripped :: bool
  cb_reason :: "trip_reason option"
  cb_tripped_at :: "timestamp option"

definition cb_new :: circuit_breaker where
  "cb_new = \<lparr>cb_tripped = False, cb_reason = None, cb_tripped_at = None\<rparr>"

definition trip :: "trip_reason \<Rightarrow> timestamp \<Rightarrow> circuit_breaker \<Rightarrow> circuit_breaker" where
  "trip r now b =
     (if \<not> cb_tripped b then b\<lparr>cb_tripped := True, cb_reason := Some r, cb_tripped_at := Some now\<rparr> else b)"

definition cb_reset :: "circuit_breaker \<Rightarrow> circuit_breaker" where
  "cb_reset b =
     (if cb_tripped b then b\<lparr>cb_tripped := False, cb_reason := None, cb_tripped_at := None\<rparr> else b)"

definition is_stale_book :: "int \<Rightarrow> risk_config \<Rightarrow> timestamp \<Rightarrow> bool" where
  "is_stale_book last_update_ms cfg now_ms \<longleftrightarrow>
     0 < last_update_ms \<and> sint (rc_stale_book_timeout_secs cfg * 1000) < now_ms - last_update_ms"

definition check_stale_book :: "int \<Rightarrow> risk_config \<Rightarrow> timestamp \<Rightarrow> circuit_breaker \<Rightarrow> circuit_breaker" where
  "check_stale_book last_update_ms cfg now_ms b =
     (if is_stale_book last_update_ms cfg now_ms then trip StaleBook now_ms b
      else if cb_reason b = Some StaleBook then cb_reset b
      else b)"

definition check_spread :: "decimal option \<Rightarrow> risk_config \<Rightarrow> timestamp \<Rightarrow> circuit_breaker \<Rightarrow> circuit_breaker" where
  "check_spread spread_bps cfg now b =
     (case spread_bps of
        None \<Rightarrow> b
      | Some bps \<Rightarrow>
          if rc_max_spread_bps cfg < bps then trip WideSpread now b
          else if cb_reason b = Some WideSpread then cb_reset b
          else b)"

definition check_condition :: "trip_reason \<Rightarrow> bool \<Rightarrow> timestamp \<Rightarrow> circuit_breaker \<Rightarrow> circuit_breaker" where
  "check_condition r currently_breached now b =
     (if currently_breached then trip r now b
      else if cb_reason b = Some r then cb_reset b
      else b)"

record exposure_manager =
  peak_equity :: decimal
  initial_equity :: decimal

definition em_new :: "decimal \<Rightarrow> exposure_manager" where
  "em_new e = \<lparr>peak_equity = e, initial_equity = e\<rparr>"

definition update_equity :: "decimal \<Rightarrow> exposure_manager \<Rightarrow> exposure_manager" where
  "update_equity e m = (if peak_equity m < e then m\<lparr>peak_equity := e\<rparr> else m)"

definition drawdown :: "exposure_manager \<Rightarrow> decimal \<Rightarrow> decimal" where
  "drawdown m e = peak_equity m - e"

definition is_drawdown_breached :: "exposure_manager \<Rightarrow> decimal \<Rightarrow> risk_config \<Rightarrow> bool" where
  "is_drawdown_breached m e cfg \<longleftrightarrow> rc_max_drawdown_quote cfg < drawdown m e"

definition is_exposure_breached :: "exposure_manager \<Rightarrow> decimal \<Rightarrow> price \<Rightarrow> risk_config \<Rightarrow> bool" where
  "is_exposure_breached m inventory mark cfg \<longleftrightarrow> rc_max_exposure_quote cfg < \<bar>inventory\<bar> * mark"

text \<open>
  The checks of one quote refresh in their order, up to the test of the breaker: the stale book
  and the spread, the soft spread gate (which leaves the refresh), then drawdown and exposure
  when there is a mid price. The last component says whether the refresh goes on to quote.
\<close>

record market_view =
  mv_last_update_ms :: int
  mv_spread_bps :: "decimal option"
  mv_mid :: "price option"
  mv_equity :: decimal
  mv_inventory :: decimal

definition soft_gated :: "risk_config \<Rightarrow> market_view \<Rightarrow> bool" where
  "soft_gated cfg v =
     (case (rc_max_spread_to_quote_bps cfg, mv_spread_bps v) of
        (Some gate, Some bps) \<Rightarrow> gate < bps
      | _ \<Rightarrow> False)"

definition refresh_checks ::
  "risk_config \<Rightarrow> market_view \<Rightarrow> timestamp \<Rightarrow> circuit_breaker \<Rightarrow> exposure_manager
    \<Rightarrow> circuit_breaker \<times> exposure_manager \<times> bool" where
  "refresh_checks cfg v now b m =
     (let b1 = check_spread (mv_spread_bps v) cfg now (check_stale_book (mv_last_update_ms v) cfg now b)
      in if soft_gated cfg v then (b1, m, False)
         else case mv_mid v of
                None \<Rightarrow> (b1, m, \<not> cb_tripped b1)
              | Some mid \<Rightarrow>
                  let m1 = update_equity (mv_equity v) m;
                      b2 = check_condition MaxDrawdown (is_drawdown_breached m1 (mv_equity v) cfg) now b1;
                      b3 = check_condition MaxExposure (is_exposure_breached m1 (mv_inventory v) mid cfg) now b2
                  in (b3, m1, \<not> cb_tripped b3))"

subsection \<open>Properties\<close>

definition breaker_ok :: "circuit_breaker \<Rightarrow> bool" where
  "breaker_ok b \<longleftrightarrow> (cb_tripped b \<longleftrightarrow> cb_reason b \<noteq> None)"

lemmas breaker_ops = check_stale_book_def check_spread_def check_condition_def trip_def cb_reset_def

lemma breaker_ok_ops [mm_inv]:
  "breaker_ok cb_new"
  "breaker_ok b \<Longrightarrow> breaker_ok (trip r now b)"
  "breaker_ok b \<Longrightarrow> breaker_ok (cb_reset b)"
  "breaker_ok b \<Longrightarrow> breaker_ok (check_stale_book t cfg now b)"
  "breaker_ok b \<Longrightarrow> breaker_ok (check_spread bps cfg now b)"
  "breaker_ok b \<Longrightarrow> breaker_ok (check_condition r c now b)"
  by (auto simp: breaker_ok_def breaker_ops cb_new_def split: option.split)

text \<open>The conditions one refresh looks at.\<close>

definition unsafe_market :: "risk_config \<Rightarrow> market_view \<Rightarrow> timestamp \<Rightarrow> exposure_manager \<Rightarrow> bool" where
  "unsafe_market cfg v now m \<longleftrightarrow>
     is_stale_book (mv_last_update_ms v) cfg now
     \<or> (\<exists>bps. mv_spread_bps v = Some bps \<and> rc_max_spread_bps cfg < bps)
     \<or> soft_gated cfg v
     \<or> (\<exists>mid. mv_mid v = Some mid
          \<and> (rc_max_drawdown_quote cfg < max (peak_equity m) (mv_equity v) - mv_equity v
             \<or> rc_max_exposure_quote cfg < \<bar>mv_inventory v\<bar> * mid))"

text \<open>
  From an untripped breaker, a refresh goes on to quote exactly when the book is fresh, the
  spread within both limits, and drawdown from the running peak and exposure within theirs; the
  breaker stays consistent and the peak never falls.
\<close>

theorem refresh_quotes_only_when_safe:
  assumes "breaker_ok b" and "\<not> cb_tripped b" and "refresh_checks cfg v now b m = (b', m', go)"
  shows "(go \<longleftrightarrow> \<not> unsafe_market cfg v now m) \<and> breaker_ok b' \<and> peak_equity m \<le> peak_equity m'"
proof -
  have r: "cb_reason b = None" using assms(1,2) by (simp add: breaker_ok_def)
  have peak: "peak_equity (update_equity e m) = max (peak_equity m) e" for e
    by (simp add: update_equity_def max_def)
  have ok: "breaker_ok b'"
    using assms(1,3) by (auto simp: refresh_checks_def Let_def split: if_splits option.splits intro: mm_inv)
  have go: "go \<longleftrightarrow> \<not> unsafe_market cfg v now m"
  proof (cases "soft_gated cfg v")
    case True
    then show ?thesis using assms(3) by (auto simp: refresh_checks_def unsafe_market_def)
  next
    case False
    define stale where "stale \<longleftrightarrow> is_stale_book (mv_last_update_ms v) cfg now"
    define wide where "wide \<longleftrightarrow> (\<exists>bps. mv_spread_bps v = Some bps \<and> rc_max_spread_bps cfg < bps)"
    let ?b1 = "check_spread (mv_spread_bps v) cfg now (check_stale_book (mv_last_update_ms v) cfg now b)"
    have b1: "cb_tripped ?b1 \<longleftrightarrow> stale \<or> wide"
      "cb_reason ?b1 = (if stale then Some StaleBook else if wide then Some WideSpread else None)"
      using assms(2) r by (auto simp: breaker_ops stale_def wide_def split: option.split)
    have cond: "cb_tripped (check_condition MaxExposure x now (check_condition MaxDrawdown d now ?b1))
        \<longleftrightarrow> stale \<or> wide \<or> d \<or> x" for d x
      using b1 by (auto simp: check_condition_def trip_def cb_reset_def)
    show ?thesis
      using assms(3) False b1(1) cond
      by (auto simp: refresh_checks_def unsafe_market_def Let_def is_drawdown_breached_def drawdown_def
          is_exposure_breached_def peak stale_def wide_def split: option.splits)
  qed
  moreover have "peak_equity m \<le> peak_equity m'"
    using assms(3) by (auto simp: refresh_checks_def Let_def peak split: if_splits option.splits)
  ultimately show ?thesis using ok by simp
qed

text \<open>
  A tripped breaker keeps its reason through the checks of the other conditions, so a breach can be
  masked by the reason the breaker is tripped for, when a later check of the same refresh clears it.
\<close>

definition masked_by :: "trip_reason set \<Rightarrow> circuit_breaker \<Rightarrow> bool" where
  "masked_by rs b \<longleftrightarrow> (case cb_reason b of None \<Rightarrow> False | Some r \<Rightarrow> r \<in> rs)"

text \<open>
  The guarantee of a refresh that goes on to quote, from any consistent breaker: every condition is
  within its limit, apart from those the breaker masked for this one refresh.
\<close>

definition checked_market :: "risk_config \<Rightarrow> market_view \<Rightarrow> timestamp \<Rightarrow> exposure_manager \<Rightarrow> circuit_breaker \<Rightarrow> bool" where
  "checked_market cfg v now m b \<longleftrightarrow>
     \<not> soft_gated cfg v
     \<and> (is_stale_book (mv_last_update_ms v) cfg now \<longrightarrow> masked_by {WideSpread, MaxDrawdown, MaxExposure} b)
     \<and> (\<forall>bps. mv_spread_bps v = Some bps \<and> rc_max_spread_bps cfg < bps \<longrightarrow> masked_by {MaxDrawdown, MaxExposure} b)
     \<and> (\<forall>mid. mv_mid v = Some mid \<longrightarrow>
          \<bar>mv_inventory v\<bar> * mid \<le> rc_max_exposure_quote cfg
          \<and> (rc_max_drawdown_quote cfg < max (peak_equity m) (mv_equity v) - mv_equity v \<longrightarrow> masked_by {MaxExposure} b))"

lemma checked_market_untripped:
  assumes "breaker_ok b" and "\<not> cb_tripped b"
  shows "checked_market cfg v now m b \<longleftrightarrow> \<not> unsafe_market cfg v now m"
  using assms by (auto simp: checked_market_def unsafe_market_def masked_by_def breaker_ok_def not_less)

lemma early_checks_reason:
  assumes "breaker_ok b" and "stale = is_stale_book t cfg now"
    and "wide \<longleftrightarrow> (\<exists>bps. sp = Some bps \<and> rc_max_spread_bps cfg < bps)"
    and "b1 = check_spread sp cfg now (check_stale_book t cfg now b)"
  shows "breaker_ok b1"
    and "stale \<Longrightarrow> \<not> masked_by {WideSpread, MaxDrawdown, MaxExposure} b \<Longrightarrow> cb_reason b1 \<in> {Some StaleBook, Some Manual}"
    and "wide \<Longrightarrow> \<not> masked_by {MaxDrawdown, MaxExposure} b \<Longrightarrow> cb_reason b1 \<in> {Some StaleBook, Some WideSpread, Some Manual}"
    and "cb_reason b1 = Some MaxExposure \<Longrightarrow> cb_reason b = Some MaxExposure"
proof -
  show "breaker_ok b1" unfolding assms(4) by (intro breaker_ok_ops assms(1))
next
  assume "stale" and "\<not> masked_by {WideSpread, MaxDrawdown, MaxExposure} b"
  then show "cb_reason b1 \<in> {Some StaleBook, Some Manual}" using assms
    by (cases "cb_reason b" rule: option.exhaust; cases "the (cb_reason b)")
       (auto simp: breaker_ops masked_by_def breaker_ok_def split: option.splits)
next
  assume "wide" and "\<not> masked_by {MaxDrawdown, MaxExposure} b"
  then show "cb_reason b1 \<in> {Some StaleBook, Some WideSpread, Some Manual}" using assms
    by (cases "cb_reason b" rule: option.exhaust; cases "the (cb_reason b)")
       (auto simp: breaker_ops masked_by_def breaker_ok_def split: option.splits)
next
  assume "cb_reason b1 = Some MaxExposure"
  then show "cb_reason b = Some MaxExposure" using assms
    by (auto simp: breaker_ops split: option.splits if_splits)
qed

lemma drawdown_then_exposure:
  assumes "breaker_ok b1"
  shows "cb_tripped (check_condition MaxExposure x now (check_condition MaxDrawdown True now b1))
    \<longleftrightarrow> x \<or> cb_reason b1 \<noteq> Some MaxExposure"
  using assms by (auto simp: check_condition_def trip_def cb_reset_def breaker_ok_def)

lemma late_checks_clear:
  assumes "breaker_ok b1" and "\<not> cb_tripped (check_condition MaxExposure x now (check_condition MaxDrawdown d now b1))"
  shows "\<not> x" and "d \<Longrightarrow> cb_reason b1 = Some MaxExposure"
    and "cb_reason b1 = None \<or> cb_reason b1 = Some MaxDrawdown \<or> cb_reason b1 = Some MaxExposure"
  using assms by (auto simp: check_condition_def trip_def cb_reset_def breaker_ok_def split: if_splits)

lemma refresh_checks_proceed:
  assumes "breaker_ok b" and "refresh_checks cfg v now b m = (b', m', True)"
  shows "checked_market cfg v now m b"
proof -
  define stale where "stale = is_stale_book (mv_last_update_ms v) cfg now"
  define wide where "wide \<longleftrightarrow> (\<exists>bps. mv_spread_bps v = Some bps \<and> rc_max_spread_bps cfg < bps)"
  define b1 where "b1 = check_spread (mv_spread_bps v) cfg now (check_stale_book (mv_last_update_ms v) cfg now b)"
  note early = early_checks_reason [OF assms(1) stale_def wide_def b1_def]
  have soft: "\<not> soft_gated cfg v" using assms(2) by (auto simp: refresh_checks_def Let_def split: if_splits)
  show ?thesis
  proof (cases "mv_mid v")
    case None
    with assms(2) soft have "\<not> cb_tripped b1" by (auto simp: refresh_checks_def b1_def Let_def)
    with early(1) have "cb_reason b1 = None" by (simp add: breaker_ok_def)
    with early(2,3) None soft show ?thesis by (auto simp: checked_market_def stale_def wide_def)
  next
    case (Some mid)
    let ?d = "is_drawdown_breached (update_equity (mv_equity v) m) (mv_equity v) cfg"
    let ?x = "is_exposure_breached (update_equity (mv_equity v) m) (mv_inventory v) mid cfg"
    from assms(2) soft Some have nt: "\<not> cb_tripped (check_condition MaxExposure ?x now (check_condition MaxDrawdown ?d now b1))"
      by (auto simp: refresh_checks_def b1_def Let_def)
    note late = late_checks_clear [OF early(1) nt]
    have "?d \<longleftrightarrow> rc_max_drawdown_quote cfg < max (peak_equity m) (mv_equity v) - mv_equity v"
      by (simp add: is_drawdown_breached_def drawdown_def update_equity_def max_def)
    moreover have "\<bar>mv_inventory v\<bar> * mid \<le> rc_max_exposure_quote cfg"
      using late(1) by (simp add: is_exposure_breached_def)
    moreover have "?d \<Longrightarrow> masked_by {MaxExposure} b" using early(4) [OF late(2)] by (simp add: masked_by_def)
    moreover have "masked_by {WideSpread, MaxDrawdown, MaxExposure} b" if stale
      by (rule ccontr) (use early(2) [OF that] late(3) in auto)
    moreover have "masked_by {MaxDrawdown, MaxExposure} b" if wide
      by (rule ccontr) (use early(3) [OF that] late(3) in auto)
    ultimately show ?thesis using Some soft by (auto simp: checked_market_def stale_def wide_def)
  qed
qed

definition example_risk :: risk_config where
  "example_risk =
     \<lparr>rc_max_inventory = 10, rc_max_exposure_quote = 1000, rc_max_drawdown_quote = 100,
      rc_inventory_skew_factor = 1, rc_max_spread_bps = 500, rc_max_spread_to_quote_bps = None,
      rc_stale_book_timeout_secs = 10, rc_max_order_size = 0, rc_max_daily_volume_quote = 0,
      rc_max_hourly_volume_quote = 0\<rparr>"

definition example_view :: "decimal \<Rightarrow> decimal \<Rightarrow> market_view" where
  "example_view equity pos =
     \<lparr>mv_last_update_ms = 5000, mv_spread_bps = Some 10, mv_mid = Some 100, mv_equity = equity, mv_inventory = pos\<rparr>"

lemma example_fresh: "\<not> is_stale_book 5000 example_risk 6000"
  by (simp add: is_stale_book_def example_risk_def)

theorem refresh_quotes_only_when_safe_witness:
  "\<exists>b' m'. refresh_checks example_risk (example_view 950 5) 6000 cb_new (em_new 1000) = (b', m', True)
     \<and> \<not> unsafe_market example_risk (example_view 950 5) 6000 (em_new 1000)"
proof -
  obtain b' m' go where r: "refresh_checks example_risk (example_view 950 5) 6000 cb_new (em_new 1000) = (b', m', go)"
    by (rule prod_cases3)
  have "\<not> unsafe_market example_risk (example_view 950 5) 6000 (em_new 1000)"
    using example_fresh
    by (auto simp: unsafe_market_def example_view_def example_risk_def soft_gated_def em_new_def max_def)
  moreover have "\<not> cb_tripped cb_new" by (simp add: cb_new_def)
  ultimately show ?thesis
    using refresh_quotes_only_when_safe [OF breaker_ok_ops(1) _ r] r by auto
qed

text \<open>
  A breach can be masked for one refresh. When the breaker is tripped for exposure, the
  exposure is back within its limit and the drawdown limit is exceeded in the same refresh, the
  drawdown check leaves the tripped breaker alone and the exposure check then clears it, so the
  refresh goes on to quote although the drawdown limit is breached.
\<close>

theorem exposure_heal_masks_drawdown:
  assumes "cb_tripped b" and "cb_reason b = Some MaxExposure"
    and "\<not> is_stale_book (mv_last_update_ms v) cfg now" and "mv_spread_bps v = Some bps"
    and "bps \<le> rc_max_spread_bps cfg" and "\<not> soft_gated cfg v" and "mv_mid v = Some mid"
    and "rc_max_drawdown_quote cfg < peak_equity m - mv_equity v"
    and "\<bar>mv_inventory v\<bar> * mid \<le> rc_max_exposure_quote cfg"
  shows "\<exists>b' m'. refresh_checks cfg v now b m = (b', m', True)
    \<and> is_drawdown_breached m' (mv_equity v) cfg"
  using assms
  by (auto simp: refresh_checks_def Let_def breaker_ops is_exposure_breached_def is_drawdown_breached_def
      drawdown_def update_equity_def)

theorem exposure_heal_masks_drawdown_witness:
  "\<exists>b' m'. refresh_checks example_risk (example_view 850 0) 6000 (trip MaxExposure 0 cb_new) (em_new 1000) = (b', m', True)
     \<and> is_drawdown_breached m' 850 example_risk"
  using exposure_heal_masks_drawdown [of "trip MaxExposure 0 cb_new" "example_view 850 0" example_risk 6000 10 100 "em_new 1000"]
    example_fresh
  by (simp add: trip_def cb_new_def example_view_def example_risk_def soft_gated_def em_new_def)

text \<open>
  A manual trip holds through every automatic check; only an explicit reset clears it.
\<close>

theorem manual_trip_holds:
  assumes "cb_tripped b" and "cb_reason b = Some Manual" and "refresh_checks cfg v now b m = (b', m', go)"
  shows "b' = b \<and> \<not> go"
  using assms
  by (auto simp: refresh_checks_def Let_def breaker_ops split: if_splits option.splits)

theorem manual_trip_holds_witness:
  "fst (refresh_checks example_risk (example_view 1000 0) 6000 (trip Manual 0 cb_new) (em_new 1000)) = trip Manual 0 cb_new"
proof -
  obtain b' m' go where r: "refresh_checks example_risk (example_view 1000 0) 6000 (trip Manual 0 cb_new) (em_new 1000) = (b', m', go)"
    by (rule prod_cases3)
  from manual_trip_holds [OF _ _ r] r show ?thesis by (simp add: trip_def cb_new_def)
qed

end
