(* ===== verification/Inventory.thy ===== *)
theory Inventory
  imports Circuit_Breaker
begin

section \<open>Inventory and profit\<close>

text \<open>
  \<^verbatim>\<open>crates/risk/src/inventory.rs\<close>: the net position, its average entry price, the realised profit
  and the trade in progress. Every method is a definition; \<open>sgn\<close> is \<^verbatim>\<open>signum\<close>, which is zero at
  zero.
\<close>

record inventory_manager =
  iv_inventory :: decimal
  iv_avg_entry_price :: decimal
  iv_total_bought :: decimal
  iv_total_sold :: decimal
  iv_realized_pnl :: decimal
  iv_trade_opened_at :: "timestamp option"
  iv_trade_peak_abs :: decimal

definition iv_new :: inventory_manager where
  "iv_new =
     \<lparr>iv_inventory = 0, iv_avg_entry_price = 0, iv_total_bought = 0, iv_total_sold = 0,
      iv_realized_pnl = 0, iv_trade_opened_at = None, iv_trade_peak_abs = 0\<rparr>"

definition unrealized_pnl :: "inventory_manager \<Rightarrow> price \<Rightarrow> decimal" where
  "unrealized_pnl m mark =
     (if iv_inventory m = 0 \<or> iv_avg_entry_price m = 0 then 0
      else iv_inventory m * (mark - iv_avg_entry_price m))"

definition total_pnl :: "inventory_manager \<Rightarrow> price \<Rightarrow> decimal" where
  "total_pnl m mark = iv_realized_pnl m + unrealized_pnl m mark"

definition signed_qty :: "fill \<Rightarrow> decimal" where
  "signed_qty f = (case f_side f of Buy \<Rightarrow> f_qty f | Sell \<Rightarrow> - f_qty f)"

text \<open>The profit a fill realises, when it reduces the position.\<close>

definition realize :: "inventory_manager \<Rightarrow> fill \<Rightarrow> decimal" where
  "realize m f =
     (let old = iv_inventory m; sq = signed_qty f
      in if (0 < old \<and> sq < 0) \<or> (old < 0 \<and> 0 < sq)
         then let reducing = min \<bar>sq\<bar> \<bar>old\<bar>
              in if 0 < old then reducing * (f_price f - iv_avg_entry_price m)
                 else reducing * (iv_avg_entry_price m - f_price f)
         else 0)"

definition new_avg :: "(decimal \<Rightarrow> decimal \<Rightarrow> decimal) \<Rightarrow> inventory_manager \<Rightarrow> fill \<Rightarrow> decimal" where
  "new_avg ddiv m f =
     (let old = iv_inventory m; sq = signed_qty f; inv' = old + sq;
          avg = (if inv' = 0 then 0
                 else if sgn inv' = sgn sq
                 then ddiv (\<bar>old\<bar> * iv_avg_entry_price m + \<bar>sq\<bar> * f_price f) \<bar>inv'\<bar>
                 else iv_avg_entry_price m)
      in if sgn old \<noteq> sgn inv' \<and> inv' \<noteq> 0 then f_price f else avg)"

definition track_trade :: "decimal \<Rightarrow> decimal \<Rightarrow> timestamp \<Rightarrow> inventory_manager \<Rightarrow> inventory_manager" where
  "track_trade old inv' now m =
     (if sgn old \<noteq> sgn inv'
      then if inv' = 0 then m\<lparr>iv_trade_opened_at := None, iv_trade_peak_abs := 0\<rparr>
           else if sgn old = 0 then m\<lparr>iv_trade_opened_at := Some now, iv_trade_peak_abs := \<bar>inv'\<bar>\<rparr>
           else m\<lparr>iv_trade_opened_at := Some now, iv_trade_peak_abs := \<bar>inv'\<bar>\<rparr>
      else if iv_trade_peak_abs m < \<bar>inv'\<bar> then m\<lparr>iv_trade_peak_abs := \<bar>inv'\<bar>\<rparr> else m)"

definition iv_on_fill :: "(decimal \<Rightarrow> decimal \<Rightarrow> decimal) \<Rightarrow> inventory_manager \<Rightarrow> fill \<Rightarrow> inventory_manager" where
  "iv_on_fill ddiv m f =
     (let old = iv_inventory m;
          inv' = old + signed_qty f;
          m1 = m\<lparr>iv_realized_pnl := iv_realized_pnl m + realize m f,
                 iv_inventory := inv',
                 iv_avg_entry_price := new_avg ddiv m f\<rparr>;
          m2 = (case f_side f of
                  Buy \<Rightarrow> m1\<lparr>iv_total_bought := iv_total_bought m1 + f_qty f\<rparr>
                | Sell \<Rightarrow> m1\<lparr>iv_total_sold := iv_total_sold m1 + f_qty f\<rparr>)
      in track_trade old inv' (f_timestamp f) m2)"

text \<open>Negative durations are clamped to zero, so the rounding of \<^verbatim>\<open>num_seconds\<close> only matters above.\<close>

definition trade_holding_seconds :: "inventory_manager \<Rightarrow> timestamp \<Rightarrow> int option" where
  "trade_holding_seconds m now = map_option (\<lambda>opened. max ((now - opened) div 1000) 0) (iv_trade_opened_at m)"

definition trade_drawdown :: "inventory_manager \<Rightarrow> decimal" where
  "trade_drawdown m =
     (if iv_trade_opened_at m = None then 0 else max (iv_trade_peak_abs m - \<bar>iv_inventory m\<bar>) 0)"

definition inventory_scale ::
  "(decimal \<Rightarrow> decimal \<Rightarrow> decimal) \<Rightarrow> inventory_manager \<Rightarrow> side \<Rightarrow> risk_config \<Rightarrow> decimal" where
  "inventory_scale ddiv m s cfg =
     (let mx = rc_max_inventory cfg
      in if mx = 0 then 1
         else case s of
                Buy \<Rightarrow>
                  if mx \<le> iv_inventory m then 0
                  else if 0 < iv_inventory m then 1 - ddiv (iv_inventory m) mx
                  else 1
              | Sell \<Rightarrow>
                  if iv_inventory m \<le> - mx then 0
                  else if iv_inventory m < 0 then 1 - ddiv \<bar>iv_inventory m\<bar> mx
                  else 1)"

definition force_reset_inventory_to :: "decimal \<Rightarrow> inventory_manager \<Rightarrow> inventory_manager" where
  "force_reset_inventory_to v m = m\<lparr>iv_inventory := v\<rparr>"

definition apply_limits ::
  "(decimal \<Rightarrow> decimal \<Rightarrow> decimal) \<Rightarrow> inventory_manager \<Rightarrow> risk_config \<Rightarrow> quote_pair list \<Rightarrow> quote_pair list" where
  "apply_limits ddiv m cfg quotes =
     (let buy_scale = inventory_scale ddiv m Buy cfg;
          sell_scale = inventory_scale ddiv m Sell cfg
      in map (\<lambda>q. let q1 = (if buy_scale = 0 then q\<lparr>qp_bid := None\<rparr> else q)
                  in if sell_scale = 0 then q1\<lparr>qp_ask := None\<rparr> else q1) quotes)"

subsection \<open>Position and trade\<close>

definition inventory_ok :: "inventory_manager \<Rightarrow> bool" where
  "inventory_ok m \<longleftrightarrow>
     iv_inventory m = iv_total_bought m - iv_total_sold m
     \<and> (iv_trade_opened_at m = None \<longleftrightarrow> iv_inventory m = 0)
     \<and> \<bar>iv_inventory m\<bar> \<le> iv_trade_peak_abs m
     \<and> (iv_inventory m = 0 \<longrightarrow> iv_avg_entry_price m = 0 \<and> iv_trade_peak_abs m = 0)"

lemma track_trade_fields [simp]:
  "iv_inventory (track_trade old inv' now m) = iv_inventory m"
  "iv_avg_entry_price (track_trade old inv' now m) = iv_avg_entry_price m"
  "iv_total_bought (track_trade old inv' now m) = iv_total_bought m"
  "iv_total_sold (track_trade old inv' now m) = iv_total_sold m"
  "iv_realized_pnl (track_trade old inv' now m) = iv_realized_pnl m"
  by (simp_all add: track_trade_def)

lemma on_fill_fields:
  "iv_inventory (iv_on_fill ddiv m f) = iv_inventory m + signed_qty f"
  "iv_avg_entry_price (iv_on_fill ddiv m f) = new_avg ddiv m f"
  "iv_realized_pnl (iv_on_fill ddiv m f) = iv_realized_pnl m + realize m f"
  "iv_total_bought (iv_on_fill ddiv m f) - iv_total_sold (iv_on_fill ddiv m f)
     = iv_total_bought m - iv_total_sold m + signed_qty f"
  by (cases "f_side f"; simp add: iv_on_fill_def Let_def signed_qty_def)+

lemma on_fill_ok [mm_inv]:
  assumes "inventory_ok m"
  shows "inventory_ok (iv_on_fill ddiv m f)"
proof -
  let ?m' = "iv_on_fill ddiv m f"
  have "iv_inventory m + signed_qty f = 0 \<Longrightarrow> new_avg ddiv m f = 0"
    by (simp add: new_avg_def Let_def)
  moreover have "(iv_trade_opened_at ?m' = None \<longleftrightarrow> iv_inventory m + signed_qty f = 0)
      \<and> \<bar>iv_inventory m + signed_qty f\<bar> \<le> iv_trade_peak_abs ?m'
      \<and> (iv_inventory m + signed_qty f = 0 \<longrightarrow> iv_trade_peak_abs ?m' = 0)"
    using assms
    by (cases "f_side f")
      (auto simp: iv_on_fill_def Let_def track_trade_def inventory_ok_def sgn_0_0 sgn_if split: if_splits)
  ultimately show ?thesis
    using assms unfolding inventory_ok_def by (simp add: on_fill_fields)
qed

interpretation position: machine "iv_on_fill ddiv" inventory_ok "\<lambda>_. True" for ddiv
  by unfold_locales (rule on_fill_ok)

subsection \<open>Profit\<close>

text \<open>The cash that changed hands, and the position after each fill.\<close>

definition cash :: "fill list \<Rightarrow> decimal" where
  "cash fs = sum_list (map (\<lambda>f. - signed_qty f * f_price f) fs)"

primrec abs_positions :: "decimal \<Rightarrow> fill list \<Rightarrow> decimal" where
  "abs_positions p [] = 0"
| "abs_positions p (f # fs) = \<bar>p + signed_qty f\<bar> + abs_positions (p + signed_qty f) fs"

text \<open>Realised profit less the cost of the open position: what the cash flow should be.\<close>

definition book_value :: "inventory_manager \<Rightarrow> decimal" where
  "book_value m = iv_realized_pnl m - iv_inventory m * iv_avg_entry_price m"

lemma adding_error:
  assumes "decimal_division ddiv eps" and "sgn x' = sgn q" and "x' = x + q" and "sgn x = sgn x'" and "x' \<noteq> 0"
  shows "\<bar>x' * ddiv (\<bar>x\<bar> * a + \<bar>q\<bar> * p) \<bar>x'\<bar> - (x * a + q * p)\<bar> \<le> eps * \<bar>x'\<bar>"
proof -
  have err: "\<bar>ddiv (\<bar>x\<bar> * a + \<bar>q\<bar> * p) \<bar>x'\<bar> * \<bar>x'\<bar> - (\<bar>x\<bar> * a + \<bar>q\<bar> * p)\<bar> \<le> eps * \<bar>x'\<bar>"
    using decimal_division.ddiv_mult_error [OF assms(1), of "\<bar>x'\<bar>" "\<bar>x\<bar> * a + \<bar>q\<bar> * p"] assms(5) by simp
  define D where "D = ddiv (\<bar>x\<bar> * a + \<bar>q\<bar> * p) \<bar>x'\<bar>"
  have parts: "sgn x' * \<bar>x'\<bar> = x'" "sgn x' * \<bar>x\<bar> = x" "sgn x' * \<bar>q\<bar> = q"
    using assms(2,4) by (metis sgn_mult_abs)+
  have "(sgn x' * \<bar>x'\<bar>) * D - ((sgn x' * \<bar>x\<bar>) * a + (sgn x' * \<bar>q\<bar>) * p)
      = sgn x' * (D * \<bar>x'\<bar> - (\<bar>x\<bar> * a + \<bar>q\<bar> * p))"
    by (simp add: algebra_simps)
  then have "x' * D - (x * a + q * p) = sgn x' * (D * \<bar>x'\<bar> - (\<bar>x\<bar> * a + \<bar>q\<bar> * p))"
    unfolding parts .
  then show ?thesis
    using err assms(5) by (simp add: abs_mult abs_sgn_eq D_def)
qed

lemma on_fill_book_value:
  assumes "decimal_division ddiv eps"
  shows "\<bar>book_value (iv_on_fill ddiv m f) - (book_value m - signed_qty f * f_price f)\<bar>
    \<le> eps * \<bar>iv_inventory m + signed_qty f\<bar>"
proof -
  define x q a p where "x = iv_inventory m" "q = signed_qty f" "a = iv_avg_entry_price m" "p = f_price f"
  note defs = this
  have pos: "0 \<le> eps * \<bar>x + q\<bar>"
    using decimal_division.eps_nonneg [OF assms] by simp
  have diff: "book_value (iv_on_fill ddiv m f) - (book_value m - q * p)
      = realize m f - (x + q) * new_avg ddiv m f + x * a + q * p"
    by (simp add: book_value_def on_fill_fields defs algebra_simps)
  consider "x + q = 0" | "x + q \<noteq> 0" "sgn x \<noteq> sgn (x + q)"
    | "x + q \<noteq> 0" "sgn x = sgn (x + q)" "sgn (x + q) = sgn q"
    | "x + q \<noteq> 0" "sgn x = sgn (x + q)" "sgn (x + q) \<noteq> sgn q" by blast
  then have "\<bar>realize m f - (x + q) * new_avg ddiv m f + x * a + q * p\<bar> \<le> eps * \<bar>x + q\<bar>"
  proof cases
    case 1
    then have "q = - x" by simp
    then have "realize m f = x * (p - a)"
      by (auto simp: realize_def Let_def defs [symmetric] algebra_simps min_def)
    then show ?thesis using 1 pos \<open>q = - x\<close> by (simp add: algebra_simps)
  next
    case 2
    then have "new_avg ddiv m f = p" by (simp add: new_avg_def Let_def defs [symmetric])
    moreover have "realize m f = x * (p - a)"
      using 2 by (auto simp: realize_def Let_def defs [symmetric] sgn_if min_def algebra_simps split: if_splits)
    ultimately show ?thesis using pos by (simp add: algebra_simps)
  next
    case 3
    then have "new_avg ddiv m f = ddiv (\<bar>x\<bar> * a + \<bar>q\<bar> * p) \<bar>x + q\<bar>"
      by (simp add: new_avg_def Let_def defs [symmetric])
    moreover have "realize m f = 0"
      using 3 by (auto simp: realize_def Let_def defs [symmetric] sgn_if split: if_splits)
    ultimately show ?thesis
      using adding_error [OF assms 3(3) refl 3(2,1), of a p] by (simp add: abs_minus_commute algebra_simps)
  next
    case 4
    then have "new_avg ddiv m f = a" by (simp add: new_avg_def Let_def defs [symmetric])
    moreover have "realize m f = - q * (p - a)"
      using 4 by (auto simp: realize_def Let_def defs [symmetric] sgn_if min_def algebra_simps split: if_splits)
    ultimately show ?thesis using pos by (simp add: algebra_simps)
  qed
  then show ?thesis using diff by (simp add: defs)
qed

lemma run_book_value:
  assumes "decimal_division ddiv eps"
  shows "\<bar>book_value (foldl (iv_on_fill ddiv) m fs) - (book_value m + cash fs)\<bar>
    \<le> eps * abs_positions (iv_inventory m) fs"
proof (induction fs arbitrary: m)
  case Nil
  then show ?case by (simp add: cash_def)
next
  case (Cons f fs)
  have "\<bar>book_value (foldl (iv_on_fill ddiv) (iv_on_fill ddiv m f) fs) - (book_value (iv_on_fill ddiv m f) + cash fs)\<bar>
      \<le> eps * abs_positions (iv_inventory m + signed_qty f) fs"
    using Cons.IH [of "iv_on_fill ddiv m f"] by (simp add: on_fill_fields)
  then show ?case
    using on_fill_book_value [OF assms, of m f] by (simp add: cash_def algebra_simps)
qed

subsection \<open>Properties\<close>

text \<open>
  After any sequence of fills from a flat start, the position is what was bought less what was
  sold, a trade is open exactly while the position is not flat, its peak is at least the current
  position, so the reported trade drawdown is the distance to the peak, and a flat position has
  no entry price.
\<close>

theorem position_tracked:
  shows "let m = foldl (iv_on_fill ddiv) iv_new fs
    in iv_inventory m = sum_list (map signed_qty fs)
      \<and> iv_inventory m = iv_total_bought m - iv_total_sold m
      \<and> (iv_trade_opened_at m = None \<longleftrightarrow> iv_inventory m = 0)
      \<and> trade_drawdown m = iv_trade_peak_abs m - \<bar>iv_inventory m\<bar>
      \<and> (iv_inventory m = 0 \<longrightarrow> iv_avg_entry_price m = 0)"
proof -
  have "inventory_ok (foldl (iv_on_fill ddiv) iv_new fs)"
    by (rule position.inv_run) (simp_all add: inventory_ok_def iv_new_def list_all_iff)
  moreover have "iv_inventory (foldl (iv_on_fill ddiv) m fs) = iv_inventory m + sum_list (map signed_qty fs)" for m
    by (induction fs arbitrary: m) (simp_all add: on_fill_fields add.assoc)
  ultimately show ?thesis
    by (auto simp: Let_def inventory_ok_def trade_drawdown_def iv_new_def)
qed

definition example_fill :: "side \<Rightarrow> price \<Rightarrow> qty \<Rightarrow> fill" where
  "example_fill s p q =
     \<lparr>f_trade_id = 0, f_order_id = 0, f_symbol = ''BTCUSDT'', f_side = s, f_price = p, f_qty = q,
      f_is_maker = True, f_timestamp = 0\<rparr>"

theorem position_tracked_witness:
  "let m = foldl (iv_on_fill (/)) iv_new [example_fill Buy 100 3, example_fill Sell 110 3]
   in iv_inventory m = 0 \<and> iv_avg_entry_price m = 0"
  using position_tracked [of "(/)" "[example_fill Buy 100 3, example_fill Sell 110 3]"]
  by (simp only: Let_def) (simp add: signed_qty_def example_fill_def)

text \<open>
  The profit is the money. After any sequence of fills from a flat start, realised plus
  unrealised profit at any mark price equals the cash received plus the position valued at the
  mark, up to the rounding error of the average entry price (the division error times the sum of
  the positions held), whenever the position is flat or has a non-zero entry price.
\<close>

theorem pnl_is_cash_plus_position:
  assumes "decimal_division ddiv eps"
    and "let m = foldl (iv_on_fill ddiv) iv_new fs in iv_inventory m = 0 \<or> iv_avg_entry_price m \<noteq> 0"
  shows "let m = foldl (iv_on_fill ddiv) iv_new fs
    in \<bar>total_pnl m mark - (cash fs + iv_inventory m * mark)\<bar> \<le> eps * abs_positions 0 fs"
proof -
  define m where "m = foldl (iv_on_fill ddiv) iv_new fs"
  have "\<bar>book_value m - cash fs\<bar> \<le> eps * abs_positions 0 fs"
    using run_book_value [OF assms(1), of iv_new fs] by (simp add: m_def iv_new_def book_value_def)
  moreover have "total_pnl m mark = book_value m + iv_inventory m * mark"
    using assms(2) by (auto simp: m_def Let_def total_pnl_def unrealized_pnl_def book_value_def algebra_simps)
  ultimately show ?thesis by (simp add: m_def Let_def)
qed

theorem pnl_is_cash_plus_position_witness:
  "let m = foldl (iv_on_fill (/)) iv_new [example_fill Buy 100 3, example_fill Sell 110 5]
   in total_pnl m 120 = cash [example_fill Buy 100 3, example_fill Sell 110 5] + iv_inventory m * 120"
proof -
  let ?fs = "[example_fill Buy 100 3, example_fill Sell 110 5]"
  have "let m = foldl (iv_on_fill (/)) iv_new ?fs in iv_inventory m = 0 \<or> iv_avg_entry_price m \<noteq> 0"
    by (simp add: Let_def on_fill_fields new_avg_def signed_qty_def example_fill_def iv_new_def)
  from pnl_is_cash_plus_position [OF exact_division.decimal_division_axioms this, of 120]
  show ?thesis by (simp add: Let_def)
qed

text \<open>
  The inventory scale is a factor between zero and one. At the long limit the limits remove
  every bid and touch nothing else, at the short limit every ask and nothing else, and a flat
  position changes no quote.
\<close>

theorem inventory_scale_limits:
  assumes "decimal_division ddiv eps" and "0 < rc_max_inventory cfg"
  shows "0 \<le> inventory_scale ddiv m s cfg \<and> inventory_scale ddiv m s cfg \<le> 1
    \<and> (rc_max_inventory cfg \<le> iv_inventory m \<longrightarrow>
         apply_limits ddiv m cfg quotes = map (\<lambda>q. q\<lparr>qp_bid := None\<rparr>) quotes)
    \<and> (iv_inventory m \<le> - rc_max_inventory cfg \<longrightarrow>
         apply_limits ddiv m cfg quotes = map (\<lambda>q. q\<lparr>qp_ask := None\<rparr>) quotes)
    \<and> (iv_inventory m = 0 \<longrightarrow> apply_limits ddiv m cfg quotes = quotes)"
proof -
  have "0 \<le> ddiv x (rc_max_inventory cfg) \<and> ddiv x (rc_max_inventory cfg) \<le> 1"
    if "0 \<le> x" "x \<le> rc_max_inventory cfg" for x
    using decimal_division.ddiv_between [OF assms(1,2), of 0 x 1] that by simp
  then have "0 \<le> inventory_scale ddiv m s cfg \<and> inventory_scale ddiv m s cfg \<le> 1"
    by (auto simp: inventory_scale_def Let_def split: side.split)
  then show ?thesis
    using assms(2) by (auto simp: apply_limits_def inventory_scale_def Let_def)
qed

theorem inventory_scale_limits_witness:
  "apply_limits (/) (iv_new\<lparr>iv_inventory := 12\<rparr>) example_risk [\<lparr>qp_bid = None, qp_ask = None\<rparr>]
     = map (\<lambda>q. q\<lparr>qp_bid := None\<rparr>) [\<lparr>qp_bid = None, qp_ask = None\<rparr>]"
  using inventory_scale_limits [OF exact_division.decimal_division_axioms, of example_risk "iv_new\<lparr>iv_inventory := 12\<rparr>"]
  by (simp add: example_risk_def)

end
