(* ===== verification/Std_Text.thy ===== *)
theory Std_Text
  imports Mm_Prelude
begin

section \<open>The standard library's text operations\<close>

text \<open>
  A Rust string is its UTF-8 bytes and a byte is a \<^typ>\<open>char\<close>, so the length of a string is its
  length in bytes and ASCII separators can be searched byte by byte. The parts of the standard
  library the components use are written out: UTF-8 validation, decimal printing and parsing,
  \<^verbatim>\<open>split\<close>, \<^verbatim>\<open>split_once\<close>, \<^verbatim>\<open>rposition\<close>, and the grammars of the numeric \<^verbatim>\<open>parse\<close> functions.
\<close>

subsection \<open>Operations\<close>

definition digit :: "nat \<Rightarrow> char" where
  "digit d = char_of (48 + d)"

fun show_nat :: "nat \<Rightarrow> string" where
  "show_nat n = (if n < 10 then [digit n] else show_nat (n div 10) @ [digit (n mod 10)])"

declare show_nat.simps [simp del]

definition is_digit :: "char \<Rightarrow> bool" where
  "is_digit c \<longleftrightarrow> 48 \<le> (of_char c :: nat) \<and> (of_char c :: nat) \<le> 57"

definition digits_value :: "string \<Rightarrow> nat" where
  "digits_value s = foldl (\<lambda>n c. n * 10 + (of_char c - 48)) 0 s"

text \<open>\<^verbatim>\<open>str::parse\<close> of an unsigned type below \<open>bound\<close>: an optional plus sign, then digits.\<close>

definition parse_unsigned :: "nat \<Rightarrow> string \<Rightarrow> nat option" where
  "parse_unsigned bound s =
     (let ds = (case s of c # rest \<Rightarrow> if c = CHR ''+'' then rest else s | [] \<Rightarrow> s)
      in if ds = [] \<or> \<not> list_all is_digit ds then None
         else if digits_value ds < bound then Some (digits_value ds) else None)"

definition parse_u32 :: "string \<Rightarrow> u32 option" where
  "parse_u32 s = map_option of_nat (parse_unsigned (2 ^ 32) s)"

definition parse_u64 :: "string \<Rightarrow> u64 option" where
  "parse_u64 s = map_option of_nat (parse_unsigned (2 ^ 64) s)"

fun split_on :: "char \<Rightarrow> string \<Rightarrow> string list" where
  "split_on c [] = [[]]"
| "split_on c (x # xs) =
     (if x = c then [] # split_on c xs
      else case split_on c xs of p # ps \<Rightarrow> (x # p) # ps | [] \<Rightarrow> [[x]])"

fun split_once :: "char \<Rightarrow> string \<Rightarrow> (string \<times> string) option" where
  "split_once c [] = None"
| "split_once c (x # xs) =
     (if x = c then Some ([], xs) else map_option (\<lambda>(a, b). (x # a, b)) (split_once c xs))"

text \<open>The index of the last window equal to \<open>w\<close>.\<close>

fun rposition :: "string \<Rightarrow> string \<Rightarrow> nat option" where
  "rposition w [] = (if w = [] then Some 0 else None)"
| "rposition w (x # xs) =
     (case rposition w xs of
        Some i \<Rightarrow> Some (i + 1)
      | None \<Rightarrow> if take (length w) (x # xs) = w then Some 0 else None)"

abbreviation cont :: "char \<Rightarrow> bool" where
  "cont c \<equiv> 128 \<le> (of_char c :: nat) \<and> (of_char c :: nat) \<le> 191"

abbreviation btw :: "nat \<Rightarrow> char \<Rightarrow> nat \<Rightarrow> bool" where
  "btw a c b \<equiv> a \<le> of_char c \<and> of_char c \<le> b"

definition utf8_2 :: "char \<Rightarrow> char \<Rightarrow> bool" where
  "utf8_2 a b \<longleftrightarrow> btw 194 a 223 \<and> cont b"

definition utf8_3 :: "char \<Rightarrow> char \<Rightarrow> char \<Rightarrow> bool" where
  "utf8_3 a b c \<longleftrightarrow> cont c \<and>
     (btw 224 a 224 \<and> btw 160 b 191 \<or> btw 225 a 236 \<and> cont b
      \<or> btw 237 a 237 \<and> btw 128 b 159 \<or> btw 238 a 239 \<and> cont b)"

definition utf8_4 :: "char \<Rightarrow> char \<Rightarrow> char \<Rightarrow> char \<Rightarrow> bool" where
  "utf8_4 a b c d \<longleftrightarrow> cont c \<and> cont d \<and>
     (btw 240 a 240 \<and> btw 144 b 191 \<or> btw 241 a 243 \<and> cont b \<or> btw 244 a 244 \<and> btw 128 b 143)"

fun utf8_valid :: "string \<Rightarrow> bool" where
  "utf8_valid [] \<longleftrightarrow> True"
| "utf8_valid (a # s) \<longleftrightarrow>
     (if (of_char a :: nat) < 128 then utf8_valid s
      else case s of
             b # s1 \<Rightarrow>
               if utf8_2 a b then utf8_valid s1
               else (case s1 of
                       c # s2 \<Rightarrow>
                         if utf8_3 a b c then utf8_valid s2
                         else (case s2 of
                                 d # s3 \<Rightarrow> if utf8_4 a b c d then utf8_valid s3 else False
                               | [] \<Rightarrow> False)
                     | [] \<Rightarrow> False)
           | [] \<Rightarrow> False)"

text \<open>
  The grammars \<^verbatim>\<open>parse::<i64>\<close> and \<^verbatim>\<open>parse::<f64>\<close> accept: a sign and digits within the range of the type;
  a sign, then digits with an optional point (at least one digit in all) and an optional exponent,
  or an infinity or a NaN in any case.
\<close>

definition parse_i64 :: "string \<Rightarrow> int option" where
  "parse_i64 s =
     (let neg = (case s of c # _ \<Rightarrow> c = CHR ''-'' | [] \<Rightarrow> False);
          ds = (case s of c # rest \<Rightarrow> if c = CHR ''-'' \<or> c = CHR ''+'' then rest else s | [] \<Rightarrow> s);
          v = (if neg then - int (digits_value ds) else int (digits_value ds))
      in if ds = [] \<or> \<not> list_all is_digit ds then None
         else if - (2 ^ 63) \<le> v \<and> v < 2 ^ 63 then Some v else None)"

definition parse_i64_ok :: "string \<Rightarrow> bool" where
  "parse_i64_ok s \<longleftrightarrow> parse_i64 s \<noteq> None"

definition strip_sign :: "string \<Rightarrow> string" where
  "strip_sign s = (case s of c # rest \<Rightarrow> if c = CHR ''-'' \<or> c = CHR ''+'' then rest else s | [] \<Rightarrow> [])"

definition exponent_ok :: "string \<Rightarrow> bool" where
  "exponent_ok s =
     (case s of
        [] \<Rightarrow> True
      | c # rest \<Rightarrow> (c = CHR ''e'' \<or> c = CHR ''E'') \<and> strip_sign rest \<noteq> [] \<and> list_all is_digit (strip_sign rest))"

definition lower :: "string \<Rightarrow> string" where
  "lower s = map (\<lambda>c. if 65 \<le> (of_char c :: nat) \<and> (of_char c :: nat) \<le> 90 then char_of (of_char c + 32 :: nat) else c) s"

definition parse_f64_ok :: "string \<Rightarrow> bool" where
  "parse_f64_ok s =
     (let t = strip_sign s;
          whole = takeWhile is_digit t;
          rest = dropWhile is_digit t;
          (frac, rest') = (case rest of
              c # r \<Rightarrow> if c = CHR ''.'' then (takeWhile is_digit r, dropWhile is_digit r) else ([], rest)
            | [] \<Rightarrow> ([], []))
      in whole @ frac \<noteq> [] \<and> exponent_ok rest' \<or> lower t \<in> {''inf'', ''infinity'', ''nan''})"

subsection \<open>Numbers\<close>

lemma digit_value: "d < 10 \<Longrightarrow> of_char (digit d) = 48 + d"
  by (simp add: digit_def)

lemma digit_is: "d < 10 \<Longrightarrow> is_digit (digit d)"
  by (simp add: is_digit_def digit_value)

lemma digits_value_snoc: "digits_value (s @ [c]) = digits_value s * 10 + (of_char c - 48)"
  by (simp add: digits_value_def)

lemma show_nat_digits: "list_all is_digit (show_nat n) \<and> show_nat n \<noteq> [] \<and> digits_value (show_nat n) = n"
proof (induction n rule: show_nat.induct)
  case (1 n)
  show ?case
  proof (cases "n < 10")
    case True
    then show ?thesis
      by (subst (1 2 3) show_nat.simps) (simp add: digit_is digits_value_def digit_value)
  next
    case False
    have "n mod 10 < 10" by simp
    then show ?thesis
      using 1 False
      by (subst (1 2 3) show_nat.simps) (simp add: digit_is digits_value_snoc digit_value)
  qed
qed

lemma is_digit_not: "is_digit c \<Longrightarrow> c \<noteq> CHR ''+'' \<and> c \<noteq> CHR ''='' \<and> c \<noteq> CHR 0x01 \<and> (of_char c :: nat) < 128"
  by (auto simp: is_digit_def)

lemma parse_digits:
  assumes "list_all is_digit ds" and "ds \<noteq> []" and "digits_value ds < bound"
  shows "parse_unsigned bound ds = Some (digits_value ds)"
proof -
  have "\<exists>c rest. ds = c # rest \<and> c \<noteq> CHR ''+''"
    using assms(1,2) is_digit_not by (cases ds) auto
  then show ?thesis using assms by (auto simp: parse_unsigned_def)
qed

lemma parse_show: "n < bound \<Longrightarrow> parse_unsigned bound (show_nat n) = Some n"
  using parse_digits [of "show_nat n" bound] show_nat_digits [of n] by simp

lemma parse_show_u32: "parse_u32 (show_nat (unat t)) = Some t"
proof -
  have "unat t < 2 ^ LENGTH(32)" by (rule unsigned_less)
  then have "parse_unsigned (2 ^ 32) (show_nat (unat t)) = Some (unat t)" by (intro parse_show) simp
  then show ?thesis by (simp add: parse_u32_def)
qed

lemma digits_value_zeros: "digits_value (replicate k (CHR ''0'') @ s) = digits_value s"
proof -
  have "foldl (\<lambda>n c. n * 10 + (of_char c - 48)) 0 (replicate k (CHR ''0'')) = (0 :: nat)"
    by (induction k) simp_all
  then show ?thesis by (simp add: digits_value_def)
qed

lemma digits_clean:
  assumes "list_all is_digit s"
  shows "CHR 0x01 \<notin> set s" and "CHR ''='' \<notin> set s" and "list_all (\<lambda>c. (of_char c :: nat) < 128) s"
  using assms is_digit_not by (fastforce simp: list_all_iff)+

lemma parse_show_u64: "parse_u64 (show_nat (unat n)) = Some n"
proof -
  have "unat n < 2 ^ 64" using unsigned_less [of n] by simp
  then show ?thesis by (simp add: parse_u64_def parse_show)
qed

subsection \<open>Splitting and validation\<close>

lemma utf8_append: "utf8_valid a \<Longrightarrow> utf8_valid b \<Longrightarrow> utf8_valid (a @ b)"
proof (induction a rule: utf8_valid.induct)
  case 1
  then show ?case by simp
next
  case (2 a s)
  show ?case
  proof (cases "(of_char a :: nat) < 128")
    case True
    then show ?thesis using 2 by simp
  next
    case high: False
    then obtain b s1 where s: "s = b # s1" using 2(5) by (cases s) auto
    show ?thesis
    proof (cases "utf8_2 a b")
      case True
      then show ?thesis using 2 high s by simp
    next
      case n2: False
      then obtain c s2 where s1: "s1 = c # s2" using 2(5) high s by (cases s1) auto
      show ?thesis
      proof (cases "utf8_3 a b c")
        case True
        then show ?thesis using 2 high s s1 n2 by simp
      next
        case False
        then obtain d s3 where "s2 = d # s3" using 2(5) high s s1 n2 by (cases s2) auto
        then show ?thesis using 2 high s s1 n2 False by (simp split: if_splits)
      qed
    qed
  qed
qed

lemma utf8_ascii: "list_all (\<lambda>c. (of_char c :: nat) < 128) s \<Longrightarrow> utf8_valid s"
  by (induction s) simp_all

lemma split_once_prefix: "c \<notin> set a \<Longrightarrow> split_once c (a @ c # b) = Some (a, b)"
  by (induction a) auto

lemma split_on_piece: "c \<notin> set p \<Longrightarrow> split_on c (p @ c # s) = p # split_on c s"
  by (induction p) auto

lemma split_on_pieces:
  "list_all (\<lambda>p. c \<notin> set p) ps \<Longrightarrow> split_on c (concat (map (\<lambda>p. p @ [c]) ps)) = ps @ [[]]"
  by (induction ps) (simp_all add: split_on_piece)

lemma rposition_append: "rposition w xs = Some i \<Longrightarrow> rposition w (pre @ xs) = Some (length pre + i)"
  by (induction pre) simp_all

lemma rposition_hit: "rposition (x # w) (w @ r) = None \<Longrightarrow> rposition (x # w) (pre @ (x # w) @ r) = Some (length pre)"
  using rposition_append [of "x # w" "(x # w) @ r" 0 pre] by simp

lemma rposition_none: "x \<notin> set u \<Longrightarrow> w \<noteq> [] \<Longrightarrow> rposition (x # w) (u @ [x]) = None"
  by (induction u) (auto simp: take_Cons')

end
