(* ===== verification/Fix_Message.thy ===== *)
theory Fix_Message
  imports Std_Text
begin

section \<open>FIX messages\<close>

text \<open>
  \<^verbatim>\<open>crates/protocols/fix/src/message.rs\<close> and \<^verbatim>\<open>tags.rs\<close>: the message value and its wire codec. A
  Rust string is its UTF-8 bytes, a byte is a \<^typ>\<open>char\<close>, so the length of a string is its length
  in bytes and the separators, which are ASCII, can be searched byte by byte. The checksum is a sum modulo 256; the
  32-bit accumulator of the code wraps at a multiple of 256, so the sum is taken in the naturals.
\<close>

subsection \<open>The message\<close>

abbreviation SOH :: char where
  "SOH \<equiv> CHR 0x01"

definition FIX_4_4 :: string where
  "FIX_4_4 = ''FIX.4.4''"

abbreviation (input) "BEGIN_STRING \<equiv> 8 :: u32"
abbreviation (input) "BODY_LENGTH \<equiv> 9 :: u32"
abbreviation (input) "CHECKSUM \<equiv> 10 :: u32"
abbreviation (input) "MSG_SEQ_NUM \<equiv> 34 :: u32"
abbreviation (input) "MSG_TYPE \<equiv> 35 :: u32"
abbreviation (input) "SENDER_COMP_ID \<equiv> 49 :: u32"
abbreviation (input) "SENDING_TIME \<equiv> 52 :: u32"
abbreviation (input) "TARGET_COMP_ID \<equiv> 56 :: u32"
abbreviation (input) "TEST_REQ_ID \<equiv> 112 :: u32"

record message =
  msg_type :: string
  msg_fields :: "(u32 \<times> string) list"

definition msg_new :: "string \<Rightarrow> message" where
  "msg_new t = \<lparr>msg_type = t, msg_fields = []\<rparr>"

fun set_field :: "u32 \<Rightarrow> string \<Rightarrow> (u32 \<times> string) list \<Rightarrow> (u32 \<times> string) list" where
  "set_field t v [] = [(t, v)]"
| "set_field t v ((t', v') # fs) = (if t' = t then (t, v) # fs else (t', v') # set_field t v fs)"

definition msg_set :: "u32 \<Rightarrow> string \<Rightarrow> message \<Rightarrow> message" where
  "msg_set t v m = m\<lparr>msg_fields := set_field t v (msg_fields m)\<rparr>"

definition msg_get :: "message \<Rightarrow> u32 \<Rightarrow> string option" where
  "msg_get m t = map_option snd (find (\<lambda>(t', _). t' = t) (msg_fields m))"

definition is_session_owned :: "u32 \<Rightarrow> bool" where
  "is_session_owned t \<longleftrightarrow>
     t \<in> {BEGIN_STRING, BODY_LENGTH, CHECKSUM, MSG_TYPE, SENDER_COMP_ID, TARGET_COMP_ID, MSG_SEQ_NUM, SENDING_TIME}"

definition field_text :: "u32 \<times> string \<Rightarrow> string" where
  "field_text f = show_nat (unat (fst f)) @ CHR ''='' # snd f"

definition append_field :: "string \<Rightarrow> u32 \<Rightarrow> string \<Rightarrow> string" where
  "append_field buf t v = buf @ field_text (t, v) @ [SOH]"

definition checksum :: "string \<Rightarrow> nat" where
  "checksum s = sum_list (map of_char s) mod 256"

definition pad3 :: "nat \<Rightarrow> string" where
  "pad3 n = (let s = show_nat n in replicate (3 - length s) (CHR ''0'') @ s)"

definition encode :: "message \<Rightarrow> string \<Rightarrow> string \<Rightarrow> u64 \<Rightarrow> string \<Rightarrow> string" where
  "encode m sender target seq sending_time =
     (let b1 = append_field [] MSG_TYPE (msg_type m);
          b2 = append_field b1 SENDER_COMP_ID sender;
          b3 = append_field b2 TARGET_COMP_ID target;
          b4 = append_field b3 MSG_SEQ_NUM (show_nat (unat seq));
          b5 = append_field b4 SENDING_TIME sending_time;
          body = foldl (\<lambda>b (t, v). if is_session_owned t then b else append_field b t v) b5 (msg_fields m);
          m1 = append_field [] BEGIN_STRING FIX_4_4;
          m2 = append_field m1 BODY_LENGTH (show_nat (length body));
          m3 = m2 @ body
      in append_field m3 CHECKSUM (pad3 (checksum m3)))"

datatype fix_error =
    NotUtf8
  | MissingEquals string
  | TagNotNumeric string
  | EmptyMessage
  | ChecksumNotLast u32
  | BadChecksumValue string
  | ChecksumFieldNotFound
  | ChecksumMismatch u32 nat
  | MsgTypeMissing

fun parse_fields :: "string list \<Rightarrow> fix_error + (u32 \<times> string) list" where
  "parse_fields [] = Inr []"
| "parse_fields (part # parts) =
     (if part = [] then parse_fields parts
      else case split_once (CHR ''='') part of
             None \<Rightarrow> Inl (MissingEquals part)
           | Some (tag_s, val) \<Rightarrow>
               (case parse_u32 tag_s of
                  None \<Rightarrow> Inl (TagNotNumeric tag_s)
                | Some tag \<Rightarrow>
                    (case parse_fields parts of
                       Inl e \<Rightarrow> Inl e
                     | Inr fs \<Rightarrow> Inr ((tag, val) # fs))))"

definition decode :: "string \<Rightarrow> fix_error + message" where
  "decode raw =
     (if \<not> utf8_valid raw then Inl NotUtf8
      else case parse_fields (split_on SOH raw) of
             Inl e \<Rightarrow> Inl e
           | Inr fs \<Rightarrow>
               if fs = [] then Inl EmptyMessage
               else let (last_tag, last_val) = last fs
                    in if last_tag \<noteq> CHECKSUM then Inl (ChecksumNotLast last_tag)
                       else case parse_u32 last_val of
                              None \<Rightarrow> Inl (BadChecksumValue last_val)
                            | Some expected \<Rightarrow>
                                (case rposition (SOH # ''10='') raw of
                                   None \<Rightarrow> Inl ChecksumFieldNotFound
                                 | Some sep \<Rightarrow>
                                     let got = checksum (take (sep + 1) raw)
                                     in if of_nat got \<noteq> expected then Inl (ChecksumMismatch expected got)
                                        else case find (\<lambda>(t, _). t = MSG_TYPE) fs of
                                               None \<Rightarrow> Inl MsgTypeMissing
                                             | Some (_, ty) \<Rightarrow> Inr \<lparr>msg_type = ty, msg_fields = fs\<rparr>))"

subsection \<open>Constructors\<close>

datatype fix_side = FixBuy | FixSell
datatype ord_type = FixMarket | FixLimit
datatype fix_tif = FixDay | FixGtc | FixIoc | FixFok

primrec side_as_fix :: "fix_side \<Rightarrow> string" where
  "side_as_fix FixBuy = ''1''"
| "side_as_fix FixSell = ''2''"

primrec ord_type_as_fix :: "ord_type \<Rightarrow> string" where
  "ord_type_as_fix FixMarket = ''1''"
| "ord_type_as_fix FixLimit = ''2''"

primrec tif_as_fix :: "fix_tif \<Rightarrow> string" where
  "tif_as_fix FixDay = ''0''"
| "tif_as_fix FixGtc = ''1''"
| "tif_as_fix FixIoc = ''3''"
| "tif_as_fix FixFok = ''4''"

definition msg_logon :: "u32 \<Rightarrow> message" where
  "msg_logon heartbeat_secs =
     msg_set 108 (show_nat (unat heartbeat_secs)) (msg_set 98 ''0'' (msg_new ''A''))"

definition msg_heartbeat :: message where
  "msg_heartbeat = msg_new ''0''"

definition msg_test_request :: "string \<Rightarrow> message" where
  "msg_test_request i = msg_set TEST_REQ_ID i (msg_new ''1'')"

definition new_order_single ::
  "string \<Rightarrow> string \<Rightarrow> fix_side \<Rightarrow> string \<Rightarrow> ord_type \<Rightarrow> string option \<Rightarrow> fix_tif option \<Rightarrow> string \<Rightarrow> message" where
  "new_order_single cl_ord_id symbol s qty ot pr tif transact_time =
     (let m1 = msg_set 11 cl_ord_id (msg_new ''D'');
          m2 = msg_set 55 symbol m1;
          m3 = msg_set 54 (side_as_fix s) m2;
          m4 = msg_set 60 transact_time m3;
          m5 = msg_set 38 qty m4;
          m6 = msg_set 40 (ord_type_as_fix ot) m5;
          m7 = (case pr of None \<Rightarrow> m6 | Some p \<Rightarrow> msg_set 44 p m6)
      in case tif of None \<Rightarrow> m7 | Some t \<Rightarrow> msg_set 59 (tif_as_fix t) m7)"

definition cancel_request :: "string \<Rightarrow> string \<Rightarrow> string \<Rightarrow> fix_side \<Rightarrow> string \<Rightarrow> message" where
  "cancel_request cl_ord_id orig_cl_ord_id symbol s transact_time =
     msg_set 60 transact_time (msg_set 54 (side_as_fix s) (msg_set 55 symbol
       (msg_set 41 orig_cl_ord_id (msg_set 11 cl_ord_id (msg_new ''F'')))))"

subsection \<open>The checksum field\<close>

lemma pad3_digits: "list_all is_digit (pad3 n) \<and> pad3 n \<noteq> [] \<and> digits_value (pad3 n) = n"
proof -
  have "is_digit (CHR ''0'')" by (simp add: is_digit_def)
  then show ?thesis
    using show_nat_digits [of n]
    by (auto simp: pad3_def Let_def digits_value_zeros list_all_iff)
qed

lemma parse_pad3: "n < 256 \<Longrightarrow> parse_u32 (pad3 n) = Some (of_nat n)"
  using parse_digits [of "pad3 n" "2 ^ 32"] pad3_digits [of n] by (simp add: parse_u32_def)

subsection \<open>The round trip\<close>

abbreviation wire :: "(u32 \<times> string) list \<Rightarrow> string" where
  "wire fs \<equiv> concat (map (\<lambda>f. field_text f @ [SOH]) fs)"

definition clean :: "string \<Rightarrow> bool" where
  "clean s \<longleftrightarrow> SOH \<notin> set s \<and> utf8_valid s"

lemma field_text_clean:
  assumes "clean (snd f)"
  shows "clean (field_text f) \<and> field_text f \<noteq> []"
proof -
  note d = digits_clean [OF conjunct1 [OF show_nat_digits [of "unat (fst f)"]]]
  have "utf8_valid (show_nat (unat (fst f)) @ CHR ''='' # snd f)"
    by (rule utf8_append [OF utf8_ascii [OF d(3)]]) (use assms in \<open>simp add: clean_def\<close>)
  then show ?thesis using assms d(1) by (auto simp: clean_def field_text_def)
qed

lemma parse_fields_wire: "parse_fields (map field_text fs @ [[]]) = Inr fs"
proof (induction fs)
  case Nil
  then show ?case by simp
next
  case (Cons f fs)
  have "field_text f \<noteq> []" by (simp add: field_text_def)
  moreover have "split_once (CHR ''='') (field_text f) = Some (show_nat (unat (fst f)), snd f)"
    unfolding field_text_def
    by (rule split_once_prefix) (rule digits_clean(2) [OF conjunct1 [OF show_nat_digits]])
  ultimately show ?case using Cons by (simp add: parse_show_u32)
qed

lemma wire_utf8: "list_all (\<lambda>f. clean (snd f)) fs \<Longrightarrow> utf8_valid (wire fs)"
proof (induction fs)
  case (Cons f fs)
  then have "utf8_valid (field_text f @ [SOH])"
    using field_text_clean [of f] by (intro utf8_append) (auto simp: clean_def)
  then show ?case using Cons utf8_append by fastforce
qed simp

lemma show_ten: "show_nat 10 = ''10''"
  by code_simp

lemma decode_wire:
  assumes "list_all (\<lambda>f. clean (snd f)) fs" and "fs \<noteq> []"
    and "find (\<lambda>(t, _). t = MSG_TYPE) fs = Some (MSG_TYPE, ty)"
  shows "decode (wire fs @ field_text (CHECKSUM, pad3 (checksum (wire fs))) @ [SOH])
    = Inr \<lparr>msg_type = ty, msg_fields = fs @ [(CHECKSUM, pad3 (checksum (wire fs)))]\<rparr>"
proof -
  define ck where "ck = pad3 (checksum (wire fs))"
  define raw where "raw = wire fs @ field_text (CHECKSUM, ck) @ [SOH]"
  have ck: "list_all is_digit ck" unfolding ck_def using pad3_digits by blast
  have cl: "clean ck" using digits_clean [OF ck] by (simp add: clean_def utf8_ascii)
  have all: "raw = wire (fs @ [(CHECKSUM, ck)])" by (simp add: raw_def)
  have clall: "list_all (\<lambda>f. clean (snd f)) (fs @ [(CHECKSUM, ck)])" using assms(1) cl by simp
  have u: "utf8_valid raw" unfolding all by (rule wire_utf8 [OF clall])
  have "split_on SOH (concat (map (\<lambda>p. p @ [SOH]) (map field_text (fs @ [(CHECKSUM, ck)]))))
      = map field_text (fs @ [(CHECKSUM, ck)]) @ [[]]"
    by (rule split_on_pieces) (use clall field_text_clean in \<open>auto simp: list_all_iff clean_def\<close>)
  then have "split_on SOH raw = map field_text (fs @ [(CHECKSUM, ck)]) @ [[]]"
    unfolding all by (simp only: map_map comp_def)
  then have p: "parse_fields (split_on SOH raw) = Inr (fs @ [(CHECKSUM, ck)])"
    by (simp only: parse_fields_wire)
  obtain pre where pre: "wire fs = pre @ [SOH]"
    using assms(2) by (cases fs rule: rev_cases) auto
  have t10: "field_text (CHECKSUM, ck) = ''10='' @ ck"
    by (simp add: field_text_def show_ten)
  have "SOH \<notin> set (''10='' @ ck)" using digits_clean(1) [OF ck] by simp
  then have "rposition (SOH # ''10='') (''10='' @ ck @ [SOH]) = None"
    using rposition_none [of SOH "''10='' @ ck" "''10=''"] by simp
  then have "rposition (SOH # ''10='') (pre @ (SOH # ''10='') @ (ck @ [SOH])) = Some (length pre)"
    by (rule rposition_hit)
  then have r: "rposition (SOH # ''10='') raw = Some (length pre)"
    by (simp add: raw_def pre t10)
  have tk: "take (length pre + 1) raw = wire fs" by (simp add: raw_def pre)
  have "checksum (wire fs) < 256" by (simp add: checksum_def)
  then have pc: "parse_u32 ck = Some (of_nat (checksum (wire fs)))" unfolding ck_def by (rule parse_pad3)
  have "find (\<lambda>(t, _). t = MSG_TYPE) (fs @ [(CHECKSUM, ck)]) = Some (MSG_TYPE, ty)"
    using assms(3) by (induction fs) (auto split: if_splits)
  then have "decode raw = Inr \<lparr>msg_type = ty, msg_fields = fs @ [(CHECKSUM, ck)]\<rparr>"
    using u p r tk pc by (simp add: decode_def)
  then show ?thesis by (simp add: raw_def ck_def)
qed

definition body_fields :: "message \<Rightarrow> string \<Rightarrow> string \<Rightarrow> u64 \<Rightarrow> string \<Rightarrow> (u32 \<times> string) list" where
  "body_fields m sender target seq sending_time =
     [(MSG_TYPE, msg_type m), (SENDER_COMP_ID, sender), (TARGET_COMP_ID, target),
      (MSG_SEQ_NUM, show_nat (unat seq)), (SENDING_TIME, sending_time)]
     @ filter (\<lambda>(t, _). \<not> is_session_owned t) (msg_fields m)"

definition all_fields :: "message \<Rightarrow> string \<Rightarrow> string \<Rightarrow> u64 \<Rightarrow> string \<Rightarrow> (u32 \<times> string) list" where
  "all_fields m sender target seq sending_time =
     (let body = body_fields m sender target seq sending_time
      in [(BEGIN_STRING, FIX_4_4), (BODY_LENGTH, show_nat (length (wire body)))] @ body)"

lemma encode_wire:
  "encode m sender target seq time =
     (let w = wire (all_fields m sender target seq time)
      in w @ field_text (CHECKSUM, pad3 (checksum w)) @ [SOH])"
proof -
  have "foldl (\<lambda>b (t, v). if is_session_owned t then b else append_field b t v) b fs
      = b @ wire (filter (\<lambda>(t, _). \<not> is_session_owned t) fs)" for b fs
    by (induction fs arbitrary: b) (auto simp: append_field_def)
  then have body: "foldl (\<lambda>b (t, v). if is_session_owned t then b else append_field b t v)
      (append_field (append_field (append_field (append_field (append_field [] MSG_TYPE (msg_type m))
        SENDER_COMP_ID sender) TARGET_COMP_ID target) MSG_SEQ_NUM (show_nat (unat seq))) SENDING_TIME time)
      (msg_fields m) = wire (body_fields m sender target seq time)"
    by (simp add: append_field_def body_fields_def)
  show ?thesis
    unfolding encode_def Let_def body by (simp add: append_field_def all_fields_def Let_def)
qed

definition clean_message :: "message \<Rightarrow> bool" where
  "clean_message m \<longleftrightarrow> clean (msg_type m) \<and> list_all (\<lambda>f. clean (snd f)) (msg_fields m)"

lemma digits_are_clean: "list_all is_digit s \<Longrightarrow> clean s"
  using digits_clean [of s] by (simp add: clean_def utf8_ascii)

lemma decode_encode_fields:
  assumes "clean_message m" and "clean sender" and "clean target" and "clean time"
  shows "\<exists>ck. decode (encode m sender target seq time) =
    Inr \<lparr>msg_type = msg_type m, msg_fields = all_fields m sender target seq time @ [(CHECKSUM, ck)]\<rparr>"
proof -
  let ?fs = "all_fields m sender target seq time"
  have n: "clean (show_nat k)" for k
    by (rule digits_are_clean) (use show_nat_digits in blast)
  have "clean FIX_4_4" by (simp add: clean_def FIX_4_4_def utf8_ascii)
  then have cl: "list_all (\<lambda>f. clean (snd f)) ?fs"
    using assms n by (auto simp: all_fields_def body_fields_def clean_message_def list_all_iff Let_def)
  have "find (\<lambda>(t, _). t = MSG_TYPE) ?fs = Some (MSG_TYPE, msg_type m)"
    by (simp add: all_fields_def body_fields_def Let_def)
  from decode_wire [OF cl _ this]
  have "decode (encode m sender target seq time) =
      Inr \<lparr>msg_type = msg_type m, msg_fields = ?fs @ [(CHECKSUM, pad3 (checksum (wire ?fs)))]\<rparr>"
    by (simp add: encode_wire Let_def all_fields_def)
  then show ?thesis by blast
qed

lemma decoded_seq:
  assumes "clean_message m" and "clean sender" and "clean target" and "clean time"
    and "decode (encode m sender target seq time) = Inr m'"
  shows "msg_get m' MSG_SEQ_NUM = Some (show_nat (unat seq))" and "msg_type m' = msg_type m"
  using decode_encode_fields [OF assms(1-4), of seq] assms(5)
  by (auto simp: msg_get_def all_fields_def body_fields_def Let_def)

subsection \<open>Properties\<close>

text \<open>
  C9: decoding an encoded message gives it back. For every message, identity and timestamp free of
  the field separator, the decoder accepts the encoder's bytes, and returns the message type, the
  header fields the session layer owns, the body fields of the message in their order (a body
  field with a tag the session owns is left out), and the checksum.
\<close>

theorem decode_encode:
  assumes "clean_message m" and "clean sender" and "clean target" and "clean time"
  shows "\<exists>len ck. decode (encode m sender target seq time) =
    Inr \<lparr>msg_type = msg_type m,
         msg_fields =
           [(BEGIN_STRING, FIX_4_4), (BODY_LENGTH, len), (MSG_TYPE, msg_type m), (SENDER_COMP_ID, sender),
            (TARGET_COMP_ID, target), (MSG_SEQ_NUM, show_nat (unat seq)), (SENDING_TIME, time)]
           @ filter (\<lambda>(t, _). \<not> is_session_owned t) (msg_fields m) @ [(CHECKSUM, ck)]\<rparr>"
  using decode_encode_fields [OF assms, of seq] by (fastforce simp: all_fields_def body_fields_def Let_def)

theorem decode_encode_witness:
  "\<exists>len ck. decode (encode (msg_test_request ''TR-1'') ''US'' ''THEM'' 7 ''20260101-00:00:00.000'') =
    Inr \<lparr>msg_type = ''1'',
         msg_fields =
           [(BEGIN_STRING, FIX_4_4), (BODY_LENGTH, len), (MSG_TYPE, ''1''), (SENDER_COMP_ID, ''US''),
            (TARGET_COMP_ID, ''THEM''), (MSG_SEQ_NUM, show_nat 7), (SENDING_TIME, ''20260101-00:00:00.000''),
            (TEST_REQ_ID, ''TR-1''), (CHECKSUM, ck)]\<rparr>"
  using decode_encode [of "msg_test_request ''TR-1''" "''US''" "''THEM''" "''20260101-00:00:00.000''" 7]
  by (simp add: clean_message_def clean_def utf8_ascii msg_test_request_def msg_set_def msg_new_def is_session_owned_def)

lemma find_set_field:
  "find (\<lambda>(t', _). t' = u) (set_field t v fs)
     = (if u = t then Some (t, v) else find (\<lambda>(t', _). t' = u) fs)"
  by (induction t v fs rule: set_field.induct) auto

text \<open>
  Setting a field is an in-place update: the new value is read back, every other field reads as
  before, and the tags keep their order with a new tag at the end.
\<close>

theorem set_get_field:
  shows "msg_get (msg_set t v m) u = (if u = t then Some v else msg_get m u)
    \<and> map fst (msg_fields (msg_set t v m))
        = (if t \<in> fst ` set (msg_fields m) then map fst (msg_fields m) else map fst (msg_fields m) @ [t])"
proof -
  have "map fst (set_field t v fs) = (if t \<in> fst ` set fs then map fst fs else map fst fs @ [t])" for fs
    by (induction t v fs rule: set_field.induct) auto
  then show ?thesis by (simp add: msg_get_def msg_set_def find_set_field)
qed

end
