(* ===== verification/Fix_Session.thy ===== *)
theory Fix_Session
  imports Fix_Message "HOL-Library.Log_Nat"
begin

section \<open>The FIX session\<close>

text \<open>
  \<^verbatim>\<open>crates/protocols/fix/src/session.rs\<close>: the session state machine. It owns no clock: times are
  instants in nanoseconds, and \<^verbatim>\<open>duration_since\<close> is zero for an earlier instant. Sequence numbers
  are 64-bit words; the additions wrap as in a release build. The sequence number store is a
  trait, so it is a record of operations; the locale \<open>seq_num_store\<close> is its contract and the
  in-memory store keeps it. The factor 1.2 of the test-request timeout is the single-precision
  constant, and its product is rounded the way \<^verbatim>\<open>Duration::mul_f32\<close> rounds.
\<close>

subsection \<open>The store\<close>

record 's seq_ops =
  st_next_send :: "'s \<Rightarrow> u64 \<times> 's"
  st_peek_send :: "'s \<Rightarrow> u64"
  st_expected_recv :: "'s \<Rightarrow> u64"
  st_advance_recv :: "u64 \<Rightarrow> 's \<Rightarrow> 's"
  st_reset :: "'s \<Rightarrow> 's"

locale seq_num_store =
  fixes ops :: "'s seq_ops"
  assumes next_send: "st_next_send ops s = (n, s') \<Longrightarrow>
      n = st_peek_send ops s \<and> st_peek_send ops s' = n + 1 \<and> st_expected_recv ops s' = st_expected_recv ops s"
    and advance_recv: "st_expected_recv ops (st_advance_recv ops n s) = n
      \<and> st_peek_send ops (st_advance_recv ops n s) = st_peek_send ops s"
    and reset: "st_peek_send ops (st_reset ops s) = 1 \<and> st_expected_recv ops (st_reset ops s) = 1"

record in_memory_seq_store =
  im_next_send :: u64
  im_expected_recv :: u64

definition store_new :: in_memory_seq_store where
  "store_new = \<lparr>im_next_send = 1, im_expected_recv = 1\<rparr>"

definition in_memory :: "in_memory_seq_store seq_ops" where
  "in_memory =
     \<lparr>st_next_send = (\<lambda>s. (im_next_send s, s\<lparr>im_next_send := im_next_send s + 1\<rparr>)),
      st_peek_send = im_next_send,
      st_expected_recv = im_expected_recv,
      st_advance_recv = (\<lambda>n s. s\<lparr>im_expected_recv := n\<rparr>),
      st_reset = (\<lambda>s. s\<lparr>im_next_send := 1, im_expected_recv := 1\<rparr>)\<rparr>"

interpretation memory: seq_num_store in_memory
  by unfold_locales (auto simp: in_memory_def)

subsection \<open>The session\<close>

datatype session_state = Disconnected | LogonSent | LoggedIn | LogoutSent

record session_config =
  sc_sender_comp_id :: string
  sc_target_comp_id :: string
  sc_heartbeat_secs :: u32
  sc_reset_on_logon :: bool

datatype session_action = Send string | DeliverApp message | DisconnectAction string

record 's fix_session =
  fs_config :: session_config
  fs_store :: 's
  fs_state :: session_state
  fs_last_recv_at :: "timestamp option"
  fs_last_send_at :: "timestamp option"
  fs_test_req_id_counter :: u64
  fs_outstanding_test_req_id :: "string option"
  fs_outstanding_test_req_sent_at :: "timestamp option"

definition session_new :: "session_config \<Rightarrow> 's \<Rightarrow> 's fix_session" where
  "session_new cfg st =
     \<lparr>fs_config = cfg, fs_store = st, fs_state = Disconnected, fs_last_recv_at = None,
      fs_last_send_at = None, fs_test_req_id_counter = 0, fs_outstanding_test_req_id = None,
      fs_outstanding_test_req_sent_at = None\<rparr>"

definition send_session_msg ::
  "'s seq_ops \<Rightarrow> message \<Rightarrow> timestamp \<Rightarrow> string \<Rightarrow> 's fix_session \<Rightarrow> session_action \<times> 's fix_session" where
  "send_session_msg ops msg now sending_time s =
     (case st_next_send ops (fs_store s) of (seq, st) \<Rightarrow>
        (Send (encode msg (sc_sender_comp_id (fs_config s)) (sc_target_comp_id (fs_config s)) seq sending_time),
         s\<lparr>fs_store := st, fs_last_send_at := Some now\<rparr>))"

definition start_logon ::
  "'s seq_ops \<Rightarrow> timestamp \<Rightarrow> string \<Rightarrow> 's fix_session \<Rightarrow> session_action \<times> 's fix_session" where
  "start_logon ops now sending_time s =
     (let s1 = (if sc_reset_on_logon (fs_config s) then s\<lparr>fs_store := st_reset ops (fs_store s)\<rparr> else s);
          msg = msg_logon (sc_heartbeat_secs (fs_config s1));
          msg1 = (if sc_reset_on_logon (fs_config s1) then msg_set 141 ''Y'' msg else msg)
      in send_session_msg ops msg1 now sending_time (s1\<lparr>fs_state := LogonSent\<rparr>))"

definition start_logout ::
  "'s seq_ops \<Rightarrow> timestamp \<Rightarrow> string \<Rightarrow> 's fix_session \<Rightarrow> session_action \<times> 's fix_session" where
  "start_logout ops now sending_time s =
     send_session_msg ops (msg_new ''5'') now sending_time (s\<lparr>fs_state := LogoutSent\<rparr>)"

definition parsed_u64 :: "message \<Rightarrow> u32 \<Rightarrow> u64 \<Rightarrow> u64" where
  "parsed_u64 msg t dflt =
     (case Option.bind (msg_get msg t) parse_u64 of None \<Rightarrow> dflt | Some n \<Rightarrow> n)"

definition advance :: "'s seq_ops \<Rightarrow> u64 \<Rightarrow> 's fix_session \<Rightarrow> 's fix_session" where
  "advance ops n s = s\<lparr>fs_store := st_advance_recv ops n (fs_store s)\<rparr>"

definition dispatch ::
  "'s seq_ops \<Rightarrow> message \<Rightarrow> u64 \<Rightarrow> timestamp \<Rightarrow> string \<Rightarrow> 's fix_session
    \<Rightarrow> session_action list \<times> 's fix_session" where
  "dispatch ops msg expected now sending_time s =
     (if msg_type msg = ''A'' then
        if fs_state s = LogonSent then ([], advance ops (expected + 1) (s\<lparr>fs_state := LoggedIn\<rparr>))
        else ([DisconnectAction ''unexpected Logon in current state''], s)
      else if msg_type msg = ''0'' then
        let s1 = advance ops (expected + 1) s
        in case fs_outstanding_test_req_id s1 of
             None \<Rightarrow> ([], s1)
           | Some tid \<Rightarrow>
               if msg_get msg TEST_REQ_ID = Some tid
               then ([], s1\<lparr>fs_outstanding_test_req_id := None, fs_outstanding_test_req_sent_at := None\<rparr>)
               else ([], s1)
      else if msg_type msg = ''1'' then
        let s1 = advance ops (expected + 1) s;
            test_req_id = (case msg_get msg TEST_REQ_ID of None \<Rightarrow> '''' | Some t \<Rightarrow> t);
            hb = (if test_req_id \<noteq> '''' then msg_set TEST_REQ_ID test_req_id msg_heartbeat else msg_heartbeat)
        in case send_session_msg ops hb now sending_time s1 of (a, s2) \<Rightarrow> ([a], s2)
      else if msg_type msg = ''2'' then
        let s1 = advance ops (expected + 1) s;
            begin_seq = parsed_u64 msg 7 0;
            end_seq = parsed_u64 msg 16 0;
            target = max end_seq begin_seq + 1;
            sr = msg_set 36 (show_nat (unat target)) (msg_set 123 ''Y'' (msg_new ''4''))
        in case send_session_msg ops sr now sending_time s1 of (a, s2) \<Rightarrow> ([a], s2)
      else if msg_type msg = ''4'' then
        ([], advance ops (parsed_u64 msg 36 (expected + 1)) s)
      else if msg_type msg = ''5'' then
        let s1 = advance ops (expected + 1) s;
            (out, s2) = (if fs_state s1 \<noteq> LogoutSent
                         then case send_session_msg ops (msg_new ''5'') now sending_time s1 of (a, s2) \<Rightarrow> ([a], s2)
                         else ([], s1))
        in (out @ [DisconnectAction ''peer logout''], s2\<lparr>fs_state := Disconnected\<rparr>)
      else ([DeliverApp msg], advance ops (expected + 1) s))"

definition on_message ::
  "'s seq_ops \<Rightarrow> message \<Rightarrow> timestamp \<Rightarrow> string \<Rightarrow> 's fix_session \<Rightarrow> session_action list \<times> 's fix_session" where
  "on_message ops msg now sending_time s =
     (let s1 = s\<lparr>fs_last_recv_at := Some now\<rparr>;
          msg_seq = parsed_u64 msg MSG_SEQ_NUM 0;
          expected = st_expected_recv ops (fs_store s1);
          is_poss_dup = (msg_get msg 43 = Some ''Y'')
      in if expected < msg_seq then
           (let rr = msg_set 16 ''0'' (msg_set 7 (show_nat (unat expected)) (msg_new ''2''))
            in case send_session_msg ops rr now sending_time s1 of (a, s2) \<Rightarrow> ([a], s2))
         else if msg_seq < expected then
           (if is_poss_dup then ([], s1)
            else ([DisconnectAction (''inbound MsgSeqNum '' @ show_nat (unat msg_seq) @ '' < expected ''
                     @ show_nat (unat expected))], s1))
         else dispatch ops msg expected now sending_time s1)"

text \<open>Single-precision rounding of a rational at least one, and \<^verbatim>\<open>Duration::mul_f32(1.2)\<close>.\<close>

definition round_half_even :: "decimal \<Rightarrow> int" where
  "round_half_even r =
     (let f = \<lfloor>r\<rfloor>; d = r - of_int f
      in if d < 1 / 2 then f else if 1 / 2 < d then f + 1 else if even f then f else f + 1)"

definition f32_round :: "decimal \<Rightarrow> decimal" where
  "f32_round r =
     (if r < 1 then r
      else let ulp = 2 ^ (floorlog 2 (nat \<lfloor>r\<rfloor>) - 1) / 2 ^ 23
           in of_int (round_half_even (r / ulp)) * ulp)"

definition test_request_after :: "session_config \<Rightarrow> int" where
  "test_request_after cfg =
     round_half_even (f32_round (f32_round (of_nat (unat (sc_heartbeat_secs cfg))) * (10066330 / 2 ^ 23)) * 10 ^ 9)"

definition duration_since :: "timestamp \<Rightarrow> timestamp \<Rightarrow> int" where
  "duration_since now t = max (now - t) 0"

definition heartbeat_ns :: "session_config \<Rightarrow> int" where
  "heartbeat_ns cfg = int (unat (sc_heartbeat_secs cfg)) * 10 ^ 9"

definition tick_heartbeat ::
  "'s seq_ops \<Rightarrow> timestamp \<Rightarrow> string \<Rightarrow> 's fix_session \<Rightarrow> session_action list \<times> 's fix_session" where
  "tick_heartbeat ops now sending_time s =
     (let hb = heartbeat_ns (fs_config s);
          silent_for = (case fs_last_send_at s of None \<Rightarrow> hb | Some t \<Rightarrow> duration_since now t)
      in if hb \<le> silent_for
         then case send_session_msg ops msg_heartbeat now sending_time s of (a, s1) \<Rightarrow> ([a], s1)
         else ([], s))"

definition tick_test_request ::
  "'s seq_ops \<Rightarrow> timestamp \<Rightarrow> string \<Rightarrow> 's fix_session \<Rightarrow> session_action list \<times> 's fix_session" where
  "tick_test_request ops now sending_time s =
     (let recv_silent_for = (case fs_last_recv_at s of None \<Rightarrow> 0 | Some t \<Rightarrow> duration_since now t)
      in if test_request_after (fs_config s) < recv_silent_for \<and> fs_outstanding_test_req_id s = None
         then let counter = fs_test_req_id_counter s + 1;
                  tid = ''TR-'' @ show_nat (unat counter);
                  s1 = s\<lparr>fs_test_req_id_counter := counter, fs_outstanding_test_req_id := Some tid,
                         fs_outstanding_test_req_sent_at := Some now\<rparr>
              in case send_session_msg ops (msg_test_request tid) now sending_time s1 of (a, s2) \<Rightarrow> ([a], s2)
         else ([], s))"

definition tick_watchdog :: "timestamp \<Rightarrow> 's fix_session \<Rightarrow> session_action list \<times> 's fix_session" where
  "tick_watchdog now s =
     (case fs_outstanding_test_req_sent_at s of
        None \<Rightarrow> ([], s)
      | Some sent_at \<Rightarrow>
          if heartbeat_ns (fs_config s) < duration_since now sent_at
          then ([DisconnectAction ''peer heartbeat timeout''], s\<lparr>fs_state := Disconnected\<rparr>)
          else ([], s))"

definition fix_tick ::
  "'s seq_ops \<Rightarrow> timestamp \<Rightarrow> string \<Rightarrow> 's fix_session \<Rightarrow> session_action list \<times> 's fix_session" where
  "fix_tick ops now sending_time s =
     (if fs_state s \<noteq> LoggedIn then ([], s)
      else case tick_heartbeat ops now sending_time s of (o1, s1) \<Rightarrow>
           case tick_test_request ops now sending_time s1 of (o2, s2) \<Rightarrow>
           case tick_watchdog now s2 of (o3, s3) \<Rightarrow> (o1 @ o2 @ o3, s3))"

definition send_app ::
  "'s seq_ops \<Rightarrow> message \<Rightarrow> timestamp \<Rightarrow> string \<Rightarrow> 's fix_session
    \<Rightarrow> (string + session_action) \<times> 's fix_session" where
  "send_app ops msg now sending_time s =
     (if fs_state s \<noteq> LoggedIn then (Inl ''FIX session not logged in'', s)
      else case send_session_msg ops msg now sending_time s of (a, s1) \<Rightarrow> (Inr a, s1))"

subsection \<open>Driving the session\<close>

text \<open>The calls an I/O driver makes, and the actions a sequence of them produces.\<close>

datatype session_input =
    StartLogon timestamp string
  | StartLogout timestamp string
  | Inbound message timestamp string
  | Tick timestamp string
  | App message timestamp string

fun session_step ::
  "'s seq_ops \<Rightarrow> session_input \<Rightarrow> 's fix_session \<Rightarrow> session_action list \<times> 's fix_session" where
  "session_step ops (StartLogon now t) s = (case start_logon ops now t s of (a, s1) \<Rightarrow> ([a], s1))"
| "session_step ops (StartLogout now t) s = (case start_logout ops now t s of (a, s1) \<Rightarrow> ([a], s1))"
| "session_step ops (Inbound m now t) s = on_message ops m now t s"
| "session_step ops (Tick now t) s = fix_tick ops now t s"
| "session_step ops (App m now t) s =
     (case send_app ops m now t s of (Inl _, s1) \<Rightarrow> ([], s1) | (Inr a, s1) \<Rightarrow> ([a], s1))"

fun session_run ::
  "'s seq_ops \<Rightarrow> session_input list \<Rightarrow> 's fix_session \<Rightarrow> session_action list \<times> 's fix_session" where
  "session_run ops [] s = ([], s)"
| "session_run ops (i # ins) s =
     (case session_step ops i s of (acts, s1) \<Rightarrow>
      case session_run ops ins s1 of (acts', s2) \<Rightarrow> (acts @ acts', s2))"

definition seq_of :: "message \<Rightarrow> u64" where
  "seq_of m = parsed_u64 m MSG_SEQ_NUM 0"

fun delivered :: "session_action list \<Rightarrow> u64 list" where
  "delivered [] = []"
| "delivered (DeliverApp m # acts) = seq_of m # delivered acts"
| "delivered (_ # acts) = delivered acts"

text \<open>Every message sent is numbered by the next outgoing number, starting at \<open>n\<close>.\<close>

fun numbered :: "session_config \<Rightarrow> u64 \<Rightarrow> session_action list \<Rightarrow> bool" where
  "numbered cfg n [] \<longleftrightarrow> True"
| "numbered cfg n (Send b # acts) \<longleftrightarrow>
     (\<exists>m t. b = encode m (sc_sender_comp_id cfg) (sc_target_comp_id cfg) n t) \<and> numbered cfg (n + 1) acts"
| "numbered cfg n (_ # acts) \<longleftrightarrow> numbered cfg n acts"

fun sends :: "session_action list \<Rightarrow> nat" where
  "sends [] = 0"
| "sends (Send _ # acts) = Suc (sends acts)"
| "sends (_ # acts) = sends acts"

fun is_logon :: "session_input \<Rightarrow> bool" where
  "is_logon (StartLogon _ _) = True"
| "is_logon _ = False"

fun in_sequence :: "session_input \<Rightarrow> bool" where
  "in_sequence (StartLogon _ _) = False"
| "in_sequence (Inbound m _ _) \<longleftrightarrow> msg_type m \<noteq> ''4''"
| "in_sequence _ = True"

lemma session_run_append:
  "session_run ops (xs @ ys) s =
     (case session_run ops xs s of (a1, s1) \<Rightarrow> case session_run ops ys s1 of (a2, s2) \<Rightarrow> (a1 @ a2, s2))"
  by (induction xs arbitrary: s) (simp_all split: prod.splits)

lemma delivered_append: "delivered (xs @ ys) = delivered xs @ delivered ys"
  by (induction xs rule: delivered.induct) simp_all

lemma sends_append: "sends (xs @ ys) = sends xs + sends ys"
  by (induction xs rule: sends.induct) simp_all

lemma numbered_append:
  "numbered cfg n (xs @ ys) \<longleftrightarrow> numbered cfg n xs \<and> numbered cfg (n + of_nat (sends xs)) ys"
  by (induction cfg n xs rule: numbered.induct) (simp_all add: add.assoc)

lemmas action_append = delivered_append sends_append numbered_append

text \<open>
  What a call does to the numbers. Outgoing: the messages sent carry the next outgoing numbers and
  the store moves past them. Incoming: the expected number stays and nothing is delivered, or it
  moves by one and at most the message with the expected number is delivered.
\<close>

definition outgoing :: "'s seq_ops \<Rightarrow> 's fix_session \<Rightarrow> session_action list \<times> 's fix_session \<Rightarrow> bool" where
  "outgoing ops s r \<longleftrightarrow> numbered (fs_config s) (st_peek_send ops (fs_store s)) (fst r)
     \<and> st_peek_send ops (fs_store (snd r)) = st_peek_send ops (fs_store s) + of_nat (sends (fst r))
     \<and> fs_config (snd r) = fs_config s"

definition still :: "'s seq_ops \<Rightarrow> 's fix_session \<Rightarrow> session_action list \<times> 's fix_session \<Rightarrow> bool" where
  "still ops s r \<longleftrightarrow>
     st_expected_recv ops (fs_store (snd r)) = st_expected_recv ops (fs_store s) \<and> delivered (fst r) = []"

definition accepted :: "'s seq_ops \<Rightarrow> 's fix_session \<Rightarrow> session_action list \<times> 's fix_session \<Rightarrow> bool" where
  "accepted ops s r \<longleftrightarrow>
     st_expected_recv ops (fs_store (snd r)) = st_expected_recv ops (fs_store s) + 1
     \<and> (delivered (fst r) = [] \<or> delivered (fst r) = [st_expected_recv ops (fs_store s)])"

context seq_num_store
begin

lemma send_effect:
  assumes "send_session_msg ops msg now t s = (a, s1)"
  shows "a = Send (encode msg (sc_sender_comp_id (fs_config s)) (sc_target_comp_id (fs_config s))
             (st_peek_send ops (fs_store s)) t)"
    and "st_peek_send ops (fs_store s1) = st_peek_send ops (fs_store s) + 1"
    and "st_expected_recv ops (fs_store s1) = st_expected_recv ops (fs_store s)"
    and "s1 = s\<lparr>fs_store := fs_store s1, fs_last_send_at := Some now\<rparr>"
proof -
  obtain n st where n: "st_next_send ops (fs_store s) = (n, st)" by (rule prod.exhaust)
  note e = next_send [OF n] and a = assms [unfolded send_session_msg_def n, simplified]
  show "a = Send (encode msg (sc_sender_comp_id (fs_config s)) (sc_target_comp_id (fs_config s))
             (st_peek_send ops (fs_store s)) t)" using e a by auto
  show "st_peek_send ops (fs_store s1) = st_peek_send ops (fs_store s) + 1" using e a by auto
  show "st_expected_recv ops (fs_store s1) = st_expected_recv ops (fs_store s)" using e a by auto
  show "s1 = s\<lparr>fs_store := fs_store s1, fs_last_send_at := Some now\<rparr>" using a by auto
qed

lemma send_keeps:
  assumes "send_session_msg ops msg now t s = (a, s1)"
  shows "fs_config s1 = fs_config s" and "fs_state s1 = fs_state s" and "fs_last_recv_at s1 = fs_last_recv_at s"
    and "fs_outstanding_test_req_id s1 = fs_outstanding_test_req_id s"
    and "fs_outstanding_test_req_sent_at s1 = fs_outstanding_test_req_sent_at s"
  using send_effect(4) [OF assms] by (auto elim: ssubst)

lemma send_numbers:
  assumes "send_session_msg ops msg now t s = (a, s1)"
  shows "outgoing ops s ([a], s1)" and "delivered [a] = []"
  using send_effect(1-2) [OF assms] send_keeps(1) [OF assms] by (auto simp: outgoing_def)

lemma advance_store:
  "st_expected_recv ops (fs_store (advance ops n s)) = n"
  "st_peek_send ops (fs_store (advance ops n s)) = st_peek_send ops (fs_store s)"
  "fs_config (advance ops n s) = fs_config s" "fs_state (advance ops n s) = fs_state s"
  using advance_recv by (auto simp: advance_def)

lemma outgoing_upd [simp]:
  "outgoing ops (advance ops n s) r = outgoing ops s r"
  "outgoing ops (s\<lparr>fs_last_recv_at := x\<rparr>) r = outgoing ops s r"
  "outgoing ops (s\<lparr>fs_state := st\<rparr>) r = outgoing ops s r"
  "outgoing ops (s\<lparr>fs_test_req_id_counter := c, fs_outstanding_test_req_id := i,
       fs_outstanding_test_req_sent_at := w\<rparr>) r = outgoing ops s r"
  by (simp_all add: outgoing_def advance_store)

lemma outgoing_quiet:
  assumes "st_peek_send ops (fs_store s') = st_peek_send ops (fs_store s)" and "fs_config s' = fs_config s"
    and "sends acts = 0" and "\<And>n. numbered (fs_config s) n acts"
  shows "outgoing ops s (acts, s')"
  using assms by (simp add: outgoing_def)

lemma outgoing_trans: "outgoing ops s (a1, s1) \<Longrightarrow> outgoing ops s1 (a2, s2) \<Longrightarrow> outgoing ops s (a1 @ a2, s2)"
  by (simp add: outgoing_def action_append add.assoc)

lemma outgoing_close: "outgoing ops s ([a], s1) \<Longrightarrow> outgoing ops s ([a, DisconnectAction w], s1\<lparr>fs_state := st\<rparr>)"
  using outgoing_trans [of s "[a]" s1 "[DisconnectAction w]" "s1\<lparr>fs_state := st\<rparr>"] by (simp add: outgoing_quiet)

lemma dispatch_outgoing: "outgoing ops s (dispatch ops msg expected now t s)"
  unfolding dispatch_def Let_def
  by (auto simp: advance_store outgoing_quiet dest!: send_numbers(1) intro: outgoing_close
      split: option.splits prod.splits)

lemma on_message_outgoing: "outgoing ops s (on_message ops msg now t s)"
  using dispatch_outgoing [of "s\<lparr>fs_last_recv_at := Some now\<rparr>"] unfolding on_message_def Let_def
  by (auto simp: outgoing_quiet dest!: send_numbers(1) split: prod.splits)

lemma fix_tick_outgoing: "outgoing ops s (fix_tick ops now t s)"
proof -
  have hb: "outgoing ops s (tick_heartbeat ops now t s)" for s
    unfolding tick_heartbeat_def Let_def by (auto simp: outgoing_quiet dest!: send_numbers(1) split: prod.splits)
  have tr: "outgoing ops s (tick_test_request ops now t s)" for s
    unfolding tick_test_request_def Let_def
    by (auto simp: outgoing_quiet dest!: send_numbers(1) split: prod.splits)
  have wd: "outgoing ops s (tick_watchdog now s)" for s
    unfolding tick_watchdog_def by (auto simp: outgoing_quiet split: option.splits)
  show ?thesis
    unfolding fix_tick_def
    by (auto simp: outgoing_quiet split: prod.splits) (metis outgoing_trans hb tr wd)
qed

lemma step_outgoing: "\<not> is_logon i \<Longrightarrow> outgoing ops s (session_step ops i s)"
  by (cases i) (auto simp: start_logout_def send_app_def on_message_outgoing fix_tick_outgoing outgoing_quiet
      dest!: send_numbers(1) split: prod.splits sum.splits if_splits)

lemma run_outgoing: "list_all (\<lambda>i. \<not> is_logon i) ins \<Longrightarrow> outgoing ops s (session_run ops ins s)"
proof (induction ins arbitrary: s)
  case (Cons i ins)
  then have "outgoing ops s (session_step ops i s)" and "outgoing ops s1 (session_run ops ins s1)" for s1
    using step_outgoing by auto
  then show ?case by (auto split: prod.splits) (metis outgoing_trans)
qed (simp add: outgoing_quiet)

lemma still_upd [simp]:
  "still ops (s\<lparr>fs_last_recv_at := x\<rparr>) r = still ops s r"
  "still ops (s\<lparr>fs_state := st\<rparr>) r = still ops s r"
  "still ops (s\<lparr>fs_test_req_id_counter := c, fs_outstanding_test_req_id := i,
       fs_outstanding_test_req_sent_at := w\<rparr>) r = still ops s r"
  by (simp_all add: still_def)

lemma send_still: "send_session_msg ops msg now t s = (a, s1) \<Longrightarrow> still ops s ([a], s1)"
  using send_effect(3) send_numbers(2) by (auto simp: still_def)

lemma dispatch_accepted:
  assumes "seq_of msg = st_expected_recv ops (fs_store s)" and "msg_type msg \<noteq> ''4''"
    and "dispatch ops msg (st_expected_recv ops (fs_store s)) now t s = r"
  shows "still ops s r \<or> accepted ops s r"
proof -
  let ?e = "st_expected_recv ops (fs_store s)"
  have sent: "accepted ops s ([a], s2) \<and> accepted ops s ([a, DisconnectAction w], s2\<lparr>fs_state := st\<rparr>)"
    if "send_session_msg ops m now t (advance ops (?e + 1) s) = (a, s2)" for m a s2 w st
    using send_effect(1,3) [OF that] by (simp add: accepted_def advance_store)
  have kept: "accepted ops s (out, advance ops (?e + 1) s')" if "delivered out = [] \<or> delivered out = [?e]" for out s'
    using that by (simp add: accepted_def advance_store)
  have closed: "accepted ops s (out, (advance ops (?e + 1) s)\<lparr>fs_state := st\<rparr>)"
    "accepted ops s (out, (advance ops (?e + 1) s)\<lparr>fs_outstanding_test_req_id := i, fs_outstanding_test_req_sent_at := w\<rparr>)"
    if "delivered out = []" for out st i w
    using that by (simp_all add: accepted_def advance_store)
  have "still ops s ([DisconnectAction w], s)" for w by (simp add: still_def)
  then show ?thesis
    unfolding assms(3) [symmetric] dispatch_def Let_def
    using assms(1,2) by (auto simp: sent kept closed split: option.split prod.split)
qed

lemma on_message_accepted:
  assumes "msg_type msg \<noteq> ''4''"
  shows "still ops s (on_message ops msg now t s) \<or>
    accepted ops s (on_message ops msg now t s) \<and> seq_of msg = st_expected_recv ops (fs_store s)"
proof (cases "seq_of msg = st_expected_recv ops (fs_store s)")
  case True
  let ?s = "s\<lparr>fs_last_recv_at := Some now\<rparr>"
  have "on_message ops msg now t s = dispatch ops msg (st_expected_recv ops (fs_store s)) now t ?s"
    using True by (simp add: on_message_def seq_of_def)
  moreover have "accepted ops ?s r = accepted ops s r" for r by (simp add: accepted_def)
  ultimately show ?thesis using dispatch_accepted [of msg ?s now t] assms True by simp
next
  case False
  then show ?thesis unfolding on_message_def Let_def seq_of_def
    by (auto dest!: send_still split: prod.splits) (auto simp: still_def)
qed

lemma fix_tick_still: "still ops s (fix_tick ops now t s)"
proof -
  have trans: "still ops s (a1, s1) \<Longrightarrow> still ops s1 (a2, s2) \<Longrightarrow> still ops s (a1 @ a2, s2)" for s a1 s1 a2 s2
    by (simp add: still_def delivered_append)
  have refl: "still ops s ([], s)" for s by (simp add: still_def)
  have hb: "still ops s (tick_heartbeat ops now t s)" for s
    unfolding tick_heartbeat_def Let_def by (auto simp: refl dest!: send_still split: prod.splits)
  have tr: "still ops s (tick_test_request ops now t s)" for s
    unfolding tick_test_request_def Let_def by (auto simp: refl dest!: send_still split: prod.splits)
  have wd: "still ops s (tick_watchdog now s)" for s
    unfolding tick_watchdog_def by (auto simp: still_def split: option.splits)
  show ?thesis
    unfolding fix_tick_def by (auto simp: refl split: prod.splits) (metis trans hb tr wd)
qed

lemma step_in_sequence:
  "in_sequence i \<Longrightarrow> still ops s (session_step ops i s) \<or> accepted ops s (session_step ops i s)"
proof (cases i)
  case (Inbound m now t)
  then show "in_sequence i \<Longrightarrow> ?thesis" using on_message_accepted by auto
qed (auto simp: start_logout_def send_app_def fix_tick_still dest!: send_still split: prod.splits sum.splits if_splits,
     auto simp: still_def)

lemma run_in_sequence:
  assumes "list_all in_sequence ins" and "unat (st_expected_recv ops (fs_store s)) + length ins < 2 ^ 64"
    and "session_run ops ins s = (acts, s')"
  shows "sorted_wrt (<) (delivered acts)
    \<and> (\<forall>n \<in> set (delivered acts). st_expected_recv ops (fs_store s) \<le> n \<and> n < st_expected_recv ops (fs_store s'))
    \<and> st_expected_recv ops (fs_store s) \<le> st_expected_recv ops (fs_store s')"
  using assms
proof (induction ins arbitrary: s acts)
  case (Cons i ins)
  obtain a1 s1 where st: "session_step ops i s = (a1, s1)" by (rule prod.exhaust)
  obtain a2 where rn: "session_run ops ins s1 = (a2, s')" and acts: "acts = a1 @ a2"
    using Cons.prems(3) st by (auto split: prod.splits)
  let ?e = "st_expected_recv ops (fs_store s)" and ?e1 = "st_expected_recv ops (fs_store s1)"
  have "still ops s (a1, s1) \<or> accepted ops s (a1, s1)" using step_in_sequence [of i s] Cons.prems(1) st by simp
  then have e1: "?e1 = ?e \<and> delivered a1 = [] \<or> ?e1 = ?e + 1 \<and> (delivered a1 = [] \<or> delivered a1 = [?e])"
    by (auto simp: still_def accepted_def)
  have "unat ?e + 1 < 2 ^ LENGTH(64)" using Cons.prems(2) by simp
  then have suc: "unat (?e + 1) = unat ?e + 1" by (simp add: unat_word_ariths)
  then have lt: "?e < ?e + 1" by (simp add: word_less_nat_alt)
  have "unat ?e1 + length ins < 2 ^ 64" using e1 suc Cons.prems(2) by auto
  then have "sorted_wrt (<) (delivered a2)
      \<and> (\<forall>n \<in> set (delivered a2). ?e1 \<le> n \<and> n < st_expected_recv ops (fs_store s'))
      \<and> ?e1 \<le> st_expected_recv ops (fs_store s')"
    using Cons.IH rn Cons.prems(1) by simp
  moreover have "?e < n \<and> ?e \<le> n" if "?e + 1 \<le> n" for n using order_less_le_trans [OF lt that] by simp
  ultimately show ?case using e1 by (auto simp: acts delivered_append)
qed simp

text \<open>One tick of a logged-in session.\<close>

lemma tick_effect:
  assumes "fs_state s = LoggedIn" and "fix_tick ops now t s = (acts, s')"
  defines "request \<equiv> fs_outstanding_test_req_id s = None \<and> test_request_after (fs_config s) <
      (case fs_last_recv_at s of None \<Rightarrow> 0 | Some r \<Rightarrow> duration_since now r)"
  defines "sent_at \<equiv> (if request then Some now else fs_outstanding_test_req_sent_at s)"
  shows "fs_config s' = fs_config s" and "fs_last_recv_at s' = fs_last_recv_at s"
    and "fs_outstanding_test_req_sent_at s' = sent_at"
    and "(fs_outstanding_test_req_id s' = None) = (fs_outstanding_test_req_id s = None \<and> \<not> request)"
    and "fs_state s' = (case sent_at of None \<Rightarrow> LoggedIn
           | Some w \<Rightarrow> if heartbeat_ns (fs_config s) < duration_since now w then Disconnected else LoggedIn)"
    and "fs_state s' = Disconnected \<Longrightarrow> DisconnectAction ''peer heartbeat timeout'' \<in> set acts"
proof -
  obtain a1 s1 where r1: "tick_heartbeat ops now t s = (a1, s1)" by (rule prod.exhaust)
  obtain a2 s2 where r2: "tick_test_request ops now t s1 = (a2, s2)" by (rule prod.exhaust)
  obtain a3 s3 where r3: "tick_watchdog now s2 = (a3, s3)" by (rule prod.exhaust)
  have s': "s' = s3" "acts = a1 @ a2 @ a3" using assms(1,2) r1 r2 r3 by (auto simp: fix_tick_def)
  have h1: "fs_config s1 = fs_config s" "fs_last_recv_at s1 = fs_last_recv_at s" "fs_state s1 = fs_state s"
    "fs_outstanding_test_req_id s1 = fs_outstanding_test_req_id s"
    "fs_outstanding_test_req_sent_at s1 = fs_outstanding_test_req_sent_at s"
    using r1 by (auto simp: tick_heartbeat_def Let_def send_keeps split: if_splits prod.splits)
  have h2: "fs_config s2 = fs_config s" "fs_last_recv_at s2 = fs_last_recv_at s" "fs_state s2 = fs_state s"
    "(fs_outstanding_test_req_id s2 = None) = (fs_outstanding_test_req_id s = None \<and> \<not> request)"
    "fs_outstanding_test_req_sent_at s2 = sent_at"
    using r2 h1 unfolding request_def sent_at_def
    by (auto simp: tick_test_request_def Let_def send_keeps split: if_splits prod.splits)
  show "fs_config s' = fs_config s" "fs_last_recv_at s' = fs_last_recv_at s"
    "fs_outstanding_test_req_sent_at s' = sent_at"
    "(fs_outstanding_test_req_id s' = None) = (fs_outstanding_test_req_id s = None \<and> \<not> request)"
    using r3 h2 s' by (auto simp: tick_watchdog_def split: if_splits option.splits)
  show "fs_state s' = (case sent_at of None \<Rightarrow> LoggedIn
           | Some w \<Rightarrow> if heartbeat_ns (fs_config s) < duration_since now w then Disconnected else LoggedIn)"
    using r3 h2 s' assms(1) by (auto simp: tick_watchdog_def split: if_splits option.splits)
  show "DisconnectAction ''peer heartbeat timeout'' \<in> set acts" if "fs_state s' = Disconnected"
    using that r3 h2 s' assms(1) by (auto simp: tick_watchdog_def split: if_splits option.splits)
qed

end

text \<open>The calls a driver makes while the peer is silent, up to a given time.\<close>

fun own_call :: "session_input \<Rightarrow> bool" where
  "own_call (Tick _ _) = True"
| "own_call (App _ _ _) = True"
| "own_call _ = False"

fun call_time :: "session_input \<Rightarrow> timestamp" where
  "call_time (StartLogon now _) = now"
| "call_time (StartLogout now _) = now"
| "call_time (Inbound _ now _) = now"
| "call_time (Tick now _) = now"
| "call_time (App _ now _) = now"

text \<open>
  A session whose peer was last heard of at \<open>t0\<close>: disconnected, or logged in with a test request,
  if one is outstanding, sent at \<open>t1\<close> or before.
\<close>

definition waiting :: "session_config \<Rightarrow> timestamp \<Rightarrow> timestamp \<Rightarrow> 's fix_session \<Rightarrow> bool" where
  "waiting cfg t0 t1 s \<longleftrightarrow> fs_config s = cfg \<and> (fs_state s = Disconnected \<or>
     fs_state s = LoggedIn \<and> fs_last_recv_at s = Some t0
     \<and> (fs_outstanding_test_req_id s = None \<longleftrightarrow> fs_outstanding_test_req_sent_at s = None)
     \<and> (\<forall>w. fs_outstanding_test_req_sent_at s = Some w \<longrightarrow> w \<le> t1))"

definition armed :: "'s fix_session \<Rightarrow> bool" where
  "armed s \<longleftrightarrow> fs_state s = Disconnected \<or> fs_outstanding_test_req_id s \<noteq> None"

context seq_num_store
begin

lemma app_keeps:
  assumes "session_step ops (App m now t) s = (acts, s')"
  shows "fs_config s' = fs_config s" and "fs_state s' = fs_state s" and "fs_last_recv_at s' = fs_last_recv_at s"
    and "fs_outstanding_test_req_id s' = fs_outstanding_test_req_id s"
    and "fs_outstanding_test_req_sent_at s' = fs_outstanding_test_req_sent_at s"
  using assms by (auto simp: send_app_def send_keeps split: prod.splits if_splits)

lemma own_call_waiting:
  assumes "waiting cfg t0 t1 s" and "own_call i" and "session_step ops i s = (acts, s')"
    and "call_time i \<le> t1 \<or> armed s"
  shows "waiting cfg t0 t1 s'" and "armed s \<Longrightarrow> armed s'"
proof -
  have "waiting cfg t0 t1 s' \<and> (armed s \<longrightarrow> armed s')"
  proof (cases i)
    case (App m now t)
    then show ?thesis using assms(1) app_keeps [of m now t s acts s'] assms(3) by (simp add: waiting_def armed_def)
  next
    case (Tick now t)
    have r: "fix_tick ops now t s = (acts, s')" using assms(3) Tick by simp
    consider "fs_state s = Disconnected" | "fs_state s = LoggedIn" using assms(1) by (auto simp: waiting_def)
    then show ?thesis
    proof cases
      case 1
      then show ?thesis using r assms(1) by (auto simp: fix_tick_def waiting_def armed_def)
    next
      case 2
      show ?thesis using assms(1,4) tick_effect [OF 2 r] Tick 2
        by (auto simp: waiting_def armed_def split: if_splits option.splits)
    qed
  qed (use assms(2) in auto)
  then show "waiting cfg t0 t1 s'" and "armed s \<Longrightarrow> armed s'" by auto
qed

lemma own_calls_waiting:
  assumes "waiting cfg t0 t1 s" and "list_all own_call ins" and "session_run ops ins s = (acts, s')"
    and "list_all (\<lambda>i. call_time i \<le> t1) ins \<or> armed s"
  shows "waiting cfg t0 t1 s' \<and> (armed s \<longrightarrow> armed s')"
  using assms
proof (induction ins arbitrary: s acts)
  case (Cons i ins)
  obtain a1 s1 where st: "session_step ops i s = (a1, s1)" by (rule prod.exhaust)
  obtain a2 where rn: "session_run ops ins s1 = (a2, s')" using Cons.prems(3) st by (auto split: prod.splits)
  have i: "own_call i" "call_time i \<le> t1 \<or> armed s" using Cons.prems(2,4) by auto
  note w = own_call_waiting [OF Cons.prems(1) i(1) st i(2)]
  then show ?case using Cons.IH [OF w(1) _ rn] Cons.prems(2,4) by auto
qed simp

end

subsection \<open>Properties\<close>

definition demo_session :: "in_memory_seq_store fix_session" where
  "demo_session = (session_new \<lparr>sc_sender_comp_id = ''US'', sc_target_comp_id = ''THEM'',
     sc_heartbeat_secs = 30, sc_reset_on_logon = False\<rparr> store_new)\<lparr>fs_state := LoggedIn, fs_last_recv_at := Some 0\<rparr>"

definition demo_report :: "string \<Rightarrow> message" where
  "demo_report n = msg_set MSG_SEQ_NUM n (msg_new ''8'')"

lemmas demo_eval = demo_session_def demo_report_def session_new_def store_new_def in_memory_def on_message_def
  dispatch_def advance_def send_session_msg_def seq_of_def parsed_u64_def parse_u64_def parse_unsigned_def
  digits_value_def is_digit_def msg_get_def msg_set_def msg_new_def send_app_def fix_tick_def tick_heartbeat_def
  tick_test_request_def tick_watchdog_def duration_since_def heartbeat_ns_def Let_def

text \<open>
  C10: application messages are delivered in order and at most once. Over any sequence of driver
  calls and inbound messages (a new logon and an inbound SequenceReset set the expected number and
  are left out), the sequence numbers of the delivered messages strictly increase, and each lies
  between the expected number at the start and the one at the end. So a message that arrives
  early, late or twice is never handed to the application out of turn.
\<close>

theorem in_order_delivery:
  assumes "list_all in_sequence ins"
    and "unat (st_expected_recv in_memory (fs_store s)) + length ins < 2 ^ 64"
    and "session_run in_memory ins s = (acts, s')"
  shows "sorted_wrt (<) (delivered acts)
    \<and> (\<forall>n \<in> set (delivered acts). st_expected_recv in_memory (fs_store s) \<le> n
          \<and> n < st_expected_recv in_memory (fs_store s'))"
  using memory.run_in_sequence [OF assms] by blast

theorem in_order_delivery_witness:
  "let ins = [Inbound (demo_report ''1'') 1 ''t'', Inbound (demo_report ''3'') 2 ''t'', Inbound (demo_report ''2'') 3 ''t''];
       acts = fst (session_run in_memory ins demo_session)
   in delivered acts = [1, 2] \<and> sorted_wrt (<) (delivered acts)"
proof -
  let ?ins = "[Inbound (demo_report ''1'') 1 ''t'', Inbound (demo_report ''3'') 2 ''t'', Inbound (demo_report ''2'') 3 ''t'']"
  have "delivered (fst (session_run in_memory ?ins demo_session)) = [1, 2]"
    by (simp add: demo_eval)
  moreover have "list_all in_sequence ?ins" by (simp add: demo_eval)
  moreover have "unat (st_expected_recv in_memory (fs_store demo_session)) + length ?ins < 2 ^ 64"
    by (simp add: demo_eval)
  ultimately show ?thesis
    using in_order_delivery [of ?ins demo_session] by (simp add: prod_eq_iff)
qed

text \<open>
  Outgoing sequence numbers have no gaps. Over any sequence of calls without a new logon, the
  messages sent carry consecutive numbers starting at the store's next number, in the order they
  are handed to the transport, and the store ends just past the last one used.
\<close>

theorem outgoing_consecutive:
  assumes "list_all (\<lambda>i. \<not> is_logon i) ins" and "session_run in_memory ins s = (acts, s')"
  shows "numbered (fs_config s) (st_peek_send in_memory (fs_store s)) acts
    \<and> st_peek_send in_memory (fs_store s') = st_peek_send in_memory (fs_store s) + of_nat (sends acts)"
  using memory.run_outgoing [OF assms(1), of s] assms(2) by (simp add: outgoing_def)

theorem outgoing_consecutive_witness:
  "let acts = fst (session_run in_memory [Tick 40000000000 ''t'', App (msg_new ''D'') 1 ''t''] demo_session)
   in sends acts = 3 \<and> numbered (fs_config demo_session) 1 acts"
proof -
  let ?ins = "[Tick 40000000000 ''t'', App (msg_new ''D'') 1 ''t'']"
  have "test_request_after (fs_config demo_session) = 36000000000" by code_simp
  then have "sends (fst (session_run in_memory ?ins demo_session)) = 3" by (simp add: demo_eval)
  moreover have "list_all (\<lambda>i. \<not> is_logon i) ?ins" by simp
  moreover have "st_peek_send in_memory (fs_store demo_session) = 1" by (simp add: demo_eval)
  ultimately show ?thesis using outgoing_consecutive [of ?ins demo_session] by (simp add: prod_eq_iff)
qed

text \<open>
  A dead peer is detected. Take a logged-in session last heard from its peer at t0 with no test
  request outstanding, whatever application messages it goes on sending. If the driver ticks at
  some t1 more than the test-request timeout after t0, and again at some t2 more than one
  heartbeat interval after t1, with nothing received, the session ends disconnected.
\<close>

theorem dead_peer_detected:
  assumes "fs_state s = LoggedIn" and "fs_last_recv_at s = Some t0"
    and "fs_outstanding_test_req_id s = None" and "fs_outstanding_test_req_sent_at s = None"
    and "list_all own_call (xs @ ys)" and "list_all (\<lambda>i. call_time i \<le> t1) xs"
    and "test_request_after (fs_config s) < duration_since t1 t0"
    and "heartbeat_ns (fs_config s) < duration_since t2 t1"
    and "session_run in_memory (xs @ [Tick t1 u] @ ys @ [Tick t2 v]) s = (acts, s')"
  shows "fs_state s' = Disconnected"
proof -
  let ?cfg = "fs_config s"
  have split: "\<exists>acts' s1. session_run in_memory xs s = (acts', s1)" for xs and s :: "in_memory_seq_store fix_session"
    by (rule prod.exhaust [of "session_run in_memory xs s"]) blast
  obtain a1 s1 where r1: "session_run in_memory xs s = (a1, s1)" using split by blast
  obtain a2 s2 where r2: "session_step in_memory (Tick t1 u) s1 = (a2, s2)" by (rule prod.exhaust)
  obtain a3 s3 where r3: "session_run in_memory ys s2 = (a3, s3)" using split by blast
  obtain a4 s4 where r4: "session_step in_memory (Tick t2 v) s3 = (a4, s4)" by (rule prod.exhaust)
  have s4: "s' = s4" using assms(9) r1 r2 r3 r4 by (simp add: session_run_append del: session_step.simps)
  have "waiting ?cfg t0 t1 s" using assms(1-4) by (simp add: waiting_def)
  then have w1: "waiting ?cfg t0 t1 s1" using memory.own_calls_waiting [OF _ _ r1] assms(5,6) by auto
  then have w2: "waiting ?cfg t0 t1 s2" using memory.own_call_waiting(1) [OF _ _ r2] by simp
  have t2: "fix_tick in_memory t1 u s1 = (a2, s2)" using r2 by simp
  have "armed s2"
    using w1 memory.tick_effect(4) [OF _ t2] assms(7) t2 by (auto simp: waiting_def armed_def fix_tick_def)
  then have a3: "armed s3" "waiting ?cfg t0 t1 s3"
    using memory.own_calls_waiting [OF w2 _ r3] assms(5) by auto
  show ?thesis
  proof (cases "fs_state s3 = Disconnected")
    case True
    then show ?thesis using r4 s4 by (auto simp: fix_tick_def)
  next
    case False
    then have l: "fs_state s3 = LoggedIn" using a3(2) by (auto simp: waiting_def)
    from a3 False obtain w where "fs_outstanding_test_req_sent_at s3 = Some w" "w \<le> t1" "fs_outstanding_test_req_id s3 \<noteq> None"
      "fs_config s3 = ?cfg" by (auto simp: waiting_def armed_def)
    moreover then have "heartbeat_ns ?cfg < duration_since t2 w" using assms(8) by (auto simp: duration_since_def)
    ultimately show ?thesis using memory.tick_effect(5) [OF l] r4 s4 by simp
  qed
qed

theorem dead_peer_detected_witness:
  "let ins = [App (msg_new ''D'') 10000000000 ''t''] @ [Tick 37000000000 ''t''] @ [Tick 50000000000 ''t''] @ [Tick 70000000000 ''t'']
   in fs_state (snd (session_run in_memory ins demo_session)) = Disconnected
      \<and> fs_state (snd (session_run in_memory (butlast ins) demo_session)) = LoggedIn"
proof -
  let ?xs = "[App (msg_new ''D'') 10000000000 ''t'']" and ?ys = "[Tick 50000000000 ''t'']"
  let ?ins = "?xs @ [Tick 37000000000 ''t''] @ ?ys @ [Tick 70000000000 ''t'']"
  have timeout: "test_request_after (fs_config demo_session) = 36000000000" by code_simp
  have "fs_state demo_session = LoggedIn" "fs_last_recv_at demo_session = Some 0"
    "fs_outstanding_test_req_id demo_session = None" "fs_outstanding_test_req_sent_at demo_session = None"
    "list_all own_call (?xs @ ?ys)" "list_all (\<lambda>i. call_time i \<le> 37000000000) ?xs"
    "test_request_after (fs_config demo_session) < duration_since 37000000000 0"
    "heartbeat_ns (fs_config demo_session) < duration_since 70000000000 37000000000"
    using timeout by (simp_all add: demo_eval)
  from dead_peer_detected [OF this] have "fs_state (snd (session_run in_memory ?ins demo_session)) = Disconnected"
    by (metis prod.collapse)
  moreover have "fs_state (snd (session_run in_memory (butlast ?ins) demo_session)) = LoggedIn"
    using timeout by (simp add: demo_eval)
  ultimately show ?thesis by simp
qed

text \<open>
  A gap between two sessions of this engine never closes. When the messages of peer b up to its next
  number have not all reached a, and b answers a resend request of a, the answer is a gap fill
  that itself carries b's next number, so at a it is above the expected number again: a does not
  act on it, sends one more resend request, and the gap has grown by one.
\<close>

theorem resend_gap_grows:
  assumes "im_expected_recv (fs_store a) < im_next_send (fs_store b)"
    and "im_next_send (fs_store b) < im_next_send (fs_store b) + 1"
    and "msg_type rr = ''2''" and "seq_of rr = im_expected_recv (fs_store b)"
    and "clean (sc_sender_comp_id (fs_config b))" and "clean (sc_target_comp_id (fs_config b))" and "clean t"
    and "on_message in_memory rr now t b = (out, b')"
    and "map (\<lambda>x. case x of Send w \<Rightarrow> decode w | _ \<Rightarrow> Inl MsgTypeMissing) out = [Inr reply]"
    and "on_message in_memory reply now' t' a = (out', a')"
  shows "(\<exists>bytes. out' = [Send bytes]) \<and> im_expected_recv (fs_store a') = im_expected_recv (fs_store a)
    \<and> im_expected_recv (fs_store a') < im_next_send (fs_store b')
    \<and> im_next_send (fs_store b') = im_next_send (fs_store b) + 1"
proof -
  note ops = in_memory_def send_session_msg_def
  define sr where "sr = msg_set 36 (show_nat (unat (max (parsed_u64 rr 16 0) (parsed_u64 rr 7 0) + 1))) (msg_set 123 ''Y'' (msg_new ''4''))"
  have b: "out = [Send (encode sr (sc_sender_comp_id (fs_config b)) (sc_target_comp_id (fs_config b)) (im_next_send (fs_store b)) t)]"
    "im_next_send (fs_store b') = im_next_send (fs_store b) + 1"
    using assms(8,3,4) by (auto simp: on_message_def dispatch_def ops advance_def Let_def sr_def seq_of_def)
  have "clean_message sr"
    using digits_are_clean [OF conjunct1 [OF show_nat_digits]]
    by (simp add: sr_def clean_message_def msg_set_def msg_new_def clean_def utf8_ascii)
  then have "msg_get reply MSG_SEQ_NUM = Some (show_nat (unat (im_next_send (fs_store b))))"
    using decoded_seq(1) [of sr, OF _ assms(5-7)] assms(9) b(1) by simp
  then have "parsed_u64 reply MSG_SEQ_NUM 0 = im_next_send (fs_store b)"
    by (simp add: parsed_u64_def parse_show_u64)
  then show ?thesis
    using assms(1,2,10) b(2) by (auto simp: on_message_def ops Let_def)
qed

definition demo_peer :: "in_memory_seq_store fix_session" where
  "demo_peer = demo_session\<lparr>fs_store := \<lparr>im_next_send = 5, im_expected_recv = 1\<rparr>\<rparr>"

definition demo_resend :: message where
  "demo_resend = msg_set MSG_SEQ_NUM ''1'' (msg_set 16 ''0'' (msg_set 7 ''1'' (msg_new ''2'')))"

theorem resend_gap_grows_witness:
  "\<exists>out b' reply out' a'. on_message in_memory demo_resend 0 ''t'' demo_peer = (out, b')
     \<and> map (\<lambda>x. case x of Send w \<Rightarrow> decode w | _ \<Rightarrow> Inl MsgTypeMissing) out = [Inr reply]
     \<and> on_message in_memory reply 0 ''t'' demo_session = (out', a')
     \<and> im_expected_recv (fs_store a') = 1 \<and> im_next_send (fs_store b') = 6"
proof -
  let ?sr = "msg_set 36 (show_nat 2) (msg_set 123 ''Y'' (msg_new ''4''))"
  obtain out b' where r: "on_message in_memory demo_resend 0 ''t'' demo_peer = (out, b')" by (rule prod.exhaust)
  have out: "out = [Send (encode ?sr ''US'' ''THEM'' 5 ''t'')]"
    using r by (auto simp: demo_peer_def demo_resend_def demo_eval)
  have cl: "clean ''US''" "clean ''THEM''" "clean ''t''" by (simp_all add: clean_def utf8_ascii)
  have "clean_message ?sr"
    using digits_are_clean [OF conjunct1 [OF show_nat_digits]]
    by (simp add: clean_message_def msg_set_def msg_new_def clean_def utf8_ascii)
  then obtain reply where d: "decode (encode ?sr ''US'' ''THEM'' 5 ''t'') = Inr reply"
    using decode_encode_fields [OF _ cl] by blast
  obtain out' a' where r': "on_message in_memory reply 0 ''t'' demo_session = (out', a')" by (rule prod.exhaust)
  have m: "map (\<lambda>x. case x of Send w \<Rightarrow> decode w | _ \<Rightarrow> Inl MsgTypeMissing) out = [Inr reply]"
    using out d by simp
  have ids: "sc_sender_comp_id (fs_config demo_peer) = ''US''" "sc_target_comp_id (fs_config demo_peer) = ''THEM''"
    by (simp_all add: demo_peer_def demo_eval)
  have st: "im_next_send (fs_store demo_peer) = 5" "im_expected_recv (fs_store demo_session) = 1"
    by (simp_all add: demo_peer_def demo_eval)
  have rr: "msg_type demo_resend = ''2''" "seq_of demo_resend = im_expected_recv (fs_store demo_peer)"
    by (simp_all add: demo_peer_def demo_resend_def demo_eval)
  have fin: "im_expected_recv (fs_store a') = 1 \<and> im_next_send (fs_store b') = 6"
    using resend_gap_grows [OF _ _ rr _ _ cl(3) r m r'] by (simp add: ids cl st)
  show ?thesis by (intro exI conjI, rule r, rule m, rule r') (use fin in simp_all)
qed

end
