(* ===== verification/Std_Json.thy ===== *)
theory Std_Json
  imports Mm_Prelude
begin

section \<open>JSON values\<close>

text \<open>
  The values of \<^verbatim>\<open>serde_json\<close> and the accessors the code uses. An object lists its entries in key
  order, each key once.
\<close>

datatype json_number = PosInt u64 | NegInt int | Float decimal

datatype json =
  JNull | JBool bool | JNumber json_number | JString string | JArray "json list" | JObject "(string \<times> json) list"

type_synonym json_map = "(string \<times> json) list"

fun is_number :: "json \<Rightarrow> bool" where
  "is_number (JNumber _) = True"
| "is_number _ = False"

fun is_integer :: "json \<Rightarrow> bool" where
  "is_integer (JNumber (Float _)) = False"
| "is_integer (JNumber _) = True"
| "is_integer _ = False"

fun is_boolean :: "json \<Rightarrow> bool" where
  "is_boolean (JBool _) = True"
| "is_boolean _ = False"

fun as_str :: "json \<Rightarrow> string option" where
  "as_str (JString s) = Some s"
| "as_str _ = None"

fun json_as_bool :: "json \<Rightarrow> bool option" where
  "json_as_bool (JBool b) = Some b"
| "json_as_bool _ = None"

fun json_as_u64 :: "json \<Rightarrow> u64 option" where
  "json_as_u64 (JNumber (PosInt n)) = Some n"
| "json_as_u64 _ = None"

end
