(* ===== verification/Strategy_Graph.thy ===== *)
theory Strategy_Graph
  imports Std_Maps Std_Text Std_Json "HOL-Library.Char_ord" "HOL-Library.List_Lexorder"
begin

section \<open>Strategy graphs\<close>

text \<open>
  \<^verbatim>\<open>crates/strategy-graph/src/graph.rs\<close> with the types of \<^verbatim>\<open>types.rs\<close> and \<^verbatim>\<open>node.rs\<close> it uses: the
  operator-authored graph, its validation and the topological sort.

  \<^item> The catalog is a closure in the code and an argument here; so is the environment variable
    that admits restricted nodes. A node's canvas position is not read and is left out.
  \<^item> Hash maps built during validation are iterated in an unspecified order. The iteration orders
    that reach the result are the arguments \<open>ord_fan\<close> and \<open>ord_deg\<close>, arbitrary permutations.
  \<^item> A panic of the code (\<^verbatim>\<open>expect\<close> on a missing entry, a counter decremented below zero) is
    \<^term>\<open>None\<close>; counters are natural numbers, bounded by the number of edges.
\<close>

subsection \<open>Types\<close>

type_synonym node_id = uuid

datatype port_type =
  NumberT | BoolT | UnitT | StringT | KillLevelT | StrategyKindT | PairClassT | QuotesT

record port_ref =
  pr_node :: node_id
  pr_port :: string

record edge =
  e_from :: port_ref
  e_to :: port_ref

datatype config_widget =
    NumberW "decimal option" "decimal option" "decimal option"
  | IntegerW "int option" "int option"
  | TextW
  | BoolW
  | EnumW "(string \<times> string) list"

record config_field =
  cf_name :: string
  cf_label :: string
  cf_hint :: "string option"
  cf_default :: json
  cf_widget :: config_widget

datatype scope = SymbolScope string | AssetClass string | ClientScope string | GlobalScope

record node =
  n_id :: node_id
  n_kind :: string
  n_config :: json

record graph =
  g_version :: u32
  g_name :: string
  g_scope :: scope
  g_nodes :: "node list"
  g_edges :: "edge list"
  g_stale_hold_ms :: u64

definition CURRENT_SCHEMA_VERSION :: u32 where
  "CURRENT_SCHEMA_VERSION = 1"

definition MAX_GRAPH_DEPTH :: nat where
  "MAX_GRAPH_DEPTH = 128"

datatype validation_error =
    UnsupportedVersion u32 u32
  | DuplicateNodeId node_id
  | DanglingEdge node_id string node_id string
  | PortTypeMismatch node_id string node_id string port_type port_type
  | Cycle node_id
  | MultipleInputs node_id string nat
  | NoSpreadMultSink
  | DepthExceeded nat nat
  | UnknownKind string
  | RestrictedNotAllowed string
  | UnknownConfigField node_id string string "string list"
  | InvalidConfigFieldType node_id string string string string
  | InvalidConfigEnumValue node_id string string string "string list"
  | UnknownVenue node_id string string string "string list"

record topo_order =
  to_order :: "node_id list"
  to_depth :: nat

record kind_shape =
  sh_inputs :: "(string \<times> port_type) list"
  sh_outputs :: "(string \<times> port_type) list"
  sh_restricted :: bool
  sh_config_schema :: "config_field list"

definition empty_graph :: "string \<Rightarrow> scope \<Rightarrow> graph" where
  "empty_graph name sc = \<lparr>g_version = CURRENT_SCHEMA_VERSION, g_name = name, g_scope = sc, g_nodes = [],
     g_edges = [], g_stale_hold_ms = 30000\<rparr>"

definition graph_node :: "graph \<Rightarrow> node_id \<Rightarrow> node option" where
  "graph_node g i = find (\<lambda>n. n_id n = i) (g_nodes g)"

definition shape_input :: "kind_shape \<Rightarrow> string \<Rightarrow> port_type option" where
  "shape_input sh name = map_option snd (find (\<lambda>(n, _). n = name) (sh_inputs sh))"

definition shape_output :: "kind_shape \<Rightarrow> string \<Rightarrow> port_type option" where
  "shape_output sh name = map_option snd (find (\<lambda>(n, _). n = name) (sh_outputs sh))"

subsection \<open>Node configuration\<close>

fun describe_json_type :: "json \<Rightarrow> string" where
  "describe_json_type JNull = ''null''"
| "describe_json_type (JBool _) = ''bool''"
| "describe_json_type (JNumber _) = ''number''"
| "describe_json_type (JString _) = ''string''"
| "describe_json_type (JArray _) = ''array''"
| "describe_json_type (JObject _) = ''object''"

text \<open>Whether a present field value fits its widget; an enumeration is checked separately.\<close>

definition widget_accepts :: "config_widget \<Rightarrow> json \<Rightarrow> bool" where
  "widget_accepts w v =
     (case w of
        NumberW _ _ _ \<Rightarrow> is_number v \<or> (case as_str v of None \<Rightarrow> False | Some s \<Rightarrow> parse_f64_ok s)
      | IntegerW _ _ \<Rightarrow> is_integer v \<or> (case as_str v of None \<Rightarrow> False | Some s \<Rightarrow> parse_i64_ok s)
      | TextW \<Rightarrow> as_str v \<noteq> None
      | BoolW \<Rightarrow> is_boolean v
      | EnumW options \<Rightarrow> (case as_str v of None \<Rightarrow> False | Some s \<Rightarrow> s \<in> fst ` set options))"

definition widget_expects :: "config_widget \<Rightarrow> string" where
  "widget_expects w =
     (case w of NumberW _ _ _ \<Rightarrow> ''number'' | IntegerW _ _ \<Rightarrow> ''integer'' | TextW \<Rightarrow> ''string''
        | BoolW \<Rightarrow> ''bool'' | EnumW _ \<Rightarrow> ''enum'')"

fun check_fields :: "node \<Rightarrow> (string \<times> json) list \<Rightarrow> config_field list \<Rightarrow> validation_error option" where
  "check_fields n cfg [] = None"
| "check_fields n cfg (f # fs) =
     (case map_of cfg (cf_name f) of
        None \<Rightarrow> check_fields n cfg fs
      | Some JNull \<Rightarrow> check_fields n cfg fs
      | Some v \<Rightarrow>
          (case (cf_widget f, as_str v) of
             (EnumW options, None) \<Rightarrow>
               Some (InvalidConfigFieldType (n_id n) (n_kind n) (cf_name f) ''enum string'' (describe_json_type v))
           | (EnumW options, Some s) \<Rightarrow>
               if s \<in> fst ` set options then check_fields n cfg fs
               else Some (InvalidConfigEnumValue (n_id n) (n_kind n) (cf_name f) s (map fst options))
           | (w, _) \<Rightarrow>
               if widget_accepts w v then check_fields n cfg fs
               else Some (InvalidConfigFieldType (n_id n) (n_kind n) (cf_name f) (widget_expects w)
                            (describe_json_type v))))"

definition validate_node_config :: "node \<Rightarrow> kind_shape \<Rightarrow> validation_error option" where
  "validate_node_config n sh =
     (case n_config n of
        JObject cfg \<Rightarrow>
          if sh_config_schema sh = [] then None
          else let allowed = remdups (map cf_name (sh_config_schema sh))
               in case find (\<lambda>k. k \<notin> set allowed) (map fst cfg) of
                    Some k \<Rightarrow> Some (UnknownConfigField (n_id n) (n_kind n) k allowed)
                  | None \<Rightarrow> check_fields n cfg (sh_config_schema sh)
      | _ \<Rightarrow> None)"

subsection \<open>The checks of validate\<close>

fun check_ids :: "node list \<Rightarrow> node_id list \<Rightarrow> validation_error option" where
  "check_ids [] seen = None"
| "check_ids (n # ns) seen =
     (if n_id n \<in> set seen then Some (DuplicateNodeId (n_id n)) else check_ids ns (n_id n # seen))"

fun resolve_nodes ::
  "(string \<Rightarrow> kind_shape option) \<Rightarrow> bool \<Rightarrow> node list \<Rightarrow> (node_id, kind_shape) hash_map
    \<Rightarrow> validation_error + (node_id, kind_shape) hash_map" where
  "resolve_nodes resolve_kind allow_restricted [] shapes = Inr shapes"
| "resolve_nodes resolve_kind allow_restricted (n # ns) shapes =
     (case resolve_kind (n_kind n) of
        None \<Rightarrow> Inl (UnknownKind (n_kind n))
      | Some sh \<Rightarrow>
          if sh_restricted sh \<and> \<not> allow_restricted then Inl (RestrictedNotAllowed (n_kind n))
          else case validate_node_config n sh of
                 Some e \<Rightarrow> Inl e
               | None \<Rightarrow> resolve_nodes resolve_kind allow_restricted ns (hm_insert (n_id n) sh shapes))"

definition bump :: "'k \<Rightarrow> ('k, nat) hash_map \<Rightarrow> ('k, nat) hash_map" where
  "bump k m = hm_insert k ((case hm_get m k of None \<Rightarrow> 0 | Some c \<Rightarrow> c) + 1) m"

definition edge_target :: "edge \<Rightarrow> node_id \<times> string" where
  "edge_target e = (pr_node (e_to e), pr_port (e_to e))"

definition fan_in :: "edge list \<Rightarrow> (node_id \<times> string, nat) hash_map" where
  "fan_in es = fold (\<lambda>e. bump (edge_target e)) es []"

definition dangling :: "edge \<Rightarrow> validation_error" where
  "dangling e = DanglingEdge (pr_node (e_from e)) (pr_port (e_from e)) (pr_node (e_to e)) (pr_port (e_to e))"

definition check_edge :: "(node_id, kind_shape) hash_map \<Rightarrow> edge \<Rightarrow> validation_error option" where
  "check_edge shapes e =
     (case hm_get shapes (pr_node (e_from e)) of
        None \<Rightarrow> Some (dangling e)
      | Some src \<Rightarrow>
          case hm_get shapes (pr_node (e_to e)) of
            None \<Rightarrow> Some (dangling e)
          | Some dst \<Rightarrow>
              case shape_output src (pr_port (e_from e)) of
                None \<Rightarrow> Some (dangling e)
              | Some src_ty \<Rightarrow>
                  case shape_input dst (pr_port (e_to e)) of
                    None \<Rightarrow> Some (dangling e)
                  | Some dst_ty \<Rightarrow>
                      if src_ty \<noteq> dst_ty
                      then Some (PortTypeMismatch (pr_node (e_from e)) (pr_port (e_from e)) (pr_node (e_to e))
                                   (pr_port (e_to e)) src_ty dst_ty)
                      else None)"

fun check_edges :: "(node_id, kind_shape) hash_map \<Rightarrow> edge list \<Rightarrow> validation_error option" where
  "check_edges shapes [] = None"
| "check_edges shapes (e # es) =
     (case check_edge shapes e of Some err \<Rightarrow> Some err | None \<Rightarrow> check_edges shapes es)"

subsection \<open>Topological sort\<close>

type_synonym degrees = "(node_id, nat) hash_map"
type_synonym successors = "(node_id, node_id list) hash_map"

definition indegrees :: "graph \<Rightarrow> degrees" where
  "indegrees g = fold (\<lambda>e. bump (pr_node (e_to e))) (g_edges g) (fold (\<lambda>n. hm_insert (n_id n) 0) (g_nodes g) [])"

definition add_successor :: "edge \<Rightarrow> successors \<Rightarrow> successors" where
  "add_successor e m =
     hm_insert (pr_node (e_from e))
       ((case hm_get m (pr_node (e_from e)) of None \<Rightarrow> [] | Some cs \<Rightarrow> cs) @ [pr_node (e_to e)]) m"

definition forward :: "graph \<Rightarrow> successors" where
  "forward g = fold add_successor (g_edges g) (fold (\<lambda>n. hm_insert (n_id n) []) (g_nodes g) [])"

definition children :: "successors \<Rightarrow> node_id \<Rightarrow> node_id list" where
  "children fwd i = (case hm_get fwd i of None \<Rightarrow> [] | Some cs \<Rightarrow> cs)"

fun relax :: "node_id list \<Rightarrow> degrees \<Rightarrow> node_id list \<Rightarrow> (degrees \<times> node_id list) option" where
  "relax [] indeg ready = Some (indeg, ready)"
| "relax (c # cs) indeg ready =
     (case hm_get indeg c of
        None \<Rightarrow> None
      | Some 0 \<Rightarrow> None
      | Some (Suc d) \<Rightarrow> relax cs (hm_insert c d indeg) (if d = 0 then ready @ [c] else ready))"

definition degree_sum :: "degrees \<Rightarrow> nat" where
  "degree_sum m = sum_list (map snd m)"

lemma degree_sum_insert:
  "hm_get m c = Some (Suc d) \<Longrightarrow> Suc (degree_sum (hm_insert c d m)) = degree_sum m"
  unfolding hm_get_def hm_insert_def degree_sum_def by (induction m) (auto split: if_splits)

lemma relax_measure:
  "relax cs indeg ready = Some (indeg', ready') \<Longrightarrow>
     2 * degree_sum indeg' + length ready' \<le> 2 * degree_sum indeg + length ready"
proof (induction cs indeg ready rule: relax.induct)
  case (2 c cs indeg ready)
  then obtain d where d: "hm_get indeg c = Some (Suc d)" by (auto split: option.splits nat.splits)
  then have "2 * degree_sum indeg' + length ready'
      \<le> 2 * degree_sum (hm_insert c d indeg) + length (if d = 0 then ready @ [c] else ready)"
    using "2.IH" [OF d refl] "2.prems" by simp
  then show ?case using degree_sum_insert [OF d] by (auto split: if_splits)
qed simp

function kahn :: "successors \<Rightarrow> degrees \<Rightarrow> node_id list \<Rightarrow> node_id list \<Rightarrow> (node_id list \<times> degrees) option" where
  "kahn fwd indeg [] order = Some (order, indeg)"
| "kahn fwd indeg (i # ready) order =
     (case relax (children fwd i) indeg ready of
        None \<Rightarrow> None
      | Some (indeg', ready') \<Rightarrow> kahn fwd indeg' ready' (order @ [i]))"
  by pat_completeness auto

termination
  by (relation "measure (\<lambda>(_, indeg, ready, _). 2 * degree_sum indeg + length ready)")
    (auto dest!: relax_measure [OF sym] relax_measure)

definition deepen :: "nat \<Rightarrow> node_id \<Rightarrow> degrees \<Rightarrow> degrees" where
  "deepen d c depth =
     (let cur = (case hm_get depth c of None \<Rightarrow> 0 | Some e \<Rightarrow> e)
      in hm_insert c (if cur < d + 1 then d + 1 else cur) depth)"

definition longest_path_length :: "node_id list \<Rightarrow> successors \<Rightarrow> nat" where
  "longest_path_length order fwd =
     (let depth = fold (\<lambda>i depth. fold (deepen (case hm_get depth i of None \<Rightarrow> 0 | Some d \<Rightarrow> d)) (children fwd i) depth)
                    order (fold (\<lambda>i. hm_insert i 0) order [])
      in fold max (map snd depth) 0)"

subsection \<open>Validation\<close>

text \<open>
  The last two steps of \<^verbatim>\<open>validate\<close>: the sort with its cycle test, then the depth bound and the
  mandatory sink. \<open>fresh\<close> is the value \<^verbatim>\<open>NodeId::default()\<close> would return.
\<close>

definition sort_and_bound ::
  "(degrees \<Rightarrow> degrees) \<Rightarrow> node_id \<Rightarrow> graph \<Rightarrow> (validation_error + topo_order) option" where
  "sort_and_bound ord_deg fresh g =
     (let ready = map fst (filter (\<lambda>(_, d). d = 0) (ord_deg (indegrees g)))
      in case kahn (forward g) (indegrees g) ready [] of
           None \<Rightarrow> None
         | Some (order, indeg) \<Rightarrow>
             Some
               (if length order \<noteq> length (g_nodes g)
                then Inl (Cycle (case find (\<lambda>(_, d). 0 < d) (ord_deg indeg) of Some (i, _) \<Rightarrow> i | None \<Rightarrow> fresh))
                else let depth = longest_path_length order (forward g)
                     in if MAX_GRAPH_DEPTH < depth then Inl (DepthExceeded depth MAX_GRAPH_DEPTH)
                        else if \<not> list_ex (\<lambda>n. n_kind n = ''Out.SpreadMult'') (g_nodes g) then Inl NoSpreadMultSink
                        else Inr \<lparr>to_order = order, to_depth = depth\<rparr>))"

definition validate ::
  "((node_id \<times> string, nat) hash_map \<Rightarrow> (node_id \<times> string, nat) hash_map) \<Rightarrow> (degrees \<Rightarrow> degrees)
    \<Rightarrow> (string \<Rightarrow> kind_shape option) \<Rightarrow> bool \<Rightarrow> node_id \<Rightarrow> graph \<Rightarrow> (validation_error + topo_order) option" where
  "validate ord_fan ord_deg resolve_kind allow_restricted fresh g =
     (if g_version g \<noteq> CURRENT_SCHEMA_VERSION
      then Some (Inl (UnsupportedVersion (g_version g) CURRENT_SCHEMA_VERSION))
      else case check_ids (g_nodes g) [] of
        Some e \<Rightarrow> Some (Inl e)
      | None \<Rightarrow>
          case resolve_nodes resolve_kind allow_restricted (g_nodes g) [] of
            Inl e \<Rightarrow> Some (Inl e)
          | Inr shapes \<Rightarrow>
              case find (\<lambda>(_, c). 1 < c) (ord_fan (fan_in (g_edges g))) of
                Some ((t, port), c) \<Rightarrow> Some (Inl (MultipleInputs t port c))
              | None \<Rightarrow>
                  case check_edges shapes (g_edges g) of
                    Some e \<Rightarrow> Some (Inl e)
                  | None \<Rightarrow> sort_and_bound ord_deg fresh g)"

text \<open>\<^verbatim>\<open>validate_venues\<close>: venue names are compared in lower case (ASCII).\<close>

definition venue_fields :: "string list" where
  "venue_fields = [''venue'', ''spot_venue'', ''perp_venue'']"

fun check_venue_fields ::
  "string list \<Rightarrow> node \<Rightarrow> (string \<times> json) list \<Rightarrow> string list \<Rightarrow> validation_error option" where
  "check_venue_fields known n obj [] = None"
| "check_venue_fields known n obj (f # fs) =
     (case Option.bind (map_of obj f) as_str of
        None \<Rightarrow> check_venue_fields known n obj fs
      | Some v \<Rightarrow>
          if v = [] then check_venue_fields known n obj fs
          else if lower v \<notin> set known then Some (UnknownVenue (n_id n) (n_kind n) f v known)
          else check_venue_fields known n obj fs)"

fun check_venues :: "string list \<Rightarrow> node list \<Rightarrow> validation_error option" where
  "check_venues known [] = None"
| "check_venues known (n # ns) =
     (case n_config n of
        JObject obj \<Rightarrow>
          (case check_venue_fields known n obj venue_fields of
             Some e \<Rightarrow> Some e
           | None \<Rightarrow> check_venues known ns)
      | _ \<Rightarrow> check_venues known ns)"

definition validate_venues :: "string list \<Rightarrow> graph \<Rightarrow> validation_error option" where
  "validate_venues known g = check_venues (sort (remdups (map lower known))) (g_nodes g)"

subsection \<open>Counting maps\<close>

lemma bump_get:
  "hm_ok m \<Longrightarrow> hm_get (bump k m) = (hm_get m)(k \<mapsto> (case hm_get m k of None \<Rightarrow> 0 | Some c \<Rightarrow> c) + 1)"
  by (simp add: bump_def hm_simps)

lemma bump_ok: "hm_ok m \<Longrightarrow> hm_ok (bump k m)"
  by (simp add: bump_def hm_simps)

lemma bumps_ok: "hm_ok m \<Longrightarrow> hm_ok (fold (\<lambda>e. bump (f e)) es m)"
  by (induction es arbitrary: m) (simp_all add: bump_ok)

lemma bumps_get:
  assumes "hm_ok m"
  shows "hm_get (fold (\<lambda>e. bump (f e)) es m) k =
    (if count_list (map f es) k = 0 then hm_get m k
     else Some ((case hm_get m k of None \<Rightarrow> 0 | Some c \<Rightarrow> c) + count_list (map f es) k))"
  using assms
proof (induction es arbitrary: m)
  case (Cons e es)
  then show ?case by (auto simp: bump_ok bump_get split: option.splits)
qed simp

text \<open>A search that fails has seen every entry, whatever the iteration order.\<close>

lemma find_order: "set m' = set m \<Longrightarrow> find P m' = None \<longleftrightarrow> (\<forall>x \<in> set m. \<not> P x)"
  by (auto simp: find_None_iff)

lemma distinct_count_list: "distinct xs \<longleftrightarrow> (\<forall>k. count_list xs k \<le> 1)"
  by (induction xs) (auto simp: count_list_0_iff [symmetric] le_Suc_eq)

lemma fan_in_distinct:
  assumes "set (ord (fan_in es)) = set (fan_in es)"
  shows "find (\<lambda>(_, c). 1 < c) (ord (fan_in es)) = None \<longleftrightarrow> distinct (map edge_target es)"
proof -
  have ok: "hm_ok (fan_in es)" by (simp add: fan_in_def bumps_ok)
  have get: "hm_get (fan_in es) k = (if count_list (map edge_target es) k = 0 then None
      else Some (count_list (map edge_target es) k))" for k
    by (simp add: fan_in_def bumps_get)
  have "(\<forall>x \<in> set (fan_in es). \<not> (case x of (_, c) \<Rightarrow> 1 < c)) \<longleftrightarrow>
      (\<forall>k c. hm_get (fan_in es) k = Some c \<longrightarrow> c \<le> 1)"
    unfolding hm.all_entries [OF ok] by (simp add: not_less)
  also have "\<dots> \<longleftrightarrow> (\<forall>k. count_list (map edge_target es) k \<le> 1)"
    unfolding get by (metis nle_le option.discI option.inject zero_le_one)
  also have "\<dots> \<longleftrightarrow> distinct (map edge_target es)" by (rule distinct_count_list [symmetric])
  finally show ?thesis using find_order [OF assms] by simp
qed

subsection \<open>Kahn's algorithm\<close>

text \<open>One pass over the children of a node.\<close>

lemma relax_spec:
  assumes "hm_ok indeg" and "\<And>c. c \<in> set cs \<Longrightarrow> \<exists>d. hm_get indeg c = Some d \<and> count_list cs c \<le> d"
  shows "\<exists>indeg' new. relax cs indeg ready = Some (indeg', ready @ new) \<and> hm_ok indeg' \<and> distinct new
    \<and> set new = {c \<in> set cs. hm_get indeg c = Some (count_list cs c)}
    \<and> (\<forall>n. hm_get indeg' n = map_option (\<lambda>d. d - count_list cs n) (hm_get indeg n))"
  using assms
proof (induction cs arbitrary: indeg ready)
  case Nil
  then show ?case by (auto simp: option.map_ident)
next
  case (Cons c cs)
  obtain d0 where "hm_get indeg c = Some d0" and "Suc (count_list cs c) \<le> d0"
    using Cons.prems(2) [of c] by auto
  then obtain d where d: "hm_get indeg c = Some (Suc d)" and le: "count_list cs c \<le> d"
    by (cases d0) auto
  let ?indeg = "hm_insert c d indeg" and ?ready = "if d = 0 then ready @ [c] else ready"
  have ok: "hm_ok ?indeg" and get: "hm_get ?indeg = (hm_get indeg)(c \<mapsto> d)"
    using Cons.prems(1) by (simp_all add: hm_simps)
  have "\<exists>d'. hm_get ?indeg x = Some d' \<and> count_list cs x \<le> d'" if "x \<in> set cs" for x
    using that Cons.prems(2) [of x] le by (auto simp: get split: if_splits)
  from Cons.IH [OF ok this, of ?ready] obtain indeg' new where
    r: "relax cs ?indeg ?ready = Some (indeg', ?ready @ new)" and ok': "hm_ok indeg'" and dn: "distinct new"
    and sn: "set new = {x \<in> set cs. hm_get ?indeg x = Some (count_list cs x)}"
    and g': "\<And>n. hm_get indeg' n = map_option (\<lambda>d. d - count_list cs n) (hm_get ?indeg n)"
    by blast
  let ?new = "(if d = 0 then [c] else []) @ new"
  have pos: "c \<in> set cs" if "0 < count_list cs c" using that by (rule contrapos_pp) simp
  have z: "c \<notin> set cs" if "d = 0" using le that by (simp add: count_list_0_iff)
  have "relax (c # cs) indeg ready = Some (indeg', ready @ ?new)" using r d by auto
  moreover have "distinct ?new" using dn z sn by auto
  moreover have "set ?new = {x \<in> set (c # cs). hm_get indeg x = Some (count_list (c # cs) x)}"
    using z le d by (auto simp: sn get intro: pos)
  moreover have "hm_get indeg' n = map_option (\<lambda>d. d - count_list (c # cs) n) (hm_get indeg n)" for n
    using d by (simp add: g' get)
  ultimately show ?case using ok' by blast
qed

text \<open>The edges of a graph as pairs of nodes, and what a topological order of them is.\<close>

type_synonym arcs = "(node_id \<times> node_id) list"

definition topo :: "arcs \<Rightarrow> node_id list \<Rightarrow> bool" where
  "topo es order \<longleftrightarrow> (\<forall>us v vs. order = us @ v # vs \<longrightarrow> (\<forall>f. (f, v) \<in> set es \<longrightarrow> f \<in> set us))"

definition waits :: "arcs \<Rightarrow> node_id list \<Rightarrow> node_id \<Rightarrow> nat" where
  "waits es order n = length (filter (\<lambda>(f, t). t = n \<and> f \<notin> set order) es)"

lemma waits_0: "waits es order n = 0 \<longleftrightarrow> (\<forall>f. (f, n) \<in> set es \<longrightarrow> f \<in> set order)"
  by (auto simp: waits_def filter_empty_conv)

lemma waits_snoc:
  "i \<notin> set order \<Longrightarrow> waits es order n = waits es (order @ [i]) n + count_list (map snd (filter (\<lambda>(f, t). f = i) es)) n"
  unfolding waits_def by (induction es) auto

lemma topo_snoc:
  assumes "topo es order" and "\<And>f. (f, i) \<in> set es \<Longrightarrow> f \<in> set order"
  shows "topo es (order @ [i])"
  unfolding topo_def
proof (intro allI impI)
  fix us v vs f
  assume eq: "order @ [i] = us @ v # vs" and "(f, v) \<in> set es"
  then show "f \<in> set us"
    using assms by (cases vs rule: rev_cases) (auto simp: topo_def)
qed

text \<open>The state of the sort: \<open>order\<close> is closed under predecessors, \<open>ready\<close> waits for nothing else.\<close>

definition kahn_inv :: "arcs \<Rightarrow> node_id set \<Rightarrow> degrees \<Rightarrow> node_id list \<Rightarrow> node_id list \<Rightarrow> bool" where
  "kahn_inv es N indeg ready order \<longleftrightarrow>
     hm_ok indeg \<and> distinct (order @ ready) \<and> set (order @ ready) \<subseteq> N \<and> topo es order
     \<and> (\<forall>n \<in> N. hm_get indeg n = Some (waits es order n))
     \<and> (\<forall>n \<in> N. n \<in> set (order @ ready) \<longleftrightarrow> waits es order n = 0)"

lemma kahn_step:
  assumes inv: "kahn_inv es N indeg (i # ready) order" and sub: "set es \<subseteq> N \<times> N"
    and cs: "cs = map snd (filter (\<lambda>(f, t). f = i) es)"
  shows "\<exists>indeg' ready'. relax cs indeg ready = Some (indeg', ready') \<and> kahn_inv es N indeg' ready' (order @ [i])"
proof -
  have ok: "hm_ok indeg" and di: "distinct (order @ i # ready)" and inN: "set (order @ i # ready) \<subseteq> N"
    and tp: "topo es order" and deg: "\<And>n. n \<in> N \<Longrightarrow> hm_get indeg n = Some (waits es order n)"
    and zero: "\<And>n. n \<in> N \<Longrightarrow> n \<in> set (order @ i # ready) \<longleftrightarrow> waits es order n = 0"
    using inv by (auto simp: kahn_inv_def)
  have split: "waits es order n = waits es (order @ [i]) n + count_list cs n" for n
    unfolding cs by (rule waits_snoc) (use di in simp)
  have csN: "set cs \<subseteq> N" using sub by (auto simp: cs)
  have "\<exists>d. hm_get indeg c = Some d \<and> count_list cs c \<le> d" if "c \<in> set cs" for c
    using deg [of c] csN that split [of c] by auto
  from relax_spec [OF ok this, of ready] obtain indeg' new where
    r: "relax cs indeg ready = Some (indeg', ready @ new)" and ok': "hm_ok indeg'" and dn: "distinct new"
    and sn: "set new = {c \<in> set cs. hm_get indeg c = Some (count_list cs c)}"
    and g': "\<And>n. hm_get indeg' n = map_option (\<lambda>d. d - count_list cs n) (hm_get indeg n)" by blast
  have new: "n \<in> set new \<longleftrightarrow> n \<in> set cs \<and> waits es (order @ [i]) n = 0" if "n \<in> N" for n
    using that by (auto simp: sn deg split)
  have late: "n \<notin> set (order @ i # ready)" if "n \<in> set cs" for n
  proof -
    have "0 < count_list cs n" using that by (meson count_list_0_iff neq0_conv)
    then show ?thesis using zero [of n] csN that split [of n] by auto
  qed
  have "distinct ((order @ [i]) @ ready @ new)" using di dn late sn by auto
  moreover have "set ((order @ [i]) @ ready @ new) \<subseteq> N" using inN csN sn by auto
  moreover have "topo es (order @ [i])"
  proof (rule topo_snoc [OF tp])
    have "waits es order i = 0" using zero [of i] inN by simp
    then show "f \<in> set order" if "(f, i) \<in> set es" for f using that by (simp add: waits_0)
  qed
  moreover have "hm_get indeg' n = Some (waits es (order @ [i]) n)" if "n \<in> N" for n
    using that by (simp add: g' deg split)
  moreover have "n \<in> set ((order @ [i]) @ ready @ new) \<longleftrightarrow> waits es (order @ [i]) n = 0" if "n \<in> N" for n
  proof (cases "n \<in> set cs")
    case True
    then show ?thesis using late [OF True] new [OF that] by auto
  next
    case False
    then show ?thesis using zero [OF that] split [of n] new [OF that] by auto
  qed
  ultimately show ?thesis using r ok' unfolding kahn_inv_def by blast
qed

lemma kahn_spec:
  assumes "kahn_inv es N indeg ready order" and "set es \<subseteq> N \<times> N"
    and "\<And>i. i \<in> N \<Longrightarrow> children fwd i = map snd (filter (\<lambda>(f, t). f = i) es)"
  shows "\<exists>order' indeg'. kahn fwd indeg ready order = Some (order', indeg') \<and> kahn_inv es N indeg' [] order'"
  using assms(1,3)
proof (induction fwd indeg ready order rule: kahn.induct)
  case (1 fwd indeg order)
  then show ?case by simp
next
  case (2 fwd indeg i ready order)
  have "i \<in> N" using "2.prems"(1) by (simp add: kahn_inv_def)
  from kahn_step [OF "2.prems"(1) assms(2) "2.prems"(2) [OF this]]
  obtain indeg' ready' where r: "relax (children fwd i) indeg ready = Some (indeg', ready')"
    and inv: "kahn_inv es N indeg' ready' (order @ [i])" by blast
  show ?case using "2.IH" [OF r refl inv "2.prems"(2)] r by simp
qed

text \<open>A finished sort lists every node exactly when the graph has no cycle.\<close>

lemma topo_acyclic:
  assumes "topo es order" and "set es \<subseteq> set order \<times> set order"
  shows "acyclic (set es)"
proof (rule acyclic_subset)
  let ?pos = "\<lambda>n. length (takeWhile (\<lambda>x. x \<noteq> n) order)"
  show "acyclic (measure ?pos)" by (rule wf_acyclic) simp
  show "set es \<subseteq> measure ?pos"
  proof (clarsimp)
    fix f t
    assume e: "(f, t) \<in> set es"
    then have "t \<in> set order" using assms(2) by auto
    then obtain us vs where o: "order = us @ t # vs" "t \<notin> set us" by (meson split_list_first)
    then have f: "f \<in> set us" using assms(1) e by (auto simp: topo_def)
    have "takeWhile (\<lambda>x. x \<noteq> t) order = us" using o by (simp add: takeWhile_append takeWhile_eq_all_conv)
    moreover have "length (takeWhile (\<lambda>x. x \<noteq> f) order) < length us"
    proof -
      obtain as bs where "us = as @ f # bs" "f \<notin> set as" using split_list_first [OF f] by blast
      then show ?thesis using o by (simp add: takeWhile_append takeWhile_eq_all_conv)
    qed
    ultimately show "?pos f < ?pos t" by simp
  qed
qed

lemma kahn_complete:
  assumes inv: "kahn_inv es N indeg [] order" and sub: "set es \<subseteq> N \<times> N" and fin: "finite N"
  shows "length order = card N \<longleftrightarrow> acyclic (set es)"
proof
  have o: "distinct order" "set order \<subseteq> N" "topo es order"
    and z: "\<And>n. n \<in> N \<Longrightarrow> n \<in> set order \<longleftrightarrow> (\<forall>f. (f, n) \<in> set es \<longrightarrow> f \<in> set order)"
    using inv by (auto simp: kahn_inv_def waits_0)
  show "acyclic (set es)" if "length order = card N"
  proof -
    have "set order = N"
      using that o fin by (metis card_subset_eq distinct_card)
    then show ?thesis using topo_acyclic [OF o(3)] sub by simp
  qed
  show "length order = card N" if "acyclic (set es)"
  proof -
    have wf: "wf (set es)" using that by (simp add: finite_acyclic_wf)
    have "n \<in> N \<Longrightarrow> n \<in> set order" for n
      using wf by (induction n) (use z sub in blast)
    then have "set order = N" using o by blast
    then show ?thesis using o(1) by (metis distinct_card)
  qed
qed

subsection \<open>The longest path\<close>

definition dep :: "degrees \<Rightarrow> node_id \<Rightarrow> nat" where
  "dep depth n = (case hm_get depth n of None \<Rightarrow> 0 | Some d \<Rightarrow> d)"

lemma deepen_dep:
  assumes "hm_ok depth"
  shows "hm_ok (deepen d c depth)"
    and "dep (deepen d c depth) n = (if n = c then max (dep depth n) (d + 1) else dep depth n)"
  using assms by (auto simp: deepen_def dep_def hm_simps max_def Let_def)

lemma deepens_dep:
  assumes "hm_ok depth"
  shows "hm_ok (fold (deepen d) cs depth)
    \<and> dep (fold (deepen d) cs depth) n = (if n \<in> set cs then max (dep depth n) (d + 1) else dep depth n)"
  using assms by (induction cs arbitrary: depth) (auto simp: deepen_dep)

definition depth_inv :: "arcs \<Rightarrow> node_id set \<Rightarrow> degrees \<Rightarrow> bool" where
  "depth_inv es done depth \<longleftrightarrow> hm_ok depth
     \<and> (\<forall>n. \<exists>a. (a, n) \<in> set es ^^ dep depth n)
     \<and> (\<forall>f t. f \<in> done \<longrightarrow> (f, t) \<in> set es \<longrightarrow> dep depth f + 1 \<le> dep depth t)"

lemma depth_step:
  assumes inv: "depth_inv es done depth" and cs: "set cs = {t. (v, t) \<in> set es}"
    and front: "\<And>f. f \<in> insert v done \<Longrightarrow> (v, f) \<notin> set es"
  shows "depth_inv es (insert v done) (fold (deepen (dep depth v)) cs depth)"
proof -
  let ?d = "fold (deepen (dep depth v)) cs depth"
  have ok: "hm_ok depth" using inv by (simp add: depth_inv_def)
  have d: "dep ?d n = (if (v, n) \<in> set es then max (dep depth n) (dep depth v + 1) else dep depth n)" for n
    using deepens_dep [OF ok, of "dep depth v" cs n] cs by auto
  have "\<exists>a. (a, n) \<in> set es ^^ dep ?d n" for n
  proof -
    obtain a b where "(a, n) \<in> set es ^^ dep depth n" and "(b, v) \<in> set es ^^ dep depth v"
      using inv unfolding depth_inv_def by blast
    then show ?thesis by (auto simp: d max_def relcomp_unfold)
  qed
  moreover have "dep ?d f + 1 \<le> dep ?d t" if "f \<in> insert v done" "(f, t) \<in> set es" for f t
  proof -
    have "dep ?d f = dep depth f" using front [OF that(1)] by (simp add: d)
    moreover have "f = v \<or> dep depth f + 1 \<le> dep depth t" using inv that by (auto simp: depth_inv_def)
    ultimately show ?thesis using that(2) by (auto simp: d)
  qed
  ultimately show ?thesis using deepens_dep [OF ok] by (simp add: depth_inv_def)
qed

lemma depth_run:
  assumes tp: "topo es order" and di: "distinct order" and ord: "order = us @ vs"
    and inv: "depth_inv es (set us) depth" and cs: "\<And>i. i \<in> set order \<Longrightarrow> set (children fwd i) = {t. (i, t) \<in> set es}"
  shows "depth_inv es (set order) (fold (\<lambda>i depth. fold (deepen (dep depth i)) (children fwd i) depth) vs depth)"
  using ord inv
proof (induction vs arbitrary: us depth)
  case (Cons v vs)
  have front: "(v, f) \<notin> set es" if "f \<in> insert v (set us)" for f
  proof
    assume e: "(v, f) \<in> set es"
    have "v \<in> set us"
    proof (cases "f = v")
      case True
      then show ?thesis using tp e Cons.prems(1) by (auto simp: topo_def)
    next
      case False
      then have "f \<in> set us" using that by simp
      then obtain xs ys where us: "us = xs @ f # ys" by (meson split_list)
      then have "order = xs @ f # (ys @ v # vs)" using Cons.prems(1) by simp
      then have "v \<in> set xs" using tp e unfolding topo_def by blast
      then show ?thesis by (simp add: us)
    qed
    then show False using di Cons.prems(1) by simp
  qed
  have "set (children fwd v) = {t. (v, t) \<in> set es}" using cs Cons.prems(1) by simp
  from depth_step [OF Cons.prems(2) this front] show ?case
    using Cons.IH [of "us @ [v]"] Cons.prems(1) by simp
qed simp

lemma fold_max:
  fixes a :: nat
  shows "x \<in> set xs \<Longrightarrow> x \<le> fold max xs a" and "fold max xs a \<in> insert a (set xs)"
proof -
  have m: "fold max xs a = Max (insert a (set xs))" using Max.set_eq_fold [of a xs] by simp
  show "x \<in> set xs \<Longrightarrow> x \<le> fold max xs a" by (simp add: m)
  show "fold max xs a \<in> insert a (set xs)" unfolding m by (rule Max_in) auto
qed

lemma longest_path_exact:
  assumes tp: "topo es order" and di: "distinct order" and sub: "set es \<subseteq> set order \<times> set order"
    and cs: "\<And>i. i \<in> set order \<Longrightarrow> set (children fwd i) = {t. (i, t) \<in> set es}"
  shows "\<forall>k a b. (a, b) \<in> set es ^^ k \<longrightarrow> k \<le> longest_path_length order fwd"
    and "\<exists>a b. (a, b) \<in> set es ^^ longest_path_length order fwd"
proof -
  define d0 where "d0 = fold (\<lambda>i. hm_insert i 0) order ([] :: degrees)"
  define d where "d = fold (\<lambda>i depth. fold (deepen (dep depth i)) (children fwd i) depth) order d0"
  have lp: "longest_path_length order fwd = fold max (map snd d) 0"
    by (simp add: longest_path_length_def d_def d0_def dep_def [abs_def] Let_def)
  have "dep d0 n = 0" for n
    using hm.get_inserts [of "[]" "\<lambda>i. i" "\<lambda>_. 0 :: nat" order n] by (auto simp: d0_def dep_def split: option.splits)
  moreover have "hm_ok d0" using hm.invar_inserts [of "[]" "\<lambda>i. i" "\<lambda>_. 0 :: nat" order] by (simp add: d0_def)
  ultimately have "depth_inv es {} d0" by (simp add: depth_inv_def)
  then have inv: "depth_inv es (set order) d"
    unfolding d_def using depth_run [OF tp di, of "[]" order d0 fwd] cs by simp
  then have ok: "hm_ok d" by (simp add: depth_inv_def)
  have le: "dep d n \<le> longest_path_length order fwd" for n
  proof (cases "hm_get d n")
    case (Some x)
    then have "x \<in> set (map snd d)" using hm.entries_iff [OF ok] by force
    then show ?thesis using fold_max(1) Some by (simp add: lp dep_def)
  qed (simp add: dep_def)
  show "\<forall>k a b. (a, b) \<in> set es ^^ k \<longrightarrow> k \<le> longest_path_length order fwd"
  proof (intro allI impI)
    fix k a b
    assume "(a, b) \<in> set es ^^ k"
    then have "k \<le> dep d b"
    proof (induction k arbitrary: b)
      case (Suc k)
      then obtain c where "(a, c) \<in> set es ^^ k" and e: "(c, b) \<in> set es" by auto
      moreover have "dep d c + 1 \<le> dep d b" using inv e sub by (auto simp: depth_inv_def)
      ultimately show ?case using Suc.IH by fastforce
    qed simp
    then show "k \<le> longest_path_length order fwd" using le order_trans by blast
  qed
  show "\<exists>a b. (a, b) \<in> set es ^^ longest_path_length order fwd"
  proof (cases "longest_path_length order fwd = 0")
    case False
    then have "longest_path_length order fwd \<in> set (map snd d)" using fold_max(2) [of "map snd d" 0] by (auto simp: lp)
    then obtain n where "hm_get d n = Some (longest_path_length order fwd)" using hm.entries_iff [OF ok] by force
    then have "dep d n = longest_path_length order fwd" by (simp add: dep_def)
    then show ?thesis using inv by (metis depth_inv_def)
  qed auto
qed

subsection \<open>What a valid graph is\<close>

definition arcs_of :: "graph \<Rightarrow> arcs" where
  "arcs_of g = map (\<lambda>e. (pr_node (e_from e), pr_node (e_to e))) (g_edges g)"

definition node_admitted :: "(string \<Rightarrow> kind_shape option) \<Rightarrow> bool \<Rightarrow> node \<Rightarrow> bool" where
  "node_admitted resolve_kind allow n \<longleftrightarrow>
     (\<exists>sh. resolve_kind (n_kind n) = Some sh \<and> (sh_restricted sh \<longrightarrow> allow) \<and> validate_node_config n sh = None)"

definition edge_typed :: "(string \<Rightarrow> kind_shape option) \<Rightarrow> graph \<Rightarrow> edge \<Rightarrow> bool" where
  "edge_typed resolve_kind g e \<longleftrightarrow>
     (\<exists>n \<in> set (g_nodes g). \<exists>m \<in> set (g_nodes g). \<exists>sh sh' ty.
        n_id n = pr_node (e_from e) \<and> n_id m = pr_node (e_to e)
        \<and> resolve_kind (n_kind n) = Some sh \<and> resolve_kind (n_kind m) = Some sh'
        \<and> shape_output sh (pr_port (e_from e)) = Some ty \<and> shape_input sh' (pr_port (e_to e)) = Some ty)"

definition valid_graph :: "(string \<Rightarrow> kind_shape option) \<Rightarrow> bool \<Rightarrow> graph \<Rightarrow> bool" where
  "valid_graph resolve_kind allow g \<longleftrightarrow>
     g_version g = CURRENT_SCHEMA_VERSION
     \<and> distinct (map n_id (g_nodes g))
     \<and> (\<forall>n \<in> set (g_nodes g). node_admitted resolve_kind allow n)
     \<and> distinct (map edge_target (g_edges g))
     \<and> (\<forall>e \<in> set (g_edges g). edge_typed resolve_kind g e)
     \<and> acyclic (set (arcs_of g))
     \<and> (\<forall>k a b. (a, b) \<in> set (arcs_of g) ^^ k \<longrightarrow> k \<le> MAX_GRAPH_DEPTH)
     \<and> (\<exists>n \<in> set (g_nodes g). n_kind n = ''Out.SpreadMult'')"

text \<open>An iteration order of a hash map: some arrangement of its entries.\<close>

definition iter_order :: "(('k, 'v) hash_map \<Rightarrow> ('k, 'v) hash_map) \<Rightarrow> bool" where
  "iter_order ord \<longleftrightarrow> (\<forall>m. hm_ok m \<longrightarrow> hm_ok (ord m) \<and> set (ord m) = set m)"

lemma check_ids_None:
  "check_ids ns seen = None \<longleftrightarrow> distinct (map n_id ns) \<and> set seen \<inter> n_id ` set ns = {}"
  by (induction ns seen rule: check_ids.induct) auto

lemma check_edges_None: "check_edges shapes es = None \<longleftrightarrow> (\<forall>e \<in> set es. check_edge shapes e = None)"
  by (induction es) (auto split: option.split)

lemma resolve_nodes_Inr:
  "resolve_nodes res allow ns m = Inr shapes \<longleftrightarrow>
     (\<forall>n \<in> set ns. node_admitted res allow n)
     \<and> shapes = fold (\<lambda>n. hm_insert (n_id n) (the (res (n_kind n)))) ns m"
  by (induction ns arbitrary: m) (auto simp: node_admitted_def split: option.splits)

lemma resolved_shape:
  assumes "resolve_nodes res allow ns [] = Inr shapes" and "distinct (map n_id ns)"
  shows "hm_get shapes i = Some sh \<longleftrightarrow> (\<exists>n \<in> set ns. n_id n = i \<and> res (n_kind n) = Some sh)"
proof -
  have adm: "\<And>n. n \<in> set ns \<Longrightarrow> res (n_kind n) \<noteq> None"
    and sh: "shapes = fold (\<lambda>n. hm_insert (n_id n) (the (res (n_kind n)))) ns []"
    using assms(1) by (auto simp: resolve_nodes_Inr node_admitted_def)
  have get: "hm_get shapes i = (case find (\<lambda>n. n_id n = i) (rev ns) of None \<Rightarrow> None | Some n \<Rightarrow> Some (the (res (n_kind n))))"
    using hm.get_inserts [of "[]" n_id "\<lambda>n. the (res (n_kind n))" ns i] by (simp add: sh split: option.split)
  show ?thesis
  proof (cases "find (\<lambda>n. n_id n = i) (rev ns)")
    case None
    then have "hm_get shapes i = None" by (simp add: get)
    moreover have "\<forall>n \<in> set ns. n_id n \<noteq> i" using None by (auto simp: find_None_iff)
    ultimately show ?thesis by auto
  next
    case (Some n)
    then have n: "n \<in> set ns" "n_id n = i" using find_SomeD by fastforce+
    have "inj_on n_id (set ns)" using assms(2) by (simp add: distinct_map)
    then have one: "m = n" if "m \<in> set ns" "n_id m = i" for m
      using that n by (simp add: inj_on_def)
    have "hm_get shapes i = res (n_kind n)" using Some adm [OF n(1)] by (simp add: get)
    then show ?thesis using n one by metis
  qed
qed

lemma check_edge_None:
  assumes "resolve_nodes res allow (g_nodes g) [] = Inr shapes" and "distinct (map n_id (g_nodes g))"
  shows "check_edge shapes e = None \<longleftrightarrow> edge_typed res g e"
proof -
  note get = resolved_shape [OF assms]
  have "check_edge shapes e = None \<longleftrightarrow> (\<exists>sh sh' ty. hm_get shapes (pr_node (e_from e)) = Some sh
      \<and> hm_get shapes (pr_node (e_to e)) = Some sh' \<and> shape_output sh (pr_port (e_from e)) = Some ty
      \<and> shape_input sh' (pr_port (e_to e)) = Some ty)"
    by (auto simp: check_edge_def split: option.split)
  then show ?thesis unfolding get edge_typed_def by blast
qed

subsection \<open>The sort of a graph with typed edges\<close>

lemma arcs_within:
  assumes "\<And>e. e \<in> set (g_edges g) \<Longrightarrow> edge_typed res g e"
  shows "set (arcs_of g) \<subseteq> n_id ` set (g_nodes g) \<times> n_id ` set (g_nodes g)"
proof
  fix x
  assume "x \<in> set (arcs_of g)"
  then obtain e where "e \<in> set (g_edges g)" and x: "x = (pr_node (e_from e), pr_node (e_to e))"
    by (auto simp: arcs_of_def)
  then have "edge_typed res g e" using assms by blast
  then show "x \<in> n_id ` set (g_nodes g) \<times> n_id ` set (g_nodes g)" by (simp add: x edge_typed_def) (metis imageI)
qed

lemma forward_children: "children (forward g) i = map snd (filter (\<lambda>(f, t). f = i) (arcs_of g))"
proof -
  have "hm_ok m \<Longrightarrow> children (fold add_successor es m) i =
      children m i @ map snd (filter (\<lambda>(f, t). f = i) (map (\<lambda>e. (pr_node (e_from e), pr_node (e_to e))) es))" for m es
    by (induction es arbitrary: m) (auto simp: add_successor_def children_def hm_simps)
  moreover have "children (fold (\<lambda>n. hm_insert (n_id n) []) (g_nodes g) ([] :: successors)) i = []"
    using hm.get_inserts [of "[]" n_id "\<lambda>_. [] :: node_id list" "g_nodes g" i] by (auto simp: children_def split: option.splits)
  moreover have "hm_ok (fold (\<lambda>n. hm_insert (n_id n) []) (g_nodes g) ([] :: successors))"
    using hm.invar_inserts [of "[]" n_id "\<lambda>_. [] :: node_id list" "g_nodes g"] by simp
  ultimately show ?thesis by (simp add: forward_def arcs_of_def)
qed

lemma indegrees_waits:
  assumes "n \<in> n_id ` set (g_nodes g)"
  shows "hm_get (indegrees g) n = Some (waits (arcs_of g) [] n)"
proof -
  let ?m = "fold (\<lambda>n. hm_insert (n_id n) 0) (g_nodes g) ([] :: degrees)"
  have ok: "hm_ok ?m" using hm.invar_inserts [of "[]" n_id "\<lambda>_. 0 :: nat" "g_nodes g"] by simp
  have "find (\<lambda>x. n_id x = n) (rev (g_nodes g)) \<noteq> None" using assms by (auto simp: find_None_iff)
  then have "hm_get ?m n = Some 0"
    using hm.get_inserts [of "[]" n_id "\<lambda>_. 0 :: nat" "g_nodes g" n] by auto
  moreover have "count_list (map (\<lambda>e. pr_node (e_to e)) es) n
      = length (filter (\<lambda>(f, t). t = n \<and> f \<notin> set []) (map (\<lambda>e. (pr_node (e_from e), pr_node (e_to e))) es))" for es
    by (induction es) auto
  then have "count_list (map (\<lambda>e. pr_node (e_to e)) (g_edges g)) n = waits (arcs_of g) [] n"
    by (simp only: waits_def arcs_of_def)
  ultimately show ?thesis by (simp add: indegrees_def bumps_get [OF ok])
qed

lemma indegrees_ok: "hm_ok (indegrees g)"
  using hm.invar_inserts [of "[]" n_id "\<lambda>_. 0 :: nat" "g_nodes g"] by (simp add: indegrees_def bumps_ok)

lemma indegrees_dom:
  assumes "\<And>e. e \<in> set (g_edges g) \<Longrightarrow> edge_typed res g e" and "hm_get (indegrees g) n = Some d"
  shows "n \<in> n_id ` set (g_nodes g)"
proof (rule ccontr)
  assume n: "n \<notin> n_id ` set (g_nodes g)"
  let ?m = "fold (\<lambda>n. hm_insert (n_id n) 0) (g_nodes g) ([] :: degrees)"
  have ok: "hm_ok ?m" using hm.invar_inserts [of "[]" n_id "\<lambda>_. 0 :: nat" "g_nodes g"] by simp
  have "n \<notin> snd ` set (arcs_of g)" using arcs_within [OF assms(1)] n by auto
  then have "count_list (map (\<lambda>e. pr_node (e_to e)) (g_edges g)) n = 0"
    by (auto simp: count_list_0_iff arcs_of_def image_image)
  moreover have "hm_get ?m n = None"
    using hm.get_inserts [of "[]" n_id "\<lambda>_. 0 :: nat" "g_nodes g" n] n
    by (auto dest!: find_SomeD split: option.splits)
  ultimately show False using assms(2) by (simp add: indegrees_def bumps_get [OF ok])
qed

lemma kahn_start:
  assumes ord: "iter_order ord_deg" and typed: "\<And>e. e \<in> set (g_edges g) \<Longrightarrow> edge_typed res g e"
  shows "kahn_inv (arcs_of g) (n_id ` set (g_nodes g)) (indegrees g)
    (map fst (filter (\<lambda>(_, d). d = 0) (ord_deg (indegrees g)))) []"
proof -
  let ?N = "n_id ` set (g_nodes g)" and ?r = "map fst (filter (\<lambda>(_, d). d = 0) (ord_deg (indegrees g)))"
  have o: "hm_ok (ord_deg (indegrees g))" "set (ord_deg (indegrees g)) = set (indegrees g)"
    using ord indegrees_ok by (auto simp: iter_order_def)
  have "distinct ?r" using o(1) by (simp add: hm_ok_def distinct_map_filter)
  moreover have r: "n \<in> set ?r \<longleftrightarrow> hm_get (indegrees g) n = Some 0" for n
    using hm.entries_iff [OF indegrees_ok, of n 0 g] by (force simp: o(2))
  moreover have "set ?r \<subseteq> ?N" using r indegrees_dom [OF typed] by blast
  moreover have "topo (arcs_of g) []" by (simp add: topo_def)
  ultimately show ?thesis using indegrees_waits indegrees_ok by (simp add: kahn_inv_def)
qed

text \<open>What the sort returns on a graph whose edges are well typed.\<close>

lemma sort_result:
  assumes ord: "iter_order ord_deg" and typed: "\<And>e. e \<in> set (g_edges g) \<Longrightarrow> edge_typed res g e"
    and ids: "distinct (map n_id (g_nodes g))"
  shows "\<exists>r. sort_and_bound ord_deg fresh g = Some r \<and>
    ((\<exists>topo. r = Inr topo) \<longleftrightarrow> acyclic (set (arcs_of g))
       \<and> (\<forall>k a b. (a, b) \<in> set (arcs_of g) ^^ k \<longrightarrow> k \<le> MAX_GRAPH_DEPTH)
       \<and> (\<exists>n \<in> set (g_nodes g). n_kind n = ''Out.SpreadMult''))
    \<and> (\<forall>t. r = Inr t \<longrightarrow> distinct (to_order t) \<and> set (to_order t) = n_id ` set (g_nodes g)
          \<and> topo (arcs_of g) (to_order t)
          \<and> (\<forall>k a b. (a, b) \<in> set (arcs_of g) ^^ k \<longrightarrow> k \<le> to_depth t)
          \<and> (\<exists>a b. (a, b) \<in> set (arcs_of g) ^^ to_depth t) \<and> to_depth t \<le> MAX_GRAPH_DEPTH)"
proof -
  let ?N = "n_id ` set (g_nodes g)" and ?es = "arcs_of g"
  have sub: "set ?es \<subseteq> ?N \<times> ?N" by (rule arcs_within [OF typed])
  from kahn_spec [OF kahn_start [OF ord typed] sub forward_children] obtain order indeg where
    k: "kahn (forward g) (indegrees g) (map fst (filter (\<lambda>(_, d). d = 0) (ord_deg (indegrees g)))) [] = Some (order, indeg)"
    and inv: "kahn_inv ?es ?N indeg [] order" by blast
  have N: "card ?N = length (g_nodes g)" using ids by (metis distinct_card length_map set_map)
  have ac: "length order = length (g_nodes g) \<longleftrightarrow> acyclic (set ?es)"
    using kahn_complete [OF inv sub] N by simp
  have o: "distinct order" "set order \<subseteq> ?N" "topo ?es order" using inv by (auto simp: kahn_inv_def)
  have full: "set order = ?N" if "acyclic (set ?es)"
  proof (rule card_subset_eq)
    show "card (set order) = card ?N" using that ac N o(1) by (simp add: distinct_card)
  qed (use o in auto)
  have cs: "set (children (forward g) i) = {t. (i, t) \<in> set ?es}" for i
    by (force simp: forward_children)
  have lp: "\<forall>k a b. (a, b) \<in> set ?es ^^ k \<longrightarrow> k \<le> longest_path_length order (forward g)"
    "\<exists>a b. (a, b) \<in> set ?es ^^ longest_path_length order (forward g)" if "acyclic (set ?es)"
    using longest_path_exact [OF o(3,1) _ cs] sub full [OF that] by auto
  show ?thesis
  proof (cases "acyclic (set ?es)")
    case False
    then show ?thesis using k ac by (simp add: sort_and_bound_def Let_def)
  next
    case True
    have bound: "longest_path_length order (forward g) \<le> MAX_GRAPH_DEPTH \<longleftrightarrow>
        (\<forall>k a b. (a, b) \<in> set ?es ^^ k \<longrightarrow> k \<le> MAX_GRAPH_DEPTH)"
      using lp [OF True] order_trans by blast
    show ?thesis
      using k ac True o full [OF True] lp [OF True] bound
      by (simp add: sort_and_bound_def Let_def list_ex_iff) (metis not_le)
  qed
qed

text \<open>The checks before the sort.\<close>

definition well_formed :: "(string \<Rightarrow> kind_shape option) \<Rightarrow> bool \<Rightarrow> graph \<Rightarrow> bool" where
  "well_formed res allow g \<longleftrightarrow>
     g_version g = CURRENT_SCHEMA_VERSION \<and> distinct (map n_id (g_nodes g))
     \<and> (\<forall>n \<in> set (g_nodes g). node_admitted res allow n)
     \<and> distinct (map edge_target (g_edges g)) \<and> (\<forall>e \<in> set (g_edges g). edge_typed res g e)"

lemma validate_checks:
  assumes "iter_order ord_fan"
  shows "(well_formed res allow g \<longrightarrow> validate ord_fan ord_deg res allow fresh g = sort_and_bound ord_deg fresh g)
    \<and> (\<not> well_formed res allow g \<longrightarrow> (\<exists>e. validate ord_fan ord_deg res allow fresh g = Some (Inl e)))"
proof (cases "g_version g = CURRENT_SCHEMA_VERSION \<and> distinct (map n_id (g_nodes g))
    \<and> (\<forall>n \<in> set (g_nodes g). node_admitted res allow n)")
  case pre: True
  then obtain shapes where sh: "resolve_nodes res allow (g_nodes g) [] = Inr shapes"
    by (simp add: resolve_nodes_Inr)
  have ids: "check_ids (g_nodes g) [] = None" using pre by (simp add: check_ids_None)
  have "hm_ok (fan_in (g_edges g))" by (simp add: fan_in_def bumps_ok)
  then have fan: "find (\<lambda>(_, c). 1 < c) (ord_fan (fan_in (g_edges g))) = None \<longleftrightarrow> distinct (map edge_target (g_edges g))"
    using assms by (intro fan_in_distinct) (simp add: iter_order_def)
  have edges: "check_edges shapes (g_edges g) = None \<longleftrightarrow> (\<forall>e \<in> set (g_edges g). edge_typed res g e)"
    using check_edge_None [OF sh] pre by (simp add: check_edges_None)
  show ?thesis
    using pre sh ids fan edges
    by (auto simp: validate_def well_formed_def split: option.split)
next
  case False
  then show ?thesis
    using check_ids_None [of "g_nodes g" "[]"] resolve_nodes_Inr [of res allow "g_nodes g" "[]"]
    by (auto simp: validate_def well_formed_def split: option.split sum.split)
qed

subsection \<open>Properties\<close>

text \<open>
  C5: validation decides exactly its list of rules. For every graph, catalog and hash
  iteration order, validation terminates without a panic and accepts if and only if the schema
  version is current, node ids are distinct, every node kind is known, permitted and has a
  well-typed configuration, no input port has two incoming edges, every edge joins existing ports
  of the same type, the graph has no cycle, no path is longer than the depth limit, and some
  Out.SpreadMult node exists. That node need not have an incoming edge, although the comments and the
  design document ask for a reachable one; and acceptance does not mean that every node can be built
  from its configuration, which is decided later.
\<close>

theorem validate_accepts_iff:
  assumes "iter_order ord_fan" and "iter_order ord_deg"
  shows "\<exists>r. validate ord_fan ord_deg res allow fresh g = Some r
    \<and> ((\<exists>t. r = Inr t) \<longleftrightarrow> valid_graph res allow g)"
proof (cases "well_formed res allow g")
  case True
  then have "\<And>e. e \<in> set (g_edges g) \<Longrightarrow> edge_typed res g e" "distinct (map n_id (g_nodes g))"
    by (auto simp: well_formed_def)
  from sort_result [OF assms(2) this, of fresh] obtain r where
    "sort_and_bound ord_deg fresh g = Some r"
    and "(\<exists>topo. r = Inr topo) \<longleftrightarrow> acyclic (set (arcs_of g))
       \<and> (\<forall>k a b. (a, b) \<in> set (arcs_of g) ^^ k \<longrightarrow> k \<le> MAX_GRAPH_DEPTH)
       \<and> (\<exists>n \<in> set (g_nodes g). n_kind n = ''Out.SpreadMult'')" by blast
  then show ?thesis
    using validate_checks [OF assms(1), of res allow g ord_deg fresh] True
    by (simp add: valid_graph_def well_formed_def)
next
  case False
  then obtain e where e: "validate ord_fan ord_deg res allow fresh g = Some (Inl e)"
    using validate_checks [OF assms(1)] by blast
  have "\<not> valid_graph res allow g" using False by (auto simp: valid_graph_def well_formed_def)
  then show ?thesis using e by blast
qed

definition demo_catalog :: "string \<Rightarrow> kind_shape option" where
  "demo_catalog k =
     (if k = ''Math.Mul'' then Some \<lparr>sh_inputs = [(''a'', NumberT), (''b'', NumberT)], sh_outputs = [(''out'', NumberT)],
        sh_restricted = False, sh_config_schema = []\<rparr>
      else if k = ''Math.Const'' then Some \<lparr>sh_inputs = [], sh_outputs = [(''value'', NumberT)], sh_restricted = False,
        sh_config_schema = [\<lparr>cf_name = ''value'', cf_label = ''Value'', cf_hint = None, cf_default = JString ''0'',
          cf_widget = NumberW None None (Some (1 / 100))\<rparr>]\<rparr>
      else if k = ''Out.SpreadMult'' then Some \<lparr>sh_inputs = [(''mult'', NumberT)], sh_outputs = [(''action'', UnitT)],
        sh_restricted = False, sh_config_schema = []\<rparr>
      else None)"

definition demo_edge :: "nat \<Rightarrow> string \<Rightarrow> nat \<Rightarrow> string \<Rightarrow> edge" where
  "demo_edge f fp t tp = \<lparr>e_from = \<lparr>pr_node = f, pr_port = fp\<rparr>, e_to = \<lparr>pr_node = t, pr_port = tp\<rparr>\<rparr>"

definition demo_graph :: "edge list \<Rightarrow> graph" where
  "demo_graph es = (empty_graph ''demo'' GlobalScope)\<lparr>g_nodes :=
     [\<lparr>n_id = 3, n_kind = ''Out.SpreadMult'', n_config = JNull\<rparr>,
      \<lparr>n_id = 2, n_kind = ''Math.Mul'', n_config = JNull\<rparr>,
      \<lparr>n_id = 1, n_kind = ''Math.Const'', n_config = JObject [(''value'', JString ''1.5'')]\<rparr>],
     g_edges := es\<rparr>"

abbreviation demo_edges :: "edge list" where
  "demo_edges \<equiv> [demo_edge 2 ''out'' 3 ''mult'', demo_edge 1 ''value'' 2 ''a'', demo_edge 1 ''value'' 2 ''b'']"

abbreviation unfed_sink_edges :: "edge list" where
  "unfed_sink_edges \<equiv> [demo_edge 1 ''value'' 2 ''a'', demo_edge 1 ''value'' 2 ''b'']"

lemma unconnected_sink_accepted:
  "case validate (\<lambda>m. m) (\<lambda>m. m) demo_catalog False 0 (demo_graph unfed_sink_edges) of
     Some (Inr t) \<Rightarrow> to_depth t = 1 | _ \<Rightarrow> False"
  "\<forall>e \<in> set unfed_sink_edges. pr_node (e_to e) \<noteq> 3 \<and> pr_node (e_from e) \<noteq> 3"
  by code_simp+

abbreviation demo_loop :: "edge list" where
  "demo_loop \<equiv> [demo_edge 2 ''out'' 2 ''a'', demo_edge 1 ''value'' 2 ''b'', demo_edge 1 ''value'' 3 ''mult'']"

theorem validate_accepts_iff_witness:
  "valid_graph demo_catalog False (demo_graph demo_edges) \<and> \<not> valid_graph demo_catalog False (demo_graph demo_loop)"
proof -
  have o: "iter_order (\<lambda>m. m)" by (simp add: iter_order_def)
  have "validate (\<lambda>m. m) (\<lambda>m. m) demo_catalog False 0 (demo_graph demo_edges)
      = Some (Inr \<lparr>to_order = [1, 2, 3], to_depth = 2\<rparr>)" by code_simp
  moreover have "validate (\<lambda>m. m) (\<lambda>m. m) demo_catalog False 0 (demo_graph demo_loop) = Some (Inl (Cycle 2))"
    by code_simp
  ultimately show ?thesis
    using validate_accepts_iff [OF o o, of demo_catalog False 0 "demo_graph demo_edges"]
      validate_accepts_iff [OF o o, of demo_catalog False 0 "demo_graph demo_loop"] by simp
qed

lemma topo_before:
  assumes "topo es order" and "(f, t) \<in> set es" and "t \<in> set order"
  shows "\<exists>us vs. order = us @ vs \<and> f \<in> set us \<and> t \<in> set vs"
proof -
  obtain us vs where o: "order = us @ t # vs" using assms(3) by (meson split_list)
  then have "f \<in> set us" using assms(1,2) unfolding topo_def by blast
  then show ?thesis using o by (intro exI [of _ us] exI [of _ "t # vs"]) simp
qed

lemma validate_order:
  assumes "iter_order ord_fan" and "iter_order ord_deg"
    and "validate ord_fan ord_deg res allow fresh g = Some (Inr t)"
  shows "distinct (to_order t)" and "set (to_order t) = n_id ` set (g_nodes g)" and "topo (arcs_of g) (to_order t)"
    and "\<forall>k a b. (a, b) \<in> set (arcs_of g) ^^ k \<longrightarrow> k \<le> to_depth t"
    and "\<exists>a b. (a, b) \<in> set (arcs_of g) ^^ to_depth t" and "to_depth t \<le> MAX_GRAPH_DEPTH"
    and "set (arcs_of g) \<subseteq> n_id ` set (g_nodes g) \<times> n_id ` set (g_nodes g)"
proof -
  have wf: "well_formed res allow g"
    using validate_checks [OF assms(1), of res allow g ord_deg fresh] assms(3) by (metis Inl_Inr_False option.inject)
  then have sb: "sort_and_bound ord_deg fresh g = Some (Inr t)"
    using validate_checks [OF assms(1), of res allow g ord_deg fresh] assms(3) by simp
  have typed: "\<And>e. e \<in> set (g_edges g) \<Longrightarrow> edge_typed res g e" and ids: "distinct (map n_id (g_nodes g))"
    using wf by (auto simp: well_formed_def)
  from sort_result [OF assms(2) typed ids, of fresh] sb
  show "distinct (to_order t)" "set (to_order t) = n_id ` set (g_nodes g)" "topo (arcs_of g) (to_order t)"
    "\<forall>k a b. (a, b) \<in> set (arcs_of g) ^^ k \<longrightarrow> k \<le> to_depth t"
    "\<exists>a b. (a, b) \<in> set (arcs_of g) ^^ to_depth t" "to_depth t \<le> MAX_GRAPH_DEPTH" by auto
  show "set (arcs_of g) \<subseteq> n_id ` set (g_nodes g) \<times> n_id ` set (g_nodes g)" by (rule arcs_within [OF typed])
qed

text \<open>
  The evaluation order of an accepted graph is a topological order. It lists every node exactly
  once, the source of every edge comes before its target, and the reported depth is the length of
  the longest path.
\<close>

theorem validate_topological:
  assumes "iter_order ord_fan" and "iter_order ord_deg"
    and "validate ord_fan ord_deg res allow fresh g = Some (Inr t)"
  shows "distinct (to_order t) \<and> set (to_order t) = n_id ` set (g_nodes g)
    \<and> (\<forall>e \<in> set (g_edges g). \<exists>us vs. to_order t = us @ vs
          \<and> pr_node (e_from e) \<in> set us \<and> pr_node (e_to e) \<in> set vs)
    \<and> (\<forall>k a b. (a, b) \<in> set (arcs_of g) ^^ k \<longrightarrow> k \<le> to_depth t)
    \<and> (\<exists>a b. (a, b) \<in> set (arcs_of g) ^^ to_depth t) \<and> to_depth t \<le> MAX_GRAPH_DEPTH"
proof -
  note r = validate_order [OF assms]
  have "\<exists>us vs. to_order t = us @ vs \<and> pr_node (e_from e) \<in> set us \<and> pr_node (e_to e) \<in> set vs"
    if "e \<in> set (g_edges g)" for e
  proof (rule topo_before [OF r(3)])
    show "(pr_node (e_from e), pr_node (e_to e)) \<in> set (arcs_of g)" using that by (auto simp: arcs_of_def)
    then show "pr_node (e_to e) \<in> set (to_order t)" using r(2,7) by auto
  qed
  then show ?thesis using r by blast
qed

theorem validate_topological_witness:
  "\<exists>t. validate (\<lambda>m. m) (\<lambda>m. m) demo_catalog False 0 (demo_graph demo_edges) = Some (Inr t)
     \<and> set (to_order t) = {1, 2, 3} \<and> to_depth t \<le> 128"
proof -
  have o: "iter_order (\<lambda>m. m)" by (simp add: iter_order_def)
  have v: "validate (\<lambda>m. m) (\<lambda>m. m) demo_catalog False 0 (demo_graph demo_edges)
      = Some (Inr \<lparr>to_order = [1, 2, 3], to_depth = 2\<rparr>)" by code_simp
  have n: "n_id ` set (g_nodes (demo_graph demo_edges)) = {1, 2, 3}" by (auto simp: demo_graph_def)
  show ?thesis using validate_topological [OF o o v] v by (simp add: n MAX_GRAPH_DEPTH_def)
qed

end
