(* ===== verification/Graph_Evaluator.thy ===== *)
theory Graph_Evaluator
  imports Strategy_Graph "HOL-Library.Multiset"
begin

section \<open>Evaluating a strategy graph\<close>

text \<open>
  \<^verbatim>\<open>crates/strategy-graph/src/evaluator.rs\<close> with the values of \<^verbatim>\<open>types.rs\<close> and the node interface of
  \<^verbatim>\<open>node.rs\<close>: compiling a validated graph and evaluating it once per tick.

  \<^item> A node implementation is a trait object, so it is a record of its ports and its evaluation
    function over a state of type \<open>'s\<close>; the function that builds one from the catalog is an
    argument \<open>build_kind\<close>.
  \<^item> Two conversions of the decimal library, to \<^verbatim>\<open>u8\<close> and (through text) to \<^verbatim>\<open>u64\<close>, are the
    arguments \<open>to_u8\<close> and \<open>to_u64\<close>.
  \<^item> The trace keeps what each node read and produced; elapsed times are left out. A failed
    \<^verbatim>\<open>expect\<close> is the error \<open>Panic\<close>.
\<close>

subsection \<open>Values\<close>

datatype quote_side = QuoteBuy | QuoteSell

record graph_quote =
  gq_side :: quote_side
  gq_price :: decimal
  gq_qty :: decimal

record venue_quote =
  vq_venue :: string
  vq_symbol :: string
  vq_product :: string
  vq_side :: quote_side
  vq_price :: decimal
  vq_qty :: decimal

record atomic_bundle_spec =
  ab_maker :: venue_quote
  ab_hedge :: venue_quote
  ab_timeout_ms :: u64

datatype gvalue =
    NumberV decimal
  | BoolV bool
  | UnitV
  | StringV string
  | KillLevelV u8
  | StrategyKindV string
  | PairClassV string
  | QuotesV "graph_quote list"
  | VenueQuotesV "venue_quote list"
  | Missing

fun value_port_type :: "gvalue \<Rightarrow> port_type" where
  "value_port_type (NumberV _) = NumberT"
| "value_port_type Missing = NumberT"
| "value_port_type (BoolV _) = BoolT"
| "value_port_type UnitV = UnitT"
| "value_port_type (StringV _) = StringT"
| "value_port_type (KillLevelV _) = KillLevelT"
| "value_port_type (StrategyKindV _) = StrategyKindT"
| "value_port_type (PairClassV _) = PairClassT"
| "value_port_type (QuotesV _) = QuotesT"
| "value_port_type (VenueQuotesV _) = QuotesT"

fun as_number :: "gvalue \<Rightarrow> decimal option" where
  "as_number (NumberV n) = Some n"
| "as_number _ = None"

fun as_bool :: "gvalue \<Rightarrow> bool option" where
  "as_bool (BoolV b) = Some b"
| "as_bool _ = None"

fun as_string :: "gvalue \<Rightarrow> string option" where
  "as_string (StringV s) = Some s"
| "as_string _ = None"

fun as_quotes :: "gvalue \<Rightarrow> graph_quote list option" where
  "as_quotes (QuotesV q) = Some q"
| "as_quotes _ = None"

fun as_venue_quotes :: "gvalue \<Rightarrow> venue_quote list option" where
  "as_venue_quotes (VenueQuotesV q) = Some q"
| "as_venue_quotes _ = None"

subsection \<open>Nodes and the compiled graph\<close>

record 's node_kind =
  nk_input_ports :: "(string \<times> port_type) list"
  nk_output_ports :: "(string \<times> port_type) list"
  nk_evaluate :: "int \<Rightarrow> gvalue list \<Rightarrow> 's \<Rightarrow> (string + gvalue list) \<times> 's"
  nk_restricted :: bool
  nk_config_schema :: "config_field list"

definition kind_shape_of :: "(string \<Rightarrow> json \<Rightarrow> 's node_kind option) \<Rightarrow> string \<Rightarrow> kind_shape option" where
  "kind_shape_of build_kind kind =
     map_option (\<lambda>nk. \<lparr>sh_inputs = nk_input_ports nk, sh_outputs = nk_output_ports nk,
         sh_restricted = nk_restricted nk, sh_config_schema = nk_config_schema nk\<rparr>) (build_kind kind JNull)"

datatype sink_action =
    SpreadMult decimal
  | SizeMult decimal
  | Volatility decimal
  | KillEscalate u8 string "string option"
  | Flatten string
  | Quotes "graph_quote list"
  | VenueQuotes "venue_quote list"
  | AtomicBundle atomic_bundle_spec

type_synonym port_values = "(node_id \<times> string, gvalue) hash_map"
type_synonym node_outputs = "(string, gvalue) hash_map"

record 's evaluator =
  ev_order :: "node_id list"
  ev_nodes :: "(node_id, 's node_kind) hash_map"
  ev_kinds :: "(node_id, string) hash_map"
  ev_states :: "(node_id, 's) hash_map"
  ev_incoming :: "(node_id \<times> string, node_id \<times> string) hash_map"
  ev_input_order :: "(node_id, string list) hash_map"
  ev_configs :: "(node_id, json) hash_map"

fun build_nodes ::
  "(string \<Rightarrow> json \<Rightarrow> 's node_kind option) \<Rightarrow> 's \<Rightarrow> node list \<Rightarrow> 's evaluator \<Rightarrow> validation_error + 's evaluator" where
  "build_nodes build_kind init [] ev = Inr ev"
| "build_nodes build_kind init (n # ns) ev =
     (case build_kind (n_kind n) (n_config n) of
        None \<Rightarrow> Inl (UnknownKind (n_kind n))
      | Some built \<Rightarrow>
          build_nodes build_kind init ns
            (ev\<lparr>ev_input_order := hm_insert (n_id n) (map fst (nk_input_ports built)) (ev_input_order ev),
                ev_nodes := hm_insert (n_id n) built (ev_nodes ev),
                ev_kinds := hm_insert (n_id n) (n_kind n) (ev_kinds ev),
                ev_states := hm_insert (n_id n) init (ev_states ev),
                ev_configs := hm_insert (n_id n) (n_config n) (ev_configs ev)\<rparr>))"

definition build_incoming :: "edge list \<Rightarrow> (node_id \<times> string, node_id \<times> string) hash_map" where
  "build_incoming es = fold (\<lambda>e. hm_insert (edge_target e) (pr_node (e_from e), pr_port (e_from e))) es []"

definition evaluator_build ::
  "((node_id \<times> string, nat) hash_map \<Rightarrow> (node_id \<times> string, nat) hash_map) \<Rightarrow> (degrees \<Rightarrow> degrees)
    \<Rightarrow> (string \<Rightarrow> json \<Rightarrow> 's node_kind option) \<Rightarrow> bool \<Rightarrow> node_id \<Rightarrow> 's \<Rightarrow> graph
    \<Rightarrow> (validation_error + 's evaluator) option" where
  "evaluator_build ord_fan ord_deg build_kind allow_restricted fresh init g =
     map_option
       (\<lambda>r. case r of
          Inl e \<Rightarrow> Inl e
        | Inr t \<Rightarrow>
            build_nodes build_kind init (g_nodes g)
              \<lparr>ev_order = to_order t, ev_nodes = [], ev_kinds = [], ev_states = [],
               ev_incoming = build_incoming (g_edges g), ev_input_order = [], ev_configs = []\<rparr>)
       (validate ord_fan ord_deg (kind_shape_of build_kind) allow_restricted fresh g)"

subsection \<open>Sinks\<close>

fun nth_value :: "gvalue list \<Rightarrow> nat \<Rightarrow> gvalue option" where
  "nth_value vs i = (if i < length vs then Some (vs ! i) else None)"

definition triggered :: "gvalue list \<Rightarrow> bool" where
  "triggered vs = (case Option.bind (nth_value vs 0) as_bool of None \<Rightarrow> False | Some b \<Rightarrow> b)"

definition number_sink :: "(decimal \<Rightarrow> sink_action) \<Rightarrow> gvalue list \<Rightarrow> sink_action list" where
  "number_sink act vs = (case Option.bind (nth_value vs 0) as_number of None \<Rightarrow> [] | Some n \<Rightarrow> [act n])"

definition kill_level_value :: "(decimal \<Rightarrow> u8 option) \<Rightarrow> gvalue list \<Rightarrow> u8" where
  "kill_level_value to_u8 vs =
     (case nth_value vs 1 of
        Some (KillLevelV l) \<Rightarrow> l
      | Some (NumberV n) \<Rightarrow> (case to_u8 n of None \<Rightarrow> 2 | Some u \<Rightarrow> min (max u 1) 5)
      | _ \<Rightarrow> 2)"

definition config_venue :: "json option \<Rightarrow> string option" where
  "config_venue cfg =
     (case cfg of
        Some (JObject obj) \<Rightarrow>
          (case Option.bind (map_of obj ''venue'') as_str of
             None \<Rightarrow> None
           | Some s \<Rightarrow> if s = [] then None else Some s)
      | _ \<Rightarrow> None)"

definition head_opt :: "'a list \<Rightarrow> 'a option" where
  "head_opt xs = (case xs of [] \<Rightarrow> None | x # _ \<Rightarrow> Some x)"

definition bundle_maker :: "gvalue list \<Rightarrow> venue_quote option" where
  "bundle_maker vs =
     (case Option.bind (Option.bind (nth_value vs 0) as_venue_quotes) head_opt of
        Some q \<Rightarrow> Some q
      | None \<Rightarrow>
          map_option (\<lambda>q. \<lparr>vq_venue = '''', vq_symbol = '''', vq_product = '''', vq_side = gq_side q,
                           vq_price = gq_price q, vq_qty = gq_qty q\<rparr>)
            (Option.bind (Option.bind (nth_value vs 0) as_quotes) head_opt))"

definition sink_actions ::
  "(decimal \<Rightarrow> u8 option) \<Rightarrow> (decimal \<Rightarrow> u64 option) \<Rightarrow> string \<Rightarrow> json option \<Rightarrow> gvalue list \<Rightarrow> sink_action list" where
  "sink_actions to_u8 to_u64 kind cfg vs =
     (if kind = ''Out.SpreadMult'' then number_sink SpreadMult vs
      else if kind = ''Out.SizeMult'' then number_sink SizeMult vs
      else if kind = ''Out.Volatility'' then number_sink Volatility vs
      else if kind = ''Out.KillEscalate'' then
        if triggered vs
        then [KillEscalate (kill_level_value to_u8 vs)
                (case Option.bind (nth_value vs 2) as_string of None \<Rightarrow> ''graph sink'' | Some s \<Rightarrow> s)
                (config_venue cfg)]
        else []
      else if kind = ''Out.Flatten'' then
        if triggered vs
        then [Flatten (case Option.bind (nth_value vs 1) as_string of None \<Rightarrow> ''twap:120:5'' | Some s \<Rightarrow> s)]
        else []
      else if kind = ''Out.Quotes'' then
        (case Option.bind (nth_value vs 0) as_quotes of None \<Rightarrow> [] | Some q \<Rightarrow> [Quotes q])
      else if kind = ''Out.VenueQuotes'' then
        (case Option.bind (nth_value vs 0) as_venue_quotes of None \<Rightarrow> [] | Some q \<Rightarrow> [VenueQuotes q])
      else if kind = ''Out.VenueQuotesIf'' then
        if \<not> triggered vs then []
        else (case Option.bind (nth_value vs 1) as_venue_quotes of
                Some q \<Rightarrow> if q = [] then [] else [VenueQuotes q]
              | None \<Rightarrow>
                  (case Option.bind (nth_value vs 1) as_quotes of
                     Some q \<Rightarrow> if q = [] then [] else [Quotes q]
                   | None \<Rightarrow> []))
      else if kind = ''Out.AtomicBundle'' then
        (case (bundle_maker vs, Option.bind (Option.bind (nth_value vs 1) as_venue_quotes) head_opt) of
           (Some maker, Some hedge) \<Rightarrow>
             [AtomicBundle \<lparr>ab_maker = maker, ab_hedge = hedge,
                ab_timeout_ms = (case Option.bind (nth_value vs 2) as_number of
                    None \<Rightarrow> 2000
                  | Some d \<Rightarrow> (case to_u64 d of None \<Rightarrow> 2000 | Some t \<Rightarrow> t))\<rparr>]
         | _ \<Rightarrow> [])
      else [])"

subsection \<open>One tick\<close>

datatype tick_error = EvalFailed string | Panic

datatype exec_status = ExecOk | ExecSource | ExecError string

record node_exec =
  nx_id :: node_id
  nx_kind :: string
  nx_inputs :: "(string \<times> gvalue) list"
  nx_outputs :: "(string \<times> gvalue) list"
  nx_status :: exec_status

record 's tick_state =
  ts_states :: "(node_id, 's) hash_map"
  ts_outputs :: "(node_id, node_outputs) hash_map"
  ts_sinks :: "sink_action list"
  ts_trace :: "node_exec list"

definition or_missing :: "gvalue option \<Rightarrow> gvalue" where
  "or_missing v = (case v of None \<Rightarrow> Missing | Some x \<Rightarrow> x)"

definition input_ports_of :: "'s evaluator \<Rightarrow> node_id \<Rightarrow> string list" where
  "input_ports_of ev i = (case hm_get (ev_input_order ev) i of None \<Rightarrow> [] | Some ps \<Rightarrow> ps)"

definition kind_of :: "'s evaluator \<Rightarrow> node_id \<Rightarrow> string" where
  "kind_of ev i = (case hm_get (ev_kinds ev) i of None \<Rightarrow> [] | Some k \<Rightarrow> k)"

definition marshal_port ::
  "'s evaluator \<Rightarrow> port_values \<Rightarrow> (node_id, node_outputs) hash_map \<Rightarrow> node_id \<Rightarrow> string \<Rightarrow> gvalue" where
  "marshal_port ev source_inputs outputs i p =
     (case hm_get (ev_incoming ev) (i, p) of
        Some (src, src_port) \<Rightarrow> or_missing (Option.bind (hm_get outputs src) (\<lambda>m. hm_get m src_port))
      | None \<Rightarrow> or_missing (hm_get source_inputs (i, p)))"

definition node_inputs ::
  "'s evaluator \<Rightarrow> port_values \<Rightarrow> (node_id, node_outputs) hash_map \<Rightarrow> node_id \<Rightarrow> gvalue list" where
  "node_inputs ev source_inputs outputs i = map (marshal_port ev source_inputs outputs i) (input_ports_of ev i)"

text \<open>A source overlays its own defaults with the values the engine supplies.\<close>

definition produced :: "'s evaluator \<Rightarrow> port_values \<Rightarrow> node_id \<Rightarrow> 's node_kind \<Rightarrow> gvalue list \<Rightarrow> gvalue list" where
  "produced ev source_inputs i nk vals =
     (if input_ports_of ev i = []
      then map (\<lambda>((p, _), dflt). case hm_get source_inputs (i, p) of None \<Rightarrow> dflt | Some v \<Rightarrow> v)
             (zip (nk_output_ports nk) vals)
      else vals)"

definition output_pairs :: "'s node_kind \<Rightarrow> gvalue list \<Rightarrow> (string \<times> gvalue) list" where
  "output_pairs nk vals = map (\<lambda>((p, _), v). (p, v)) (zip (nk_output_ports nk) vals)"

definition out_map :: "'s node_kind \<Rightarrow> gvalue list \<Rightarrow> node_outputs" where
  "out_map nk vals = fold (\<lambda>(p, v). hm_insert p v) (output_pairs nk vals) []"

definition exec_record ::
  "'s evaluator \<Rightarrow> port_values \<Rightarrow> node_id \<Rightarrow> 's node_kind \<Rightarrow> gvalue list \<Rightarrow> gvalue list \<Rightarrow> node_exec" where
  "exec_record ev source_inputs i nk ins vals =
     \<lparr>nx_id = i, nx_kind = kind_of ev i,
      nx_inputs = (if input_ports_of ev i = []
                   then List.map_filter (\<lambda>(p, _). map_option (\<lambda>v. (p, v)) (hm_get source_inputs (i, p))) (nk_output_ports nk)
                   else zip (input_ports_of ev i) ins),
      nx_outputs = output_pairs nk vals,
      nx_status = (if input_ports_of ev i = [] then ExecSource else ExecOk)\<rparr>"

definition node_sinks ::
  "(decimal \<Rightarrow> u8 option) \<Rightarrow> (decimal \<Rightarrow> u64 option) \<Rightarrow> 's evaluator \<Rightarrow> node_id \<Rightarrow> gvalue list \<Rightarrow> sink_action list" where
  "node_sinks to_u8 to_u64 ev i ins = sink_actions to_u8 to_u64 (kind_of ev i) (hm_get (ev_configs ev) i) ins"

definition tick_node ::
  "(decimal \<Rightarrow> u8 option) \<Rightarrow> (decimal \<Rightarrow> u64 option) \<Rightarrow> 's evaluator \<Rightarrow> int \<Rightarrow> port_values \<Rightarrow> node_id
    \<Rightarrow> 's tick_state \<Rightarrow> tick_error option \<times> 's tick_state" where
  "tick_node to_u8 to_u64 ev now_ms source_inputs i ts =
     (case hm_get (ev_nodes ev) i of
        None \<Rightarrow> (Some Panic, ts)
      | Some nk \<Rightarrow>
          let ins = node_inputs ev source_inputs (ts_outputs ts) i
          in case hm_get (ts_states ts) i of
               None \<Rightarrow> (Some Panic, ts)
             | Some st \<Rightarrow>
                 case nk_evaluate nk now_ms ins st of
                   (Inl e, st') \<Rightarrow> (Some (EvalFailed e), ts\<lparr>ts_states := hm_insert i st' (ts_states ts)\<rparr>)
                 | (Inr vals, st') \<Rightarrow>
                     let out = produced ev source_inputs i nk vals
                     in (None,
                         \<lparr>ts_states = hm_insert i st' (ts_states ts),
                          ts_outputs = hm_insert i (out_map nk out) (ts_outputs ts),
                          ts_sinks = ts_sinks ts @ node_sinks to_u8 to_u64 ev i ins,
                          ts_trace = ts_trace ts @ [exec_record ev source_inputs i nk ins out]\<rparr>))"

fun tick_loop ::
  "(decimal \<Rightarrow> u8 option) \<Rightarrow> (decimal \<Rightarrow> u64 option) \<Rightarrow> 's evaluator \<Rightarrow> int \<Rightarrow> port_values \<Rightarrow> node_id list
    \<Rightarrow> 's tick_state \<Rightarrow> tick_error option \<times> 's tick_state" where
  "tick_loop to_u8 to_u64 ev now_ms src [] ts = (None, ts)"
| "tick_loop to_u8 to_u64 ev now_ms src (i # is) ts =
     (case tick_node to_u8 to_u64 ev now_ms src i ts of
        (Some e, ts') \<Rightarrow> (Some e, ts')
      | (None, ts') \<Rightarrow> tick_loop to_u8 to_u64 ev now_ms src is ts')"

definition tick_start :: "'s evaluator \<Rightarrow> 's tick_state" where
  "tick_start ev = \<lparr>ts_states = ev_states ev, ts_outputs = [], ts_sinks = [], ts_trace = []\<rparr>"

definition tick_inner ::
  "(decimal \<Rightarrow> u8 option) \<Rightarrow> (decimal \<Rightarrow> u64 option) \<Rightarrow> 's evaluator \<Rightarrow> int \<Rightarrow> port_values
    \<Rightarrow> (tick_error + sink_action list \<times> node_exec list) \<times> 's evaluator" where
  "tick_inner to_u8 to_u64 ev now_ms source_inputs =
     (case tick_loop to_u8 to_u64 ev now_ms source_inputs (ev_order ev) (tick_start ev) of
        (Some e, ts) \<Rightarrow> (Inl e, ev\<lparr>ev_states := ts_states ts\<rparr>)
      | (None, ts) \<Rightarrow> (Inr (ts_sinks ts, ts_trace ts), ev\<lparr>ev_states := ts_states ts\<rparr>))"

definition tick ::
  "(decimal \<Rightarrow> u8 option) \<Rightarrow> (decimal \<Rightarrow> u64 option) \<Rightarrow> 's evaluator \<Rightarrow> int \<Rightarrow> port_values
    \<Rightarrow> (tick_error + sink_action list) \<times> 's evaluator" where
  "tick to_u8 to_u64 ev now_ms source_inputs =
     map_prod (map_sum id fst) id (tick_inner to_u8 to_u64 ev now_ms source_inputs)"

definition eval_trace_from_tick_trace :: "node_exec list \<Rightarrow> port_values" where
  "eval_trace_from_tick_trace tr =
     fold (\<lambda>x m. fold (\<lambda>(p, v). hm_insert (nx_id x, p) v) (nx_outputs x) m) tr []"

subsection \<open>The dataflow equations\<close>

text \<open>
  What a tick is to compute, stated without an order of evaluation: a table of outputs and new
  node states such that every node's outputs are its evaluation on inputs read from that same
  table.
\<close>

definition dataflow ::
  "'s evaluator \<Rightarrow> int \<Rightarrow> port_values \<Rightarrow> node_id set \<Rightarrow> (node_id, node_outputs) hash_map
    \<Rightarrow> (node_id, 's) hash_map \<Rightarrow> bool" where
  "dataflow ev now src N outs sts \<longleftrightarrow>
     (\<forall>i \<in> N. \<exists>nk st vals st'. hm_get (ev_nodes ev) i = Some nk \<and> hm_get (ev_states ev) i = Some st
        \<and> nk_evaluate nk now (node_inputs ev src outs i) st = (Inr vals, st')
        \<and> hm_get outs i = Some (out_map nk (produced ev src i nk vals)) \<and> hm_get sts i = Some st')"

definition feeds :: "'s evaluator \<Rightarrow> node_id \<Rightarrow> node_id set" where
  "feeds ev i = {s. \<exists>p \<in> set (input_ports_of ev i). \<exists>sp. hm_get (ev_incoming ev) (i, p) = Some (s, sp)}"

definition ev_topo :: "'s evaluator \<Rightarrow> node_id list \<Rightarrow> bool" where
  "ev_topo ev order \<longleftrightarrow> (\<forall>us v vs. order = us @ v # vs \<longrightarrow> feeds ev v \<subseteq> set us)"

lemma node_inputs_cong:
  assumes "\<And>s. s \<in> feeds ev i \<Longrightarrow> hm_get outs s = hm_get outs' s"
  shows "node_inputs ev src outs i = node_inputs ev src outs' i"
proof -
  have "marshal_port ev src outs i p = marshal_port ev src outs' i p" if "p \<in> set (input_ports_of ev i)" for p
  proof (cases "hm_get (ev_incoming ev) (i, p)")
    case (Some x)
    then have "fst x \<in> feeds ev i" using that by (cases x) (auto simp: feeds_def)
    then have "hm_get outs (fst x) = hm_get outs' (fst x)" by (rule assms)
    then show ?thesis using Some by (cases x) (simp add: marshal_port_def)
  qed (simp add: marshal_port_def)
  then show ?thesis by (simp add: node_inputs_def)
qed

definition tick_inv ::
  "(decimal \<Rightarrow> u8 option) \<Rightarrow> (decimal \<Rightarrow> u64 option) \<Rightarrow> 's evaluator \<Rightarrow> int \<Rightarrow> port_values \<Rightarrow> node_id list
    \<Rightarrow> 's tick_state \<Rightarrow> bool" where
  "tick_inv t8 t64 ev now src us ts \<longleftrightarrow>
     hm_ok (ts_states ts) \<and> hm_ok (ts_outputs ts)
     \<and> dataflow ev now src (set us) (ts_outputs ts) (ts_states ts)
     \<and> (\<forall>i. i \<notin> set us \<longrightarrow> hm_get (ts_states ts) i = hm_get (ev_states ev) i)
     \<and> ts_sinks ts = concat (map (\<lambda>i. node_sinks t8 t64 ev i (node_inputs ev src (ts_outputs ts) i)) us)"

lemma tick_node_ok:
  assumes "tick_node t8 t64 ev now src v ts = (None, ts')"
  obtains nk st vals st' where "hm_get (ev_nodes ev) v = Some nk" "hm_get (ts_states ts) v = Some st"
    "nk_evaluate nk now (node_inputs ev src (ts_outputs ts) v) st = (Inr vals, st')"
    "ts_states ts' = hm_insert v st' (ts_states ts)"
    "ts_outputs ts' = hm_insert v (out_map nk (produced ev src v nk vals)) (ts_outputs ts)"
    "ts_sinks ts' = ts_sinks ts @ node_sinks t8 t64 ev v (node_inputs ev src (ts_outputs ts) v)"
  using assms by (auto simp: tick_node_def Let_def split: option.splits sum.splits prod.splits)

lemma tick_step:
  assumes inv: "tick_inv t8 t64 ev now src us ts" and v: "v \<notin> set us" "feeds ev v \<subseteq> set us"
    and closed: "\<And>i. i \<in> set us \<Longrightarrow> feeds ev i \<subseteq> set us"
    and step: "tick_node t8 t64 ev now src v ts = (None, ts')"
  shows "tick_inv t8 t64 ev now src (us @ [v]) ts'"
proof -
  from tick_node_ok [OF step] obtain nk st vals st' where
    n: "hm_get (ev_nodes ev) v = Some nk" "hm_get (ts_states ts) v = Some st"
    "nk_evaluate nk now (node_inputs ev src (ts_outputs ts) v) st = (Inr vals, st')"
    and t: "ts_states ts' = hm_insert v st' (ts_states ts)"
    "ts_outputs ts' = hm_insert v (out_map nk (produced ev src v nk vals)) (ts_outputs ts)"
    "ts_sinks ts' = ts_sinks ts @ node_sinks t8 t64 ev v (node_inputs ev src (ts_outputs ts) v)" .
  have ok: "hm_ok (ts_states ts)" "hm_ok (ts_outputs ts)" using inv by (auto simp: tick_inv_def)
  have get: "hm_get (ts_states ts') = (hm_get (ts_states ts))(v \<mapsto> st')"
    "hm_get (ts_outputs ts') = (hm_get (ts_outputs ts))(v \<mapsto> out_map nk (produced ev src v nk vals))"
    using ok by (simp_all add: t hm_simps)
  have same: "node_inputs ev src (ts_outputs ts') i = node_inputs ev src (ts_outputs ts) i" if "i \<in> insert v (set us)" for i
    using that v closed by (intro node_inputs_cong) (auto simp: get)
  have "hm_get (ev_states ev) v = Some st" using inv v(1) n(2) by (simp add: tick_inv_def)
  then have new: "\<exists>nk st vals st'. hm_get (ev_nodes ev) v = Some nk \<and> hm_get (ev_states ev) v = Some st
        \<and> nk_evaluate nk now (node_inputs ev src (ts_outputs ts') v) st = (Inr vals, st')
        \<and> hm_get (ts_outputs ts') v = Some (out_map nk (produced ev src v nk vals)) \<and> hm_get (ts_states ts') v = Some st'"
    using n same [of v] by (simp add: get)
  have "dataflow ev now src (set us) (ts_outputs ts') (ts_states ts')"
    unfolding dataflow_def
  proof
    fix i
    assume i: "i \<in> set us"
    then obtain nk st vals st' where "hm_get (ev_nodes ev) i = Some nk" "hm_get (ev_states ev) i = Some st"
      "nk_evaluate nk now (node_inputs ev src (ts_outputs ts) i) st = (Inr vals, st')"
      "hm_get (ts_outputs ts) i = Some (out_map nk (produced ev src i nk vals))" "hm_get (ts_states ts) i = Some st'"
      using inv unfolding tick_inv_def dataflow_def by blast
    moreover have "i \<noteq> v" using i v(1) by auto
    ultimately show "\<exists>nk st vals st'. hm_get (ev_nodes ev) i = Some nk \<and> hm_get (ev_states ev) i = Some st
        \<and> nk_evaluate nk now (node_inputs ev src (ts_outputs ts') i) st = (Inr vals, st')
        \<and> hm_get (ts_outputs ts') i = Some (out_map nk (produced ev src i nk vals)) \<and> hm_get (ts_states ts') i = Some st'"
      using same [of i] i by (simp add: get)
  qed
  then have "dataflow ev now src (set (us @ [v])) (ts_outputs ts') (ts_states ts')"
    using new by (auto simp: dataflow_def)
  moreover have "concat (map (\<lambda>i. node_sinks t8 t64 ev i (node_inputs ev src (ts_outputs ts') i)) us)
      = concat (map (\<lambda>i. node_sinks t8 t64 ev i (node_inputs ev src (ts_outputs ts) i)) us)"
    using same by (metis (no_types, lifting) insertI2 map_cong)
  ultimately show ?thesis
    using inv same [of v] ok by (auto simp: tick_inv_def get t hm_simps)
qed

lemma ev_topo_front:
  assumes "ev_topo ev (us @ v # vs)"
  shows "feeds ev v \<subseteq> set us" and "i \<in> set us \<Longrightarrow> feeds ev i \<subseteq> set us"
proof -
  show "feeds ev v \<subseteq> set us" using assms unfolding ev_topo_def by blast
  assume "i \<in> set us"
  then obtain xs ys where us: "us = xs @ i # ys" by (meson split_list)
  then have "us @ v # vs = xs @ i # (ys @ v # vs)" by simp
  then have "feeds ev i \<subseteq> set xs" using assms unfolding ev_topo_def by blast
  then show "feeds ev i \<subseteq> set us" by (auto simp: us)
qed

lemma tick_loop_sound:
  assumes "ev_topo ev (us @ vs)" and "distinct (us @ vs)" and "tick_inv t8 t64 ev now src us ts"
    and "tick_loop t8 t64 ev now src vs ts = (None, ts')"
  shows "tick_inv t8 t64 ev now src (us @ vs) ts'"
  using assms
proof (induction vs arbitrary: us ts)
  case (Cons v vs)
  obtain ts1 where s: "tick_node t8 t64 ev now src v ts = (None, ts1)"
    and r: "tick_loop t8 t64 ev now src vs ts1 = (None, ts')"
    using Cons.prems(4) by (auto split: prod.splits option.splits)
  have "tick_inv t8 t64 ev now src (us @ [v]) ts1"
    using tick_step [OF Cons.prems(3) _ _ _ s] ev_topo_front [OF Cons.prems(1)] Cons.prems(2) by auto
  then show ?case using Cons.IH [of "us @ [v]" ts1] Cons.prems(1,2) r by simp
qed simp

text \<open>Conversely, a solution of the equations is what the loop computes, in any topological order.\<close>

lemma tick_loop_complete:
  assumes "ev_topo ev (us @ vs)" and "distinct (us @ vs)" and "tick_inv t8 t64 ev now src us ts"
    and "dataflow ev now src (set (us @ vs)) outs sts"
    and "\<And>i. i \<in> set us \<Longrightarrow> hm_get (ts_outputs ts) i = hm_get outs i \<and> hm_get (ts_states ts) i = hm_get sts i"
  shows "\<exists>ts'. tick_loop t8 t64 ev now src vs ts = (None, ts') \<and>
    (\<forall>i \<in> set (us @ vs). hm_get (ts_outputs ts') i = hm_get outs i \<and> hm_get (ts_states ts') i = hm_get sts i)"
  using assms
proof (induction vs arbitrary: us ts)
  case (Cons v vs)
  have ok: "hm_ok (ts_states ts)" "hm_ok (ts_outputs ts)" using Cons.prems(3) by (auto simp: tick_inv_def)
  have fv: "feeds ev v \<subseteq> set us" using ev_topo_front [OF Cons.prems(1)] by blast
  obtain nk st vals st' where n: "hm_get (ev_nodes ev) v = Some nk" "hm_get (ev_states ev) v = Some st"
    "nk_evaluate nk now (node_inputs ev src outs v) st = (Inr vals, st')"
    "hm_get outs v = Some (out_map nk (produced ev src v nk vals))" "hm_get sts v = Some st'"
    using Cons.prems(4) by (auto simp: dataflow_def)
  have "hm_get (ts_states ts) v = Some st" using Cons.prems(2,3) n(2) by (simp add: tick_inv_def)
  moreover have "node_inputs ev src (ts_outputs ts) v = node_inputs ev src outs v"
    by (rule node_inputs_cong) (use fv Cons.prems(5) in blast)
  ultimately have step: "fst (tick_node t8 t64 ev now src v ts) = None"
    "ts_states (snd (tick_node t8 t64 ev now src v ts)) = hm_insert v st' (ts_states ts)"
    "ts_outputs (snd (tick_node t8 t64 ev now src v ts)) = hm_insert v (out_map nk (produced ev src v nk vals)) (ts_outputs ts)"
    using n by (simp_all add: tick_node_def Let_def)
  then obtain ts1 where s: "tick_node t8 t64 ev now src v ts = (None, ts1)"
    and t: "ts_states ts1 = hm_insert v st' (ts_states ts)"
    "ts_outputs ts1 = hm_insert v (out_map nk (produced ev src v nk vals)) (ts_outputs ts)"
    by (metis prod.collapse)
  have "tick_inv t8 t64 ev now src (us @ [v]) ts1"
    using tick_step [OF Cons.prems(3) _ _ _ s] ev_topo_front [OF Cons.prems(1)] Cons.prems(2) by auto
  moreover have "hm_get (ts_outputs ts1) i = hm_get outs i \<and> hm_get (ts_states ts1) i = hm_get sts i"
    if "i \<in> set (us @ [v])" for i
    using that Cons.prems(2,5) n ok by (auto simp: t hm_simps)
  ultimately show ?case using Cons.IH [of "us @ [v]" ts1] Cons.prems(1,2,4) s by simp
qed simp

subsection \<open>Compiled evaluators\<close>

definition compiled :: "'s evaluator \<Rightarrow> bool" where
  "compiled ev \<longleftrightarrow> ev_topo ev (ev_order ev) \<and> distinct (ev_order ev) \<and> hm_ok (ev_states ev)
     \<and> (\<forall>i \<in> set (ev_order ev). hm_get (ev_nodes ev) i \<noteq> None \<and> hm_get (ev_states ev) i \<noteq> None)"

lemma build_nodes_Inr:
  assumes "build_nodes bk init ns ev = Inr ev'" and "hm_ok (ev_nodes ev)" and "hm_ok (ev_states ev)"
  shows "ev_order ev' = ev_order ev \<and> ev_incoming ev' = ev_incoming ev \<and> hm_ok (ev_states ev')
    \<and> dom (hm_get (ev_nodes ev')) = dom (hm_get (ev_nodes ev)) \<union> n_id ` set ns
    \<and> dom (hm_get (ev_states ev')) = dom (hm_get (ev_states ev)) \<union> n_id ` set ns"
  using assms
proof (induction ns arbitrary: ev)
  case (Cons n ns)
  then show ?case by (auto simp: hm_simps split: option.splits dest!: Cons.IH)
qed simp

lemma build_incoming_edge:
  assumes "hm_get (build_incoming es) (i, p) = Some (s, sp)"
  shows "\<exists>e \<in> set es. edge_target e = (i, p) \<and> pr_node (e_from e) = s \<and> pr_port (e_from e) = sp"
proof -
  have "hm_get (build_incoming es) (i, p) = (case find (\<lambda>e. edge_target e = (i, p)) (rev es) of
      None \<Rightarrow> None | Some e \<Rightarrow> Some (pr_node (e_from e), pr_port (e_from e)))"
    using hm.get_inserts [of "[]" edge_target "\<lambda>e. (pr_node (e_from e), pr_port (e_from e))" es "(i, p)"]
    by (simp add: build_incoming_def split: option.split)
  with assms show ?thesis by (auto dest!: find_SomeD split: option.splits)
qed

definition blank :: "graph \<Rightarrow> node_id list \<Rightarrow> 's evaluator" where
  "blank g order = \<lparr>ev_order = order, ev_nodes = [], ev_kinds = [], ev_states = [],
     ev_incoming = build_incoming (g_edges g), ev_input_order = [], ev_configs = []\<rparr>"

lemma evaluator_build_Inr:
  assumes "evaluator_build ord_fan ord_deg bk allow fresh init g = Some (Inr ev)"
  shows "\<exists>t. validate ord_fan ord_deg (kind_shape_of bk) allow fresh g = Some (Inr t)
    \<and> build_nodes bk init (g_nodes g) (blank g (to_order t)) = Inr ev"
proof -
  obtain r where r: "validate ord_fan ord_deg (kind_shape_of bk) allow fresh g = Some r"
    using assms by (auto simp: evaluator_build_def)
  then show ?thesis using assms by (cases r) (auto simp: evaluator_build_def blank_def)
qed

lemma build_compiled:
  assumes ords: "iter_order ord_fan" "iter_order ord_deg"
    and b: "evaluator_build ord_fan ord_deg bk allow fresh init g = Some (Inr ev)"
  shows "compiled ev" and "set (ev_order ev) = n_id ` set (g_nodes g)"
proof -
  obtain t where v: "validate ord_fan ord_deg (kind_shape_of bk) allow fresh g = Some (Inr t)"
    and n: "build_nodes bk init (g_nodes g) (blank g (to_order t)) = Inr ev"
    using evaluator_build_Inr [OF b] by blast
  note bn = build_nodes_Inr [OF n, simplified blank_def, simplified]
  note tp = validate_order [OF ords v]
  have "feeds ev x \<subseteq> set us" if "to_order t = us @ x # vs" for us x vs
  proof
    fix s
    assume "s \<in> feeds ev x"
    then obtain p sp where "hm_get (build_incoming (g_edges g)) (x, p) = Some (s, sp)"
      using bn by (auto simp: feeds_def)
    then have "(s, x) \<in> set (arcs_of g)" by (force simp: arcs_of_def edge_target_def dest: build_incoming_edge)
    then show "s \<in> set us" using tp(3) that by (auto simp: topo_def)
  qed
  then show "compiled ev" using bn tp by (auto simp: compiled_def ev_topo_def dom_def)
  show "set (ev_order ev) = n_id ` set (g_nodes g)" using bn tp by simp
qed

lemma tick_node_keeps:
  assumes "tick_node t8 t64 ev now src i ts = (r, ts')" and "hm_ok (ts_states ts)"
  shows "hm_ok (ts_states ts') \<and> dom (hm_get (ts_states ts)) = dom (hm_get (ts_states ts'))
    \<and> (hm_get (ev_nodes ev) i \<noteq> None \<longrightarrow> hm_get (ts_states ts) i \<noteq> None \<longrightarrow> r \<noteq> Some Panic)"
  using assms
  by (auto simp: tick_node_def Let_def hm_simps insert_absorb domI split: option.splits prod.splits sum.splits if_splits)

lemma tick_loop_keeps:
  assumes "tick_loop t8 t64 ev now src is ts = (r, ts')" and "hm_ok (ts_states ts)"
    and "\<And>i. i \<in> set is \<Longrightarrow> hm_get (ev_nodes ev) i \<noteq> None \<and> hm_get (ts_states ts) i \<noteq> None"
  shows "hm_ok (ts_states ts') \<and> dom (hm_get (ts_states ts)) = dom (hm_get (ts_states ts')) \<and> r \<noteq> Some Panic"
  using assms
proof (induction "is" arbitrary: ts)
  case (Cons i "is")
  obtain r1 ts1 where s: "tick_node t8 t64 ev now src i ts = (r1, ts1)" by (rule prod.exhaust)
  note k = tick_node_keeps [OF s Cons.prems(2)]
  have d: "hm_get (ts_states ts1) j \<noteq> None \<longleftrightarrow> hm_get (ts_states ts) j \<noteq> None" for j using k by (metis domIff)
  show ?case
  proof (cases r1)
    case None
    then have "tick_loop t8 t64 ev now src is ts1 = (r, ts')" using Cons.prems(1) s by simp
    then show ?thesis using Cons.IH [of ts1] k d Cons.prems(3) by auto
  next
    case (Some e)
    then show ?thesis using Cons.prems(1,3) s k by auto
  qed
qed simp

lemma tick_inner_ok:
  assumes c: "compiled ev" and t: "tick_inner t8 t64 ev now src = (Inr (sinks, tr), ev')"
  shows "\<exists>ts. tick_loop t8 t64 ev now src (ev_order ev) (tick_start ev) = (None, ts)
    \<and> tick_inv t8 t64 ev now src (ev_order ev) ts \<and> sinks = ts_sinks ts \<and> ev' = ev\<lparr>ev_states := ts_states ts\<rparr>"
proof -
  obtain ts where l: "tick_loop t8 t64 ev now src (ev_order ev) (tick_start ev) = (None, ts)"
    and "sinks = ts_sinks ts" "ev' = ev\<lparr>ev_states := ts_states ts\<rparr>"
    using t by (auto simp: tick_inner_def split: prod.splits option.splits)
  moreover have "tick_inv t8 t64 ev now src [] (tick_start ev)"
    using c by (simp add: tick_inv_def tick_start_def dataflow_def compiled_def)
  then have "tick_inv t8 t64 ev now src (ev_order ev) ts"
    using tick_loop_sound [of ev "[]" "ev_order ev"] c l by (simp add: compiled_def)
  ultimately show ?thesis by blast
qed

text \<open>A tick keeps an evaluator compiled and never panics.\<close>

lemma tick_compiled:
  assumes c: "compiled ev" and t: "tick_inner t8 t64 ev now src = (r, ev')"
  shows "compiled ev'" and "r \<noteq> Inl Panic"
proof -
  obtain e ts where l: "tick_loop t8 t64 ev now src (ev_order ev) (tick_start ev) = (e, ts)" by (rule prod.exhaust)
  have st: "ev' = ev\<lparr>ev_states := ts_states ts\<rparr>"
    and res: "r = (case e of None \<Rightarrow> Inr (ts_sinks ts, ts_trace ts) | Some x \<Rightarrow> Inl x)"
    using t l by (auto simp: tick_inner_def split: option.splits)
  have k: "hm_ok (ts_states ts)" "dom (hm_get (ev_states ev)) = dom (hm_get (ts_states ts))" "e \<noteq> Some Panic"
    using tick_loop_keeps [OF l] c by (auto simp: compiled_def tick_start_def)
  show "r \<noteq> Inl Panic" using k(3) res by (auto split: option.splits)
  have "feeds ev' = feeds ev" by (auto simp: st feeds_def input_ports_of_def fun_eq_iff)
  then show "compiled ev'" using c k by (auto simp: compiled_def ev_topo_def st)
qed

subsection \<open>Two evaluators of one graph\<close>

definition same_graph :: "'s evaluator \<Rightarrow> 's evaluator \<Rightarrow> bool" where
  "same_graph ev1 ev2 \<longleftrightarrow> compiled ev1 \<and> compiled ev2 \<and> set (ev_order ev1) = set (ev_order ev2)
     \<and> ev_nodes ev1 = ev_nodes ev2 \<and> ev_kinds ev1 = ev_kinds ev2 \<and> ev_incoming ev1 = ev_incoming ev2
     \<and> ev_input_order ev1 = ev_input_order ev2 \<and> ev_configs ev1 = ev_configs ev2
     \<and> hm_get (ev_states ev1) = hm_get (ev_states ev2)"

lemma same_graph_eqs:
  assumes "same_graph ev1 ev2"
  shows "node_inputs ev1 = node_inputs ev2" and "feeds ev1 = feeds ev2" and "produced ev1 = produced ev2"
    and "node_sinks t8 t64 ev1 = node_sinks t8 t64 ev2" and "dataflow ev1 = dataflow ev2"
proof -
  have ip: "input_ports_of ev1 = input_ports_of ev2" and mp: "marshal_port ev1 = marshal_port ev2"
    and nd: "ev_nodes ev1 = ev_nodes ev2" and st: "hm_get (ev_states ev1) = hm_get (ev_states ev2)"
    using assms by (simp_all add: same_graph_def input_ports_of_def marshal_port_def fun_eq_iff)
  show ni: "node_inputs ev1 = node_inputs ev2" by (simp add: node_inputs_def fun_eq_iff ip mp)
  show pr: "produced ev1 = produced ev2" by (simp add: produced_def fun_eq_iff ip)
  show "feeds ev1 = feeds ev2" using assms by (simp add: feeds_def fun_eq_iff ip same_graph_def)
  show "node_sinks t8 t64 ev1 = node_sinks t8 t64 ev2"
    using assms by (simp add: node_sinks_def kind_of_def fun_eq_iff same_graph_def)
  show "dataflow ev1 = dataflow ev2"
    by (intro ext) (simp only: dataflow_def ni pr nd st)
qed

lemma mset_concat_map: "mset xs = mset ys \<Longrightarrow> mset (concat (map f xs)) = mset (concat (map f ys))"
proof -
  have "mset (concat (map f xs)) = (\<Sum>x \<in># mset xs. mset (f x))" for xs
    by (induction xs) simp_all
  then show "mset xs = mset ys \<Longrightarrow> ?thesis" by simp
qed

lemma same_graph_tick:
  assumes s: "same_graph ev1 ev2" and t: "tick_inner t8 t64 ev1 now src = (Inr (sinks1, tr1), ev1')"
  shows "\<exists>sinks2 tr2 ev2'. tick_inner t8 t64 ev2 now src = (Inr (sinks2, tr2), ev2')
    \<and> mset sinks2 = mset sinks1 \<and> same_graph ev1' ev2'"
proof -
  have c1: "compiled ev1" and c2: "compiled ev2" and os: "set (ev_order ev1) = set (ev_order ev2)"
    and st0: "hm_get (ev_states ev1) = hm_get (ev_states ev2)" using s by (auto simp: same_graph_def)
  note eq = same_graph_eqs [OF s]
  obtain ts1 where i1: "tick_inv t8 t64 ev1 now src (ev_order ev1) ts1" and r1: "sinks1 = ts_sinks ts1"
    "ev1' = ev1\<lparr>ev_states := ts_states ts1\<rparr>" using tick_inner_ok [OF c1 t] by blast
  have df: "dataflow ev2 now src (set (ev_order ev2)) (ts_outputs ts1) (ts_states ts1)"
    using i1 eq(5) os by (simp add: tick_inv_def)
  have start: "tick_inv t8 t64 ev2 now src [] (tick_start ev2)"
    using c2 by (simp add: tick_inv_def tick_start_def dataflow_def compiled_def)
  obtain ts2 where l2: "tick_loop t8 t64 ev2 now src (ev_order ev2) (tick_start ev2) = (None, ts2)"
    and ag: "\<And>i. i \<in> set (ev_order ev2) \<Longrightarrow> hm_get (ts_outputs ts2) i = hm_get (ts_outputs ts1) i
        \<and> hm_get (ts_states ts2) i = hm_get (ts_states ts1) i"
    using tick_loop_complete [OF _ _ start, of "ev_order ev2" "ts_outputs ts1" "ts_states ts1"] c2 df
    by (auto simp: compiled_def)
  let ?ev2' = "ev2\<lparr>ev_states := ts_states ts2\<rparr>"
  have t2: "tick_inner t8 t64 ev2 now src = (Inr (ts_sinks ts2, ts_trace ts2), ?ev2')"
    using l2 by (simp add: tick_inner_def)
  have i2: "tick_inv t8 t64 ev2 now src (ev_order ev2) ts2"
    using tick_inner_ok [OF c2 t2] l2 by auto
  have inp: "node_inputs ev2 src (ts_outputs ts2) i = node_inputs ev2 src (ts_outputs ts1) i"
    if i: "i \<in> set (ev_order ev2)" for i
  proof (rule node_inputs_cong)
    fix f
    assume "f \<in> feeds ev2 i"
    moreover obtain us vs where "ev_order ev2 = us @ i # vs" using i by (meson split_list)
    ultimately have "f \<in> set (ev_order ev2)" using c2 by (auto simp: compiled_def ev_topo_def)
    then show "hm_get (ts_outputs ts2) f = hm_get (ts_outputs ts1) f" using ag by blast
  qed
  have "mset (ev_order ev2) = mset (ev_order ev1)"
    using c1 c2 os by (simp add: compiled_def set_eq_iff_mset_eq_distinct)
  then have "mset (concat (map f (ev_order ev2))) = mset (concat (map f (ev_order ev1)))" for f :: "node_id \<Rightarrow> sink_action list"
    by (rule mset_concat_map)
  moreover have "map (\<lambda>i. node_sinks t8 t64 ev2 i (node_inputs ev2 src (ts_outputs ts2) i)) (ev_order ev2)
      = map (\<lambda>i. node_sinks t8 t64 ev1 i (node_inputs ev1 src (ts_outputs ts1) i)) (ev_order ev2)"
    using inp by (simp add: eq(1,4))
  ultimately have "mset (ts_sinks ts2) = mset (ts_sinks ts1)"
    using i1 i2 unfolding tick_inv_def by metis
  moreover have "hm_get (ts_states ts2) i = hm_get (ts_states ts1) i" for i
    using ag [of i] i1 i2 os st0 by (cases "i \<in> set (ev_order ev2)") (simp_all add: tick_inv_def)
  then have "same_graph ev1' ?ev2'"
    using s tick_compiled(1) [OF c1 t] tick_compiled(1) [OF c2 t2] r1 by (simp add: same_graph_def fun_eq_iff)
  ultimately show ?thesis using t2 r1 by blast
qed

fun run_ticks ::
  "(decimal \<Rightarrow> u8 option) \<Rightarrow> (decimal \<Rightarrow> u64 option) \<Rightarrow> 's evaluator \<Rightarrow> (int \<times> port_values) list
    \<Rightarrow> (sink_action list list \<times> 's evaluator) option" where
  "run_ticks t8 t64 ev [] = Some ([], ev)"
| "run_ticks t8 t64 ev ((now, src) # h) =
     (case tick_inner t8 t64 ev now src of
        (Inl e, _) \<Rightarrow> None
      | (Inr (sinks, _), ev') \<Rightarrow> map_option (\<lambda>(ss, e). (sinks # ss, e)) (run_ticks t8 t64 ev' h))"

lemma run_compiled: "compiled ev \<Longrightarrow> run_ticks t8 t64 ev h = Some (ss, ev') \<Longrightarrow> compiled ev'"
  by (induction t8 t64 ev h arbitrary: ss rule: run_ticks.induct)
    (auto dest: tick_compiled(1) split: prod.splits sum.splits)

lemma run_order: "run_ticks t8 t64 ev h = Some (ss, ev') \<Longrightarrow> ev_order ev' = ev_order ev"
proof (induction t8 t64 ev h arbitrary: ss rule: run_ticks.induct)
  case (2 t8 t64 ev now src h)
  then show ?case
    by (auto simp: tick_inner_def split: prod.splits sum.splits option.splits)
qed simp

lemma same_graph_run:
  assumes "same_graph ev1 ev2" and "run_ticks t8 t64 ev1 h = Some (ss1, ev1')"
  shows "\<exists>ss2 ev2'. run_ticks t8 t64 ev2 h = Some (ss2, ev2') \<and> map mset ss2 = map mset ss1"
  using assms
proof (induction h arbitrary: ev1 ev2 ss1)
  case (Cons x h)
  obtain now src where x: "x = (now, src)" by (rule prod.exhaust)
  obtain s1 tr1 e1 ss where t: "tick_inner t8 t64 ev1 now src = (Inr (s1, tr1), e1)"
    and r: "run_ticks t8 t64 e1 h = Some (ss, ev1')" and ss1: "ss1 = s1 # ss"
    using Cons.prems(2) by (auto simp: x split: prod.splits sum.splits)
  from same_graph_tick [OF Cons.prems(1) t] obtain s2 tr2 e2 where
    t2: "tick_inner t8 t64 ev2 now src = (Inr (s2, tr2), e2)" "mset s2 = mset s1" "same_graph e1 e2" by blast
  from Cons.IH [OF t2(3) r] obtain ss2 ev2' where "run_ticks t8 t64 e2 h = Some (ss2, ev2')" "map mset ss2 = map mset ss"
    by blast
  then show ?case using t2 ss1 by (simp add: x)
qed simp

lemma build_same_graph:
  assumes o1: "iter_order fan1" "iter_order deg1" and o2: "iter_order fan2" "iter_order deg2"
    and b1: "evaluator_build fan1 deg1 bk allow fresh1 init g = Some (Inr ev1)"
    and b2: "evaluator_build fan2 deg2 bk allow fresh2 init g = Some (Inr ev2)"
  shows "same_graph ev1 ev2"
proof -
  have frame: "build_nodes bk init ns \<lparr>ev_order = x, ev_nodes = nn, ev_kinds = kk, ev_states = ss,
         ev_incoming = inc, ev_input_order = ii, ev_configs = cc\<rparr> =
       map_sum id (\<lambda>e. e\<lparr>ev_order := x\<rparr>) (build_nodes bk init ns \<lparr>ev_order = y, ev_nodes = nn, ev_kinds = kk,
         ev_states = ss, ev_incoming = inc, ev_input_order = ii, ev_configs = cc\<rparr>)"
    for ns x y nn kk ss inc ii cc
    by (induction ns arbitrary: nn kk ss ii cc) (auto split: option.split)
  obtain t1 t2 :: topo_order where n1: "build_nodes bk init (g_nodes g) (blank g (to_order t1)) = Inr ev1"
    and n2: "build_nodes bk init (g_nodes g) (blank g (to_order t2)) = Inr ev2"
    using evaluator_build_Inr [OF b1] evaluator_build_Inr [OF b2] by blast
  have "ev2 = ev1\<lparr>ev_order := to_order t2\<rparr>"
    using frame [of "g_nodes g" "to_order t2" "[]" "[]" "[]" "build_incoming (g_edges g)" "[]" "[]" "to_order t1"]
      n1 n2 by (simp add: blank_def)
  then show ?thesis
    using build_compiled [OF o1 b1] build_compiled [OF o2 b2] by (auto simp: same_graph_def)
qed

subsection \<open>Properties\<close>

text \<open>
  C6: a tick computes the dataflow of the graph. On an evaluator built from a graph, after any
  number of earlier ticks, a tick never panics; if it succeeds there is a table of outputs in
  which every node's outputs are exactly its evaluation on the values its edges carry in that
  same table (never a value of an earlier tick, never a value missing because of the order of
  evaluation), every node was evaluated once on its previous state, and the actions returned are
  those of the sinks on these inputs.
\<close>

theorem tick_computes_dataflow:
  assumes "iter_order ord_fan" and "iter_order ord_deg"
    and "evaluator_build ord_fan ord_deg bk allow fresh init g = Some (Inr ev0)"
    and "run_ticks t8 t64 ev0 history = Some (past, ev)"
    and "tick_inner t8 t64 ev now src = (r, ev')"
  shows "r \<noteq> Inl Panic \<and> (\<forall>sinks tr. r = Inr (sinks, tr) \<longrightarrow>
      (\<exists>outs. dataflow ev now src (n_id ` set (g_nodes g)) outs (ev_states ev')
         \<and> sinks = concat (map (\<lambda>i. node_sinks t8 t64 ev i (node_inputs ev src outs i)) (ev_order ev))))"
proof -
  note b = build_compiled [OF assms(1-3)]
  have c: "compiled ev" by (rule run_compiled [OF b(1) assms(4)])
  have o: "set (ev_order ev) = n_id ` set (g_nodes g)" using run_order [OF assms(4)] b(2) by simp
  have "\<exists>outs. dataflow ev now src (n_id ` set (g_nodes g)) outs (ev_states ev')
         \<and> sinks = concat (map (\<lambda>i. node_sinks t8 t64 ev i (node_inputs ev src outs i)) (ev_order ev))"
    if "r = Inr (sinks, tr)" for sinks tr
  proof -
    have "tick_inner t8 t64 ev now src = (Inr (sinks, tr), ev')" using that assms(5) by simp
    from tick_inner_ok [OF c this] show ?thesis by (auto simp: tick_inv_def o)
  qed
  then show ?thesis using tick_compiled(2) [OF c assms(5)] by blast
qed

text \<open>
  Evaluation does not depend on hash order. Two evaluators built from one graph, whatever the
  iteration orders of the maps used in validation, behave the same on every sequence of ticks:
  if the first gets through the sequence so does the second, and at every tick both return the
  same actions up to their order.
\<close>

theorem tick_order_independent:
  assumes "iter_order fan1" and "iter_order deg1" and "iter_order fan2" and "iter_order deg2"
    and "evaluator_build fan1 deg1 bk allow fresh1 init g = Some (Inr ev1)"
    and "evaluator_build fan2 deg2 bk allow fresh2 init g = Some (Inr ev2)"
    and "run_ticks t8 t64 ev1 history = Some (ss1, ev1')"
  shows "\<exists>ss2 ev2'. run_ticks t8 t64 ev2 history = Some (ss2, ev2') \<and> map mset ss2 = map mset ss1"
  by (rule same_graph_run [OF build_same_graph [OF assms(1-6)] assms(7)])

end
