(* ===== verification/Graph_Nodes.thy ===== *)
theory Graph_Nodes
  imports Graph_Evaluator
begin

section \<open>Core nodes of the catalog\<close>

text \<open>
  The stateless nodes of \<^verbatim>\<open>crates/strategy-graph/src/nodes\<close> (\<^verbatim>\<open>math.rs\<close>, \<^verbatim>\<open>logic.rs\<close>, \<^verbatim>\<open>sinks.rs\<close>) and the part
  of \<^verbatim>\<open>catalog.rs\<close> that builds them. The text parser of the decimal library is the argument
  \<open>parse_decimal\<close>; nodes of other kinds come from the argument \<open>other\<close>. The deserialisation the
  configurations derive is written out: an object with optional string fields, or their values as
  an array.
\<close>

subsection \<open>Configuration\<close>

text \<open>An optional string: absent or null, or a string; anything else is refused.\<close>

fun opt_string :: "json option \<Rightarrow> string option option" where
  "opt_string None = Some None"
| "opt_string (Some JNull) = Some None"
| "opt_string (Some (JString s)) = Some (Some s)"
| "opt_string (Some _) = None"

definition cfg_field :: "json \<Rightarrow> nat \<Rightarrow> string \<Rightarrow> json option" where
  "cfg_field cfg i name =
     (case cfg of
        JObject obj \<Rightarrow> map_of obj name
      | JArray vs \<Rightarrow> if i < length vs then Some (vs ! i) else None
      | _ \<Rightarrow> None)"

definition cfg_struct :: "json \<Rightarrow> nat \<Rightarrow> bool" where
  "cfg_struct cfg fields_count =
     (case cfg of JObject _ \<Rightarrow> True | JArray vs \<Rightarrow> length vs \<le> fields_count | _ \<Rightarrow> False)"

definition decimal_field ::
  "(string \<Rightarrow> decimal option) \<Rightarrow> string option \<Rightarrow> decimal \<Rightarrow> (decimal \<Rightarrow> bool) \<Rightarrow> decimal option" where
  "decimal_field parse_decimal raw dflt valid =
     (case raw of
        None \<Rightarrow> Some dflt
      | Some s \<Rightarrow> (case parse_decimal s of None \<Rightarrow> None | Some v \<Rightarrow> if valid v then Some v else None))"

subsection \<open>Math\<close>

definition pure_node ::
  "(string \<times> port_type) list \<Rightarrow> (string \<times> port_type) list \<Rightarrow> config_field list \<Rightarrow> (gvalue list \<Rightarrow> gvalue)
    \<Rightarrow> 's node_kind" where
  "pure_node ins outs schema f =
     \<lparr>nk_input_ports = ins, nk_output_ports = outs, nk_evaluate = (\<lambda>_ vs st. (Inr [f vs], st)),
      nk_restricted = False, nk_config_schema = schema\<rparr>"

definition number_at :: "gvalue list \<Rightarrow> nat \<Rightarrow> decimal option" where
  "number_at vs i = Option.bind (nth_value vs i) as_number"

definition bool_at :: "gvalue list \<Rightarrow> nat \<Rightarrow> bool" where
  "bool_at vs i = (case Option.bind (nth_value vs i) as_bool of None \<Rightarrow> False | Some b \<Rightarrow> b)"

definition arith_value :: "(decimal \<Rightarrow> decimal \<Rightarrow> decimal) \<Rightarrow> gvalue list \<Rightarrow> gvalue" where
  "arith_value f vs =
     (case (number_at vs 0, number_at vs 1) of (Some x, Some y) \<Rightarrow> NumberV (f x y) | _ \<Rightarrow> Missing)"

definition math_add :: "'s node_kind" where
  "math_add = pure_node [(''a'', NumberT), (''b'', NumberT)] [(''out'', NumberT)] [] (arith_value (+))"

definition math_mul :: "'s node_kind" where
  "math_mul = pure_node [(''a'', NumberT), (''b'', NumberT)] [(''out'', NumberT)] [] (arith_value (*))"

definition const_schema :: "config_field list" where
  "const_schema = [\<lparr>cf_name = ''value'', cf_label = ''Value'', cf_hint = None, cf_default = JString ''0'',
     cf_widget = NumberW None None (Some (1 / 100))\<rparr>]"

definition math_const :: "decimal \<Rightarrow> 's node_kind" where
  "math_const v = pure_node [] [(''value'', NumberT)] const_schema (\<lambda>_. NumberV v)"

definition const_from_config :: "(string \<Rightarrow> decimal option) \<Rightarrow> json \<Rightarrow> decimal option" where
  "const_from_config parse_decimal cfg =
     (if cfg = JNull then Some 0
      else if \<not> cfg_struct cfg 1 then None
      else Option.bind (opt_string (cfg_field cfg 0 ''value'')) (\<lambda>raw. decimal_field parse_decimal raw 0 (\<lambda>_. True)))"

datatype cmp = Ge | Gt | Le | Lt | Eq

definition cmp_of_string :: "string \<Rightarrow> cmp option" where
  "cmp_of_string s = map_of [(''ge'', Ge), (''gt'', Gt), (''le'', Le), (''lt'', Lt), (''eq'', Eq)] s"

fun opt_cmp :: "json option \<Rightarrow> cmp option option" where
  "opt_cmp None = Some None"
| "opt_cmp (Some JNull) = Some None"
| "opt_cmp (Some (JString s)) = map_option Some (cmp_of_string s)"
| "opt_cmp (Some (JObject [(s, JNull)])) = map_option Some (cmp_of_string s)"
| "opt_cmp (Some _) = None"

fun cmp_holds :: "cmp \<Rightarrow> decimal \<Rightarrow> decimal \<Rightarrow> bool" where
  "cmp_holds Ge x t = (t \<le> x)"
| "cmp_holds Gt x t = (t < x)"
| "cmp_holds Le x t = (x \<le> t)"
| "cmp_holds Lt x t = (x < t)"
| "cmp_holds Eq x t = (x = t)"

definition to_bool_schema :: "config_field list" where
  "to_bool_schema =
     [\<lparr>cf_name = ''threshold'', cf_label = ''Threshold'', cf_hint = Some ''Compared with the incoming number'',
       cf_default = JString ''0'', cf_widget = NumberW None None (Some (1 / 100))\<rparr>,
      \<lparr>cf_name = ''cmp'', cf_label = ''Comparator'', cf_hint = None, cf_default = JString ''ge'',
       cf_widget = EnumW [(''ge'', [CHR 0xE2, CHR 0x89, CHR 0xA5]), (''gt'', ''>''),
         (''le'', [CHR 0xE2, CHR 0x89, CHR 0xA4]), (''lt'', ''<''), (''eq'', ''='')]\<rparr>]"

definition to_bool :: "decimal \<Rightarrow> cmp \<Rightarrow> 's node_kind" where
  "to_bool threshold c = pure_node [(''x'', NumberT)] [(''out'', BoolT)] to_bool_schema
     (\<lambda>vs. case number_at vs 0 of None \<Rightarrow> BoolV False | Some x \<Rightarrow> BoolV (cmp_holds c x threshold))"

definition to_bool_from_config :: "(string \<Rightarrow> decimal option) \<Rightarrow> json \<Rightarrow> (decimal \<times> cmp) option" where
  "to_bool_from_config parse_decimal cfg =
     (if cfg = JNull then Some (0, Ge)
      else if \<not> cfg_struct cfg 2 then None
      else Option.bind (opt_string (cfg_field cfg 0 ''threshold'')) (\<lambda>raw.
           Option.bind (opt_cmp (cfg_field cfg 1 ''cmp'')) (\<lambda>c.
           map_option (\<lambda>t. (t, case c of None \<Rightarrow> Ge | Some c \<Rightarrow> c)) (decimal_field parse_decimal raw 0 (\<lambda>_. True)))))"

subsection \<open>Logic\<close>

definition logic_and :: "'s node_kind" where
  "logic_and = pure_node [(''a'', BoolT), (''b'', BoolT)] [(''out'', BoolT)] []
     (\<lambda>vs. BoolV (bool_at vs 0 \<and> bool_at vs 1))"

definition mux_value :: "gvalue list \<Rightarrow> gvalue" where
  "mux_value vs = or_missing (nth_value vs (if bool_at vs 0 then 1 else 2))"

definition logic_mux :: "'s node_kind" where
  "logic_mux = pure_node [(''cond'', BoolT), (''then'', NumberT), (''else'', NumberT)] [(''out'', NumberT)] [] mux_value"

definition logic_string_mux :: "'s node_kind" where
  "logic_string_mux = pure_node [(''cond'', BoolT), (''then'', StringT), (''else'', StringT)] [(''out'', StringT)] [] mux_value"

fun as_strategy_kind :: "gvalue \<Rightarrow> string option" where
  "as_strategy_kind (StrategyKindV s) = Some s"
| "as_strategy_kind _ = None"

fun as_pair_class :: "gvalue \<Rightarrow> string option" where
  "as_pair_class (PairClassV s) = Some s"
| "as_pair_class _ = None"

definition target_from_config :: "json \<Rightarrow> string option" where
  "target_from_config cfg =
     (if cfg = JNull then Some []
      else if \<not> cfg_struct cfg 1 then None
      else map_option (\<lambda>t. case t of None \<Rightarrow> [] | Some s \<Rightarrow> s) (opt_string (cfg_field cfg 0 ''target'')))"

definition strategy_eq :: "string \<Rightarrow> 's node_kind" where
  "strategy_eq target = pure_node [(''kind'', StrategyKindT)] [(''out'', BoolT)] []
     (\<lambda>vs. BoolV (Option.bind (nth_value vs 0) as_strategy_kind = Some target))"

definition pair_class_eq :: "string \<Rightarrow> 's node_kind" where
  "pair_class_eq target = pure_node [(''class'', PairClassT)] [(''out'', BoolT)] []
     (\<lambda>vs. BoolV (Option.bind (nth_value vs 0) as_pair_class = Some target))"

subsection \<open>Sinks\<close>

definition sink_node :: "(string \<times> port_type) list \<Rightarrow> config_field list \<Rightarrow> 's node_kind" where
  "sink_node ins schema = pure_node ins [(''action'', UnitT)] schema (\<lambda>_. UnitV)"

definition out_spread_mult :: "'s node_kind" where
  "out_spread_mult = sink_node [(''mult'', NumberT)] []"

definition out_size_mult :: "'s node_kind" where
  "out_size_mult = sink_node [(''mult'', NumberT)] []"

definition out_volatility :: "'s node_kind" where
  "out_volatility = sink_node [(''sigma'', NumberT)] []"

definition out_kill_escalate :: "'s node_kind" where
  "out_kill_escalate = sink_node [(''trigger'', BoolT), (''level'', NumberT), (''reason'', StringT)]
     [\<lparr>cf_name = ''venue'', cf_label = ''Venue (optional)'',
       cf_hint = Some ''Leave empty for a global kill; otherwise e.g. `binance`, `bybit`'',
       cf_default = JString [], cf_widget = TextW\<rparr>]"

definition out_flatten :: "'s node_kind" where
  "out_flatten = sink_node [(''trigger'', BoolT), (''policy'', StringT)] []"

definition out_quotes :: "'s node_kind" where
  "out_quotes = sink_node [(''quotes'', QuotesT)] []"

definition out_venue_quotes :: "'s node_kind" where
  "out_venue_quotes = sink_node [(''quotes'', QuotesT)] []"

definition out_venue_quotes_if :: "'s node_kind" where
  "out_venue_quotes_if = sink_node [(''trigger'', BoolT), (''quotes'', QuotesT)] []"

definition out_atomic_bundle :: "'s node_kind" where
  "out_atomic_bundle = sink_node [(''maker'', QuotesT), (''hedge'', QuotesT), (''timeout_ms'', NumberT)] []"

subsection \<open>The catalog\<close>

definition catalog_build ::
  "(string \<Rightarrow> decimal option) \<Rightarrow> (string \<Rightarrow> json \<Rightarrow> 's node_kind option) \<Rightarrow> string \<Rightarrow> json \<Rightarrow> 's node_kind option" where
  "catalog_build parse_decimal other kind cfg =
     (if kind = ''Math.Add'' then Some math_add
      else if kind = ''Math.Mul'' then Some math_mul
      else if kind = ''Math.Const'' then map_option math_const (const_from_config parse_decimal cfg)
      else if kind = ''Cast.ToBool'' then map_option (\<lambda>(t, c). to_bool t c) (to_bool_from_config parse_decimal cfg)
      else if kind = ''Logic.And'' then Some logic_and
      else if kind = ''Logic.Mux'' then Some logic_mux
      else if kind = ''Logic.StringMux'' then Some logic_string_mux
      else if kind = ''Cast.StrategyEq'' then map_option strategy_eq (target_from_config cfg)
      else if kind = ''Cast.PairClassEq'' then map_option pair_class_eq (target_from_config cfg)
      else if kind = ''Out.SpreadMult'' then Some out_spread_mult
      else if kind = ''Out.SizeMult'' then Some out_size_mult
      else if kind = ''Out.Volatility'' then Some out_volatility
      else if kind = ''Out.KillEscalate'' then Some out_kill_escalate
      else if kind = ''Out.Flatten'' then Some out_flatten
      else if kind = ''Out.Quotes'' then Some out_quotes
      else if kind = ''Out.VenueQuotes'' then Some out_venue_quotes
      else if kind = ''Out.VenueQuotesIf'' then Some out_venue_quotes_if
      else if kind = ''Out.AtomicBundle'' then Some out_atomic_bundle
      else other kind cfg)"

subsection \<open>Typing\<close>

definition fits :: "gvalue \<Rightarrow> port_type \<Rightarrow> bool" where
  "fits v ty \<longleftrightarrow> v = Missing \<or> value_port_type v = ty"

definition node_typed :: "'s node_kind \<Rightarrow> bool" where
  "node_typed nk \<longleftrightarrow> distinct (map fst (nk_input_ports nk)) \<and> distinct (map fst (nk_output_ports nk))
     \<and> (\<forall>now vs st vals st'. list_all2 fits vs (map snd (nk_input_ports nk)) \<longrightarrow>
          nk_evaluate nk now vs st = (Inr vals, st') \<longrightarrow> list_all2 fits vals (map snd (nk_output_ports nk)))"

text \<open>
  What the evaluator relies on of the catalog: nodes respect the types of their ports, and the
  ports of a kind do not depend on its configuration (validation reads them off the default one).
\<close>

locale typed_catalog =
  fixes build_kind :: "string \<Rightarrow> json \<Rightarrow> 's node_kind option"
  assumes typed: "build_kind k cfg = Some nk \<Longrightarrow> node_typed nk"
    and ports: "build_kind k cfg = Some nk \<Longrightarrow> build_kind k JNull = Some nk0 \<Longrightarrow>
      nk_input_ports nk = nk_input_ports nk0 \<and> nk_output_ports nk = nk_output_ports nk0"

lemma pure_node_typed:
  assumes "distinct (map fst ins)" and "\<And>vs. list_all2 fits vs (map snd ins) \<Longrightarrow> fits (f vs) ty"
  shows "node_typed (pure_node ins [(p, ty)] schema f)"
  using assms by (auto simp: node_typed_def pure_node_def)

lemma arith_fits: "fits (arith_value f vs) NumberT"
  by (auto simp: arith_value_def fits_def split: option.split)

lemma mux_fits: "list_all2 fits vs [BoolT, ty, ty] \<Longrightarrow> fits (mux_value vs) ty"
  by (auto simp: mux_value_def or_missing_def fits_def list_all2_Cons2 nth_Cons')

lemmas core_nodes = math_add_def math_mul_def math_const_def to_bool_def logic_and_def logic_mux_def
  logic_string_mux_def strategy_eq_def pair_class_eq_def sink_node_def out_spread_mult_def out_size_mult_def
  out_volatility_def out_kill_escalate_def out_flatten_def out_quotes_def out_venue_quotes_def
  out_venue_quotes_if_def out_atomic_bundle_def

lemma core_typed:
  "node_typed math_add" "node_typed math_mul" "node_typed (math_const v)" "node_typed (to_bool t c)"
  "node_typed logic_and" "node_typed logic_mux" "node_typed logic_string_mux" "node_typed (strategy_eq s)"
  "node_typed (pair_class_eq s)" "node_typed out_spread_mult" "node_typed out_size_mult" "node_typed out_volatility"
  "node_typed out_kill_escalate" "node_typed out_flatten" "node_typed out_quotes" "node_typed out_venue_quotes"
  "node_typed out_venue_quotes_if" "node_typed out_atomic_bundle"
  unfolding core_nodes
  by (rule pure_node_typed; simp add: arith_fits mux_fits; simp add: fits_def split: option.split)+

lemma core_build_typed: "catalog_build parse_decimal (\<lambda>_ _. None) k cfg = Some nk \<Longrightarrow> node_typed nk"
  unfolding catalog_build_def by (auto simp: core_typed split: if_splits)

lemma core_build_ports:
  fixes nk nk0 :: "'s node_kind"
  assumes "catalog_build parse_decimal (\<lambda>_ _. None) k cfg = Some nk"
    and "catalog_build parse_decimal (\<lambda>_ _. None) k JNull = Some nk0"
  shows "nk_input_ports nk = nk_input_ports nk0 \<and> nk_output_ports nk = nk_output_ports nk0"
  using assms unfolding catalog_build_def
  by (auto simp: const_from_config_def to_bool_from_config_def target_from_config_def math_const_def to_bool_def
      strategy_eq_def pair_class_eq_def pure_node_def split: if_splits)

interpretation core: typed_catalog "catalog_build parse_decimal (\<lambda>_ _. None)" for parse_decimal
  by unfold_locales (fact core_build_typed, fact core_build_ports)

subsection \<open>Type soundness of a tick\<close>

text \<open>An evaluator whose edges join ports of one type and whose nodes are typed; a tick does not change this.\<close>

definition wired :: "'s evaluator \<Rightarrow> bool" where
  "wired ev \<longleftrightarrow>
     (\<forall>i nk. hm_get (ev_nodes ev) i = Some nk \<longrightarrow>
        node_typed nk \<and> input_ports_of ev i = map fst (nk_input_ports nk))
     \<and> (\<forall>i p s sp nk ty. hm_get (ev_incoming ev) (i, p) = Some (s, sp) \<longrightarrow> hm_get (ev_nodes ev) i = Some nk
          \<longrightarrow> (p, ty) \<in> set (nk_input_ports nk)
          \<longrightarrow> (\<exists>nks. hm_get (ev_nodes ev) s = Some nks \<and> (sp, ty) \<in> set (nk_output_ports nks)))"

text \<open>The engine supplies values of the declared types, on the inputs of nodes and as overlays of sources.\<close>

definition src_typed :: "'s evaluator \<Rightarrow> port_values \<Rightarrow> bool" where
  "src_typed ev src \<longleftrightarrow>
     (\<forall>i nk p ty v. hm_get (ev_nodes ev) i = Some nk \<longrightarrow> hm_get src (i, p) = Some v
        \<longrightarrow> (p, ty) \<in> set (if nk_input_ports nk = [] then nk_output_ports nk else nk_input_ports nk) \<longrightarrow> fits v ty)"

lemma wiredD:
  assumes "wired ev" and "hm_get (ev_nodes ev) i = Some nk"
  shows "node_typed nk" and "input_ports_of ev i = map fst (nk_input_ports nk)"
  using assms by (auto simp: wired_def)

lemma out_map_typed:
  assumes vals: "list_all2 fits vals (map snd (nk_output_ports nk))" and d: "distinct (map fst (nk_output_ports nk))"
    and p: "(p, ty) \<in> set (nk_output_ports nk)"
  shows "fits (or_missing (hm_get (out_map nk vals) p)) ty"
proof -
  let ?f = "find (\<lambda>x. fst x = p) (rev (output_pairs nk vals))"
  have "hm_get (out_map nk vals) p = map_option snd ?f"
    using hm.get_inserts [of "[]" fst snd "output_pairs nk vals" p]
    by (simp add: out_map_def case_prod_unfold split: option.split)
  moreover have "fits v ty" if "?f = Some (p, v)" for v
  proof -
    have "(p, v) \<in> set (output_pairs nk vals)" using that by (auto dest: find_SomeD)
    then obtain j where j: "j < length (nk_output_ports nk)" "j < length vals" "fst (nk_output_ports nk ! j) = p" "vals ! j = v"
      by (auto simp: output_pairs_def set_zip case_prod_unfold)
    obtain k where k: "k < length (nk_output_ports nk)" "nk_output_ports nk ! k = (p, ty)"
      using p by (auto simp: in_set_conv_nth)
    have "j = k" using d j(1,3) k by (metis fst_conv length_map nth_eq_iff_index_eq nth_map)
    then show "fits v ty" using vals j k by (auto simp: list_all2_conv_all_nth)
  qed
  ultimately show ?thesis
    by (cases ?f) (auto simp: or_missing_def fits_def [of Missing] dest: find_SomeD)
qed

lemma produced_typed:
  assumes "wired ev" and n: "hm_get (ev_nodes ev) i = Some nk" and src: "src_typed ev src"
    and vals: "list_all2 fits vals (map snd (nk_output_ports nk))"
  shows "list_all2 fits (produced ev src i nk vals) (map snd (nk_output_ports nk))"
proof (cases "nk_input_ports nk = []")
  case True
  have e: "input_ports_of ev i = []" using wiredD(2) [OF assms(1) n] True by simp
  have ov: "fits (case hm_get src (i, p) of None \<Rightarrow> vals ! j | Some v \<Rightarrow> v) ty"
    if "j < length (nk_output_ports nk)" "nk_output_ports nk ! j = (p, ty)" for j p ty
  proof (cases "hm_get src (i, p)")
    case None
    then show ?thesis using that vals by (auto simp: list_all2_conv_all_nth)
  next
    case (Some v)
    then show ?thesis using that src n True nth_mem [OF that(1)] by (auto simp: src_typed_def)
  qed
  have "fits (case hm_get src (i, fst (nk_output_ports nk ! j)) of None \<Rightarrow> vals ! j | Some v \<Rightarrow> v)
      (snd (nk_output_ports nk ! j))" if "j < length (nk_output_ports nk)" for j
    by (rule ov [OF that]) simp
  then show ?thesis
    using vals by (simp add: produced_def e list_all2_conv_all_nth case_prod_unfold cong: option.case_cong)
next
  case False
  then show ?thesis using wiredD(2) [OF assms(1) n] vals by (simp add: produced_def)
qed

lemma node_inputs_typed:
  assumes w: "wired ev" and src: "src_typed ev src" and n: "hm_get (ev_nodes ev) i = Some nk"
    and fed: "\<And>s nks sp ty. s \<in> feeds ev i \<Longrightarrow> hm_get (ev_nodes ev) s = Some nks \<Longrightarrow> (sp, ty) \<in> set (nk_output_ports nks)
      \<Longrightarrow> fits (or_missing (Option.bind (hm_get outs s) (\<lambda>m. hm_get m sp))) ty"
  shows "list_all2 fits (node_inputs ev src outs i) (map snd (nk_input_ports nk))"
proof -
  have "fits (marshal_port ev src outs i p) ty" if p: "(p, ty) \<in> set (nk_input_ports nk)" for p ty
  proof (cases "hm_get (ev_incoming ev) (i, p)")
    case None
    have "fits v ty" if "hm_get src (i, p) = Some v" for v
    proof -
      have "(p, ty) \<in> set (if nk_input_ports nk = [] then nk_output_ports nk else nk_input_ports nk)" using p by auto
      then show ?thesis using src n that unfolding src_typed_def by blast
    qed
    then show ?thesis
      using None by (cases "hm_get src (i, p)") (auto simp: marshal_port_def or_missing_def fits_def [of Missing])
  next
    case (Some x)
    obtain s sp where x: "x = (s, sp)" by (rule prod.exhaust)
    obtain nks where nks: "hm_get (ev_nodes ev) s = Some nks" "(sp, ty) \<in> set (nk_output_ports nks)"
      using w n p Some x unfolding wired_def by blast
    have "s \<in> feeds ev i" using Some x p wiredD(2) [OF w n] by (force simp: feeds_def)
    from fed [OF this nks] show ?thesis using Some x by (simp add: marshal_port_def)
  qed
  then show ?thesis using wiredD(2) [OF w n] by (auto simp: node_inputs_def list_all2_conv_all_nth)
qed

lemma dataflow_typed:
  assumes w: "wired ev" and src: "src_typed ev src" and topo: "ev_topo ev (us @ vs)"
    and df: "dataflow ev now src (set (us @ vs)) outs sts"
  shows "\<forall>i \<in> set us. \<exists>nk. hm_get (ev_nodes ev) i = Some nk
    \<and> list_all2 fits (node_inputs ev src outs i) (map snd (nk_input_ports nk))
    \<and> (\<forall>(p, ty) \<in> set (nk_output_ports nk). fits (or_missing (Option.bind (hm_get outs i) (\<lambda>m. hm_get m p))) ty)"
  using topo df
proof (induction us arbitrary: vs rule: rev_induct)
  case (snoc v us)
  have t: "ev_topo ev (us @ v # vs)" using snoc.prems(1) by simp
  have IH: "\<forall>i \<in> set us. \<exists>nk. hm_get (ev_nodes ev) i = Some nk
    \<and> list_all2 fits (node_inputs ev src outs i) (map snd (nk_input_ports nk))
    \<and> (\<forall>(p, ty) \<in> set (nk_output_ports nk). fits (or_missing (Option.bind (hm_get outs i) (\<lambda>m. hm_get m p))) ty)"
    using snoc.IH [of "v # vs"] snoc.prems by simp
  obtain nk st vals st' where n: "hm_get (ev_nodes ev) v = Some nk"
    "nk_evaluate nk now (node_inputs ev src outs v) st = (Inr vals, st')"
    "hm_get outs v = Some (out_map nk (produced ev src v nk vals))"
    using snoc.prems(2) by (auto simp: dataflow_def)
  have ins: "list_all2 fits (node_inputs ev src outs v) (map snd (nk_input_ports nk))"
  proof (rule node_inputs_typed [OF w src n(1)])
    fix s nks sp ty
    assume "s \<in> feeds ev v" and s: "hm_get (ev_nodes ev) s = Some nks" "(sp, ty) \<in> set (nk_output_ports nks)"
    then have "s \<in> set us" using ev_topo_front(1) [OF t] by blast
    then show "fits (or_missing (Option.bind (hm_get outs s) (\<lambda>m. hm_get m sp))) ty" using IH s by fastforce
  qed
  have nt: "node_typed nk" by (rule wiredD(1) [OF w n(1)])
  then have "list_all2 fits vals (map snd (nk_output_ports nk))" using ins n(2) unfolding node_typed_def by blast
  then have "list_all2 fits (produced ev src v nk vals) (map snd (nk_output_ports nk))"
    by (rule produced_typed [OF w n(1) src])
  then have "fits (or_missing (hm_get (out_map nk (produced ev src v nk vals)) p)) ty" if "(p, ty) \<in> set (nk_output_ports nk)" for p ty
    using that nt by (intro out_map_typed) (auto simp: node_typed_def)
  then show ?case using IH ins n by auto
qed simp

lemma run_frame:
  "run_ticks t8 t64 ev h = Some (ss, ev') \<Longrightarrow> \<exists>sts. ev' = ev\<lparr>ev_states := sts\<rparr>"
proof (induction h arbitrary: ev ss)
  case Nil
  then show ?case by (intro exI [of _ "ev_states ev"]) simp
next
  case (Cons x h)
  obtain now src where x: "x = (now, src)" by (rule prod.exhaust)
  obtain s tr e1 ss1 where t: "tick_inner t8 t64 ev now src = (Inr (s, tr), e1)"
    and r: "run_ticks t8 t64 e1 h = Some (ss1, ev')"
    using Cons.prems by (auto simp: x split: prod.splits sum.splits)
  obtain sts where "e1 = ev\<lparr>ev_states := sts\<rparr>" using t by (auto simp: tick_inner_def split: prod.splits option.splits)
  moreover obtain sts' where "ev' = e1\<lparr>ev_states := sts'\<rparr>" using Cons.IH [OF r] by blast
  ultimately show ?case by auto
qed

lemma wired_states [simp]: "wired (ev\<lparr>ev_states := sts\<rparr>) = wired ev" "src_typed (ev\<lparr>ev_states := sts\<rparr>) = src_typed ev"
  by (simp_all add: wired_def src_typed_def input_ports_of_def fun_eq_iff)

lemma build_nodes_get:
  assumes "build_nodes bk init ns ev = Inr ev'" and "distinct (map n_id ns)"
    and "hm_ok (ev_nodes ev)" and "hm_ok (ev_input_order ev)"
  shows "hm_get (ev_nodes ev') i = (case find (\<lambda>n. n_id n = i) ns of
      None \<Rightarrow> hm_get (ev_nodes ev) i | Some n \<Rightarrow> bk (n_kind n) (n_config n))
    \<and> hm_get (ev_input_order ev') i = (case find (\<lambda>n. n_id n = i) ns of
      None \<Rightarrow> hm_get (ev_input_order ev) i
    | Some n \<Rightarrow> map_option (\<lambda>nk. map fst (nk_input_ports nk)) (bk (n_kind n) (n_config n)))"
  using assms
proof (induction ns arbitrary: ev)
  case (Cons n ns)
  obtain built where b: "bk (n_kind n) (n_config n) = Some built" using Cons.prems(1) by (auto split: option.splits)
  have "find (\<lambda>m. n_id m = n_id n) ns = None" using Cons.prems(2) by (simp add: find_None_iff) (metis image_eqI)
  then show ?case using Cons b by (auto simp: hm_simps cong: option.case_cong)
qed simp

context typed_catalog
begin

lemma build_wired:
  assumes ords: "iter_order ord_fan" "iter_order ord_deg"
    and b: "evaluator_build ord_fan ord_deg build_kind allow fresh init g = Some (Inr ev)"
  shows "wired ev"
proof -
  obtain t where v: "validate ord_fan ord_deg (kind_shape_of build_kind) allow fresh g = Some (Inr t)"
    and n: "build_nodes build_kind init (g_nodes g) (blank g (to_order t)) = Inr ev"
    using evaluator_build_Inr [OF b] by blast
  have wf: "well_formed (kind_shape_of build_kind) allow g"
    using validate_checks [OF ords(1), of "kind_shape_of build_kind" allow g ord_deg fresh] v
    by (metis Inl_Inr_False option.inject)
  then have ids: "distinct (map n_id (g_nodes g))" by (simp add: well_formed_def)
  have get: "hm_get (ev_nodes ev) i = Option.bind (find (\<lambda>n. n_id n = i) (g_nodes g)) (\<lambda>n. build_kind (n_kind n) (n_config n))"
    "hm_get (ev_input_order ev) i = map_option (\<lambda>nk. map fst (nk_input_ports nk)) (hm_get (ev_nodes ev) i)" for i
    using build_nodes_get [OF n ids, of i] by (auto simp: blank_def split: option.splits)
  have found: "hm_get (ev_nodes ev) (n_id m) = build_kind (n_kind m) (n_config m)" if "m \<in> set (g_nodes g)" for m
  proof -
    have "find (\<lambda>n. n_id n = n_id m) (g_nodes g) \<noteq> None" using that by (auto simp: find_None_iff)
    then obtain m' where m': "find (\<lambda>n. n_id n = n_id m) (g_nodes g) = Some m'" by blast
    then have "m' \<in> set (g_nodes g)" "n_id m' = n_id m" by (auto dest: find_SomeD)
    then have "m' = m" using ids that by (auto simp: distinct_map inj_on_def)
    then show ?thesis using get m' by simp
  qed
  have built: "\<exists>nk. build_kind (n_kind m) (n_config m) = Some nk" if "m \<in> set (g_nodes g)" for m
  proof -
    have "n_id m \<in> dom (hm_get (ev_nodes ev))" using build_nodes_Inr [OF n] that by (simp add: blank_def)
    then show ?thesis using found [OF that] by (metis domD)
  qed
  have "\<exists>nks. hm_get (ev_nodes ev) s = Some nks \<and> (sp, ty) \<in> set (nk_output_ports nks)"
    if e: "hm_get (ev_incoming ev) (i, p) = Some (s, sp)" and i: "hm_get (ev_nodes ev) i = Some nk"
      and p: "(p, ty) \<in> set (nk_input_ports nk)" for i p s sp nk ty
  proof -
    have "hm_get (build_incoming (g_edges g)) (i, p) = Some (s, sp)"
      using e build_nodes_Inr [OF n] by (simp add: blank_def)
    from build_incoming_edge [OF this] obtain d where d: "d \<in> set (g_edges g)" "edge_target d = (i, p)"
      "pr_node (e_from d) = s" "pr_port (e_from d) = sp" by blast
    then have "edge_typed (kind_shape_of build_kind) g d" using wf by (simp add: well_formed_def)
    then obtain a c na nc u where ac: "a \<in> set (g_nodes g)" "c \<in> set (g_nodes g)" "n_id a = s" "n_id c = i"
      and k: "build_kind (n_kind a) JNull = Some na" "build_kind (n_kind c) JNull = Some nc"
      and o: "(sp, u) \<in> set (nk_output_ports na)" and q: "(p, u) \<in> set (nk_input_ports nc)"
      using d(2-4) by (auto simp: edge_typed_def kind_shape_of_def shape_output_def shape_input_def edge_target_def
          dest!: find_SomeD)
    obtain ba where ba: "build_kind (n_kind a) (n_config a) = Some ba" using built [OF ac(1)] by blast
    have "build_kind (n_kind c) (n_config c) = Some nk" using found [OF ac(2)] i ac by simp
    then have "nk_input_ports nk = nk_input_ports nc" using ports k(2) by blast
    moreover have "distinct (map fst (nk_input_ports nc))" using typed [OF k(2)] by (simp add: node_typed_def)
    ultimately have "u = ty" using p q by (metis map_of_is_SomeI option.inject)
    moreover have "nk_output_ports ba = nk_output_ports na" using ports [OF ba k(1)] by simp
    ultimately show ?thesis using found [OF ac(1)] ba o ac by simp
  qed
  moreover have "node_typed nk \<and> input_ports_of ev i = map fst (nk_input_ports nk)"
    if "hm_get (ev_nodes ev) i = Some nk" for i nk
    using that get [of i] by (auto simp: input_ports_of_def bind_eq_Some_conv intro: typed)
  ultimately show ?thesis unfolding wired_def by blast
qed

lemma tick_well_typed:
  assumes "iter_order ord_fan" and "iter_order ord_deg"
    and "evaluator_build ord_fan ord_deg build_kind allow fresh init g = Some (Inr ev0)"
    and "run_ticks t8 t64 ev0 history = Some (past, ev)"
    and "tick_inner t8 t64 ev now src = (Inr (sinks, tr), ev')" and "src_typed ev src"
  shows "\<exists>outs. dataflow ev now src (n_id ` set (g_nodes g)) outs (ev_states ev')
    \<and> sinks = concat (map (\<lambda>i. node_sinks t8 t64 ev i (node_inputs ev src outs i)) (ev_order ev))
    \<and> (\<forall>i \<in> n_id ` set (g_nodes g). \<exists>nk. hm_get (ev_nodes ev) i = Some nk
         \<and> list_all2 fits (node_inputs ev src outs i) (map snd (nk_input_ports nk)))"
proof -
  note b = build_compiled [OF assms(1-3)]
  have c: "compiled ev" by (rule run_compiled [OF b(1) assms(4)])
  have o: "set (ev_order ev) = n_id ` set (g_nodes g)" using run_order [OF assms(4)] b(2) by simp
  have w: "wired ev" using build_wired [OF assms(1-3)] run_frame [OF assms(4)] by auto
  obtain ts where inv: "tick_inv t8 t64 ev now src (ev_order ev) ts" and r: "sinks = ts_sinks ts"
    "ev' = ev\<lparr>ev_states := ts_states ts\<rparr>" using tick_inner_ok [OF c assms(5)] by blast
  then have df: "dataflow ev now src (set (ev_order ev)) (ts_outputs ts) (ts_states ts)"
    and s: "sinks = concat (map (\<lambda>i. node_sinks t8 t64 ev i (node_inputs ev src (ts_outputs ts) i)) (ev_order ev))"
    by (auto simp: tick_inv_def)
  have "\<forall>i \<in> set (ev_order ev). \<exists>nk. hm_get (ev_nodes ev) i = Some nk
      \<and> list_all2 fits (node_inputs ev src (ts_outputs ts) i) (map snd (nk_input_ports nk))"
    using dataflow_typed [OF w assms(6), of "ev_order ev" "[]"] c df by (fastforce simp: compiled_def)
  then show ?thesis using df s r(2) by (intro exI [of _ "ts_outputs ts"]) (simp add: o)
qed

end

subsection \<open>Properties\<close>

text \<open>
  C7: evaluation respects port types. For a graph of core nodes accepted by the evaluator, after
  any number of earlier ticks, whenever the engine supplies source values of the declared types, a
  successful tick feeds every node, sinks included, on every input port a value of the declared
  type of that port or the value Missing.
\<close>

theorem tick_respects_port_types:
  assumes "iter_order ord_fan" and "iter_order ord_deg"
    and "evaluator_build ord_fan ord_deg (catalog_build parse_decimal (\<lambda>_ _. None)) allow fresh init g = Some (Inr ev0)"
    and "run_ticks t8 t64 ev0 history = Some (past, ev)"
    and "tick_inner t8 t64 ev now src = (Inr (sinks, tr), ev')" and "src_typed ev src"
  shows "\<exists>outs. dataflow ev now src (n_id ` set (g_nodes g)) outs (ev_states ev')
    \<and> sinks = concat (map (\<lambda>i. node_sinks t8 t64 ev i (node_inputs ev src outs i)) (ev_order ev))
    \<and> (\<forall>i \<in> n_id ` set (g_nodes g). \<exists>nk. hm_get (ev_nodes ev) i = Some nk
         \<and> list_all2 fits (node_inputs ev src outs i) (map snd (nk_input_ports nk)))"
  by (rule core.tick_well_typed [OF assms])

definition demo_decimal :: "string \<Rightarrow> decimal option" where
  "demo_decimal s = (if s = ''1.5'' then Some (3 / 2) else None)"

definition demo_build :: "(degrees \<Rightarrow> degrees) \<Rightarrow> (validation_error + unit evaluator) option" where
  "demo_build ord_deg =
     evaluator_build (\<lambda>m. m) ord_deg (catalog_build demo_decimal (\<lambda>_ _. None)) False 0 () (demo_graph demo_edges)"

definition demo_sinks :: "(validation_error + unit evaluator) option \<Rightarrow> sink_action list option" where
  "demo_sinks r =
     (case r of
        Some (Inr ev) \<Rightarrow>
          (case tick_inner (\<lambda>_. None) (\<lambda>_. None) ev 0 [] of (Inr (sinks, _), _) \<Rightarrow> Some sinks | _ \<Rightarrow> None)
      | _ \<Rightarrow> None)"

lemma demo_sinks_eval:
  "demo_sinks (demo_build (\<lambda>m. m)) = Some [SpreadMult (9 / 4)]" "demo_sinks (demo_build rev) = Some [SpreadMult (9 / 4)]"
  by code_simp+

lemma demo_sinks_obtain:
  assumes "demo_sinks r = Some sinks"
  obtains ev tr ev' where "r = Some (Inr ev)" "tick_inner (\<lambda>_. None) (\<lambda>_. None) ev 0 [] = (Inr (sinks, tr), ev')"
  using assms by (auto simp: demo_sinks_def split: option.splits sum.splits prod.splits)

lemma demo_orders: "iter_order (\<lambda>m. m)" "iter_order rev"
  by (auto simp: iter_order_def hm_ok_def rev_map [symmetric])

theorem tick_respects_port_types_witness:
  "\<exists>ev tr ev' outs. demo_build (\<lambda>m. m) = Some (Inr ev)
     \<and> tick_inner (\<lambda>_. None) (\<lambda>_. None) ev 0 [] = (Inr ([SpreadMult (9 / 4)], tr), ev')
     \<and> dataflow ev 0 [] {1, 2, 3} outs (ev_states ev')
     \<and> (\<exists>nk. hm_get (ev_nodes ev) 3 = Some nk \<and> list_all2 fits (node_inputs ev [] outs 3) (map snd (nk_input_ports nk)))"
proof -
  obtain ev tr ev' where b: "demo_build (\<lambda>m. m) = Some (Inr ev)"
    and t: "tick_inner (\<lambda>_. None) (\<lambda>_. None) ev 0 [] = (Inr ([SpreadMult (9 / 4)], tr), ev')"
    by (rule demo_sinks_obtain [OF demo_sinks_eval(1)])
  have n: "n_id ` set (g_nodes (demo_graph demo_edges)) = {1, 2, 3}" by (auto simp: demo_graph_def)
  have s: "src_typed ev []" by (simp add: src_typed_def)
  show ?thesis
    using tick_respects_port_types [OF demo_orders(1,1) b [unfolded demo_build_def] run_ticks.simps(1) t s] b t
    unfolding n by blast
qed

text \<open>The dataflow theorems of the evaluator, at the same graph.\<close>

theorem tick_computes_dataflow_witness:
  "\<exists>ev tr ev' outs. demo_build (\<lambda>m. m) = Some (Inr ev)
     \<and> tick_inner (\<lambda>_. None) (\<lambda>_. None) ev 0 [] = (Inr ([SpreadMult (9 / 4)], tr), ev')
     \<and> dataflow ev 0 [] {1, 2, 3} outs (ev_states ev')"
proof -
  obtain ev tr ev' where b: "demo_build (\<lambda>m. m) = Some (Inr ev)"
    and t: "tick_inner (\<lambda>_. None) (\<lambda>_. None) ev 0 [] = (Inr ([SpreadMult (9 / 4)], tr), ev')"
    by (rule demo_sinks_obtain [OF demo_sinks_eval(1)])
  have n: "n_id ` set (g_nodes (demo_graph demo_edges)) = {1, 2, 3}" by (auto simp: demo_graph_def)
  show ?thesis
    using tick_computes_dataflow [OF demo_orders(1,1) b [unfolded demo_build_def] run_ticks.simps(1) t] b t
    unfolding n by blast
qed

theorem tick_order_independent_witness:
  "\<exists>ev1 ev2 ss2 ev2'. demo_build (\<lambda>m. m) = Some (Inr ev1) \<and> demo_build rev = Some (Inr ev2)
     \<and> run_ticks (\<lambda>_. None) (\<lambda>_. None) ev2 [(0, [])] = Some (ss2, ev2')
     \<and> map mset ss2 = [{#SpreadMult (9 / 4)#}]"
proof -
  obtain ev1 tr ev' where b: "demo_build (\<lambda>m. m) = Some (Inr ev1)"
    and t: "tick_inner (\<lambda>_. None) (\<lambda>_. None) ev1 0 [] = (Inr ([SpreadMult (9 / 4)], tr), ev')"
    by (rule demo_sinks_obtain [OF demo_sinks_eval(1)])
  obtain ev2 tr2 ev2' where b2: "demo_build rev = Some (Inr ev2)"
    and "tick_inner (\<lambda>_. None) (\<lambda>_. None) ev2 0 [] = (Inr ([SpreadMult (9 / 4)], tr2), ev2')"
    by (rule demo_sinks_obtain [OF demo_sinks_eval(2)])
  have "run_ticks (\<lambda>_. None) (\<lambda>_. None) ev1 [(0, [])] = Some ([[SpreadMult (9 / 4)]], ev')" using t by simp
  from tick_order_independent [OF demo_orders(1,1,1,2) b [unfolded demo_build_def] b2 [unfolded demo_build_def] this]
  show ?thesis using b b2 by simp
qed

end
