(* ===== verification/Approval_Store.thy ===== *)
theory Approval_Store
  imports Std_Maps
begin

section \<open>Admission control\<close>

text \<open>
  \<^verbatim>\<open>crates/controller/src/approvals.rs\<close>: the store of operator decisions, keyed by the fingerprint of an
  agent's public key. Every mutation is written to disk after it was made in memory; the outcome of
  that write is the argument \<open>io\<close> (\<open>None\<close> when it succeeded or the store has no file). A poisoned
  lock, which needs a panic of another task, and the text of the file are left out.
\<close>

datatype approval_state = Pending | Accepted | Rejected | ApprovalRevokedState

definition is_accepted :: "approval_state \<Rightarrow> bool" where
  "is_accepted s = (s = Accepted)"

fun approval_as_str :: "approval_state \<Rightarrow> string" where
  "approval_as_str Pending = ''pending''"
| "approval_as_str Accepted = ''accepted''"
| "approval_as_str Rejected = ''rejected''"
| "approval_as_str ApprovalRevokedState = ''revoked''"

record agent_profile =
  pf_description :: "string option"
  pf_client_id :: "string option"
  pf_region :: "string option"
  pf_environment :: "string option"
  pf_purpose :: "string option"
  pf_owner_contact :: "string option"
  pf_notes :: "string option"
  pf_labels :: "(string, string) hash_map"

definition default_profile :: agent_profile where
  "default_profile = \<lparr>pf_description = None, pf_client_id = None, pf_region = None, pf_environment = None,
     pf_purpose = None, pf_owner_contact = None, pf_notes = None, pf_labels = []\<rparr>"

definition profile_is_empty :: "agent_profile \<Rightarrow> bool" where
  "profile_is_empty p \<longleftrightarrow> pf_description p = None \<and> pf_client_id p = None \<and> pf_region p = None
     \<and> pf_environment p = None \<and> pf_purpose p = None \<and> pf_owner_contact p = None \<and> pf_notes p = None
     \<and> pf_labels p = []"

record agent_profile_patch =
  pp_description :: "string option"
  pp_client_id :: "string option"
  pp_region :: "string option"
  pp_environment :: "string option"
  pp_purpose :: "string option"
  pp_owner_contact :: "string option"
  pp_notes :: "string option"
  pp_labels :: "(string, string) hash_map option"

record approval_record =
  ar_fingerprint :: string
  ar_agent_id :: string
  ar_pubkey_hex :: string
  ar_state :: approval_state
  ar_first_seen_ms :: timestamp
  ar_approved_at_ms :: "timestamp option"
  ar_approved_by :: "string option"
  ar_revoked_at_ms :: "timestamp option"
  ar_revoked_by :: "string option"
  ar_revoke_reason :: "string option"
  ar_last_seen_ms :: timestamp
  ar_profile :: agent_profile

datatype io_kind = IoNotFound | IoAlreadyExists | IoOther

datatype approval_store_error = ApprovalIo io_kind string | ApprovalParse string

type_synonym approval_store = "(string, approval_record) hash_map"

definition load_records :: "approval_record list \<Rightarrow> approval_store" where
  "load_records rs = fold (\<lambda>r. hm_insert (ar_fingerprint r) r) rs []"

definition pending_record :: "timestamp \<Rightarrow> string \<Rightarrow> string \<Rightarrow> string \<Rightarrow> approval_record" where
  "pending_record now fingerprint agent_id pubkey_hex =
     \<lparr>ar_fingerprint = fingerprint, ar_agent_id = agent_id, ar_pubkey_hex = pubkey_hex, ar_state = Pending,
      ar_first_seen_ms = now, ar_approved_at_ms = None, ar_approved_by = None, ar_revoked_at_ms = None,
      ar_revoked_by = None, ar_revoke_reason = None, ar_last_seen_ms = now, ar_profile = default_profile\<rparr>"

text \<open>A failure to persist a register is ignored, so it has no outcome argument.\<close>

definition record_register ::
  "timestamp \<Rightarrow> string \<Rightarrow> string \<Rightarrow> string \<Rightarrow> approval_store \<Rightarrow> approval_state \<times> approval_store" where
  "record_register now fingerprint agent_id pubkey_hex st =
     (let entry = (case hm_get st fingerprint of
                     None \<Rightarrow> pending_record now fingerprint agent_id pubkey_hex
                   | Some r \<Rightarrow> r);
          entry1 = (if ar_agent_id entry \<noteq> agent_id then entry\<lparr>ar_agent_id := agent_id\<rparr> else entry);
          entry2 = (if ar_pubkey_hex entry1 = [] \<and> pubkey_hex \<noteq> [] then entry1\<lparr>ar_pubkey_hex := pubkey_hex\<rparr> else entry1);
          entry3 = entry2\<lparr>ar_last_seen_ms := now\<rparr>
      in (ar_state entry3, hm_insert fingerprint entry3 st))"

definition approval_get :: "approval_store \<Rightarrow> string \<Rightarrow> approval_record option" where
  "approval_get st fingerprint = hm_get st fingerprint"

definition pre_approve ::
  "approval_store_error option \<Rightarrow> timestamp \<Rightarrow> string \<Rightarrow> string \<Rightarrow> string option \<Rightarrow> approval_store
    \<Rightarrow> (approval_store_error + approval_record) \<times> approval_store" where
  "pre_approve io now fingerprint who notes st =
     (case hm_get st fingerprint of
        Some _ \<Rightarrow> (Inl (ApprovalIo IoAlreadyExists (''fingerprint '' @ fingerprint @ '' already known'')), st)
      | None \<Rightarrow>
          let profile = (case notes of None \<Rightarrow> default_profile | Some n \<Rightarrow> default_profile\<lparr>pf_notes := Some n\<rparr>);
              rec = (pending_record now fingerprint [] [])\<lparr>ar_state := Accepted, ar_approved_at_ms := Some now,
                       ar_approved_by := Some who, ar_profile := profile\<rparr>;
              st' = hm_insert fingerprint rec st
          in (case io of Some e \<Rightarrow> (Inl e, st') | None \<Rightarrow> (Inr rec, st')))"

text \<open>The shape \<^verbatim>\<open>accept\<close>, \<^verbatim>\<open>revoke\<close>, \<^verbatim>\<open>reject\<close> and \<^verbatim>\<open>update_profile\<close> share: change a known record, then persist.\<close>

definition update_record ::
  "approval_store_error option \<Rightarrow> string \<Rightarrow> (approval_record \<Rightarrow> approval_record) \<Rightarrow> approval_store
    \<Rightarrow> (approval_store_error + approval_record) \<times> approval_store" where
  "update_record io fingerprint f st =
     (case hm_get st fingerprint of
        None \<Rightarrow> (Inl (ApprovalIo IoNotFound (''fingerprint '' @ fingerprint @ '' not in approval store'')), st)
      | Some rec \<Rightarrow>
          let st' = hm_insert fingerprint (f rec) st
          in (case io of Some e \<Rightarrow> (Inl e, st') | None \<Rightarrow> (Inr (f rec), st')))"

definition approval_accept ::
  "approval_store_error option \<Rightarrow> timestamp \<Rightarrow> string \<Rightarrow> string \<Rightarrow> approval_store
    \<Rightarrow> (approval_store_error + approval_record) \<times> approval_store" where
  "approval_accept io now fingerprint who =
     update_record io fingerprint (\<lambda>rec. rec\<lparr>ar_state := Accepted, ar_approved_at_ms := Some now,
       ar_approved_by := Some who, ar_revoke_reason := None\<rparr>)"

definition approval_revoke ::
  "approval_store_error option \<Rightarrow> timestamp \<Rightarrow> string \<Rightarrow> string \<Rightarrow> string \<Rightarrow> approval_store
    \<Rightarrow> (approval_store_error + approval_record) \<times> approval_store" where
  "approval_revoke io now fingerprint who reason =
     update_record io fingerprint (\<lambda>rec. rec\<lparr>ar_state := ApprovalRevokedState, ar_revoked_at_ms := Some now,
       ar_revoked_by := Some who, ar_revoke_reason := Some reason\<rparr>)"

definition approval_reject ::
  "approval_store_error option \<Rightarrow> timestamp \<Rightarrow> string \<Rightarrow> string \<Rightarrow> string \<Rightarrow> approval_store
    \<Rightarrow> (approval_store_error + approval_record) \<times> approval_store" where
  "approval_reject io now fingerprint who reason =
     update_record io fingerprint (\<lambda>rec. rec\<lparr>ar_state := Rejected, ar_revoked_at_ms := Some now,
       ar_revoked_by := Some who, ar_revoke_reason := Some reason\<rparr>)"

text \<open>A patch field that is present overwrites; an empty text clears.\<close>

definition patched :: "string option \<Rightarrow> string option \<Rightarrow> string option" where
  "patched patch old = (case patch of None \<Rightarrow> old | Some s \<Rightarrow> if s = [] then None else Some s)"

definition patch_profile :: "agent_profile_patch \<Rightarrow> agent_profile \<Rightarrow> agent_profile" where
  "patch_profile patch p =
     \<lparr>pf_description = patched (pp_description patch) (pf_description p),
      pf_client_id = patched (pp_client_id patch) (pf_client_id p),
      pf_region = patched (pp_region patch) (pf_region p),
      pf_environment = patched (pp_environment patch) (pf_environment p),
      pf_purpose = patched (pp_purpose patch) (pf_purpose p),
      pf_owner_contact = patched (pp_owner_contact patch) (pf_owner_contact p),
      pf_notes = patched (pp_notes patch) (pf_notes p),
      pf_labels = (case pp_labels patch of None \<Rightarrow> pf_labels p | Some l \<Rightarrow> l)\<rparr>"

definition update_profile ::
  "approval_store_error option \<Rightarrow> string \<Rightarrow> agent_profile_patch \<Rightarrow> approval_store
    \<Rightarrow> (approval_store_error + approval_record) \<times> approval_store" where
  "update_profile io fingerprint patch =
     update_record io fingerprint (\<lambda>rec. rec\<lparr>ar_profile := patch_profile patch (ar_profile rec)\<rparr>)"

definition approval_remove ::
  "approval_store_error option \<Rightarrow> string \<Rightarrow> approval_store \<Rightarrow> (approval_store_error + bool) \<times> approval_store" where
  "approval_remove io fingerprint st =
     (case hm_get st fingerprint of
        None \<Rightarrow> (Inr False, st)
      | Some _ \<Rightarrow> (case io of Some e \<Rightarrow> (Inl e, hm_remove fingerprint st) | None \<Rightarrow> (Inr True, hm_remove fingerprint st)))"

subsection \<open>The state machine of a fingerprint\<close>

definition state_of :: "approval_store \<Rightarrow> string \<Rightarrow> approval_state option" where
  "state_of st fingerprint = map_option ar_state (hm_get st fingerprint)"

lemma update_record_state:
  assumes "hm_ok st"
  shows "state_of (snd (update_record io fp f st)) fp' =
      (if fp' = fp then map_option (\<lambda>r. ar_state (f r)) (hm_get st fp) else state_of st fp')"
    and "hm_ok (snd (update_record io fp f st))"
  using assms by (auto simp: update_record_def state_of_def Let_def hm_simps split: option.splits)

text \<open>Registering never grants anything: a fingerprint is accepted after a register only if it was before.\<close>

lemma record_register_state:
  assumes "hm_ok st"
  shows "fst (record_register now fp a k st) = (case state_of st fp of None \<Rightarrow> Pending | Some s \<Rightarrow> s)"
    and "state_of (snd (record_register now fp a k st)) fp' =
      (if fp' = fp then Some (fst (record_register now fp a k st)) else state_of st fp')"
    and "hm_ok (snd (record_register now fp a k st))"
  using assms by (auto simp: record_register_def state_of_def Let_def pending_record_def hm_simps split: option.splits)

end
