(* ===== verification/Fail_Ladder.thy ===== *)
theory Fail_Ladder
  imports Mm_Prelude
begin

section \<open>The fail ladder of an agent without a controller\<close>

text \<open>
  \<^verbatim>\<open>crates/control/src/fail_ladder.rs\<close> and \<^verbatim>\<open>crates/agent/src/fail_ladder_walker.rs\<close>: the ladder of kill
  levels an agent climbs while the control plane is silent. A \<^verbatim>\<open>Duration\<close> is a natural number of
  milliseconds. The walker indexes its table of fired rungs; an index out of range is the outcome
  \<open>None\<close>.
\<close>

datatype strategy_class = Maker | Driver

datatype ctl_level = CtlNormal | CtlWidenSpreads | CtlStopNew | CtlCancelAll | CtlFlatten | CtlDisconnect

record fail_rung =
  fr_after :: nat
  fr_level :: ctl_level

record fail_ladder =
  fl_rungs :: "fail_rung list"

datatype ladder_error = EmptyLadder | NotMonotonic

definition from_secs :: "nat \<Rightarrow> nat" where
  "from_secs s = 1000 * s"

fun windows_increase :: "fail_rung list \<Rightarrow> bool" where
  "windows_increase (a # b # rs) = (fr_after a < fr_after b \<and> windows_increase (b # rs))"
| "windows_increase _ = True"

definition from_rungs :: "fail_rung list \<Rightarrow> ladder_error + fail_ladder" where
  "from_rungs rungs =
     (if rungs = [] then Inl EmptyLadder
      else if \<not> windows_increase rungs then Inl NotMonotonic
      else Inr \<lparr>fl_rungs = rungs\<rparr>)"

definition level_at :: "fail_ladder \<Rightarrow> nat \<Rightarrow> ctl_level option" where
  "level_at l silence = map_option fr_level (find (\<lambda>r. fr_after r \<le> silence) (rev (fl_rungs l)))"

text \<open>The default ladders are built with \<^verbatim>\<open>expect\<close>; a refusal would be a panic, the value \<open>None\<close>.\<close>

definition expect_ok :: "'e + 'a \<Rightarrow> 'a option" where
  "expect_ok r = (case r of Inl _ \<Rightarrow> None | Inr x \<Rightarrow> Some x)"

definition rung :: "nat \<Rightarrow> ctl_level \<Rightarrow> fail_rung" where
  "rung secs level = \<lparr>fr_after = from_secs secs, fr_level = level\<rparr>"

definition default_maker :: "fail_ladder option" where
  "default_maker = expect_ok (from_rungs [rung 15 CtlWidenSpreads, rung 60 CtlStopNew, rung 300 CtlFlatten])"

definition default_driver :: "fail_ladder option" where
  "default_driver = expect_ok (from_rungs [rung 15 CtlStopNew, rung 60 CtlCancelAll, rung 300 CtlFlatten])"

fun default_for :: "strategy_class \<Rightarrow> fail_ladder option" where
  "default_for Maker = default_maker"
| "default_for Driver = default_driver"

subsection \<open>The walker\<close>

record fail_action =
  fa_level :: ctl_level
  fa_rung_index :: nat

record fail_ladder_walker =
  fw_ladder :: fail_ladder
  fw_entered_at :: timestamp
  fw_fired :: "bool list"

definition walker_start :: "fail_ladder \<Rightarrow> timestamp \<Rightarrow> fail_ladder_walker" where
  "walker_start l entered_at =
     \<lparr>fw_ladder = l, fw_entered_at = entered_at, fw_fired = replicate (length (fl_rungs l)) False\<rparr>"

text \<open>\<^verbatim>\<open>saturating_duration_since\<close>: a time before the start counts as no silence.\<close>

definition silence_at :: "fail_ladder_walker \<Rightarrow> timestamp \<Rightarrow> nat" where
  "silence_at w now = nat (now - fw_entered_at w)"

text \<open>The loop over \<^verbatim>\<open>enumerate().rev()\<close>; the list is the reversed enumeration.\<close>

fun poll_loop :: "nat \<Rightarrow> bool list \<Rightarrow> (nat \<times> fail_rung) list \<Rightarrow> (fail_action \<times> bool list) option option" where
  "poll_loop silence fired [] = Some None"
| "poll_loop silence fired ((idx, r) # rs) =
     (if fr_after r \<le> silence then
        if idx < length fired then
          if fired ! idx then poll_loop silence fired rs
          else Some (Some (\<lparr>fa_level = fr_level r, fa_rung_index = idx\<rparr>,
                           replicate (min (idx + 1) (length fired)) True @ drop (idx + 1) fired))
        else None
      else poll_loop silence fired rs)"

definition poll_at :: "fail_ladder_walker \<Rightarrow> timestamp \<Rightarrow> (fail_action option \<times> fail_ladder_walker) option" where
  "poll_at w now =
     map_option (\<lambda>r. case r of None \<Rightarrow> (None, w) | Some (a, fired) \<Rightarrow> (Some a, w\<lparr>fw_fired := fired\<rparr>))
       (poll_loop (silence_at w now) (fw_fired w) (rev (enumerate 0 (fl_rungs (fw_ladder w)))))"

definition is_complete :: "fail_ladder_walker \<Rightarrow> bool" where
  "is_complete w = list_all (\<lambda>f. f) (fw_fired w)"

fun next_rung_loop :: "bool list \<Rightarrow> (nat \<times> fail_rung) list \<Rightarrow> nat option option" where
  "next_rung_loop fired [] = Some None"
| "next_rung_loop fired ((idx, r) # rs) =
     (if idx < length fired then if fired ! idx then next_rung_loop fired rs else Some (Some (fr_after r)) else None)"

definition next_rung_at :: "fail_ladder_walker \<Rightarrow> nat option option" where
  "next_rung_at w = next_rung_loop (fw_fired w) (enumerate 0 (fl_rungs (fw_ladder w)))"

subsection \<open>What the walker does\<close>

definition crossed_rungs :: "fail_rung list \<Rightarrow> nat \<Rightarrow> nat" where
  "crossed_rungs rs silence = length (filter (\<lambda>r. fr_after r \<le> silence) rs)"

definition fired_upto :: "nat \<Rightarrow> nat \<Rightarrow> bool list" where
  "fired_upto n k = replicate k True @ replicate (n - k) False"

lemma windows_increase_sorted: "windows_increase rs \<Longrightarrow> sorted_wrt (\<lambda>a b. fr_after a < fr_after b) rs"
proof (induction rs rule: windows_increase.induct)
  case (1 a b rs)
  then have "sorted_wrt (\<lambda>a b. fr_after a < fr_after b) (b # rs)" and "fr_after a < fr_after b" by auto
  then show ?case by (auto intro: less_trans)
qed simp_all

lemma crossed_iff:
  assumes "sorted_wrt (\<lambda>a b. fr_after a < fr_after b) rs" and "i < length rs"
  shows "fr_after (rs ! i) \<le> s \<longleftrightarrow> i < crossed_rungs rs s"
  using assms
proof (induction rs arbitrary: i)
  case (Cons r rs)
  have none: "filter (\<lambda>r. fr_after r \<le> s) rs = []" if "\<not> fr_after r \<le> s"
    using Cons.prems(1) that by (auto simp: filter_empty_conv)
  show ?case
  proof (cases i)
    case 0
    then show ?thesis using none by (auto simp: crossed_rungs_def)
  next
    case (Suc j)
    have IH: "fr_after (rs ! j) \<le> s \<longleftrightarrow> j < crossed_rungs rs s" using Cons Suc by simp
    moreover have "fr_after r < fr_after (rs ! j)" using Cons.prems Suc by simp
    ultimately show ?thesis using Suc none by (auto simp: crossed_rungs_def)
  qed
qed simp

lemma crossed_le: "crossed_rungs rs s \<le> length rs"
  by (simp add: crossed_rungs_def)

lemma crossed_mono: "s \<le> t \<Longrightarrow> crossed_rungs rs s \<le> crossed_rungs rs t"
  by (induction rs) (auto simp: crossed_rungs_def)

lemma level_at_crossed:
  assumes "sorted_wrt (\<lambda>a b. fr_after a < fr_after b) (fl_rungs l)"
  shows "level_at l s = (if crossed_rungs (fl_rungs l) s = 0 then None
    else Some (fr_level (fl_rungs l ! (crossed_rungs (fl_rungs l) s - 1))))"
proof -
  have "find (\<lambda>r. fr_after r \<le> s) (rev rs) =
      (if crossed_rungs rs s = 0 then None else Some (rs ! (crossed_rungs rs s - 1)))"
    if "sorted_wrt (\<lambda>a b. fr_after a < fr_after b) rs" for rs
    using that
  proof (induction rs rule: rev_induct)
    case (snoc r rs)
    have IH: "find (\<lambda>r. fr_after r \<le> s) (rev rs) =
        (if crossed_rungs rs s = 0 then None else Some (rs ! (crossed_rungs rs s - 1)))"
      using snoc by (simp add: sorted_wrt_append)
    show ?case
    proof (cases "fr_after r \<le> s")
      case True
      have "filter (\<lambda>r. fr_after r \<le> s) rs = rs"
        using snoc.prems True by (auto simp: sorted_wrt_append filter_id_conv)
      then show ?thesis using True by (simp add: crossed_rungs_def nth_append)
    next
      case False
      moreover have "crossed_rungs rs s - 1 < length rs" if "crossed_rungs rs s \<noteq> 0"
        using that crossed_le [of rs s] by linarith
      ultimately show ?thesis using IH by (auto simp: crossed_rungs_def nth_append)
    qed
  qed (simp add: crossed_rungs_def)
  from this [OF assms] show ?thesis by (simp add: level_at_def)
qed

lemma poll_loop_all_fired:
  assumes "\<And>i r. (i, r) \<in> set irs \<Longrightarrow> i < length fired \<and> fired ! i"
  shows "poll_loop s fired irs = Some None"
  using assms by (induction s fired irs rule: poll_loop.induct) auto

lemma poll_loop_prefix:
  assumes srt: "sorted_wrt (\<lambda>a b. fr_after a < fr_after b) rs" and k: "k \<le> crossed_rungs rs s"
    and j: "crossed_rungs rs s \<le> j" "j \<le> length rs"
  shows "poll_loop s (fired_upto (length rs) k) (rev (enumerate 0 (take j rs))) =
    Some (if k = crossed_rungs rs s then None
          else Some (\<lparr>fa_level = fr_level (rs ! (crossed_rungs rs s - 1)), fa_rung_index = crossed_rungs rs s - 1\<rparr>,
                     fired_upto (length rs) (crossed_rungs rs s)))"
  using j
proof (induction j)
  case (Suc j)
  let ?m = "crossed_rungs rs s"
  have len: "length (fired_upto (length rs) k) = length rs"
    using k crossed_le [of rs s] by (simp add: fired_upto_def)
  have hd: "rev (enumerate 0 (take (Suc j) rs)) = (j, rs ! j) # rev (enumerate 0 (take j rs))"
    using Suc.prems(2) by (simp add: take_Suc_conv_app_nth enumerate_append_eq)
  have fire: "fired_upto (length rs) k ! i \<longleftrightarrow> i < k" if "i < length rs" for i
    using that k crossed_le [of rs s] by (auto simp: fired_upto_def nth_append)
  have cr: "fr_after (rs ! j) \<le> s \<longleftrightarrow> j < ?m" using crossed_iff [OF srt] Suc.prems(2) by simp
  show ?case
  proof (cases "j < ?m")
    case False
    then show ?thesis using Suc cr by (simp add: hd)
  next
    case True
    then have m: "?m = Suc j" using Suc.prems(1) by simp
    show ?thesis
    proof (cases "k = ?m")
      case True
      have "poll_loop s (fired_upto (length rs) k) (rev (enumerate 0 (take j rs))) = Some None"
        using Suc.prems(2) m True len fire by (intro poll_loop_all_fired) (auto simp: in_set_enumerate_eq)
      moreover have "j < length (fired_upto (length rs) k)" using len Suc.prems(2) by simp
      ultimately show ?thesis using m True cr fire Suc.prems(2) by (simp add: hd)
    next
      case False
      have "replicate (min (j + 1) (length rs)) True @ drop (j + 1) (fired_upto (length rs) k) = fired_upto (length rs) ?m"
        using m k False Suc.prems(2) by (auto simp: fired_upto_def min_def)
      then show ?thesis using m False k cr fire Suc.prems(2) by (simp add: hd len)
    qed
  qed
qed (use k in simp)

definition act_of :: "fail_rung list \<Rightarrow> nat \<Rightarrow> fail_action" where
  "act_of rs i = \<lparr>fa_level = fr_level (rs ! i), fa_rung_index = i\<rparr>"

definition walker_ok :: "fail_ladder_walker \<Rightarrow> nat \<Rightarrow> bool" where
  "walker_ok w k \<longleftrightarrow> sorted_wrt (\<lambda>a b. fr_after a < fr_after b) (fl_rungs (fw_ladder w))
     \<and> fw_fired w = fired_upto (length (fl_rungs (fw_ladder w))) k"

definition due :: "fail_ladder_walker \<Rightarrow> timestamp \<Rightarrow> nat" where
  "due w now = crossed_rungs (fl_rungs (fw_ladder w)) (silence_at w now)"

lemma due_mono: "t \<le> u \<Longrightarrow> due w t \<le> due w u"
  by (simp add: due_def silence_at_def nat_mono crossed_mono)

text \<open>One poll: never a panic; a rung fires exactly when more rungs are due than have fired.\<close>

lemma poll_at_ok:
  assumes ok: "walker_ok w k" and t: "k \<le> due w now"
  shows "\<exists>w'. poll_at w now = Some (if k = due w now then None else Some (act_of (fl_rungs (fw_ladder w)) (due w now - 1)), w')
    \<and> walker_ok w' (due w now) \<and> fw_ladder w' = fw_ladder w \<and> fw_entered_at w' = fw_entered_at w"
proof -
  have srt: "sorted_wrt (\<lambda>a b. fr_after a < fr_after b) (fl_rungs (fw_ladder w))"
    and f: "fw_fired w = fired_upto (length (fl_rungs (fw_ladder w))) k"
    using ok by (simp_all add: walker_ok_def)
  from poll_loop_prefix [OF srt t [unfolded due_def] crossed_le le_refl]
  show ?thesis using ok f by (auto simp: poll_at_def walker_ok_def due_def act_of_def)
qed

fun run_polls :: "fail_ladder_walker \<Rightarrow> timestamp list \<Rightarrow> (fail_action list \<times> fail_ladder_walker) option" where
  "run_polls w [] = Some ([], w)"
| "run_polls w (t # ts) =
     (case poll_at w t of
        None \<Rightarrow> None
      | Some (a, w') \<Rightarrow> map_option (map_prod ((@) (case a of None \<Rightarrow> [] | Some x \<Rightarrow> [x])) id) (run_polls w' ts))"

lemma last_rung:
  assumes "is = [] \<longrightarrow> c = (m::nat)" and "is \<noteq> [] \<longrightarrow> last is = m - 1"
  shows "(if k = c then [] else [c - 1]) @ is = [] \<longrightarrow> k = m"
    and "(if k = c then [] else [c - 1]) @ is \<noteq> [] \<longrightarrow> last ((if k = c then [] else [c - 1]) @ is) = m - 1"
  using assms by (cases "k = c"; cases "is = []"; simp)+

lemma run_polls_ok:
  assumes "walker_ok w k" and "sorted (t # ts)" and "k \<le> due w t"
  shows "\<exists>is w'. run_polls w (t # ts) = Some (map (act_of (fl_rungs (fw_ladder w))) is, w') \<and> sorted_wrt (<) is
    \<and> (\<forall>i \<in> set is. k \<le> i \<and> i < due w (last (t # ts))) \<and> (is = [] \<longrightarrow> k = due w (last (t # ts)))
    \<and> (is \<noteq> [] \<longrightarrow> last is = due w (last (t # ts)) - 1)
    \<and> walker_ok w' (due w (last (t # ts))) \<and> fw_ladder w' = fw_ladder w"
  using assms
proof (induction ts arbitrary: w k t)
  case Nil
  obtain w' where w': "poll_at w t = Some (if k = due w t then None else Some (act_of (fl_rungs (fw_ladder w)) (due w t - 1)), w')"
    "walker_ok w' (due w t)" "fw_ladder w' = fw_ladder w"
    using poll_at_ok [OF Nil.prems(1,3)] by blast
  show ?case
    using w' Nil.prems(3) by (intro exI [of _ "if k = due w t then [] else [due w t - 1]"] exI [of _ w']) auto
next
  case (Cons u ts)
  let ?rs = "fl_rungs (fw_ladder w)" and ?c = "due w t" and ?m = "due w (last (u # ts))"
  obtain w' where w': "poll_at w t = Some (if k = ?c then None else Some (act_of ?rs (?c - 1)), w')"
    "walker_ok w' ?c" "fw_ladder w' = fw_ladder w" "fw_entered_at w' = fw_entered_at w"
    using poll_at_ok [OF Cons.prems(1,3)] by blast
  have due': "due w' = due w" using w'(3,4) by (simp add: due_def silence_at_def fun_eq_iff)
  have "?c \<le> due w' u" using Cons.prems(2) by (simp add: due' due_mono)
  from Cons.IH [OF w'(2) _ this] Cons.prems(2) obtain "is" w2 where
    r: "run_polls w' (u # ts) = Some (map (act_of ?rs) is, w2)" "sorted_wrt (<) is"
    "\<forall>i \<in> set is. ?c \<le> i \<and> i < ?m" "is = [] \<longrightarrow> ?c = ?m" "is \<noteq> [] \<longrightarrow> last is = ?m - 1"
    "walker_ok w2 ?m" "fw_ladder w2 = fw_ladder w"
    by (auto simp: due' w'(3) simp del: run_polls.simps)
  let ?js = "(if k = ?c then [] else [?c - 1]) @ is"
  have "run_polls w (t # u # ts) = Some (map (act_of ?rs) ?js, w2)"
    using w'(1) r(1) by (simp del: run_polls.simps(2) add: run_polls.simps(2) [of w t])
  moreover have "?c \<le> ?m" using Cons.prems(2) by (intro due_mono) auto
  moreover have "sorted_wrt (<) ?js" using r(2,3) Cons.prems(3) by (fastforce simp: sorted_wrt_append)
  moreover have "\<forall>i \<in> set ?js. k \<le> i \<and> i < ?m" 
  proof
    fix i
    assume "i \<in> set ?js"
    then consider "k \<noteq> ?c" "i = ?c - 1" | "i \<in> set is" by (auto split: if_splits)
    then show "k \<le> i \<and> i < ?m" using r(3) Cons.prems(3) \<open>?c \<le> ?m\<close> by cases (auto dest: bspec)
  qed
  moreover note last_rung [OF r(4,5), of k]
  ultimately show ?case
    using r(6,7) unfolding last_ConsR [OF list.distinct(2)] by blast
qed

subsection \<open>Properties\<close>

text \<open>
  C12: the walker enforces the ladder. For every ladder the constructor accepts and every sequence of
  polls at non-decreasing times, the walker never panics, fires the rungs in strictly increasing
  order and hence each at most once, the last level it fired is the level the ladder prescribes for
  the silence at the last poll (none if no rung was crossed), and it reports completion exactly when
  the last rung has been crossed.
\<close>

theorem walker_follows_ladder:
  assumes "from_rungs rungs = Inr l" and "sorted ts" and "ts \<noteq> []"
  shows "\<exists>acts w. run_polls (walker_start l e) ts = Some (acts, w)
    \<and> sorted_wrt (<) (map fa_rung_index acts)
    \<and> level_at l (nat (last ts - e)) = (if acts = [] then None else Some (fa_level (last acts)))
    \<and> (is_complete w \<longleftrightarrow> fr_after (last rungs) \<le> nat (last ts - e))"
proof -
  have l: "l = \<lparr>fl_rungs = rungs\<rparr>" and ne: "rungs \<noteq> []" and inc: "windows_increase rungs"
    using assms(1) by (auto simp: from_rungs_def split: if_splits)
  note srt = windows_increase_sorted [OF inc]
  obtain t us where ts: "ts = t # us" using assms(3) by (cases ts) auto
  let ?w = "walker_start l e" and ?s = "nat (last ts - e)"
  let ?m = "crossed_rungs rungs ?s"
  have due: "due ?w (last ts) = ?m" by (simp add: due_def silence_at_def walker_start_def l)
  have "walker_ok ?w 0" using srt by (simp add: walker_ok_def walker_start_def l fired_upto_def)
  from run_polls_ok [OF this, of t us] obtain "is" w' where
    r: "run_polls ?w ts = Some (map (act_of rungs) is, w')" "sorted_wrt (<) is" "is = [] \<longrightarrow> ?m = 0"
    "is \<noteq> [] \<longrightarrow> last is = ?m - 1" "\<forall>i \<in> set is. i < ?m" "walker_ok w' ?m" "fw_ladder w' = l"
    using assms(2) due by (auto simp: ts l walker_start_def simp del: run_polls.simps)
  have "map fa_rung_index (map (act_of rungs) is) = is" by (simp add: act_of_def map_idI)
  moreover have "is = [] \<longleftrightarrow> ?m = 0" using r(3,5) by (cases "is") auto
  then have "level_at l ?s = (if is = [] then None else Some (fa_level (last (map (act_of rungs) is))))"
    using level_at_crossed [of l ?s] srt r(4) by (simp add: l last_map act_of_def)
  moreover have "fr_after (last rungs) \<le> ?s \<longleftrightarrow> ?m = length rungs"
    using crossed_iff [OF srt, of "length rungs - 1" ?s] ne crossed_le [of rungs ?s] by (auto simp: last_conv_nth)
  moreover have "is_complete w' \<longleftrightarrow> length rungs - ?m = 0"
    using r(6,7) by (simp add: is_complete_def walker_ok_def l fired_upto_def list_all_iff set_replicate_conv_if)
  then have "is_complete w' \<longleftrightarrow> ?m = length rungs" using crossed_le [of rungs ?s] by linarith
  ultimately show ?thesis using r(1,2) by (intro exI [of _ "map (act_of rungs) is"] exI [of _ w']) simp
qed

theorem walker_follows_ladder_witness:
  "\<exists>acts w. run_polls (walker_start \<lparr>fl_rungs = [rung 15 CtlWidenSpreads, rung 60 CtlStopNew]\<rparr> 0) [1000, 16000, 20000]
     = Some (acts, w) \<and> (acts \<noteq> [] \<longrightarrow> fa_level (last acts) = CtlWidenSpreads) \<and> \<not> is_complete w"
proof -
  have "from_rungs [rung 15 CtlWidenSpreads, rung 60 CtlStopNew]
      = Inr \<lparr>fl_rungs = [rung 15 CtlWidenSpreads, rung 60 CtlStopNew]\<rparr>"
    by (simp add: from_rungs_def rung_def from_secs_def)
  from walker_follows_ladder [OF this, of "[1000, 16000, 20000]" 0] show ?thesis
    by (auto simp: level_at_def rung_def from_secs_def simp del: run_polls.simps)
qed

end
