(* ===== verification/Control_Messages.thy ===== *)
theory Control_Messages
  imports Fail_Ladder Std_Json
begin

section \<open>The control-plane protocol: sequence numbers, leases and messages\<close>

text \<open>
  \<^verbatim>\<open>crates/control/src\<close>: \<^verbatim>\<open>seq.rs\<close>, \<^verbatim>\<open>lease.rs\<close>, \<^verbatim>\<open>lkg.rs\<close>, \<^verbatim>\<open>messages.rs\<close>, \<^verbatim>\<open>envelope.rs\<close> and \<^verbatim>\<open>transport.rs\<close>.

  \<^item> A \<^verbatim>\<open>Seq\<close> is a 64-bit word that saturates. Times are milliseconds; a read of the clock is an
    argument.
  \<^item> Telemetry rows are carried opaquely, as their JSON.
  \<^item> A public key is its hex text. Signatures are carried and not computed: no modelled path signs or
    verifies, as in the code.
  \<^item> An endpoint keeps what it has sent in order; \<open>ep_fault\<close> is the error its next sends report, so
    a closed peer and an I/O failure are both covered.
\<close>

subsection \<open>Sequence numbers\<close>

type_synonym seq = u64

definition SEQ_ZERO :: seq where
  "SEQ_ZERO = 0"

definition seq_next :: "seq \<Rightarrow> seq" where
  "seq_next s = sat_add s 1"

definition is_after :: "seq \<Rightarrow> seq \<Rightarrow> bool" where
  "is_after s other = (other < s)"

record cursor =
  cu_last_applied :: seq
  cu_updated_at_ms :: timestamp

definition cursor_fresh :: "timestamp \<Rightarrow> cursor" where
  "cursor_fresh now = \<lparr>cu_last_applied = SEQ_ZERO, cu_updated_at_ms = now\<rparr>"

definition cursor_advance :: "timestamp \<Rightarrow> seq \<Rightarrow> cursor \<Rightarrow> cursor" where
  "cursor_advance now to c =
     (if is_after to (cu_last_applied c) then \<lparr>cu_last_applied = to, cu_updated_at_ms = now\<rparr> else c)"

subsection \<open>Leases\<close>

record leader_lease =
  ll_lease_id :: uuid
  ll_agent_id :: string
  ll_issued_at :: timestamp
  ll_expires_at :: timestamp
  ll_issued_seq :: seq

definition is_valid_at :: "leader_lease \<Rightarrow> timestamp \<Rightarrow> bool" where
  "is_valid_at l now = (now < ll_expires_at l)"

datatype lease_state =
    Unclaimed
  | Held leader_lease
  | Expired leader_lease
  | Revoked leader_lease string

definition is_authorised_at :: "lease_state \<Rightarrow> timestamp \<Rightarrow> bool" where
  "is_authorised_at st now = (case st of Held l \<Rightarrow> is_valid_at l now | _ \<Rightarrow> False)"

subsection \<open>Messages\<close>

record desired_strategy =
  ds_deployment_id :: string
  ds_template :: string
  ds_symbol :: string
  ds_credentials :: "string list"
  ds_variables :: json_map
  ds_fail_ladder_override :: "fail_ladder option"

definition credential_ids :: "desired_strategy \<Rightarrow> string list" where
  "credential_ids d = filter (\<lambda>s. s \<noteq> []) (ds_credentials d)"

record pushed_credential =
  pc_id :: string
  pc_exchange :: string
  pc_product :: string
  pc_api_key :: string
  pc_api_secret :: string
  pc_max_notional_quote :: "string option"
  pc_default_symbol :: "string option"

datatype command_payload =
    LeaseGrant leader_lease
  | LeaseRefresh leader_lease
  | LeaseRevoke string
  | PushCredential pushed_credential
  | SetDesiredStrategies "desired_strategy list"
  | FetchDeploymentDetails string string uuid json_map
  | PatchDeploymentVariables string json_map
  | AddClient string "string list"
  | CmdHeartbeat

type_synonym u16 = "16 word"

datatype telemetry_payload =
    Register string seq u16 "string option" string
  | LeaseRefreshRequest uuid
  | TelHeartbeat timestamp
  | Ack seq
  | DeploymentState "json list"
  | DetailsReply uuid string string json "string option"

definition PROTOCOL_VERSION :: u16 where
  "PROTOCOL_VERSION = 1"

datatype envelope_kind = CommandKind | TelemetryKind

record envelope =
  env_seq :: seq
  env_sent_at_ms :: timestamp
  env_kind :: envelope_kind
  env_protocol_version :: u16
  env_command :: "command_payload option"
  env_telemetry :: "telemetry_payload option"

definition command_envelope :: "timestamp \<Rightarrow> seq \<Rightarrow> command_payload \<Rightarrow> envelope" where
  "command_envelope now s payload =
     \<lparr>env_seq = s, env_sent_at_ms = now, env_kind = CommandKind, env_protocol_version = PROTOCOL_VERSION,
      env_command = Some payload, env_telemetry = None\<rparr>"

definition telemetry_envelope :: "timestamp \<Rightarrow> seq \<Rightarrow> telemetry_payload \<Rightarrow> envelope" where
  "telemetry_envelope now s payload =
     \<lparr>env_seq = s, env_sent_at_ms = now, env_kind = TelemetryKind, env_protocol_version = PROTOCOL_VERSION,
      env_command = None, env_telemetry = Some payload\<rparr>"

record signed_envelope =
  se_envelope :: envelope
  se_signature :: "u8 list"

definition unsigned_envelope :: "envelope \<Rightarrow> signed_envelope" where
  "unsigned_envelope e = \<lparr>se_envelope = e, se_signature = []\<rparr>"

subsection \<open>Transport\<close>

datatype transport_error = Closed | TransportIo string | TransportEncode string

record endpoint =
  ep_sent :: "signed_envelope list"
  ep_fault :: "transport_error option"

definition ep_send :: "signed_envelope \<Rightarrow> endpoint \<Rightarrow> transport_error option \<times> endpoint" where
  "ep_send e ep =
     (case ep_fault ep of
        Some err \<Rightarrow> (Some err, ep)
      | None \<Rightarrow> (None, ep\<lparr>ep_sent := ep_sent ep @ [e]\<rparr>))"

subsection \<open>Last-known-good cache\<close>

record lkg_cache =
  lkg_agent_id :: string
  lkg_schema_version :: u16
  lkg_written_at :: timestamp
  lkg_last_applied_seq :: seq
  lkg_strategies :: "desired_strategy list"

definition lkg_fresh :: "timestamp \<Rightarrow> string \<Rightarrow> lkg_cache" where
  "lkg_fresh now agent_id =
     \<lparr>lkg_agent_id = agent_id, lkg_schema_version = 1, lkg_written_at = now, lkg_last_applied_seq = SEQ_ZERO,
      lkg_strategies = []\<rparr>"

definition is_fresh_within :: "lkg_cache \<Rightarrow> int \<Rightarrow> timestamp \<Rightarrow> bool" where
  "is_fresh_within c ttl now = (now - lkg_written_at c < ttl)"

subsection \<open>Facts used on both sides\<close>

lemma seq_next_after:
  assumes "s \<noteq> - 1"
  shows "s < seq_next s"
proof -
  have "unat s \<noteq> unat (- 1 :: seq)" using assms by (simp add: word_unat_eq_iff)
  then have "unat s \<noteq> 2 ^ 64 - 1" by (simp add: unsigned_minus_1_eq_mask mask_eq_exp_minus_1)
  moreover have "unat s < 2 ^ 64" using unsigned_less [of s] by simp
  ultimately show ?thesis by (simp add: seq_next_def word_less_nat_alt sat_add_unat)
qed

lemma cursor_monotone: "cu_last_applied c \<le> cu_last_applied (cursor_advance now to c)"
  by (auto simp: cursor_advance_def is_after_def)

end
