(* ===== verification/Credential_Vault.thy ===== *)
theory Credential_Vault
  imports Std_Maps Control_Messages "HOL-Library.Char_ord" "HOL-Library.List_Lexorder" "HOL-Library.Multiset"
begin

section \<open>The credential vault\<close>

text \<open>
  \<^verbatim>\<open>crates/controller/src/vault.rs\<close>: the controller's secrets and the access checks on them. Encryption
  at rest and the file are left out; as in the approval store the outcome of writing the file is the
  argument \<open>io\<close>. The order in which the hash map of entries is walked is the argument \<open>ord\<close>.
\<close>

datatype vault_error =
    VaultIo string
  | VaultParse string
  | VaultDuplicate string
  | VaultNotFound string
  | VaultCrypto string
  | VaultInvalid string

definition EXCHANGE :: string where
  "EXCHANGE = ''exchange''"

record vault_entry =
  ve_name :: string
  ve_kind :: string
  ve_description :: "string option"
  ve_values :: "(string, string) btree_map"
  ve_metadata :: "(string, string) btree_map"
  ve_allowed_agents :: "string list"
  ve_client_id :: "string option"
  ve_created_at_ms :: timestamp
  ve_updated_at_ms :: timestamp
  ve_rotated_at_ms :: "timestamp option"
  ve_expires_at_ms :: "timestamp option"

record vault_summary =
  vs_name :: string
  vs_kind :: string
  vs_description :: "string option"
  vs_metadata :: "(string, string) btree_map"
  vs_value_keys :: "string list"
  vs_allowed_agents :: "string list"
  vs_client_id :: "string option"
  vs_created_at_ms :: timestamp
  vs_updated_at_ms :: timestamp
  vs_rotated_at_ms :: "timestamp option"
  vs_expires_at_ms :: "timestamp option"

record credential_descriptor =
  cd_id :: string
  cd_exchange :: string
  cd_product :: string
  cd_default_symbol :: "string option"
  cd_client_id :: "string option"

datatype credential_check =
    CheckOk string string
  | CheckUnknown
  | CheckWrongKind string
  | CheckTenantMismatch string string
  | CheckNotAuthorised "string list"
  | CheckExpired timestamp

text \<open>
  Whether trimming leaves nothing, on the UTF-8 bytes of a text: every character has the Unicode
  property White\_Space.
\<close>

fun blank_text :: "string \<Rightarrow> bool" where
  "blank_text [] = True"
| "blank_text (c # cs) =
     (let n = of_char c :: nat
      in if 9 \<le> n \<and> n \<le> 13 \<or> n = 32 then blank_text cs
         else case cs of
           [] \<Rightarrow> False
         | d # ds \<Rightarrow>
             let m = of_char d :: nat
             in if n = 0xC2 \<and> (m = 0x85 \<or> m = 0xA0) then blank_text ds
                else case ds of
                  [] \<Rightarrow> False
                | e # es \<Rightarrow>
                    let k = of_char e :: nat
                    in ((n = 0xE1 \<and> m = 0x9A \<and> k = 0x80)
                        \<or> (n = 0xE2 \<and> m = 0x80 \<and> (0x80 \<le> k \<and> k \<le> 0x8A \<or> k = 0xA8 \<or> k = 0xA9 \<or> k = 0xAF))
                        \<or> (n = 0xE2 \<and> m = 0x81 \<and> k = 0x9F)
                        \<or> (n = 0xE3 \<and> m = 0x80 \<and> k = 0x80)) \<and> blank_text es)"

definition missing_or_empty :: "(string, string) btree_map \<Rightarrow> string \<Rightarrow> bool" where
  "missing_or_empty m k = (case bt_get m k of None \<Rightarrow> True | Some v \<Rightarrow> v = [])"

definition text_or_default :: "(string, string) btree_map \<Rightarrow> string \<Rightarrow> string" where
  "text_or_default m k = (case bt_get m k of None \<Rightarrow> [] | Some v \<Rightarrow> v)"

definition allowed_exchanges :: "string list" where
  "allowed_exchanges = [''binance'', ''binance_testnet'', ''bybit'', ''bybit_testnet'', ''hyperliquid'', ''hyperliquid_testnet'']"

definition allowed_products :: "string list" where
  "allowed_products = [''spot'', ''linear_perp'', ''inverse_perp'']"

definition vault_validate :: "vault_entry \<Rightarrow> vault_error option" where
  "vault_validate e =
     (if blank_text (ve_name e) then Some (VaultInvalid ''name must not be empty'')
      else if blank_text (ve_kind e) then Some (VaultInvalid ''kind must not be empty'')
      else if ve_kind e = EXCHANGE then
        (case find (missing_or_empty (ve_values e)) [''api_key'', ''api_secret''] of
           Some k \<Rightarrow> Some (VaultInvalid (''exchange entry requires value '' @ k))
         | None \<Rightarrow>
             (case find (missing_or_empty (ve_metadata e)) [''exchange'', ''product''] of
                Some k \<Rightarrow> Some (VaultInvalid (''exchange entry requires metadata '' @ k))
              | None \<Rightarrow>
                  if text_or_default (ve_metadata e) ''exchange'' \<notin> set allowed_exchanges
                  then Some (VaultInvalid (''unknown exchange '' @ text_or_default (ve_metadata e) ''exchange''))
                  else if text_or_default (ve_metadata e) ''product'' \<notin> set allowed_products
                  then Some (VaultInvalid (''unknown product '' @ text_or_default (ve_metadata e) ''product''))
                  else None))
      else if ve_values e = [] then Some (VaultInvalid ''entry has no values'')
      else if list_ex (\<lambda>(_, v). v = []) (ve_values e) then Some (VaultInvalid ''values must not be empty'')
      else None)"

definition agent_is_authorised :: "vault_entry \<Rightarrow> string \<Rightarrow> bool" where
  "agent_is_authorised e agent_id \<longleftrightarrow> ve_allowed_agents e = [] \<or> agent_id \<in> set (ve_allowed_agents e)"

definition vault_summary_of :: "vault_entry \<Rightarrow> vault_summary" where
  "vault_summary_of e =
     \<lparr>vs_name = ve_name e, vs_kind = ve_kind e, vs_description = ve_description e, vs_metadata = ve_metadata e,
      vs_value_keys = map fst (ve_values e), vs_allowed_agents = ve_allowed_agents e, vs_client_id = ve_client_id e,
      vs_created_at_ms = ve_created_at_ms e, vs_updated_at_ms = ve_updated_at_ms e,
      vs_rotated_at_ms = ve_rotated_at_ms e, vs_expires_at_ms = ve_expires_at_ms e\<rparr>"

type_synonym vault_store = "(string, vault_entry) hash_map"

definition persisted :: "vault_error option \<Rightarrow> vault_summary \<Rightarrow> vault_store \<Rightarrow> (vault_error + vault_summary) \<times> vault_store" where
  "persisted io s st = (case io of Some e \<Rightarrow> (Inl e, st) | None \<Rightarrow> (Inr s, st))"

definition vault_insert ::
  "vault_error option \<Rightarrow> timestamp \<Rightarrow> vault_entry \<Rightarrow> vault_store \<Rightarrow> (vault_error + vault_summary) \<times> vault_store" where
  "vault_insert io now entry st =
     (case vault_validate entry of
        Some e \<Rightarrow> (Inl e, st)
      | None \<Rightarrow>
          let e1 = (if ve_created_at_ms entry = 0 then entry\<lparr>ve_created_at_ms := now\<rparr> else entry);
              e2 = e1\<lparr>ve_updated_at_ms := now\<rparr>
          in if hm_get st (ve_name e2) \<noteq> None then (Inl (VaultDuplicate (ve_name e2)), st)
             else persisted io (vault_summary_of e2) (hm_insert (ve_name e2) e2 st))"

definition vault_upsert ::
  "vault_error option \<Rightarrow> timestamp \<Rightarrow> vault_entry \<Rightarrow> vault_store \<Rightarrow> (vault_error + vault_summary) \<times> vault_store" where
  "vault_upsert io now entry st =
     (case vault_validate entry of
        Some e \<Rightarrow> (Inl e, st)
      | None \<Rightarrow>
          let prev = hm_get st (ve_name entry);
              e1 = entry\<lparr>ve_created_at_ms := (case prev of None \<Rightarrow> now | Some p \<Rightarrow> ve_created_at_ms p),
                         ve_updated_at_ms := now\<rparr>;
              e2 = (case prev of
                      None \<Rightarrow> e1
                    | Some p \<Rightarrow> e1\<lparr>ve_rotated_at_ms := (if ve_values p \<noteq> ve_values e1 then Some now else ve_rotated_at_ms p)\<rparr>)
          in persisted io (vault_summary_of e2) (hm_insert (ve_name e2) e2 st))"

definition vault_remove :: "vault_error option \<Rightarrow> string \<Rightarrow> vault_store \<Rightarrow> vault_error option \<times> vault_store" where
  "vault_remove io name st = (if hm_get st name = None then (None, st) else (io, hm_remove name st))"

definition vault_get_value :: "vault_store \<Rightarrow> string \<Rightarrow> string \<Rightarrow> string option" where
  "vault_get_value st name key = Option.bind (hm_get st name) (\<lambda>e. bt_get (ve_values e) key)"

definition list_summaries :: "vault_store \<Rightarrow> vault_summary list" where
  "list_summaries st = sort_key vs_name (map (vault_summary_of \<circ> snd) st)"

subsection \<open>Access for agents\<close>

definition pushable_one :: "string \<Rightarrow> vault_entry \<Rightarrow> pushed_credential option" where
  "pushable_one agent_id e =
     (if ve_kind e \<noteq> EXCHANGE then None
      else if \<not> agent_is_authorised e agent_id then None
      else case (bt_get (ve_values e) ''api_key'', bt_get (ve_values e) ''api_secret'') of
        (Some key, Some secret) \<Rightarrow>
          Some \<lparr>pc_id = ve_name e, pc_exchange = text_or_default (ve_metadata e) ''exchange'',
                pc_product = text_or_default (ve_metadata e) ''product'', pc_api_key = key, pc_api_secret = secret,
                pc_max_notional_quote = bt_get (ve_metadata e) ''max_notional_quote'',
                pc_default_symbol = bt_get (ve_metadata e) ''default_symbol''\<rparr>
      | _ \<Rightarrow> None)"

definition pushable_exchange_for_agent ::
  "(vault_entry list \<Rightarrow> vault_entry list) \<Rightarrow> vault_store \<Rightarrow> string \<Rightarrow> pushed_credential list" where
  "pushable_exchange_for_agent ord st agent_id = List.map_filter (pushable_one agent_id) (ord (map snd st))"

definition entry_expired :: "timestamp \<Rightarrow> vault_entry \<Rightarrow> bool" where
  "entry_expired now e = (case ve_expires_at_ms e of None \<Rightarrow> False | Some t \<Rightarrow> t \<le> now)"

definition exchange_descriptors_for_agent :: "timestamp \<Rightarrow> vault_store \<Rightarrow> string \<Rightarrow> credential_descriptor list" where
  "exchange_descriptors_for_agent now st agent_id =
     sort_key cd_id
       (map (\<lambda>e. \<lparr>cd_id = ve_name e, cd_exchange = text_or_default (ve_metadata e) ''exchange'',
                  cd_product = text_or_default (ve_metadata e) ''product'',
                  cd_default_symbol = bt_get (ve_metadata e) ''default_symbol'', cd_client_id = ve_client_id e\<rparr>)
         (filter (\<lambda>e. ve_kind e = EXCHANGE \<and> agent_is_authorised e agent_id \<and> \<not> entry_expired now e) (map snd st)))"

definition whitelist_check :: "vault_entry \<Rightarrow> string \<Rightarrow> credential_check" where
  "whitelist_check e agent_id =
     (if agent_is_authorised e agent_id
      then CheckOk (text_or_default (ve_metadata e) ''exchange'') (text_or_default (ve_metadata e) ''product'')
      else CheckNotAuthorised (ve_allowed_agents e))"

definition tenant_check :: "vault_entry \<Rightarrow> string \<Rightarrow> string option \<Rightarrow> credential_check" where
  "tenant_check e agent_id agent_tenant =
     (case (ve_client_id e, agent_tenant) of
        (None, _) \<Rightarrow> whitelist_check e agent_id
      | (Some c, None) \<Rightarrow> CheckTenantMismatch c []
      | (Some c, Some t) \<Rightarrow> if c \<noteq> t then CheckTenantMismatch c t else whitelist_check e agent_id)"

definition can_exchange_access ::
  "timestamp \<Rightarrow> vault_store \<Rightarrow> string \<Rightarrow> string \<Rightarrow> string option \<Rightarrow> credential_check" where
  "can_exchange_access now st credential_id agent_id agent_tenant =
     (case hm_get st credential_id of
        None \<Rightarrow> CheckUnknown
      | Some e \<Rightarrow>
          if ve_kind e \<noteq> EXCHANGE then CheckWrongKind (ve_kind e)
          else case ve_expires_at_ms e of
            Some t \<Rightarrow> if t \<le> now then CheckExpired t else tenant_check e agent_id agent_tenant
          | None \<Rightarrow> tenant_check e agent_id agent_tenant)"

subsection \<open>What the checks enforce\<close>

definition vault_ok :: "vault_store \<Rightarrow> bool" where
  "vault_ok st \<longleftrightarrow> hm_ok st \<and> (\<forall>(k, e) \<in> set st. k = ve_name e \<and> vault_validate e = None)"

lemma vault_validate_stamps [simp]:
  "vault_validate (e\<lparr>ve_created_at_ms := t\<rparr>) = vault_validate e"
  "vault_validate (e\<lparr>ve_updated_at_ms := t\<rparr>) = vault_validate e"
  "vault_validate (e\<lparr>ve_rotated_at_ms := r\<rparr>) = vault_validate e"
  by (simp_all add: vault_validate_def cong: option.case_cong)

lemma can_access_ok_iff:
  "can_exchange_access now st cid agent tenant = CheckOk x p \<longleftrightarrow>
     (\<exists>e. hm_get st cid = Some e \<and> ve_kind e = EXCHANGE \<and> \<not> entry_expired now e
        \<and> (ve_client_id e = None \<or> ve_client_id e = tenant) \<and> agent_is_authorised e agent
        \<and> x = text_or_default (ve_metadata e) ''exchange'' \<and> p = text_or_default (ve_metadata e) ''product'')"
  by (auto simp: can_exchange_access_def tenant_check_def whitelist_check_def entry_expired_def split: option.splits if_splits)

lemma pushable_iff:
  assumes "\<And>xs. mset (ord xs) = mset xs"
  shows "c \<in> set (pushable_exchange_for_agent ord st agent) \<longleftrightarrow>
    (\<exists>(k, e) \<in> set st. pushable_one agent e = Some c)"
proof -
  have "set (ord (map snd st)) = snd ` set st" by (metis assms set_map set_mset_mset)
  then show ?thesis by (force simp: pushable_exchange_for_agent_def map_filter_def)
qed

end
