(* ===== verification/Agent_Session.thy ===== *)
theory Agent_Session
  imports Approval_Store Credential_Vault
begin

section \<open>The controller's session with an agent\<close>

text \<open>
  \<^verbatim>\<open>crates/controller/src/lib.rs\<close> (\<^verbatim>\<open>AgentSession\<close>) with the fleet view of \<^verbatim>\<open>fleet.rs\<close> and the command registry
  of \<^verbatim>\<open>registry.rs\<close>: registration and admission, lease issue and refresh, revocation.

  \<^item> What a session shares with other tasks (fleet view, vault, approval store, registry, each
    optional) is the record \<open>ctl_shared\<close>, threaded through the handlers. The sender a session
    leaves in the registry is its number.
  \<^item> Arguments stand for the clock, a fresh UUID, the fingerprint of a key and the version parser of
    the \<^verbatim>\<open>semver\<close> library, whose versions are of a linearly ordered type.
  \<^item> The select loop is the function \<open>agent_session_step\<close> on the event that was selected.
  \<^item> \<open>push_credential_to_connected_agents\<close> (\<^verbatim>\<open>http.rs\<close>) is what the vault endpoints queue for the sessions;
    it yields the agents with their commands, whose sending can only fail with a log line.
  \<^item> Log lines and a poisoned lock are left out; a failed \<^verbatim>\<open>expect\<close> is the error \<open>SessPanic\<close>.
\<close>

subsection \<open>The fleet view\<close>

record agent_view =
  av_agent_id :: string
  av_last_seen_ms :: timestamp
  av_protocol_version :: u16
  av_agent_version :: string
  av_pubkey_fingerprint :: string
  av_approval_state :: string
  av_current_lease :: "leader_lease option"
  av_last_applied_seq :: seq
  av_agent_clock_ms :: "timestamp option"
  av_deployments :: "json list"

type_synonym fleet_state = "(string, agent_view) hash_map"

definition bare_view :: "timestamp \<Rightarrow> string \<Rightarrow> u16 \<Rightarrow> seq \<Rightarrow> agent_view" where
  "bare_view now agent_id version last_applied =
     \<lparr>av_agent_id = agent_id, av_last_seen_ms = now, av_protocol_version = version, av_agent_version = [],
      av_pubkey_fingerprint = [], av_approval_state = [], av_current_lease = None,
      av_last_applied_seq = last_applied, av_agent_clock_ms = None, av_deployments = []\<rparr>"

definition nonempty_or :: "string \<Rightarrow> string \<Rightarrow> string" where
  "nonempty_or new old = (if new = [] then old else new)"

definition on_register_full ::
  "timestamp \<Rightarrow> string \<Rightarrow> u16 \<Rightarrow> seq \<Rightarrow> string \<Rightarrow> string \<Rightarrow> string \<Rightarrow> fleet_state \<Rightarrow> fleet_state" where
  "on_register_full now agent_id version last_applied agent_version fingerprint approval fl =
     (let e = (case hm_get fl agent_id of None \<Rightarrow> bare_view now agent_id version last_applied | Some v \<Rightarrow> v)
      in hm_insert agent_id
           (e\<lparr>av_last_seen_ms := now, av_protocol_version := version, av_last_applied_seq := last_applied,
              av_agent_version := nonempty_or agent_version (av_agent_version e),
              av_pubkey_fingerprint := nonempty_or fingerprint (av_pubkey_fingerprint e),
              av_approval_state := nonempty_or approval (av_approval_state e)\<rparr>) fl)"

definition touch_view :: "timestamp \<Rightarrow> string \<Rightarrow> (agent_view \<Rightarrow> agent_view) \<Rightarrow> fleet_state \<Rightarrow> fleet_state" where
  "touch_view now agent_id f fl =
     (case hm_get fl agent_id of
        None \<Rightarrow> fl
      | Some v \<Rightarrow> hm_insert agent_id ((f v)\<lparr>av_last_seen_ms := now\<rparr>) fl)"

definition update_approval_state :: "timestamp \<Rightarrow> string \<Rightarrow> string \<Rightarrow> fleet_state \<Rightarrow> fleet_state" where
  "update_approval_state now agent_id st = touch_view now agent_id (\<lambda>v. v\<lparr>av_approval_state := st\<rparr>)"

definition update_lease :: "timestamp \<Rightarrow> string \<Rightarrow> leader_lease \<Rightarrow> fleet_state \<Rightarrow> fleet_state" where
  "update_lease now agent_id l = touch_view now agent_id (\<lambda>v. v\<lparr>av_current_lease := Some l\<rparr>)"

definition on_heartbeat :: "timestamp \<Rightarrow> string \<Rightarrow> timestamp \<Rightarrow> fleet_state \<Rightarrow> fleet_state" where
  "on_heartbeat now agent_id clock = touch_view now agent_id (\<lambda>v. v\<lparr>av_agent_clock_ms := Some clock\<rparr>)"

definition on_ack :: "timestamp \<Rightarrow> string \<Rightarrow> seq \<Rightarrow> fleet_state \<Rightarrow> fleet_state" where
  "on_ack now agent_id s = touch_view now agent_id (\<lambda>v. v\<lparr>av_last_applied_seq := s\<rparr>)"

definition on_deployment_state :: "timestamp \<Rightarrow> string \<Rightarrow> json list \<Rightarrow> fleet_state \<Rightarrow> fleet_state" where
  "on_deployment_state now agent_id rows = touch_view now agent_id (\<lambda>v. v\<lparr>av_deployments := rows\<rparr>)"

definition on_disconnect :: "string \<Rightarrow> fleet_state \<Rightarrow> fleet_state" where
  "on_disconnect agent_id fl = hm_remove agent_id fl"

definition fleet_snapshot :: "fleet_state \<Rightarrow> agent_view list" where
  "fleet_snapshot fl = sort_key av_agent_id (map snd fl)"

subsection \<open>Session state\<close>

record 'v lease_policy =
  lp_lease_ttl :: nat
  lp_min_refresh_interval :: nat
  lp_min_agent_version :: "'v option"
  lp_max_agent_version :: "'v option"

definition default_lease_policy :: "'v lease_policy" where
  "default_lease_policy = \<lparr>lp_lease_ttl = from_secs 120, lp_min_refresh_interval = from_secs 3,
     lp_min_agent_version = None, lp_max_agent_version = None\<rparr>"

datatype session_error =
    SessTransport transport_error
  | NotRegistered
  | RefreshTooFast nat
  | BadEnvelope
  | SessPanic

datatype session_lifecycle_event = ApprovalGranted | ApprovalRevoked string

record ctl_shared =
  cs_fleet :: "fleet_state option"
  cs_vault :: "vault_store option"
  cs_approvals :: "approval_store option"
  cs_registry :: "(string, nat) hash_map option"

record 'v agent_session =
  as_handle :: nat
  as_transport :: endpoint
  as_cmd_seq :: seq
  as_policy :: "'v lease_policy"
  as_agent_id :: "string option"
  as_current_lease :: "leader_lease option"
  as_cmd_in :: bool
  as_lifecycle :: bool
  as_pubkey_fingerprint :: "string option"
  as_approval_state :: approval_state

definition agent_session_new :: "nat \<Rightarrow> endpoint \<Rightarrow> 'v lease_policy \<Rightarrow> bool \<Rightarrow> 'v agent_session" where
  "agent_session_new handle transport policy with_channels =
     \<lparr>as_handle = handle, as_transport = transport, as_cmd_seq = SEQ_ZERO, as_policy = policy, as_agent_id = None,
      as_current_lease = None, as_cmd_in = with_channels, as_lifecycle = with_channels,
      as_pubkey_fingerprint = None, as_approval_state = Accepted\<rparr>"

type_synonym 'v session_result = "session_error option \<times> 'v agent_session \<times> ctl_shared"

definition check_agent_version :: "(string \<Rightarrow> 'v::linorder option) \<Rightarrow> 'v lease_policy \<Rightarrow> string \<Rightarrow> bool" where
  "check_agent_version parse_version p raw =
     (if raw = [] then lp_min_agent_version p = None \<and> lp_max_agent_version p = None
      else case parse_version raw of
        None \<Rightarrow> False
      | Some v \<Rightarrow>
          (case lp_min_agent_version p of None \<Rightarrow> True | Some m \<Rightarrow> \<not> v < m)
          \<and> (case lp_max_agent_version p of None \<Rightarrow> True | Some m \<Rightarrow> \<not> m \<le> v))"

text \<open>Fleet updates happen only when a fleet view is attached and the agent has registered.\<close>

definition with_fleet :: "(string \<Rightarrow> fleet_state \<Rightarrow> fleet_state) \<Rightarrow> 'v agent_session \<Rightarrow> ctl_shared \<Rightarrow> ctl_shared" where
  "with_fleet f s sh =
     (case (cs_fleet sh, as_agent_id s) of
        (Some fl, Some i) \<Rightarrow> sh\<lparr>cs_fleet := Some (f i fl)\<rparr>
      | _ \<Rightarrow> sh)"

subsection \<open>Issuing leases\<close>

definition push_command :: "timestamp \<Rightarrow> command_payload \<Rightarrow> 'v agent_session \<Rightarrow> session_error option \<times> 'v agent_session" where
  "push_command now payload s =
     (let sq = seq_next (as_cmd_seq s);
          (err, tr) = ep_send (unsigned_envelope (command_envelope now sq payload)) (as_transport s)
      in (map_option SessTransport err, s\<lparr>as_cmd_seq := sq, as_transport := tr\<rparr>))"

text \<open>The conversion of the lifetime to \<^verbatim>\<open>chrono::Duration\<close> panics above the range of \<^verbatim>\<open>i64\<close> milliseconds.\<close>

definition issue_lease :: "uuid \<Rightarrow> timestamp \<Rightarrow> 'v agent_session \<Rightarrow> leader_lease option" where
  "issue_lease lease_id now s =
     (if lp_lease_ttl (as_policy s) < 2 ^ 63
      then Some \<lparr>ll_lease_id = lease_id,
                 ll_agent_id = (case as_agent_id s of None \<Rightarrow> [] | Some a \<Rightarrow> a),
                 ll_issued_at = now, ll_expires_at = now + int (lp_lease_ttl (as_policy s)),
                 ll_issued_seq = seq_next (as_cmd_seq s)\<rparr>
      else None)"

definition issue_fresh_lease :: "uuid \<Rightarrow> timestamp \<Rightarrow> 'v agent_session \<Rightarrow> leader_lease option" where
  "issue_fresh_lease fresh now s = issue_lease fresh now s"

definition issue_extended_lease :: "uuid \<Rightarrow> timestamp \<Rightarrow> 'v agent_session \<Rightarrow> leader_lease option" where
  "issue_extended_lease reuse_lease_id now s = issue_lease reuse_lease_id now s"

fun push_credentials :: "timestamp \<Rightarrow> pushed_credential list \<Rightarrow> 'v agent_session \<Rightarrow> session_error option \<times> 'v agent_session" where
  "push_credentials now [] s = (None, s)"
| "push_credentials now (c # cs) s =
     (case push_command now (PushCredential c) s of
        (Some e, s') \<Rightarrow> (Some e, s')
      | (None, s') \<Rightarrow> push_credentials now cs s')"

definition credential_batch :: "(vault_entry list \<Rightarrow> vault_entry list) \<Rightarrow> 'v agent_session \<Rightarrow> ctl_shared \<Rightarrow> pushed_credential list" where
  "credential_batch ord s sh =
     (case (cs_vault sh, as_agent_id s) of
        (Some v, Some i) \<Rightarrow> pushable_exchange_for_agent ord v i
      | _ \<Rightarrow> [])"

definition issue_initial_lease_and_credentials ::
  "(vault_entry list \<Rightarrow> vault_entry list) \<Rightarrow> uuid \<Rightarrow> timestamp \<Rightarrow> 'v agent_session \<Rightarrow> ctl_shared \<Rightarrow> 'v session_result" where
  "issue_initial_lease_and_credentials ord fresh now s sh =
     (case issue_fresh_lease fresh now s of
        None \<Rightarrow> (Some SessPanic, s, sh)
      | Some lease \<Rightarrow>
          let s1 = s\<lparr>as_current_lease := Some lease\<rparr>;
              sh1 = with_fleet (\<lambda>i. update_lease now i lease) s1 sh
          in case push_command now (LeaseGrant lease) s1 of
               (Some e, s2) \<Rightarrow> (Some e, s2, sh1)
             | (None, s2) \<Rightarrow>
                 (case push_credentials now (credential_batch ord s2 sh1) s2 of (err, s3) \<Rightarrow> (err, s3, sh1)))"

subsection \<open>Handlers\<close>

text \<open>Consulting the approval store; a store without a key refuses the session, the outcome \<open>None\<close>.\<close>

definition admission ::
  "(string \<Rightarrow> string) \<Rightarrow> timestamp \<Rightarrow> string \<Rightarrow> string option \<Rightarrow> ctl_shared
    \<Rightarrow> (string option \<times> approval_state \<times> ctl_shared) option" where
  "admission fingerprint_of now agent_id pubkey sh =
     (case (cs_approvals sh, pubkey) of
        (Some store, Some pk) \<Rightarrow>
          (case record_register now (fingerprint_of pk) agent_id pk store of
             (st, store') \<Rightarrow> Some (Some (fingerprint_of pk), st, sh\<lparr>cs_approvals := Some store'\<rparr>))
      | (Some _, None) \<Rightarrow> None
      | (None, _) \<Rightarrow> Some (None, Accepted, sh))"

definition on_register ::
  "(string \<Rightarrow> string) \<Rightarrow> (string \<Rightarrow> 'v::linorder option) \<Rightarrow> (vault_entry list \<Rightarrow> vault_entry list) \<Rightarrow> uuid \<Rightarrow> timestamp
    \<Rightarrow> string \<Rightarrow> u16 \<Rightarrow> seq \<Rightarrow> string \<Rightarrow> string option \<Rightarrow> 'v agent_session \<Rightarrow> ctl_shared \<Rightarrow> 'v session_result" where
  "on_register fingerprint_of parse_version ord fresh now agent_id protocol_version last_applied agent_version pubkey s sh =
     (if protocol_version \<noteq> PROTOCOL_VERSION then (Some BadEnvelope, s, sh)
      else if \<not> check_agent_version parse_version (as_policy s) agent_version then (Some BadEnvelope, s, sh)
      else case admission fingerprint_of now agent_id pubkey sh of
        None \<Rightarrow> (Some BadEnvelope, s, sh)
      | Some (fp, state, sh1) \<Rightarrow>
          let s1 = s\<lparr>as_pubkey_fingerprint := fp, as_approval_state := state\<rparr>;
              sh2 = (case cs_fleet sh1 of
                       None \<Rightarrow> sh1
                     | Some fl \<Rightarrow>
                         sh1\<lparr>cs_fleet := Some (on_register_full now agent_id protocol_version last_applied agent_version
                           (case fp of None \<Rightarrow> [] | Some f \<Rightarrow> f) (approval_as_str state) fl)\<rparr>);
              sh3 = (case cs_registry sh2 of
                       None \<Rightarrow> sh2
                     | Some reg \<Rightarrow> sh2\<lparr>cs_registry := Some (hm_insert agent_id (as_handle s1) reg)\<rparr>);
              s2 = s1\<lparr>as_agent_id := Some agent_id\<rparr>
          in if \<not> is_accepted state then (None, s2, sh3)
             else issue_initial_lease_and_credentials ord fresh now s2 sh3)"

definition on_refresh_request :: "timestamp \<Rightarrow> uuid \<Rightarrow> 'v agent_session \<Rightarrow> ctl_shared \<Rightarrow> 'v session_result" where
  "on_refresh_request now lease_id s sh =
     (if \<not> is_accepted (as_approval_state s)
      then (case push_command now (LeaseRevoke ''approval revoked'') s of (err, s') \<Rightarrow> (err, s', sh))
      else case as_current_lease s of
        None \<Rightarrow> (Some NotRegistered, s, sh)
      | Some current \<Rightarrow>
          if ll_lease_id current \<noteq> lease_id then (Some BadEnvelope, s, sh)
          else if nat (now - ll_issued_at current) < lp_min_refresh_interval (as_policy s) then (None, s, sh)
          else case issue_extended_lease (ll_lease_id current) now s of
            None \<Rightarrow> (Some SessPanic, s, sh)
          | Some refreshed \<Rightarrow>
              let s1 = s\<lparr>as_current_lease := Some refreshed\<rparr>;
                  sh1 = with_fleet (\<lambda>i. update_lease now i refreshed) s1 sh
              in case push_command now (LeaseRefresh refreshed) s1 of (err, s2) \<Rightarrow> (err, s2, sh1))"

definition on_lifecycle ::
  "(vault_entry list \<Rightarrow> vault_entry list) \<Rightarrow> uuid \<Rightarrow> timestamp \<Rightarrow> session_lifecycle_event
    \<Rightarrow> 'v agent_session \<Rightarrow> ctl_shared \<Rightarrow> 'v session_result" where
  "on_lifecycle ord fresh now ev s sh =
     (case ev of
        ApprovalGranted \<Rightarrow>
          if as_approval_state s = Accepted then (None, s, sh)
          else
            let s1 = s\<lparr>as_approval_state := Accepted\<rparr>;
                sh1 = with_fleet (\<lambda>i. update_approval_state now i (approval_as_str Accepted)) s1 sh
            in issue_initial_lease_and_credentials ord fresh now s1 sh1
      | ApprovalRevoked reason \<Rightarrow>
          if as_approval_state s = ApprovalRevokedState then (None, s, sh)
          else
            let s1 = s\<lparr>as_approval_state := ApprovalRevokedState\<rparr>;
                sh1 = with_fleet (\<lambda>i. update_approval_state now i (approval_as_str ApprovalRevokedState)) s1 sh;
                s2 = s1\<lparr>as_current_lease := None\<rparr>
            in case push_command now (LeaseRevoke reason) s2 of (err, s3) \<Rightarrow> (err, s3, sh1))"

definition on_envelope ::
  "(string \<Rightarrow> string) \<Rightarrow> (string \<Rightarrow> 'v::linorder option) \<Rightarrow> (vault_entry list \<Rightarrow> vault_entry list) \<Rightarrow> uuid \<Rightarrow> timestamp
    \<Rightarrow> signed_envelope \<Rightarrow> 'v agent_session \<Rightarrow> ctl_shared \<Rightarrow> 'v session_result" where
  "on_envelope fingerprint_of parse_version ord fresh now sig s sh =
     (if env_command (se_envelope sig) \<noteq> None then (Some BadEnvelope, s, sh)
      else case env_telemetry (se_envelope sig) of
        None \<Rightarrow> (Some BadEnvelope, s, sh)
      | Some (Register agent_id last_applied version pubkey agent_version) \<Rightarrow>
          on_register fingerprint_of parse_version ord fresh now agent_id version last_applied agent_version pubkey s sh
      | Some (LeaseRefreshRequest lease_id) \<Rightarrow> on_refresh_request now lease_id s sh
      | Some (TelHeartbeat clock) \<Rightarrow> (None, s, with_fleet (\<lambda>i. on_heartbeat now i clock) s sh)
      | Some (Ack sq) \<Rightarrow> (None, s, with_fleet (\<lambda>i. on_ack now i sq) s sh)
      | Some (DeploymentState rows) \<Rightarrow> (None, s, with_fleet (\<lambda>i. on_deployment_state now i rows) s sh)
      | Some (DetailsReply _ _ _ _ _) \<Rightarrow> (None, s, sh))"

datatype session_event =
    Incoming "transport_error + signed_envelope option"
  | OutboundCommand "command_payload option"
  | Lifecycle "session_lifecycle_event option"

text \<open>One turn of the select loop; the flag says that the session ended cleanly.\<close>

definition agent_session_step ::
  "(string \<Rightarrow> string) \<Rightarrow> (string \<Rightarrow> 'v::linorder option) \<Rightarrow> (vault_entry list \<Rightarrow> vault_entry list) \<Rightarrow> uuid \<Rightarrow> timestamp
    \<Rightarrow> session_event \<Rightarrow> 'v agent_session \<Rightarrow> ctl_shared \<Rightarrow> bool \<times> 'v session_result" where
  "agent_session_step fingerprint_of parse_version ord fresh now ev s sh =
     (case ev of
        Incoming (Inr None) \<Rightarrow>
          let sh1 = with_fleet on_disconnect s sh;
              sh2 = (case (cs_registry sh1, as_agent_id s) of
                       (Some reg, Some i) \<Rightarrow> sh1\<lparr>cs_registry := Some (hm_remove i reg)\<rparr>
                     | _ \<Rightarrow> sh1)
          in (True, None, s, sh2)
      | Incoming (Inl e) \<Rightarrow> (False, Some (SessTransport e), s, sh)
      | Incoming (Inr (Some sig)) \<Rightarrow> (False, on_envelope fingerprint_of parse_version ord fresh now sig s sh)
      | OutboundCommand None \<Rightarrow> (False, None, s\<lparr>as_cmd_in := False\<rparr>, sh)
      | OutboundCommand (Some cmd) \<Rightarrow> (case push_command now cmd s of (err, s') \<Rightarrow> (False, err, s', sh))
      | Lifecycle None \<Rightarrow> (False, None, s\<lparr>as_lifecycle := False\<rparr>, sh)
      | Lifecycle (Some le) \<Rightarrow> (False, on_lifecycle ord fresh now le s sh))"

subsection \<open>Credentials queued by the vault endpoints\<close>

definition push_credential_to_connected_agents ::
  "(vault_entry list \<Rightarrow> vault_entry list) \<Rightarrow> string \<Rightarrow> fleet_state \<Rightarrow> vault_store option \<Rightarrow> (string \<times> command_payload) list" where
  "push_credential_to_connected_agents ord cred_name fl vault =
     (case vault of
        None \<Rightarrow> []
      | Some store \<Rightarrow>
          List.map_filter (\<lambda>view.
            if av_approval_state view \<noteq> [] \<and> av_approval_state view \<noteq> ''accepted'' then None
            else map_option (\<lambda>c. (av_agent_id view, PushCredential c))
              (find (\<lambda>c. pc_id c = cred_name) (pushable_exchange_for_agent ord store (av_agent_id view))))
          (fleet_snapshot fl))"

lemma queued_credentials:
  assumes "(i, c) \<in> set (push_credential_to_connected_agents ord name fl (Some st))"
  shows "\<exists>k v. c = PushCredential k \<and> pc_id k = name \<and> k \<in> set (pushable_exchange_for_agent ord st i)
    \<and> v \<in> snd ` set fl \<and> av_agent_id v = i \<and> (av_approval_state v = [] \<or> av_approval_state v = ''accepted'')"
proof -
  let ?f = "\<lambda>view. if av_approval_state view \<noteq> [] \<and> av_approval_state view \<noteq> ''accepted'' then None
    else map_option (\<lambda>c. (av_agent_id view, PushCredential c))
      (find (\<lambda>c. pc_id c = name) (pushable_exchange_for_agent ord st (av_agent_id view)))"
  have "(i, c) \<in> set (List.map_filter ?f (fleet_snapshot fl))"
    using assms by (simp add: push_credential_to_connected_agents_def)
  then obtain v where v: "v \<in> set (fleet_snapshot fl)" "?f v = Some (i, c)" by (auto simp: map_filter_def)
  then obtain k where k: "find (\<lambda>c. pc_id c = name) (pushable_exchange_for_agent ord st i) = Some k" "c = PushCredential k"
      "av_agent_id v = i" "av_approval_state v = [] \<or> av_approval_state v = ''accepted''" by (auto split: if_splits)
  have "v \<in> snd ` set fl" using v(1) by (simp add: fleet_snapshot_def)
  then show ?thesis using k find_SomeD [OF k(1)] by blast
qed

subsection \<open>What a session sends\<close>

fun lease_of :: "command_payload \<Rightarrow> leader_lease option" where
  "lease_of (LeaseGrant l) = Some l"
| "lease_of (LeaseRefresh l) = Some l"
| "lease_of _ = None"

fun secret_of :: "command_payload \<Rightarrow> pushed_credential option" where
  "secret_of (PushCredential c) = Some c"
| "secret_of _ = None"

definition commands_in :: "signed_envelope list \<Rightarrow> command_payload list" where
  "commands_in es = List.map_filter (\<lambda>e. env_command (se_envelope e)) es"

lemma commands_in_simps [simp]:
  "commands_in [] = []" "commands_in (xs @ ys) = commands_in xs @ commands_in ys"
  "commands_in [unsigned_envelope (command_envelope now sq c)] = [c]"
  by (simp_all add: commands_in_def map_filter_def unsigned_envelope_def command_envelope_def)

text \<open>The part of a session no handler changes, and the envelopes a handler appended to its transport.\<close>

definition sends :: "'v agent_session \<Rightarrow> 'v agent_session \<Rightarrow> signed_envelope list \<Rightarrow> bool" where
  "sends s s' es \<longleftrightarrow> ep_sent (as_transport s') = ep_sent (as_transport s) @ es
     \<and> ep_fault (as_transport s') = ep_fault (as_transport s) \<and> as_policy s' = as_policy s \<and> as_handle s' = as_handle s"

lemma sends_trans: "sends s s' es \<Longrightarrow> sends s' s'' es' \<Longrightarrow> sends s s'' (es @ es')"
  by (simp add: sends_def)

lemma push_command_sends:
  assumes "push_command now p s = (err, s')"
  shows "\<exists>es. sends s s' es \<and> commands_in es = (if err = None then [p] else [])
    \<and> as_approval_state s' = as_approval_state s \<and> as_current_lease s' = as_current_lease s
    \<and> as_agent_id s' = as_agent_id s \<and> as_pubkey_fingerprint s' = as_pubkey_fingerprint s"
  using assms
  by (auto simp: push_command_def ep_send_def sends_def Let_def split: prod.splits option.splits
      intro: exI [of _ "[unsigned_envelope (command_envelope now (seq_next (as_cmd_seq s)) p)]"] exI [of _ "[]"])

lemma push_credentials_sends:
  assumes "push_credentials now cs s = (err, s')"
  shows "\<exists>es. sends s s' es \<and> set (commands_in es) \<subseteq> PushCredential ` set cs
    \<and> as_approval_state s' = as_approval_state s \<and> as_current_lease s' = as_current_lease s
    \<and> as_agent_id s' = as_agent_id s \<and> as_pubkey_fingerprint s' = as_pubkey_fingerprint s"
  using assms
proof (induction cs arbitrary: s)
  case Nil
  then show ?case by (auto simp: sends_def intro: exI [of _ "[]"])
next
  case (Cons c cs)
  obtain e1 s1 where p: "push_command now (PushCredential c) s = (e1, s1)" by (rule prod.exhaust)
  note c1 = push_command_sends [OF p]
  show ?case
  proof (cases e1)
    case None
    then have "push_credentials now cs s1 = (err, s')" using Cons.prems p by simp
    from Cons.IH [OF this] c1 None show ?thesis
      by (clarsimp) (intro exI conjI, erule (1) sends_trans, auto)
  next
    case (Some e)
    then show ?thesis using Cons.prems p c1 by auto
  qed
qed

text \<open>
  The discipline of everything a session sends while handling an event: leases run from now for
  exactly the configured lifetime, and leases and credentials go out only from an accepted session,
  credentials only those the vault releases to this agent.
\<close>

definition disciplined ::
  "(vault_entry list \<Rightarrow> vault_entry list) \<Rightarrow> timestamp \<Rightarrow> 'v agent_session \<Rightarrow> ctl_shared \<Rightarrow> command_payload list \<Rightarrow> bool" where
  "disciplined ord now s sh cmds \<longleftrightarrow> (\<forall>c \<in> set cmds.
     (\<forall>l. lease_of c = Some l \<longrightarrow> as_approval_state s = Accepted \<and> ll_issued_at l = now
        \<and> ll_expires_at l = now + int (lp_lease_ttl (as_policy s)) \<and> as_current_lease s = Some l)
     \<and> (\<forall>k. secret_of c = Some k \<longrightarrow> as_approval_state s = Accepted
        \<and> (\<exists>v i. cs_vault sh = Some v \<and> as_agent_id s = Some i \<and> k \<in> set (pushable_exchange_for_agent ord v i))))"

lemma with_fleet_vault [simp]:
  "cs_vault (with_fleet f s sh) = cs_vault sh" "cs_approvals (with_fleet f s sh) = cs_approvals sh"
  "cs_registry (with_fleet f s sh) = cs_registry sh"
  by (simp_all add: with_fleet_def split: option.split)

lemma issue_lease_Some:
  "issue_lease i now s = Some l \<Longrightarrow> ll_issued_at l = now \<and> ll_expires_at l = now + int (lp_lease_ttl (as_policy s)) \<and> ll_lease_id l = i"
  by (auto simp: issue_lease_def split: if_splits)

lemma initial_lease_sends:
  assumes "issue_initial_lease_and_credentials ord fresh now s sh = (err, s', sh')" and "as_approval_state s = Accepted"
  shows "\<exists>es. sends s s' es \<and> disciplined ord now s' sh' (commands_in es) \<and> as_approval_state s' = Accepted
    \<and> as_agent_id s' = as_agent_id s \<and> cs_vault sh' = cs_vault sh \<and> cs_approvals sh' = cs_approvals sh
    \<and> cs_registry sh' = cs_registry sh \<and> as_pubkey_fingerprint s' = as_pubkey_fingerprint s"
proof (cases "issue_fresh_lease fresh now s")
  case None
  then have "s' = s" "sh' = sh" using assms by (auto simp: issue_initial_lease_and_credentials_def)
  then show ?thesis using assms(2) by (intro exI [of _ "[]"]) (simp add: sends_def disciplined_def)
next
  case (Some lease)
  let ?s1 = "s\<lparr>as_current_lease := Some lease\<rparr>" and ?sh1 = "with_fleet (\<lambda>i. update_lease now i lease) (s\<lparr>as_current_lease := Some lease\<rparr>) sh"
  obtain e2 s2 where p: "push_command now (LeaseGrant lease) ?s1 = (e2, s2)" by (rule prod.exhaust)
  obtain e3 s3 where q: "push_credentials now (credential_batch ord s2 ?sh1) s2 = (e3, s3)" by (rule prod.exhaust)
  have l: "ll_issued_at lease = now" "ll_expires_at lease = now + int (lp_lease_ttl (as_policy s))"
    using Some issue_lease_Some by (auto simp: issue_fresh_lease_def)
  have base: "sends s ?s1 []" by (simp add: sends_def)
  from push_command_sends [OF p] obtain es where
    es: "sends ?s1 s2 es" "commands_in es = (if e2 = None then [LeaseGrant lease] else [])"
    "as_approval_state s2 = Accepted" "as_current_lease s2 = Some lease" "as_agent_id s2 = as_agent_id s"
    "as_pubkey_fingerprint s2 = as_pubkey_fingerprint s" using assms(2) by auto
  have s2: "sends s s2 es" using sends_trans [OF base es(1)] by simp
  show ?thesis
  proof (cases e2)
    case (Some e)
    then have "s' = s2" "sh' = ?sh1" using assms(1) p \<open>issue_fresh_lease fresh now s = Some lease\<close>
      by (auto simp: issue_initial_lease_and_credentials_def Let_def)
    then show ?thesis using s2 es Some by (intro exI [of _ es]) (simp add: disciplined_def)
  next
    case None
    then have r: "s' = s3" "sh' = ?sh1" using assms(1) p q \<open>issue_fresh_lease fresh now s = Some lease\<close>
      by (auto simp: issue_initial_lease_and_credentials_def Let_def)
    from push_credentials_sends [OF q] obtain fs where
      fs: "sends s2 s3 fs" "set (commands_in fs) \<subseteq> PushCredential ` set (credential_batch ord s2 ?sh1)"
      "as_approval_state s3 = Accepted" "as_current_lease s3 = Some lease" "as_agent_id s3 = as_agent_id s"
      "as_pubkey_fingerprint s3 = as_pubkey_fingerprint s" using es by auto
    have pol: "as_policy s3 = as_policy s" using s2 fs(1) by (simp add: sends_def)
    have "\<exists>v i. cs_vault sh = Some v \<and> as_agent_id s = Some i \<and> k \<in> set (pushable_exchange_for_agent ord v i)"
      if "k \<in> set (credential_batch ord s2 ?sh1)" for k
      using that es(5) by (cases "cs_vault sh"; cases "as_agent_id s") (auto simp: credential_batch_def)
    then have "disciplined ord now s3 ?sh1 (commands_in (es @ fs))"
      using es(2) None fs l pol by (fastforce simp: disciplined_def)
    then show ?thesis using sends_trans [OF s2 fs(1)] fs r by (intro exI [of _ "es @ fs"]) simp
  qed
qed

lemma refresh_sends:
  assumes "on_refresh_request now i s sh = (err, s', sh')"
  shows "\<exists>es. sends s s' es \<and> disciplined ord now s' sh' (commands_in es) \<and> as_approval_state s' = as_approval_state s
    \<and> as_agent_id s' = as_agent_id s \<and> cs_approvals sh' = cs_approvals sh
    \<and> ((\<exists>c \<in> set (commands_in es). lease_of c \<noteq> None \<or> secret_of c \<noteq> None) \<longrightarrow> as_approval_state s = Accepted)"
proof -
  consider (refused) "\<not> is_accepted (as_approval_state s)"
    | (skip) "is_accepted (as_approval_state s)" "s' = s" "sh' = sh"
    | (issue) l where "is_accepted (as_approval_state s)" "issue_lease i now s = Some l"
        "push_command now (LeaseRefresh l) (s\<lparr>as_current_lease := Some l\<rparr>) = (err, s')"
        "sh' = with_fleet (\<lambda>i. update_lease now i l) (s\<lparr>as_current_lease := Some l\<rparr>) sh"
    using assms
    by (cases "is_accepted (as_approval_state s)"; cases "as_current_lease s"; cases "issue_extended_lease i now s")
      (auto simp: on_refresh_request_def issue_extended_lease_def Let_def split: if_splits prod.splits)
  then show ?thesis
  proof cases
    case refused
    then obtain e t where p: "push_command now (LeaseRevoke ''approval revoked'') s = (e, t)" "s' = t" "sh' = sh"
      using assms by (auto simp: on_refresh_request_def split: prod.splits)
    from push_command_sends [OF p(1)] p(2,3) show ?thesis by (auto simp: disciplined_def)
  next
    case skip
    then show ?thesis by (intro exI [of _ "[]"]) (simp add: sends_def disciplined_def)
  next
    case issue
    from push_command_sends [OF issue(3)] issue_lease_Some [OF issue(2)] issue(1,4) show ?thesis
      by (auto simp: disciplined_def sends_def is_accepted_def)
  qed
qed

lemma admission_state:
  assumes "admission fp now a pk sh = Some (f, Accepted, sh')" and "\<And>st. cs_approvals sh = Some st \<Longrightarrow> hm_ok st"
  shows "cs_approvals sh = None \<or> (\<exists>k st. pk = Some k \<and> cs_approvals sh = Some st \<and> state_of st (fp k) = Some Accepted)"
proof (cases "cs_approvals sh")
  case (Some st)
  then show ?thesis
    using assms record_register_state(1) [of st now "fp (the pk)" a "the pk"]
    by (auto simp: admission_def split: option.splits prod.splits)
qed simp

definition accepted_register :: "(string \<Rightarrow> string) \<Rightarrow> session_event \<Rightarrow> ctl_shared \<Rightarrow> bool" where
  "accepted_register fp ev sh \<longleftrightarrow>
     (\<exists>sig a sq v pk av. ev = Incoming (Inr (Some sig)) \<and> env_telemetry (se_envelope sig) = Some (Register a sq v pk av)
        \<and> (cs_approvals sh = None
           \<or> (\<exists>k st. pk = Some k \<and> cs_approvals sh = Some st \<and> state_of st (fp k) = Some Accepted)))"

lemma register_sends:
  assumes "on_register fp pv ord fresh now a v sq av pk s sh = (err, s', sh')"
    and "\<And>st. cs_approvals sh = Some st \<Longrightarrow> hm_ok st"
  shows "\<exists>es. sends s s' es \<and> disciplined ord now s' sh' (commands_in es)
    \<and> (commands_in es \<noteq> [] \<longrightarrow> cs_approvals sh = None
        \<or> (\<exists>k st. pk = Some k \<and> cs_approvals sh = Some st \<and> state_of st (fp k) = Some Accepted))"
proof -
  consider (refused) "s' = s"
    | (held) "sends s s' []"
    | (granted) f sh1 s2 sh3 where "admission fp now a pk sh = Some (f, Accepted, sh1)" "sends s s2 []"
        "as_approval_state s2 = Accepted" "issue_initial_lease_and_credentials ord fresh now s2 sh3 = (err, s', sh')"
  proof (cases "v = PROTOCOL_VERSION \<and> check_agent_version pv (as_policy s) av")
    case ok: True
    show ?thesis
    proof (cases "admission fp now a pk sh")
      case (Some r)
      obtain f st sh1 where r: "r = (f, st, sh1)" by (rule prod_cases3)
      show ?thesis
      proof (cases "is_accepted st")
        case True
        then show ?thesis
          using assms(1) ok Some r
          by (intro that(3) [of f sh1 "s\<lparr>as_pubkey_fingerprint := f, as_approval_state := st, as_agent_id := Some a\<rparr>"])
            (auto simp: on_register_def Let_def is_accepted_def sends_def)
      next
        case False
        then show ?thesis using assms(1) ok Some r by (intro that(2)) (auto simp: on_register_def Let_def sends_def)
      qed
    qed (use assms(1) ok that(1) in \<open>auto simp: on_register_def\<close>)
  qed (use assms(1) that(1) in \<open>auto simp: on_register_def split: if_splits\<close>)
  then show ?thesis
  proof cases
    case granted
    from initial_lease_sends [OF granted(4,3)] obtain es where
      es: "sends s2 s' es" "disciplined ord now s' sh' (commands_in es)" by blast
    show ?thesis
      using sends_trans [OF granted(2) es(1)] es(2) admission_state [OF granted(1) assms(2)] by auto
  qed (auto simp: sends_def disciplined_def intro: exI [of _ "[]"])
qed

lemma lifecycle_sends:
  assumes "on_lifecycle ord fresh now ev s sh = (err, s', sh')"
  shows "\<exists>es. sends s s' es \<and> disciplined ord now s' sh' (commands_in es)
    \<and> ((\<exists>c \<in> set (commands_in es). lease_of c \<noteq> None \<or> secret_of c \<noteq> None) \<longrightarrow> ev = ApprovalGranted)"
proof (cases ev)
  case ApprovalGranted
  show ?thesis
  proof (cases "as_approval_state s = Accepted")
    case False
    let ?s1 = "s\<lparr>as_approval_state := Accepted\<rparr>"
    have b: "sends s ?s1 []" by (simp add: sends_def)
    have "issue_initial_lease_and_credentials ord fresh now ?s1
        (with_fleet (\<lambda>i. update_approval_state now i (approval_as_str Accepted)) ?s1 sh) = (err, s', sh')"
      using assms ApprovalGranted False by (simp add: on_lifecycle_def Let_def)
    from initial_lease_sends [OF this] obtain es where
      "sends ?s1 s' es" "disciplined ord now s' sh' (commands_in es)" by auto
    then show ?thesis using sends_trans [OF b] ApprovalGranted by (intro exI [of _ es]) auto
  qed (use assms ApprovalGranted in \<open>auto simp: on_lifecycle_def sends_def disciplined_def intro: exI [of _ "[]"]\<close>)
next
  case (ApprovalRevoked reason)
  show ?thesis
  proof (cases "as_approval_state s = ApprovalRevokedState")
    case False
    let ?s2 = "s\<lparr>as_approval_state := ApprovalRevokedState, as_current_lease := None\<rparr>"
    have b: "sends s ?s2 []" by (simp add: sends_def)
    obtain e t where p: "push_command now (LeaseRevoke reason) ?s2 = (e, t)" "s' = t"
      using assms ApprovalRevoked False by (auto simp: on_lifecycle_def Let_def split: prod.splits)
    from push_command_sends [OF p(1)] obtain es where
      "sends ?s2 t es" "commands_in es = (if e = None then [LeaseRevoke reason] else [])" by auto
    then show ?thesis using sends_trans [OF b] p(2) by (intro exI [of _ es]) (auto simp: disciplined_def)
  qed (use assms ApprovalRevoked in \<open>auto simp: on_lifecycle_def sends_def disciplined_def intro: exI [of _ "[]"]\<close>)
qed

lemma session_step_sends:
  assumes "agent_session_step fp pv ord fresh now ev s sh = (fin, err, s', sh')"
    and "\<And>st. cs_approvals sh = Some st \<Longrightarrow> hm_ok st" and "\<And>c. ev \<noteq> OutboundCommand (Some c)"
  shows "\<exists>es. ep_sent (as_transport s') = ep_sent (as_transport s) @ es \<and> as_policy s' = as_policy s \<and> disciplined ord now s' sh' (commands_in es)
    \<and> ((\<exists>c \<in> set (commands_in es). lease_of c \<noteq> None \<or> secret_of c \<noteq> None) \<longrightarrow>
        accepted_register fp ev sh \<or> ev = Lifecycle (Some ApprovalGranted)
        \<or> (\<exists>sig i. ev = Incoming (Inr (Some sig)) \<and> env_telemetry (se_envelope sig) = Some (LeaseRefreshRequest i)
             \<and> as_approval_state s = Accepted))"
proof -
  have quiet: ?thesis if "s' = s \<or> (\<exists>b. s' = s\<lparr>as_cmd_in := b\<rparr>) \<or> (\<exists>b. s' = s\<lparr>as_lifecycle := b\<rparr>)"
    using that by (intro exI [of _ "[]"]) (auto simp: disciplined_def)
  show ?thesis
  proof (cases ev)
    case (Incoming r)
    show ?thesis
    proof (cases r)
      case (Inr o')
      show ?thesis
      proof (cases o')
        case (Some sig)
        have e: "on_envelope fp pv ord fresh now sig s sh = (err, s', sh')"
          using assms(1) Incoming Inr Some by (simp add: agent_session_step_def)
        show ?thesis
        proof (cases "env_command (se_envelope sig) = None")
          case True
          consider (reg) a sq v pk av where "env_telemetry (se_envelope sig) = Some (Register a sq v pk av)"
            | (ref) i where "env_telemetry (se_envelope sig) = Some (LeaseRefreshRequest i)"
            | (rest) "s' = s"
            using e True by (auto simp: on_envelope_def split: option.splits telemetry_payload.splits)
          then show ?thesis
          proof cases
            case reg
            then have "on_register fp pv ord fresh now a v sq av pk s sh = (err, s', sh')"
              using e True by (simp add: on_envelope_def)
            from register_sends [OF this assms(2)] reg Incoming Inr Some show ?thesis
              unfolding accepted_register_def sends_def by fastforce
          next
            case ref
            then have "on_refresh_request now i s sh = (err, s', sh')" using e True by (simp add: on_envelope_def)
            from refresh_sends [OF this] ref Incoming Inr Some show ?thesis unfolding sends_def by fastforce
          qed (rule quiet, simp)
        qed (rule quiet, use e in \<open>simp add: on_envelope_def\<close>)
      qed (rule quiet, use assms(1) Incoming Inr in \<open>auto simp: agent_session_step_def Let_def\<close>)
    qed (rule quiet, use assms(1) Incoming in \<open>auto simp: agent_session_step_def\<close>)
  next
    case (OutboundCommand c)
    then show ?thesis using assms(1,3) by (cases c; intro quiet) (auto simp: agent_session_step_def)
  next
    case (Lifecycle le)
    show ?thesis
    proof (cases le)
      case (Some l)
      then have "on_lifecycle ord fresh now l s sh = (err, s', sh')"
        using assms(1) Lifecycle by (simp add: agent_session_step_def)
      from lifecycle_sends [OF this] Some Lifecycle show ?thesis unfolding sends_def by fastforce
    qed (rule quiet, use assms(1) Lifecycle in \<open>auto simp: agent_session_step_def\<close>)
  qed
qed

subsection \<open>Properties\<close>

text \<open>
  C11: authority is granted only on an operator's decision and for a bounded time. Whatever event a
  session handles, every lease it issues runs from now for exactly the configured lifetime, every credential it
  takes from the vault is one the vault releases to this agent, and both are sent only when the
  event is a registration whose key fingerprint the approval store holds as accepted (or no store is
  attached), an approval by the operator, or a refresh request while the session is accepted. A
  command queued for the session is passed on as it is; the vault endpoint queues
  only credentials the vault releases to the agent, for agents whose fleet entry says accepted or nothing.
\<close>

theorem authority_needs_approval:
  assumes "agent_session_step fp pv ord fresh now ev s sh = (fin, err, s', sh')"
    and "\<And>st. cs_approvals sh = Some st \<Longrightarrow> hm_ok st"
  shows "(\<exists>es. ep_sent (as_transport s') = ep_sent (as_transport s) @ es
      \<and> disciplined ord now s' sh' (filter (\<lambda>c. ev \<noteq> OutboundCommand (Some c)) (commands_in es))
      \<and> (\<forall>c \<in> set (commands_in es). lease_of c \<noteq> None \<or> secret_of c \<noteq> None \<longrightarrow>
          accepted_register fp ev sh \<or> ev = Lifecycle (Some ApprovalGranted)
          \<or> (\<exists>sig i. ev = Incoming (Inr (Some sig)) \<and> env_telemetry (se_envelope sig) = Some (LeaseRefreshRequest i)
               \<and> as_approval_state s = Accepted)
          \<or> ev = OutboundCommand (Some c)))
    \<and> (\<forall>name fl st i c. (i, c) \<in> set (push_credential_to_connected_agents ord name fl (Some st)) \<longrightarrow>
        (\<exists>k v. c = PushCredential k \<and> pc_id k = name \<and> k \<in> set (pushable_exchange_for_agent ord st i)
          \<and> v \<in> snd ` set fl \<and> av_agent_id v = i \<and> (av_approval_state v = [] \<or> av_approval_state v = ''accepted'')))"
proof (cases "\<exists>c. ev = OutboundCommand (Some c)")
  case True
  then obtain c where ev: "ev = OutboundCommand (Some c)" by blast
  then have p: "push_command now c s = (err, s')" using assms(1) by (auto simp: agent_session_step_def split: prod.splits)
  from push_command_sends [OF p] obtain es where
    es: "ep_sent (as_transport s') = ep_sent (as_transport s) @ es" "set (commands_in es) \<subseteq> {c}"
    by (auto simp: sends_def split: if_splits)
  have "filter (\<lambda>d. ev \<noteq> OutboundCommand (Some d)) (commands_in es) = []"
    using es(2) ev by (auto simp: filter_empty_conv)
  then show ?thesis using es ev queued_credentials by (intro conjI exI [of _ es]) (auto simp: disciplined_def)
next
  case False
  then have no: "ev \<noteq> OutboundCommand (Some c)" for c by blast
  from session_step_sends [OF assms no] no queued_credentials show ?thesis by (auto 4 3)
qed

text \<open>A credential that was queued before the revocation is sent to the agent after it.\<close>

lemma queued_credential_outlives_revocation:
  assumes "as_approval_state s = ApprovalRevokedState" and "ep_fault (as_transport s) = None"
  shows "\<exists>s'. agent_session_step fp pv ord fresh now (OutboundCommand (Some (PushCredential k))) s sh = (False, None, s', sh)
    \<and> commands_in (drop (length (ep_sent (as_transport s))) (ep_sent (as_transport s'))) = [PushCredential k]"
  using assms by (simp add: agent_session_step_def push_command_def ep_send_def Let_def)

definition demo_shared :: "approval_state \<Rightarrow> ctl_shared" where
  "demo_shared st = \<lparr>cs_fleet = Some [], cs_vault = Some [],
     cs_approvals = Some [(''fp'', (pending_record 0 ''fp'' ''a'' ''k'')\<lparr>ar_state := st\<rparr>)], cs_registry = Some []\<rparr>"

definition demo_agent_session :: "nat agent_session" where
  "demo_agent_session = agent_session_new 0 \<lparr>ep_sent = [], ep_fault = None\<rparr> default_lease_policy True"

definition demo_register :: session_event where
  "demo_register = Incoming (Inr (Some (unsigned_envelope (telemetry_envelope 0 1 (Register ''a'' 0 1 (Some ''k'') '''')))))"

theorem authority_needs_approval_witness:
  "\<exists>es. ep_sent (as_transport (fst (snd (snd (agent_session_step (\<lambda>_. ''fp'') (\<lambda>_. None) (\<lambda>xs. xs) 7 1000 demo_register demo_agent_session (demo_shared Pending))))))
        = es \<and> (\<forall>c \<in> set (commands_in es). lease_of c = None)"
proof -
  obtain fin err s' sh' where r: "agent_session_step (\<lambda>_. ''fp'') (\<lambda>_. None) (\<lambda>xs. xs) 7 1000 demo_register demo_agent_session (demo_shared Pending)
      = (fin, err, s', sh')" by (metis prod_cases4)
  have st: "hm_ok st" if "cs_approvals (demo_shared Pending) = Some st" for st
    using that by (auto simp: demo_shared_def hm_ok_def)
  have np: "\<not> accepted_register (\<lambda>_. ''fp'') demo_register (demo_shared Pending)"
    by (simp add: accepted_register_def demo_register_def demo_shared_def unsigned_envelope_def telemetry_envelope_def
        state_of_def hm_get_def)
  have tr: "ep_sent (as_transport demo_agent_session) = []" by (simp add: demo_agent_session_def agent_session_new_def)
  have nl: "demo_register \<noteq> OutboundCommand (Some c)" "demo_register \<noteq> Lifecycle x" for c x by (simp_all add: demo_register_def)
  have nr: "\<not> (\<exists>sig i. demo_register = Incoming (Inr (Some sig)) \<and> env_telemetry (se_envelope sig) = Some (LeaseRefreshRequest i))"
    by (simp add: demo_register_def unsigned_envelope_def telemetry_envelope_def)
  from authority_needs_approval [OF r st] np nl nr tr show ?thesis by (auto simp: r)
qed

end
