(* ===== verification/Credential_Catalog.thy ===== *)
theory Credential_Catalog
  imports Control_Messages Std_Maps
begin

section \<open>The agent's credentials and connectors\<close>

text \<open>
  \<^verbatim>\<open>crates/agent/src/catalog.rs\<close> (the credentials the controller pushed, kept in memory) and
  \<^verbatim>\<open>connector_factory.rs\<close> (which connector a credential gets), with the exchange and product types of
  \<^verbatim>\<open>crates/common/src/config.rs\<close> and the constructors of the venue connectors the factory calls.

  \<^item> Of a connector the fields that say what it talks to are kept: its kind, its addresses, its keys.
  \<^item> Parsing a decimal (\<^verbatim>\<open>rust_decimal\<close>) and a HyperLiquid private key are arguments.
\<close>

datatype exchange_type =
  ExCustom | ExBinance | ExBinanceTestnet | ExBybit | ExBybitTestnet | ExHyperLiquid | ExHyperLiquidTestnet

datatype product_type = ProdSpot | ProdLinearPerp | ProdInversePerp

record resolved_credential =
  rc_id :: string
  rc_exchange :: exchange_type
  rc_product :: product_type
  rc_api_key :: string
  rc_api_secret :: string
  rc_max_notional_quote :: "decimal option"
  rc_default_symbol :: "string option"

datatype resolve_error = UnknownId string | MissingEnv string string | EmptyEnv string string

datatype credential_error = BadExchange string | BadProduct string | BadDecimal string

definition ascii_lower :: "char \<Rightarrow> char" where
  "ascii_lower c = (if 65 \<le> (of_char c :: nat) \<and> (of_char c :: nat) \<le> 90 then char_of ((of_char c :: nat) + 32) else c)"

definition to_ascii_lowercase :: "string \<Rightarrow> string" where
  "to_ascii_lowercase s = map ascii_lower s"

definition parse_exchange :: "string \<Rightarrow> exchange_type option" where
  "parse_exchange raw =
     (let s = to_ascii_lowercase raw
      in if s = ''binance'' then Some ExBinance
         else if s = ''binance_testnet'' \<or> s = ''binance-testnet'' then Some ExBinanceTestnet
         else if s = ''bybit'' then Some ExBybit
         else if s = ''bybit_testnet'' \<or> s = ''bybit-testnet'' then Some ExBybitTestnet
         else if s = ''hyperliquid'' then Some ExHyperLiquid
         else if s = ''hyperliquid_testnet'' \<or> s = ''hyperliquid-testnet'' then Some ExHyperLiquidTestnet
         else if s = ''custom'' then Some ExCustom
         else None)"

definition parse_product :: "string \<Rightarrow> product_type option" where
  "parse_product raw =
     (let s = to_ascii_lowercase raw
      in if s = ''spot'' then Some ProdSpot
         else if s = ''linear_perp'' \<or> s = ''linear-perp'' \<or> s = ''linearperp'' then Some ProdLinearPerp
         else if s = ''inverse_perp'' \<or> s = ''inverse-perp'' \<or> s = ''inverseperp'' then Some ProdInversePerp
         else None)"

subsection \<open>The catalog\<close>

type_synonym catalog = "(string, resolved_credential) hash_map"

definition catalog_insert ::
  "(string \<Rightarrow> string + decimal) \<Rightarrow> pushed_credential \<Rightarrow> catalog \<Rightarrow> credential_error option \<times> catalog" where
  "catalog_insert parse_dec p cat =
     (case parse_exchange (pc_exchange p) of
        None \<Rightarrow> (Some (BadExchange (pc_exchange p)), cat)
      | Some ex \<Rightarrow>
          (case parse_product (pc_product p) of
             None \<Rightarrow> (Some (BadProduct (pc_product p)), cat)
           | Some pr \<Rightarrow>
               (case map_option parse_dec (pc_max_notional_quote p) of
                  Some (Inl e) \<Rightarrow> (Some (BadDecimal e), cat)
                | limit \<Rightarrow>
                    (None, hm_insert (pc_id p)
                       \<lparr>rc_id = pc_id p, rc_exchange = ex, rc_product = pr, rc_api_key = pc_api_key p,
                        rc_api_secret = pc_api_secret p,
                        rc_max_notional_quote = (case limit of Some (Inr d) \<Rightarrow> Some d | _ \<Rightarrow> None),
                        rc_default_symbol = pc_default_symbol p\<rparr> cat))))"

definition catalog_remove :: "string \<Rightarrow> catalog \<Rightarrow> catalog" where
  "catalog_remove i cat = hm_remove i cat"

definition resolve :: "catalog \<Rightarrow> string \<Rightarrow> resolve_error + resolved_credential" where
  "resolve cat i = (case hm_get cat i of None \<Rightarrow> Inl (UnknownId i) | Some r \<Rightarrow> Inr r)"

definition resolve_for :: "catalog \<Rightarrow> string \<Rightarrow> string list \<Rightarrow> resolve_error + resolved_credential" where
  "resolve_for cat i allowlist = (if i \<notin> set allowlist then Inl (UnknownId i) else resolve cat i)"

definition catalog_len :: "catalog \<Rightarrow> nat" where
  "catalog_len cat = length cat"

subsection \<open>Connectors\<close>

datatype connector_kind =
  BinanceSpotConn | BinanceFuturesConn | BybitConn product_type | HyperLiquidConn bool

record venue_connector =
  vk_kind :: connector_kind
  vk_base_url :: string
  vk_ws_url :: string
  vk_api_key :: string
  vk_api_secret :: string

definition conn :: "connector_kind \<Rightarrow> string \<Rightarrow> string \<Rightarrow> string \<Rightarrow> string \<Rightarrow> venue_connector" where
  "conn kind base ws key secret =
     \<lparr>vk_kind = kind, vk_base_url = base, vk_ws_url = ws, vk_api_key = key, vk_api_secret = secret\<rparr>"

text \<open>The constructors strip trailing slashes of an address; none of the addresses below has one.\<close>

definition binance_spot_testnet :: "string \<Rightarrow> string \<Rightarrow> venue_connector" where
  "binance_spot_testnet = conn BinanceSpotConn ''https://testnet.binance.vision'' ''wss://stream.testnet.binance.vision/ws''"

definition binance_futures :: "string \<Rightarrow> string \<Rightarrow> venue_connector" where
  "binance_futures = conn BinanceFuturesConn ''https://fapi.binance.com'' ''wss://fstream.binance.com/ws''"

definition binance_futures_testnet :: "string \<Rightarrow> string \<Rightarrow> venue_connector" where
  "binance_futures_testnet = conn BinanceFuturesConn ''https://testnet.binancefuture.com'' ''wss://stream.binancefuture.com/ws''"

fun public_ws_suffix :: "product_type \<Rightarrow> string" where
  "public_ws_suffix ProdLinearPerp = ''linear''"
| "public_ws_suffix ProdInversePerp = ''inverse''"
| "public_ws_suffix ProdSpot = ''spot''"

definition bybit_with_category :: "product_type \<Rightarrow> bool \<Rightarrow> string \<Rightarrow> string \<Rightarrow> venue_connector" where
  "bybit_with_category category testnet =
     (let (base, ws_host) =
        (if testnet then (''https://api-testnet.bybit.com'', ''wss://stream-testnet.bybit.com'')
         else (''https://api.bybit.com'', ''wss://stream.bybit.com''))
      in conn (BybitConn category) base (ws_host @ ''/v5/public/'' @ public_ws_suffix category))"

definition hyperliquid_with_urls ::
  "(string \<Rightarrow> string option) \<Rightarrow> string \<Rightarrow> string \<Rightarrow> string \<Rightarrow> bool \<Rightarrow> string + venue_connector" where
  "hyperliquid_with_urls key_error private_key base ws is_spot =
     (case key_error private_key of
        Some e \<Rightarrow> Inl e
      | None \<Rightarrow> Inr (conn (HyperLiquidConn is_spot) base ws [] private_key))"

definition hyperliquid_new :: "(string \<Rightarrow> string option) \<Rightarrow> string \<Rightarrow> string + venue_connector" where
  "hyperliquid_new key_error k = hyperliquid_with_urls key_error k ''https://api.hyperliquid.xyz'' ''wss://api.hyperliquid.xyz/ws'' False"

definition hyperliquid_testnet :: "(string \<Rightarrow> string option) \<Rightarrow> string \<Rightarrow> string + venue_connector" where
  "hyperliquid_testnet key_error k =
     hyperliquid_with_urls key_error k ''https://api.hyperliquid-testnet.xyz'' ''wss://api.hyperliquid-testnet.xyz/ws'' False"

definition build_connector :: "(string \<Rightarrow> string option) \<Rightarrow> resolved_credential \<Rightarrow> string + venue_connector" where
  "build_connector key_error r =
     (let key = rc_api_key r; secret = rc_api_secret r
      in if rc_exchange r = ExCustom then Inl ''custom exchange requires rest_url/ws_url''
         else if rc_exchange r = ExBinance \<or> rc_exchange r = ExBinanceTestnet then
           let testnet = (rc_exchange r = ExBinanceTestnet)
           in (case rc_product r of
                 ProdSpot \<Rightarrow>
                   Inr (if testnet then binance_spot_testnet key secret
                        else conn BinanceSpotConn ''https://api.binance.com'' ''wss://stream.binance.com:9443'' key secret)
               | ProdLinearPerp \<Rightarrow> Inr (binance_futures key secret)
               | ProdInversePerp \<Rightarrow> Inl ''Binance inverse (COIN-M) is not supported'')
         else if rc_exchange r = ExBybit \<or> rc_exchange r = ExBybitTestnet then
           Inr (bybit_with_category (rc_product r) (rc_exchange r = ExBybitTestnet) key secret)
         else if rc_exchange r = ExHyperLiquid then hyperliquid_new key_error secret
         else hyperliquid_testnet key_error secret)"

subsection \<open>What a credential asks for\<close>

definition asks_testnet :: "resolved_credential \<Rightarrow> bool" where
  "asks_testnet r \<longleftrightarrow> rc_exchange r \<in> {ExBinanceTestnet, ExBybitTestnet, ExHyperLiquidTestnet}"

definition testnet_addresses :: "string list" where
  "testnet_addresses = [''https://testnet.binance.vision'', ''https://testnet.binancefuture.com'',
     ''https://api-testnet.bybit.com'', ''https://api.hyperliquid-testnet.xyz'']"

definition on_testnet :: "venue_connector \<Rightarrow> bool" where
  "on_testnet k \<longleftrightarrow> vk_base_url k \<in> set testnet_addresses"

fun product_of :: "connector_kind \<Rightarrow> product_type" where
  "product_of BinanceSpotConn = ProdSpot"
| "product_of BinanceFuturesConn = ProdLinearPerp"
| "product_of (BybitConn p) = p"
| "product_of (HyperLiquidConn is_spot) = (if is_spot then ProdSpot else ProdLinearPerp)"

lemmas connector_defs = conn_def binance_spot_testnet_def binance_futures_def binance_futures_testnet_def
  bybit_with_category_def hyperliquid_with_urls_def hyperliquid_new_def hyperliquid_testnet_def

lemma resolve_for_Inr: "resolve_for cat i allow = Inr r \<longleftrightarrow> i \<in> set allow \<and> hm_get cat i = Some r"
  by (simp add: resolve_for_def resolve_def split: option.split)

lemma catalog_insert_ok: "hm_ok cat \<Longrightarrow> hm_ok (snd (catalog_insert parse_dec p cat))"
  by (simp add: catalog_insert_def hm_simps split: option.split sum.split)

lemma catalog_insert_get:
  assumes "catalog_insert parse_dec p cat = (None, cat')" and "hm_ok cat"
  shows "\<exists>r. hm_get cat' = (hm_get cat)(pc_id p \<mapsto> r) \<and> rc_id r = pc_id p \<and> rc_api_key r = pc_api_key p
    \<and> rc_api_secret r = pc_api_secret p \<and> parse_exchange (pc_exchange p) = Some (rc_exchange r)
    \<and> parse_product (pc_product p) = Some (rc_product r)"
  using assms by (auto simp: catalog_insert_def hm_simps split: option.splits sum.splits)

subsection \<open>Properties\<close>

text \<open>
  Where a connector trades. A connector that is built carries the credential's own keys; it is on
  the test network exactly when the credential asks for it, and trades the product the credential
  names, with two exceptions the code has: a Binance testnet credential for perpetuals is connected
  to the production venue, and a HyperLiquid credential always gets the perpetuals connector.
\<close>

theorem connector_follows_credential:
  assumes "build_connector key_error r = Inr k"
  shows "vk_api_secret k = rc_api_secret r
    \<and> (on_testnet k \<longleftrightarrow> asks_testnet r \<and> \<not> (rc_exchange r = ExBinanceTestnet \<and> rc_product r = ProdLinearPerp))
    \<and> (product_of (vk_kind k) = rc_product r
       \<longleftrightarrow> \<not> (rc_exchange r \<in> {ExHyperLiquid, ExHyperLiquidTestnet} \<and> rc_product r \<noteq> ProdLinearPerp))"
  using assms
  by (cases "rc_exchange r"; cases "rc_product r")
    (auto simp: build_connector_def connector_defs Let_def on_testnet_def asks_testnet_def testnet_addresses_def split: option.splits)

definition demo_testnet_perp :: resolved_credential where
  "demo_testnet_perp = \<lparr>rc_id = ''c'', rc_exchange = ExBinanceTestnet, rc_product = ProdLinearPerp, rc_api_key = ''k'',
     rc_api_secret = ''s'', rc_max_notional_quote = None, rc_default_symbol = None\<rparr>"

theorem connector_follows_credential_witness:
  "\<exists>k. build_connector (\<lambda>_. None) demo_testnet_perp = Inr k \<and> asks_testnet demo_testnet_perp \<and> \<not> on_testnet k"
proof -
  have "build_connector (\<lambda>_. None) demo_testnet_perp = Inr (binance_futures ''k'' ''s'')"
    by (simp add: build_connector_def demo_testnet_perp_def)
  from this connector_follows_credential [OF this] show ?thesis
    by (auto simp: demo_testnet_perp_def asks_testnet_def)
qed

end
