(* ===== verification/Strategy_Registry.thy ===== *)
theory Strategy_Registry
  imports Std_Maps Control_Messages "HOL-Library.Char_ord" "HOL-Library.List_Lexorder" "HOL-Library.Multiset"
begin

section \<open>The agent's strategy registry\<close>

text \<open>
  \<^verbatim>\<open>crates/agent/src/registry.rs\<close>: bringing the running engines of an agent into line with the
  deployments the controller wants, and changing the variables of a running one.

  \<^item> The engines live in a state \<open>'w\<close> the registry reaches through four functions, the record
    \<open>engine_host\<close>: the factory, the abort and the end of a task, and the sending half of an override
    channel. What the registry relies on is the locale \<open>engine_hosting\<close>; an engine may always end on
    its own. \<^verbatim>\<open>MockEngineFactory\<close> is an interpretation of it.
  \<^item> The signature of a descriptor (a hash of its JSON) and the decimals of the \<^verbatim>\<open>rust_decimal\<close> library
    are arguments. The iteration orders of the hash maps are arguments.
  \<^item> The telemetry rows (\<^verbatim>\<open>snapshot_rows\<close>), which read process-wide metrics, are not modelled.
\<close>

subsection \<open>Overrides\<close>

record sentiment_tick =
  st_asset :: string
  st_ts :: timestamp
  st_mentions_5min :: u64
  st_mentions_1h :: u64
  st_mentions_rate :: decimal
  st_mentions_acceleration :: decimal
  st_sentiment_score_5min :: decimal
  st_sentiment_score_prev :: decimal
  st_sentiment_delta :: decimal

datatype config_override =
    Gamma decimal
  | MinSpreadBps decimal
  | OrderSize decimal
  | MaxDistanceBps decimal
  | NumLevels u64
  | MomentumEnabled bool
  | MarketResilienceEnabled bool
  | AmendEnabled bool
  | AmendMaxTicks u32
  | OtrEnabled bool
  | MaxInventory decimal
  | PauseQuoting
  | ResumeQuoting
  | PortfolioRiskMult decimal
  | PortfolioVarMult decimal
  | RegisterEmulatedOrder string
  | CancelEmulatedOrder u64
  | StartDcaReduction string
  | CancelDcaReduction
  | ManualKillSwitch u8 string
  | ManualKillSwitchReset string
  | News string
  | SentimentTick sentiment_tick
  | StrategyGraphSwap string
  | ExternalVenueQuotes string
  | ExternalAtomicBundle string

definition multi_key_consumed_names :: "string list" where
  "multi_key_consumed_names = [''kill_level'', ''kill_reason'', ''kill_reset_reason'']"

definition str_or :: "string \<Rightarrow> json option \<Rightarrow> string" where
  "str_or d v = (case Option.bind v as_str of None \<Rightarrow> d | Some s \<Rightarrow> s)"

definition compose_multi_key_override :: "json_map \<Rightarrow> config_override option" where
  "compose_multi_key_override patch =
     (case bt_get patch ''kill_level'' of
        Some level_v \<Rightarrow>
          (case json_as_u64 level_v of
             None \<Rightarrow> None
           | Some n \<Rightarrow> Some (ManualKillSwitch (ucast n) (str_or ''dashboard operator'' (bt_get patch ''kill_reason''))))
      | None \<Rightarrow>
          (case bt_get patch ''kill_reset_reason'' of
             Some reset_v \<Rightarrow> Some (ManualKillSwitchReset (str_or ''dashboard operator'' (Some reset_v)))
           | None \<Rightarrow> None))"

text \<open>Every JSON number has an \<^verbatim>\<open>f64\<close> reading, so the integer fallback of the code is never reached.\<close>

definition as_decimal :: "(string \<Rightarrow> decimal option) \<Rightarrow> (json_number \<Rightarrow> decimal option) \<Rightarrow> json \<Rightarrow> decimal option" where
  "as_decimal parse_dec f64_dec v =
     (case v of JString s \<Rightarrow> parse_dec s | JNumber n \<Rightarrow> f64_dec n | _ \<Rightarrow> None)"

definition translate_variable_override ::
  "(string \<Rightarrow> decimal option) \<Rightarrow> (json_number \<Rightarrow> decimal option) \<Rightarrow> string \<Rightarrow> json \<Rightarrow> config_override option" where
  "translate_variable_override parse_dec f64_dec key value =
     (let dec = as_decimal parse_dec f64_dec value; flag = json_as_bool value; num = json_as_u64 value; str = as_str value
      in if key = ''gamma'' then map_option Gamma dec
      else if key = ''min_spread_bps'' \<or> key = ''spread_bps'' then map_option MinSpreadBps dec
      else if key = ''order_size'' then map_option OrderSize dec
      else if key = ''max_distance_bps'' then map_option MaxDistanceBps dec
      else if key = ''num_levels'' then map_option NumLevels num
      else if key = ''momentum_enabled'' then map_option MomentumEnabled flag
      else if key = ''market_resilience_enabled'' then map_option MarketResilienceEnabled flag
      else if key = ''amend_enabled'' then map_option AmendEnabled flag
      else if key = ''amend_max_ticks'' then map_option (\<lambda>n. AmendMaxTicks (ucast n)) num
      else if key = ''otr_enabled'' then map_option OtrEnabled flag
      else if key = ''max_inventory'' then map_option MaxInventory dec
      else if key = ''paused'' then map_option (\<lambda>b. if b then PauseQuoting else ResumeQuoting) flag
      else if key = ''emulator_spec'' then map_option RegisterEmulatedOrder str
      else if key = ''emulator_cancel_id'' then map_option CancelEmulatedOrder num
      else if key = ''dca_spec'' then map_option StartDcaReduction str
      else if key = ''dca_cancel'' then (if flag = Some True then Some CancelDcaReduction else None)
      else if key = ''strategy_graph'' then map_option StrategyGraphSwap str
      else if key = ''news'' then map_option News str
      else None)"

definition ends_with :: "string \<Rightarrow> string \<Rightarrow> bool" where
  "ends_with s suf \<longleftrightarrow> length suf \<le> length s \<and> drop (length s - length suf) s = suf"

definition feature_flags_from_variables :: "json_map \<Rightarrow> (string, bool) btree_map" where
  "feature_flags_from_variables vars =
     fold (\<lambda>(k, v) out.
       if \<not> (ends_with k ''_enabled'' \<or> ends_with k ''_on'' \<or> k = ''momentum_ofi'' \<or> k = ''bvc_classifier'' \<or> k = ''sor_inline'')
       then out
       else case json_as_bool v of Some b \<Rightarrow> bt_insert k b out | None \<Rightarrow> out) vars []"

definition regime_label :: "int \<Rightarrow> string" where
  "regime_label code =
     (if code = 0 then ''Quiet'' else if code = 1 then ''Trending'' else if code = 2 then ''Volatile''
      else if code = 3 then ''MeanReverting'' else [])"

subsection \<open>Engines\<close>

record spawned_engine =
  sp_handle :: nat
  sp_label :: string
  sp_override_tx :: "nat option"

record 'w engine_host =
  eh_spawn :: "desired_strategy \<Rightarrow> 'w \<Rightarrow> spawned_engine \<times> 'w"
  eh_abort :: "nat \<Rightarrow> 'w \<Rightarrow> 'w"
  eh_send :: "nat \<Rightarrow> config_override \<Rightarrow> 'w \<Rightarrow> bool \<times> 'w"
  eh_finished :: "nat \<Rightarrow> 'w \<Rightarrow> bool"

record running =
  ru_signature :: u64
  ru_handle :: nat
  ru_label :: string
  ru_symbol :: string
  ru_template :: string
  ru_variables :: json_map
  ru_credentials :: "string list"
  ru_override_tx :: "nat option"

record strategy_registry =
  sr_running :: "(string, running) hash_map"

definition registry_new :: strategy_registry where
  "registry_new = \<lparr>sr_running = []\<rparr>"

definition running_count :: "strategy_registry \<Rightarrow> nat" where
  "running_count reg = length (sr_running reg)"

definition deployment_symbol :: "strategy_registry \<Rightarrow> string \<Rightarrow> string option" where
  "deployment_symbol reg i = map_option ru_symbol (hm_get (sr_running reg) i)"

subsection \<open>Reconciling\<close>

definition desired_by_id :: "(desired_strategy \<Rightarrow> u64) \<Rightarrow> desired_strategy list \<Rightarrow> (string, desired_strategy \<times> u64) hash_map" where
  "desired_by_id sig desired = fold (\<lambda>d. hm_insert (ds_deployment_id d) (d, sig d)) desired []"

definition keeps :: "(string, desired_strategy \<times> u64) hash_map \<Rightarrow> string \<times> running \<Rightarrow> bool" where
  "keeps want = (\<lambda>(i, r). case hm_get want i of None \<Rightarrow> False | Some (_, s) \<Rightarrow> s = ru_signature r)"

definition stale_ids :: "(string, desired_strategy \<times> u64) hash_map \<Rightarrow> (string \<times> running) list \<Rightarrow> string list" where
  "stale_ids want entries = map fst (filter (\<lambda>e. \<not> keeps want e) entries)"

fun stop_loop :: "'w engine_host \<Rightarrow> string list \<Rightarrow> (string, running) hash_map \<Rightarrow> 'w \<Rightarrow> (string, running) hash_map \<times> 'w" where
  "stop_loop host [] run w = (run, w)"
| "stop_loop host (i # ids) run w =
     (case hm_get run i of
        None \<Rightarrow> stop_loop host ids run w
      | Some r \<Rightarrow> stop_loop host ids (hm_remove i run) (eh_abort host (ru_handle r) w))"

text \<open>Sending a sequence of overrides, up to the first the channel refuses.\<close>

fun send_overrides :: "'w engine_host \<Rightarrow> nat \<Rightarrow> config_override list \<Rightarrow> 'w \<Rightarrow> 'w" where
  "send_overrides host tx [] w = w"
| "send_overrides host tx (ovr # ovrs) w =
     (case eh_send host tx ovr w of (ok, w') \<Rightarrow> if ok then send_overrides host tx ovrs w' else w')"

type_synonym translator = "string \<Rightarrow> json \<Rightarrow> config_override option"

definition start_one ::
  "'w engine_host \<Rightarrow> translator \<Rightarrow> string \<times> desired_strategy \<times> u64 \<Rightarrow> (string, running) hash_map \<times> 'w
    \<Rightarrow> (string, running) hash_map \<times> 'w" where
  "start_one host tr = (\<lambda>(i, d, s) (run, w).
     if hm_contains run i then (run, w)
     else case eh_spawn host d w of
       (e, w1) \<Rightarrow>
         let w2 = (case sp_override_tx e of
                     None \<Rightarrow> w1
                   | Some tx \<Rightarrow> send_overrides host tx (List.map_filter (\<lambda>(k, v). tr k v) (ds_variables d)) w1)
         in (hm_insert i \<lparr>ru_signature = s, ru_handle = sp_handle e, ru_label = sp_label e, ru_symbol = ds_symbol d,
               ru_template = ds_template d, ru_variables = ds_variables d, ru_credentials = ds_credentials d,
               ru_override_tx = sp_override_tx e\<rparr> run, w2))"

definition reconcile ::
  "'w engine_host \<Rightarrow> translator \<Rightarrow> (desired_strategy \<Rightarrow> u64)
    \<Rightarrow> ((string \<times> running) list \<Rightarrow> (string \<times> running) list)
    \<Rightarrow> ((string \<times> desired_strategy \<times> u64) list \<Rightarrow> (string \<times> desired_strategy \<times> u64) list)
    \<Rightarrow> desired_strategy list \<Rightarrow> strategy_registry \<Rightarrow> 'w \<Rightarrow> strategy_registry \<times> 'w" where
  "reconcile host tr sig ord_run ord_want desired reg w =
     (let want = desired_by_id sig desired;
          (run1, w1) = stop_loop host (stale_ids want (ord_run (sr_running reg))) (sr_running reg) w;
          (run2, w2) = fold (start_one host tr) (ord_want want) (run1, w1)
      in (reg\<lparr>sr_running := run2\<rparr>, w2))"

subsection \<open>Patching and aborting\<close>

definition patch_overrides :: "translator \<Rightarrow> json_map \<Rightarrow> config_override list" where
  "patch_overrides tr patch =
     (case compose_multi_key_override patch of None \<Rightarrow> [] | Some ovr \<Rightarrow> [ovr])
     @ List.map_filter (\<lambda>(k, v). tr k v) (filter (\<lambda>(k, _). k \<notin> set multi_key_consumed_names) patch)"

definition patch_variables ::
  "'w engine_host \<Rightarrow> translator \<Rightarrow> string \<Rightarrow> json_map \<Rightarrow> strategy_registry \<Rightarrow> 'w \<Rightarrow> bool \<times> strategy_registry \<times> 'w" where
  "patch_variables host tr i patch reg w =
     (case hm_get (sr_running reg) i of
        None \<Rightarrow> (False, reg, w)
      | Some r \<Rightarrow>
          let r' = r\<lparr>ru_variables := fold (\<lambda>(k, v). bt_insert k v) patch (ru_variables r)\<rparr>;
              reg' = reg\<lparr>sr_running := hm_insert i r' (sr_running reg)\<rparr>
          in (case ru_override_tx r of
                None \<Rightarrow> (True, reg', w)
              | Some tx \<Rightarrow> (True, reg', send_overrides host tx (patch_overrides tr patch) w)))"

definition abort_all :: "'w engine_host \<Rightarrow> strategy_registry \<Rightarrow> 'w \<Rightarrow> strategy_registry \<times> 'w" where
  "abort_all host reg w =
     (reg\<lparr>sr_running := []\<rparr>, fold (\<lambda>(_, r). eh_abort host (ru_handle r)) (sr_running reg) w)"

subsection \<open>What the registry relies on\<close>

text \<open>
  A new engine has a handle never given out before, and no call brings another engine to life. An abort
  is a request: the engine is told to stop, and ends when it next waits for something; it may be alive
  when the call returns. An engine may end at any moment.
\<close>

locale engine_hosting =
  fixes host :: "'w engine_host"
    and alive :: "'w \<Rightarrow> nat set"
    and stopping :: "'w \<Rightarrow> nat set"
    and issued :: "'w \<Rightarrow> nat set"
  assumes spawn_fresh: "eh_spawn host d w = (e, w') \<Longrightarrow> sp_handle e \<notin> issued w"
    and spawn_issued: "eh_spawn host d w = (e, w') \<Longrightarrow> issued w' = insert (sp_handle e) (issued w)"
    and spawn_alive: "eh_spawn host d w = (e, w') \<Longrightarrow> alive w' \<subseteq> insert (sp_handle e) (alive w)"
    and spawn_stopping: "eh_spawn host d w = (e, w') \<Longrightarrow> stopping w' = stopping w"
    and abort_alive: "alive (eh_abort host h w) \<subseteq> alive w"
    and abort_stopping: "stopping (eh_abort host h w) = insert h (stopping w)"
    and abort_issued: "issued (eh_abort host h w) = issued w"
    and send_alive: "eh_send host tx ovr w = (ok, w') \<Longrightarrow> alive w' \<subseteq> alive w"
    and send_stopping: "eh_send host tx ovr w = (ok, w') \<Longrightarrow> stopping w' = stopping w"
    and send_issued: "eh_send host tx ovr w = (ok, w') \<Longrightarrow> issued w' = issued w"
    and finished_dead: "eh_finished host h w \<longleftrightarrow> h \<notin> alive w"

text \<open>
  The registry accounts for the engines: its handles were given out and none of them was told to stop,
  no two deployments share one, and every engine that is alive belongs to a deployment or was told to stop.
\<close>

definition accounts ::
  "('w \<Rightarrow> nat set) \<Rightarrow> ('w \<Rightarrow> nat set) \<Rightarrow> ('w \<Rightarrow> nat set) \<Rightarrow> (string, running) hash_map \<Rightarrow> 'w \<Rightarrow> bool" where
  "accounts alive stopping issued run w \<longleftrightarrow> hm_ok run \<and> stopping w \<subseteq> issued w
     \<and> (\<forall>i r. hm_get run i = Some r \<longrightarrow> ru_handle r \<in> issued w - stopping w)
     \<and> (\<forall>i j r s. hm_get run i = Some r \<longrightarrow> hm_get run j = Some s \<longrightarrow> ru_handle r = ru_handle s \<longrightarrow> i = j)
     \<and> (\<forall>h \<in> alive w - stopping w. \<exists>i r. hm_get run i = Some r \<and> ru_handle r = h)"

definition describes :: "desired_strategy \<Rightarrow> u64 \<Rightarrow> running \<Rightarrow> bool" where
  "describes d s r \<longleftrightarrow> ru_signature r = s \<and> ru_symbol r = ds_symbol d \<and> ru_template r = ds_template d
     \<and> ru_variables r = ds_variables d \<and> ru_credentials r = ds_credentials d"

lemma accounts_ok: "accounts alive stopping issued run w \<Longrightarrow> hm_ok run"
  by (simp add: accounts_def)

context engine_hosting
begin

lemma send_overrides_keeps:
  "alive (send_overrides host tx ovrs w) \<subseteq> alive w \<and> stopping (send_overrides host tx ovrs w) = stopping w
    \<and> issued (send_overrides host tx ovrs w) = issued w"
proof (induction ovrs arbitrary: w)
  case (Cons ovr ovrs)
  obtain ok w1 where s: "eh_send host tx ovr w = (ok, w1)" by (rule prod.exhaust)
  show ?case using Cons.IH [of w1] send_alive [OF s] send_stopping [OF s] send_issued [OF s] s by auto
qed simp

lemma accounts_alive_less:
  "accounts alive stopping issued run w \<Longrightarrow> alive w' \<subseteq> alive w \<Longrightarrow> stopping w' = stopping w \<Longrightarrow> issued w' = issued w
    \<Longrightarrow> accounts alive stopping issued run w'"
  unfolding accounts_def by blast

lemma stop_one:
  assumes "accounts alive stopping issued run w" and "hm_get run i = Some r"
  shows "accounts alive stopping issued (hm_remove i run) (eh_abort host (ru_handle r) w)"
proof -
  have ok: "hm_ok run" using assms(1) by (simp add: accounts_def)
  have "\<exists>j s. hm_get (hm_remove i run) j = Some s \<and> ru_handle s = h"
    if h: "h \<in> alive (eh_abort host (ru_handle r) w) - stopping (eh_abort host (ru_handle r) w)" for h
  proof -
    have "h \<in> alive w - stopping w" "h \<noteq> ru_handle r" using h abort_alive abort_stopping by blast+
    then obtain j s where j: "hm_get run j = Some s" "ru_handle s = h" "h \<noteq> ru_handle r"
      using assms(1) unfolding accounts_def by blast
    then have "j \<noteq> i" using assms(2) by auto
    then show ?thesis using j(1,2) ok by (intro exI [of _ j] exI [of _ s]) (simp add: hm_simps)
  qed
  moreover have "ru_handle s \<noteq> ru_handle r" if "hm_get run j = Some s" "j \<noteq> i" for j s
    using that assms unfolding accounts_def by blast
  moreover have "ru_handle r \<in> issued w" using assms unfolding accounts_def by blast
  ultimately show ?thesis using assms ok unfolding accounts_def
    by (auto simp: hm_simps abort_issued abort_stopping split: if_splits)
qed

lemma stop_loop_spec:
  assumes "accounts alive stopping issued run w" and "stop_loop host ids run w = (run', w')"
  shows "accounts alive stopping issued run' w' \<and> issued w' = issued w
    \<and> stopping w \<subseteq> stopping w' \<and> (\<forall>j r. j \<in> set ids \<longrightarrow> hm_get run j = Some r \<longrightarrow> ru_handle r \<in> stopping w')
    \<and> (\<forall>j. hm_get run' j = (if j \<in> set ids then None else hm_get run j))"
  using assms
proof (induction ids arbitrary: run w)
  case (Cons i ids)
  show ?case
  proof (cases "hm_get run i")
    case None
    then show ?thesis using Cons.IH [OF Cons.prems(1)] Cons.prems(2) by auto
  next
    case (Some r)
    have ok: "hm_ok run" using Cons.prems(1) by (simp add: accounts_def)
    have "stop_loop host ids (hm_remove i run) (eh_abort host (ru_handle r) w) = (run', w')" using Cons.prems(2) Some by simp
    note ih = Cons.IH [OF stop_one [OF Cons.prems(1) Some] this]
    have "ru_handle q \<in> stopping w'" if "j \<in> set (i # ids)" "hm_get run j = Some q" for j q
      using ih that ok Some by (cases "j = i") (auto simp: hm_simps abort_stopping)
    then show ?thesis using ih ok by (auto simp: hm_simps abort_issued abort_stopping)
  qed
qed simp

lemma start_fresh:
  assumes "accounts alive stopping issued run w" and "hm_get run i = None"
    and "start_one host tr (i, d, s) (run, w) = (run', w')"
  shows "accounts alive stopping issued run' w' \<and> issued w \<subseteq> issued w' \<and> stopping w' = stopping w
    \<and> (\<exists>r. hm_get run' = (hm_get run)(i \<mapsto> r) \<and> describes d s r \<and> ru_handle r \<notin> issued w)"
proof -
  obtain e w1 where sp: "eh_spawn host d w = (e, w1)" by (rule prod.exhaust)
  define r where "r = \<lparr>ru_signature = s, ru_handle = sp_handle e, ru_label = sp_label e, ru_symbol = ds_symbol d,
    ru_template = ds_template d, ru_variables = ds_variables d, ru_credentials = ds_credentials d,
    ru_override_tx = sp_override_tx e\<rparr>"
  have run': "run' = hm_insert i r run"
    and w': "w' = (case sp_override_tx e of None \<Rightarrow> w1
      | Some tx \<Rightarrow> send_overrides host tx (List.map_filter (\<lambda>(k, v). tr k v) (ds_variables d)) w1)"
    using assms(2,3) sp by (simp_all add: start_one_def hm_contains_def r_def Let_def)
  have w1: "alive w' \<subseteq> alive w1" "stopping w' = stopping w1" "issued w' = issued w1"
    using send_overrides_keeps by (simp_all add: w' split: option.split)
  have h: "alive w' \<subseteq> insert (ru_handle r) (alive w)" "issued w' = insert (ru_handle r) (issued w)" "ru_handle r \<notin> issued w"
    "stopping w' = stopping w"
    using w1 spawn_alive [OF sp] spawn_issued [OF sp] spawn_fresh [OF sp] spawn_stopping [OF sp] by (auto simp: r_def)
  have ok: "hm_ok run" using assms(1) by (simp add: accounts_def)
  have get: "hm_get run' = (hm_get run)(i \<mapsto> r)" using ok by (simp add: run' hm_simps)
  have a1: "\<exists>j q. hm_get run' j = Some q \<and> ru_handle q = x" if x: "x \<in> alive w' - stopping w'" for x
  proof (cases "x = ru_handle r")
    case False
    then obtain j q where j: "hm_get run j = Some q" "ru_handle q = x"
      using x h(1,4) assms(1) unfolding accounts_def by blast
    then have "j \<noteq> i" using assms(2) by auto
    then show ?thesis using j get by (intro exI [of _ j] exI [of _ q]) simp
  qed (use get in \<open>auto intro: exI [of _ i]\<close>)
  have a2: "hm_ok run'" using ok by (simp add: run' hm_simps)
  have sub: "stopping w \<subseteq> issued w" using assms(1) by (simp add: accounts_def)
  then have a3: "ru_handle q \<in> issued w' - stopping w'" if "hm_get run' j = Some q" for j q
    using that get h(2,3,4) assms(1) unfolding accounts_def by (auto split: if_splits)
  have a5: "stopping w' \<subseteq> issued w'" using sub h(2,4) by blast
  have a4: "j = k" if p: "hm_get run' j = Some p" and q: "hm_get run' k = Some q" and pq: "ru_handle p = ru_handle q" for j k p q
  proof -
    have old: "ru_handle z \<noteq> ru_handle r" if "hm_get run l = Some z" for l z
      using that h(3) assms(1) unfolding accounts_def by (metis DiffD1)
    have same: "hm_get run j = Some p \<Longrightarrow> hm_get run k = Some q \<Longrightarrow> j = k"
      using pq assms(1) unfolding accounts_def by blast
    show ?thesis
    proof (cases "j = i \<or> k = i")
      case True
      then show ?thesis using p q pq get old [of j p] old [of k q] by (auto split: if_splits)
    next
      case False
      then show ?thesis using p q get same by simp
    qed
  qed
  have "accounts alive stopping issued run' w'"
    unfolding accounts_def using a1 a2 a3 a4 a5 by (intro conjI ballI allI impI)
  moreover have "describes d s r" by (simp add: describes_def r_def)
  ultimately show ?thesis using get h(2,3,4) by (intro conjI exI [of _ r]) auto
qed

lemma start_loop_spec:
  assumes "accounts alive stopping issued run w" and "fold (start_one host tr) entries (run, w) = (run', w')"
    and "distinct (map fst entries)"
  shows "accounts alive stopping issued run' w' \<and> issued w \<subseteq> issued w' \<and> stopping w' = stopping w
    \<and> (\<forall>j r. hm_get run j = Some r \<longrightarrow> hm_get run' j = Some r)
    \<and> (\<forall>j. hm_get run j = None \<longrightarrow>
        (case map_of entries j of
           None \<Rightarrow> hm_get run' j = None
         | Some (d, s) \<Rightarrow> \<exists>r. hm_get run' j = Some r \<and> describes d s r \<and> ru_handle r \<notin> issued w))"
  using assms
proof (induction entries arbitrary: run w)
  case (Cons e entries)
  obtain i d s where e: "e = (i, d, s)" by (rule prod_cases3)
  obtain run1 w1 where s1: "start_one host tr e (run, w) = (run1, w1)" by (rule prod.exhaust)
  have f: "fold (start_one host tr) entries (run1, w1) = (run', w')" using Cons.prems(2) s1 by simp
  have ni: "i \<notin> fst ` set entries" using Cons.prems(3) e by simp
  show ?case
  proof (cases "hm_get run i")
    case None
    from start_fresh [OF Cons.prems(1) None s1 [unfolded e]] obtain r where
      r: "accounts alive stopping issued run1 w1" "issued w \<subseteq> issued w1" "hm_get run1 = (hm_get run)(i \<mapsto> r)"
      "describes d s r" "ru_handle r \<notin> issued w" "stopping w1 = stopping w" by blast
    have ih: "accounts alive stopping issued run' w'" "issued w1 \<subseteq> issued w' \<and> stopping w' = stopping w1"
      "\<And>j r. hm_get run1 j = Some r \<Longrightarrow> hm_get run' j = Some r"
      "\<And>j. hm_get run1 j = None \<Longrightarrow> (case map_of entries j of None \<Rightarrow> hm_get run' j = None
         | Some (d, s) \<Rightarrow> \<exists>r. hm_get run' j = Some r \<and> describes d s r \<and> ru_handle r \<notin> issued w1)"
      using Cons.IH [OF r(1) f] Cons.prems(3) by auto
    have "case map_of (e # entries) j of None \<Rightarrow> hm_get run' j = None
        | Some (d, s) \<Rightarrow> \<exists>r. hm_get run' j = Some r \<and> describes d s r \<and> ru_handle r \<notin> issued w"
      if j: "hm_get run j = None" for j
    proof (cases "j = i")
      case True
      then show ?thesis using ih(3) [of i r] r e by auto
    next
      case False
      then show ?thesis using ih(4) [of j] j r(2,3) e by (auto split: option.splits) 
    qed
    moreover have "hm_get run' j = Some q" if "hm_get run j = Some q" for j q
      using ih(3) [of j q] that r(3) None by (cases "j = i") auto
    ultimately show ?thesis using ih(1,2) r(2,6) by auto
  next
    case (Some r)
    then have "run1 = run" "w1 = w" using s1 e by (auto simp: start_one_def hm_contains_def)
    then have "fold (start_one host tr) entries (run, w) = (run', w')" using f by simp
    from Cons.IH [OF Cons.prems(1) this] Cons.prems(3) Some e show ?thesis by auto
  qed
qed simp

end

subsection \<open>Reconciling converges\<close>

text \<open>The descriptor a deployment id stands for: the last one listed.\<close>

definition wanted :: "desired_strategy list \<Rightarrow> string \<Rightarrow> desired_strategy option" where
  "wanted desired i = find (\<lambda>d. ds_deployment_id d = i) (rev desired)"

lemma desired_by_id_get:
  "hm_get (desired_by_id sig desired) i = map_option (\<lambda>d. (d, sig d)) (wanted desired i)"
  by (simp add: desired_by_id_def wanted_def hm.get_inserts [where val = "\<lambda>d. (d, sig d)"] split: option.split)

lemma desired_by_id_ok: "hm_ok (desired_by_id sig desired)"
  by (simp add: desired_by_id_def hm.invar_inserts [where val = "\<lambda>d. (d, sig d)"])

text \<open>Time only passes for the engines: handles stay given out, and the dead stay dead.\<close>

definition ages :: "('w \<Rightarrow> nat set) \<Rightarrow> ('w \<Rightarrow> nat set) \<Rightarrow> 'w \<Rightarrow> 'w \<Rightarrow> bool" where
  "ages alive issued w w' \<longleftrightarrow> issued w \<subseteq> issued w' \<and> alive w' \<inter> issued w \<subseteq> alive w"

lemma ages_refl: "ages alive issued w w" by (simp add: ages_def)

lemma ages_trans: "ages alive issued w w' \<Longrightarrow> ages alive issued w' w'' \<Longrightarrow> ages alive issued w w''"
  unfolding ages_def by blast

context engine_hosting
begin

lemma spawn_ages: "eh_spawn host d w = (e, w') \<Longrightarrow> ages alive issued w w'"
  using spawn_fresh spawn_issued spawn_alive unfolding ages_def by blast

lemma abort_ages: "ages alive issued w (eh_abort host h w)"
  using abort_alive abort_issued unfolding ages_def by blast

lemma send_ages: "ages alive issued w (send_overrides host tx ovrs w)"
  using send_overrides_keeps unfolding ages_def by blast

lemma stop_loop_ages: "ages alive issued w (snd (stop_loop host ids run w))"
  by (induction ids arbitrary: run w) (auto simp: ages_refl split: option.split intro: ages_trans [OF abort_ages])

lemma start_one_ages: "ages alive issued w (snd (start_one host tr e (run, w)))"
proof -
  obtain i d s where e: "e = (i, d, s)" by (rule prod_cases3)
  obtain p w1 where sp: "eh_spawn host d w = (p, w1)" by (rule prod.exhaust)
  show ?thesis using spawn_ages [OF sp] ages_trans [OF spawn_ages [OF sp] send_ages]
    by (auto simp: start_one_def e sp ages_refl Let_def split: option.split)
qed

lemma start_loop_ages: "ages alive issued w (snd (fold (start_one host tr) es (run, w)))"
proof (induction es arbitrary: run w)
  case (Cons e es)
  obtain run1 w1 where s: "start_one host tr e (run, w) = (run1, w1)" by (rule prod.exhaust)
  show ?case using ages_trans [OF start_one_ages [of w tr e run, unfolded s snd_conv] Cons.IH [of w1 run1]] s by simp
qed (simp add: ages_refl)

lemma reconcile_ages:
  assumes "reconcile host tr sig ord_run ord_want desired reg w = (reg', w')"
  shows "ages alive issued w w'"
proof -
  obtain run1 w1 where a: "stop_loop host (stale_ids (desired_by_id sig desired) (ord_run (sr_running reg))) (sr_running reg) w
    = (run1, w1)" by (rule prod.exhaust)
  obtain run2 w2 where b: "fold (start_one host tr) (ord_want (desired_by_id sig desired)) (run1, w1) = (run2, w2)"
    by (rule prod.exhaust)
  have "w' = w2" using assms a b by (simp add: reconcile_def Let_def)
  then show ?thesis
    by (metis a b snd_conv stop_loop_ages start_loop_ages ages_trans)
qed

lemma reconcile_spec:
  assumes "accounts alive stopping issued (sr_running reg) w"
    and "mset (ord_run (sr_running reg)) = mset (sr_running reg)" and "\<And>xs. mset (ord_want xs) = mset xs"
    and "reconcile host tr sig ord_run ord_want desired reg w = (reg', w')"
  shows "accounts alive stopping issued (sr_running reg') w'
    \<and> (\<forall>i. case wanted desired i of
             None \<Rightarrow> hm_get (sr_running reg') i = None
           | Some d \<Rightarrow> \<exists>r. hm_get (sr_running reg') i = Some r \<and> ru_signature r = sig d
               \<and> (if \<exists>q. hm_get (sr_running reg) i = Some q \<and> ru_signature q = sig d
                  then hm_get (sr_running reg) i = Some r
                  else describes d (sig d) r \<and> ru_handle r \<notin> issued w))
    \<and> stopping w \<subseteq> stopping w'
    \<and> (\<forall>i q. hm_get (sr_running reg) i = Some q \<and> hm_get (sr_running reg') i \<noteq> Some q \<longrightarrow> ru_handle q \<in> stopping w')"
proof -
  let ?run = "sr_running reg" and ?want = "desired_by_id sig desired"
  let ?ids = "stale_ids ?want (ord_run ?run)"
  obtain run1 w1 where a: "stop_loop host ?ids ?run w = (run1, w1)" by (rule prod.exhaust)
  obtain run2 w2 where b: "fold (start_one host tr) (ord_want ?want) (run1, w1) = (run2, w2)" by (rule prod.exhaust)
  have r': "sr_running reg' = run2" "w' = w2" using assms(4) a b by (auto simp: reconcile_def Let_def)
  note s1 = stop_loop_spec [OF assms(1) a]
  have ok: "hm_ok ?run" using assms(1) by (simp add: accounts_def)
  have dist: "distinct (map fst (ord_want ?want))"
    using assms(3) desired_by_id_ok unfolding hm_ok_def
    by (metis mset_map mset_eq_imp_distinct_iff)
  have same: "map_of (ord_want ?want) = hm_get ?want"
    using assms(3) [of ?want] dist desired_by_id_ok unfolding hm_get_def hm_ok_def
    by (metis map_of_inject_set mset_eq_setD)
  have stale: "i \<in> set ?ids \<longleftrightarrow> (\<exists>q. hm_get ?run i = Some q \<and> map_option sig (wanted desired i) \<noteq> Some (ru_signature q))" for i
  proof -
    have "i \<in> set ?ids \<longleftrightarrow> (\<exists>q. (i, q) \<in> set ?run \<and> \<not> keeps ?want (i, q))"
      using mset_eq_setD [OF assms(2)] by (force simp: stale_ids_def)
    then show ?thesis using hm.entries_iff [OF ok]
      by (auto simp: keeps_def desired_by_id_get split: option.splits)
  qed
  note s2 = start_loop_spec [OF s1 [THEN conjunct1] b dist, unfolded same desired_by_id_get]
  have run1: "hm_get run1 i = (if i \<in> set ?ids then None else hm_get ?run i)" for i using s1 by blast
  have "case wanted desired i of
           None \<Rightarrow> hm_get run2 i = None
         | Some d \<Rightarrow> \<exists>r. hm_get run2 i = Some r \<and> ru_signature r = sig d
             \<and> (if \<exists>q. hm_get ?run i = Some q \<and> ru_signature q = sig d
                then hm_get ?run i = Some r else describes d (sig d) r \<and> ru_handle r \<notin> issued w)" for i
  proof (cases "hm_get run1 i")
    case None
    then show ?thesis using s2 stale [of i] run1 [of i] s1
      by (cases "wanted desired i") (auto simp: describes_def split: if_splits dest!: spec [of _ i])
  next
    case (Some q)
    then have "hm_get run2 i = Some q" using s2 by blast
    then show ?thesis using stale [of i] run1 [of i] Some by (auto split: option.split if_splits)
  qed
  moreover have "ru_handle q \<in> stopping w2" if "hm_get ?run i = Some q" "hm_get run2 i \<noteq> Some q" for i q
  proof (cases "i \<in> set ?ids")
    case True
    then show ?thesis using s1 s2 that(1) by auto
  next
    case False
    then show ?thesis using s2 that run1 [of i] by auto
  qed
  ultimately show ?thesis unfolding r' using s1 s2 by (intro conjI allI) blast+
qed

end

subsection \<open>The mock factory\<close>

text \<open>\<^verbatim>\<open>MockEngineFactory\<close>: the tasks are numbered; an engine has no override channel.\<close>

record mock_engines =
  me_next :: nat
  me_alive :: "nat list"
  me_stopping :: "nat list"
  me_probe :: u64

definition mock_host :: "mock_engines engine_host" where
  "mock_host =
     \<lparr>eh_spawn = (\<lambda>d w. (\<lparr>sp_handle = me_next w,
          sp_label = ds_template d @ ''/'' @ ds_symbol d @ ''@'' @ ds_deployment_id d, sp_override_tx = None\<rparr>,
          w\<lparr>me_next := Suc (me_next w), me_alive := me_next w # me_alive w, me_probe := me_probe w + 1\<rparr>)),
      eh_abort = (\<lambda>h w. w\<lparr>me_stopping := h # me_stopping w\<rparr>),
      eh_send = (\<lambda>_ _ w. (False, w)),
      eh_finished = (\<lambda>h w. h \<notin> set (me_alive w))\<rparr>"

interpretation mock_hosting: engine_hosting mock_host "\<lambda>w. set (me_alive w)" "\<lambda>w. set (me_stopping w)" "\<lambda>w. {..<me_next w}"
  by unfold_locales (auto simp: mock_host_def)

definition mock_start :: mock_engines where
  "mock_start = \<lparr>me_next = 0, me_alive = [], me_stopping = [], me_probe = 0\<rparr>"

subsection \<open>Properties\<close>

text \<open>
  C17: reconciling converges on the wanted deployments. Afterwards the registry holds exactly the listed
  ids, each with the signature of its last descriptor; an entry whose signature already matched is the same
  engine, untouched and not told to stop; every other is a new engine carrying its descriptor; an
  engine that was replaced or dropped has been told to stop; and every engine that is alive belongs to an entry of
  the registry or has been told to stop, so no engine is orphaned. Since the abort is not awaited a
  replaced engine may still be alive beside its replacement. This holds in any iteration order of the hash maps.
\<close>

theorem reconcile_converges:
  assumes "engine_hosting host alive stopping issued" and "accounts alive stopping issued (sr_running reg) w"
    and "mset (ord_run (sr_running reg)) = mset (sr_running reg)" and "\<And>xs. mset (ord_want xs) = mset xs"
    and "reconcile host tr sig ord_run ord_want desired reg w = (reg', w')"
  shows "accounts alive stopping issued (sr_running reg') w'
    \<and> (\<forall>i. case wanted desired i of
             None \<Rightarrow> hm_get (sr_running reg') i = None
           | Some d \<Rightarrow> \<exists>r. hm_get (sr_running reg') i = Some r \<and> ru_signature r = sig d
               \<and> (if \<exists>q. hm_get (sr_running reg) i = Some q \<and> ru_signature q = sig d
                  then hm_get (sr_running reg) i = Some r
                  else describes d (sig d) r \<and> ru_handle r \<notin> issued w))
    \<and> (\<forall>i q. hm_get (sr_running reg) i = Some q \<and> hm_get (sr_running reg') i \<noteq> Some q \<longrightarrow> ru_handle q \<in> stopping w')
    \<and> (\<forall>h \<in> alive w'. h \<in> stopping w' \<or> (\<exists>i r. hm_get (sr_running reg') i = Some r \<and> ru_handle r = h))"
proof -
  note conv = engine_hosting.reconcile_spec [OF assms]
  then have "\<forall>h \<in> alive w'. h \<in> stopping w' \<or> (\<exists>i r. hm_get (sr_running reg') i = Some r \<and> ru_handle r = h)"
    unfolding accounts_def by blast
  then show ?thesis using conv by blast
qed

definition demo_desired :: "string \<Rightarrow> string \<Rightarrow> desired_strategy" where
  "demo_desired i symbol = \<lparr>ds_deployment_id = i, ds_template = ''glft'', ds_symbol = symbol, ds_credentials = [],
     ds_variables = [], ds_fail_ladder_override = None\<rparr>"

definition demo_sig :: "desired_strategy \<Rightarrow> u64" where
  "demo_sig d = of_nat (length (ds_symbol d))"

definition demo_reconciled :: "strategy_registry \<times> mock_engines" where
  "demo_reconciled = reconcile mock_host (\<lambda>_ _. None) demo_sig (\<lambda>xs. xs) (\<lambda>xs. xs)
     [demo_desired ''a'' ''BTC'', demo_desired ''b'' ''ETH''] registry_new mock_start"

theorem reconcile_converges_witness:
  "accounts (\<lambda>w. set (me_alive w)) (\<lambda>w. set (me_stopping w)) (\<lambda>w. {..<me_next w}) (sr_running (fst demo_reconciled)) (snd demo_reconciled)
   \<and> (\<exists>r. hm_get (sr_running (fst demo_reconciled)) ''b'' = Some r \<and> ru_symbol r = ''ETH'')"
proof -
  have acc: "accounts (\<lambda>w. set (me_alive w)) (\<lambda>w. set (me_stopping w)) (\<lambda>w. {..<me_next w}) (sr_running registry_new) mock_start"
    by (simp add: accounts_def registry_new_def mock_start_def)
  obtain reg' w' where r: "reconcile mock_host (\<lambda>_ _. None) demo_sig (\<lambda>xs. xs) (\<lambda>xs. xs)
     [demo_desired ''a'' ''BTC'', demo_desired ''b'' ''ETH''] registry_new mock_start = (reg', w')" by (rule prod.exhaust)
  have b: "wanted [demo_desired ''a'' ''BTC'', demo_desired ''b'' ''ETH''] ''b'' = Some (demo_desired ''b'' ''ETH'')"
    by (simp add: wanted_def demo_desired_def)
  have dr: "demo_reconciled = (reg', w')" unfolding demo_reconciled_def by (rule r)
  have sym: "ds_symbol (demo_desired ''b'' ''ETH'') = ''ETH''" by (simp add: demo_desired_def)
  note c = reconcile_converges [where ord_run = "\<lambda>xs. xs" and ord_want = "\<lambda>xs. xs", OF mock_hosting.engine_hosting_axioms acc refl refl r]
  have "hm_get (sr_running registry_new) ''b'' = None" by (simp add: registry_new_def)
  with c [THEN conjunct2, THEN conjunct1, THEN spec [where x = "''b''"]] b sym
  have "\<exists>r. hm_get (sr_running reg') ''b'' = Some r \<and> ru_symbol r = ''ETH''" by (auto simp: describes_def)
  then show ?thesis using c [THEN conjunct1] by (simp add: dr)
qed

text \<open>
  An engine that has ended on its own is not restarted. The comment on \<^verbatim>\<open>running_count\<close> says the next
  reconcile spawns it again when it is still wanted; the diff compares signatures only, so an
  unchanged deployment keeps its entry and its dead engine through every reconcile.
\<close>

theorem ended_engine_not_restarted:
  assumes "engine_hosting host alive stopping issued" and "accounts alive stopping issued (sr_running reg) w"
    and "mset (ord_run (sr_running reg)) = mset (sr_running reg)" and "\<And>xs. mset (ord_want xs) = mset xs"
    and "hm_get (sr_running reg) i = Some r" and "eh_finished host (ru_handle r) w"
    and "wanted desired i = Some d" and "sig d = ru_signature r"
  shows "\<exists>reg' w'. reconcile host tr sig ord_run ord_want desired reg w = (reg', w')
    \<and> hm_get (sr_running reg') i = Some r \<and> eh_finished host (ru_handle r) w'"
proof -
  obtain reg' w' where rec: "reconcile host tr sig ord_run ord_want desired reg w = (reg', w')" by (rule prod.exhaust)
  have "hm_get (sr_running reg') i = Some r"
    using engine_hosting.reconcile_spec [OF assms(1-4) rec, THEN conjunct2, THEN conjunct1, THEN spec [where x = i]] assms(5,7,8)
    by (auto split: if_splits)
  moreover have "ru_handle r \<in> issued w" using assms(2,5) unfolding accounts_def by blast
  ultimately show ?thesis
    using engine_hosting.reconcile_ages [OF assms(1) rec] engine_hosting.finished_dead [OF assms(1)] assms(6) rec
    unfolding ages_def by blast
qed

definition demo_entry :: running where
  "demo_entry = \<lparr>ru_signature = 3, ru_handle = 0, ru_label = [], ru_symbol = ''BTC'', ru_template = ''glft'',
     ru_variables = [], ru_credentials = [], ru_override_tx = None\<rparr>"

theorem ended_engine_not_restarted_witness:
  "\<exists>reg' w'. reconcile mock_host (\<lambda>_ _. None) demo_sig (\<lambda>xs. xs) (\<lambda>xs. xs) [demo_desired ''a'' ''BTC'']
       \<lparr>sr_running = [(''a'', demo_entry)]\<rparr> \<lparr>me_next = 1, me_alive = [], me_stopping = [], me_probe = 1\<rparr> = (reg', w')
     \<and> eh_finished mock_host 0 w'"
proof -
  have acc: "accounts (\<lambda>w. set (me_alive w)) (\<lambda>w. set (me_stopping w)) (\<lambda>w. {..<me_next w}) (sr_running \<lparr>sr_running = [(''a'', demo_entry)]\<rparr>)
      \<lparr>me_next = 1, me_alive = [], me_stopping = [], me_probe = 1\<rparr>"
    by (auto simp: accounts_def hm_ok_def hm_get_def demo_entry_def split: if_splits)
  have h: "hm_get (sr_running \<lparr>sr_running = [(''a'', demo_entry)]\<rparr>) ''a'' = Some demo_entry" by (simp add: hm_get_def)
  have f: "eh_finished mock_host (ru_handle demo_entry) \<lparr>me_next = 1, me_alive = [], me_stopping = [], me_probe = 1\<rparr>"
    by (simp add: mock_host_def)
  have d: "wanted [demo_desired ''a'' ''BTC''] ''a'' = Some (demo_desired ''a'' ''BTC'')"
    by (simp add: wanted_def demo_desired_def)
  have s: "demo_sig (demo_desired ''a'' ''BTC'') = ru_signature demo_entry"
    by (simp add: demo_sig_def demo_desired_def demo_entry_def)
  have n: "ru_handle demo_entry = 0" by (simp add: demo_entry_def)
  show ?thesis
    using ended_engine_not_restarted [where ord_run = "\<lambda>xs. xs" and ord_want = "\<lambda>xs. xs" and tr = "\<lambda>_ _. None" and sig = demo_sig,
      OF mock_hosting.engine_hosting_axioms acc refl refl h f d s] unfolding n by blast
qed

text \<open>
  A changed descriptor: the old engine, asked to stop, and the new one on the same symbol are both alive
  when the call returns.
\<close>

lemma replaced_engine_overlaps:
  "snd (reconcile mock_host (\<lambda>_ _. None) (\<lambda>_. 4) (\<lambda>xs. xs) (\<lambda>xs. xs) [demo_desired ''a'' ''BTC'']
      \<lparr>sr_running = [(''a'', demo_entry)]\<rparr> \<lparr>me_next = 1, me_alive = [0], me_stopping = [], me_probe = 1\<rparr>)
    = \<lparr>me_next = 2, me_alive = [1, 0], me_stopping = [0], me_probe = 2\<rparr>"
  by (simp add: reconcile_def desired_by_id_def demo_desired_def demo_entry_def stale_ids_def keeps_def hm_get_def hm_insert_def
      hm_remove_def start_one_def hm_contains_def mock_host_def Let_def)

end
