(* ===== verification/Lease_Client.thy ===== *)
theory Lease_Client
  imports Credential_Catalog Strategy_Registry
begin

section \<open>The agent's side of the control session\<close>

text \<open>
  \<^verbatim>\<open>crates/agent/src/lib.rs\<close> (\<^verbatim>\<open>LeaseClient\<close>): registration, the command handler, the lease and the pump loop
  with its wake-ups.

  \<^item> What the client reaches besides its own state is the record \<open>agent_env\<close>: the engine host and the
    orders of its maps, the telemetry rows of the registry and the answers to a details topic (both
    read process-wide metrics and files and are not modelled), the libraries' decimals, and the
    \<^verbatim>\<open>f32\<close> product that gives the refresh mark of a lifetime.
  \<^item> A turn of the pump is a function of what its timed receive returned. Within a turn the wall clock
    is read at the top and once after the receive.
  \<^item> The lease and the published authority state are fields of the client; the handle an engine holds
    reads the latter.
\<close>

subsection \<open>State\<close>

datatype agent_error =
    AgTransport transport_error
  | RegistrationRejected
  | AgBadEnvelope
  | AuthorityLost string

record client_tenants =
  ct_clients :: "string list"
  ct_symbol_to_client :: "(string, string) hash_map"

record lease_client =
  lc_transport :: endpoint
  lc_agent_id :: string
  lc_cursor :: cursor
  lc_state :: lease_state
  lc_current_lease :: "leader_lease option"
  lc_registry :: "strategy_registry option"
  lc_catalog :: "catalog option"
  lc_identity :: "string option"
  lc_dashboard :: "client_tenants option"

record 'w agent_env =
  ae_host :: "'w engine_host"
  ae_translator :: translator
  ae_sig :: "desired_strategy \<Rightarrow> u64"
  ae_ord_run :: "(string \<times> running) list \<Rightarrow> (string \<times> running) list"
  ae_ord_want :: "(string \<times> desired_strategy \<times> u64) list \<Rightarrow> (string \<times> desired_strategy \<times> u64) list"
  ae_rows :: "strategy_registry \<Rightarrow> 'w \<Rightarrow> json list"
  ae_topics :: "string \<Rightarrow> (string \<Rightarrow> json_map \<Rightarrow> json) option"
  ae_parse_dec :: "string \<Rightarrow> string + decimal"
  ae_refresh_offset :: "int \<Rightarrow> int"
  ae_version :: string

definition lease_client_new :: "timestamp \<Rightarrow> endpoint \<Rightarrow> string \<Rightarrow> lease_client" where
  "lease_client_new now transport agent_id =
     \<lparr>lc_transport = transport, lc_agent_id = agent_id, lc_cursor = cursor_fresh now, lc_state = Unclaimed,
      lc_current_lease = None, lc_registry = None, lc_catalog = None, lc_identity = None, lc_dashboard = None\<rparr>"

subsection \<open>Sending\<close>

definition send_telemetry :: "timestamp \<Rightarrow> telemetry_payload \<Rightarrow> lease_client \<Rightarrow> agent_error option \<times> lease_client" where
  "send_telemetry now payload c =
     (let sq = seq_next (cu_last_applied (lc_cursor c));
          (err, tr) = ep_send (unsigned_envelope (telemetry_envelope now sq payload)) (lc_transport c)
      in (map_option AgTransport err, c\<lparr>lc_cursor := cursor_advance now sq (lc_cursor c), lc_transport := tr\<rparr>))"


definition request_refresh :: "timestamp \<Rightarrow> lease_client \<Rightarrow> agent_error option \<times> lease_client" where
  "request_refresh now c =
     (case lc_current_lease c of
        None \<Rightarrow> (None, c)
      | Some l \<Rightarrow> send_telemetry now (LeaseRefreshRequest (ll_lease_id l)) c)"

text \<open>A send whose failure is ignored.\<close>

definition send_best_effort :: "timestamp \<Rightarrow> telemetry_payload \<Rightarrow> lease_client \<Rightarrow> lease_client" where
  "send_best_effort now payload c = snd (send_telemetry now payload c)"

subsection \<open>The lease\<close>

definition install_lease :: "leader_lease \<Rightarrow> lease_client \<Rightarrow> lease_client" where
  "install_lease l c = c\<lparr>lc_current_lease := Some l, lc_state := Held l\<rparr>"

definition expire_lease :: "lease_client \<Rightarrow> lease_client" where
  "expire_lease c = (case lc_current_lease c of None \<Rightarrow> c | Some l \<Rightarrow> c\<lparr>lc_state := Expired l\<rparr>)"

definition revoke_lease :: "string \<Rightarrow> lease_client \<Rightarrow> lease_client" where
  "revoke_lease reason c = (case lc_current_lease c of None \<Rightarrow> c | Some l \<Rightarrow> c\<lparr>lc_state := Revoked l reason\<rparr>)"

subsection \<open>Commands\<close>

definition register_client :: "string \<Rightarrow> string list \<Rightarrow> client_tenants \<Rightarrow> client_tenants" where
  "register_client client_id symbols t =
     t\<lparr>ct_clients := (if client_id \<in> set (ct_clients t) then ct_clients t else ct_clients t @ [client_id]),
       ct_symbol_to_client := fold (\<lambda>s. hm_insert s client_id) symbols (ct_symbol_to_client t)\<rparr>"

definition on_push_credential :: "'w agent_env \<Rightarrow> pushed_credential \<Rightarrow> lease_client \<Rightarrow> lease_client" where
  "on_push_credential env p c =
     (case lc_catalog c of
        None \<Rightarrow> c
      | Some cat \<Rightarrow> c\<lparr>lc_catalog := Some (snd (catalog_insert (ae_parse_dec env) p cat))\<rparr>)"

definition on_desired :: "'w agent_env \<Rightarrow> timestamp \<Rightarrow> desired_strategy list \<Rightarrow> lease_client \<Rightarrow> 'w \<Rightarrow> lease_client \<times> 'w" where
  "on_desired env now strategies c w =
     (case lc_registry c of
        None \<Rightarrow> (c, w)
      | Some reg \<Rightarrow>
          (case reconcile (ae_host env) (ae_translator env) (ae_sig env) (ae_ord_run env) (ae_ord_want env) strategies reg w of
             (reg', w') \<Rightarrow> (send_best_effort now (DeploymentState (ae_rows env reg' w')) (c\<lparr>lc_registry := Some reg'\<rparr>), w')))"

definition on_patch :: "'w agent_env \<Rightarrow> timestamp \<Rightarrow> string \<Rightarrow> json_map \<Rightarrow> lease_client \<Rightarrow> 'w \<Rightarrow> lease_client \<times> 'w" where
  "on_patch env now i patch c w =
     (case lc_registry c of
        None \<Rightarrow> (c, w)
      | Some reg \<Rightarrow>
          (case patch_variables (ae_host env) (ae_translator env) i patch reg w of
             (ok, reg', w') \<Rightarrow>
               (if ok then send_best_effort now (DeploymentState (ae_rows env reg' w')) (c\<lparr>lc_registry := Some reg'\<rparr>)
                else c\<lparr>lc_registry := Some reg'\<rparr>, w')))"

definition details_answer :: "'w agent_env \<Rightarrow> string \<Rightarrow> string \<Rightarrow> json_map \<Rightarrow> lease_client \<Rightarrow> json \<times> string option" where
  "details_answer env deployment_id topic args c =
     (case lc_registry c of
        None \<Rightarrow> (JNull, Some ''agent has no registry attached'')
      | Some reg \<Rightarrow>
          (case deployment_symbol reg deployment_id of
             None \<Rightarrow> (JNull, Some (''unknown deployment '' @ deployment_id))
           | Some symbol \<Rightarrow>
               (case ae_topics env topic of
                  None \<Rightarrow> (JNull, Some (''unknown topic '' @ topic))
                | Some f \<Rightarrow> (f symbol args, None))))"

text \<open>The command of an envelope that is accepted: the part before the acknowledgement.\<close>

definition apply_command ::
  "'w agent_env \<Rightarrow> timestamp \<Rightarrow> command_payload \<Rightarrow> lease_client \<Rightarrow> 'w \<Rightarrow> agent_error option \<times> lease_client \<times> 'w" where
  "apply_command env now cmd c w =
     (case cmd of
        LeaseGrant l \<Rightarrow> (None, install_lease l c, w)
      | LeaseRefresh l \<Rightarrow> (None, install_lease l c, w)
      | LeaseRevoke reason \<Rightarrow> (Some (AuthorityLost ''lease revoked by controller''), revoke_lease reason c, w)
      | PushCredential p \<Rightarrow> (None, on_push_credential env p c, w)
      | SetDesiredStrategies strategies \<Rightarrow> (case on_desired env now strategies c w of (c', w') \<Rightarrow> (None, c', w'))
      | PatchDeploymentVariables i patch \<Rightarrow> (case on_patch env now i patch c w of (c', w') \<Rightarrow> (None, c', w'))
      | FetchDeploymentDetails i topic request_id args \<Rightarrow>
          (case details_answer env i topic args c of
             (payload, err) \<Rightarrow> (None, send_best_effort now (DetailsReply request_id i topic payload err) c, w))
      | AddClient client_id symbols \<Rightarrow>
          (None, c\<lparr>lc_dashboard := map_option (register_client client_id symbols) (lc_dashboard c)\<rparr>, w)
      | CmdHeartbeat \<Rightarrow> (case send_telemetry now (TelHeartbeat now) c of (err, c') \<Rightarrow> (err, c', w)))"

definition on_command ::
  "'w agent_env \<Rightarrow> timestamp \<Rightarrow> signed_envelope \<Rightarrow> lease_client \<Rightarrow> 'w \<Rightarrow> agent_error option \<times> lease_client \<times> 'w" where
  "on_command env now sig c w =
     (if env_telemetry (se_envelope sig) \<noteq> None then (Some AgBadEnvelope, c, w)
      else case env_command (se_envelope sig) of
        None \<Rightarrow> (Some AgBadEnvelope, c, w)
      | Some cmd \<Rightarrow>
          (case apply_command env now cmd c w of
             (Some e, c1, w1) \<Rightarrow> (Some e, c1, w1)
           | (None, c1, w1) \<Rightarrow>
               (case send_telemetry now (Ack (env_seq (se_envelope sig))) c1 of
                  (Some e, c2) \<Rightarrow> (Some e, c2, w1)
                | (None, c2) \<Rightarrow>
                    (None, c2\<lparr>lc_cursor := cursor_advance now (env_seq (se_envelope sig)) (lc_cursor c2)\<rparr>, w1))))"

definition on_transport_closed :: "lease_client \<Rightarrow> agent_error option \<times> lease_client" where
  "on_transport_closed c =
     (if lc_current_lease c \<noteq> None
      then (Some (AuthorityLost ''controller transport closed while holding lease''), expire_lease c)
      else (None, c))"

subsection \<open>The pump\<close>

definition SNAPSHOT_EVERY :: nat where
  "SNAPSHOT_EVERY = from_secs 2"

record pump_state =
  pu_refresh_requested_for :: "seq option"
  pu_next_snapshot :: int

definition pump_start :: "int \<Rightarrow> pump_state" where
  "pump_start mono_now = \<lparr>pu_refresh_requested_for = None, pu_next_snapshot = mono_now + int SNAPSHOT_EVERY\<rparr>"

definition refresh_deadline :: "'w agent_env \<Rightarrow> leader_lease \<Rightarrow> timestamp" where
  "refresh_deadline env l = ll_issued_at l + ae_refresh_offset env (max 1 (ll_expires_at l - ll_issued_at l))"

text \<open>How long the timed receive waits, in milliseconds.\<close>

definition pump_wait :: "'w agent_env \<Rightarrow> timestamp \<Rightarrow> int \<Rightarrow> pump_state \<Rightarrow> lease_client \<Rightarrow> nat" where
  "pump_wait env now mono_now p c =
     (let wake = (case lc_current_lease c of
                    None \<Rightarrow> nat (int (from_secs 3600))
                  | Some l \<Rightarrow> nat (min (refresh_deadline env l) (ll_expires_at l) - now))
      in min wake (nat (pu_next_snapshot p - mono_now)))"

text \<open>What the timed receive returned, with the clocks read after it.\<close>

datatype pump_input =
    Received "transport_error + signed_envelope option" timestamp
  | Elapsed int timestamp

datatype pump_result = PumpReturn "agent_error option" | PumpGoOn pump_state

definition on_elapsed ::
  "'w agent_env \<Rightarrow> int \<Rightarrow> timestamp \<Rightarrow> pump_state \<Rightarrow> lease_client \<Rightarrow> 'w \<Rightarrow> pump_result \<times> lease_client" where
  "on_elapsed env mono_now now p c w =
     (let (c1, p1) =
        (if pu_next_snapshot p \<le> mono_now
         then (case lc_registry c of None \<Rightarrow> c | Some reg \<Rightarrow> send_best_effort now (DeploymentState (ae_rows env reg w)) c,
               p\<lparr>pu_next_snapshot := mono_now + int SNAPSHOT_EVERY\<rparr>)
         else (c, p))
      in case lc_current_lease c of
           None \<Rightarrow> (PumpGoOn p1, c1)
         | Some l \<Rightarrow>
             if refresh_deadline env l \<le> now \<and> pu_refresh_requested_for p1 \<noteq> Some (ll_issued_seq l) then
               (case request_refresh now c1 of
                  (Some e, c2) \<Rightarrow> (PumpReturn (Some e), c2)
                | (None, c2) \<Rightarrow> (PumpGoOn (p1\<lparr>pu_refresh_requested_for := Some (ll_issued_seq l)\<rparr>), c2))
             else (PumpGoOn p1, c1))"

definition on_received ::
  "'w agent_env \<Rightarrow> timestamp \<Rightarrow> signed_envelope \<Rightarrow> pump_state \<Rightarrow> lease_client \<Rightarrow> 'w \<Rightarrow> pump_result \<times> lease_client \<times> 'w" where
  "on_received env now sig p c w =
     (case on_command env now sig c w of
        (Some e, c1, w1) \<Rightarrow> (PumpReturn (Some e), c1, w1)
      | (None, c1, w1) \<Rightarrow>
          (PumpGoOn (if map_option ll_issued_seq (lc_current_lease c1) \<noteq> map_option ll_issued_seq (lc_current_lease c)
                     then p\<lparr>pu_refresh_requested_for := None\<rparr> else p), c1, w1))"

definition pump_turn ::
  "'w agent_env \<Rightarrow> timestamp \<Rightarrow> pump_input \<Rightarrow> pump_state \<Rightarrow> lease_client \<Rightarrow> 'w \<Rightarrow> pump_result \<times> lease_client \<times> 'w" where
  "pump_turn env now inp p c w =
     (if (case lc_current_lease c of Some l \<Rightarrow> \<not> is_valid_at l now | None \<Rightarrow> False)
      then (PumpReturn (Some (AuthorityLost ''lease expired'')), expire_lease c, w)
      else case inp of
        Received (Inr (Some sig)) later \<Rightarrow> on_received env later sig p c w
      | Received (Inr None) _ \<Rightarrow> (case on_transport_closed c of (e, c') \<Rightarrow> (PumpReturn e, c', w))
      | Received (Inl e) _ \<Rightarrow> (PumpReturn (Some (AgTransport e)), c, w)
      | Elapsed mono_now later \<Rightarrow> (case on_elapsed env mono_now later p c w of (r, c') \<Rightarrow> (r, c', w)))"

text \<open>The pump over a sequence of turns; \<open>None\<close> says that it is still running.\<close>

fun pump_run ::
  "'w agent_env \<Rightarrow> (timestamp \<times> pump_input) list \<Rightarrow> pump_state \<Rightarrow> lease_client \<Rightarrow> 'w
    \<Rightarrow> agent_error option option \<times> pump_state \<times> lease_client \<times> 'w" where
  "pump_run env [] p c w = (None, p, c, w)"
| "pump_run env ((now, inp) # turns) p c w =
     (case pump_turn env now inp p c w of
        (PumpReturn e, c', w') \<Rightarrow> (Some e, p, c', w')
      | (PumpGoOn p', c', w') \<Rightarrow> pump_run env turns p' c' w')"


subsection \<open>The engines of a session\<close>



lemma send_telemetry_keeps [simp]:
  "lc_registry (snd (send_telemetry now pl c)) = lc_registry c"
  "lc_current_lease (snd (send_telemetry now pl c)) = lc_current_lease c"
  "lc_state (snd (send_telemetry now pl c)) = lc_state c"
  "lc_agent_id (snd (send_telemetry now pl c)) = lc_agent_id c"
  by (simp_all add: send_telemetry_def Let_def split: prod.split)

lemma send_telemetry_fields:
  assumes "send_telemetry now pl c = (err, c')"
  shows "lc_registry c' = lc_registry c" and "lc_current_lease c' = lc_current_lease c" and "lc_state c' = lc_state c"
  using send_telemetry_keeps [of now pl c] assms by simp_all

lemma send_telemetry_rest:
  "send_telemetry now pl c = (err, c') \<Longrightarrow>
   lc_registry c' = lc_registry c \<and> lc_current_lease c' = lc_current_lease c \<and> lc_state c' = lc_state c"
  using send_telemetry_fields by blast

lemma send_best_effort_keeps [simp]:
  "lc_registry (send_best_effort now pl c) = lc_registry c"
  "lc_current_lease (send_best_effort now pl c) = lc_current_lease c"
  "lc_state (send_best_effort now pl c) = lc_state c"
  by (simp_all add: send_best_effort_def)

lemma lease_ops_registry [simp]:
  "lc_registry (install_lease l c) = lc_registry c" "lc_registry (expire_lease c) = lc_registry c"
  "lc_registry (revoke_lease reason c) = lc_registry c"
  "lc_registry (on_push_credential env p c) = lc_registry c"
  by (simp_all add: install_lease_def expire_lease_def revoke_lease_def on_push_credential_def split: option.split)


subsection \<open>Runs\<close>


lemma on_elapsed_keeps:
  assumes "on_elapsed env mono_now now p c w = (r, c')"
  shows "lc_registry c' = lc_registry c \<and> lc_current_lease c' = lc_current_lease c \<and> lc_state c' = lc_state c"
  using assms
  by (auto simp: on_elapsed_def request_refresh_def Let_def dest!: send_telemetry_rest
      split: option.splits if_splits prod.splits)





subsection \<open>Properties\<close>


fun silent_timely :: "'w agent_env \<Rightarrow> int \<Rightarrow> (timestamp \<times> pump_input) list \<Rightarrow> pump_state \<Rightarrow> lease_client \<Rightarrow> 'w \<Rightarrow> bool" where
  "silent_timely env delta [] p c w = True"
| "silent_timely env delta ((now, inp) # turns) p c w =
     ((\<exists>mono_now later mono_top. inp = Elapsed mono_now later
        \<and> (turns \<noteq> [] \<longrightarrow> fst (hd turns) \<le> now + int (pump_wait env now mono_top p c) + delta))
      \<and> (case pump_turn env now inp p c w of
           (PumpGoOn p', c', w') \<Rightarrow> silent_timely env delta turns p' c' w'
         | _ \<Rightarrow> True))"

lemma pump_wait_bound:
  "lc_current_lease c = Some l \<Longrightarrow> now \<le> ll_expires_at l \<Longrightarrow> now + int (pump_wait env now mono_now p c) \<le> ll_expires_at l"
  by (auto simp: pump_wait_def Let_def)

text \<open>
  C16: silence ends authority in time. While the pump holds a lease and no message arrives, it never
  waits past the expiry of the lease; so when every turn starts at most \<open>delta\<close> after the previous
  turn's wait is over, the session has ended at the latest in a turn that starts within \<open>delta\<close> of
  the expiry, whatever the refresh setting, the telemetry cadence and the state of the transport.
\<close>

theorem silence_ends_authority:
  assumes "lc_current_lease c = Some l" and "silent_timely env delta turns p c w" and "0 \<le> delta"
    and "turns \<noteq> []" and "fst (hd turns) \<le> ll_expires_at l + delta" and "ll_expires_at l \<le> fst (last turns)"
  shows "\<exists>k < length turns. fst (turns ! k) \<le> ll_expires_at l + delta
    \<and> (\<exists>e. fst (pump_run env (take (Suc k) turns) p c w) = Some (Some e))"
  using assms
proof (induction turns arbitrary: p c w)
  case (Cons t turns)
  obtain now inp where t: "t = (now, inp)" by (rule prod.exhaust)
  obtain r1 c1 w1 where s: "pump_turn env now inp p c w = (r1, c1, w1)" by (rule prod_cases3)
  from Cons.prems(2) t obtain mono_now later mono_top where i: "inp = Elapsed mono_now later"
    "turns \<noteq> [] \<longrightarrow> fst (hd turns) \<le> now + int (pump_wait env now mono_top p c) + delta" by auto
  show ?case
  proof (cases r1)
    case (PumpReturn e)
    have "e \<noteq> None" using s i(1) PumpReturn
      by (auto simp: pump_turn_def on_elapsed_def Let_def split: option.splits if_splits prod.splits)
    then show ?thesis using s t PumpReturn Cons.prems(5) by (intro exI [of _ 0]) auto
  next
    case (PumpGoOn p1)
    have valid: "now < ll_expires_at l"
      using s PumpGoOn Cons.prems(1) by (auto simp: pump_turn_def is_valid_at_def split: if_splits)
    have ne: "turns \<noteq> []" using Cons.prems(6) t valid by auto
    have c1: "lc_current_lease c1 = Some l"
    proof -
      obtain r2 c2 where e: "on_elapsed env mono_now later p c w = (r2, c2)" by (rule prod.exhaust)
      have "c1 = c2" using s i(1) e Cons.prems(1) valid by (auto simp: pump_turn_def is_valid_at_def)
      then show ?thesis using on_elapsed_keeps [OF e] Cons.prems(1) by simp
    qed
    have "fst (hd turns) \<le> ll_expires_at l + delta"
      using i(2) ne pump_wait_bound [OF Cons.prems(1), of now env mono_top p] valid by simp
    moreover have "silent_timely env delta turns p1 c1 w1" using Cons.prems(2) t s PumpGoOn by simp
    moreover have "ll_expires_at l \<le> fst (last turns)" using Cons.prems(6) ne by simp
    ultimately obtain k e where k: "k < length turns" "fst (turns ! k) \<le> ll_expires_at l + delta"
        "fst (pump_run env (take (Suc k) turns) p1 c1 w1) = Some (Some e)"
      using Cons.IH [OF c1 _ Cons.prems(3) ne] by blast
    then show ?thesis using t s PumpGoOn by (intro exI [of _ "Suc k"]) auto
  qed
qed simp

text \<open>
  A refresh request that goes unanswered is never repeated. The pump remembers the lease it asked
  to extend and asks again only when the lease has changed; so when the controller drops the request
  (it ignores one that comes sooner than its rate limit, expecting another) the client sends no other
  until the lease has run out, however long it waits.
\<close>

definition is_refresh_request :: "signed_envelope \<Rightarrow> bool" where
  "is_refresh_request e \<longleftrightarrow> (\<exists>i. env_telemetry (se_envelope e) = Some (LeaseRefreshRequest i))"

definition sent_by :: "lease_client \<Rightarrow> signed_envelope list" where
  "sent_by c = ep_sent (lc_transport c)"

lemma send_telemetry_sent:
  assumes "send_telemetry now pl c = (err, c')" and "\<And>i. pl \<noteq> LeaseRefreshRequest i"
  shows "filter is_refresh_request (sent_by c') = filter is_refresh_request (sent_by c)"
  using assms
  by (auto simp: send_telemetry_def ep_send_def sent_by_def is_refresh_request_def unsigned_envelope_def
      telemetry_envelope_def Let_def split: option.splits prod.splits)

lemma unanswered_refresh_not_repeated:
  assumes "lc_current_lease c = Some l" and "pu_refresh_requested_for p = Some (ll_issued_seq l)"
    and "\<And>t. t \<in> set turns \<Longrightarrow> \<exists>mono_now later. snd t = Elapsed mono_now later"
    and "pump_run env turns p c w = (r, p', c', w')"
  shows "filter is_refresh_request (sent_by c') = filter is_refresh_request (sent_by c)
    \<and> (r = None \<or> r = Some (Some (AuthorityLost ''lease expired'')))"
  using assms
proof (induction turns arbitrary: p c w)
  case (Cons t turns)
  obtain now inp where t: "t = (now, inp)" by (rule prod.exhaust)
  from Cons.prems(3) [of t] t obtain mono_now later where i: "inp = Elapsed mono_now later" by auto
  show ?case
  proof (cases "is_valid_at l now")
    case False
    then have "c' = expire_lease c \<and> r = Some (Some (AuthorityLost ''lease expired''))"
      using Cons.prems(1,4) t by (auto simp: pump_turn_def)
    then show ?thesis by (simp add: expire_lease_def sent_by_def split: option.split)
  next
    case True
    define due where "due \<longleftrightarrow> pu_next_snapshot p \<le> mono_now"
    define p1 where "p1 = (if due then p\<lparr>pu_next_snapshot := mono_now + int SNAPSHOT_EVERY\<rparr> else p)"
    define c1 where "c1 = (case lc_registry c of
       Some reg \<Rightarrow> if due then send_best_effort later (DeploymentState (ae_rows env reg w)) c else c | None \<Rightarrow> c)"
    have e: "on_elapsed env mono_now later p c w = (PumpGoOn p1, c1)"
      using Cons.prems(1,2) by (auto simp: on_elapsed_def p1_def c1_def due_def Let_def split: option.splits)
    have run: "pump_run env turns p1 c1 w = (r, p', c', w')"
      using Cons.prems(1,4) t i e True by (simp add: pump_turn_def)
    have keep: "lc_current_lease c1 = Some l" using on_elapsed_keeps [OF e] Cons.prems(1) by simp
    have "filter is_refresh_request (sent_by c1) = filter is_refresh_request (sent_by c)"
      using send_telemetry_sent [OF prod.collapse [symmetric]]
      by (auto simp: c1_def send_best_effort_def split: option.split)
    then show ?thesis
      using Cons.IH [OF keep _ _ run] Cons.prems(2,3) by (simp add: p1_def)
  qed
qed simp

definition demo_env :: "mock_engines agent_env" where
  "demo_env = \<lparr>ae_host = mock_host, ae_translator = (\<lambda>_ _. None), ae_sig = demo_sig, ae_ord_run = (\<lambda>xs. xs),
     ae_ord_want = (\<lambda>xs. xs), ae_rows = (\<lambda>_ _. []), ae_topics = (\<lambda>_. None), ae_parse_dec = (\<lambda>_. Inl []),
     ae_refresh_offset = (\<lambda>t. t div 3), ae_version = ''0.1''\<rparr>"

definition demo_client :: lease_client where
  "demo_client = (lease_client_new 0 \<lparr>ep_sent = [], ep_fault = None\<rparr> ''a'')\<lparr>lc_registry := Some registry_new\<rparr>"

definition client_lease :: leader_lease where
  "client_lease = \<lparr>ll_lease_id = 1, ll_agent_id = ''a'', ll_issued_at = 0, ll_expires_at = 1000, ll_issued_seq = 1\<rparr>"




definition silent_turns :: "(timestamp \<times> pump_input) list" where
  "silent_turns = [(900, Elapsed 900 900), (1003, Elapsed 1003 1003)]"

theorem silence_ends_authority_witness:
  "\<exists>k < length silent_turns. fst (silent_turns ! k) \<le> 1103
    \<and> (\<exists>e. fst (pump_run demo_env (take (Suc k) silent_turns) (pump_start 0) (install_lease client_lease demo_client) mock_start)
          = Some (Some e))"
proof -
  let ?c = "install_lease client_lease demo_client"
  have l: "lc_current_lease ?c = Some client_lease" by (simp add: install_lease_def)
  have wait: "1003 \<le> 900 + int (pump_wait demo_env 900 0 (pump_start 0) ?c) + 103" by simp
  have t: "silent_timely demo_env 103 silent_turns (pump_start 0) ?c mock_start"
    unfolding silent_turns_def using wait
    by (simp split: prod.split pump_result.split)
  show ?thesis
    using silence_ends_authority [OF l t] by (simp add: silent_turns_def client_lease_def)
qed

end
