(* ===== verification/Lease_Protocol.thy ===== *)
theory Lease_Protocol
  imports Agent_Session Lease_Client
begin

section \<open>The lease protocol: a controller session and an agent\<close>

text \<open>
  The composition of \<^verbatim>\<open>AgentSession\<close> (\<^verbatim>\<open>crates/controller/src/lib.rs\<close>) and \<^verbatim>\<open>LeaseClient\<close>
  (\<^verbatim>\<open>crates/agent/src/lib.rs\<close>) over a network. The network may lose, delay, reorder and repeat what the
  controller has sent, and the agent may send any telemetry at any time; other tasks of the
  controller may change the approval store, the vault and the fleet view between two steps. The two
  clocks are unrelated; the controller's does not run backwards.
\<close>

record ('v, 'w) lease_system =
  ls_now :: timestamp
  ls_session :: "'v agent_session"
  ls_shared :: ctl_shared
  ls_pump :: pump_state
  ls_client :: lease_client
  ls_world :: 'w

definition stores_ok :: "ctl_shared \<Rightarrow> bool" where
  "stores_ok sh \<longleftrightarrow> (\<forall>st. cs_approvals sh = Some st \<longrightarrow> hm_ok st)"

text \<open>
  The inputs that may turn a session that is not accepted into one that is: the operator's approval,
  and a registration with a key the store holds as accepted.
\<close>

definition approving :: "(string \<Rightarrow> string) \<Rightarrow> session_event \<Rightarrow> ctl_shared \<Rightarrow> bool" where
  "approving fp ev sh \<longleftrightarrow> accepted_register fp ev sh \<or> ev = Lifecycle (Some ApprovalGranted)"

text \<open>One step; the flag says whether it is an approving one.\<close>

inductive sys_step ::
  "(string \<Rightarrow> string) \<Rightarrow> (string \<Rightarrow> 'v::linorder option) \<Rightarrow> 'w agent_env \<Rightarrow> bool
    \<Rightarrow> ('v, 'w) lease_system \<Rightarrow> ('v, 'w) lease_system \<Rightarrow> bool"
  for fp pv env where
  controller:
    "agent_session_step fp pv ord fresh now ev (ls_session s) (ls_shared s) = (fin, err, sess, sh) \<Longrightarrow>
     ls_now s \<le> now \<Longrightarrow> (\<And>c. ev = OutboundCommand (Some c) \<Longrightarrow> lease_of c = None) \<Longrightarrow>
     sys_step fp pv env (approving fp ev (ls_shared s)) s (s\<lparr>ls_now := now, ls_session := sess, ls_shared := sh\<rparr>)"
| others:
    "stores_ok sh \<Longrightarrow> sys_step fp pv env False s (s\<lparr>ls_shared := sh\<rparr>)"
| agent:
    "pump_turn env t inp (ls_pump s) (ls_client s) (ls_world s) = (res, c, w) \<Longrightarrow>
     (\<And>sig later. inp = Received (Inr (Some sig)) later \<Longrightarrow> sig \<in> set (ep_sent (as_transport (ls_session s)))) \<Longrightarrow>
     sys_step fp pv env False s
       (s\<lparr>ls_client := c, ls_world := w, ls_pump := (case res of PumpGoOn p \<Rightarrow> p | PumpReturn _ \<Rightarrow> ls_pump s)\<rparr>)"

inductive_cases sys_stepE: "sys_step fp pv env b s s'"

text \<open>A system starts with a fresh session and a fresh client, and nothing sent.\<close>

definition sys_start :: "('v, 'w) lease_system \<Rightarrow> bool" where
  "sys_start s \<longleftrightarrow> ep_sent (as_transport (ls_session s)) = [] \<and> lc_state (ls_client s) = Unclaimed \<and> stores_ok (ls_shared s)"

inductive sys_reach ::
  "(string \<Rightarrow> string) \<Rightarrow> (string \<Rightarrow> 'v::linorder option) \<Rightarrow> 'w agent_env \<Rightarrow> ('v, 'w) lease_system \<Rightarrow> bool"
  for fp pv env where
  begins: "sys_start s \<Longrightarrow> sys_reach fp pv env s"
| goes: "sys_reach fp pv env s \<Longrightarrow> sys_step fp pv env b s s' \<Longrightarrow> sys_reach fp pv env s'"

text \<open>Continuations without an approving step.\<close>

inductive unapproved_run ::
  "(string \<Rightarrow> string) \<Rightarrow> (string \<Rightarrow> 'v::linorder option) \<Rightarrow> 'w agent_env \<Rightarrow> ('v, 'w) lease_system \<Rightarrow> ('v, 'w) lease_system \<Rightarrow> bool"
  for fp pv env where
  stay: "unapproved_run fp pv env s s"
| onward: "unapproved_run fp pv env s s' \<Longrightarrow> sys_step fp pv env False s' s'' \<Longrightarrow> unapproved_run fp pv env s s''"

subsection \<open>Leases are bounded by the time of their issue\<close>

definition sys_ttl :: "('v, 'w) lease_system \<Rightarrow> int" where
  "sys_ttl s = int (lp_lease_ttl (as_policy (ls_session s)))"

definition leases_until :: "timestamp \<Rightarrow> ('v, 'w) lease_system \<Rightarrow> bool" where
  "leases_until u s \<longleftrightarrow> stores_ok (ls_shared s)
     \<and> (\<forall>c \<in> set (commands_in (ep_sent (as_transport (ls_session s)))). \<forall>l. lease_of c = Some l \<longrightarrow> ll_expires_at l \<le> u)
     \<and> (\<forall>l. lc_state (ls_client s) = Held l \<longrightarrow> ll_expires_at l \<le> u)"

lemma leases_until_mono: "leases_until u s \<Longrightarrow> u \<le> v \<Longrightarrow> leases_until v s"
  unfolding leases_until_def by (meson order_trans)

lemma commands_in_mem: "e \<in> set es \<Longrightarrow> env_command (se_envelope e) = Some c \<Longrightarrow> c \<in> set (commands_in es)"
  by (force simp: commands_in_def map_filter_def)

lemma apply_command_held:
  assumes "apply_command env now cmd c w = (err, c', w')" and "lc_state c' = Held l"
  shows "lc_state c = Held l \<or> lease_of cmd = Some l"
  using assms
  by (auto simp: apply_command_def on_desired_def on_patch_def install_lease_def revoke_lease_def on_push_credential_def
      split: command_payload.splits prod.splits option.splits if_splits dest!: send_telemetry_rest)

lemma on_command_held:
  assumes "on_command env now sig c w = (err, c', w')" and "lc_state c' = Held l"
  shows "lc_state c = Held l \<or> (\<exists>cmd. env_command (se_envelope sig) = Some cmd \<and> lease_of cmd = Some l)"
proof (cases "env_telemetry (se_envelope sig) = None \<and> env_command (se_envelope sig) \<noteq> None")
  case True
  then obtain cmd where cmd: "env_command (se_envelope sig) = Some cmd" by blast
  obtain e1 c1 w1 where a: "apply_command env now cmd c w = (e1, c1, w1)" by (rule prod_cases3)
  obtain e2 c2 where s: "send_telemetry now (Ack (env_seq (se_envelope sig))) c1 = (e2, c2)" by (rule prod.exhaust)
  have "lc_state c' = lc_state c1"
    using assms(1) True cmd a s send_telemetry_fields(3) [OF s] by (auto simp: on_command_def split: option.splits)
  then have "lc_state c1 = Held l" using assms(2) by simp
  then show ?thesis using apply_command_held [OF a] cmd by blast
qed (use assms in \<open>auto simp: on_command_def split: option.splits\<close>)

lemma pump_turn_held:
  assumes "pump_turn env t inp p c w = (res, c', w')" and "lc_state c' = Held l"
  shows "lc_state c = Held l \<or> (\<exists>sig later cmd. inp = Received (Inr (Some sig)) later
    \<and> env_command (se_envelope sig) = Some cmd \<and> lease_of cmd = Some l)"
proof (cases "case lc_current_lease c of Some l \<Rightarrow> \<not> is_valid_at l t | None \<Rightarrow> False")
  case True
  then show ?thesis using assms by (auto simp: pump_turn_def expire_lease_def split: option.splits)
next
  case ok: False
  show ?thesis
  proof (cases inp)
    case (Received msg later)
    consider (sig) sig where "msg = Inr (Some sig)" | (closed) "msg = Inr None" | (err) e where "msg = Inl e"
      by (metis option.exhaust sum.exhaust)
    then show ?thesis
    proof cases
      case sig
      obtain e c1 w1 where o: "on_command env later sig c w = (e, c1, w1)" by (rule prod_cases3)
      have "c' = c1" using assms(1) ok Received sig o by (auto simp: pump_turn_def on_received_def split: option.splits)
      then show ?thesis using on_command_held [OF o] assms(2) Received sig by blast
    qed (use assms ok Received in
        \<open>auto simp: pump_turn_def on_transport_closed_def expire_lease_def split: option.splits if_splits\<close>)
  next
    case (Elapsed mono_now later)
    obtain r1 c1 where e: "on_elapsed env mono_now later p c w = (r1, c1)" by (rule prod.exhaust)
    have "c' = c1" using assms(1) ok Elapsed e by (auto simp: pump_turn_def split: option.splits)
    then show ?thesis using on_elapsed_keeps [OF e] assms(2) by simp
  qed
qed

lemma agent_leases_until:
  assumes "leases_until u s" and "pump_turn env t inp (ls_pump s) (ls_client s) (ls_world s) = (res, c, w)"
    and "\<And>sig later. inp = Received (Inr (Some sig)) later \<Longrightarrow> sig \<in> set (ep_sent (as_transport (ls_session s)))"
  shows "leases_until u (s\<lparr>ls_client := c, ls_world := w, ls_pump := p\<rparr>)"
proof -
  have "ll_expires_at l \<le> u" if l: "lc_state c = Held l" for l
    using pump_turn_held [OF assms(2) l]
  proof
    assume "lc_state (ls_client s) = Held l"
    then show ?thesis using assms(1) by (simp add: leases_until_def)
  next
    assume "\<exists>sig later cmd. inp = Received (Inr (Some sig)) later
      \<and> env_command (se_envelope sig) = Some cmd \<and> lease_of cmd = Some l"
    then obtain sig later cmd where m: "inp = Received (Inr (Some sig)) later" "env_command (se_envelope sig) = Some cmd"
      "lease_of cmd = Some l" by blast
    have "cmd \<in> set (commands_in (ep_sent (as_transport (ls_session s))))"
      using commands_in_mem [OF assms(3) [OF m(1)] m(2)] .
    then show ?thesis using assms(1) m(3) unfolding leases_until_def by blast
  qed
  then show ?thesis using assms(1) by (simp add: leases_until_def)
qed

subsection \<open>The controller's steps\<close>

lemma admission_hm_ok:
  assumes "admission fp now a pk sh = Some (f, st, sh')" and "stores_ok sh"
  shows "stores_ok sh' \<and> (st = Accepted \<longrightarrow> cs_approvals sh = None
      \<or> (\<exists>k store. pk = Some k \<and> cs_approvals sh = Some store \<and> state_of store (fp k) = Some Accepted))"
proof -
  have ok: "\<And>store. cs_approvals sh = Some store \<Longrightarrow> hm_ok store" using assms(2) by (simp add: stores_ok_def)
  have "stores_ok sh'"
    using assms(1) ok by (auto simp: admission_def stores_ok_def record_register_def hm_simps Let_def
        split: option.splits prod.splits if_splits)
  then show ?thesis using admission_state [of fp now a pk sh f sh'] assms(1) ok by blast
qed

lemma register_state:
  assumes "on_register fp pv ord fresh now a v sq av pk s sh = (err, s', sh')" and "stores_ok sh"
  shows "stores_ok sh' \<and> (as_approval_state s' = Accepted \<longrightarrow> as_approval_state s = Accepted \<or> cs_approvals sh = None
      \<or> (\<exists>k store. pk = Some k \<and> cs_approvals sh = Some store \<and> state_of store (fp k) = Some Accepted))"
proof (cases "v = PROTOCOL_VERSION \<and> check_agent_version pv (as_policy s) av")
  case ok: True
  show ?thesis
  proof (cases "admission fp now a pk sh")
    case (Some r)
    obtain f st sh1 where r: "r = (f, st, sh1)" by (rule prod_cases3)
    note adm = admission_hm_ok [OF Some [unfolded r] assms(2)]
    define s2 where "s2 = s\<lparr>as_pubkey_fingerprint := f, as_approval_state := st, as_agent_id := Some a\<rparr>"
    show ?thesis
    proof (cases "st = Accepted")
      case True
      then obtain sh3 where g: "issue_initial_lease_and_credentials ord fresh now s2 sh3 = (err, s', sh')"
        "cs_approvals sh3 = cs_approvals sh1"
        using assms(1) ok Some r by (auto simp: on_register_def Let_def is_accepted_def s2_def split: option.splits)
      have "as_approval_state s2 = Accepted" using True by (simp add: s2_def)
      from initial_lease_sends [OF g(1) this] have "cs_approvals sh' = cs_approvals sh1" using g(2) by auto
      then show ?thesis using adm True by (auto simp: stores_ok_def)
    next
      case False
      then have "as_approval_state s' = st" "cs_approvals sh' = cs_approvals sh1"
        using assms(1) ok Some r by (auto simp: on_register_def Let_def is_accepted_def split: option.splits)
      then show ?thesis using adm False by (simp add: stores_ok_def)
    qed
  qed (use assms ok in \<open>auto simp: on_register_def\<close>)
qed (use assms in \<open>auto simp: on_register_def split: if_splits\<close>)

lemma lifecycle_state:
  assumes "on_lifecycle ord fresh now ev s sh = (err, s', sh')" and "stores_ok sh"
  shows "stores_ok sh' \<and> (as_approval_state s' = Accepted \<longrightarrow> as_approval_state s = Accepted \<or> ev = ApprovalGranted)"
proof (cases ev)
  case ApprovalGranted
  show ?thesis
  proof (cases "as_approval_state s = Accepted")
    case False
    let ?s1 = "s\<lparr>as_approval_state := Accepted\<rparr>"
    have i: "issue_initial_lease_and_credentials ord fresh now ?s1
        (with_fleet (\<lambda>i. update_approval_state now i (approval_as_str Accepted)) ?s1 sh) = (err, s', sh')"
      using assms ApprovalGranted False by (simp add: on_lifecycle_def Let_def)
    have "as_approval_state ?s1 = Accepted" by simp
    from initial_lease_sends [OF i this] show ?thesis using assms(2) ApprovalGranted by (auto simp: stores_ok_def)
  qed (use assms ApprovalGranted in \<open>auto simp: on_lifecycle_def\<close>)
next
  case (ApprovalRevoked reason)
  then show ?thesis
    using assms by (auto simp: on_lifecycle_def stores_ok_def Let_def split: if_splits prod.splits dest!: push_command_sends)
qed

lemma refresh_state:
  assumes "on_refresh_request now i s sh = (err, s', sh')" and "stores_ok sh"
  shows "stores_ok sh' \<and> as_approval_state s' = as_approval_state s"
  using refresh_sends [OF assms(1), of undefined] assms(2) by (auto simp: stores_ok_def)

lemma envelope_state:
  assumes "on_envelope fp pv ord fresh now sig s sh = (err, s', sh')" and "stores_ok sh"
  shows "stores_ok sh' \<and> (as_approval_state s' = Accepted \<longrightarrow> as_approval_state s = Accepted
    \<or> accepted_register fp (Incoming (Inr (Some sig))) sh)"
proof (cases "env_command (se_envelope sig) = None")
  case True
  consider (reg) a sq v pk av where "env_telemetry (se_envelope sig) = Some (Register a sq v pk av)"
    | (ref) i where "env_telemetry (se_envelope sig) = Some (LeaseRefreshRequest i)"
    | (rest) "s' = s" "cs_approvals sh' = cs_approvals sh"
    using assms(1) True by (auto simp: on_envelope_def split: option.splits telemetry_payload.splits)
  then show ?thesis
  proof cases
    case reg
    then have "on_register fp pv ord fresh now a v sq av pk s sh = (err, s', sh')"
      using assms(1) True by (simp add: on_envelope_def)
    from register_state [OF this assms(2)] reg show ?thesis by (auto simp: accepted_register_def)
  next
    case ref
    then have "on_refresh_request now i s sh = (err, s', sh')" using assms(1) True by (simp add: on_envelope_def)
    from refresh_state [OF this assms(2)] show ?thesis by auto
  qed (use assms(2) in \<open>simp add: stores_ok_def\<close>)
qed (use assms in \<open>auto simp: on_envelope_def\<close>)

lemma session_step_state:
  assumes "agent_session_step fp pv ord fresh now ev s sh = (fin, err, s', sh')" and "stores_ok sh"
  shows "stores_ok sh' \<and> (as_approval_state s' = Accepted \<longrightarrow> as_approval_state s = Accepted \<or> approving fp ev sh)"
proof (cases ev)
  case (Incoming r)
  show ?thesis
  proof (cases r)
    case (Inr o')
    show ?thesis
    proof (cases o')
      case (Some sig)
      then have "on_envelope fp pv ord fresh now sig s sh = (err, s', sh')"
        using assms(1) Incoming Inr by (simp add: agent_session_step_def)
      from envelope_state [OF this assms(2)] Incoming Inr Some show ?thesis by (auto simp: approving_def)
    qed (use assms Incoming Inr in \<open>auto simp: agent_session_step_def stores_ok_def Let_def split: option.splits\<close>)
  qed (use assms Incoming in \<open>auto simp: agent_session_step_def\<close>)
next
  case (OutboundCommand c)
  then show ?thesis
    using assms by (cases c) (auto simp: agent_session_step_def split: prod.splits dest!: push_command_sends)
next
  case (Lifecycle le)
  show ?thesis
  proof (cases le)
    case (Some l)
    then have "on_lifecycle ord fresh now l s sh = (err, s', sh')" using assms(1) Lifecycle by (simp add: agent_session_step_def)
    from lifecycle_state [OF this assms(2)] Lifecycle Some show ?thesis by (auto simp: approving_def)
  qed (use assms Lifecycle in \<open>auto simp: agent_session_step_def\<close>)
qed

lemma session_step_leases:
  assumes "agent_session_step fp pv ord fresh now ev s sh = (fin, err, s', sh')" and "stores_ok sh"
    and "\<And>c. ev = OutboundCommand (Some c) \<Longrightarrow> lease_of c = None"
  shows "\<exists>es. ep_sent (as_transport s') = ep_sent (as_transport s) @ es \<and> as_policy s' = as_policy s
    \<and> (\<forall>c \<in> set (commands_in es). \<forall>l. lease_of c = Some l \<longrightarrow>
         ll_expires_at l = now + int (lp_lease_ttl (as_policy s)) \<and> (as_approval_state s = Accepted \<or> approving fp ev sh))"
proof (cases "\<exists>c. ev = OutboundCommand (Some c)")
  case True
  then obtain c where c: "ev = OutboundCommand (Some c)" by blast
  then obtain e where "push_command now c s = (e, s')" using assms(1) by (auto simp: agent_session_step_def split: prod.splits)
  from push_command_sends [OF this] obtain es where "sends s s' es" "commands_in es = (if e = None then [c] else [])" by blast
  then show ?thesis using assms(3) [OF c] by (intro exI [of _ es]) (auto simp: sends_def)
next
  case False
  have ok: "\<And>st. cs_approvals sh = Some st \<Longrightarrow> hm_ok st" using assms(2) by (simp add: stores_ok_def)
  from session_step_sends [OF assms(1) ok] False obtain es where
    es: "ep_sent (as_transport s') = ep_sent (as_transport s) @ es" "as_policy s' = as_policy s"
      "disciplined ord now s' sh' (commands_in es)"
      "(\<exists>c \<in> set (commands_in es). lease_of c \<noteq> None \<or> secret_of c \<noteq> None) \<longrightarrow>
        accepted_register fp ev sh \<or> ev = Lifecycle (Some ApprovalGranted)
        \<or> (\<exists>sig i. ev = Incoming (Inr (Some sig)) \<and> env_telemetry (se_envelope sig) = Some (LeaseRefreshRequest i)
             \<and> as_approval_state s = Accepted)" by blast
  have "ll_expires_at l = now + int (lp_lease_ttl (as_policy s)) \<and> (as_approval_state s = Accepted \<or> approving fp ev sh)"
    if c: "c \<in> set (commands_in es)" "lease_of c = Some l" for c l
  proof -
    have "ll_expires_at l = now + int (lp_lease_ttl (as_policy s'))" using es(3) c by (simp add: disciplined_def)
    moreover have "as_approval_state s = Accepted \<or> approving fp ev sh" using es(4) c by (auto simp: approving_def)
    ultimately show ?thesis using es(2) by simp
  qed
  then show ?thesis using es(1,2) by blast
qed

subsection \<open>Invariants of the system\<close>

lemma sys_step_bound:
  assumes "sys_step fp pv env b s s'" and "leases_until (ls_now s + sys_ttl s) s"
  shows "leases_until (ls_now s' + sys_ttl s') s' \<and> ls_now s \<le> ls_now s' \<and> sys_ttl s' = sys_ttl s"
  using assms(1)
proof (rule sys_stepE)
  fix ord fresh now ev fin err sess sh
  assume st: "s' = s\<lparr>ls_now := now, ls_session := sess, ls_shared := sh\<rparr>" "ls_now s \<le> now"
    "agent_session_step fp pv ord fresh now ev (ls_session s) (ls_shared s) = (fin, err, sess, sh)"
    "\<And>c. ev = OutboundCommand (Some c) \<Longrightarrow> lease_of c = None"
  have ok: "stores_ok (ls_shared s)" using assms(2) by (simp add: leases_until_def)
  obtain es where es: "ep_sent (as_transport sess) = ep_sent (as_transport (ls_session s)) @ es"
      "as_policy sess = as_policy (ls_session s)"
      "\<And>c l. c \<in> set (commands_in es) \<Longrightarrow> lease_of c = Some l \<Longrightarrow> ll_expires_at l = now + sys_ttl s"
    using session_step_leases [OF st(3) ok st(4)] unfolding sys_ttl_def by blast
  have "leases_until (now + sys_ttl s) s" by (rule leases_until_mono [OF assms(2)]) (use st(2) in simp)
  then have "leases_until (now + sys_ttl s) s'"
    using session_step_state [OF st(3) ok] es by (auto simp: leases_until_def st(1))
  then show ?thesis using st(1,2) es(2) by (simp add: sys_ttl_def)
next
  fix sh
  assume "s' = s\<lparr>ls_shared := sh\<rparr>" "stores_ok sh"
  then show ?thesis using assms(2) by (simp add: leases_until_def sys_ttl_def)
next
  fix t inp res c w
  assume st: "s' = s\<lparr>ls_client := c, ls_world := w, ls_pump := (case res of PumpReturn _ \<Rightarrow> ls_pump s | PumpGoOn p \<Rightarrow> p)\<rparr>"
    "pump_turn env t inp (ls_pump s) (ls_client s) (ls_world s) = (res, c, w)"
    "\<And>sig later. inp = Received (Inr (Some sig)) later \<Longrightarrow> sig \<in> set (ep_sent (as_transport (ls_session s)))"
  show ?thesis using agent_leases_until [OF assms(2) st(2,3)] by (simp add: st(1) sys_ttl_def)
qed

lemma sys_reach_bound: "sys_reach fp pv env s \<Longrightarrow> leases_until (ls_now s + sys_ttl s) s"
proof (induction rule: sys_reach.induct)
  case (begins s)
  then show ?case by (simp add: sys_start_def leases_until_def)
next
  case (goes s b s')
  then show ?case using sys_step_bound by blast
qed

lemma unapproved_step:
  assumes "sys_step fp pv env False s s'" and "leases_until u s" and "as_approval_state (ls_session s) \<noteq> Accepted"
  shows "leases_until u s' \<and> as_approval_state (ls_session s') \<noteq> Accepted"
  using assms(1)
proof (rule sys_stepE)
  fix ord fresh now ev fin err sess sh
  assume st: "s' = s\<lparr>ls_now := now, ls_session := sess, ls_shared := sh\<rparr>" "False = approving fp ev (ls_shared s)"
    "agent_session_step fp pv ord fresh now ev (ls_session s) (ls_shared s) = (fin, err, sess, sh)"
    "\<And>c. ev = OutboundCommand (Some c) \<Longrightarrow> lease_of c = None"
  have ok: "stores_ok (ls_shared s)" using assms(2) by (simp add: leases_until_def)
  obtain es where es: "ep_sent (as_transport sess) = ep_sent (as_transport (ls_session s)) @ es"
      "\<And>c l. c \<in> set (commands_in es) \<Longrightarrow> lease_of c \<noteq> Some l"
    using session_step_leases [OF st(3) ok st(4)] st(2) assms(3) by blast
  then show ?thesis
    using session_step_state [OF st(3) ok] st(1,2) assms(2,3) by (auto simp: leases_until_def)
next
  fix sh
  assume "s' = s\<lparr>ls_shared := sh\<rparr>" "stores_ok sh"
  then show ?thesis using assms(2,3) by (simp add: leases_until_def)
next
  fix t inp res c w
  assume st: "s' = s\<lparr>ls_client := c, ls_world := w, ls_pump := (case res of PumpReturn _ \<Rightarrow> ls_pump s | PumpGoOn p \<Rightarrow> p)\<rparr>"
    "pump_turn env t inp (ls_pump s) (ls_client s) (ls_world s) = (res, c, w)"
    "\<And>sig later. inp = Received (Inr (Some sig)) later \<Longrightarrow> sig \<in> set (ep_sent (as_transport (ls_session s)))"
  show ?thesis using agent_leases_until [OF assms(2) st(2,3)] assms(3) by (simp add: st(1))
qed

lemma unapproved_run_bound:
  assumes "unapproved_run fp pv env s s'" and "leases_until u s" and "as_approval_state (ls_session s) \<noteq> Accepted"
  shows "leases_until u s' \<and> as_approval_state (ls_session s') \<noteq> Accepted"
  using assms by (induction rule: unapproved_run.induct) (use unapproved_step in blast)+

subsection \<open>The dead-man's switch\<close>

text \<open>
  C13: the dead-man's switch. Take any reachable state of the system in which the session is not
  accepted (the operator revoked it, or never approved it) and any continuation without an approving
  input, over a network that loses, delays, reorders and repeats messages and with an agent that
  sends whatever it likes. Then the agent is not authorised once its clock has reached the
  controller's time at that state plus the lease lifetime, whether or not the revocation arrived.
\<close>

theorem dead_man_switch:
  assumes "sys_reach fp pv env s" and "as_approval_state (ls_session s) \<noteq> Accepted"
    and "unapproved_run fp pv env s s'" and "ls_now s + sys_ttl s \<le> t"
  shows "\<not> is_authorised_at (lc_state (ls_client s')) t"
proof -
  have "leases_until (ls_now s + sys_ttl s) s'"
    using unapproved_run_bound [OF assms(3) sys_reach_bound [OF assms(1)] assms(2)] by blast
  then show ?thesis
    using assms(4) by (auto simp: leases_until_def is_authorised_at_def is_valid_at_def split: lease_state.splits)
qed

definition demo_system :: "(nat, mock_engines) lease_system" where
  "demo_system = \<lparr>ls_now = 0, ls_session = demo_agent_session, ls_shared = demo_shared Accepted, ls_pump = pump_start 0,
     ls_client = demo_client, ls_world = mock_start\<rparr>"

theorem dead_man_switch_witness:
  "\<exists>s. sys_reach (\<lambda>_. ''fp'') (\<lambda>_. None :: nat option) demo_env s \<and> as_approval_state (ls_session s) = ApprovalRevokedState
    \<and> \<not> is_authorised_at (lc_state (ls_client s)) 120050"
proof -
  let ?ev = "Lifecycle (Some (ApprovalRevoked ''bye''))" and ?fp = "\<lambda>_::string. ''fp''" and ?pv = "\<lambda>_::string. None :: nat option"
  obtain fin err sess sh where st: "agent_session_step ?fp ?pv (\<lambda>xs. xs) 7 50 ?ev (ls_session demo_system) (ls_shared demo_system)
      = (fin, err, sess, sh)" by (metis prod_cases4)
  let ?s = "demo_system\<lparr>ls_now := 50, ls_session := sess, ls_shared := sh\<rparr>"
  have start: "sys_start demo_system"
    by (auto simp: sys_start_def demo_system_def demo_agent_session_def agent_session_new_def demo_client_def lease_client_new_def
        stores_ok_def demo_shared_def hm_ok_def)
  have "sys_step ?fp ?pv demo_env (approving ?fp ?ev (ls_shared demo_system)) demo_system ?s"
    by (rule sys_step.controller [OF st]) (simp_all add: demo_system_def)
  with sys_reach.begins [OF start] have reach: "sys_reach ?fp ?pv demo_env ?s" by (rule sys_reach.goes)
  have rev: "as_approval_state sess = ApprovalRevokedState" "as_policy sess = default_lease_policy"
    using st push_command_sends
    by (auto simp: demo_system_def agent_session_step_def on_lifecycle_def demo_agent_session_def agent_session_new_def Let_def
        push_command_def split: prod.splits)
  have "\<not> is_authorised_at (lc_state (ls_client ?s)) 120050"
    by (rule dead_man_switch [OF reach _ unapproved_run.stay])
      (simp_all add: rev sys_ttl_def default_lease_policy_def from_secs_def)
  then show ?thesis using reach rev(1) by (intro exI [of _ ?s]) simp
qed

subsection \<open>A refresh round\<close>

text \<open>The last envelope an endpoint has sent.\<close>

definition last_sent :: "endpoint \<Rightarrow> signed_envelope" where
  "last_sent ep = last (ep_sent ep)"

text \<open>
  C14: a refresh extends the lease. When the refresh mark of a held lease has passed and none was
  asked for it yet, a turn of the pump sends a refresh request; a session that is accepted, holds
  the same lease and is past its rate limit answers it with the same lease running from now; and the
  turn that receives the answer installs it, so that the agent is authorised until the lifetime has
  passed again, and may ask for the next refresh.
\<close>

theorem refresh_round_extends:
  assumes "lc_current_lease c = Some l" and "is_valid_at l tA" and "refresh_deadline env l \<le> t"
    and "pu_refresh_requested_for p \<noteq> Some (ll_issued_seq l)" and "ep_fault (lc_transport c) = None"
    and "as_current_lease s = Some cur" and "ll_lease_id cur = ll_lease_id l" and "as_approval_state s = Accepted"
    and "lp_min_refresh_interval (as_policy s) \<le> nat (now - ll_issued_at cur)" and "lp_lease_ttl (as_policy s) < 2 ^ 63"
    and "ep_fault (as_transport s) = None" and "is_valid_at l tB" and "seq_next (as_cmd_seq s) \<noteq> ll_issued_seq l"
  shows "\<exists>p1 c1 s1 sh1 p2 c2 w2 l'.
      pump_turn env tA (Elapsed mono_now t) p c w = (PumpGoOn p1, c1, w)
    \<and> agent_session_step fp pv ord fresh now (Incoming (Inr (Some (last_sent (lc_transport c1))))) s sh = (False, None, s1, sh1)
    \<and> pump_turn env tB (Received (Inr (Some (last_sent (as_transport s1)))) t') p1 c1 w = (PumpGoOn p2, c2, w2)
    \<and> lc_state c2 = Held l' \<and> ll_lease_id l' = ll_lease_id l \<and> ll_expires_at l' = now + int (lp_lease_ttl (as_policy s))
    \<and> as_current_lease s1 = Some l' \<and> pu_refresh_requested_for p2 = None"
proof -
  define due where "due \<longleftrightarrow> pu_next_snapshot p \<le> mono_now"
  define c0 where "c0 = (case lc_registry c of
     Some reg \<Rightarrow> if due then send_best_effort t (DeploymentState (ae_rows env reg w)) c else c | None \<Rightarrow> c)"
  define p0 where "p0 = (if due then p\<lparr>pu_next_snapshot := mono_now + int SNAPSHOT_EVERY\<rparr> else p)"
  have c0: "lc_current_lease c0 = Some l" "ep_fault (lc_transport c0) = None"
    using assms(1,5) by (auto simp: c0_def send_best_effort_def send_telemetry_def ep_send_def Let_def split: option.split)
  define req where "req = unsigned_envelope (telemetry_envelope t (seq_next (cu_last_applied (lc_cursor c0))) (LeaseRefreshRequest (ll_lease_id l)))"
  define c1 where "c1 = c0\<lparr>lc_cursor := cursor_advance t (seq_next (cu_last_applied (lc_cursor c0))) (lc_cursor c0),
    lc_transport := (lc_transport c0)\<lparr>ep_sent := ep_sent (lc_transport c0) @ [req]\<rparr>\<rparr>"
  define p1 where "p1 = p0\<lparr>pu_refresh_requested_for := Some (ll_issued_seq l)\<rparr>"
  have rr: "request_refresh t c0 = (None, c1)"
    using c0 by (simp add: request_refresh_def send_telemetry_def ep_send_def c1_def req_def Let_def)
  have "on_elapsed env mono_now t p c w = (PumpGoOn p1, c1)"
    using assms(1,3,4) rr by (auto simp: on_elapsed_def p1_def p0_def c0_def due_def Let_def split: option.splits)
  then have turn1: "pump_turn env tA (Elapsed mono_now t) p c w = (PumpGoOn p1, c1, w)"
    using assms(1,2) by (simp add: pump_turn_def)
  have req: "last_sent (lc_transport c1) = req" by (simp add: last_sent_def c1_def)
  define l' where "l' = \<lparr>ll_lease_id = ll_lease_id cur, ll_agent_id = (case as_agent_id s of None \<Rightarrow> [] | Some a \<Rightarrow> a),
    ll_issued_at = now, ll_expires_at = now + int (lp_lease_ttl (as_policy s)), ll_issued_seq = seq_next (as_cmd_seq s)\<rparr>"
  define s0 where "s0 = s\<lparr>as_current_lease := Some l'\<rparr>"
  obtain e s1 where pc: "push_command now (LeaseRefresh l') s0 = (e, s1)" by (rule prod.exhaust)
  have s1: "e = None" "as_current_lease s1 = Some l'"
      "last_sent (as_transport s1) = unsigned_envelope (command_envelope now (seq_next (as_cmd_seq s)) (LeaseRefresh l'))"
    using pc assms(11) by (auto simp: push_command_def ep_send_def s0_def last_sent_def Let_def)
  define sh1 where "sh1 = with_fleet (\<lambda>i. update_lease now i l') s0 sh"
  have "on_refresh_request now (ll_lease_id l) s sh = (None, s1, sh1)"
    using assms(6-10) pc s1(1)
    by (simp add: on_refresh_request_def is_accepted_def issue_extended_lease_def issue_lease_def l'_def s0_def sh1_def Let_def)
  then have step: "agent_session_step fp pv ord fresh now (Incoming (Inr (Some req))) s sh = (False, None, s1, sh1)"
    by (simp add: agent_session_step_def on_envelope_def req_def unsigned_envelope_def telemetry_envelope_def)
  have c1: "lc_current_lease c1 = Some l" "ep_fault (lc_transport c1) = None" using c0 by (simp_all add: c1_def)
  define c2 where "c2 = (snd (send_telemetry t' (Ack (seq_next (as_cmd_seq s))) (install_lease l' c1)))"
  define c3 where "c3 = c2\<lparr>lc_cursor := cursor_advance t' (seq_next (as_cmd_seq s)) (lc_cursor c2)\<rparr>"
  have snd_ok: "send_telemetry t' (Ack (seq_next (as_cmd_seq s))) (install_lease l' c1) = (None, c2)"
    using c1(2) by (simp add: c2_def send_telemetry_def ep_send_def install_lease_def Let_def)
  have "on_command env t' (last_sent (as_transport s1)) c1 w = (None, c3, w)"
    using snd_ok by (simp add: s1(3) on_command_def apply_command_def unsigned_envelope_def command_envelope_def c3_def)
  moreover have l2: "lc_current_lease c3 = Some l'" "lc_state c3 = Held l'"
    using send_telemetry_fields(2,3) [OF snd_ok] by (simp_all add: c3_def install_lease_def)
  ultimately have turn2: "pump_turn env tB (Received (Inr (Some (last_sent (as_transport s1)))) t') p1 c1 w
      = (PumpGoOn (p1\<lparr>pu_refresh_requested_for := None\<rparr>), c3, w)"
    using c1(1) assms(12,13) by (simp add: pump_turn_def on_received_def l'_def)
  show ?thesis
    using turn1 step [folded req] turn2 l2(2) s1(2) assms(7)
    by (intro exI [of _ p1] exI [of _ c1] exI [of _ s1] exI [of _ sh1] exI [of _ "p1\<lparr>pu_refresh_requested_for := None\<rparr>"]
        exI [of _ c3] exI [of _ w] exI [of _ l']) (simp add: l'_def)
qed

definition held_client :: lease_client where
  "held_client = install_lease client_lease demo_client"

definition held_session :: "nat agent_session" where
  "held_session = demo_agent_session\<lparr>as_current_lease := Some client_lease, as_cmd_seq := 3, as_agent_id := Some ''a''\<rparr>"

theorem refresh_round_extends_witness:
  "\<exists>p1 c1 s1 sh1 p2 c2 w2 l'.
      pump_turn demo_env 800 (Elapsed 0 900) (pump_start 0) held_client mock_start = (PumpGoOn p1, c1, mock_start)
    \<and> agent_session_step (\<lambda>_. ''fp'') (\<lambda>_. None) (\<lambda>xs. xs) 9 3000 (Incoming (Inr (Some (last_sent (lc_transport c1)))))
        held_session (demo_shared Accepted) = (False, None, s1, sh1)
    \<and> pump_turn demo_env 950 (Received (Inr (Some (last_sent (as_transport s1)))) 950) p1 c1 mock_start = (PumpGoOn p2, c2, w2)
    \<and> lc_state c2 = Held l' \<and> ll_expires_at l' = 123000"
proof -
  have d: "refresh_deadline demo_env client_lease \<le> 900"
    by (simp add: refresh_deadline_def demo_env_def client_lease_def)
  have v: "is_valid_at client_lease 800" "is_valid_at client_lease 950" by (simp_all add: is_valid_at_def client_lease_def)
  have s: "as_current_lease held_session = Some client_lease" "as_approval_state held_session = Accepted"
    "lp_min_refresh_interval (as_policy held_session) \<le> nat (3000 - ll_issued_at client_lease)"
    "lp_lease_ttl (as_policy held_session) < 2 ^ 63" "ep_fault (as_transport held_session) = None"
    by (simp_all add: held_session_def demo_agent_session_def agent_session_new_def default_lease_policy_def from_secs_def client_lease_def)
  have n: "seq_next (as_cmd_seq held_session) \<noteq> ll_issued_seq client_lease"
    by (simp add: seq_next_def sat_add_def held_session_def client_lease_def)
  have c: "lc_current_lease held_client = Some client_lease" "ep_fault (lc_transport held_client) = None"
    by (simp_all add: held_client_def install_lease_def demo_client_def lease_client_new_def)
  have p: "pu_refresh_requested_for (pump_start 0) \<noteq> Some (ll_issued_seq client_lease)" by (simp add: pump_start_def)
  have ttl: "int (lp_lease_ttl (as_policy held_session)) = 120000"
    by (simp add: held_session_def demo_agent_session_def agent_session_new_def default_lease_policy_def from_secs_def)
  from refresh_round_extends [OF c(1) v(1) d p c(2) s(1) refl s(2,3,4,5) v(2) n, where fp = "\<lambda>_. ''fp''" and pv = "\<lambda>_. None"
      and ord = "\<lambda>xs. xs" and fresh = 9 and mono_now = 0 and w = mock_start and sh = "demo_shared Accepted" and t' = 950]
  obtain p1 c1 s1 sh1 p2 c2 w2 l' where
    "pump_turn demo_env 800 (Elapsed 0 900) (pump_start 0) held_client mock_start = (PumpGoOn p1, c1, mock_start)"
    "agent_session_step (\<lambda>_. ''fp'') (\<lambda>_. None) (\<lambda>xs. xs) 9 3000 (Incoming (Inr (Some (last_sent (lc_transport c1)))))
        held_session (demo_shared Accepted) = (False, None, s1, sh1)"
    "pump_turn demo_env 950 (Received (Inr (Some (last_sent (as_transport s1)))) 950) p1 c1 mock_start = (PumpGoOn p2, c2, w2)"
    "lc_state c2 = Held l'" "ll_expires_at l' = 3000 + 120000" unfolding ttl by blast
  then show ?thesis unfolding numeral_plus_numeral [symmetric] by (intro exI conjI) simp_all
qed

text \<open>
  A rate-limited refresh is never made good. The controller ignores a refresh that comes sooner
  than its rate limit, sends nothing and counts on the next one; but the client does not ask again
  for the lease it has asked for. So after such a request, while nothing else arrives, no refresh
  request is sent, and the only way the pump ends is the expiry of the lease.
\<close>

theorem rate_limited_refresh_lost:
  assumes "as_current_lease s = Some cur" and "ll_lease_id cur = i" and "as_approval_state s = Accepted"
    and "nat (now - ll_issued_at cur) < lp_min_refresh_interval (as_policy s)"
    and "lc_current_lease c = Some l" and "pu_refresh_requested_for p = Some (ll_issued_seq l)"
    and "\<And>t. t \<in> set turns \<Longrightarrow> \<exists>mono_now later. snd t = Elapsed mono_now later"
    and "pump_run env turns p c w = (r, p', c', w')"
  shows "on_refresh_request now i s sh = (None, s, sh)
    \<and> filter is_refresh_request (sent_by c') = filter is_refresh_request (sent_by c)
    \<and> (r = None \<or> r = Some (Some (AuthorityLost ''lease expired'')))"
  using unanswered_refresh_not_repeated [OF assms(5-8)] assms(1-4)
  by (simp add: on_refresh_request_def is_accepted_def)

theorem rate_limited_refresh_lost_witness:
  "on_refresh_request 2000 1 held_session (demo_shared Accepted) = (None, held_session, demo_shared Accepted)
   \<and> filter is_refresh_request (sent_by (fst (snd (snd (pump_run demo_env [(400, Elapsed 400 400), (1000, Elapsed 1000 1000)]
       ((pump_start 0)\<lparr>pu_refresh_requested_for := Some 1\<rparr>) held_client mock_start))))) = []"
proof -
  let ?p = "(pump_start 0)\<lparr>pu_refresh_requested_for := Some 1\<rparr>" and ?turns = "[(400, Elapsed 400 400), (1000, Elapsed 1000 1000)]"
  obtain r p' c' w' where run: "pump_run demo_env ?turns ?p held_client mock_start = (r, p', c', w')" by (rule prod_cases4)
  have s: "as_current_lease held_session = Some client_lease" "ll_lease_id client_lease = 1"
    "as_approval_state held_session = Accepted"
    "nat (2000 - ll_issued_at client_lease) < lp_min_refresh_interval (as_policy held_session)"
    by (simp_all add: held_session_def demo_agent_session_def agent_session_new_def default_lease_policy_def from_secs_def client_lease_def)
  have c: "lc_current_lease held_client = Some client_lease" by (simp add: held_client_def install_lease_def)
  have p: "pu_refresh_requested_for ?p = Some (ll_issued_seq client_lease)" by (simp add: client_lease_def)
  have e: "\<exists>mono_now later. snd t = Elapsed mono_now later" if "t \<in> set ?turns" for t using that by auto
  have none: "filter is_refresh_request (sent_by held_client) = []"
    by (simp add: sent_by_def held_client_def install_lease_def demo_client_def lease_client_new_def)
  show ?thesis
    unfolding run fst_conv snd_conv using rate_limited_refresh_lost [where sh = "demo_shared Accepted", OF s c p e run] none by simp
qed

end
