(* ===== verification/Engine_Factory.thy ===== *)
theory Engine_Factory
  imports Credential_Catalog Strategy_Registry Book_Keeper
begin

section \<open>Starting an engine, and the observing runner\<close>

text \<open>
  \<^verbatim>\<open>crates/agent/src/engine_runner.rs\<close>: what \<^verbatim>\<open>RealEngineFactory\<close> starts for a wanted deployment, and the
  \<^verbatim>\<open>SubscribeOnlyRunner\<close> that walks the fail ladder once authority is lost.

  \<^item> \<open>plan_engine\<close> is the decision of \<^verbatim>\<open>spawn\<close>: an empty task, the observing runner or the market maker
    with its connectors. \<open>real_host\<close> turns it into the engine host the registry uses: an empty task
    ends at once, so it is never alive. Aborting an engine tells it to stop; it leaves \<open>at_live\<close> when
    it next waits for something, the step \<open>task_awaits\<close>.
  \<^item> The application configuration (\<^verbatim>\<open>app_config.rs\<close>, file parsing) is the argument \<open>build_config\<close>.
  \<^item> A turn of the runner's loop is a function of the event its select picked and of the times when it
    was picked and when the next turn starts. Each turn sets up the timer of the next rung anew; \<open>may_pick\<close> says
    which branches can be picked at which time, and \<open>runner_run\<close> is the sequences of turns.
  \<^item> The loop that drains the walker reads the clock on every iteration and is a partial function, proved
    to return.
\<close>

subsection \<open>Trimming\<close>

text \<open>The length in bytes of the white space character a text starts with, 0 if it starts with none;
  with \<open>rear\<close>, of the one a reversed text ends with.\<close>

definition ws3 :: "nat \<Rightarrow> nat \<Rightarrow> nat \<Rightarrow> bool" where
  "ws3 n m k \<longleftrightarrow> (n = 0xE1 \<and> m = 0x9A \<and> k = 0x80)
     \<or> (n = 0xE2 \<and> m = 0x80 \<and> (0x80 \<le> k \<and> k \<le> 0x8A \<or> k = 0xA8 \<or> k = 0xA9 \<or> k = 0xAF))
     \<or> (n = 0xE2 \<and> m = 0x81 \<and> k = 0x9F) \<or> (n = 0xE3 \<and> m = 0x80 \<and> k = 0x80)"

definition ws_length :: "bool \<Rightarrow> string \<Rightarrow> nat" where
  "ws_length rear s =
     (let b = (\<lambda>i. of_char (s ! i) :: nat)
      in if s \<noteq> [] \<and> (9 \<le> b 0 \<and> b 0 \<le> 13 \<or> b 0 = 32) then 1
         else if 2 \<le> length s \<and> (let (x, y) = (if rear then (b 1, b 0) else (b 0, b 1)) in x = 0xC2 \<and> (y = 0x85 \<or> y = 0xA0)) then 2
         else if 3 \<le> length s \<and> (if rear then ws3 (b 2) (b 1) (b 0) else ws3 (b 0) (b 1) (b 2)) then 3
         else 0)"

lemma ws_length_le: "ws_length rear s \<le> length s"
  by (cases s) (auto simp: ws_length_def Let_def)

function strip :: "bool \<Rightarrow> string \<Rightarrow> string" where
  "strip rear s = (if ws_length rear s = 0 then s else strip rear (drop (ws_length rear s) s))"
  by pat_completeness auto
termination
proof (relation "measure (\<lambda>(_, s). length s)")
  fix rear s
  assume "ws_length rear s \<noteq> 0"
  then show "((rear, drop (ws_length rear s) s), rear, s) \<in> measure (\<lambda>(_, s). length s)"
    using ws_length_le [of rear s] by simp
qed simp

declare strip.simps [simp del]

definition trim :: "string \<Rightarrow> string" where
  "trim s = rev (strip True (rev (strip False s)))"

subsection \<open>The decision\<close>

record real_engine_factory =
  rf_authority :: bool
  rf_trading_enabled :: bool

record 'c quoting_plan =
  qp_config :: 'c
  qp_connector :: venue_connector
  qp_hedge :: "venue_connector option"
  qp_extras :: "venue_connector list"
  qp_client_id :: "string option"

datatype 'c engine_plan =
    NoOp
  | Observe venue_connector "fail_ladder option"
  | Quote "'c quoting_plan"

definition variable_credential :: "desired_strategy \<Rightarrow> string \<Rightarrow> string option" where
  "variable_credential d key =
     Option.bind (Option.bind (bt_get (ds_variables d) key) as_str) (\<lambda>s. if trim s = [] then None else Some (trim s))"

definition primary_id :: "desired_strategy \<Rightarrow> string" where
  "primary_id d =
     (case variable_credential d ''primary_credential'' of
        Some i \<Rightarrow> i
      | None \<Rightarrow> (case ds_credentials d of [] \<Rightarrow> [] | i # _ \<Rightarrow> i))"

definition extras_ids :: "desired_strategy \<Rightarrow> string list" where
  "extras_ids d =
     (case bt_get (ds_variables d) ''extras_credentials'' of
        Some (JArray vs) \<Rightarrow> List.map_filter as_str vs
      | _ \<Rightarrow> [])"

definition client_id_of :: "desired_strategy \<Rightarrow> string option" where
  "client_id_of d =
     Option.bind (Option.bind (bt_get (ds_variables d) ''client_id'') as_str) (\<lambda>s. if s = [] then None else Some s)"

text \<open>Resolving the extras, or building their connectors, up to the first failure.\<close>

fun all_ok :: "('a \<Rightarrow> 'e + 'b) \<Rightarrow> 'a list \<Rightarrow> 'b list option" where
  "all_ok f [] = Some []"
| "all_ok f (x # xs) =
     (case f x of Inl _ \<Rightarrow> None | Inr y \<Rightarrow> map_option ((#) y) (all_ok f xs))"

type_synonym 'c config_builder =
  "desired_strategy \<Rightarrow> resolved_credential \<Rightarrow> resolved_credential option \<Rightarrow> resolved_credential list \<Rightarrow> string + 'c"

definition quoting_engine ::
  "(string \<Rightarrow> string option) \<Rightarrow> 'c config_builder \<Rightarrow> catalog \<Rightarrow> desired_strategy \<Rightarrow> resolved_credential \<Rightarrow> venue_connector
    \<Rightarrow> 'c engine_plan" where
  "quoting_engine key_error build_config cat d primary connector =
     (let find_cred = (\<lambda>i. resolve_for cat i (ds_credentials d))
      in case map_option find_cred (variable_credential d ''hedge_credential'') of
           Some (Inl _) \<Rightarrow> NoOp
         | hedge_res \<Rightarrow>
             let hedge = (case hedge_res of Some (Inr h) \<Rightarrow> Some h | _ \<Rightarrow> None)
             in case all_ok find_cred (extras_ids d) of
                  None \<Rightarrow> NoOp
                | Some extras \<Rightarrow>
                    (case build_config d primary hedge extras of
                       Inl _ \<Rightarrow> NoOp
                     | Inr config \<Rightarrow>
                         (case map_option (build_connector key_error) hedge of
                            Some (Inl _) \<Rightarrow> NoOp
                          | hedge_conn \<Rightarrow>
                              (case all_ok (build_connector key_error) extras of
                                 None \<Rightarrow> NoOp
                               | Some extra_conns \<Rightarrow>
                                   Quote \<lparr>qp_config = config, qp_connector = connector,
                                     qp_hedge = (case hedge_conn of Some (Inr h) \<Rightarrow> Some h | _ \<Rightarrow> None),
                                     qp_extras = extra_conns, qp_client_id = client_id_of d\<rparr>))))"

definition ladder_for :: "desired_strategy \<Rightarrow> fail_ladder option" where
  "ladder_for d = (case ds_fail_ladder_override d of Some l \<Rightarrow> Some l | None \<Rightarrow> default_for Maker)"

definition plan_engine ::
  "(string \<Rightarrow> string option) \<Rightarrow> 'c config_builder \<Rightarrow> real_engine_factory \<Rightarrow> catalog \<Rightarrow> desired_strategy \<Rightarrow> 'c engine_plan" where
  "plan_engine key_error build_config fac cat d =
     (if primary_id d = [] then NoOp
      else case resolve_for cat (primary_id d) (ds_credentials d) of
        Inl _ \<Rightarrow> NoOp
      | Inr primary \<Rightarrow>
          (case build_connector key_error primary of
             Inl _ \<Rightarrow> NoOp
           | Inr connector \<Rightarrow>
               if rf_trading_enabled fac then quoting_engine key_error build_config cat d primary connector
               else Observe connector (ladder_for d)))"

subsection \<open>The engine host of the agent\<close>

record 'c agent_tasks =
  at_catalog :: catalog
  at_next :: nat
  at_live :: "(nat \<times> 'c engine_plan) list"
  at_stopping :: "nat list"
  at_sent :: "(nat \<times> config_override) list"

definition real_host ::
  "(string \<Rightarrow> string option) \<Rightarrow> 'c config_builder \<Rightarrow> real_engine_factory \<Rightarrow> 'c agent_tasks engine_host" where
  "real_host key_error build_config fac =
     \<lparr>eh_spawn = (\<lambda>d w.
        let h = at_next w; plan = plan_engine key_error build_config fac (at_catalog w) d
        in (\<lparr>sp_handle = h, sp_label = ds_template d @ ''/'' @ ds_symbol d @ ''@'' @ ds_deployment_id d,
             sp_override_tx = (case plan of Quote _ \<Rightarrow> Some h | _ \<Rightarrow> None)\<rparr>,
            w\<lparr>at_next := Suc h, at_live := (if plan = NoOp then at_live w else (h, plan) # at_live w)\<rparr>)),
      eh_abort = (\<lambda>h w. w\<lparr>at_stopping := h # at_stopping w\<rparr>),
      eh_send = (\<lambda>tx ovr w.
        if tx \<in> fst ` set (at_live w) then (True, w\<lparr>at_sent := at_sent w @ [(tx, ovr)]\<rparr>) else (False, w)),
      eh_finished = (\<lambda>h w. h \<notin> fst ` set (at_live w))\<rparr>"

interpretation real_hosting: engine_hosting "real_host key_error build_config fac"
    "\<lambda>w. fst ` set (at_live w)" "\<lambda>w. set (at_stopping w)" "\<lambda>w. {..<at_next w}"
  by unfold_locales (auto simp: real_host_def Let_def split: if_splits)

text \<open>An engine that waits for something: it ends there if it was told to stop.\<close>

definition task_awaits :: "nat \<Rightarrow> 'c agent_tasks \<Rightarrow> 'c agent_tasks" where
  "task_awaits h w =
     (if h \<in> set (at_stopping w) then w\<lparr>at_live := filter (\<lambda>(i, _). i \<noteq> h) (at_live w)\<rparr> else w)"

lemma stopped_engines_end:
  assumes "fst ` set (at_live w) \<subseteq> set (at_stopping w)" and "fst ` set (at_live w) \<subseteq> set hs"
  shows "at_live (fold task_awaits hs w) = []"
proof -
  have "at_stopping (fold task_awaits hs w) = at_stopping w
      \<and> at_live (fold task_awaits hs w) = filter (\<lambda>(i, _). i \<notin> set hs \<or> i \<notin> set (at_stopping w)) (at_live w)" for hs
  proof (induction hs arbitrary: w)
    case (Cons h hs)
    show ?case using Cons.IH [of "task_awaits h w"] by (auto simp: task_awaits_def intro: filter_cong)
  qed simp
  then show ?thesis using assms by (force simp: filter_empty_conv)
qed

lemma all_ok_iff: "all_ok f xs = Some ys \<longleftrightarrow> map f xs = map Inr ys"
proof (induction xs arbitrary: ys)
  case (Cons x xs)
  then show ?case by (cases ys) (auto split: sum.split)
qed auto

subsection \<open>What an engine may touch\<close>

fun connectors_of :: "'c engine_plan \<Rightarrow> venue_connector list" where
  "connectors_of NoOp = []"
| "connectors_of (Observe k _) = [k]"
| "connectors_of (Quote q) = qp_connector q # (case qp_hedge q of None \<Rightarrow> [] | Some h \<Rightarrow> [h]) @ qp_extras q"

definition permitted :: "(string \<Rightarrow> string option) \<Rightarrow> catalog \<Rightarrow> desired_strategy \<Rightarrow> venue_connector \<Rightarrow> bool" where
  "permitted key_error cat d k \<longleftrightarrow>
     (\<exists>i r. i \<in> set (ds_credentials d) \<and> hm_get cat i = Some r \<and> build_connector key_error r = Inr k)"

lemma permittedI:
  "resolve_for cat i (ds_credentials d) = Inr r \<Longrightarrow> build_connector key_error r = Inr k \<Longrightarrow> permitted key_error cat d k"
  unfolding permitted_def resolve_for_Inr by blast

lemma all_ok_permitted:
  assumes "all_ok (\<lambda>i. resolve_for cat i (ds_credentials d)) is = Some rs"
    and "all_ok (build_connector key_error) rs = Some ks" and "k \<in> set ks"
  shows "permitted key_error cat d k"
proof -
  from assms(2,3) obtain r where r: "r \<in> set rs" "build_connector key_error r = Inr k"
    unfolding all_ok_iff by (metis (no_types, lifting) in_set_conv_nth length_map nth_map nth_mem)
  from assms(1) r(1) obtain i where "resolve_for cat i (ds_credentials d) = Inr r"
    unfolding all_ok_iff by (metis (no_types, lifting) in_set_conv_nth length_map nth_map nth_mem)
  then show ?thesis using r(2) by (rule permittedI)
qed

lemma quoting_engine_cases:
  assumes "quoting_engine key_error build_config cat d primary connector = plan" and "plan \<noteq> NoOp"
  obtains q rs where "plan = Quote q" and "qp_connector q = connector"
    and "all_ok (\<lambda>i. resolve_for cat i (ds_credentials d)) (extras_ids d) = Some rs"
    and "all_ok (build_connector key_error) rs = Some (qp_extras q)"
    and "(case variable_credential d ''hedge_credential'' of
            None \<Rightarrow> qp_hedge q = None
          | Some i \<Rightarrow> \<exists>r k. resolve_for cat i (ds_credentials d) = Inr r \<and> build_connector key_error r = Inr k \<and> qp_hedge q = Some k)"
  using assms
  by (cases "variable_credential d ''hedge_credential''")
    (auto simp: quoting_engine_def Let_def split: sum.splits option.splits)

lemma plan_engine_cases:
  assumes "plan_engine key_error build_config fac cat d = plan" and "plan \<noteq> NoOp"
  obtains r k where "resolve_for cat (primary_id d) (ds_credentials d) = Inr r" and "build_connector key_error r = Inr k"
    and "plan = (if rf_trading_enabled fac then quoting_engine key_error build_config cat d r k else Observe k (ladder_for d))"
  using assms by (auto simp: plan_engine_def split: sum.splits if_splits)

subsection \<open>Properties of the factory\<close>

text \<open>
  An engine touches only the credentials of its deployment. Every connector an engine is started
  with was built from a credential that the controller pushed to this agent and that the deployment
  lists; and a quoting engine has its complete set: the hedge connector exactly when the deployment
  names a hedge credential and one connector for each extra it names. When any of them is missing,
  unlisted or refused, the engine is an empty task and not a partial one.
\<close>

theorem engine_uses_listed_credentials:
  assumes "plan_engine key_error build_config fac cat d = plan"
  shows "(\<forall>k \<in> set (connectors_of plan). permitted key_error cat d k)
    \<and> (\<forall>q. plan = Quote q \<longrightarrow> rf_trading_enabled fac \<and> length (qp_extras q) = length (extras_ids d)
          \<and> (qp_hedge q = None \<longleftrightarrow> variable_credential d ''hedge_credential'' = None))"
proof (cases "plan = NoOp")
  case False
  then obtain r k where rk: "resolve_for cat (primary_id d) (ds_credentials d) = Inr r" "build_connector key_error r = Inr k"
    "plan = (if rf_trading_enabled fac then quoting_engine key_error build_config cat d r k else Observe k (ladder_for d))"
    using plan_engine_cases [OF assms] by metis
  note prim = permittedI [OF rk(1,2)]
  show ?thesis
  proof (cases "rf_trading_enabled fac")
    case True
    then have "quoting_engine key_error build_config cat d r k = plan" using rk(3) by simp
    from this False obtain q rs where q: "plan = Quote q" "qp_connector q = k"
      "all_ok (\<lambda>i. resolve_for cat i (ds_credentials d)) (extras_ids d) = Some rs"
      "all_ok (build_connector key_error) rs = Some (qp_extras q)"
      "(case variable_credential d ''hedge_credential'' of
            None \<Rightarrow> qp_hedge q = None
          | Some i \<Rightarrow> \<exists>r k. resolve_for cat i (ds_credentials d) = Inr r \<and> build_connector key_error r = Inr k \<and> qp_hedge q = Some k)"
      by (rule quoting_engine_cases)
    have hedge: "permitted key_error cat d h" if "qp_hedge q = Some h" for h
      using q(5) that permittedI by (cases "variable_credential d ''hedge_credential''") auto
    have "length (qp_extras q) = length (extras_ids d)"
      using q(3,4) unfolding all_ok_iff by (metis length_map)
    then show ?thesis
      using q prim hedge all_ok_permitted [OF q(3,4)] True by (auto split: option.splits)
  qed (use rk(3) prim in simp)
qed simp

definition demo_keys :: catalog where
  "demo_keys = [(''c'', \<lparr>rc_id = ''c'', rc_exchange = ExBybit, rc_product = ProdSpot, rc_api_key = ''k'',
     rc_api_secret = ''s'', rc_max_notional_quote = None, rc_default_symbol = None\<rparr>)]"

definition demo_deployment :: "string list \<Rightarrow> desired_strategy" where
  "demo_deployment credentials = (demo_desired ''a'' ''BTC'')\<lparr>ds_credentials := credentials\<rparr>"

theorem engine_uses_listed_credentials_witness:
  "\<forall>k \<in> set (connectors_of (plan_engine (\<lambda>_. None) (\<lambda>_ _ _ _. Inr ())
        \<lparr>rf_authority = True, rf_trading_enabled = False\<rparr> demo_keys (demo_deployment [''c'']))).
      permitted (\<lambda>_. None) demo_keys (demo_deployment [''c'']) k"
  using engine_uses_listed_credentials [OF refl, where fac = "\<lparr>rf_authority = True, rf_trading_enabled = False\<rparr>"
    and key_error = "\<lambda>_. None" and build_config = "\<lambda>_ _ _ _. Inr ()" and cat = demo_keys and d = "demo_deployment [''c'']"]
  by blast

lemma demo_plan_runs:
  "connectors_of (plan_engine (\<lambda>_. None) (\<lambda>_ _ _ _. Inr ()) \<lparr>rf_authority = True, rf_trading_enabled = False\<rparr>
     demo_keys (demo_deployment [''c''])) \<noteq> []"
  by (simp add: plan_engine_def primary_id_def variable_credential_def demo_deployment_def demo_desired_def demo_keys_def
      resolve_for_def resolve_def hm_get_def build_connector_def Let_def bt_get_def)

subsection \<open>The observing runner\<close>

definition classify_transition :: "timestamp \<Rightarrow> lease_state \<Rightarrow> fail_ladder \<Rightarrow> fail_ladder_walker option" where
  "classify_transition now st l =
     (case st of
        Held _ \<Rightarrow> None
      | Unclaimed \<Rightarrow> None
      | Expired _ \<Rightarrow> Some (walker_start l now)
      | Revoked _ _ \<Rightarrow> Some (walker_start l now))"

definition next_rung_sleep :: "fail_ladder_walker \<Rightarrow> nat option option" where
  "next_rung_sleep w = map_option (map_option (\<lambda>t. min t (from_secs 30))) (next_rung_at w)"

record runner_state =
  rn_walker :: "fail_ladder_walker option"
  rn_latest_mid :: "decimal option"
  rn_turn_at :: timestamp
  rn_next_log :: timestamp

text \<open>The log ticker is set up, and its first tick taken, at \<open>primed\<close>; the first turn starts at \<open>now\<close>.\<close>

definition runner_init :: "nat \<Rightarrow> timestamp \<Rightarrow> timestamp \<Rightarrow> lease_state option \<Rightarrow> fail_ladder \<Rightarrow> runner_state" where
  "runner_init interval primed now authority l =
     \<lparr>rn_walker = Option.bind authority (\<lambda>st. classify_transition now st l), rn_latest_mid = None,
      rn_turn_at = now, rn_next_log = primed + int interval\<rparr>"

text \<open>The delay of the rung timer a turn sets up; \<open>None\<close> is a panic.\<close>

definition rung_delay :: "nat \<Rightarrow> runner_state \<Rightarrow> nat option" where
  "rung_delay interval st =
     (case rn_walker st of
        None \<Rightarrow> Some interval
      | Some w \<Rightarrow> map_option (\<lambda>d. case d of None \<Rightarrow> interval | Some t \<Rightarrow> t) (next_rung_sleep w))"

definition runner_on_event :: "(decimal \<Rightarrow> decimal \<Rightarrow> decimal) \<Rightarrow> market_event \<Rightarrow> decimal option \<Rightarrow> decimal option" where
  "runner_on_event ddiv ev latest =
     (let mid = (\<lambda>bids asks. case (bids, asks) of
                   (b # _, a # _) \<Rightarrow> if 0 < pl_price b \<and> 0 < pl_price a then Some (ddiv (pl_price b + pl_price a) 2) else latest
                 | _ \<Rightarrow> latest)
      in case ev of
           BookSnapshot _ _ bids asks _ \<Rightarrow> mid bids asks
         | BookDelta _ _ bids asks _ \<Rightarrow> mid bids asks
         | _ \<Rightarrow> latest)"

text \<open>
  Draining the walker: each iteration polls at the clock's next reading. \<open>None\<close> is a loop that does
  not return, \<open>Some None\<close> a panic.
\<close>

partial_function (option) drain ::
  "(nat \<Rightarrow> timestamp) \<Rightarrow> nat \<Rightarrow> fail_ladder_walker \<Rightarrow> (fail_action list \<times> fail_ladder_walker) option option" where
  "drain clock n w =
     (case poll_at w (clock n) of
        None \<Rightarrow> Some None
      | Some (None, w') \<Rightarrow> Some (Some ([], w'))
      | Some (Some a, w') \<Rightarrow>
          Option.bind (drain clock (Suc n) w') (\<lambda>r. Some (map_option (map_prod ((#) a) id) r)))"

datatype runner_event =
    MarketEvent "market_event option"
  | LogTick
  | RungTick "nat \<Rightarrow> timestamp"
  | AuthorityChanged "lease_state option"

datatype runner_outcome = TurnExit | TurnContinue runner_state | TurnPanic | TurnStuck

text \<open>One turn: its select picked the event at \<open>now\<close>, and the next turn starts at \<open>later\<close>.\<close>

definition runner_turn ::
  "nat \<Rightarrow> (decimal \<Rightarrow> decimal \<Rightarrow> decimal) \<Rightarrow> fail_ladder \<Rightarrow> runner_event \<Rightarrow> timestamp \<Rightarrow> timestamp \<Rightarrow> runner_state
    \<Rightarrow> runner_outcome" where
  "runner_turn interval ddiv l ev now later st =
     (let st1 = st\<lparr>rn_turn_at := later\<rparr>
      in if (case rn_walker st of Some w \<Rightarrow> is_complete w | None \<Rightarrow> False) then TurnExit
      else if rung_delay interval st = None then TurnPanic
      else case ev of
        MarketEvent None \<Rightarrow> TurnExit
      | MarketEvent (Some e) \<Rightarrow> TurnContinue (st1\<lparr>rn_latest_mid := runner_on_event ddiv e (rn_latest_mid st)\<rparr>)
      | LogTick \<Rightarrow> TurnContinue (st1\<lparr>rn_next_log := rn_next_log st + int interval\<rparr>)
      | RungTick clock \<Rightarrow>
          (case rn_walker st of
             None \<Rightarrow> TurnContinue st1
           | Some w \<Rightarrow>
               (case drain clock 0 w of
                  None \<Rightarrow> TurnStuck
                | Some None \<Rightarrow> TurnPanic
                | Some (Some (_, w')) \<Rightarrow> TurnContinue (st1\<lparr>rn_walker := Some w'\<rparr>)))
      | AuthorityChanged changed \<Rightarrow>
          (case (rn_walker st, changed) of
             (None, Some s) \<Rightarrow>
               (case classify_transition now s l of
                  None \<Rightarrow> TurnContinue st1
                | Some w \<Rightarrow> TurnContinue (st1\<lparr>rn_walker := Some w\<rparr>))
           | _ \<Rightarrow> TurnContinue st1))"

text \<open>
  When a branch can be picked. The log ticker is ready from its deadline on, the rung timer once its
  delay has passed since the turn started, the other branches at any time if they are enabled. The task is
  late by at most \<open>lat\<close>: it picks a branch at most that long after the log ticker, or the turn, made it runnable.
\<close>

definition may_pick :: "nat \<Rightarrow> nat \<Rightarrow> runner_event \<Rightarrow> timestamp \<Rightarrow> timestamp \<Rightarrow> runner_state \<Rightarrow> bool" where
  "may_pick interval lat ev now later st \<longleftrightarrow>
     rn_turn_at st \<le> now \<and> now \<le> later \<and> now \<le> max (rn_turn_at st) (rn_next_log st) + int lat
     \<and> (case ev of
          MarketEvent _ \<Rightarrow> True
        | LogTick \<Rightarrow> rn_next_log st \<le> now
        | RungTick clock \<Rightarrow> rn_walker st \<noteq> None
            \<and> (case rung_delay interval st of None \<Rightarrow> False | Some d \<Rightarrow> rn_turn_at st + int d \<le> now)
        | AuthorityChanged _ \<Rightarrow> rn_walker st = None)"

inductive runner_run ::
  "nat \<Rightarrow> nat \<Rightarrow> (decimal \<Rightarrow> decimal \<Rightarrow> decimal) \<Rightarrow> fail_ladder \<Rightarrow> runner_state \<Rightarrow> runner_state \<Rightarrow> bool"
  for interval lat ddiv l st where
  started: "runner_run interval lat ddiv l st st"
| turned: "runner_run interval lat ddiv l st st1 \<Longrightarrow> may_pick interval lat ev now later st1
    \<Longrightarrow> runner_turn interval ddiv l ev now later st1 = TurnContinue st2 \<Longrightarrow> runner_run interval lat ddiv l st st2"

subsection \<open>Draining returns\<close>

lemma drain_returns:
  assumes "walker_ok w k" and "mono clock" and "k \<le> due w (clock n)"
  shows "\<exists>acts w' m. drain clock n w = Some (Some (acts, w')) \<and> n \<le> m \<and> walker_ok w' (due w (clock m))
    \<and> length acts + k \<le> due w (clock m) \<and> fw_ladder w' = fw_ladder w \<and> fw_entered_at w' = fw_entered_at w"
  using assms
proof (induction "length (fl_rungs (fw_ladder w)) - k" arbitrary: w k n rule: less_induct)
  case less
  let ?c = "due w (clock n)"
  obtain w1 where p: "poll_at w (clock n) = Some (if k = ?c then None else Some (act_of (fl_rungs (fw_ladder w)) (?c - 1)), w1)"
    "walker_ok w1 ?c" "fw_ladder w1 = fw_ladder w" "fw_entered_at w1 = fw_entered_at w"
    using poll_at_ok [OF less.prems(1,3)] by blast
  have due1: "due w1 = due w" using p(3,4) by (simp add: due_def silence_at_def fun_eq_iff)
  show ?case
  proof (cases "k = ?c")
    case True
    have "drain clock n w = Some (Some ([], w1))" using p(1) True by (subst drain.simps) simp
    then show ?thesis using p True by (intro exI [of _ "[]"] exI [of _ w1] exI [of _ n]) simp
  next
    case False
    have lt: "k < ?c" using False less.prems(3) by simp
    moreover have "?c \<le> length (fl_rungs (fw_ladder w))" by (simp add: due_def crossed_le)
    ultimately have dec: "length (fl_rungs (fw_ladder w1)) - ?c < length (fl_rungs (fw_ladder w)) - k"
      unfolding p(3) by linarith
    have "?c \<le> due w1 (clock (Suc n))"
      unfolding due1 by (intro due_mono monoD [OF less.prems(2)]) simp
    from less.hyps [OF dec p(2) less.prems(2) this] obtain acts w2 m where
      r: "drain clock (Suc n) w1 = Some (Some (acts, w2))" "Suc n \<le> m" "walker_ok w2 (due w (clock m))"
        "length acts + ?c \<le> due w (clock m)" "fw_ladder w2 = fw_ladder w" "fw_entered_at w2 = fw_entered_at w"
      unfolding due1 p(3,4) by blast
    have "drain clock n w = Some (Some (act_of (fl_rungs (fw_ladder w)) (?c - 1) # acts, w2))"
      using p(1) False r(1) by (subst drain.simps) simp
    moreover have "n \<le> m" using r(2) by simp
    moreover have "length (act_of (fl_rungs (fw_ladder w)) (?c - 1) # acts) + k \<le> due w (clock m)"
      using r(4) lt by simp
    ultimately show ?thesis using r(3,5,6) by blast
  qed
qed

lemma from_rungs_Inr:
  assumes "from_rungs rungs = Inr l"
  shows "l = \<lparr>fl_rungs = rungs\<rparr>" and "rungs \<noteq> []" and "sorted_wrt (\<lambda>a b. fr_after a < fr_after b) rungs"
proof -
  have "windows_increase rungs" and "l = \<lparr>fl_rungs = rungs\<rparr>" and "rungs \<noteq> []"
    using assms by (auto simp: from_rungs_def split: if_splits)
  then show "l = \<lparr>fl_rungs = rungs\<rparr>" and "rungs \<noteq> []" and "sorted_wrt (\<lambda>a b. fr_after a < fr_after b) rungs"
    using windows_increase_sorted by blast+
qed

lemma walker_ok_start: "from_rungs rungs = Inr l \<Longrightarrow> walker_ok (walker_start l now) 0"
  using from_rungs_Inr [of rungs l] by (simp add: walker_ok_def walker_start_def fired_upto_def)

lemma walker_ok_complete:
  assumes "walker_ok w k" and "k = length (fl_rungs (fw_ladder w))"
  shows "is_complete w"
proof -
  have "fw_fired w = replicate k True" using assms by (simp add: walker_ok_def fired_upto_def)
  then show ?thesis by (simp add: is_complete_def list_all_iff)
qed

lemma last_rung_all_due:
  assumes "sorted_wrt (\<lambda>a b. fr_after a < fr_after b) rs" and "rs \<noteq> []" and "fr_after (last rs) \<le> s"
  shows "crossed_rungs rs s = length rs"
proof -
  have "length rs - 1 < crossed_rungs rs s"
    using crossed_iff [OF assms(1), of "length rs - 1" s] assms(2,3) by (simp add: last_conv_nth)
  then show ?thesis using crossed_le [of rs s] by simp
qed

lemma fresh_walker:
  assumes "from_rungs rungs = Inr l"
  shows "\<not> is_complete (walker_start l e)"
    and "next_rung_sleep (walker_start l e) = Some (Some (min (fr_after (hd rungs)) (from_secs 30)))"
  using from_rungs_Inr(1,2) [OF assms]
  by (cases rungs; auto simp: is_complete_def walker_start_def next_rung_sleep_def next_rung_at_def)+

text \<open>A rung tick, when one is picked, returns without a panic and after at most one action per rung.\<close>

lemma rung_tick_returns:
  assumes "from_rungs rungs = Inr l" and "rn_walker st = Some (walker_start l e)" and "mono clock" and "e \<le> clock 0"
  shows "\<exists>acts w. drain clock 0 (walker_start l e) = Some (Some (acts, w)) \<and> length acts \<le> length rungs
    \<and> runner_turn interval ddiv l (RungTick clock) now later st = TurnContinue (st\<lparr>rn_walker := Some w, rn_turn_at := later\<rparr>)
    \<and> (fr_after (last rungs) \<le> nat (clock 0 - e) \<longrightarrow> is_complete w)"
proof -
  let ?w = "walker_start l e"
  note ws = walker_ok_start [OF assms(1), of e] and l = from_rungs_Inr(1) [OF assms(1)]
    and ne = from_rungs_Inr(2) [OF assms(1)] and srt = from_rungs_Inr(3) [OF assms(1)]
  have lad: "fl_rungs (fw_ladder ?w) = rungs" "fw_entered_at ?w = e" by (simp_all add: walker_start_def l)
  obtain acts w m where d: "drain clock 0 ?w = Some (Some (acts, w))" "walker_ok w (due ?w (clock m))"
      "length acts \<le> due ?w (clock m)" "fw_ladder w = fw_ladder ?w"
    using drain_returns [OF ws assms(3), of 0] by auto
  have dm: "due ?w (clock m) \<le> length rungs" by (simp add: due_def lad crossed_le)
  have t: "runner_turn interval ddiv l (RungTick clock) now later st = TurnContinue (st\<lparr>rn_walker := Some w, rn_turn_at := later\<rparr>)"
    using d(1) fresh_walker [OF assms(1)] assms(2) by (simp add: runner_turn_def rung_delay_def)
  have "is_complete w" if late: "fr_after (last rungs) \<le> nat (clock 0 - e)"
  proof -
    have "due ?w (clock 0) = length rungs"
      using last_rung_all_due [OF srt ne late] by (simp add: due_def silence_at_def lad)
    moreover have "due ?w (clock 0) \<le> due ?w (clock m)" by (intro due_mono monoD [OF assms(3)]) simp
    ultimately have "due ?w (clock m) = length (fl_rungs (fw_ladder w))" using dm lad d(4) by simp
    with d(2) show ?thesis by (rule walker_ok_complete)
  qed
  then show ?thesis using t d(1,3) dm le_trans by blast
qed

subsection \<open>The ladder is never walked\<close>

definition waits_forever :: "nat \<Rightarrow> fail_ladder \<Rightarrow> runner_state \<Rightarrow> bool" where
  "waits_forever interval l st \<longleftrightarrow> rn_next_log st \<le> rn_turn_at st + int interval
     \<and> (\<forall>w. rn_walker st = Some w \<longrightarrow> (\<exists>e. w = walker_start l e))"

lemma classify_start: "classify_transition now s l = Some w \<Longrightarrow> w = walker_start l now"
  by (auto simp: classify_transition_def split: lease_state.splits)

lemma waiting_turn:
  assumes "from_rungs rungs = Inr l" and "interval + lat < min (fr_after (hd rungs)) (from_secs 30)"
    and "waits_forever interval l st" and "may_pick interval lat ev now later st"
  shows "(\<forall>clock. ev \<noteq> RungTick clock) \<and> (if ev = MarketEvent None then runner_turn interval ddiv l ev now later st = TurnExit
    else \<exists>st'. runner_turn interval ddiv l ev now later st = TurnContinue st' \<and> waits_forever interval l st')"
proof -
  have walker: "\<not> is_complete w \<and> next_rung_sleep w = Some (Some (min (fr_after (hd rungs)) (from_secs 30)))"
    if "rn_walker st = Some w" for w
    using that assms(3) fresh_walker [OF assms(1)] by (auto simp: waits_forever_def)
  then have delay: "rung_delay interval st \<noteq> None" by (auto simp: rung_delay_def split: option.split)
  have goes: "\<not> (case rn_walker st of Some w \<Rightarrow> is_complete w | None \<Rightarrow> False)" using walker by (auto split: option.split)
  have next_log: "rn_next_log st \<le> rn_turn_at st + int interval" using assms(3) by (simp add: waits_forever_def)
  have no_rung: "ev \<noteq> RungTick clock" for clock
  proof
    assume ev: "ev = RungTick clock"
    then obtain w where w: "rn_walker st = Some w" using assms(4) by (auto simp: may_pick_def)
    have "rn_turn_at st + int (min (fr_after (hd rungs)) (from_secs 30)) \<le> now"
      using assms(4) ev w walker [OF w] by (simp add: may_pick_def rung_delay_def)
    moreover have "now \<le> rn_turn_at st + int interval + int lat"
      using assms(4) next_log by (auto simp: may_pick_def)
    ultimately show False using assms(2) by linarith
  qed
  have picked: "rn_turn_at st \<le> now" "now \<le> later" using assms(4) by (simp_all add: may_pick_def)
  show ?thesis
  proof (intro conjI allI no_rung)
    show "if ev = MarketEvent None then runner_turn interval ddiv l ev now later st = TurnExit
      else \<exists>st'. runner_turn interval ddiv l ev now later st = TurnContinue st' \<and> waits_forever interval l st'"
    proof (cases ev)
      case (MarketEvent e)
      then show ?thesis using goes delay next_log picked assms(3)
        by (cases e) (auto simp: runner_turn_def waits_forever_def Let_def)
    next
      case LogTick
      moreover have "rn_next_log st \<le> now" using assms(4) LogTick by (simp add: may_pick_def)
      ultimately show ?thesis using goes delay picked assms(3) by (auto simp: runner_turn_def waits_forever_def Let_def)
    next
      case (RungTick clock)
      then show ?thesis using no_rung by blast
    next
      case (AuthorityChanged changed)
      then have "rn_walker st = None" using assms(4) by (simp add: may_pick_def)
      then show ?thesis using AuthorityChanged delay next_log picked
        by (cases changed; cases "classify_transition now (the changed) l")
          (auto simp: runner_turn_def waits_forever_def Let_def dest: classify_start)
    qed
  qed
qed

lemma waiting_run:
  assumes "runner_run interval lat ddiv l st0 st" and "from_rungs rungs = Inr l"
    and "interval + lat < min (fr_after (hd rungs)) (from_secs 30)" and "waits_forever interval l st0"
  shows "waits_forever interval l st"
  using assms(1,4)
proof (induction rule: runner_run.induct)
  case (turned st1 ev now later st2)
  then show ?case using waiting_turn [OF assms(2,3) _ turned.hyps(2), of ddiv] by (auto split: if_splits)
qed

text \<open>The silence has no bound: the log ticks alone carry the runner past any time.\<close>

lemma log_ticks:
  assumes "from_rungs rungs = Inr l" and "rn_walker st = Some (walker_start l e)" and "rn_next_log st \<le> rn_turn_at st + int interval"
  shows "\<exists>st'. runner_run interval lat ddiv l st st' \<and> rn_walker st' = Some (walker_start l e)
    \<and> rn_next_log st' = rn_next_log st + int (k * interval) \<and> rn_next_log st' \<le> rn_turn_at st' + int interval"
proof (induction k)
  case 0
  show ?case using assms by (intro exI [of _ st]) (simp add: runner_run.started)
next
  case (Suc k)
  then obtain st1 where st1: "runner_run interval lat ddiv l st st1" "rn_walker st1 = Some (walker_start l e)"
    "rn_next_log st1 = rn_next_log st + int (k * interval)" by blast
  define t where "t = max (rn_turn_at st1) (rn_next_log st1)"
  let ?st2 = "st1\<lparr>rn_turn_at := t, rn_next_log := rn_next_log st1 + int interval\<rparr>"
  have "may_pick interval lat LogTick t t st1" by (simp add: may_pick_def t_def)
  moreover have "runner_turn interval ddiv l LogTick t t st1 = TurnContinue ?st2"
    using fresh_walker [OF assms(1)] st1(2) by (simp add: runner_turn_def rung_delay_def)
  ultimately have "runner_run interval lat ddiv l st ?st2" by (rule runner_run.turned [OF st1(1)])
  then show ?case using st1(2,3) by (intro exI [of _ ?st2]) (simp add: t_def algebra_simps)
qed

subsection \<open>Property of the runner\<close>

text \<open>
  C18: the fail ladder is not walked. Every turn of the runner sets up the timer of the next rung anew, with
  the rung's full delay, capped at thirty seconds, and the log ticker ends a turn every log interval. So when the
  interval, with the lateness of the task, is shorter than the first rung's delay and than the cap,
  then at no time after authority is lost can the rung timer be picked: whatever the venue sends, the walker is
  as it was started, no action is ever taken, the runner neither completes nor panics and ends only with the
  market stream; and the silence lasts as long as one likes. The factory's interval is five seconds and
  the first rung of the default ladders fifteen.
\<close>

theorem ladder_never_walked:
  assumes "from_rungs rungs = Inr l" and "0 < interval" and "interval + lat < min (fr_after (hd rungs)) (from_secs 30)"
    and "primed \<le> now0" and "runner_run interval lat ddiv l (runner_init interval primed now0 authority l) st"
  shows "(\<forall>w. rn_walker st = Some w \<longrightarrow> (\<exists>e. w = walker_start l e))
    \<and> (\<forall>ev now later. may_pick interval lat ev now later st \<longrightarrow> (\<forall>clock. ev \<noteq> RungTick clock)
         \<and> (if ev = MarketEvent None then runner_turn interval ddiv l ev now later st = TurnExit
             else \<exists>st'. runner_turn interval ddiv l ev now later st = TurnContinue st'))
    \<and> (\<forall>e t. rn_walker st = Some (walker_start l e) \<longrightarrow>
         (\<exists>st'. runner_run interval lat ddiv l st st' \<and> rn_walker st' = Some (walker_start l e) \<and> t \<le> rn_turn_at st'))"
proof -
  have "waits_forever interval l (runner_init interval primed now0 authority l)"
    using assms(4) by (auto simp: waits_forever_def runner_init_def dest: classify_start split: bind_splits)
  then have w: "waits_forever interval l st" by (rule waiting_run [OF assms(5,1,3)])
  then have n: "rn_next_log st \<le> rn_turn_at st + int interval" by (simp add: waits_forever_def)
  have "\<exists>st'. runner_run interval lat ddiv l st st' \<and> rn_walker st' = Some (walker_start l e) \<and> t \<le> rn_turn_at st'"
    if e: "rn_walker st = Some (walker_start l e)" for e t
  proof -
    obtain st' where st': "runner_run interval lat ddiv l st st'" "rn_walker st' = Some (walker_start l e)"
      "rn_next_log st' = rn_next_log st + int (Suc (nat (t - rn_next_log st)) * interval)"
      "rn_next_log st' \<le> rn_turn_at st' + int interval"
      using log_ticks [OF assms(1) e n, of lat ddiv "Suc (nat (t - rn_next_log st))"] by blast
    have "nat (t - rn_next_log st) \<le> nat (t - rn_next_log st) * interval" using assms(2) by (cases interval) simp_all
    then have "t - rn_next_log st \<le> int (nat (t - rn_next_log st) * interval)" by linarith
    then have "t \<le> rn_turn_at st'" using st'(3,4) by (simp add: algebra_simps)
    then show ?thesis using st'(1,2) by blast
  qed
  moreover have "if ev = MarketEvent None then runner_turn interval ddiv l ev now later st = TurnExit
      else \<exists>st'. runner_turn interval ddiv l ev now later st = TurnContinue st'" if "may_pick interval lat ev now later st" for ev now later
    using waiting_turn [OF assms(1,3) w that, of ddiv] by (cases "ev = MarketEvent None") auto
  ultimately show ?thesis
    using w waiting_turn [OF assms(1,3) w] unfolding waits_forever_def by blast
qed

text \<open>The default intervals: five seconds, and a first rung after fifteen; the task is late by up to nine.\<close>

definition demo_lease :: leader_lease where
  "demo_lease = \<lparr>ll_lease_id = 1, ll_agent_id = ''a'', ll_issued_at = 0, ll_expires_at = 1000, ll_issued_seq = 1\<rparr>"

theorem ladder_never_walked_witness:
  "\<exists>st l. default_for Maker = Some l
    \<and> runner_run (from_secs 5) (from_secs 9) (/) l (runner_init (from_secs 5) 0 0 (Some (Expired demo_lease)) l) st
    \<and> rn_walker st = Some (walker_start l 0) \<and> int (from_secs 100000) \<le> rn_turn_at st"
proof -
  let ?rs = "[rung 15 CtlWidenSpreads, rung 60 CtlStopNew, rung 300 CtlFlatten]"
  let ?l = "\<lparr>fl_rungs = ?rs\<rparr>"
  let ?s = "runner_init (from_secs 5) 0 0 (Some (Expired demo_lease)) ?l"
  have l: "from_rungs ?rs = Inr ?l" by (simp add: from_rungs_def rung_def from_secs_def)
  have d: "default_for Maker = Some ?l" by (simp add: default_maker_def l expect_ok_def)
  have i: "0 < from_secs 5" "from_secs 5 + from_secs 9 < min (fr_after (hd ?rs)) (from_secs 30)"
    by (simp_all add: from_secs_def rung_def)
  have s: "rn_walker ?s = Some (walker_start ?l 0)" by (simp add: runner_init_def classify_transition_def)
  show ?thesis
    using ladder_never_walked [OF l i order_refl, of "(/)" 0 "Some (Expired demo_lease)" ?s] s d runner_run.started by blast
qed

end
