(* ===== verification/Order_Emulator.thy ===== *)
theory Order_Emulator
  imports Connector Order_Book Std_Maps Std_Text
begin

section \<open>The client-side order emulator\<close>

text \<open>
  \<^verbatim>\<open>crates/risk/src/order_emulator.rs\<close>: stops, trailing stops, one-cancels-other legs and timed
  cancels that the venue does not offer, as a state machine fed with mid prices; and the two places
  of \<^verbatim>\<open>crates/engine/src/market_maker.rs\<close> that drive it, the tick of \<^verbatim>\<open>refresh_quotes\<close> and
  \<^verbatim>\<open>dispatch_emulator_action\<close>. An \<^verbatim>\<open>Instant\<close> is a number of nanoseconds; adding to one panics past the
  last instant of the platform, an argument. The id counter is bounded by the number of
  registrations. The order of the hash map stands for its iteration order.
\<close>

type_synonym emulator_order_id = nat

datatype emulator_order_spec =
  SpecStopMarket side price qty
| SpecStopLimit side price price qty
| SpecTrailingStop side decimal qty decimal
| SpecOcoLeg side price qty emulator_order_id
| SpecGtdCancel string u64

datatype emulator_order =
  StopMarket side price qty
| StopLimit side price price qty
| TrailingStop side decimal qty decimal
| OcoLeg side price qty emulator_order_id
| GtdCancel string timestamp

datatype emulator_action =
  PlaceMarket side qty (emulator_id: emulator_order_id)
| PlaceLimit side price qty (emulator_id: emulator_order_id)
| CancelVenue string (emulator_id: emulator_order_id)

record order_emulator =
  em_orders :: "(emulator_order_id, emulator_order) hash_map"
  em_next_id :: emulator_order_id

text \<open>\<open>None\<close> is the panic of \<^verbatim>\<open>Instant + Duration\<close>.\<close>

definition to_emulator_order :: "timestamp \<Rightarrow> timestamp \<Rightarrow> emulator_order_spec \<Rightarrow> emulator_order option" where
  "to_emulator_order last_instant now spec =
     (case spec of
        SpecStopMarket s t q \<Rightarrow> Some (StopMarket s t q)
      | SpecStopLimit s t l q \<Rightarrow> Some (StopLimit s t l q)
      | SpecTrailingStop s a q w \<Rightarrow> Some (TrailingStop s a q w)
      | SpecOcoLeg s t q sib \<Rightarrow> Some (OcoLeg s t q sib)
      | SpecGtdCancel v secs \<Rightarrow>
          (let deadline = now + int (unat secs) * 1000000000
           in if deadline \<le> last_instant then Some (GtdCancel v deadline) else None))"

subsection \<open>Operations\<close>

definition emulator_new :: order_emulator where
  "emulator_new = \<lparr>em_orders = [], em_next_id = 1\<rparr>"

definition em_register :: "emulator_order \<Rightarrow> order_emulator \<Rightarrow> emulator_order_id \<times> order_emulator" where
  "em_register ord em =
     (em_next_id em, em\<lparr>em_next_id := em_next_id em + 1, em_orders := hm_insert (em_next_id em) ord (em_orders em)\<rparr>)"

definition em_cancel :: "emulator_order_id \<Rightarrow> order_emulator \<Rightarrow> order_emulator" where
  "em_cancel i em = em\<lparr>em_orders := hm_remove i (em_orders em)\<rparr>"

definition em_len :: "order_emulator \<Rightarrow> nat" where
  "em_len em = length (em_orders em)"

definition stop_triggered :: "side \<Rightarrow> price \<Rightarrow> price \<Rightarrow> bool" where
  "stop_triggered s trigger mid = (case s of Sell \<Rightarrow> mid \<le> trigger | Buy \<Rightarrow> trigger \<le> mid)"

text \<open>One order of the loop of \<^verbatim>\<open>on_tick\<close>: the order after the tick, the action it emits, and the sibling
  to drop.\<close>

definition tick_order ::
  "price \<Rightarrow> timestamp \<Rightarrow> emulator_order_id \<Rightarrow> emulator_order
     \<Rightarrow> emulator_order \<times> emulator_action option \<times> emulator_order_id option" where
  "tick_order mid now i ord =
     (case ord of
        StopMarket s t q \<Rightarrow> (ord, if stop_triggered s t mid then Some (PlaceMarket s q i) else None, None)
      | StopLimit s t l q \<Rightarrow> (ord, if stop_triggered s t mid then Some (PlaceLimit s l q i) else None, None)
      | TrailingStop Sell a q w \<Rightarrow>
          (let w' = (if w < mid then mid else w)
           in (TrailingStop Sell a q w', if mid \<le> w' - a then Some (PlaceMarket Sell q i) else None, None))
      | TrailingStop Buy a q w \<Rightarrow>
          (let w' = (if mid < w then mid else w)
           in (TrailingStop Buy a q w', if w' + a \<le> mid then Some (PlaceMarket Buy q i) else None, None))
      | OcoLeg s t q sib \<Rightarrow>
          (if stop_triggered s t mid then (ord, Some (PlaceMarket s q i), Some sib) else (ord, None, None))
      | GtdCancel v deadline \<Rightarrow> (ord, if deadline \<le> now then Some (CancelVenue v i) else None, None))"

text \<open>The loop: the orders after the tick, \<^verbatim>\<open>out\<close>, \<^verbatim>\<open>triggered\<close> and \<^verbatim>\<open>siblings_to_drop\<close>.\<close>

primrec emulator_loop ::
  "price \<Rightarrow> timestamp \<Rightarrow> (emulator_order_id, emulator_order) hash_map
     \<Rightarrow> (emulator_order_id, emulator_order) hash_map \<times> emulator_action list \<times> emulator_order_id list \<times> emulator_order_id list" where
  "emulator_loop mid now [] = ([], [], [], [])"
| "emulator_loop mid now (e # es) =
     (case tick_order mid now (fst e) (snd e) of
        (ord, act, sib) \<Rightarrow>
          (case emulator_loop mid now es of
             (ords, out, triggered, sibs) \<Rightarrow>
               ((fst e, ord) # ords,
                (case act of None \<Rightarrow> out | Some a \<Rightarrow> a # out),
                (case act of None \<Rightarrow> triggered | Some _ \<Rightarrow> fst e # triggered),
                (case sib of None \<Rightarrow> sibs | Some s \<Rightarrow> s # sibs))))"

definition em_on_tick :: "price \<Rightarrow> timestamp \<Rightarrow> order_emulator \<Rightarrow> emulator_action list \<times> order_emulator" where
  "em_on_tick mid now em =
     (case emulator_loop mid now (em_orders em) of
        (ords, out, triggered, sibs) \<Rightarrow>
          (out, em\<lparr>em_orders := fold hm_remove sibs (fold hm_remove triggered ords)\<rparr>))"

subsection \<open>The engine's side\<close>

text \<open>\<^verbatim>\<open>dispatch_emulator_action\<close>: an order that the venue refuses is only logged, and a cancel whose id is
  not a UUID (\<open>parse_uuid\<close>, the \<^verbatim>\<open>uuid\<close> crate's parser) is skipped.\<close>

definition emulator_new_order :: "string \<Rightarrow> emulator_action \<Rightarrow> new_order option" where
  "emulator_new_order symbol act =
     (case act of
        PlaceMarket s q i \<Rightarrow>
          Some \<lparr>no_symbol = symbol, no_side = s, no_order_type = Market, no_price = None, no_qty = q,
                no_time_in_force = Some Ioc, no_client_order_id = Some (''emu-'' @ show_nat i), no_reduce_only = False\<rparr>
      | PlaceLimit s p q i \<Rightarrow>
          Some \<lparr>no_symbol = symbol, no_side = s, no_order_type = Limit, no_price = Some p, no_qty = q,
                no_time_in_force = Some Gtc, no_client_order_id = Some (''emu-'' @ show_nat i), no_reduce_only = False\<rparr>
      | CancelVenue _ _ \<Rightarrow> None)"

definition dispatch_emulator_action ::
  "(string \<Rightarrow> uuid option) \<Rightarrow> 'v connector \<Rightarrow> string \<Rightarrow> emulator_action \<Rightarrow> 'v \<Rightarrow> 'v" where
  "dispatch_emulator_action parse_uuid conn symbol act v =
     (case emulator_new_order symbol act of
        Some no \<Rightarrow> snd (place_order conn no v)
      | None \<Rightarrow>
          (case act of
             CancelVenue voi _ \<Rightarrow>
               (case parse_uuid voi of
                  None \<Rightarrow> v
                | Some oid \<Rightarrow> snd (cancel_order conn symbol oid v))
           | _ \<Rightarrow> v))"

definition emulator_tick ::
  "(string \<Rightarrow> uuid option) \<Rightarrow> 'v connector \<Rightarrow> string \<Rightarrow> price option \<Rightarrow> timestamp
     \<Rightarrow> order_emulator \<Rightarrow> 'v \<Rightarrow> order_emulator \<times> 'v" where
  "emulator_tick parse_uuid conn symbol mid now em v =
     (if em_len em = 0 then (em, v)
      else case mid of
        None \<Rightarrow> (em, v)
      | Some m \<Rightarrow>
          (case em_on_tick m now em of
             (acts, em') \<Rightarrow> (em', fold (dispatch_emulator_action parse_uuid conn symbol) acts v)))"

subsection \<open>One tick\<close>

abbreviation after_tick :: "price \<Rightarrow> timestamp \<Rightarrow> emulator_order_id \<Rightarrow> emulator_order \<Rightarrow> emulator_order" where
  "after_tick mid now i ord \<equiv> fst (tick_order mid now i ord)"

abbreviation emits :: "price \<Rightarrow> timestamp \<Rightarrow> emulator_order_id \<Rightarrow> emulator_order \<Rightarrow> emulator_action option" where
  "emits mid now i ord \<equiv> fst (snd (tick_order mid now i ord))"

abbreviation drops :: "price \<Rightarrow> timestamp \<Rightarrow> emulator_order_id \<Rightarrow> emulator_order \<Rightarrow> emulator_order_id option" where
  "drops mid now i ord \<equiv> snd (snd (tick_order mid now i ord))"

lemma emulator_loop_eq:
  "emulator_loop mid now es =
     (map (\<lambda>e. (fst e, after_tick mid now (fst e) (snd e))) es,
      List.map_filter (\<lambda>e. emits mid now (fst e) (snd e)) es,
      map fst (filter (\<lambda>e. emits mid now (fst e) (snd e) \<noteq> None) es),
      List.map_filter (\<lambda>e. drops mid now (fst e) (snd e)) es)"
  by (induction es) (auto simp: map_filter_simps split: prod.split option.split)

lemma emits_id: "emits mid now i ord = Some a \<Longrightarrow> emulator_id a = i"
  by (auto simp: tick_order_def Let_def split: emulator_order.splits side.splits if_splits)

lemma drops_leg: "drops mid now i ord = Some j \<Longrightarrow> emits mid now i ord \<noteq> None \<and> (\<exists>s t q. ord = OcoLeg s t q j)"
  by (auto simp: tick_order_def Let_def split: emulator_order.splits side.splits if_splits)

text \<open>What a tick does to the map and which actions it emits; an order is gone when it fires or when a leg
  that fires names it as its sibling.\<close>

definition dropped :: "price \<Rightarrow> timestamp \<Rightarrow> (emulator_order_id, emulator_order) hash_map \<Rightarrow> emulator_order_id \<Rightarrow> bool" where
  "dropped mid now ords i \<longleftrightarrow> (\<exists>j ord. hm_get ords j = Some ord \<and> drops mid now j ord = Some i)"

lemma mapped_get: "hm_get (map (\<lambda>e. (fst e, f (fst e) (snd e))) m) k = map_option (f k) (hm_get m k)"
  by (induction m) (auto simp: hm_get_def)

lemma mapped_ok: "hm_ok (map (\<lambda>e. (fst e, f (fst e) (snd e))) m) = hm_ok m"
  by (simp add: hm_ok_def comp_def)

lemma in_map_filter: "x \<in> set (List.map_filter f xs) \<longleftrightarrow> (\<exists>y \<in> set xs. f y = Some x)"
  by (induction xs) (auto simp: map_filter_simps split: option.splits)

lemma on_tick_get:
  assumes "hm_ok (em_orders em)" and "em_on_tick mid now em = (acts, em')"
  shows "hm_get (em_orders em') i =
      (case hm_get (em_orders em) i of
         None \<Rightarrow> None
       | Some ord \<Rightarrow> if emits mid now i ord \<noteq> None \<or> dropped mid now (em_orders em) i then None
                      else Some (after_tick mid now i ord))"
    and "a \<in> set acts \<longleftrightarrow> (\<exists>ord. hm_get (em_orders em) (emulator_id a) = Some ord
            \<and> emits mid now (emulator_id a) ord = Some a)"
    and "distinct (map emulator_id acts)" and "hm_ok (em_orders em')" and "em_next_id em' = em_next_id em"
proof -
  let ?m = "em_orders em" and ?ords = "map (\<lambda>e. (fst e, after_tick mid now (fst e) (snd e))) (em_orders em)"
  let ?trig = "map fst (filter (\<lambda>e. emits mid now (fst e) (snd e) \<noteq> None) (em_orders em))"
  let ?sib = "List.map_filter (\<lambda>e. drops mid now (fst e) (snd e)) (em_orders em)"
  have eqs: "acts = List.map_filter (\<lambda>e. emits mid now (fst e) (snd e)) ?m"
    "em_orders em' = fold hm_remove ?sib (fold hm_remove ?trig ?ords)" "em_next_id em' = em_next_id em"
    using assms(2) by (auto simp: em_on_tick_def emulator_loop_eq)
  have ok: "hm_ok ?ords" using assms(1) mapped_ok [of "after_tick mid now" ?m] by simp
  note mem = hm.entries_iff [OF assms(1)]
  have trig: "i \<in> set ?trig \<longleftrightarrow> (\<exists>ord. hm_get ?m i = Some ord \<and> emits mid now i ord \<noteq> None)" for i
    by (auto simp: mem image_iff)
  have sib: "i \<in> set ?sib \<longleftrightarrow> dropped mid now ?m i" for i
    unfolding in_map_filter dropped_def by (metis (no_types, lifting) mem fst_conv snd_conv surj_pair)
  have get: "hm_get ?ords i = map_option (after_tick mid now i) (hm_get ?m i)"
    using mapped_get [of "after_tick mid now" ?m i] by simp
  show "hm_get (em_orders em') i = (case hm_get ?m i of
         None \<Rightarrow> None
       | Some ord \<Rightarrow> if emits mid now i ord \<noteq> None \<or> dropped mid now ?m i then None else Some (after_tick mid now i ord))"
    unfolding eqs hm.get_removes [OF hm.invar_removes [OF ok]] hm.get_removes [OF ok] get sib trig
    by (auto split: option.split)
  show "a \<in> set acts \<longleftrightarrow> (\<exists>ord. hm_get ?m (emulator_id a) = Some ord \<and> emits mid now (emulator_id a) ord = Some a)"
    unfolding eqs in_map_filter using mem emits_id by (metis fst_conv snd_conv surj_pair)
  show "distinct (map emulator_id acts)"
  proof -
    have "map emulator_id (List.map_filter (\<lambda>e. emits mid now (fst e) (snd e)) es)
        = map fst (filter (\<lambda>e. emits mid now (fst e) (snd e) \<noteq> None) es)" for es
      by (induction es) (auto simp: map_filter_simps dest: emits_id split: option.splits)
    then show ?thesis using assms(1) unfolding eqs hm_ok_def by (simp add: distinct_map_filter)
  qed
  show "hm_ok (em_orders em')" unfolding eqs by (intro hm.invar_removes ok)
  show "em_next_id em' = em_next_id em" by (rule eqs)
qed

subsection \<open>Runs\<close>

datatype emulator_event = TickAt price timestamp | Register emulator_order | CancelOrder emulator_order_id

definition emulator_step :: "emulator_event \<Rightarrow> order_emulator \<Rightarrow> emulator_action list \<times> order_emulator" where
  "emulator_step ev em =
     (case ev of
        TickAt mid now \<Rightarrow> em_on_tick mid now em
      | Register ord \<Rightarrow> ([], snd (em_register ord em))
      | CancelOrder i \<Rightarrow> ([], em_cancel i em))"

primrec emulator_run :: "emulator_event list \<Rightarrow> order_emulator \<Rightarrow> emulator_action list list \<times> order_emulator" where
  "emulator_run [] em = ([], em)"
| "emulator_run (ev # evs) em =
     (case emulator_step ev em of
        (acts, em1) \<Rightarrow> (case emulator_run evs em1 of (rest, em2) \<Rightarrow> (acts # rest, em2)))"

definition em_ok :: "order_emulator \<Rightarrow> bool" where
  "em_ok em \<longleftrightarrow> hm_ok (em_orders em) \<and> (\<forall>i. hm_get (em_orders em) i \<noteq> None \<longrightarrow> i < em_next_id em)"

lemma emulator_step_ok:
  assumes "em_ok em"
  shows "em_ok (snd (emulator_step ev em)) \<and> em_next_id em \<le> em_next_id (snd (emulator_step ev em))"
proof (cases ev)
  case (TickAt mid now)
  obtain acts em' where t: "em_on_tick mid now em = (acts, em')" by (rule prod.exhaust)
  note get = on_tick_get [OF assms [unfolded em_ok_def, THEN conjunct1] t]
  have "hm_get (em_orders em) i \<noteq> None" if "hm_get (em_orders em') i \<noteq> None" for i
    using that by (auto simp: get(1) split: option.splits)
  then show ?thesis using assms get(4,5) TickAt t by (auto simp: em_ok_def emulator_step_def)
next
  case (Register ord)
  then show ?thesis using assms
    by (auto simp: em_ok_def emulator_step_def em_register_def hm_simps less_Suc_eq)
next
  case (CancelOrder i)
  then show ?thesis using assms
    by (auto simp: em_ok_def emulator_step_def em_cancel_def hm_simps)
qed

interpretation emulator: machine "\<lambda>em ev. snd (emulator_step ev em)" em_ok "\<lambda>_. True"
  by unfold_locales (simp add: emulator_step_ok)

text \<open>An id that was issued and is no longer registered stays so, and emits nothing.\<close>

lemma step_gone:
  assumes "em_ok em" and "i < em_next_id em" and "hm_get (em_orders em) i = None"
    and "emulator_step ev em = (acts, em')"
  shows "hm_get (em_orders em') i = None" and "\<forall>a \<in> set acts. emulator_id a \<noteq> i"
proof -
  have ok: "hm_ok (em_orders em)" using assms(1) by (simp add: em_ok_def)
  show "hm_get (em_orders em') i = None"
    using assms by (cases ev) (auto simp: emulator_step_def em_register_def em_cancel_def em_ok_def hm_simps on_tick_get(1) [OF ok])
  show "\<forall>a \<in> set acts. emulator_id a \<noteq> i"
    using assms by (cases ev) (auto simp: emulator_step_def on_tick_get(2) [OF ok])
qed

lemma run_gone:
  assumes "em_ok em" and "i < em_next_id em" and "hm_get (em_orders em) i = None"
    and "emulator_run evs em = (outs, em')"
  shows "\<forall>acts \<in> set outs. \<forall>a \<in> set acts. emulator_id a \<noteq> i"
  using assms
proof (induction evs arbitrary: em outs)
  case (Cons ev evs)
  obtain acts em1 where s: "emulator_step ev em = (acts, em1)" by (rule prod.exhaust)
  obtain rest where r: "emulator_run evs em1 = (rest, em')" "outs = acts # rest"
    using Cons.prems(4) s by (auto split: prod.splits)
  have "em_ok em1" "i < em_next_id em1"
    using emulator_step_ok [OF Cons.prems(1), of ev] Cons.prems(2) s by auto
  from Cons.IH [OF this step_gone(1) [OF Cons.prems(1-3) s] r(1)] step_gone(2) [OF Cons.prems(1-3) s] r(2)
  show ?case by simp
qed simp

lemma emulator_run_gone:
  assumes "em_ok em" and "i < em_next_id em" and "hm_get (em_orders em) i = None" and "emulator_run evs em = (outs, em')"
  shows "hm_get (em_orders em') i = None"
  using assms
proof (induction evs arbitrary: em outs)
  case (Cons ev evs)
  obtain acts em1 where s: "emulator_step ev em = (acts, em1)" by (rule prod.exhaust)
  obtain rest where r: "emulator_run evs em1 = (rest, em')"
    using Cons.prems(4) s by (auto split: prod.splits)
  have "em_ok em1" "i < em_next_id em1"
    using emulator_step_ok [OF Cons.prems(1), of ev] Cons.prems(2) s by auto
  from Cons.IH [OF this step_gone(1) [OF Cons.prems(1-3) s] r] show ?case .
qed simp

lemma run_length: "emulator_run evs em = (outs, em') \<Longrightarrow> length outs = length evs"
  by (induction evs arbitrary: em outs) (auto split: prod.splits)

lemma after_tick_leg: "after_tick mid now j ord = OcoLeg s t q i \<longleftrightarrow> ord = OcoLeg s t q i"
  by (auto simp: tick_order_def Let_def split: emulator_order.splits side.splits if_splits)

subsection \<open>Properties\<close>

lemma registered_fires_once:
  assumes "em_ok em" and "emulator_step ev em = (acts, em')" and "a \<in> set acts" and "emulator_id a = i"
  shows "i < em_next_id em" and "hm_get (em_orders em') i = None" and "\<forall>b \<in> set acts. emulator_id b = i \<longrightarrow> b = a"
    and "distinct (map emulator_id acts)"
proof -
  obtain mid now where ev: "ev = TickAt mid now" and t: "em_on_tick mid now em = (acts, em')"
    using assms(2,3) by (cases ev) (auto simp: emulator_step_def)
  note get = on_tick_get [OF assms(1) [unfolded em_ok_def, THEN conjunct1] t]
  obtain ord where o: "hm_get (em_orders em) i = Some ord" "emits mid now i ord = Some a" using assms(3,4) get(2) by auto
  then show "i < em_next_id em" and "hm_get (em_orders em') i = None"
    using assms(1) by (auto simp: em_ok_def get(1))
  show "\<forall>b \<in> set acts. emulator_id b = i \<longrightarrow> b = a" using o get(2) by auto
  show "distinct (map emulator_id acts)" by (rule get(3))
qed

text \<open>
  C19: an emulated order acts at most once. Over any sequence of ticks, registrations and
  cancellations, from any state the emulator can be in, at most one action in the whole run carries a
  given id; and once an action carried it, the order is no longer registered.
\<close>

theorem emulated_order_acts_once:
  assumes "em_ok em" and "emulator_run evs em = (outs, em')"
  shows "length (filter (\<lambda>a. emulator_id a = i) (concat outs)) \<le> 1
    \<and> ((\<exists>a \<in> set (concat outs). emulator_id a = i) \<longrightarrow> hm_get (em_orders em') i = None)"
  using assms
proof (induction evs arbitrary: em outs)
  case (Cons ev evs)
  obtain acts em1 where s: "emulator_step ev em = (acts, em1)" by (rule prod.exhaust)
  obtain rest where r: "emulator_run evs em1 = (rest, em')" "outs = acts # rest"
    using Cons.prems(2) s by (auto split: prod.splits)
  have ok: "em_ok em1" and grow: "em_next_id em \<le> em_next_id em1"
    using emulator_step_ok [OF Cons.prems(1), of ev] s by auto
  show ?case
  proof (cases "\<exists>a \<in> set acts. emulator_id a = i")
    case False
    then have "filter (\<lambda>a. emulator_id a = i) acts = []" by (auto simp: filter_empty_conv)
    then show ?thesis using Cons.IH [OF ok r(1)] False r(2) by auto
  next
    case True
    then obtain a where a: "a \<in> set acts" "emulator_id a = i" by blast
    note once = registered_fires_once [OF Cons.prems(1) s a]
    have i: "i < em_next_id em1" using once(1) grow by simp
    have none: "filter (\<lambda>a. emulator_id a = i) (concat rest) = []"
      using run_gone [OF ok i once(2) r(1)] by (auto simp: filter_empty_conv)
    have "length (filter (\<lambda>a. emulator_id a = i) acts) \<le> 1"
      using once(4) by (induction acts) (auto simp: filter_empty_conv image_iff)
    moreover have "hm_get (em_orders em') i = None" using emulator_run_gone [OF ok i once(2) r(1)] .
    ultimately show ?thesis using none r(2) by simp
  qed
qed simp

theorem emulated_order_acts_once_witness:
  "let em = snd (em_register (StopMarket Sell 100 1) emulator_new);
       (outs, em') = emulator_run [TickAt 105 0, TickAt 99 1, TickAt 98 2] em
   in outs = [[], [PlaceMarket Sell 1 1], []] \<and> length (filter (\<lambda>a. emulator_id a = 1) (concat outs)) \<le> 1
     \<and> hm_get (em_orders em') 1 = None"
proof -
  let ?em = "snd (em_register (StopMarket Sell 100 1) emulator_new)"
  obtain outs em' where r: "emulator_run [TickAt 105 0, TickAt 99 1, TickAt 98 2] ?em = (outs, em')" by (rule prod.exhaust)
  have ok: "em_ok ?em" by (auto simp: em_ok_def em_register_def emulator_new_def hm_simps)
  have outs: "outs = [[], [PlaceMarket Sell 1 1], []]"
    using r by (auto simp: emulator_step_def em_on_tick_def em_register_def emulator_new_def tick_order_def stop_triggered_def
        hm_insert_def hm_remove_def)
  then show ?thesis using emulated_order_acts_once [OF ok r, of 1] r by simp
qed

text \<open>The mark a trailing stop keeps, and what it means for the last mid to have retraced from it.\<close>

definition trail_mark :: "side \<Rightarrow> decimal \<Rightarrow> price list \<Rightarrow> price" where
  "trail_mark s w mids = (case s of Sell \<Rightarrow> Max (insert w (set mids)) | Buy \<Rightarrow> Min (insert w (set mids)))"

definition retraced :: "side \<Rightarrow> decimal \<Rightarrow> decimal \<Rightarrow> price list \<Rightarrow> bool" where
  "retraced s a w mids =
     (case s of Sell \<Rightarrow> last mids \<le> trail_mark s w mids - a | Buy \<Rightarrow> trail_mark s w mids + a \<le> last mids)"

lemma retraced_Cons: "mids \<noteq> [] \<Longrightarrow> retraced s a w (m # mids) = retraced s a (trail_mark s w [m]) mids"
  by (cases s) (simp_all add: retraced_def trail_mark_def Max_insert Min_insert max.assoc min.assoc insert_commute [of w m])

lemma trailing_tick:
  "tick_order m now i (TrailingStop s a q w) =
     (TrailingStop s a q (trail_mark s w [m]), if retraced s a w [m] then Some (PlaceMarket s q i) else None, None)"
  by (cases s) (auto simp: tick_order_def retraced_def trail_mark_def Let_def max_def min_def)

text \<open>
  C20: a trailing stop fires at the first retracement. Let the stop be registered with mark \<^verbatim>\<open>w\<close> and
  no leg name it as its sibling. Over any run of ticks it fires exactly once the mid has come back by
  the trail amount from the highest mid since the registration (for a sell; from the lowest for a
  buy), at the first tick where that is so, whatever the other orders do.
\<close>

theorem trailing_stop_fires_at_retracement:
  assumes "em_ok em" and "hm_get (em_orders em) i = Some (TrailingStop s a q w)"
    and "\<forall>j ord. hm_get (em_orders em) j = Some ord \<longrightarrow> (\<forall>s' t' q'. ord \<noteq> OcoLeg s' t' q' i)"
    and "emulator_run (map (\<lambda>t. TickAt (fst t) (snd t)) ticks) em = (outs, em')" and "k < length ticks"
  shows "PlaceMarket s q i \<in> set (outs ! k) \<longleftrightarrow>
     retraced s a w (map fst (take (Suc k) ticks)) \<and> (\<forall>j < k. \<not> retraced s a w (map fst (take (Suc j) ticks)))"
  using assms
proof (induction ticks arbitrary: em w outs k)
  case (Cons t ticks)
  obtain m now where t: "t = (m, now)" by (rule prod.exhaust)
  obtain acts em1 where s: "em_on_tick m now em = (acts, em1)" by (rule prod.exhaust)
  then have st: "emulator_step (TickAt m now) em = (acts, em1)" by (simp add: emulator_step_def)
  obtain rest where r: "emulator_run (map (\<lambda>t. TickAt (fst t) (snd t)) ticks) em1 = (rest, em')" "outs = acts # rest"
    using Cons.prems(4) st t by (auto split: prod.splits)
  note get = on_tick_get [OF Cons.prems(1) [unfolded em_ok_def, THEN conjunct1] s]
  have ok: "em_ok em1" and i: "i < em_next_id em1"
    using emulator_step_ok [OF Cons.prems(1), of "TickAt m now"] st Cons.prems(1,2) by (auto simp: em_ok_def)
  have now: "PlaceMarket s q i \<in> set acts \<longleftrightarrow> retraced s a w [m]"
    using Cons.prems(2) by (auto simp: get(2) trailing_tick)
  have kept: "\<not> dropped m now (em_orders em) i"
    using Cons.prems(3) unfolding dropped_def by (blast dest: drops_leg)
  have next_order: "hm_get (em_orders em1) i = (if retraced s a w [m] then None else Some (TrailingStop s a q (trail_mark s w [m])))"
    using Cons.prems(2) kept by (simp add: get(1) trailing_tick)
  show ?case
  proof (cases k)
    case 0
    then show ?thesis using now r(2) t by simp
  next
    case (Suc k')
    then have k': "k' < length ticks" using Cons.prems(5) by simp
    have shift: "retraced s a w (map fst (take (Suc (Suc j)) (t # ticks)))
        = retraced s a (trail_mark s w [m]) (map fst (take (Suc j) ticks))" for j
      using k' by (cases ticks) (simp_all add: t retraced_Cons)
    have len: "length rest = length ticks" using run_length [OF r(1)] by simp
    show ?thesis
    proof (cases "retraced s a w [m]")
      case True
      have "\<forall>b \<in> set (rest ! k'). emulator_id b \<noteq> i"
        using run_gone [OF ok i _ r(1)] next_order True k' len by (metis nth_mem)
      then have "PlaceMarket s q i \<notin> set (rest ! k')" by auto
      moreover have "\<exists>j < k. retraced s a w (map fst (take (Suc j) (t # ticks)))"
        using True Suc t by (intro exI [where x = 0]) simp
      ultimately show ?thesis using r(2) Suc by auto
    next
      case False
      have legs: "\<forall>j ord. hm_get (em_orders em1) j = Some ord \<longrightarrow> (\<forall>s' t' q'. ord \<noteq> OcoLeg s' t' q' i)"
        using Cons.prems(3) by (auto simp: get(1) after_tick_leg split: option.splits if_splits)
      have "PlaceMarket s q i \<in> set (rest ! k') \<longleftrightarrow>
          retraced s a (trail_mark s w [m]) (map fst (take (Suc k') ticks))
          \<and> (\<forall>j < k'. \<not> retraced s a (trail_mark s w [m]) (map fst (take (Suc j) ticks)))"
        using Cons.IH [OF ok _ legs r(1) k'] next_order False by simp
      moreover have "(\<forall>j < k. P j) \<longleftrightarrow> P 0 \<and> (\<forall>j < k'. P (Suc j))" for P
        unfolding Suc by (simp add: All_less_Suc2)
      ultimately show ?thesis using False Suc r(2) shift t by simp
    qed
  qed
qed simp

theorem trailing_stop_fires_at_retracement_witness:
  "let em = snd (em_register (TrailingStop Sell 5 1 100) emulator_new);
       (outs, em') = emulator_run (map (\<lambda>t. TickAt (fst t) (snd t)) [(110, 0), (106, 1), (105, 2)]) em
   in PlaceMarket Sell 1 1 \<in> set (outs ! 2) \<and> PlaceMarket Sell 1 1 \<notin> set (outs ! 1)"
proof -
  let ?em = "snd (em_register (TrailingStop Sell 5 1 100) emulator_new)" and ?ticks = "[(110, 0), (106, 1), (105, 2)]"
  obtain outs em' where r: "emulator_run (map (\<lambda>t. TickAt (fst t) (snd t)) ?ticks) ?em = (outs, em')" by (rule prod.exhaust)
  have ok: "em_ok ?em" by (auto simp: em_ok_def em_register_def emulator_new_def hm_simps)
  have get: "hm_get (em_orders ?em) = [1 \<mapsto> TrailingStop Sell 5 1 100]"
    by (simp add: em_register_def emulator_new_def hm_simps)
  note fires = trailing_stop_fires_at_retracement [OF ok _ _ r]
  have "PlaceMarket Sell 1 1 \<in> set (outs ! 2)"
    by (subst fires [of 1 Sell 5 1 100]) (auto simp: get retraced_def trail_mark_def less_Suc_eq numeral_2_eq_2)
  moreover have "PlaceMarket Sell 1 1 \<notin> set (outs ! 1)"
    by (subst fires [of 1 Sell 5 1 100]) (auto simp: get retraced_def trail_mark_def)
  ultimately show ?thesis using r by simp
qed

text \<open>When a leg of a bracket fires, neither leg is registered any more.\<close>

lemma oco_one_cancels_other:
  assumes "hm_ok (em_orders em)" and "hm_get (em_orders em) i = Some (OcoLeg s t q j)"
    and "em_on_tick mid now em = (acts, em')" and "PlaceMarket s q i \<in> set acts"
  shows "hm_get (em_orders em') i = None \<and> hm_get (em_orders em') j = None"
proof -
  have "emits mid now i (OcoLeg s t q j) = Some (PlaceMarket s q i)"
    using assms(2,4) on_tick_get(2) [OF assms(1,3)] by simp
  then have "stop_triggered s t mid" by (auto simp: tick_order_def split: if_splits)
  then have "dropped mid now (em_orders em) j" and "emits mid now i (OcoLeg s t q j) \<noteq> None"
    using assms(2) unfolding dropped_def by (auto simp: tick_order_def intro!: exI [where x = i])
  then show ?thesis using assms(2) by (auto simp: on_tick_get(1) [OF assms(1,3)] split: option.split)
qed

text \<open>
  A bracket around a long position is left at the first tick. Register a stop-loss leg below and
  a take-profit leg above the market, both sells, as the module documents a bracket. A sell leg fires
  whenever the mid is at or below its trigger, so at any mid between the two, where neither should
  act, the take-profit sells at once and the stop-loss is cancelled.
\<close>

theorem oco_take_profit_fires_at_once:
  assumes "hm_ok (em_orders em)" and "em_orders em = [(i, OcoLeg Sell stop q j), (j, OcoLeg Sell target q i)]"
    and "stop < mid" and "mid \<le> target"
  shows "\<exists>em'. em_on_tick mid now em = ([PlaceMarket Sell q j], em') \<and> em_orders em' = []"
  using assms
  by (auto simp: em_on_tick_def tick_order_def stop_triggered_def hm_remove_def hm_ok_def)

theorem oco_take_profit_fires_at_once_witness:
  "\<exists>em'. em_on_tick 100 0 \<lparr>em_orders = [(1, OcoLeg Sell 95 1 2), (2, OcoLeg Sell 105 1 1)], em_next_id = 3\<rparr>
     = ([PlaceMarket Sell 1 2], em') \<and> em_orders em' = []"
  by (rule oco_take_profit_fires_at_once [where stop = 95 and target = 105]) (simp_all add: hm_ok_def)

end
