(* ===== verification/Dca_Planner.thy ===== *)
theory Dca_Planner
  imports Connector Kill_Switch Std_Text
begin

section \<open>The position-reduction planner\<close>

text \<open>
  \<^verbatim>\<open>crates/risk/src/dca.rs\<close>: a schedule of child orders that walks a position to a target; and its use
  in \<^verbatim>\<open>crates/engine/src/market_maker.rs\<close>: \<^verbatim>\<open>start_dca_reduction\<close>, \<^verbatim>\<open>cancel_dca_reduction\<close>,
  \<^verbatim>\<open>dispatch_due_dca_slices\<close> and \<^verbatim>\<open>dispatch_dca_slice\<close>. Durations and instants are nanoseconds. A result
  \<open>None\<close> is a panic: one of the two assertions, or a \<^verbatim>\<open>Duration\<close> product out of range.
\<close>

datatype size_curve = Flat | Linear decimal | Accelerated

record dca_request =
  dr_current :: decimal
  dr_target :: decimal
  dr_num_slices :: nat
  dr_interval :: nat
  dr_lot_size :: decimal
  dr_curve :: size_curve

record dca_slice =
  ds_offset :: nat
  ds_delta :: decimal
  ds_reduce_only :: bool

record dca_spec =
  dp_target :: decimal
  dp_num_slices :: nat
  dp_interval_secs :: u64
  dp_curve :: size_curve

definition NANOS :: nat where
  "NANOS = 1000000000"

definition duration_mul :: "nat \<Rightarrow> nat \<Rightarrow> nat option" where
  "duration_mul d k = (if d * k < 2 ^ 64 * NANOS then Some (d * k) else None)"

definition to_request :: "dca_spec \<Rightarrow> decimal \<Rightarrow> decimal \<Rightarrow> dca_request" where
  "to_request spec current lot =
     \<lparr>dr_current = current, dr_target = dp_target spec, dr_num_slices = dp_num_slices spec,
      dr_interval = unat (dp_interval_secs spec) * NANOS, dr_lot_size = lot, dr_curve = dp_curve spec\<rparr>"

definition defaults_for_level :: "kill_level \<Rightarrow> nat \<times> size_curve" where
  "defaults_for_level l =
     (case l of Normal \<Rightarrow> (10, Flat) | WidenSpreads \<Rightarrow> (6, Flat) | StopNewOrders \<Rightarrow> (5, Flat)
      | CancelAll \<Rightarrow> (5, Accelerated) | FlattenAll \<Rightarrow> (3, Accelerated) | Disconnect \<Rightarrow> (1, Flat))"

subsection \<open>Planning\<close>

definition slice_reduces_running_position :: "decimal \<Rightarrow> decimal \<Rightarrow> bool" where
  "slice_reduces_running_position running delta =
     (if running = 0 then False
      else if (0 < running) = (0 < delta) then False
      else \<bar>delta\<bar> \<le> \<bar>running\<bar>)"

definition curve_weights :: "size_curve \<Rightarrow> nat \<Rightarrow> decimal list" where
  "curve_weights c n =
     (case c of
        Flat \<Rightarrow> replicate n 1
      | Linear slope \<Rightarrow> map (\<lambda>i. max (1 + slope * of_nat i) 0) [0..<n]
      | Accelerated \<Rightarrow> map (\<lambda>i. of_nat (i + 1) * of_nat (i + 1)) [0..<n])"

text \<open>The loop over the weights; \<open>i\<close> is its index, \<open>accounted\<close> and \<open>running\<close> its variables.\<close>

fun slice_loop ::
  "(decimal \<Rightarrow> decimal \<Rightarrow> decimal) \<Rightarrow> dca_request \<Rightarrow> decimal \<Rightarrow> decimal \<Rightarrow> decimal
     \<Rightarrow> nat \<Rightarrow> decimal \<Rightarrow> decimal \<Rightarrow> decimal list \<Rightarrow> dca_slice list option" where
  "slice_loop ddiv req dir total_abs weight_sum i accounted running [] = Some []"
| "slice_loop ddiv req dir total_abs weight_sum i accounted running (w # ws) =
     (let raw = ddiv (total_abs * w) weight_sum;
          rounded = of_int \<lfloor>ddiv raw (dr_lot_size req)\<rfloor> * dr_lot_size req;
          size = (if i + 1 = dr_num_slices req then total_abs - accounted else rounded)
      in if size \<le> 0
         then slice_loop ddiv req dir total_abs weight_sum (i + 1) (accounted + size) running ws
         else let delta = dir * size
              in case duration_mul (dr_interval req) (i mod 2 ^ 32) of
                   None \<Rightarrow> None
                 | Some off \<Rightarrow>
                     map_option
                       (Cons \<lparr>ds_offset = off, ds_delta = delta,
                              ds_reduce_only = slice_reduces_running_position running delta\<rparr>)
                       (slice_loop ddiv req dir total_abs weight_sum (i + 1) (accounted + size) (running + delta) ws))"

definition dca_plan :: "(decimal \<Rightarrow> decimal \<Rightarrow> decimal) \<Rightarrow> dca_request \<Rightarrow> dca_slice list option" where
  "dca_plan ddiv req =
     (if dr_num_slices req = 0 \<or> dr_lot_size req \<le> 0 then None
      else let total_delta = dr_target req - dr_current req;
               weights = curve_weights (dr_curve req) (dr_num_slices req)
           in if total_delta = 0 then Some []
              else if sum_list weights \<le> 0 then Some []
              else slice_loop ddiv req (if 0 < total_delta then 1 else -1) \<bar>total_delta\<bar> (sum_list weights)
                     0 0 (dr_current req) weights)"

subsection \<open>The engine's schedule\<close>

record dca_state =
  pending_dca :: "dca_slice list"
  dca_started_at :: "timestamp option"

definition start_dca_reduction ::
  "(decimal \<Rightarrow> decimal \<Rightarrow> decimal) \<Rightarrow> decimal \<Rightarrow> decimal \<Rightarrow> timestamp \<Rightarrow> dca_spec \<Rightarrow> dca_state
     \<Rightarrow> (nat \<times> dca_state) option" where
  "start_dca_reduction ddiv inventory lot now spec st =
     map_option
       (\<lambda>slices. (length slices,
          st\<lparr>pending_dca := slices, dca_started_at := if 0 < length slices then Some now else None\<rparr>))
       (dca_plan ddiv (to_request spec inventory lot))"

definition cancel_dca_reduction :: "dca_state \<Rightarrow> dca_state" where
  "cancel_dca_reduction st = st\<lparr>pending_dca := [], dca_started_at := None\<rparr>"

definition show_int :: "int \<Rightarrow> string" where
  "show_int k = (if k < 0 then CHR ''-'' # show_nat (nat (- k)) else show_nat (nat k))"

definition dca_order :: "string \<Rightarrow> timestamp \<Rightarrow> dca_slice \<Rightarrow> new_order" where
  "dca_order symbol millis sl =
     \<lparr>no_symbol = symbol, no_side = (if 0 < ds_delta sl then Buy else Sell), no_order_type = Market,
      no_price = None, no_qty = \<bar>ds_delta sl\<bar>, no_time_in_force = Some Ioc,
      no_client_order_id = Some ((if ds_reduce_only sl then ''dca-red'' else ''dca-add'') @ ''-'' @ show_int millis
        @ ''-'' @ show_nat (ds_offset sl div NANOS)),
      no_reduce_only = ds_reduce_only sl\<rparr>"

definition dispatch_dca_slice :: "'v connector \<Rightarrow> string \<Rightarrow> dca_slice \<Rightarrow> 'v \<Rightarrow> 'v" where
  "dispatch_dca_slice conn symbol sl v =
     (case utc_now conn v of (millis, v1) \<Rightarrow> snd (place_order conn (dca_order symbol millis sl) v1))"

primrec due_loop :: "'v connector \<Rightarrow> string \<Rightarrow> nat \<Rightarrow> dca_slice list \<Rightarrow> 'v \<Rightarrow> dca_slice list \<times> 'v" where
  "due_loop conn symbol elapsed [] v = ([], v)"
| "due_loop conn symbol elapsed (s # ss) v =
     (if elapsed < ds_offset s then (s # ss, v)
      else due_loop conn symbol elapsed ss (dispatch_dca_slice conn symbol s v))"

definition dispatch_due_dca_slices :: "'v connector \<Rightarrow> string \<Rightarrow> timestamp \<Rightarrow> dca_state \<Rightarrow> 'v \<Rightarrow> dca_state \<times> 'v" where
  "dispatch_due_dca_slices conn symbol now st v =
     (case dca_started_at st of
        None \<Rightarrow> (st\<lparr>pending_dca := []\<rparr>, v)
      | Some started \<Rightarrow>
          (case due_loop conn symbol (nat (now - started)) (pending_dca st) v of
             (rest, v1) \<Rightarrow>
               (st\<lparr>pending_dca := rest, dca_started_at := if rest = [] then None else Some started\<rparr>, v1)))"

text \<open>The call in \<^verbatim>\<open>refresh_quotes\<close>.\<close>

definition dca_tick :: "'v connector \<Rightarrow> string \<Rightarrow> timestamp \<Rightarrow> dca_state \<Rightarrow> 'v \<Rightarrow> dca_state \<times> 'v" where
  "dca_tick conn symbol now st v =
     (if pending_dca st = [] then (st, v) else dispatch_due_dca_slices conn symbol now st v)"

subsection \<open>The loop\<close>

lemma curve_weights_length [simp]: "length (curve_weights c n) = n"
  by (simp add: curve_weights_def split: size_curve.split)

lemma curve_weights_nonneg: "\<forall>w \<in> set (curve_weights c n). 0 \<le> w"
  by (auto simp: curve_weights_def split: size_curve.split)

lemma curve_weights_sum: "0 < n \<Longrightarrow> 0 < sum_list (curve_weights c n)"
proof -
  assume "0 < n"
  then obtain m where n: "n = Suc m" by (cases n) auto
  have "0 < hd (curve_weights c n)" and "curve_weights c n \<noteq> []"
    using n by (auto simp: curve_weights_def hd_append upt_conv_Cons simp del: upt_Suc split: size_curve.split)
  then show ?thesis
    using curve_weights_nonneg [of c n] sum_list_nonneg_decimal [of "tl (curve_weights c n)"]
    by (cases "curve_weights c n") auto
qed

text \<open>What the rounding gives each slice but the last.\<close>

definition rounded_size :: "(decimal \<Rightarrow> decimal \<Rightarrow> decimal) \<Rightarrow> dca_request \<Rightarrow> decimal \<Rightarrow> decimal \<Rightarrow> decimal \<Rightarrow> decimal" where
  "rounded_size ddiv req total_abs weight_sum w =
     of_int \<lfloor>ddiv (ddiv (total_abs * w) weight_sum) (dr_lot_size req)\<rfloor> * dr_lot_size req"

lemma rounded_size_bounds:
  assumes "decimal_division ddiv eps" and "0 < dr_lot_size req" and "0 < ws" and "0 \<le> w" and "0 \<le> t"
  shows "0 \<le> rounded_size ddiv req t ws w"
    and "rounded_size ddiv req t ws w \<le> t * w / ws + (1 + dr_lot_size req) * eps"
proof -
  let ?lot = "dr_lot_size req" and ?raw = "ddiv (t * w) ws"
  have raw: "0 \<le> ?raw" "?raw \<le> t * w / ws + eps"
    using decimal_division.ddiv_nonneg [OF assms(1,3)] decimal_division.ddiv_error [OF assms(1), of ws "t * w"] assms
    by (auto simp: abs_le_iff)
  have q: "0 \<le> ddiv ?raw ?lot" "ddiv ?raw ?lot \<le> ?raw / ?lot + eps"
    using decimal_division.ddiv_nonneg [OF assms(1,2)] decimal_division.ddiv_error [OF assms(1), of ?lot ?raw] assms raw
    by (auto simp: abs_le_iff)
  then show "0 \<le> rounded_size ddiv req t ws w" using assms(2) by (simp add: rounded_size_def)
  have "rounded_size ddiv req t ws w \<le> (?raw / ?lot + eps) * ?lot"
    unfolding rounded_size_def using assms(2) q(2) by (intro mult_right_mono) (auto simp: le_floor_iff intro: order_trans [OF of_int_floor_le])
  also have "\<dots> = ?raw + eps * ?lot" using assms(2) by (simp add: field_simps)
  finally show "rounded_size ddiv req t ws w \<le> t * w / ws + (1 + ?lot) * eps"
    using raw(2) by (simp add: algebra_simps)
qed

lemma slice_loop_Cons:
  "slice_loop ddiv req dir t wsum i acc run (w # ws) =
     (let size = (if i + 1 = dr_num_slices req then t - acc else rounded_size ddiv req t wsum w)
      in if size \<le> 0 then slice_loop ddiv req dir t wsum (i + 1) (acc + size) run ws
         else case duration_mul (dr_interval req) (i mod 2 ^ 32) of
                None \<Rightarrow> None
              | Some off \<Rightarrow>
                  map_option
                    (Cons \<lparr>ds_offset = off, ds_delta = dir * size,
                           ds_reduce_only = slice_reduces_running_position run (dir * size)\<rparr>)
                    (slice_loop ddiv req dir t wsum (i + 1) (acc + size) (run + dir * size) ws))"
  unfolding slice_loop.simps rounded_size_def Let_def by (rule refl)

declare slice_loop.simps(2) [simp del]

lemmas slice_loop_step = slice_loop_Cons [unfolded Let_def]

lemma slice_loop_returns:
  assumes "dr_interval req * dr_num_slices req < 2 ^ 64 * NANOS" and "i + length ws = dr_num_slices req"
  shows "\<exists>ss. slice_loop ddiv req dir t wsum i acc run ws = Some ss"
  using assms(2)
proof (induction ws arbitrary: i acc run)
  case (Cons w ws)
  have "i mod 2 ^ 32 \<le> i" by simp
  also have "i \<le> dr_num_slices req" using Cons.prems by simp
  finally have "dr_interval req * (i mod 2 ^ 32) \<le> dr_interval req * dr_num_slices req" by (rule mult_le_mono2)
  then have "duration_mul (dr_interval req) (i mod 2 ^ 32) = Some (dr_interval req * (i mod 2 ^ 32))"
    unfolding duration_mul_def by (intro if_P le_less_trans [OF _ assms(1)])
  moreover have "\<exists>ss. slice_loop ddiv req dir t wsum (i + 1) a r ws = Some ss" for a r
    using Cons.prems by (intro Cons.IH) simp
  ultimately show ?case unfolding slice_loop_Cons Let_def by (auto split: if_splits)
qed simp

text \<open>The total of the slices: never less than what is left, and more only when rounding pushed the earlier
  slices past it.\<close>

lemma slice_loop_total:
  assumes "decimal_division ddiv eps" and "0 < dr_lot_size req" and "0 < wsum" and "0 \<le> t"
    and "\<forall>w \<in> set ws. 0 \<le> w" and "i + length ws = dr_num_slices req" and "ws \<noteq> []"
    and "slice_loop ddiv req dir t wsum i acc run ws = Some ss"
  shows "\<exists>total. sum_list (map ds_delta ss) = dir * total \<and> t - acc \<le> total
    \<and> total \<le> max (t - acc) (sum_list (map (rounded_size ddiv req t wsum) (butlast ws)))"
  using assms(5-8)
proof (induction ws arbitrary: i acc run ss)
  case (Cons w ws)
  let ?r = "rounded_size ddiv req t wsum"
  have rest: "0 \<le> sum_list (map ?r (butlast vs))" if "\<forall>v \<in> set vs. 0 \<le> v" for vs
    using that assms(1-4) by (intro sum_list_nonneg_decimal) (auto dest!: in_set_butlastD intro: rounded_size_bounds(1))
  show ?case
  proof (cases "ws = []")
    case True
    then show ?thesis using Cons.prems
      by (auto simp: slice_loop_step split: if_splits option.splits
          intro: exI [where x = "t - acc"] exI [where x = 0])
  next
    case False
    then have last: "i + 1 \<noteq> dr_num_slices req" and bl: "butlast (w # ws) = w # butlast ws"
      using Cons.prems(2) by (cases ws, auto)
    have w: "0 \<le> ?r w" using Cons.prems(1) assms(1-4) by (intro rounded_size_bounds(1)) auto
    define run' where "run' = (if ?r w \<le> 0 then run else run + dir * ?r w)"
    obtain ss' where s': "slice_loop ddiv req dir t wsum (i + 1) (acc + ?r w) run' ws = Some ss'"
      and ss: "sum_list (map ds_delta ss) = dir * ?r w + sum_list (map ds_delta ss')"
      using Cons.prems(4) w last by (auto simp: slice_loop_step run'_def split: if_splits option.splits)
    from Cons.IH [OF _ _ False s'] Cons.prems(1,2) obtain total where
      "sum_list (map ds_delta ss') = dir * total" "t - (acc + ?r w) \<le> total"
      "total \<le> max (t - (acc + ?r w)) (sum_list (map ?r (butlast ws)))" by auto
    then show ?thesis
      using ss w bl by (intro exI [where x = "?r w + total"]) (auto simp: algebra_simps max_def split: if_splits)
  qed
qed simp

lemma rounded_sum_bound:
  assumes "decimal_division ddiv eps" and "0 < dr_lot_size req" and "0 < wsum" and "0 \<le> t" and "\<forall>w \<in> set ws. 0 \<le> w"
  shows "sum_list (map (rounded_size ddiv req t wsum) ws)
    \<le> t * sum_list ws / wsum + of_nat (length ws) * ((1 + dr_lot_size req) * eps)"
  using assms(5)
proof (induction ws)
  case (Cons w ws)
  then have "rounded_size ddiv req t wsum w \<le> t * w / wsum + (1 + dr_lot_size req) * eps"
    using assms(1-4) by (intro rounded_size_bounds(2)) auto
  then show ?case using Cons by (simp add: algebra_simps add_divide_distrib)
qed simp

lemma slice_loop_ConsE:
  assumes "slice_loop ddiv req dir t wsum i acc run (w # ws) = Some ss"
  obtains (skip) size where "size \<le> 0" "slice_loop ddiv req dir t wsum (i + 1) (acc + size) run ws = Some ss"
  | (emit) size off ss' where "0 < size" "duration_mul (dr_interval req) (i mod 2 ^ 32) = Some off"
      "size = (if i + 1 = dr_num_slices req then t - acc else rounded_size ddiv req t wsum w)"
      "ss = \<lparr>ds_offset = off, ds_delta = dir * size, ds_reduce_only = slice_reduces_running_position run (dir * size)\<rparr> # ss'"
      "slice_loop ddiv req dir t wsum (i + 1) (acc + size) (run + dir * size) ws = Some ss'"
proof (cases "(if i + 1 = dr_num_slices req then t - acc else rounded_size ddiv req t wsum w) \<le> 0")
  case True
  then show ?thesis using assms skip unfolding slice_loop_Cons Let_def by simp
next
  case False
  then show ?thesis using assms emit unfolding slice_loop_Cons Let_def by (auto split: option.splits if_splits)
qed

text \<open>Every slice moves in the direction of the target.\<close>

lemma slice_loop_direction:
  "slice_loop ddiv req dir t wsum i acc run ws = Some ss \<Longrightarrow> s \<in> set ss \<Longrightarrow> \<exists>size > 0. ds_delta s = dir * size"
proof (induction ws arbitrary: i acc run ss)
  case (Cons w ws)
  from Cons.prems(1) show ?case by (cases rule: slice_loop_ConsE) (use Cons in auto)
qed simp

text \<open>A slice is flagged reduce-only exactly when it brings the position it meets closer to zero without
  crossing it.\<close>

definition moves_towards_zero :: "decimal \<Rightarrow> decimal \<Rightarrow> bool" where
  "moves_towards_zero p d \<longleftrightarrow> \<bar>p + d\<bar> < \<bar>p\<bar> \<and> 0 \<le> p * (p + d)"

lemma reduces_iff: "d \<noteq> 0 \<Longrightarrow> slice_reduces_running_position p d \<longleftrightarrow> moves_towards_zero p d"
  by (auto simp: slice_reduces_running_position_def moves_towards_zero_def zero_le_mult_iff abs_if)

lemma slice_loop_reduce_only:
  assumes "slice_loop ddiv req dir t wsum i acc run ws = Some ss" and "dir \<noteq> 0" and "k < length ss"
  shows "ds_reduce_only (ss ! k) \<longleftrightarrow> moves_towards_zero (run + sum_list (map ds_delta (take k ss))) (ds_delta (ss ! k))"
  using assms
proof (induction ws arbitrary: i acc run ss k)
  case (Cons w ws)
  from Cons.prems(1) show ?case
  proof (cases rule: slice_loop_ConsE)
    case (emit size off ss')
    then show ?thesis
      using Cons.IH [OF emit(5) Cons.prems(2), of "k - 1"] Cons.prems(2,3) by (cases k) (simp_all add: reduces_iff add.assoc)
  qed (use Cons in simp)
qed simp

text \<open>Every slice but the one for the last index is a whole number of lots.\<close>

lemma slice_loop_lots:
  assumes "slice_loop ddiv req dir t wsum i acc run ws = Some ss" and "i + length ws = dr_num_slices req"
    and "0 < dr_lot_size req" and "Suc k < length ss"
  shows "\<exists>m > 0. ds_delta (ss ! k) = dir * (of_nat m * dr_lot_size req)"
  using assms
proof (induction ws arbitrary: i acc run ss k)
  case (Cons w ws)
  from Cons.prems(1) show ?case
  proof (cases rule: slice_loop_ConsE)
    case (emit size off ss')
    show ?thesis
    proof (cases k)
      case 0
      then have "ws \<noteq> []" using emit Cons.prems(4) by auto
      then have "i + 1 \<noteq> dr_num_slices req" using Cons.prems(2) by (cases ws) auto
      then have size: "size = of_int \<lfloor>ddiv (ddiv (t * w) wsum) (dr_lot_size req)\<rfloor> * dr_lot_size req"
        using emit(3) by (simp add: rounded_size_def)
      then have "0 < \<lfloor>ddiv (ddiv (t * w) wsum) (dr_lot_size req)\<rfloor>"
        using Cons.prems(3) emit(1) by (simp add: zero_less_mult_iff)
      then show ?thesis using emit(4) 0 size
        by (intro exI [where x = "nat \<lfloor>ddiv (ddiv (t * w) wsum) (dr_lot_size req)\<rfloor>"]) simp
    next
      case (Suc k')
      then show ?thesis using emit(4) Cons.IH [OF emit(5), of k'] Cons.prems(2-4) by simp
    qed
  qed (use Cons in simp)
qed simp

lemma slice_loop_offsets:
  assumes "slice_loop ddiv req dir t wsum i acc run ws = Some ss" and "i + length ws \<le> 2 ^ 32"
  shows "sorted (map ds_offset ss) \<and> (\<forall>s \<in> set ss. dr_interval req * i \<le> ds_offset s)"
  using assms
proof (induction ws arbitrary: i acc run ss)
  case (Cons w ws)
  have next_i: "dr_interval req * i \<le> dr_interval req * (i + 1)" by simp
  from Cons.prems(1) show ?case
  proof (cases rule: slice_loop_ConsE)
    case (skip size)
    then show ?thesis using Cons.IH [OF skip(2)] Cons.prems(2) by (auto intro: order_trans [OF next_i])
  next
    case (emit size off ss')
    have "off = dr_interval req * i" using emit(2) Cons.prems(2) by (auto simp: duration_mul_def split: if_splits)
    then show ?thesis using emit(4) Cons.IH [OF emit(5)] Cons.prems(2) by (auto intro: order_trans [OF next_i])
  qed
qed simp

lemma butlast_sum_le: "\<forall>w \<in> set ws. 0 \<le> (w::decimal) \<Longrightarrow> sum_list (butlast ws) \<le> sum_list ws"
  by (induction ws) auto

subsection \<open>Properties\<close>

text \<open>
  C21: the schedule walks the position to the target. With at least one slice, a positive lot and a
  schedule that fits a \<^verbatim>\<open>Duration\<close>, planning does not panic; the deltas add up to the distance between
  the position and the target, exactly when division is exact and otherwise up to the rounding of one
  division per slice, and never fall short of it; every slice goes towards the target; a slice is
  flagged reduce-only exactly when it brings the position it meets closer to zero, or to zero, without
  crossing it, so a slice that crosses zero is not flagged even where it leaves a smaller position on
  the other side, which the comments of the field and of the helper would have flagged; every slice
  but the last is a whole number of lots; and the offsets ascend.
\<close>

theorem dca_plan_reaches_target:
  assumes "decimal_division ddiv eps" and "0 < dr_num_slices req" and "dr_num_slices req \<le> 2 ^ 32"
    and "0 < dr_lot_size req" and "dr_interval req * dr_num_slices req < 2 ^ 64 * NANOS"
  shows "\<exists>ss. dca_plan ddiv req = Some ss
    \<and> (let gap = dr_current req + sum_list (map ds_delta ss) - dr_target req
       in \<bar>gap\<bar> \<le> of_nat (dr_num_slices req) * ((1 + dr_lot_size req) * eps)
          \<and> 0 \<le> gap * (dr_target req - dr_current req))
    \<and> (\<forall>s \<in> set ss. 0 < ds_delta s * (dr_target req - dr_current req))
    \<and> (\<forall>k < length ss. ds_reduce_only (ss ! k) \<longleftrightarrow>
         moves_towards_zero (dr_current req + sum_list (map ds_delta (take k ss))) (ds_delta (ss ! k)))
    \<and> (\<forall>k. Suc k < length ss \<longrightarrow> (\<exists>m > 0. \<bar>ds_delta (ss ! k)\<bar> = of_nat m * dr_lot_size req))
    \<and> sorted (map ds_offset ss)"
proof (cases "dr_target req = dr_current req")
  case True
  then show ?thesis using assms decimal_division.eps_nonneg [OF assms(1)] by (simp add: dca_plan_def)
next
  case False
  let ?ws = "curve_weights (dr_curve req) (dr_num_slices req)"
  define dir :: decimal where "dir = (if 0 < dr_target req - dr_current req then 1 else - 1)"
  define t where "t = \<bar>dr_target req - dr_current req\<bar>"
  have dir: "dr_target req - dr_current req = dir * t" "dir * dir = 1" "dir \<noteq> 0" "\<bar>dir\<bar> = 1" and t: "0 < t"
    using False by (auto simp: dir_def t_def)
  have ws: "0 < sum_list ?ws" "\<forall>w \<in> set ?ws. 0 \<le> w" "?ws \<noteq> []"
    using curve_weights_sum [OF assms(2)] curve_weights_nonneg [of "dr_curve req"] assms(2)
    by (auto simp flip: length_greater_0_conv)
  have plan: "dca_plan ddiv req = slice_loop ddiv req dir t (sum_list ?ws) 0 0 (dr_current req) ?ws"
    using False assms(2,4) ws(1) by (simp add: dca_plan_def dir_def t_def Let_def)
  obtain ss where ss: "slice_loop ddiv req dir t (sum_list ?ws) 0 0 (dr_current req) ?ws = Some ss"
    using slice_loop_returns [OF assms(5)] by fastforce
  obtain total where total: "sum_list (map ds_delta ss) = dir * total" "t \<le> total"
    "total \<le> max t (sum_list (map (rounded_size ddiv req t (sum_list ?ws)) (butlast ?ws)))"
    using slice_loop_total [OF assms(1,4) ws(1) _ ws(2) _ ws(3) ss] t by auto
  let ?tol = "of_nat (dr_num_slices req) * ((1 + dr_lot_size req) * eps)"
  have eps: "0 \<le> (1 + dr_lot_size req) * eps" using decimal_division.eps_nonneg [OF assms(1)] assms(4) by simp
  have "sum_list (butlast ?ws) \<le> sum_list ?ws"
    by (rule butlast_sum_le [OF ws(2)])
  then have "t * sum_list (butlast ?ws) / sum_list ?ws \<le> t" using ws(1) t by (simp add: divide_le_eq)
  moreover have "of_nat (length (butlast ?ws)) * ((1 + dr_lot_size req) * eps) \<le> ?tol"
    using eps by (intro mult_right_mono) auto
  moreover have "sum_list (map (rounded_size ddiv req t (sum_list ?ws)) (butlast ?ws))
      \<le> t * sum_list (butlast ?ws) / sum_list ?ws + of_nat (length (butlast ?ws)) * ((1 + dr_lot_size req) * eps)"
    using ws(2) t by (intro rounded_sum_bound [OF assms(1,4) ws(1)]) (auto dest: in_set_butlastD)
  moreover have "0 \<le> ?tol" using eps by simp
  ultimately have "total \<le> t + ?tol" using total(3) by linarith
  have gap: "dr_current req + sum_list (map ds_delta ss) - dr_target req = dir * (total - t)"
    using total(1) dir(1) by (simp add: algebra_simps)
  have near: "\<bar>dir * (total - t)\<bar> \<le> ?tol" and past: "0 \<le> dir * (total - t) * (dir * t)"
    using \<open>total \<le> t + ?tol\<close> total(2) t by (auto simp: dir_def mult_nonpos_nonneg)
  have towards: "\<forall>s \<in> set ss. 0 < ds_delta s * (dir * t)"
    using slice_loop_direction [OF ss] t by (fastforce simp: dir_def)
  have reduce: "\<forall>k < length ss. ds_reduce_only (ss ! k) \<longleftrightarrow>
         moves_towards_zero (dr_current req + sum_list (map ds_delta (take k ss))) (ds_delta (ss ! k))"
    using slice_loop_reduce_only [OF ss dir(3)] by blast
  have lots: "\<forall>k. Suc k < length ss \<longrightarrow> (\<exists>m > 0. \<bar>ds_delta (ss ! k)\<bar> = of_nat m * dr_lot_size req)"
  proof (intro allI impI)
    fix k assume "Suc k < length ss"
    then obtain m where "0 < m" "ds_delta (ss ! k) = dir * (of_nat m * dr_lot_size req)"
      using slice_loop_lots [OF ss _ assms(4)] by auto
    then show "\<exists>m > 0. \<bar>ds_delta (ss ! k)\<bar> = of_nat m * dr_lot_size req"
      using assms(4) dir(4) by (intro exI [where x = m]) (simp add: abs_mult)
  qed
  have "sorted (map ds_offset ss)" using slice_loop_offsets [OF ss] assms(3) by simp
  then show ?thesis
    unfolding plan ss Let_def dir(1)
    by (intro exI [where x = ss] conjI refl near [folded gap] past [folded gap] towards reduce lots)
qed

lemma crossing_slice_not_reduce_only:
  "\<not> slice_reduces_running_position 5 (- 7)" and "\<bar>5 + (- 7)\<bar> < \<bar>5 :: decimal\<bar>"
  by (simp_all add: slice_reduces_running_position_def)

definition demo_request :: dca_request where
  "demo_request = \<lparr>dr_current = 10, dr_target = 0, dr_num_slices = 3, dr_interval = 5 * NANOS, dr_lot_size = 1, dr_curve = Flat\<rparr>"

theorem dca_plan_reaches_target_witness:
  "\<exists>ss. dca_plan (/) demo_request = Some ss \<and> 10 + sum_list (map ds_delta ss) = 0 \<and> (\<forall>s \<in> set ss. ds_delta s < 0)"
proof -
  have "dr_interval demo_request * dr_num_slices demo_request < 2 ^ 64 * NANOS" by (simp add: demo_request_def NANOS_def)
  with dca_plan_reaches_target [OF exact_division.decimal_division_axioms, of demo_request]
  show ?thesis by (auto simp: demo_request_def Let_def)
qed

text \<open>The schedule at work.\<close>

lemma due_loop_eq:
  "due_loop conn symbol elapsed ss v =
     (dropWhile (\<lambda>s. ds_offset s \<le> elapsed) ss,
      fold (dispatch_dca_slice conn symbol) (takeWhile (\<lambda>s. ds_offset s \<le> elapsed) ss) v)"
  by (induction ss arbitrary: v) auto

lemma sorted_due:
  assumes "sorted (map ds_offset ss)"
  shows "dropWhile (\<lambda>s. ds_offset s \<le> e) ss = filter (\<lambda>s. e < ds_offset s) ss"
    and "takeWhile (\<lambda>s. ds_offset s \<le> e) ss = filter (\<lambda>s. ds_offset s \<le> e) ss"
proof -
  have "dropWhile (\<lambda>s. ds_offset s \<le> e) ss = filter (\<lambda>s. e < ds_offset s) ss
      \<and> takeWhile (\<lambda>s. ds_offset s \<le> e) ss = filter (\<lambda>s. ds_offset s \<le> e) ss"
    using assms
  proof (induction ss)
    case (Cons a ss)
    show ?case
    proof (cases "ds_offset a \<le> e")
      case False
      then have "filter (\<lambda>s. e < ds_offset s) ss = ss" and "filter (\<lambda>s. ds_offset s \<le> e) ss = []"
        using Cons.prems by (auto simp: filter_id_conv filter_empty_conv not_le)
      then show ?thesis using False by simp
    qed (use Cons in simp)
  qed simp
  then show "dropWhile (\<lambda>s. ds_offset s \<le> e) ss = filter (\<lambda>s. e < ds_offset s) ss"
    and "takeWhile (\<lambda>s. ds_offset s \<le> e) ss = filter (\<lambda>s. ds_offset s \<le> e) ss" by blast+
qed

lemma sorted_split:
  assumes "sorted (map ds_offset ss)"
  shows "filter (\<lambda>s. ds_offset s \<le> e \<or> P s) ss
    = filter (\<lambda>s. ds_offset s \<le> e) ss @ filter P (filter (\<lambda>s. e < ds_offset s) ss)"
proof -
  let ?low = "filter (\<lambda>s. ds_offset s \<le> e) ss" and ?high = "filter (\<lambda>s. e < ds_offset s) ss"
  have whole: "?low @ ?high = ss"
    unfolding sorted_due [OF assms, symmetric] by (rule takeWhile_dropWhile_id)
  have low: "filter (\<lambda>s. ds_offset s \<le> e \<or> P s) ?low = ?low"
    unfolding filter_filter by (rule filter_cong) auto
  have high: "filter (\<lambda>s. ds_offset s \<le> e \<or> P s) ?high = filter P ?high"
    unfolding filter_filter by (rule filter_cong) auto
  have "filter (\<lambda>s. ds_offset s \<le> e \<or> P s) ss = filter (\<lambda>s. ds_offset s \<le> e \<or> P s) (?low @ ?high)"
    by (simp only: whole)
  then show ?thesis by (simp only: filter_append low high)
qed

definition dca_run :: "'v connector \<Rightarrow> string \<Rightarrow> timestamp list \<Rightarrow> dca_state \<Rightarrow> 'v \<Rightarrow> dca_state \<times> 'v" where
  "dca_run conn symbol nows st v = fold (\<lambda>now sv. dca_tick conn symbol now (fst sv) (snd sv)) nows (st, v)"

lemma dca_tick_due:
  assumes "sorted (map ds_offset (pending_dca st))" and "dca_started_at st = Some t0"
  shows "\<exists>st'. dca_tick conn symbol now st v =
      (st', fold (dispatch_dca_slice conn symbol) (filter (\<lambda>s. ds_offset s \<le> nat (now - t0)) (pending_dca st)) v)
    \<and> pending_dca st' = filter (\<lambda>s. nat (now - t0) < ds_offset s) (pending_dca st)
    \<and> (pending_dca st' \<noteq> [] \<longrightarrow> dca_started_at st' = Some t0)"
  using assms by (auto simp: dca_tick_def dispatch_due_dca_slices_def due_loop_eq sorted_due)

text \<open>
  Every slice is dispatched once, in order, and not early. Over any refreshes of the engine, the
  slices that were sent are exactly those whose offset had elapsed at one of them, each once and in
  the order of the plan, whether or not the venue accepted the earlier ones; the others are pending.
\<close>

theorem dca_slices_dispatched_when_due:
  assumes "sorted (map ds_offset (pending_dca st))" and "dca_started_at st = Some t0"
  shows "\<exists>st'. dca_run conn symbol nows st v =
      (st', fold (dispatch_dca_slice conn symbol)
              (filter (\<lambda>s. \<exists>now \<in> set nows. ds_offset s \<le> nat (now - t0)) (pending_dca st)) v)
    \<and> pending_dca st' = filter (\<lambda>s. \<forall>now \<in> set nows. nat (now - t0) < ds_offset s) (pending_dca st)"
  using assms
proof (induction nows arbitrary: st v)
  case Nil
  then show ?case by (simp add: dca_run_def)
next
  case (Cons now nows)
  let ?ss = "pending_dca st" and ?e = "nat (now - t0)"
  obtain st1 where t: "dca_tick conn symbol now st v =
      (st1, fold (dispatch_dca_slice conn symbol) (filter (\<lambda>s. ds_offset s \<le> ?e) ?ss) v)"
    and p: "pending_dca st1 = filter (\<lambda>s. ?e < ds_offset s) ?ss"
    and s: "pending_dca st1 \<noteq> [] \<longrightarrow> dca_started_at st1 = Some t0"
    using dca_tick_due [OF Cons.prems, of conn symbol now v] by (elim exE conjE) (rule that)
  have srt: "sorted (map ds_offset (pending_dca st1))" using Cons.prems(1) p by (simp add: sorted_filter)
  have run: "dca_run conn symbol (now # nows) st v
      = dca_run conn symbol nows st1 (fold (dispatch_dca_slice conn symbol) (filter (\<lambda>s. ds_offset s \<le> ?e) ?ss) v)"
    by (simp add: dca_run_def t)
  have split: "filter (\<lambda>s. \<exists>n \<in> set (now # nows). ds_offset s \<le> nat (n - t0)) ?ss =
      filter (\<lambda>s. ds_offset s \<le> ?e) ?ss @ filter (\<lambda>s. \<exists>n \<in> set nows. ds_offset s \<le> nat (n - t0)) (pending_dca st1)"
    using sorted_split [OF Cons.prems(1), of ?e] by (simp add: p)
  have rest: "filter (\<lambda>s. \<forall>n \<in> set (now # nows). nat (n - t0) < ds_offset s) ?ss
      = filter (\<lambda>s. \<forall>n \<in> set nows. nat (n - t0) < ds_offset s) (pending_dca st1)"
    by (simp add: p conj_commute)
  show ?case
  proof (cases "pending_dca st1 = []")
    case True
    have "dca_run conn symbol nows st1 v' = (st1, v')" for v'
      unfolding dca_run_def by (induction nows) (simp_all add: dca_tick_def True)
    then show ?thesis unfolding run split rest by (simp add: True)
  next
    case False
    then show ?thesis unfolding run split rest fold_append comp_apply using Cons.IH [OF srt] s by blast
  qed
qed

definition slice_at :: "nat \<Rightarrow> dca_slice" where
  "slice_at secs = \<lparr>ds_offset = secs * NANOS, ds_delta = -1, ds_reduce_only = True\<rparr>"

theorem dca_slices_dispatched_when_due_witness:
  "pending_dca (fst (dca_run (mock_conn 20) ''BTC'' [1000000000, 7000000000]
      \<lparr>pending_dca = [slice_at 0, slice_at 5, slice_at 10], dca_started_at = Some 0\<rparr> mock_new)) = [slice_at 10]"
proof -
  let ?st = "\<lparr>pending_dca = [slice_at 0, slice_at 5, slice_at 10], dca_started_at = Some 0\<rparr>"
  have "sorted (map ds_offset (pending_dca ?st))" by (simp add: slice_at_def NANOS_def)
  from dca_slices_dispatched_when_due [OF this, of 0 "mock_conn 20" "''BTC''" "[1000000000, 7000000000]" mock_new]
  show ?thesis by (auto simp: slice_at_def NANOS_def)
qed

text \<open>The residual of the last slice may be below the lot size, although the module promises that no slice
  is.\<close>

lemma last_slice_below_lot:
  "dca_plan (/) \<lparr>dr_current = 1 / 2, dr_target = 0, dr_num_slices = 2, dr_interval = NANOS, dr_lot_size = 1, dr_curve = Flat\<rparr>
     = Some [\<lparr>ds_offset = NANOS, ds_delta = - 1 / 2, ds_reduce_only = True\<rparr>]"
proof -
  have "\<lfloor>1 / 4 :: decimal\<rfloor> = 0" by (simp add: floor_eq_iff)
  moreover have "[0..<2] = [0, 1 :: nat]" "replicate 2 x = [x, x]" for x :: decimal
    by (simp_all add: upt_conv_Cons numeral_2_eq_2)
  ultimately show ?thesis
    by (simp add: dca_plan_def curve_weights_def slice_loop_step rounded_size_def duration_mul_def NANOS_def
        slice_reduces_running_position_def Let_def)
qed

end
