(* ===== verification/Sor_Router.thy ===== *)
theory Sor_Router
  imports Book_Keeper "HOL-Library.Multiset" "HOL-Library.Product_Lexorder" "HOL-Library.List_Lexorder" "HOL-Library.Char_ord"
begin

section \<open>The smart order router\<close>

text \<open>
  \<^verbatim>\<open>crates/engine/src/sor\<close>: the cost model (\<^verbatim>\<open>cost.rs\<close>), the venue seeds (\<^verbatim>\<open>venue_state.rs\<close>), the
  trade-rate estimator (\<^verbatim>\<open>trade_rate.rs\<close>) and the two routers (\<^verbatim>\<open>router.rs\<close>). A seed map is a hash map
  whose order stands for its iteration order. \<^verbatim>\<open>sort_by\<close> and \<^verbatim>\<open>sort_by_key\<close> are stable, as
  \<open>sort_key\<close> is. Decimal division is the parameter of the prelude.
\<close>

datatype venue_product = Spot | LinearPerp | InversePerp | UsdMarginedFuture | CoinMarginedFuture | OptionProduct

text \<open>\<^verbatim>\<open>venue as u8\<close> and \<^verbatim>\<open>product as u8\<close>.\<close>

primrec venue_ordinal :: "venue_id \<Rightarrow> nat" where
  "venue_ordinal Custom = 0"
| "venue_ordinal Binance = 1"
| "venue_ordinal Bybit = 2"
| "venue_ordinal Okx = 3"
| "venue_ordinal Kraken = 4"
| "venue_ordinal Coinbase = 5"
| "venue_ordinal HyperLiquid = 6"

primrec product_ordinal :: "venue_product \<Rightarrow> nat" where
  "product_ordinal Spot = 0"
| "product_ordinal LinearPerp = 1"
| "product_ordinal InversePerp = 2"
| "product_ordinal UsdMarginedFuture = 3"
| "product_ordinal CoinMarginedFuture = 4"
| "product_ordinal OptionProduct = 5"

subsection \<open>Venue state\<close>

record venue_snapshot =
  vs_venue :: venue_id
  vs_symbol :: string
  vs_available_qty :: qty
  vs_rate_limit_remaining :: u32
  vs_maker_fee_bps :: decimal
  vs_taker_fee_bps :: decimal
  vs_best_bid :: price
  vs_best_ask :: price
  vs_queue_wait_secs :: decimal
  vs_slippage_bps_per_unit :: decimal

definition vs_mid_price :: "(decimal \<Rightarrow> decimal \<Rightarrow> decimal) \<Rightarrow> venue_snapshot \<Rightarrow> price" where
  "vs_mid_price ddiv s = (if vs_best_bid s = 0 \<or> vs_best_ask s = 0 then 0 else ddiv (vs_best_bid s + vs_best_ask s) 2)"

definition is_available :: "venue_snapshot \<Rightarrow> bool" where
  "is_available s \<longleftrightarrow> 0 < vs_available_qty s \<and> 0 < vs_rate_limit_remaining s"

record venue_seed =
  sd_symbol :: string
  sd_product :: product_spec
  sd_venue_product :: venue_product
  sd_available_qty :: qty
  sd_queue_wait_secs :: decimal
  sd_best_bid :: price
  sd_best_ask :: price

definition seed_new :: "string \<Rightarrow> product_spec \<Rightarrow> qty \<Rightarrow> venue_seed" where
  "seed_new symbol product available =
     \<lparr>sd_symbol = symbol, sd_product = product, sd_venue_product = Spot, sd_available_qty = available,
      sd_queue_wait_secs = 0, sd_best_bid = 0, sd_best_ask = 0\<rparr>"

definition with_venue_product :: "venue_product \<Rightarrow> venue_seed \<Rightarrow> venue_seed" where
  "with_venue_product p s = s\<lparr>sd_venue_product := p\<rparr>"

type_synonym venue_slot = "venue_id \<times> venue_product \<times> string"
type_synonym aggregator = "(venue_slot, venue_seed) hash_map"

definition register_venue :: "venue_id \<Rightarrow> venue_seed \<Rightarrow> aggregator \<Rightarrow> aggregator" where
  "register_venue v seed agg = hm_insert (v, sd_venue_product seed, sd_symbol seed) seed agg"

definition first_symbol_on :: "venue_id \<Rightarrow> aggregator \<Rightarrow> string option" where
  "first_symbol_on v agg =
     (case sort (List.map_filter (\<lambda>((w, p, s), _). if w = v then Some s else None) agg) of
        [] \<Rightarrow> None | s # _ \<Rightarrow> Some s)"

definition find_slot_key :: "venue_id \<Rightarrow> string \<Rightarrow> aggregator \<Rightarrow> venue_slot option" where
  "find_slot_key v symbol agg =
     (case sort_key (\<lambda>(w, p, s). product_ordinal p) (filter (\<lambda>(w, p, s). w = v \<and> s = symbol) (map fst agg)) of
        [] \<Rightarrow> None | k # _ \<Rightarrow> Some k)"

text \<open>\<^verbatim>\<open>get_mut\<close> on a key.\<close>

definition update_slot :: "venue_slot \<Rightarrow> (venue_seed \<Rightarrow> venue_seed) \<Rightarrow> aggregator \<Rightarrow> aggregator" where
  "update_slot k f agg = (case hm_get agg k of None \<Rightarrow> agg | Some seed \<Rightarrow> hm_insert k (f seed) agg)"

definition update_book_for_slot :: "venue_id \<Rightarrow> venue_product \<Rightarrow> string \<Rightarrow> price \<Rightarrow> price \<Rightarrow> aggregator \<Rightarrow> aggregator" where
  "update_book_for_slot v p symbol bid ask = update_slot (v, p, symbol) (\<lambda>s. s\<lparr>sd_best_bid := bid, sd_best_ask := ask\<rparr>)"

definition update_for :: "venue_id \<Rightarrow> string \<Rightarrow> (venue_seed \<Rightarrow> venue_seed) \<Rightarrow> aggregator \<Rightarrow> aggregator" where
  "update_for v symbol f agg = (case find_slot_key v symbol agg of None \<Rightarrow> agg | Some k \<Rightarrow> update_slot k f agg)"

definition update_book_for :: "venue_id \<Rightarrow> string \<Rightarrow> price \<Rightarrow> price \<Rightarrow> aggregator \<Rightarrow> aggregator" where
  "update_book_for v symbol bid ask = update_for v symbol (\<lambda>s. s\<lparr>sd_best_bid := bid, sd_best_ask := ask\<rparr>)"

definition update_fees_for :: "venue_id \<Rightarrow> string \<Rightarrow> decimal \<Rightarrow> decimal \<Rightarrow> aggregator \<Rightarrow> aggregator" where
  "update_fees_for v symbol maker taker =
     update_for v symbol (\<lambda>s. s\<lparr>sd_product := (sd_product s)\<lparr>ps_maker_fee := maker, ps_taker_fee := taker\<rparr>\<rparr>)"

definition update_queue_wait_for :: "venue_id \<Rightarrow> string \<Rightarrow> decimal \<Rightarrow> aggregator \<Rightarrow> aggregator" where
  "update_queue_wait_for v symbol wait = update_for v symbol (\<lambda>s. s\<lparr>sd_queue_wait_secs := wait\<rparr>)"

text \<open>The shorthands for a venue with one symbol.\<close>

definition on_first_symbol :: "(string \<Rightarrow> aggregator \<Rightarrow> aggregator) \<Rightarrow> venue_id \<Rightarrow> aggregator \<Rightarrow> aggregator" where
  "on_first_symbol f v agg = (case first_symbol_on v agg of None \<Rightarrow> agg | Some symbol \<Rightarrow> f symbol agg)"

definition update_book :: "venue_id \<Rightarrow> price \<Rightarrow> price \<Rightarrow> aggregator \<Rightarrow> aggregator" where
  "update_book v bid ask = on_first_symbol (\<lambda>symbol. update_book_for v symbol bid ask) v"

definition update_fees :: "venue_id \<Rightarrow> decimal \<Rightarrow> decimal \<Rightarrow> aggregator \<Rightarrow> aggregator" where
  "update_fees v maker taker = on_first_symbol (\<lambda>symbol. update_fees_for v symbol maker taker) v"

definition update_queue_wait :: "venue_id \<Rightarrow> decimal \<Rightarrow> aggregator \<Rightarrow> aggregator" where
  "update_queue_wait v wait = on_first_symbol (\<lambda>symbol. update_queue_wait_for v symbol wait) v"

definition seed_for :: "venue_id \<Rightarrow> string \<Rightarrow> aggregator \<Rightarrow> venue_seed option" where
  "seed_for v symbol agg = Option.bind (find_slot_key v symbol agg) (hm_get agg)"

definition seed_for_slot :: "venue_id \<Rightarrow> venue_product \<Rightarrow> string \<Rightarrow> aggregator \<Rightarrow> venue_seed option" where
  "seed_for_slot v p symbol agg = hm_get agg (v, p, symbol)"

definition seed_of :: "venue_id \<Rightarrow> aggregator \<Rightarrow> venue_seed option" where
  "seed_of v agg = Option.bind (first_symbol_on v agg) (\<lambda>symbol. seed_for v symbol agg)"

definition agg_venues :: "aggregator \<Rightarrow> venue_id list" where
  "agg_venues agg = sort_key venue_ordinal (remdups (map (\<lambda>((v, p, s), _). v) agg))"

definition venue_slots :: "aggregator \<Rightarrow> venue_slot list" where
  "venue_slots agg = sort_key (\<lambda>(v, p, s). (venue_ordinal v, product_ordinal p, s)) (map fst agg)"

definition derive_slippage_coef :: "(decimal \<Rightarrow> decimal \<Rightarrow> decimal) \<Rightarrow> venue_seed \<Rightarrow> decimal" where
  "derive_slippage_coef ddiv s =
     (if sd_best_bid s \<le> 0 \<or> sd_best_ask s \<le> 0 then 0
      else if sd_available_qty s \<le> 0 then 0
      else let mid = ddiv (sd_best_bid s + sd_best_ask s) 2
           in if mid \<le> 0 then 0
              else ddiv (ddiv (sd_best_ask s - sd_best_bid s) mid * 10000) (sd_available_qty s))"

definition snapshot_from_seed :: "(decimal \<Rightarrow> decimal \<Rightarrow> decimal) \<Rightarrow> venue_id \<Rightarrow> venue_seed \<Rightarrow> u32 \<Rightarrow> venue_snapshot" where
  "snapshot_from_seed ddiv v s remaining =
     \<lparr>vs_venue = v, vs_symbol = sd_symbol s, vs_available_qty = sd_available_qty s,
      vs_rate_limit_remaining = remaining, vs_maker_fee_bps = ps_maker_fee (sd_product s) * 10000,
      vs_taker_fee_bps = ps_taker_fee (sd_product s) * 10000, vs_best_bid = sd_best_bid s,
      vs_best_ask = sd_best_ask s, vs_queue_wait_secs = sd_queue_wait_secs s,
      vs_slippage_bps_per_unit = derive_slippage_coef ddiv s\<rparr>"

definition collect_synthetic :: "(decimal \<Rightarrow> decimal \<Rightarrow> decimal) \<Rightarrow> (venue_id \<times> u32) list \<Rightarrow> aggregator \<Rightarrow> venue_snapshot list" where
  "collect_synthetic ddiv venues agg =
     concat (map (\<lambda>(venue, remaining).
       List.map_filter (\<lambda>((v, p, s), seed). if v \<noteq> venue then None else Some (snapshot_from_seed ddiv venue seed remaining)) agg) venues)"

subsection \<open>The trade-rate estimator\<close>

record trade_rate =
  tr_window_ns :: int
  tr_samples :: "(int \<times> qty) list"
  tr_total_qty :: qty

definition MIN_SAMPLES :: nat where
  "MIN_SAMPLES = 5"

definition trade_rate_new :: "u64 \<Rightarrow> trade_rate" where
  "trade_rate_new window_secs = \<lparr>tr_window_ns = sint (max window_secs 1 * 1000000000), tr_samples = [], tr_total_qty = 0\<rparr>"

text \<open>The pop loop of \<^verbatim>\<open>prune\<close>.\<close>

fun prune_loop :: "int \<Rightarrow> int \<Rightarrow> (int \<times> qty) list \<Rightarrow> qty \<Rightarrow> (int \<times> qty) list \<times> qty" where
  "prune_loop window now [] tot = ([], tot)"
| "prune_loop window now ((ts, q) # rest) tot =
     (if now - ts \<le> window then ((ts, q) # rest, tot) else prune_loop window now rest (tot - q))"

definition prune :: "int \<Rightarrow> trade_rate \<Rightarrow> trade_rate" where
  "prune now tr =
     (case prune_loop (tr_window_ns tr) now (tr_samples tr) (tr_total_qty tr) of
        (samples, tot) \<Rightarrow> tr\<lparr>tr_samples := samples, tr_total_qty := if tot < 0 then 0 else tot\<rparr>)"

definition tr_record :: "int \<Rightarrow> qty \<Rightarrow> trade_rate \<Rightarrow> trade_rate" where
  "tr_record now q tr = prune now (tr\<lparr>tr_samples := tr_samples tr @ [(now, q)], tr_total_qty := tr_total_qty tr + q\<rparr>)"

definition rate_per_sec :: "(decimal \<Rightarrow> decimal \<Rightarrow> decimal) \<Rightarrow> int \<Rightarrow> trade_rate \<Rightarrow> decimal option \<times> trade_rate" where
  "rate_per_sec ddiv now tr =
     (let tr' = prune now tr;
          window_secs = (of_int (tr_window_ns tr' div 1000000000) :: decimal)
      in (if length (tr_samples tr') < MIN_SAMPLES then None
          else if window_secs \<le> 0 then None
          else Some (ddiv (tr_total_qty tr') window_secs), tr'))"

definition expected_queue_wait_secs ::
  "(decimal \<Rightarrow> decimal \<Rightarrow> decimal) \<Rightarrow> int \<Rightarrow> qty \<Rightarrow> trade_rate \<Rightarrow> decimal option \<times> trade_rate" where
  "expected_queue_wait_secs ddiv now depth tr =
     (case rate_per_sec ddiv now tr of
        (None, tr') \<Rightarrow> (None, tr')
      | (Some rate, tr') \<Rightarrow> (if rate \<le> 0 then None else Some (ddiv \<bar>depth\<bar> rate), tr'))"

subsection \<open>The cost model\<close>

record route_cost =
  rc_venue :: venue_id
  rc_taker_cost_bps :: decimal
  rc_maker_cost_bps :: decimal
  rc_effective_cost_bps :: decimal

text \<open>\<^verbatim>\<open>VenueCostModel\<close> is its one field, \<^verbatim>\<open>queue_wait_bps_per_sec\<close>.\<close>

definition cost_model_new :: "decimal \<Rightarrow> decimal" where
  "cost_model_new queue_wait_bps_per_sec = max queue_wait_bps_per_sec 0"

definition default_v1 :: decimal where
  "default_v1 = cost_model_new 1"

definition clamp_urgency :: "decimal \<Rightarrow> decimal" where
  "clamp_urgency u = min (max u 0) 1"

definition price_venue :: "decimal \<Rightarrow> venue_snapshot \<Rightarrow> decimal \<Rightarrow> route_cost" where
  "price_venue model s urgency =
     (let u = clamp_urgency urgency;
          taker = vs_taker_fee_bps s;
          maker = vs_maker_fee_bps s + model * vs_queue_wait_secs s
      in \<lparr>rc_venue = vs_venue s, rc_taker_cost_bps = taker, rc_maker_cost_bps = maker,
          rc_effective_cost_bps = u * taker + (1 - u) * maker\<rparr>)"

subsection \<open>The greedy router\<close>

record route_leg =
  rl_venue :: venue_id
  rl_venue_product :: "venue_product option"
  rl_qty :: qty
  rl_is_taker :: bool
  rl_expected_cost_bps :: decimal

record route_decision =
  rd_target_side :: side
  rd_target_qty :: qty
  rd_filled_qty :: qty
  rd_is_complete :: bool
  rd_legs :: "route_leg list"

definition rd_empty :: "side \<Rightarrow> route_decision" where
  "rd_empty s = \<lparr>rd_target_side = s, rd_target_qty = 0, rd_filled_qty = 0, rd_is_complete = True, rd_legs = []\<rparr>"

definition total_expected_cost_bps :: "route_decision \<Rightarrow> decimal" where
  "total_expected_cost_bps d = sum_list (map (\<lambda>l. rl_expected_cost_bps l * rl_qty l) (rd_legs d))"

definition TAKER_THRESHOLD :: decimal where
  "TAKER_THRESHOLD = 1 / 2"

definition price_all :: "decimal \<Rightarrow> decimal \<Rightarrow> venue_snapshot list \<Rightarrow> (venue_snapshot \<times> decimal) list" where
  "price_all model u snaps =
     map (\<lambda>s. (s, rc_effective_cost_bps (price_venue model s u))) (filter is_available snaps)"

definition by_cost :: "venue_snapshot \<times> decimal \<Rightarrow> decimal \<times> nat" where
  "by_cost p = (snd p, venue_ordinal (vs_venue (fst p)))"

text \<open>Step 3, with \<^verbatim>\<open>filled\<close>; the loop stops at the target.\<close>

fun greedy_loop :: "qty \<Rightarrow> bool \<Rightarrow> (venue_snapshot \<times> decimal) list \<Rightarrow> qty \<Rightarrow> route_leg list \<times> qty" where
  "greedy_loop target taker [] filled = ([], filled)"
| "greedy_loop target taker ((s, cost) # ps) filled =
     (if target \<le> filled then ([], filled)
      else let take_qty = min (vs_available_qty s) (target - filled)
           in if take_qty \<le> 0 then greedy_loop target taker ps filled
              else case greedy_loop target taker ps (filled + take_qty) of
                (legs, f) \<Rightarrow>
                  (\<lparr>rl_venue = vs_venue s, rl_venue_product = None, rl_qty = take_qty, rl_is_taker = taker,
                    rl_expected_cost_bps = cost\<rparr> # legs, f))"

definition greedy_route :: "decimal \<Rightarrow> side \<Rightarrow> qty \<Rightarrow> decimal \<Rightarrow> venue_snapshot list \<Rightarrow> route_decision" where
  "greedy_route model target_side target urgency snaps =
     (if target \<le> 0 then rd_empty target_side
      else let u = clamp_urgency urgency
           in case greedy_loop target (TAKER_THRESHOLD \<le> u) (sort_key by_cost (price_all model u snaps)) 0 of
             (legs, filled) \<Rightarrow>
               \<lparr>rd_target_side = target_side, rd_target_qty = target, rd_filled_qty = filled,
                rd_is_complete = (target \<le> filled), rd_legs = legs\<rparr>)"

subsection \<open>The convex router\<close>

record convex_router =
  cx_cost_model :: decimal
  cx_bisect_tol :: decimal
  cx_max_iter :: nat

definition convex_new :: "decimal \<Rightarrow> convex_router" where
  "convex_new model = \<lparr>cx_cost_model = model, cx_bisect_tol = 1 / 10 ^ 8, cx_max_iter = 50\<rparr>"

text \<open>\<^verbatim>\<open>Decimal::MAX\<close>; \<^verbatim>\<open>Decimal::MIN\<close> is its negation.\<close>

definition DECIMAL_MAX :: decimal where
  "DECIMAL_MAX = 79228162514264337593543950335"

text \<open>A row is a snapshot with its fee and its slippage coefficient.\<close>

type_synonym row = "venue_snapshot \<times> decimal \<times> decimal"

definition qty_at_lambda :: "(decimal \<Rightarrow> decimal \<Rightarrow> decimal) \<Rightarrow> decimal \<Rightarrow> decimal \<Rightarrow> qty \<Rightarrow> decimal \<Rightarrow> qty" where
  "qty_at_lambda ddiv fee slip cap lam =
     (if slip \<le> 0 then if fee < lam then cap else 0
      else min (max (ddiv (lam - fee) slip) 0) cap)"

definition allocation_total :: "(decimal \<Rightarrow> decimal \<Rightarrow> decimal) \<Rightarrow> row list \<Rightarrow> decimal \<Rightarrow> qty" where
  "allocation_total ddiv rows lam =
     sum_list (map (\<lambda>(s, fee, slip). qty_at_lambda ddiv fee slip (vs_available_qty s) lam) rows)"

primrec bisect ::
  "(decimal \<Rightarrow> decimal \<Rightarrow> decimal) \<Rightarrow> decimal \<Rightarrow> row list \<Rightarrow> qty \<Rightarrow> nat \<Rightarrow> decimal \<Rightarrow> decimal \<Rightarrow> decimal \<times> decimal" where
  "bisect ddiv tol rows target 0 lo hi = (lo, hi)"
| "bisect ddiv tol rows target (Suc n) lo hi =
     (let mid = ddiv (lo + hi) 2; alloc = allocation_total ddiv rows mid
      in if \<bar>alloc - target\<bar> \<le> tol then (mid, mid)
         else if target < alloc then bisect ddiv tol rows target n lo mid
         else bisect ddiv tol rows target n mid hi)"

definition row_key :: "row \<Rightarrow> decimal \<times> nat" where
  "row_key r = (fst (snd r), venue_ordinal (vs_venue (fst r)))"

fun convex_loop ::
  "(decimal \<Rightarrow> decimal \<Rightarrow> decimal) \<Rightarrow> qty \<Rightarrow> bool \<Rightarrow> decimal \<Rightarrow> row list \<Rightarrow> qty \<Rightarrow> route_leg list \<times> qty" where
  "convex_loop ddiv target taker lam [] filled = ([], filled)"
| "convex_loop ddiv target taker lam ((s, fee, slip) # rows) filled =
     (if target \<le> filled then ([], filled)
      else let q = qty_at_lambda ddiv fee slip (vs_available_qty s) lam
           in if q \<le> 0 then convex_loop ddiv target taker lam rows filled
              else let take_qty = min q (target - filled)
                   in if take_qty \<le> 0 then convex_loop ddiv target taker lam rows filled
                      else case convex_loop ddiv target taker lam rows (filled + take_qty) of
                        (legs, f) \<Rightarrow>
                          (\<lparr>rl_venue = vs_venue s, rl_venue_product = None, rl_qty = take_qty, rl_is_taker = taker,
                            rl_expected_cost_bps = fee + ddiv (slip * take_qty) 2\<rparr> # legs, f))"

definition convex_rows :: "decimal \<Rightarrow> decimal \<Rightarrow> venue_snapshot list \<Rightarrow> row list" where
  "convex_rows model u snaps =
     map (\<lambda>s. (s, rc_effective_cost_bps (price_venue model s u), vs_slippage_bps_per_unit s)) (filter is_available snaps)"

definition lambda_bounds :: "row list \<Rightarrow> decimal \<times> decimal" where
  "lambda_bounds rows =
     (let lo = fold (\<lambda>(s, fee, slip) acc. if fee < acc then fee else acc) rows DECIMAL_MAX;
          hi = fold (\<lambda>(s, fee, slip) acc. if acc < fee + slip * vs_available_qty s
                                          then fee + slip * vs_available_qty s else acc) rows (- DECIMAL_MAX)
      in (lo, if hi \<le> lo then lo + 1 else hi))"

definition convex_route ::
  "(decimal \<Rightarrow> decimal \<Rightarrow> decimal) \<Rightarrow> convex_router \<Rightarrow> side \<Rightarrow> qty \<Rightarrow> decimal \<Rightarrow> venue_snapshot list \<Rightarrow> route_decision" where
  "convex_route ddiv r target_side target urgency snaps =
     (if target \<le> 0 then rd_empty target_side
      else let u = clamp_urgency urgency;
               rows = convex_rows (cx_cost_model r) u snaps
           in if rows = []
              then \<lparr>rd_target_side = target_side, rd_target_qty = target, rd_filled_qty = 0, rd_is_complete = False, rd_legs = []\<rparr>
              else if \<forall>(s, fee, slip) \<in> set rows. slip \<le> 0
              then greedy_route (cx_cost_model r) target_side target urgency snaps
              else let effective = min target (sum_list (map (\<lambda>r. vs_available_qty (fst r)) rows))
                   in case bisect ddiv (cx_bisect_tol r) rows effective (cx_max_iter r)
                             (fst (lambda_bounds rows)) (snd (lambda_bounds rows)) of
                     (lo, hi) \<Rightarrow>
                       (case convex_loop ddiv effective (TAKER_THRESHOLD \<le> u) (ddiv (lo + hi) 2) (sort_key row_key rows) 0 of
                          (legs, filled) \<Rightarrow>
                            \<lparr>rd_target_side = target_side, rd_target_qty = target, rd_filled_qty = filled,
                             rd_is_complete = (target \<le> filled), rd_legs = legs\<rparr>))"

subsection \<open>The greedy fill\<close>

definition cost_levels :: "(venue_snapshot \<times> decimal) list \<Rightarrow> (price \<times> qty) list" where
  "cost_levels ps = map (\<lambda>p. (snd p, vs_available_qty (fst p))) ps"

lemma cost_levels_simps [simp]:
  "cost_levels [] = []" "cost_levels ((s, c) # ps) = (c, vs_available_qty s) # cost_levels ps"
  by (simp_all add: cost_levels_def)

lemma cost_levels_depth: "\<forall>p \<in> set ps. 0 < vs_available_qty (fst p) \<Longrightarrow> 0 \<le> total_qty (cost_levels ps)"
  by (induction ps) (auto intro: add_nonneg_nonneg less_imp_le)

text \<open>The loop fills what is left up to the depth, and its cost is the cost of the book sweep over the
  venues as levels.\<close>

lemma greedy_loop_fill:
  assumes "greedy_loop target taker ps filled = (legs, f)" and "filled \<le> target"
    and "\<forall>p \<in> set ps. 0 < vs_available_qty (fst p)"
  shows "f = filled + min (target - filled) (total_qty (cost_levels ps))
    \<and> sum_list (map rl_qty legs) = f - filled
    \<and> sum_list (map (\<lambda>l. rl_expected_cost_bps l * rl_qty l) legs) = sweep_cost (cost_levels ps) (target - filled)"
  using assms
proof (induction target taker ps filled arbitrary: legs f rule: greedy_loop.induct)
  case (2 target taker s cost ps filled)
  have avail: "0 < vs_available_qty s" and rest: "\<forall>p \<in> set ps. 0 < vs_available_qty (fst p)"
    using "2.prems"(3) by simp_all
  have depth: "0 \<le> total_qty (cost_levels ps)" using rest by (rule cost_levels_depth)
  show ?case
  proof (cases "target \<le> filled")
    case True
    then show ?thesis using "2.prems" avail depth by (auto simp: min_def)
  next
    case False
    let ?t = "min (vs_available_qty s) (target - filled)"
    have t: "0 < ?t" using False avail by simp
    obtain legs' where l': "greedy_loop target taker ps (filled + ?t) = (legs', f)"
      and legs: "legs = \<lparr>rl_venue = vs_venue s, rl_venue_product = None, rl_qty = ?t, rl_is_taker = taker,
          rl_expected_cost_bps = cost\<rparr> # legs'"
      using "2.prems"(1) False t by (auto simp: Let_def split: prod.splits)
    have "filled + ?t \<le> target" using False by (simp add: min_def)
    then have ih: "f = filled + ?t + min (target - (filled + ?t)) (total_qty (cost_levels ps))"
      "sum_list (map rl_qty legs') = f - (filled + ?t)"
      "sum_list (map (\<lambda>l. rl_expected_cost_bps l * rl_qty l) legs') = sweep_cost (cost_levels ps) (target - (filled + ?t))"
      using "2.IH"(2) [OF False refl _ l'] "2.prems"(3) t by auto
    show ?thesis using ih legs False depth
      by (auto simp: min_def algebra_simps)
  qed
qed auto

lemma greedy_loop_legs:
  assumes "greedy_loop target taker ps filled = (legs, f)" and "l \<in> set legs"
  shows "rl_is_taker l = taker \<and> rl_venue_product l = None
    \<and> (\<exists>(s, c) \<in> set ps. rl_venue l = vs_venue s \<and> rl_expected_cost_bps l = c \<and> 0 < rl_qty l \<and> rl_qty l \<le> vs_available_qty s)"
  using assms
proof (induction ps arbitrary: filled legs f)
  case (Cons p ps)
  obtain s cost where p: "p = (s, cost)" by (rule prod.exhaust)
  define t where "t = min (vs_available_qty s) (target - filled)"
  note run = Cons.prems(1) [unfolded p greedy_loop.simps Let_def, folded t_def]
  consider "target \<le> filled" | "\<not> target \<le> filled" "t \<le> 0" | "\<not> target \<le> filled" "0 < t" by linarith
  then show ?case
  proof cases
    case 1
    then show ?thesis using run Cons.prems(2) by simp
  next
    case 2
    then have "greedy_loop target taker ps filled = (legs, f)" using run by simp
    from Cons.IH [OF this Cons.prems(2)] show ?thesis by auto
  next
    case 3
    then obtain legs' where l': "greedy_loop target taker ps (filled + t) = (legs', f)"
      and legs: "legs = \<lparr>rl_venue = vs_venue s, rl_venue_product = None, rl_qty = t, rl_is_taker = taker,
          rl_expected_cost_bps = cost\<rparr> # legs'"
      using run by (auto split: prod.splits)
    then show ?thesis using Cons.IH [OF l'] Cons.prems(2) 3 by (auto simp: p t_def)
  qed
qed simp

text \<open>The cost of a sweep in the form of its dual: with the price of the last level it touches as the
  multiplier. That form does not depend on the order of the levels.\<close>

definition surplus :: "decimal \<Rightarrow> (price \<times> qty) list \<Rightarrow> decimal" where
  "surplus lam ls = sum_list (map (\<lambda>l. max 0 (lam - fst l) * snd l) ls)"

lemma surplus_simps [simp]: "surplus lam [] = 0" "surplus lam ((p, q) # ls) = max 0 (lam - p) * q + surplus lam ls"
  by (simp_all add: surplus_def)

lemma sum_list_perm:
  fixes g :: "'a \<Rightarrow> decimal"
  assumes "mset xs = mset ys"
  shows "sum_list (map g xs) = sum_list (map g ys)"
proof -
  have "sum_mset (image_mset g (mset xs)) = sum_mset (image_mset g (mset ys))" by (simp only: assms)
  then show ?thesis by (simp only: sum_mset_sum_list mset_map [symmetric])
qed

lemma surplus_perm: "mset ls = mset ls' \<Longrightarrow> surplus lam ls = surplus lam ls'"
  unfolding surplus_def by (rule sum_list_perm)

lemma total_qty_perm: "mset ls = mset ls' \<Longrightarrow> total_qty ls = total_qty ls'"
  unfolding total_qty_def by (rule sum_list_perm)

lemma surplus_zero: "\<forall>l \<in> set ls. lam \<le> fst l \<Longrightarrow> surplus lam ls = 0"
  by (induction ls) auto

lemma sweep_cost_dual:
  assumes "sorted (map fst ls)" and "nonneg_levels ls" and "0 \<le> t" and "t \<le> total_qty ls"
  shows "\<exists>lam. sweep_cost ls t = lam * t - surplus lam ls \<and> (ls \<noteq> [] \<longrightarrow> lam \<in> fst ` set ls)"
  using assms
proof (induction ls arbitrary: t)
  case (Cons l ls)
  obtain p q where l: "l = (p, q)" by (rule prod.exhaust)
  have ge: "\<forall>x \<in> set ls. p \<le> fst x" using Cons.prems(1) by (auto simp: l)
  show ?case
  proof (cases "t \<le> q")
    case True
    then show ?thesis using Cons.prems(3) ge
      by (intro exI [where x = p]) (auto simp: l surplus_zero sweep_cost_zero min_def)
  next
    case False
    have t: "0 \<le> t - q" "t - q \<le> total_qty ls" "0 < t" using False Cons.prems by (auto simp: l)
    obtain lam where lam: "sweep_cost ls (t - q) = lam * (t - q) - surplus lam ls" "ls \<noteq> [] \<longrightarrow> lam \<in> fst ` set ls"
      using Cons.IH [OF _ _ t(1,2)] Cons.prems(1,2) by (auto simp: l)
    have "ls \<noteq> []" using t False by auto
    then have "p \<le> lam" and "lam \<in> fst ` set ls" using lam(2) ge by auto
    moreover have "min t q = q" using False by simp
    ultimately show ?thesis using lam(1) t(3)
      by (intro exI [where x = lam]) (auto simp: l algebra_simps)
  qed
qed simp

lemma alloc_cost_dual: "allocation ls as \<Longrightarrow> lam * sum_list as - surplus lam ls \<le> alloc_cost ls as"
  unfolding allocation_def
proof (induction rule: list_all2_induct)
  case (Cons l ls a as)
  obtain p q where l: "l = (p, q)" by (rule prod.exhaust)
  have "(lam - p) * a \<le> max 0 (lam - p) * q"
  proof (cases "p \<le> lam")
    case True
    then show ?thesis using Cons.hyps(1) l by (simp add: mult_left_mono max_def)
  next
    case False
    then have "(lam - p) * a \<le> 0" using Cons.hyps(1) l by (intro mult_nonpos_nonneg) auto
    then show ?thesis using False by (simp add: max_def)
  qed
  moreover have "alloc_cost (l # ls) (a # as) = p * a + alloc_cost ls as" by (simp add: alloc_cost_def l)
  ultimately show ?case using Cons.IH by (simp add: l algebra_simps)
qed (simp add: alloc_cost_def)

text \<open>So sweeping the levels in the order of their price is the cheapest allocation of the filled quantity,
  whatever order they are given in.\<close>

lemma sweep_sorted_least:
  assumes "mset ls = mset ls'" and "sorted (map fst ls)" and "nonneg_levels ls" and "0 \<le> t" and "t \<le> total_qty ls"
    and "allocation ls' as" and "sum_list as = t"
  shows "sweep_cost ls t \<le> alloc_cost ls' as"
  using sweep_cost_dual [OF assms(2-5)] alloc_cost_dual [OF assms(6)] surplus_perm [OF assms(1)] assms(7) by metis

subsection \<open>Properties\<close>

text \<open>
  C22: greedy routing is optimal for linear costs. A positive target is filled up to the capacity of the
  venues that can take an order, and is complete exactly when they suffice; every leg goes to such a
  venue, within its capacity and at its cost; and no other split of the filled quantity over these
  venues costs less in the cost model, whatever order the snapshots come in.
\<close>

theorem greedy_route_optimal:
  assumes "0 < target"
  shows "let ps = price_all model (clamp_urgency urgency) snaps;
             d = greedy_route model s target urgency snaps
         in rd_filled_qty d = min target (total_qty (cost_levels ps))
            \<and> (rd_is_complete d \<longleftrightarrow> target \<le> total_qty (cost_levels ps))
            \<and> sum_list (map rl_qty (rd_legs d)) = rd_filled_qty d
            \<and> (\<forall>l \<in> set (rd_legs d). \<exists>(v, c) \<in> set ps. rl_venue l = vs_venue v \<and> rl_expected_cost_bps l = c
                 \<and> 0 < rl_qty l \<and> rl_qty l \<le> vs_available_qty v)
            \<and> (\<forall>as. allocation (cost_levels ps) as \<longrightarrow> sum_list as = rd_filled_qty d \<longrightarrow>
                 total_expected_cost_bps d \<le> alloc_cost (cost_levels ps) as)"
proof -
  define u where "u = clamp_urgency urgency"
  define ps where "ps = price_all model u snaps"
  define sp where "sp = sort_key by_cost ps"
  obtain legs f where g: "greedy_loop target (TAKER_THRESHOLD \<le> u) sp 0 = (legs, f)" by (rule prod.exhaust)
  have avail: "\<forall>p \<in> set ps. 0 < vs_available_qty (fst p)" by (auto simp: ps_def price_all_def is_available_def)
  then have avail': "\<forall>p \<in> set sp. 0 < vs_available_qty (fst p)" by (simp add: sp_def)
  have perm: "mset (cost_levels sp) = mset (cost_levels ps)" by (simp add: cost_levels_def sp_def)
  note fill = greedy_loop_fill [OF g _ avail'] and depth = total_qty_perm [OF perm]
  have f: "f = min target (total_qty (cost_levels ps))" "sum_list (map rl_qty legs) = f"
    "sum_list (map (\<lambda>l. rl_expected_cost_bps l * rl_qty l) legs) = sweep_cost (cost_levels sp) target"
    using fill depth assms by simp_all
  have nonneg: "nonneg_levels (cost_levels sp)" using avail' by (auto simp: nonneg_levels_def cost_levels_def less_imp_le)
  have srt: "sorted (map fst (cost_levels sp))"
  proof -
    have "sorted_wrt (\<lambda>x y. by_cost x \<le> by_cost y) sp"
      using sorted_sort_key [of by_cost ps] by (simp add: sp_def sorted_map)
    then have "sorted_wrt (\<lambda>x y. snd x \<le> snd y) sp"
      by (rule sorted_wrt_mono_rel [rotated]) (auto simp: by_cost_def less_eq_prod_def)
    then show ?thesis by (simp add: cost_levels_def sorted_map sorted_wrt_map comp_def)
  qed
  have "sum_list (map (\<lambda>l. rl_expected_cost_bps l * rl_qty l) legs) \<le> alloc_cost (cost_levels ps) as"
    if "allocation (cost_levels ps) as" "sum_list as = f" for as
    using sweep_sorted_least [OF perm srt nonneg _ _ that] f assms total_qty_nonneg [OF nonneg] depth
      sweep_cost_cap [OF nonneg, of target] by (simp add: min_def split: if_splits)
  moreover have "\<exists>(v, c) \<in> set ps. rl_venue l = vs_venue v \<and> rl_expected_cost_bps l = c
      \<and> 0 < rl_qty l \<and> rl_qty l \<le> vs_available_qty v" if "l \<in> set legs" for l
    using greedy_loop_legs [OF g that] by (simp add: sp_def)
  moreover have "greedy_route model s target urgency snaps = \<lparr>rd_target_side = s, rd_target_qty = target,
      rd_filled_qty = f, rd_is_complete = (target \<le> f), rd_legs = legs\<rparr>"
    using assms g by (simp add: greedy_route_def Let_def sp_def ps_def u_def)
  ultimately show ?thesis
    unfolding Let_def u_def [symmetric] ps_def [symmetric] using f by (simp add: total_expected_cost_bps_def)
qed

definition demo_venue :: "venue_id \<Rightarrow> qty \<Rightarrow> decimal \<Rightarrow> decimal \<Rightarrow> venue_snapshot" where
  "demo_venue v available fee slip =
     \<lparr>vs_venue = v, vs_symbol = ''BTC'', vs_available_qty = available, vs_rate_limit_remaining = 10, vs_maker_fee_bps = fee,
      vs_taker_fee_bps = fee, vs_best_bid = 0, vs_best_ask = 0, vs_queue_wait_secs = 0, vs_slippage_bps_per_unit = slip\<rparr>"

theorem greedy_route_optimal_witness:
  "let d = greedy_route default_v1 Buy 3 1 [demo_venue Binance 2 5 0, demo_venue Bybit 2 1 0]
   in rd_filled_qty d = 3 \<and> rd_is_complete d \<and> total_expected_cost_bps d \<le> 2 * 5 + 1 * 1"
proof -
  let ?snaps = "[demo_venue Binance 2 5 0, demo_venue Bybit 2 1 0]"
  have ps: "cost_levels (price_all default_v1 (clamp_urgency 1) ?snaps) = [(5, 2), (1, 2)]"
    by (simp add: cost_levels_def price_all_def is_available_def demo_venue_def price_venue_def clamp_urgency_def Let_def)
  have alloc: "allocation [(5, 2), (1, 2)] [2, 1]" "sum_list [2, 1] = (3 :: decimal)"
    "alloc_cost [(5, 2), (1, 2)] [2, 1] = 2 * 5 + 1 * 1"
    by (simp_all add: allocation_def alloc_cost_def)
  have "(0 :: decimal) < 3" by simp
  from greedy_route_optimal [OF this, of default_v1 1 ?snaps Buy] alloc show ?thesis
    unfolding Let_def ps by (auto simp: total_qty_def)
qed

subsection \<open>The convex router\<close>

lemma lambda_lo: "fold (\<lambda>(s, fee, slip) acc. if fee < acc then fee else acc) rows a \<le> (a :: decimal)
    \<and> ((s, fee, slip) \<in> set rows \<longrightarrow> fold (\<lambda>(s, fee, slip) acc. if fee < acc then fee else acc) rows a \<le> fee)"
proof (induction rows arbitrary: a)
  case (Cons r rows)
  obtain s1 f1 k1 where r: "r = (s1, f1, k1)" by (rule prod_cases3)
  show ?case using Cons.IH [of "if f1 < a then f1 else a"] by (auto simp: r split: if_splits)
qed simp

lemma lambda_hi:
  "(a :: decimal) \<le> F \<Longrightarrow> \<forall>(s, fee, slip) \<in> set rows. fee + slip * vs_available_qty s \<le> F \<Longrightarrow>
     fold (\<lambda>(s, fee, slip) acc. if acc < fee + slip * vs_available_qty s then fee + slip * vs_available_qty s else acc) rows a \<le> F
   \<and> a \<le> fold (\<lambda>(s, fee, slip) acc. if acc < fee + slip * vs_available_qty s then fee + slip * vs_available_qty s else acc) rows a
   \<and> ((v, g, k) \<in> set rows \<longrightarrow> g + k * vs_available_qty v \<le>
       fold (\<lambda>(s, fee, slip) acc. if acc < fee + slip * vs_available_qty s then fee + slip * vs_available_qty s else acc) rows a)"
proof (induction rows arbitrary: a)
  case (Cons r rows)
  obtain s1 f1 k1 where r: "r = (s1, f1, k1)" by (rule prod_cases3)
  let ?x = "f1 + k1 * vs_available_qty s1"
  have "(if a < ?x then ?x else a) \<le> F" using Cons.prems by (auto simp: r)
  from Cons.IH [OF this] Cons.prems(2) show ?case by (auto simp: r split: if_splits)
qed simp

lemma bisect_below:
  assumes "decimal_division ddiv eps" and "ddiv (F + F) 2 = F"
  shows "lo \<le> F \<Longrightarrow> hi \<le> F \<Longrightarrow> bisect ddiv tol rows target n lo hi = (lo', hi') \<Longrightarrow> lo' \<le> F \<and> hi' \<le> F"
proof (induction n arbitrary: lo hi)
  case (Suc n)
  have "ddiv (lo + hi) 2 \<le> F"
    using decimal_division.ddiv_mono [OF assms(1), of 2 "lo + hi" "F + F"] Suc.prems(1,2) assms(2) by simp
  then show ?case using Suc by (auto simp: Let_def split: if_splits)
qed simp

lemma convex_loop_filled:
  assumes "convex_loop ddiv target taker lam rows filled = (legs, f)"
    and "\<forall>(s, fee, slip) \<in> set rows. 0 \<le> vs_available_qty s"
  shows "f \<le> filled + sum_list (map (\<lambda>(s, fee, slip). max 0 (qty_at_lambda ddiv fee slip (vs_available_qty s) lam)) rows)"
  using assms
proof (induction rows arbitrary: filled legs f)
  case (Cons r rows)
  obtain s fee slip where r: "r = (s, fee, slip)" by (rule prod_cases3)
  let ?q = "qty_at_lambda ddiv fee slip (vs_available_qty s) lam"
  have rest: "0 \<le> sum_list (map (\<lambda>(s, fee, slip). max 0 (qty_at_lambda ddiv fee slip (vs_available_qty s) lam)) rows)"
    by (intro sum_list_nonneg_decimal) auto
  have cont: "f \<le> filled + x + sum_list (map (\<lambda>(s, fee, slip). max 0 (qty_at_lambda ddiv fee slip (vs_available_qty s) lam)) rows)"
    if "convex_loop ddiv target taker lam rows (filled + x) = (legs', f)" for x legs'
    using Cons.IH [OF that] Cons.prems(2) by simp
  show ?case
    using Cons.prems(1) rest cont [of 0] cont [of "min ?q (target - filled)"]
    by (fastforce simp: r Let_def split: if_splits prod.splits)
qed simp

lemma qty_at_lambda_le: "0 \<le> cap \<Longrightarrow> max 0 (qty_at_lambda ddiv fee slip cap lam) \<le> cap"
  by (simp add: qty_at_lambda_def)

text \<open>
  The convex router ignores a dear venue without slippage. If some venue has a slippage coefficient
  and another has none (no book yet) and costs at least as much as every other venue at its full
  capacity, the multiplier found by bisection never exceeds that cost, and a linear venue is used only
  below the multiplier; so its capacity is lost to the route, whatever the number of iterations: the
  filled quantity is at most the capacity of the others, and the decision is reported incomplete
  although all venues together may cover the target.
\<close>

theorem convex_route_skips_dear_linear:
  assumes "decimal_division ddiv eps" and "ddiv (F + F) 2 = F" and "\<bar>F\<bar> \<le> DECIMAL_MAX" and "0 < target"
    and "(v, F, 0) \<in> set (convex_rows (cx_cost_model r) (clamp_urgency urgency) snaps)"
    and "(w, fee, slip) \<in> set (convex_rows (cx_cost_model r) (clamp_urgency urgency) snaps)" and "0 < slip"
    and "\<forall>(s, g, k) \<in> set (convex_rows (cx_cost_model r) (clamp_urgency urgency) snaps). g + k * vs_available_qty s \<le> F"
  shows "let others = filter (\<lambda>(s, g, k). \<not> (g = F \<and> k = 0)) (convex_rows (cx_cost_model r) (clamp_urgency urgency) snaps);
             d = convex_route ddiv r side target urgency snaps
         in rd_filled_qty d \<le> sum_list (map (\<lambda>(s, g, k). vs_available_qty s) others)
            \<and> (rd_is_complete d \<longrightarrow> target \<le> sum_list (map (\<lambda>(s, g, k). vs_available_qty s) others))"
proof -
  define rows where "rows = convex_rows (cx_cost_model r) (clamp_urgency urgency) snaps"
  note rows = assms(5-8) [folded rows_def]
  have avail: "\<forall>(s, g, k) \<in> set rows. 0 < vs_available_qty s" by (auto simp: rows_def convex_rows_def is_available_def)
  have "fee + slip * vs_available_qty w \<le> F" and "0 < vs_available_qty w" using rows(2,4) avail by auto
  then have less: "fee < F" using mult_pos_pos [OF rows(3), of "vs_available_qty w"] by linarith
  define lo where "lo = fst (lambda_bounds rows)"
  define hi where "hi = snd (lambda_bounds rows)"
  have lo: "lo \<le> fee" using lambda_lo [of rows DECIMAL_MAX w fee slip] rows(2) by (simp add: lo_def lambda_bounds_def Let_def)
  have "- DECIMAL_MAX \<le> F" using assms(3) by linarith
  then have "hi = F" using lambda_hi [of "- DECIMAL_MAX" F rows v F 0] rows(1,4) assms(3) lo less
    by (auto simp: hi_def lo_def lambda_bounds_def Let_def)
  define eff where "eff = min target (sum_list (map (\<lambda>r. vs_available_qty (fst r)) rows))"
  obtain lo' hi' where b: "bisect ddiv (cx_bisect_tol r) rows eff (cx_max_iter r) lo hi = (lo', hi')" by (rule prod.exhaust)
  define lam where "lam = ddiv (lo' + hi') 2"
  have "lo' \<le> F \<and> hi' \<le> F" using bisect_below [OF assms(1,2) _ _ b] lo less \<open>hi = F\<close> by simp
  then have lam: "lam \<le> F"
    using decimal_division.ddiv_mono [OF assms(1), of 2 "lo' + hi'" "F + F"] assms(2) by (simp add: lam_def)
  obtain legs f where c: "convex_loop ddiv eff (TAKER_THRESHOLD \<le> clamp_urgency urgency) lam (sort_key row_key rows) 0 = (legs, f)"
    by (rule prod.exhaust)
  have nonlinear: "\<not> (\<forall>(s, g, k) \<in> set rows. k \<le> 0)" and nonempty: "rows \<noteq> []"
    using rows(2,3) by (fastforce, auto)
  have route: "convex_route ddiv r side target urgency snaps = \<lparr>rd_target_side = side, rd_target_qty = target,
      rd_filled_qty = f, rd_is_complete = (target \<le> f), rd_legs = legs\<rparr>"
    unfolding convex_route_def Let_def rows_def [symmetric] if_not_P [OF nonlinear] eff_def [symmetric] lo_def [symmetric]
      hi_def [symmetric] b prod.case lam_def [symmetric] c
    using assms(4) nonempty by simp
  let ?q = "\<lambda>(s, g, k). max 0 (qty_at_lambda ddiv g k (vs_available_qty s) lam)"
  have "f \<le> sum_list (map ?q (sort_key row_key rows))"
  proof -
    have "\<forall>(s, g, k) \<in> set (sort_key row_key rows). 0 \<le> vs_available_qty s"
      using avail by (auto simp: less_imp_le dest!: bspec)
    from convex_loop_filled [OF c this] show ?thesis by simp
  qed
  also have "\<dots> = sum_list (map ?q rows)" by (rule sum_list_perm) simp
  also have "\<dots> \<le> sum_list (map (\<lambda>(s, g, k). vs_available_qty s) (filter (\<lambda>(s, g, k). \<not> (g = F \<and> k = 0)) rows))"
    using avail
  proof (induction rows)
    case (Cons r rows)
    obtain s g k where r: "r = (s, g, k)" by (rule prod_cases3)
    have "max 0 (qty_at_lambda ddiv g k (vs_available_qty s) lam) \<le> (if g = F \<and> k = 0 then 0 else vs_available_qty s)"
      using qty_at_lambda_le [of "vs_available_qty s" ddiv g k lam] Cons.prems lam by (auto simp: r qty_at_lambda_def)
    then show ?case using Cons by (auto simp: r)
  qed simp
  finally show ?thesis unfolding Let_def rows_def [symmetric] route by auto
qed

theorem convex_route_skips_dear_linear_witness:
  "rd_filled_qty (convex_route (/) (convex_new default_v1) Buy 8 1 [demo_venue Binance 3 1 1, demo_venue Bybit 10 5 0]) \<le> 3
   \<and> \<not> rd_is_complete (convex_route (/) (convex_new default_v1) Buy 8 1 [demo_venue Binance 3 1 1, demo_venue Bybit 10 5 0])"
proof -
  let ?snaps = "[demo_venue Binance 3 1 1, demo_venue Bybit 10 5 0]"
  have rows: "convex_rows (cx_cost_model (convex_new default_v1)) (clamp_urgency 1) ?snaps
      = [(demo_venue Binance 3 1 1, 1, 1), (demo_venue Bybit 10 5 0, 5, 0)]"
    by (simp add: convex_rows_def is_available_def demo_venue_def price_venue_def clamp_urgency_def Let_def)
  have "\<bar>5\<bar> \<le> DECIMAL_MAX" by (simp add: DECIMAL_MAX_def)
  from convex_route_skips_dear_linear [OF exact_division.decimal_division_axioms _ this, of 8 "demo_venue Bybit 10 5 0"
      "convex_new default_v1" 1 ?snaps "demo_venue Binance 3 1 1" 1 1 Buy]
  show ?thesis unfolding rows by (auto simp: demo_venue_def Let_def)
qed

subsection \<open>The trade-rate estimator's running total\<close>

lemma prune_loop_eq:
  "prune_loop w now xs (sum_list (map snd xs)) =
     (let ys = dropWhile (\<lambda>(ts, q). w < now - ts) xs in (ys, sum_list (map snd ys)))"
  by (induction xs) (auto simp: Let_def)

definition rate_ok :: "trade_rate \<Rightarrow> bool" where
  "rate_ok tr \<longleftrightarrow> tr_total_qty tr = sum_list (map snd (tr_samples tr)) \<and> (\<forall>(ts, q) \<in> set (tr_samples tr). 0 \<le> q)"

lemma prune_ok:
  assumes "rate_ok tr"
  shows "rate_ok (prune now tr) \<and> tr_samples (prune now tr) = dropWhile (\<lambda>(ts, q). tr_window_ns tr < now - ts) (tr_samples tr)"
proof -
  let ?ys = "dropWhile (\<lambda>(ts, q). tr_window_ns tr < now - ts) (tr_samples tr)"
  have nonneg: "\<forall>(ts, q) \<in> set ?ys. 0 \<le> q" using assms by (auto simp: rate_ok_def dest: set_dropWhileD)
  then have "0 \<le> sum_list (map snd ?ys)" by (intro sum_list_nonneg_decimal) auto
  then show ?thesis using assms nonneg
    by (auto simp: prune_def rate_ok_def prune_loop_eq Let_def)
qed

lemma rate_ok_mm: "rate_ok (trade_rate_new secs)" "rate_ok tr \<Longrightarrow> 0 \<le> q \<Longrightarrow> rate_ok (tr_record now q tr)"
proof -
  show "rate_ok (trade_rate_new secs)" by (simp add: trade_rate_new_def rate_ok_def)
  assume "rate_ok tr" "0 \<le> q"
  then have "rate_ok (tr\<lparr>tr_samples := tr_samples tr @ [(now, q)], tr_total_qty := tr_total_qty tr + q\<rparr>)"
    by (auto simp: rate_ok_def)
  then show "rate_ok (tr_record now q tr)" unfolding tr_record_def using prune_ok by blast
qed

text \<open>
  The estimated rate is the traded quantity of the window over its length. The running total of an
  estimator fed with trades agrees with the samples it holds, and a rate is given exactly when at
  least five of them are no older than the window.
\<close>

theorem rate_is_window_average:
  assumes "rate_ok tr" and "1000000000 \<le> tr_window_ns tr"
  shows "fst (rate_per_sec ddiv now tr) =
     (let live = dropWhile (\<lambda>(ts, q). tr_window_ns tr < now - ts) (tr_samples tr)
      in if length live < 5 then None
         else Some (ddiv (sum_list (map snd live)) (of_int (tr_window_ns tr div 1000000000))))"
proof -
  note p = prune_ok [OF assms(1), of now]
  have w: "tr_window_ns (prune now tr) = tr_window_ns tr" by (simp add: prune_def split: prod.split)
  have "0 < tr_window_ns tr div 1000000000" using assms(2) by simp
  then have "\<not> (of_int (tr_window_ns tr div 1000000000) :: decimal) \<le> 0" by (simp only: of_int_le_0_iff not_le)
  moreover have "tr_total_qty (prune now tr) = sum_list (map snd (tr_samples (prune now tr)))" using p by (simp add: rate_ok_def)
  ultimately show ?thesis using p by (simp add: rate_per_sec_def MIN_SAMPLES_def w Let_def)
qed

theorem rate_is_window_average_witness:
  "fst (rate_per_sec (/) 7000000000 (fold (\<lambda>k. tr_record (int k * 1000000000) 2) [0..<7] (trade_rate_new 5))) = Some 2"
proof -
  let ?tr = "fold (\<lambda>k. tr_record (int k * 1000000000) 2) [0..<7] (trade_rate_new 5)"
  have w: "sint (max (5 :: u64) 1 * 1000000000) = 5000000000" by (simp add: max_def word_le_nat_alt)
  have tr: "?tr = \<lparr>tr_window_ns = 5000000000, tr_samples = map (\<lambda>k. (k * 1000000000, 2)) [1, 2, 3, 4, 5, 6], tr_total_qty = 12\<rparr>"
    by (simp add: upt_conv_Cons tr_record_def prune_def trade_rate_new_def w)
  have "rate_ok ?tr" unfolding tr by (simp add: rate_ok_def)
  moreover have "1000000000 \<le> tr_window_ns ?tr" unfolding tr by simp
  ultimately show ?thesis using rate_is_window_average [of ?tr "(/)" 7000000000] unfolding tr by (simp add: Let_def)
qed

end
