(* ===== verification/Sor_Dispatch.thy ===== *)
theory Sor_Dispatch
  imports Sor_Router Order_Manager
begin

section \<open>Dispatch of a route\<close>

text \<open>
  \<^verbatim>\<open>crates/engine/src/sor/dispatch.rs\<close>, \<^verbatim>\<open>crates/engine/src/connector_bundle.rs\<close>, \<^verbatim>\<open>collect\<close> of
  \<^verbatim>\<open>venue_state.rs\<close>, and the engine's \<^verbatim>\<open>recommend_route\<close>, \<^verbatim>\<open>dispatch_route\<close>, \<^verbatim>\<open>refresh_sor_queue_wait\<close> and
  \<^verbatim>\<open>with_sor_venue\<close> (\<^verbatim>\<open>crates/engine/src/market_maker.rs\<close>). The connectors of a bundle act on one venue
  state. Gauges, audit rows and the dashboard record of a decision are left out. A result \<open>None\<close> is a
  panic of the rounding (a zero lot or tick size).
\<close>

subsection \<open>Bundles\<close>

record 'v sor_connector =
  sc_venue_id :: venue_id
  sc_product :: venue_product
  sc_conn :: "'v connector"
  sc_get_orderbook :: "string \<Rightarrow> 'v \<Rightarrow> (string + price_level list \<times> price_level list) \<times> 'v"
  sc_rate_limit_remaining :: "'v \<Rightarrow> u32 \<times> 'v"

record 'v connector_bundle =
  cb_primary :: "'v sor_connector"
  cb_hedge :: "'v sor_connector option"
  cb_extra :: "'v sor_connector list"

definition bundle_single :: "'v sor_connector \<Rightarrow> 'v connector_bundle" where
  "bundle_single p = \<lparr>cb_primary = p, cb_hedge = None, cb_extra = []\<rparr>"

definition bundle_dual :: "'v sor_connector \<Rightarrow> 'v sor_connector \<Rightarrow> 'v connector_bundle" where
  "bundle_dual p h = \<lparr>cb_primary = p, cb_hedge = Some h, cb_extra = []\<rparr>"

definition with_extra :: "'v sor_connector list \<Rightarrow> 'v connector_bundle \<Rightarrow> 'v connector_bundle" where
  "with_extra xs b = b\<lparr>cb_extra := xs\<rparr>"

definition is_dual :: "'v connector_bundle \<Rightarrow> bool" where
  "is_dual b \<longleftrightarrow> cb_hedge b \<noteq> None"

definition all_connectors :: "'v connector_bundle \<Rightarrow> 'v sor_connector list" where
  "all_connectors b = cb_primary b # (case cb_hedge b of None \<Rightarrow> [] | Some h \<Rightarrow> [h]) @ cb_extra b"

subsection \<open>Collecting snapshots\<close>

primrec collect_loop ::
  "(decimal \<Rightarrow> decimal \<Rightarrow> decimal) \<Rightarrow> aggregator \<Rightarrow> 'v sor_connector list \<Rightarrow> 'v \<Rightarrow> venue_snapshot list \<times> 'v" where
  "collect_loop ddiv agg [] v = ([], v)"
| "collect_loop ddiv agg (c # cs) v =
     (case sc_rate_limit_remaining c v of
        (budget, v1) \<Rightarrow>
          (case collect_loop ddiv agg cs v1 of
             (rest, v2) \<Rightarrow>
               (List.map_filter
                  (\<lambda>((w, p, s), seed). if w \<noteq> sc_venue_id c \<or> p \<noteq> sc_product c then None
                                       else Some (snapshot_from_seed ddiv (sc_venue_id c) seed budget)) agg @ rest, v2)))"

definition collect ::
  "(decimal \<Rightarrow> decimal \<Rightarrow> decimal) \<Rightarrow> aggregator \<Rightarrow> 'v connector_bundle \<Rightarrow> 'v \<Rightarrow> venue_snapshot list \<times> 'v" where
  "collect ddiv agg b v = collect_loop ddiv agg (all_connectors b) v"

definition recommend_route ::
  "(decimal \<Rightarrow> decimal \<Rightarrow> decimal) \<Rightarrow> decimal \<Rightarrow> aggregator \<Rightarrow> 'v connector_bundle \<Rightarrow> side \<Rightarrow> qty \<Rightarrow> decimal \<Rightarrow> 'v
     \<Rightarrow> route_decision \<times> 'v" where
  "recommend_route ddiv model agg b s q urgency v =
     (case collect ddiv agg b v of (snaps, v1) \<Rightarrow> (greedy_route model s q urgency snaps, v1))"

text \<open>The loop of \<^verbatim>\<open>refresh_sor_queue_wait\<close> over the venues of the aggregator.\<close>

definition refresh_one ::
  "(decimal \<Rightarrow> decimal \<Rightarrow> decimal) \<Rightarrow> int \<Rightarrow> venue_id \<Rightarrow> aggregator \<times> (venue_id, trade_rate) hash_map
     \<Rightarrow> aggregator \<times> (venue_id, trade_rate) hash_map" where
  "refresh_one ddiv now w st =
     (case seed_of w (fst st) of
        None \<Rightarrow> st
      | Some seed \<Rightarrow>
          (case hm_get (snd st) w of
             None \<Rightarrow> st
           | Some est \<Rightarrow>
               (case expected_queue_wait_secs ddiv now (sd_available_qty seed) est of
                  (wait, est') \<Rightarrow>
                    (case wait of None \<Rightarrow> fst st | Some secs \<Rightarrow> update_queue_wait w secs (fst st),
                     hm_insert w est' (snd st)))))"

definition refresh_sor_queue_wait ::
  "(decimal \<Rightarrow> decimal \<Rightarrow> decimal) \<Rightarrow> int \<Rightarrow> aggregator \<times> (venue_id, trade_rate) hash_map
     \<Rightarrow> aggregator \<times> (venue_id, trade_rate) hash_map" where
  "refresh_sor_queue_wait ddiv now st = fold (refresh_one ddiv now) (agg_venues (fst st)) st"

subsection \<open>Dispatch\<close>

record leg_outcome =
  lg_venue :: venue_id
  lg_target_qty :: qty
  lg_dispatched_qty :: qty
  lg_is_taker :: bool
  lg_expected_cost_bps :: decimal
  lg_error :: "string option"

definition leg_succeeded :: "leg_outcome \<Rightarrow> bool" where
  "leg_succeeded l \<longleftrightarrow> lg_error l = None \<and> lg_dispatched_qty l = lg_target_qty l"

record dispatch_outcome =
  do_target_side :: side
  do_total_target_qty :: qty
  do_total_dispatched_qty :: qty
  do_legs :: "leg_outcome list"
  do_errors :: "string list"

definition is_fully_dispatched :: "dispatch_outcome \<Rightarrow> bool" where
  "is_fully_dispatched out \<longleftrightarrow> do_errors out = [] \<and> do_total_dispatched_qty out = do_total_target_qty out"

definition dispatch_empty :: "side \<Rightarrow> qty \<Rightarrow> dispatch_outcome" where
  "dispatch_empty s q = \<lparr>do_target_side = s, do_total_target_qty = q, do_total_dispatched_qty = 0, do_legs = [], do_errors = []\<rparr>"

definition connector_for :: "'v connector_bundle \<Rightarrow> venue_id \<Rightarrow> venue_product option \<Rightarrow> 'v sor_connector option" where
  "connector_for b v p =
     find (\<lambda>c. sc_venue_id c = v \<and> (case p of None \<Rightarrow> True | Some p \<Rightarrow> sc_product c = p)) (all_connectors b)"

definition pick_reference_price :: "'v sor_connector \<Rightarrow> string \<Rightarrow> side \<Rightarrow> 'v \<Rightarrow> price option \<times> 'v" where
  "pick_reference_price c symbol s v =
     (case sc_get_orderbook c symbol v of
        (Inl _, v1) \<Rightarrow> (None, v1)
      | (Inr (bids, asks), v1) \<Rightarrow>
          ((case (case s of Buy \<Rightarrow> asks | Sell \<Rightarrow> bids) of [] \<Rightarrow> None | l # _ \<Rightarrow> Some (pl_price l)), v1))"

text \<open>The five shapes of an outcome differ in the dispatched quantity, the taker flag and the error. The
  texts are those of the code; \<open>show_venue\<close> prints a venue.\<close>

definition leg_outcome_of :: "route_leg \<Rightarrow> bool \<Rightarrow> qty \<Rightarrow> string option \<Rightarrow> leg_outcome" where
  "leg_outcome_of leg taker q err =
     \<lparr>lg_venue = rl_venue leg, lg_target_qty = rl_qty leg, lg_dispatched_qty = q, lg_is_taker = taker,
      lg_expected_cost_bps = rl_expected_cost_bps leg, lg_error = err\<rparr>"

definition maker_order :: "string \<Rightarrow> side \<Rightarrow> price \<Rightarrow> qty \<Rightarrow> new_order" where
  "maker_order symbol s p q =
     \<lparr>no_symbol = symbol, no_side = s, no_order_type = Limit, no_price = Some p, no_qty = q,
      no_time_in_force = Some PostOnly, no_client_order_id = None, no_reduce_only = False\<rparr>"

definition dispatch_single_leg ::
  "(venue_id \<Rightarrow> string) \<Rightarrow> (decimal \<Rightarrow> decimal \<Rightarrow> decimal) \<Rightarrow> 'v connector_bundle \<Rightarrow> product_spec \<Rightarrow> string \<Rightarrow> side
     \<Rightarrow> route_leg \<Rightarrow> 'v om_state \<Rightarrow> (leg_outcome \<times> 'v om_state) option" where
  "dispatch_single_leg show_venue ddiv b product symbol s leg mv =
     (case connector_for b (rl_venue leg) (rl_venue_product leg) of
        None \<Rightarrow> Some (leg_outcome_of leg (rl_is_taker leg) 0
                        (Some (''bundle has no connector for '' @ show_venue (rl_venue leg))), mv)
      | Some c \<Rightarrow>
          (case pick_reference_price c symbol s (snd mv) of
             (ref_price, v1) \<Rightarrow>
               Option.bind (round_qty ddiv product (rl_qty leg)) (\<lambda>q.
                 if q = 0 then Some (leg_outcome_of leg (rl_is_taker leg) 0 (Some ''rounded qty is zero''), (fst mv, v1))
                 else
                   (case ref_price of
                      None \<Rightarrow> Some (leg_outcome_of leg (rl_is_taker leg) 0
                                      (Some ''no top-of-book reference price on venue''), (fst mv, v1))
                    | Some rp \<Rightarrow>
                        Option.bind (round_price ddiv product rp) (\<lambda>p.
                          if rl_is_taker leg then
                            Option.bind (execute_unwind_slice ddiv (sc_conn c) symbol \<lparr>q_side = s, q_price = p, q_qty = q\<rparr> product (fst mv, v1))
                              (\<lambda>(r, mv2). Some (case r of
                                  Inr _ \<Rightarrow> (leg_outcome_of leg True q None, mv2)
                                | Inl e \<Rightarrow> (leg_outcome_of leg True 0 (Some e), mv2)))
                          else
                            (case place_order (sc_conn c) (maker_order symbol s p q) v1 of
                               (Inr _, v2) \<Rightarrow> Some (leg_outcome_of leg False q None, (fst mv, v2))
                             | (Inl e, v2) \<Rightarrow> Some (leg_outcome_of leg False 0 (Some e), (fst mv, v2))))))))"

definition dispatch_route ::
  "(venue_id \<Rightarrow> string) \<Rightarrow> (decimal \<Rightarrow> decimal \<Rightarrow> decimal) \<Rightarrow> 'v connector_bundle \<Rightarrow> product_spec \<Rightarrow> string
     \<Rightarrow> route_decision \<Rightarrow> 'v om_state \<Rightarrow> (dispatch_outcome \<times> 'v om_state) option" where
  "dispatch_route show_venue ddiv b product symbol d mv =
     (if rd_legs d = [] then Some (dispatch_empty (rd_target_side d) (rd_target_qty d), mv)
      else map_option
             (\<lambda>(legs, mv').
                (\<lparr>do_target_side = rd_target_side d, do_total_target_qty = rd_target_qty d,
                  do_total_dispatched_qty = sum_list (map lg_dispatched_qty legs), do_legs = legs,
                  do_errors = List.map_filter lg_error legs\<rparr>, mv'))
             (try_each (dispatch_single_leg show_venue ddiv b product symbol (rd_target_side d)) (rd_legs d) mv))"

text \<open>\<^verbatim>\<open>MarketMakerEngine::dispatch_route\<close>.\<close>

definition engine_dispatch_route ::
  "(venue_id \<Rightarrow> string) \<Rightarrow> (decimal \<Rightarrow> decimal \<Rightarrow> decimal) \<Rightarrow> decimal \<Rightarrow> aggregator \<Rightarrow> 'v connector_bundle \<Rightarrow> product_spec
     \<Rightarrow> string \<Rightarrow> side \<Rightarrow> qty \<Rightarrow> decimal \<Rightarrow> 'v om_state \<Rightarrow> (dispatch_outcome \<times> 'v om_state) option" where
  "engine_dispatch_route show_venue ddiv model agg b product symbol s q urgency mv =
     (case recommend_route ddiv model agg b s q urgency (snd mv) of
        (d, v1) \<Rightarrow> dispatch_route show_venue ddiv b product symbol d (fst mv, v1))"

subsection \<open>One leg\<close>

lemma unwind_slice_counters:
  "execute_unwind_slice ddiv conn symbol quo product mv = Some (Inl e, mv') \<Longrightarrow> fst mv' = fst mv"
  by (auto simp: execute_unwind_slice_def execute_unwind_slice_flagged_def split: bind_splits if_splits prod.splits sum.splits)

lemma dispatch_single_leg_outcome:
  assumes "dispatch_single_leg show_venue ddiv b product symbol s leg mv = Some (out, mv')"
  shows "lg_venue out = rl_venue leg \<and> lg_target_qty out = rl_qty leg \<and> lg_expected_cost_bps out = rl_expected_cost_bps leg"
    and "lg_error out = None \<longleftrightarrow> lg_dispatched_qty out \<noteq> 0"
    and "lg_error out = None \<Longrightarrow> round_qty ddiv product (rl_qty leg) = Some (lg_dispatched_qty out)"
    and "\<not> rl_is_taker leg \<Longrightarrow> fst mv' = fst mv"
  using assms
  by (auto simp: dispatch_single_leg_def leg_outcome_of_def split: option.splits prod.splits sum.splits if_splits bind_splits)

lemma try_each_all2:
  assumes "try_each f xs s = Some (ys, s')" and "\<And>x s y s'. x \<in> set xs \<Longrightarrow> f x s = Some (y, s') \<Longrightarrow> P x y"
  shows "list_all2 P xs ys"
  using assms
proof (induction xs arbitrary: s ys)
  case (Cons x xs)
  then obtain y s1 ys' where "f x s = Some (y, s1)" "try_each f xs s1 = Some (ys', s')" "ys = y # ys'"
    by (auto split: option.splits)
  then show ?case using Cons.IH Cons.prems(2) by auto
qed simp

lemma try_each_kept:
  assumes "try_each f xs s = Some (ys, s')" and "\<And>x s y s'. x \<in> set xs \<Longrightarrow> f x s = Some (y, s') \<Longrightarrow> g s' = g s"
  shows "g s' = g s"
  using assms
proof (induction xs arbitrary: s ys)
  case (Cons x xs)
  then obtain y s1 ys' where "f x s = Some (y, s1)" "try_each f xs s1 = Some (ys', s')" by (auto split: option.splits)
  then show ?case using Cons.IH [of s1 ys'] Cons.prems(2) by (metis list.set_intros)
qed simp

lemma no_errors: "List.map_filter lg_error ls = [] \<longleftrightarrow> (\<forall>l \<in> set ls. lg_error l = None)"
  by (induction ls) (auto simp: map_filter_simps split: option.splits)

lemma sum_list_all2_le:
  fixes e :: decimal
  shows "list_all2 (\<lambda>x y. g y \<le> h x + e) xs ys \<Longrightarrow> sum_list (map g ys) \<le> sum_list (map h xs) + of_nat (length xs) * e"
  by (induction rule: list_all2_induct) (auto simp: algebra_simps)

subsection \<open>Properties\<close>

text \<open>
  What a dispatch reports. There is one outcome per leg, in the order of the legs; a leg either
  failed with an error and counts as nothing dispatched, or was sent with its quantity rounded to the
  lot grid and has no error; the total is the sum of the dispatched quantities and exceeds the
  quantity of the legs by no more than the rounding error of one division per leg.
\<close>

theorem dispatch_route_reports:
  assumes "dispatch_route show_venue ddiv b product symbol d mv = Some (out, mv')"
    and "decimal_division ddiv eps" and "0 < ps_lot_size product" and "\<forall>l \<in> set (rd_legs d). 0 \<le> rl_qty l"
  shows "list_all2 (\<lambda>leg l. lg_venue l = rl_venue leg \<and> lg_target_qty l = rl_qty leg
             \<and> (if lg_error l = None then round_qty ddiv product (rl_qty leg) = Some (lg_dispatched_qty l) \<and> lg_dispatched_qty l \<noteq> 0
                else lg_dispatched_qty l = 0)) (rd_legs d) (do_legs out)
    \<and> do_total_dispatched_qty out = sum_list (map lg_dispatched_qty (do_legs out))
    \<and> do_total_dispatched_qty out \<le> sum_list (map rl_qty (rd_legs d)) + of_nat (length (rd_legs d)) * (eps * ps_lot_size product)
    \<and> (is_fully_dispatched out \<longrightarrow> (\<forall>l \<in> set (do_legs out). lg_error l = None))"
proof -
  let ?P = "\<lambda>leg l. lg_venue l = rl_venue leg \<and> lg_target_qty l = rl_qty leg
      \<and> (if lg_error l = None then round_qty ddiv product (rl_qty leg) = Some (lg_dispatched_qty l) \<and> lg_dispatched_qty l \<noteq> 0
         else lg_dispatched_qty l = 0)"
  have all2: "list_all2 ?P (rd_legs d) (do_legs out)"
  proof (cases "rd_legs d = []")
    case False
    then obtain legs where t: "try_each (dispatch_single_leg show_venue ddiv b product symbol (rd_target_side d)) (rd_legs d) mv = Some (legs, mv')"
      and legs: "do_legs out = legs"
      using assms(1) by (auto simp: dispatch_route_def)
    show ?thesis unfolding legs
    proof (rule try_each_all2 [OF t])
      fix leg l st st'
      assume "dispatch_single_leg show_venue ddiv b product symbol (rd_target_side d) leg st = Some (l, st')"
      note o = dispatch_single_leg_outcome(1-3) [OF this]
      show "?P leg l" using o by (cases "lg_error l = None") auto
    qed
  qed (use assms(1) in \<open>auto simp: dispatch_route_def dispatch_empty_def\<close>)
  have total: "do_total_dispatched_qty out = sum_list (map lg_dispatched_qty (do_legs out))"
    and errors: "do_errors out = List.map_filter lg_error (do_legs out)"
    using assms(1) by (auto simp: dispatch_route_def dispatch_empty_def map_filter_simps split: if_splits)
  have eps: "0 \<le> eps * ps_lot_size product" using decimal_division.eps_nonneg [OF assms(2)] assms(3) by simp
  have "lg_dispatched_qty l \<le> rl_qty leg + eps * ps_lot_size product" if "?P leg l" "0 \<le> rl_qty leg" for leg l
    using that decimal_division.round_down_bounds [OF assms(2), of "ps_lot_size product" "rl_qty leg"] assms(3) eps
    by (auto simp: round_qty_def split: if_splits)
  then have "list_all2 (\<lambda>leg l. lg_dispatched_qty l \<le> rl_qty leg + eps * ps_lot_size product) (rd_legs d) (do_legs out)"
    using all2 assms(4) by (elim list.rel_mono_strong) blast
  then have bound: "sum_list (map lg_dispatched_qty (do_legs out))
      \<le> sum_list (map rl_qty (rd_legs d)) + of_nat (length (rd_legs d)) * (eps * ps_lot_size product)"
    by (rule sum_list_all2_le)
  have full: "is_fully_dispatched out \<longrightarrow> (\<forall>l \<in> set (do_legs out). lg_error l = None)"
    by (simp add: is_fully_dispatched_def errors no_errors)
  show ?thesis unfolding total by (intro conjI all2 refl bound full)
qed

text \<open>
  Passive legs escape the order manager. Dispatching a route whose legs are all maker legs leaves
  the order manager as it was, although the orders rest on the venues: so they are not among the
  orders a later cancel-all cancels (the module promises that they are tracked for that purpose), and
  they are sent to the venue in paper mode too, which only the taker path tests for.
\<close>

theorem maker_legs_untracked:
  assumes "dispatch_route show_venue ddiv b product symbol d mv = Some (out, mv')"
    and "\<forall>l \<in> set (rd_legs d). \<not> rl_is_taker l"
  shows "fst mv' = fst mv \<and> live_order_ids (fst mv') = live_order_ids (fst mv)"
proof -
  have "fst mv' = fst mv"
  proof (cases "rd_legs d = []")
    case False
    then obtain legs where "try_each (dispatch_single_leg show_venue ddiv b product symbol (rd_target_side d)) (rd_legs d) mv = Some (legs, mv')"
      using assms(1) by (auto simp: dispatch_route_def)
    then show ?thesis
      by (rule try_each_kept [where g = fst]) (use assms(2) dispatch_single_leg_outcome(4) in blast)
  qed (use assms(1) in \<open>simp add: dispatch_route_def\<close>)
  then show ?thesis by simp
qed

text \<open>
  One connector per venue. The router leaves the product of every leg open, so each leg is sent
  to the first connector of its venue: with a second product on the same venue in the bundle, a leg
  that was priced on that product's snapshot goes to the first product's connector, and the second
  connector never receives one.
\<close>

theorem second_product_unreachable:
  assumes "l \<in> set (rd_legs (greedy_route model s q urgency snaps))"
    and "all_connectors b = before @ c # after" and "first \<in> set before" and "sc_venue_id first = sc_venue_id c"
  shows "connector_for b (rl_venue l) (rl_venue_product l) = find (\<lambda>c. sc_venue_id c = rl_venue l) (before @ c # after)
    \<and> (\<forall>d. connector_for b (rl_venue l) (rl_venue_product l) = Some d \<longrightarrow> sc_venue_id d = sc_venue_id c \<longrightarrow> d \<in> set before)"
proof -
  have none: "rl_venue_product l = None"
    using assms(1) greedy_loop_legs by (auto simp: greedy_route_def rd_empty_def Let_def split: if_splits prod.splits)
  have f: "connector_for b (rl_venue l) (rl_venue_product l) = find (\<lambda>c. sc_venue_id c = rl_venue l) (before @ c # after)"
    by (simp add: connector_for_def none assms(2))
  have "d \<in> set before" if "find (\<lambda>c. sc_venue_id c = rl_venue l) (before @ c # after) = Some d" "sc_venue_id d = sc_venue_id c" for d
  proof -
    have "sc_venue_id first = rl_venue l" using find_SomeD [OF that(1)] that(2) assms(4) by simp
    with assms(3) that(1) show ?thesis
    proof (induction before)
      case (Cons x xs)
      then show ?case by (cases "sc_venue_id x = rl_venue l") auto
    qed simp
  qed
  then show ?thesis using f by auto
qed

subsection \<open>At work\<close>

text \<open>A venue over the in-memory connector whose book has one level a side.\<close>

definition demo_sor :: "venue_id \<Rightarrow> venue_product \<Rightarrow> mock_connector sor_connector" where
  "demo_sor v p = \<lparr>sc_venue_id = v, sc_product = p, sc_conn = mock_conn 20,
     sc_get_orderbook = (\<lambda>_ m. (Inr ([\<lparr>pl_price = 99, pl_qty = 1\<rparr>], [\<lparr>pl_price = 101, pl_qty = 1\<rparr>]), m)),
     sc_rate_limit_remaining = (\<lambda>m. (10, m))\<rparr>"

definition demo_product :: product_spec where
  "demo_product = \<lparr>ps_symbol = ''BTC'', ps_base_asset = ''BTC'', ps_quote_asset = ''USD'', ps_tick_size = 1, ps_lot_size = 1,
     ps_min_notional = 0, ps_maker_fee = 0, ps_taker_fee = 0, ps_trading_status = Trading\<rparr>"

definition demo_route :: "decimal \<Rightarrow> route_decision" where
  "demo_route urgency = greedy_route default_v1 Buy 3 urgency [demo_venue Binance 2 5 0, demo_venue Bybit 2 1 0]"

lemma demo_route_legs:
  "rd_legs (demo_route 0) = map (\<lambda>(v, q, c). \<lparr>rl_venue = v, rl_venue_product = None, rl_qty = q, rl_is_taker = False,
     rl_expected_cost_bps = c\<rparr>) [(Bybit, 2, 1), (Binance, 1, 5)]" "rd_target_side (demo_route 0) = Buy"
  by (simp_all add: demo_route_def greedy_route_def price_all_def is_available_def demo_venue_def price_venue_def
      clamp_urgency_def by_cost_def TAKER_THRESHOLD_def Let_def less_eq_prod_def insort_key_left_comm)

definition demo_bundle :: "mock_connector connector_bundle" where
  "demo_bundle = with_extra [demo_sor Bybit Spot] (bundle_dual (demo_sor Binance Spot) (demo_sor Binance LinearPerp))"

lemma demo_bundle_connectors:
  "all_connectors demo_bundle = [demo_sor Binance Spot, demo_sor Binance LinearPerp, demo_sor Bybit Spot]"
  by (simp add: demo_bundle_def with_extra_def bundle_dual_def all_connectors_def)

lemma demo_dispatch:
  "\<exists>out v. dispatch_route (\<lambda>_. ''venue'') (/) demo_bundle demo_product ''BTC'' (demo_route 0) (om_new_paper, mock_new)
     = Some (out, (om_new_paper, v))
   \<and> do_legs out = [leg_outcome_of (rd_legs (demo_route 0) ! 0) False 2 None, leg_outcome_of (rd_legs (demo_route 0) ! 1) False 1 None]
   \<and> length (mk_placed v) = 2"
  by (simp add: dispatch_route_def demo_route_legs dispatch_single_leg_def connector_for_def demo_bundle_connectors
      demo_sor_def pick_reference_price_def round_qty_def round_price_def round_down_def demo_product_def
      mock_conn_def mock_place_order_def mock_new_v4_def leg_outcome_of_def mock_new_def)

theorem dispatch_route_reports_witness:
  "\<exists>out st. dispatch_route (\<lambda>_. ''venue'') (/) demo_bundle demo_product ''BTC'' (demo_route 0) (om_new_paper, mock_new) = Some (out, st)
     \<and> do_total_dispatched_qty out = sum_list (map lg_dispatched_qty (do_legs out)) \<and> do_total_dispatched_qty out \<le> 3"
proof -
  obtain out v where d: "dispatch_route (\<lambda>_. ''venue'') (/) demo_bundle demo_product ''BTC'' (demo_route 0) (om_new_paper, mock_new)
      = Some (out, (om_new_paper, v))" using demo_dispatch by blast
  show ?thesis
    using dispatch_route_reports [OF d exact_division.decimal_division_axioms] d
    by (auto simp: demo_product_def demo_route_legs)
qed

theorem maker_legs_untracked_witness:
  "\<exists>out v. dispatch_route (\<lambda>_. ''venue'') (/) demo_bundle demo_product ''BTC'' (demo_route 0) (om_new_paper, mock_new)
       = Some (out, (om_new_paper, v))
     \<and> length (mk_placed v) = 2 \<and> om_paper_mode om_new_paper \<and> live_order_ids om_new_paper = live_order_ids om_new_paper"
proof -
  obtain out v where d: "dispatch_route (\<lambda>_. ''venue'') (/) demo_bundle demo_product ''BTC'' (demo_route 0) (om_new_paper, mock_new)
      = Some (out, (om_new_paper, v))" and n: "length (mk_placed v) = 2" using demo_dispatch by blast
  show ?thesis using maker_legs_untracked [OF d] d n by (auto simp: demo_route_legs om_new_paper_def)
qed

theorem second_product_unreachable_witness:
  "\<forall>d. connector_for demo_bundle Binance None = Some d \<longrightarrow> sc_venue_id d = Binance \<longrightarrow> d \<in> set [demo_sor Binance Spot]"
proof -
  let ?l = "\<lparr>rl_venue = Binance, rl_venue_product = None, rl_qty = 1, rl_is_taker = False, rl_expected_cost_bps = 5\<rparr>"
  have leg: "?l \<in> set (rd_legs (demo_route 0))" by (simp add: demo_route_legs)
  have conns: "all_connectors demo_bundle = [demo_sor Binance Spot] @ demo_sor Binance LinearPerp # [demo_sor Bybit Spot]"
    by (simp add: demo_bundle_connectors)
  have same: "sc_venue_id (demo_sor Binance Spot) = sc_venue_id (demo_sor Binance LinearPerp)"
    and venue: "sc_venue_id (demo_sor Binance LinearPerp) = Binance" by (simp_all add: demo_sor_def)
  have first: "demo_sor Binance Spot \<in> set [demo_sor Binance Spot]" by simp
  show ?thesis
    using second_product_unreachable [OF leg [unfolded demo_route_def] conns first same, THEN conjunct2]
    by (simp only: venue route_leg.simps)
qed

end
