(* ===== verification/Portfolio.thy ===== *)
theory Portfolio
  imports Inventory Std_Maps "HOL-Library.Multiset" "HOL-Library.Product_Lexorder" "HOL-Library.List_Lexorder" "HOL-Library.Char_ord"
begin

section \<open>The portfolio\<close>

text \<open>
  \<^verbatim>\<open>crates/portfolio/src/lib.rs\<close> (positions over several quote currencies, reported in one) and
  \<^verbatim>\<open>cross_venue.rs\<close> (the inventory of every engine, grouped by base asset). A hash map is an
  association list whose order stands for its iteration order; the time of a publication is an
  argument.
\<close>

subsection \<open>Positions\<close>

record position =
  po_qty :: decimal
  po_avg_entry :: decimal
  po_realised_pnl_native :: decimal

definition position_default :: position where
  "position_default = \<lparr>po_qty = 0, po_avg_entry = 0, po_realised_pnl_native = 0\<rparr>"

definition apply_fill :: "(decimal \<Rightarrow> decimal \<Rightarrow> decimal) \<Rightarrow> decimal \<Rightarrow> price \<Rightarrow> position \<Rightarrow> position" where
  "apply_fill ddiv fill_qty fill_price p =
     (let new_qty = po_qty p + fill_qty;
          same_sign = (po_qty p \<noteq> 0 \<and> (0 < po_qty p) = (0 < fill_qty));
          p1 = (if po_qty p = 0 \<or> same_sign
                then let total_cost = po_avg_entry p * \<bar>po_qty p\<bar> + fill_price * \<bar>fill_qty\<bar>;
                         total_q = \<bar>po_qty p\<bar> + \<bar>fill_qty\<bar>
                     in p\<lparr>po_avg_entry := if 0 < total_q then ddiv total_cost total_q else 0\<rparr>
                else let closed = min \<bar>fill_qty\<bar> \<bar>po_qty p\<bar>;
                         direction = (if 0 < po_qty p then 1 else - 1);
                         pnl = direction * (fill_price - po_avg_entry p) * closed;
                         p' = p\<lparr>po_realised_pnl_native := po_realised_pnl_native p + pnl\<rparr>
                     in if \<bar>po_qty p\<bar> < \<bar>fill_qty\<bar> then p'\<lparr>po_avg_entry := fill_price\<rparr> else p');
          p2 = p1\<lparr>po_qty := new_qty\<rparr>
      in if new_qty = 0 then p2\<lparr>po_avg_entry := 0\<rparr> else p2)"

subsection \<open>The portfolio\<close>

record attribution =
  at_spread_pnl :: decimal
  at_inventory_pnl :: decimal
  at_rebate_income :: decimal
  at_fees_paid :: decimal
  at_funding_pnl_realised :: decimal
  at_loan_cost_amortized :: decimal

definition attribution_default :: attribution where
  "attribution_default = \<lparr>at_spread_pnl = 0, at_inventory_pnl = 0, at_rebate_income = 0, at_fees_paid = 0,
     at_funding_pnl_realised = 0, at_loan_cost_amortized = 0\<rparr>"

definition attribution_total :: "attribution \<Rightarrow> decimal" where
  "attribution_total a = at_spread_pnl a + at_inventory_pnl a + at_rebate_income a + at_funding_pnl_realised a
     - at_fees_paid a - at_loan_cost_amortized a"

text \<open>The six \<^verbatim>\<open>+=\<close> of the two roll-ups.\<close>

definition attribution_add :: "attribution \<Rightarrow> attribution \<Rightarrow> attribution" where
  "attribution_add snap t =
     \<lparr>at_spread_pnl = at_spread_pnl t + at_spread_pnl snap, at_inventory_pnl = at_inventory_pnl t + at_inventory_pnl snap,
      at_rebate_income = at_rebate_income t + at_rebate_income snap, at_fees_paid = at_fees_paid t + at_fees_paid snap,
      at_funding_pnl_realised = at_funding_pnl_realised t + at_funding_pnl_realised snap,
      at_loan_cost_amortized = at_loan_cost_amortized t + at_loan_cost_amortized snap\<rparr>"

record portfolio =
  pf_reporting_currency :: string
  pf_positions :: "(string, position) hash_map"
  pf_marks_native :: "(string, price) hash_map"
  pf_fx_to_reporting :: "(string, decimal) hash_map"
  pf_symbol_assets :: "(string, string \<times> string) hash_map"
  pf_per_strategy_pnl :: "(string, decimal) hash_map"
  pf_attribution_by_symbol :: "(string, attribution) hash_map"
  pf_dust_threshold :: decimal

definition portfolio_new :: "string \<Rightarrow> portfolio" where
  "portfolio_new currency =
     \<lparr>pf_reporting_currency = currency, pf_positions = [], pf_marks_native = [], pf_fx_to_reporting = [],
      pf_symbol_assets = [], pf_per_strategy_pnl = [], pf_attribution_by_symbol = [], pf_dust_threshold = 1 / 10 ^ 8\<rparr>"

definition record_attribution :: "string \<Rightarrow> attribution \<Rightarrow> portfolio \<Rightarrow> portfolio" where
  "record_attribution symbol snap pf = pf\<lparr>pf_attribution_by_symbol := hm_insert symbol snap (pf_attribution_by_symbol pf)\<rparr>"

definition consolidated_attribution :: "portfolio \<Rightarrow> attribution" where
  "consolidated_attribution pf = fold (\<lambda>e. attribution_add (snd e)) (pf_attribution_by_symbol pf) attribution_default"

definition attribution_by_asset :: "portfolio \<Rightarrow> (string, attribution) hash_map" where
  "attribution_by_asset pf =
     fold (\<lambda>(symbol, snap) out.
             let key = (case hm_get (pf_symbol_assets pf) symbol of None \<Rightarrow> ''unknown'' | Some (base, quote) \<Rightarrow> base)
             in hm_insert key (attribution_add snap (case hm_get out key of None \<Rightarrow> attribution_default | Some a \<Rightarrow> a)) out)
       (pf_attribution_by_symbol pf) []"

definition register_symbol :: "string \<Rightarrow> string \<Rightarrow> string \<Rightarrow> portfolio \<Rightarrow> portfolio" where
  "register_symbol symbol base quote' pf = pf\<lparr>pf_symbol_assets := hm_insert symbol (base, quote') (pf_symbol_assets pf)\<rparr>"

definition get_or :: "('k, 'v) hash_map \<Rightarrow> 'k \<Rightarrow> 'v \<Rightarrow> 'v" where
  "get_or m k d = (case hm_get m k of None \<Rightarrow> d | Some v \<Rightarrow> v)"

definition pf_on_fill ::
  "(decimal \<Rightarrow> decimal \<Rightarrow> decimal) \<Rightarrow> string \<Rightarrow> decimal \<Rightarrow> price \<Rightarrow> string \<Rightarrow> portfolio \<Rightarrow> portfolio" where
  "pf_on_fill ddiv symbol q price strategy_class pf =
     (let pos = get_or (pf_positions pf) symbol position_default;
          pos' = apply_fill ddiv q price pos;
          pf1 = pf\<lparr>pf_positions := hm_insert symbol pos' (pf_positions pf)\<rparr>;
          realised_delta = po_realised_pnl_native pos' - po_realised_pnl_native pos
      in if realised_delta = 0 then pf1
         else pf1\<lparr>pf_per_strategy_pnl := hm_insert strategy_class
                     (get_or (pf_per_strategy_pnl pf) strategy_class 0 + realised_delta * get_or (pf_fx_to_reporting pf) symbol 1)
                     (pf_per_strategy_pnl pf)\<rparr>)"

definition mark_price :: "string \<Rightarrow> price \<Rightarrow> portfolio \<Rightarrow> portfolio" where
  "mark_price symbol price pf = pf\<lparr>pf_marks_native := hm_insert symbol price (pf_marks_native pf)\<rparr>"

definition set_fx :: "string \<Rightarrow> decimal \<Rightarrow> portfolio \<Rightarrow> portfolio" where
  "set_fx symbol factor pf = pf\<lparr>pf_fx_to_reporting := hm_insert symbol factor (pf_fx_to_reporting pf)\<rparr>"

record asset_snapshot =
  as_qty :: decimal
  as_avg_entry :: decimal
  as_mark_price :: decimal
  as_realised_pnl_native :: decimal
  as_realised_pnl_reporting :: decimal
  as_unrealised_pnl_native :: decimal
  as_unrealised_pnl_reporting :: decimal
  as_fx_to_reporting :: decimal

record portfolio_snapshot =
  sn_reporting_currency :: string
  sn_total_equity :: decimal
  sn_total_realised_pnl :: decimal
  sn_total_unrealised_pnl :: decimal
  sn_per_asset :: "(string, asset_snapshot) hash_map"
  sn_per_factor :: "(string \<times> decimal) list"
  sn_per_strategy :: "(string \<times> decimal) list"

definition asset_snapshot_of :: "portfolio \<Rightarrow> string \<Rightarrow> position \<Rightarrow> asset_snapshot" where
  "asset_snapshot_of pf symbol pos =
     (let mark = get_or (pf_marks_native pf) symbol (po_avg_entry pos);
          fx = get_or (pf_fx_to_reporting pf) symbol 1;
          unrealised = (mark - po_avg_entry pos) * po_qty pos
      in \<lparr>as_qty = po_qty pos, as_avg_entry = po_avg_entry pos, as_mark_price = mark,
          as_realised_pnl_native = po_realised_pnl_native pos, as_realised_pnl_reporting = po_realised_pnl_native pos * fx,
          as_unrealised_pnl_native = unrealised, as_unrealised_pnl_reporting = unrealised * fx, as_fx_to_reporting = fx\<rparr>)"

definition factor_delta :: "portfolio \<Rightarrow> string \<Rightarrow> decimal" where
  "factor_delta pf asset =
     fold (\<lambda>(symbol, pos) tot.
             case hm_get (pf_symbol_assets pf) symbol of
               None \<Rightarrow> tot
             | Some (base, quote') \<Rightarrow>
                 let tot1 = (if base = asset then tot + po_qty pos else tot)
                 in if quote' = asset
                    then tot1 - po_qty pos * get_or (pf_marks_native pf) symbol (po_avg_entry pos)
                    else tot1)
       (pf_positions pf) 0"

text \<open>The distinct assets in the order they are met.\<close>

definition push_new :: "string \<Rightarrow> string list \<Rightarrow> string list" where
  "push_new a as = (if a \<in> set as then as else as @ [a])"

definition factor_assets :: "portfolio \<Rightarrow> string list" where
  "factor_assets pf = fold (\<lambda>(symbol, base, quote') as. push_new quote' (push_new base as)) (pf_symbol_assets pf) []"

definition factors :: "portfolio \<Rightarrow> (string \<times> decimal) list" where
  "factors pf =
     sort_key fst (filter (\<lambda>(a, d). pf_dust_threshold pf \<le> \<bar>d\<bar>)
       (map (\<lambda>a. (a, factor_delta pf a)) (factor_assets pf)))"

definition per_strategy_sorted :: "portfolio \<Rightarrow> (string \<times> decimal) list" where
  "per_strategy_sorted pf = sort_key fst (pf_per_strategy_pnl pf)"

definition pf_snapshot :: "portfolio \<Rightarrow> portfolio_snapshot" where
  "pf_snapshot pf =
     (let snaps = map (\<lambda>(symbol, pos). (symbol, asset_snapshot_of pf symbol pos)) (pf_positions pf);
          realised = sum_list (map (\<lambda>e. as_realised_pnl_reporting (snd e)) snaps);
          unrealised = sum_list (map (\<lambda>e. as_unrealised_pnl_reporting (snd e)) snaps)
      in \<lparr>sn_reporting_currency = pf_reporting_currency pf, sn_total_equity = realised + unrealised,
          sn_total_realised_pnl = realised, sn_total_unrealised_pnl = unrealised,
          sn_per_asset = fold (\<lambda>(symbol, s). hm_insert symbol s) snaps [],
          sn_per_factor = factors pf, sn_per_strategy = per_strategy_sorted pf\<rparr>)"

subsection \<open>The cross-venue view\<close>

record venue_inventory =
  vi_symbol :: string
  vi_venue :: string
  vi_base_asset :: string
  vi_inventory :: decimal
  vi_mark_price :: "price option"
  vi_notional_quote :: "decimal option"
  vi_updated_at :: timestamp

record asset_aggregate =
  ag_base :: string
  ag_net_delta :: decimal
  ag_net_notional_quote :: decimal
  ag_legs :: "venue_inventory list"

definition symbol_boundary :: "char \<Rightarrow> bool" where
  "symbol_boundary c \<longleftrightarrow> (CHR ''0'' \<le> c \<and> c \<le> CHR ''9'') \<or> c = CHR ''-'' \<or> c = CHR ''_'' \<or> c = CHR ''/''"

definition infer_base_asset :: "string \<Rightarrow> string" where
  "infer_base_asset symbol = takeWhile (\<lambda>c. \<not> symbol_boundary c) symbol"

type_synonym cross_venue_portfolio = "(string \<times> string, venue_inventory) hash_map"

definition cv_publish :: "timestamp \<Rightarrow> string \<Rightarrow> string \<Rightarrow> decimal \<Rightarrow> price option \<Rightarrow> cross_venue_portfolio \<Rightarrow> cross_venue_portfolio" where
  "cv_publish now symbol venue' inv' mark cv =
     hm_insert (symbol, venue')
       \<lparr>vi_symbol = symbol, vi_venue = venue', vi_base_asset = infer_base_asset symbol, vi_inventory = inv',
        vi_mark_price = mark, vi_notional_quote = map_option (\<lambda>m. inv' * m) mark, vi_updated_at = now\<rparr> cv"

definition net_delta :: "cross_venue_portfolio \<Rightarrow> string \<Rightarrow> decimal" where
  "net_delta cv base = sum_list (map vi_inventory (filter (\<lambda>e. vi_base_asset e = base) (map snd cv)))"

definition net_notional_quote :: "cross_venue_portfolio \<Rightarrow> string \<Rightarrow> decimal" where
  "net_notional_quote cv base =
     sum_list (List.map_filter vi_notional_quote (filter (\<lambda>e. vi_base_asset e = base) (map snd cv)))"

definition group_legs :: "cross_venue_portfolio \<Rightarrow> (string, venue_inventory list) btree_map" where
  "group_legs cv =
     fold (\<lambda>e m. bt_insert (vi_base_asset e) ((case bt_get m (vi_base_asset e) of None \<Rightarrow> [] | Some ls \<Rightarrow> ls) @ [e]) m)
       (map snd cv) []"

definition cv_by_asset :: "cross_venue_portfolio \<Rightarrow> asset_aggregate list" where
  "cv_by_asset cv =
     map (\<lambda>(base, legs).
            let legs' = sort_key (\<lambda>l. (vi_venue l, vi_symbol l)) legs
            in \<lparr>ag_base = base, ag_net_delta = sum_list (map vi_inventory legs'),
                ag_net_notional_quote = sum_list (List.map_filter vi_notional_quote legs'), ag_legs = legs'\<rparr>)
       (group_legs cv)"

subsection \<open>One fill\<close>

lemma apply_fill_qty [simp]: "po_qty (apply_fill ddiv q p pos) = po_qty pos + q"
  by (simp add: apply_fill_def Let_def)

lemma apply_fill_realised:
  "po_realised_pnl_native (apply_fill ddiv q p pos) = po_realised_pnl_native pos +
     (if po_qty pos = 0 \<or> (0 < po_qty pos) = (0 < q) then 0
      else (if 0 < po_qty pos then 1 else - 1) * (p - po_avg_entry pos) * min \<bar>q\<bar> \<bar>po_qty pos\<bar>)"
  by (simp add: apply_fill_def Let_def)

lemma apply_fill_avg:
  "po_avg_entry (apply_fill ddiv q p pos) =
     (if po_qty pos + q = 0 then 0
      else if po_qty pos = 0 \<or> (0 < po_qty pos) = (0 < q)
      then if 0 < \<bar>po_qty pos\<bar> + \<bar>q\<bar> then ddiv (po_avg_entry pos * \<bar>po_qty pos\<bar> + p * \<bar>q\<bar>) (\<bar>po_qty pos\<bar> + \<bar>q\<bar>) else 0
      else if \<bar>po_qty pos\<bar> < \<bar>q\<bar> then p else po_avg_entry pos)"
  by (auto simp: apply_fill_def Let_def)

lemmas apply_fill_fields = apply_fill_qty apply_fill_realised apply_fill_avg

definition flat_ok :: "position \<Rightarrow> bool" where
  "flat_ok p \<longleftrightarrow> (po_qty p = 0 \<longrightarrow> po_avg_entry p = 0)"

lemma apply_fill_flat_ok: "flat_ok (apply_fill ddiv q p pos)"
  by (simp add: flat_ok_def apply_fill_fields)

text \<open>The value of a position at a mark grows by what the fill gains against the mark.\<close>

definition position_value :: "price \<Rightarrow> position \<Rightarrow> decimal" where
  "position_value mark p = po_realised_pnl_native p + (mark - po_avg_entry p) * po_qty p"

lemma apply_fill_value:
  assumes "flat_ok pos"
  shows "position_value mark (apply_fill (/) q p pos) = position_value mark pos + q * (mark - p)"
proof (cases "po_qty pos + q = 0")
  case True
  then have q: "q = - po_qty pos" by simp
  show ?thesis using assms by (auto simp: position_value_def flat_ok_def apply_fill_fields q algebra_simps)
next
  case False
  consider "po_qty pos = 0" | "0 < po_qty pos" "0 < q" | "po_qty pos < 0" "q \<le> 0" | "0 < po_qty pos" "q \<le> 0" | "po_qty pos < 0" "0 < q"
    by linarith
  then show ?thesis
  proof cases
    case 1
    then show ?thesis using assms False by (simp add: position_value_def flat_ok_def apply_fill_fields algebra_simps)
  next
    case 2
    then have "\<bar>po_qty pos\<bar> + \<bar>q\<bar> = po_qty pos + q" by simp
    with 2 show ?thesis by (simp add: position_value_def apply_fill_fields field_simps)
  next
    case 3
    then have "\<bar>po_qty pos\<bar> + \<bar>q\<bar> = - (po_qty pos + q)" "po_qty pos + q < 0" by simp_all
    with 3 show ?thesis by (simp add: position_value_def apply_fill_fields field_simps)
  next
    case 4
    with False show ?thesis by (auto simp: position_value_def apply_fill_fields min_def algebra_simps)
  next
    case 5
    with False show ?thesis by (auto simp: position_value_def apply_fill_fields min_def algebra_simps)
  qed
qed

subsection \<open>Properties\<close>

text \<open>The position of the portfolio and the inventory manager of the risk crate.\<close>

definition same_position :: "position \<Rightarrow> inventory_manager \<Rightarrow> bool" where
  "same_position p m \<longleftrightarrow> po_qty p = iv_inventory m \<and> po_avg_entry p = iv_avg_entry_price m
     \<and> po_realised_pnl_native p = iv_realized_pnl m \<and> flat_ok p"

lemma same_position_step:
  assumes "same_position p m"
  shows "same_position (apply_fill (/) (signed_qty f) (f_price f) p) (iv_on_fill (/) m f)"
proof -
  let ?q = "signed_qty f"
  have eq: "po_qty p = iv_inventory m" "po_avg_entry p = iv_avg_entry_price m" "po_realised_pnl_native p = iv_realized_pnl m"
    and flat: "iv_inventory m = 0 \<longrightarrow> iv_avg_entry_price m = 0"
    using assms by (auto simp: same_position_def flat_ok_def)
  have realised: "po_realised_pnl_native (apply_fill (/) ?q (f_price f) p) = iv_realized_pnl m + realize m f"
    by (auto simp: apply_fill_realised eq realize_def Let_def min_def not_less)
  have "po_avg_entry (apply_fill (/) ?q (f_price f) p) = new_avg (/) m f"
  proof (cases "iv_inventory m + ?q = 0")
    case True
    then show ?thesis by (simp add: apply_fill_avg eq new_avg_def Let_def)
  next
    case False
    consider "iv_inventory m = 0" | "0 < iv_inventory m" "0 < ?q" | "iv_inventory m < 0" "?q \<le> 0"
      | "0 < iv_inventory m" "?q \<le> 0" | "iv_inventory m < 0" "0 < ?q" by linarith
    then show ?thesis
    proof cases
      case 1
      then show ?thesis using False flat by (auto simp: apply_fill_avg eq new_avg_def Let_def sgn_if)
    next
      case 2
      then show ?thesis by (simp add: apply_fill_avg eq new_avg_def Let_def sgn_if algebra_simps)
    next
      case 3
      then show ?thesis by (simp add: apply_fill_avg eq new_avg_def Let_def sgn_if algebra_simps)
    next
      case 4
      then show ?thesis using False by (auto simp: apply_fill_avg eq new_avg_def Let_def sgn_if)
    next
      case 5
      then show ?thesis using False by (auto simp: apply_fill_avg eq new_avg_def Let_def sgn_if)
    qed
  qed
  then show ?thesis using realised by (simp add: same_position_def eq on_fill_fields apply_fill_flat_ok)
qed

text \<open>
  C23: the two books of a position agree. The portfolio's \<^verbatim>\<open>Position\<close> and the risk crate's
  \<^verbatim>\<open>InventoryManager\<close>, which the engine feeds with the same fills through different code, hold after
  every sequence of fills the same quantity, the same average entry price and the same realised
  profit, up to the rounding of the division.
\<close>

theorem position_equals_inventory:
  "let p = foldl (\<lambda>p f. apply_fill (/) (signed_qty f) (f_price f) p) position_default fs;
       m = foldl (iv_on_fill (/)) iv_new fs
   in po_qty p = iv_inventory m \<and> po_avg_entry p = iv_avg_entry_price m \<and> po_realised_pnl_native p = iv_realized_pnl m"
proof -
  have "same_position (foldl (\<lambda>p f. apply_fill (/) (signed_qty f) (f_price f) p) p fs) (foldl (iv_on_fill (/)) m fs)"
    if "same_position p m" for p m
    using that by (induction fs arbitrary: p m) (auto intro: same_position_step)
  moreover have "same_position position_default iv_new"
    by (simp add: same_position_def position_default_def iv_new_def flat_ok_def)
  ultimately show ?thesis by (auto simp: same_position_def Let_def)
qed

subsection \<open>The equity of a sequence of fills\<close>

lemma sum_hm_insert:
  fixes g :: "'k \<times> 'v \<Rightarrow> decimal"
  shows "sum_list (map g (hm_insert k v m)) =
     sum_list (map g m) + (g (k, v) - (case hm_get m k of None \<Rightarrow> 0 | Some w \<Rightarrow> g (k, w)))"
proof (induction m)
  case Nil
  then show ?case by (simp add: hm_insert_def)
next
  case (Cons e m)
  obtain k' w where e: "e = (k', w)" by (cases e)
  show ?case using Cons by (cases "k' = k") (simp_all add: e hm_insert_def hm_get_def)
qed

type_synonym portfolio_fill = "string \<times> decimal \<times> price \<times> string"

definition on_fills :: "portfolio \<Rightarrow> portfolio_fill list \<Rightarrow> portfolio" where
  "on_fills pf fs = foldl (\<lambda>pf (symbol, q, price, cls). pf_on_fill (/) symbol q price cls pf) pf fs"

text \<open>What a fill is worth at the mark, in the reporting currency.\<close>

definition fill_value :: "portfolio \<Rightarrow> portfolio_fill \<Rightarrow> decimal" where
  "fill_value pf f = (case f of (symbol, q, price, cls) \<Rightarrow>
     get_or (pf_fx_to_reporting pf) symbol 1 * (q * (get_or (pf_marks_native pf) symbol 0 - price)))"

definition book_value :: "portfolio \<Rightarrow> string \<times> position \<Rightarrow> decimal" where
  "book_value pf e = get_or (pf_fx_to_reporting pf) (fst e) 1 * position_value (get_or (pf_marks_native pf) (fst e) 0) (snd e)"

definition book_realised :: "portfolio \<Rightarrow> string \<times> position \<Rightarrow> decimal" where
  "book_realised pf e = get_or (pf_fx_to_reporting pf) (fst e) 1 * po_realised_pnl_native (snd e)"

lemma on_fill_untouched [simp]:
  "pf_marks_native (pf_on_fill ddiv s q p c pf) = pf_marks_native pf"
  "pf_fx_to_reporting (pf_on_fill ddiv s q p c pf) = pf_fx_to_reporting pf"
  by (simp_all add: pf_on_fill_def Let_def)

lemma on_fill_positions:
  "pf_positions (pf_on_fill ddiv s q p c pf) =
     hm_insert s (apply_fill ddiv q p (get_or (pf_positions pf) s position_default)) (pf_positions pf)"
  by (simp add: pf_on_fill_def Let_def)

lemma on_fill_value:
  assumes "\<And>s' pos. hm_get (pf_positions pf) s' = Some pos \<Longrightarrow> flat_ok pos"
  shows "sum_list (map (book_value pf) (pf_positions (pf_on_fill (/) s q p c pf))) =
    sum_list (map (book_value pf) (pf_positions pf)) + fill_value pf (s, q, p, c)"
proof (cases "hm_get (pf_positions pf) s")
  case None
  have "flat_ok position_default" by (simp add: flat_ok_def position_default_def)
  then show ?thesis
    by (simp add: on_fill_positions sum_hm_insert None get_or_def book_value_def fill_value_def apply_fill_value)
       (simp add: position_value_def position_default_def)
next
  case (Some pos)
  then show ?thesis
    by (simp add: on_fill_positions sum_hm_insert get_or_def book_value_def fill_value_def apply_fill_value [OF assms [OF Some]]
        algebra_simps)
qed

lemma on_fill_realised:
  "sum_list (map (book_realised pf) (pf_positions (pf_on_fill (/) s q p c pf)))
     - sum_list (map snd (pf_per_strategy_pnl (pf_on_fill (/) s q p c pf)))
   = sum_list (map (book_realised pf) (pf_positions pf)) - sum_list (map snd (pf_per_strategy_pnl pf))"
  by (cases "hm_get (pf_positions pf) s"; cases "hm_get (pf_per_strategy_pnl pf) c")
     (simp_all add: pf_on_fill_def Let_def sum_hm_insert get_or_def book_realised_def position_default_def algebra_simps)

text \<open>What every fill keeps.\<close>

definition fills_ok :: "portfolio \<Rightarrow> portfolio \<Rightarrow> decimal \<Rightarrow> bool" where
  "fills_ok pf0 pf v \<longleftrightarrow>
     pf_marks_native pf = pf_marks_native pf0 \<and> pf_fx_to_reporting pf = pf_fx_to_reporting pf0 \<and>
     (\<forall>s pos. hm_get (pf_positions pf) s = Some pos \<longrightarrow> flat_ok pos) \<and>
     (\<forall>e \<in> set (pf_positions pf). hm_get (pf_marks_native pf0) (fst e) \<noteq> None) \<and>
     sum_list (map (book_value pf0) (pf_positions pf)) = v \<and>
     sum_list (map (book_realised pf0) (pf_positions pf)) = sum_list (map snd (pf_per_strategy_pnl pf))"

lemma book_value_cong:
  "pf_marks_native pf = pf_marks_native pf0 \<Longrightarrow> pf_fx_to_reporting pf = pf_fx_to_reporting pf0 \<Longrightarrow>
   book_value pf = book_value pf0 \<and> book_realised pf = book_realised pf0 \<and> fill_value pf = fill_value pf0"
  by (auto simp: book_value_def book_realised_def fill_value_def fun_eq_iff)

lemma fills_ok_step:
  assumes "fills_ok pf0 pf v" and marked: "hm_get (pf_marks_native pf0) s \<noteq> None"
  shows "fills_ok pf0 (pf_on_fill (/) s q p c pf) (v + fill_value pf0 (s, q, p, c))"
proof -
  note ok = assms(1) [unfolded fills_ok_def]
  from ok have same: "book_value pf = book_value pf0" "book_realised pf = book_realised pf0" "fill_value pf = fill_value pf0"
    using book_value_cong [of pf pf0] by blast+
  have flat: "hm_get (pf_positions (pf_on_fill (/) s q p c pf)) s' = Some pos \<Longrightarrow> flat_ok pos" for s' pos
    using ok
    by (auto simp: on_fill_positions hm_get_def hm_insert_def update_conv' apply_fill_flat_ok split: if_splits)
  have keys: "\<forall>e \<in> set (pf_positions (pf_on_fill (/) s q p c pf)). hm_get (pf_marks_native pf0) (fst e) \<noteq> None"
  proof
    fix e assume "e \<in> set (pf_positions (pf_on_fill (/) s q p c pf))"
    then have "fst e \<in> fst ` set (pf_positions (pf_on_fill (/) s q p c pf))" by (rule imageI)
    then have "fst e \<in> insert s (fst ` set (pf_positions pf))"
      by (simp add: on_fill_positions hm_insert_def dom_update)
    then show "hm_get (pf_marks_native pf0) (fst e) \<noteq> None" using ok marked by auto
  qed
  have "sum_list (map (book_value pf0) (pf_positions (pf_on_fill (/) s q p c pf))) = v + fill_value pf0 (s, q, p, c)"
    using on_fill_value [of pf s q p c] ok same by auto
  moreover have "sum_list (map (book_realised pf0) (pf_positions (pf_on_fill (/) s q p c pf)))
      = sum_list (map snd (pf_per_strategy_pnl (pf_on_fill (/) s q p c pf)))"
    using on_fill_realised [of pf s q p c] ok same by auto
  ultimately show ?thesis using ok flat keys by (simp add: fills_ok_def)
qed

lemma fills_ok_run:
  "fills_ok pf0 pf v \<Longrightarrow> \<forall>f \<in> set fs. hm_get (pf_marks_native pf0) (fst f) \<noteq> None \<Longrightarrow>
   fills_ok pf0 (on_fills pf fs) (v + sum_list (map (fill_value pf0) fs))"
proof (induction fs arbitrary: pf v)
  case Nil
  then show ?case by (simp add: on_fills_def)
next
  case (Cons f fs)
  obtain s q p c where f: "f = (s, q, p, c)" by (cases f)
  from Cons.prems have "fills_ok pf0 (pf_on_fill (/) s q p c pf) (v + fill_value pf0 f)"
    by (auto simp: f intro: fills_ok_step)
  from Cons.IH [OF this] Cons.prems show ?case by (simp add: on_fills_def f add.assoc)
qed

lemma snapshot_totals:
  assumes "\<forall>e \<in> set (pf_positions pf). hm_get (pf_marks_native pf) (fst e) \<noteq> None"
  shows "sn_total_equity (pf_snapshot pf) = sum_list (map (book_value pf) (pf_positions pf))"
    and "sn_total_realised_pnl (pf_snapshot pf) = sum_list (map (book_realised pf) (pf_positions pf))"
proof -
  have real: "map (\<lambda>e. as_realised_pnl_reporting (snd e)) (map (\<lambda>(symbol, pos). (symbol, asset_snapshot_of pf symbol pos)) (pf_positions pf))
      = map (book_realised pf) (pf_positions pf)"
    by (simp add: asset_snapshot_of_def Let_def book_realised_def case_prod_beta)
  have sums: "sum_list (map a m) + sum_list (map b m) = sum_list (map (\<lambda>e. a e + b e) m)"
    for a b :: "string \<times> position \<Rightarrow> decimal" and m by (induction m) simp_all
  have val: "book_realised pf e + as_unrealised_pnl_reporting (asset_snapshot_of pf (fst e) (snd e)) = book_value pf e"
    if "e \<in> set (pf_positions pf)" for e
    using assms that
    by (auto simp: asset_snapshot_of_def Let_def book_realised_def book_value_def position_value_def get_or_def algebra_simps
        split: option.splits)
  show "sn_total_realised_pnl (pf_snapshot pf) = sum_list (map (book_realised pf) (pf_positions pf))"
    unfolding pf_snapshot_def Let_def real by simp
  show "sn_total_equity (pf_snapshot pf) = sum_list (map (book_value pf) (pf_positions pf))"
    unfolding pf_snapshot_def Let_def real
    by (simp add: sums case_prod_beta comp_def val cong: map_cong)
qed

lemma insort_key_sum: "sum_list (map g (insort_key f x xs)) = g x + (sum_list (map g xs) :: decimal)"
  by (induction xs) (simp_all add: algebra_simps)

lemma sort_key_sum: "sum_list (map g (sort_key f xs)) = (sum_list (map g xs) :: decimal)"
  by (induction xs) (simp_all add: insort_key_sum)

text \<open>
  C24: the equity is the sum of what each fill is worth at the mark. After any sequence of fills into
  an empty portfolio, over any number of symbols and quote currencies and with the marks and factors
  as they are, the equity of the snapshot is the sum over the fills of quantity times mark minus
  price, converted by the symbol's factor, whatever the grouping into positions, reversals and
  average prices; and the per-strategy buckets add up to the realised total of the same snapshot.
\<close>

theorem snapshot_equity_is_fills:
  assumes "pf_positions pf = []" and "pf_per_strategy_pnl pf = []"
    and "\<forall>f \<in> set fs. hm_get (pf_marks_native pf) (fst f) \<noteq> None"
  shows "let sn = pf_snapshot (on_fills pf fs)
         in sn_total_equity sn = sum_list (map (fill_value pf) fs)
          \<and> sum_list (map snd (sn_per_strategy sn)) = sn_total_realised_pnl sn"
proof -
  let ?pf = "on_fills pf fs"
  have "fills_ok pf pf 0" using assms by (simp add: fills_ok_def)
  from fills_ok_run [OF this assms(3)] have ok: "fills_ok pf ?pf (sum_list (map (fill_value pf) fs))" by simp
  note ok' = ok [unfolded fills_ok_def]
  have same: "book_value ?pf = book_value pf" "book_realised ?pf = book_realised pf"
    using ok' book_value_cong [of ?pf pf] by blast+
  have marked: "\<forall>e \<in> set (pf_positions ?pf). hm_get (pf_marks_native ?pf) (fst e) \<noteq> None" using ok' by simp
  have "sum_list (map snd (sn_per_strategy (pf_snapshot ?pf))) = sum_list (map snd (pf_per_strategy_pnl ?pf))"
    by (simp add: pf_snapshot_def Let_def per_strategy_sorted_def sort_key_sum)
  with snapshot_totals [OF marked] ok' same show ?thesis by (simp add: Let_def)
qed

definition two_currency_portfolio :: portfolio where
  "two_currency_portfolio = set_fx ''ETHBTC'' 60000 (mark_price ''ETHBTC'' (6 / 100) (mark_price ''BTCUSDT'' 61000 (portfolio_new ''USDT'')))"

definition two_currency_fills :: "portfolio_fill list" where
  "two_currency_fills = [(''BTCUSDT'', 2, 60000, ''avellaneda''), (''ETHBTC'', - 10, 7 / 100, ''basis''),
     (''BTCUSDT'', - 3, 62000, ''grid''), (''ETHBTC'', 4, 5 / 100, ''basis'')]"

theorem snapshot_equity_is_fills_witness:
  "let sn = pf_snapshot (on_fills two_currency_portfolio two_currency_fills)
   in sn_total_equity sn = 13400 \<and> sum_list (map snd (sn_per_strategy sn)) = sn_total_realised_pnl sn"
proof -
  note defs = two_currency_portfolio_def two_currency_fills_def set_fx_def mark_price_def portfolio_new_def
  have marked: "\<forall>f \<in> set two_currency_fills. hm_get (pf_marks_native two_currency_portfolio) (fst f) \<noteq> None"
    by (simp add: defs hm_get_def hm_insert_def del: not_None_eq)
  have empty: "pf_positions two_currency_portfolio = []" "pf_per_strategy_pnl two_currency_portfolio = []"
    by (simp_all add: defs)
  have "sum_list (map (fill_value two_currency_portfolio) two_currency_fills) = 13400"
    by (simp add: defs fill_value_def get_or_def hm_get_def hm_insert_def)
  with snapshot_equity_is_fills [OF empty marked] show ?thesis by (simp add: Let_def)
qed

text \<open>
  The buckets are converted when the fill comes, the totals when the snapshot is taken: once a
  factor is refreshed the two disagree.
\<close>

lemma refreshed_factor_splits_totals:
  "let pf = on_fills two_currency_portfolio two_currency_fills; sn = pf_snapshot (set_fx ''ETHBTC'' 50000 pf)
   in sum_list (map snd (sn_per_strategy sn)) \<noteq> sn_total_realised_pnl sn"
  by (simp add: two_currency_portfolio_def two_currency_fills_def Let_def on_fills_def pf_on_fill_def set_fx_def mark_price_def
      portfolio_new_def apply_fill_def position_default_def pf_snapshot_def asset_snapshot_of_def per_strategy_sorted_def
      get_or_def hm_get_def hm_insert_def)

lemma usdt_symbol_is_its_own_base: "infer_base_asset ''BTCUSDT'' = ''BTCUSDT''" "infer_base_asset ''BTC-USDT'' = ''BTC''"
  by (simp_all add: infer_base_asset_def symbol_boundary_def)

end
