(* ===== verification/Funding_Arb.thy ===== *)
theory Funding_Arb
  imports Connector Kill_Switch Std_Maps
begin

section \<open>Funding arbitrage\<close>

text \<open>
  The decision core \<^verbatim>\<open>crates/persistence/src/funding.rs\<close>, the pair dispatcher
  \<^verbatim>\<open>crates/strategy/src/funding_arb.rs\<close>, the driver \<^verbatim>\<open>crates/strategy/src/funding_arb_driver.rs\<close> that
  composes them, and what \<^verbatim>\<open>crates/engine/src/market_maker.rs\<close> does with its events. Both venues are
  connectors over one world; the book and funding queries and the passing of time while a task
  sleeps are functions on that world. The text of a decimal is the argument \<open>show_dec\<close>; a result
  \<open>None\<close> of the driver is the panic of a division by zero.
\<close>

subsection \<open>The decision core\<close>

record funding_arb_state =
  fa_symbol :: string
  fa_spot_position :: decimal
  fa_perp_position :: decimal
  fa_net_delta :: decimal
  fa_entry_basis :: decimal
  fa_accumulated_funding :: decimal
  fa_basis_pnl :: decimal
  fa_funding_periods :: u64
  fa_last_funding_at :: "timestamp option"

record funding_arb_config =
  fc_min_rate_annual_pct :: decimal
  fc_max_position :: decimal
  fc_max_basis_bps :: decimal
  fc_enabled :: bool
  fc_per_pair_min_rate_annual_pct :: "(string, decimal) hash_map"
  fc_transfer_latency_cost_bps :: decimal

record funding_arb_engine =
  fe_state :: funding_arb_state
  fe_config :: funding_arb_config

datatype spot_action = SpotBuy | SpotSell
datatype perp_action = PerpLong | PerpShort

datatype funding_signal = Enter spot_action perp_action decimal | Exit string | Hold

definition fa_state_new :: "string \<Rightarrow> funding_arb_state" where
  "fa_state_new symbol =
     \<lparr>fa_symbol = symbol, fa_spot_position = 0, fa_perp_position = 0, fa_net_delta = 0, fa_entry_basis = 0,
      fa_accumulated_funding = 0, fa_basis_pnl = 0, fa_funding_periods = 0, fa_last_funding_at = None\<rparr>"

definition fa_total_pnl :: "funding_arb_state \<Rightarrow> decimal" where
  "fa_total_pnl s = fa_accumulated_funding s + fa_basis_pnl s"

definition fa_is_open :: "funding_arb_state \<Rightarrow> bool" where
  "fa_is_open s \<longleftrightarrow> fa_spot_position s \<noteq> 0 \<or> fa_perp_position s \<noteq> 0"

definition threshold_for :: "funding_arb_config \<Rightarrow> string \<Rightarrow> decimal" where
  "threshold_for c symbol =
     (case hm_get (fc_per_pair_min_rate_annual_pct c) symbol of None \<Rightarrow> fc_min_rate_annual_pct c | Some t \<Rightarrow> t)"

definition default_funding_arb_config :: funding_arb_config where
  "default_funding_arb_config =
     \<lparr>fc_min_rate_annual_pct = 10, fc_max_position = 1 / 10, fc_max_basis_bps = 50, fc_enabled = False,
      fc_per_pair_min_rate_annual_pct = [], fc_transfer_latency_cost_bps = 8\<rparr>"

definition fa_engine_new :: "string \<Rightarrow> funding_arb_config \<Rightarrow> funding_arb_engine" where
  "fa_engine_new symbol c = \<lparr>fe_state = fa_state_new symbol, fe_config = c\<rparr>"

definition fa_evaluate ::
  "(decimal \<Rightarrow> decimal \<Rightarrow> decimal) \<Rightarrow> (decimal \<Rightarrow> string) \<Rightarrow> decimal \<Rightarrow> price \<Rightarrow> price \<Rightarrow> funding_arb_engine
     \<Rightarrow> funding_signal option" where
  "fa_evaluate ddiv show_dec funding_rate spot_price perp_price e =
     (if \<not> fc_enabled (fe_config e) then Some Hold
      else if spot_price = 0 then None
      else let annual_rate = funding_rate * 1095 * 100;
               basis_bps = ddiv \<bar>perp_price - spot_price\<bar> spot_price * 10000
           in if fa_is_open (fe_state e)
              then if fc_max_basis_bps (fe_config e) < basis_bps
                   then Some (Exit (''basis too wide: '' @ show_dec basis_bps @ '' bps''))
                   else if \<bar>annual_rate\<bar> < 2 then Some (Exit ''funding rate too low to hold'')
                   else Some Hold
              else if fc_min_rate_annual_pct (fe_config e) \<le> \<bar>annual_rate\<bar>
              then if 0 < funding_rate then Some (Enter SpotBuy PerpShort (fc_max_position (fe_config e)))
                   else Some (Enter SpotSell PerpLong (fc_max_position (fe_config e)))
              else Some Hold)"

definition fe_upd :: "(funding_arb_state \<Rightarrow> funding_arb_state) \<Rightarrow> funding_arb_engine \<Rightarrow> funding_arb_engine" where
  "fe_upd f e = e\<lparr>fe_state := f (fe_state e)\<rparr>"

definition fa_on_funding_payment :: "timestamp \<Rightarrow> decimal \<Rightarrow> funding_arb_engine \<Rightarrow> funding_arb_engine" where
  "fa_on_funding_payment now amount =
     fe_upd (\<lambda>s. s\<lparr>fa_accumulated_funding := fa_accumulated_funding s + amount,
                   fa_funding_periods := fa_funding_periods s + 1, fa_last_funding_at := Some now\<rparr>)"

definition fa_update_basis :: "price \<Rightarrow> price \<Rightarrow> funding_arb_engine \<Rightarrow> funding_arb_engine" where
  "fa_update_basis spot_price perp_price =
     fe_upd (\<lambda>s. if fa_is_open s
                 then s\<lparr>fa_basis_pnl := (fa_entry_basis s - (perp_price - spot_price)) * \<bar>fa_spot_position s\<bar>,
                        fa_net_delta := fa_spot_position s + fa_perp_position s\<rparr>
                 else s)"

definition fa_on_entry :: "decimal \<Rightarrow> decimal \<Rightarrow> price \<Rightarrow> price \<Rightarrow> funding_arb_engine \<Rightarrow> funding_arb_engine" where
  "fa_on_entry spot_qty perp_qty spot_price perp_price =
     fe_upd (\<lambda>s. s\<lparr>fa_spot_position := spot_qty, fa_perp_position := perp_qty,
                   fa_entry_basis := perp_price - spot_price, fa_net_delta := spot_qty + perp_qty\<rparr>)"

definition fa_on_exit :: "funding_arb_engine \<Rightarrow> funding_arb_engine" where
  "fa_on_exit = fe_upd (\<lambda>s. s\<lparr>fa_spot_position := 0, fa_perp_position := 0, fa_net_delta := 0\<rparr>)"

definition apply_spot_fill :: "decimal \<Rightarrow> funding_arb_engine \<Rightarrow> funding_arb_engine" where
  "apply_spot_fill q =
     fe_upd (\<lambda>s. s\<lparr>fa_spot_position := fa_spot_position s + q, fa_net_delta := fa_spot_position s + q + fa_perp_position s\<rparr>)"

definition apply_perp_fill :: "decimal \<Rightarrow> funding_arb_engine \<Rightarrow> funding_arb_engine" where
  "apply_perp_fill q =
     fe_upd (\<lambda>s. s\<lparr>fa_perp_position := fa_perp_position s + q, fa_net_delta := fa_spot_position s + (fa_perp_position s + q)\<rparr>)"

subsection \<open>The pair dispatcher\<close>

record instrument_pair =
  ip_primary_symbol :: string
  ip_hedge_symbol :: string
  ip_multiplier :: decimal
  ip_funding_interval_secs :: "u64 option"
  ip_basis_threshold_bps :: decimal

datatype pair_leg_error = TakerRejected string | PairBreak string bool

record pair_dispatch_outcome =
  pd_taker_order_id :: order_id
  pd_maker_order_id :: order_id
  pd_spot_side :: side
  pd_perp_side :: side
  pd_size :: decimal

datatype funding_rate_error = NotSupported | Other string

record 'w pair_venues =
  pv_primary :: "'w connector"
  pv_hedge :: "'w connector"
  pv_primary_orderbook :: "string \<Rightarrow> nat \<Rightarrow> 'w \<Rightarrow> (string + price_level list \<times> price_level list \<times> u64) \<times> 'w"
  pv_hedge_orderbook :: "string \<Rightarrow> nat \<Rightarrow> 'w \<Rightarrow> (string + price_level list \<times> price_level list \<times> u64) \<times> 'w"
  pv_hedge_funding_rate :: "string \<Rightarrow> 'w \<Rightarrow> (funding_rate_error + decimal) \<times> 'w"
  pv_sleep :: "nat \<Rightarrow> 'w \<Rightarrow> 'w"

primrec spot_action_to_side :: "spot_action \<Rightarrow> side" where
  "spot_action_to_side SpotBuy = Buy"
| "spot_action_to_side SpotSell = Sell"

primrec perp_action_to_side :: "perp_action \<Rightarrow> side" where
  "perp_action_to_side PerpLong = Buy"
| "perp_action_to_side PerpShort = Sell"

text \<open>The attempts after the first, one per delay.\<close>

primrec retry_after :: "'w connector \<Rightarrow> (nat \<Rightarrow> 'w \<Rightarrow> 'w) \<Rightarrow> new_order \<Rightarrow> nat list \<Rightarrow> 'w \<Rightarrow> bool \<times> 'w" where
  "retry_after conn sleep no [] w = (False, w)"
| "retry_after conn sleep no (d # ds) w =
     (case place_order conn no (sleep d w) of
        (Inr _, w1) \<Rightarrow> (True, w1)
      | (Inl _, w1) \<Rightarrow> retry_after conn sleep no ds w1)"

definition place_with_retry :: "'w connector \<Rightarrow> (nat \<Rightarrow> 'w \<Rightarrow> 'w) \<Rightarrow> new_order \<Rightarrow> nat list \<Rightarrow> 'w \<Rightarrow> bool \<times> 'w" where
  "place_with_retry conn sleep no backoff w =
     (case place_order conn no w of
        (Inr _, w1) \<Rightarrow> (True, w1)
      | (Inl _, w1) \<Rightarrow> retry_after conn sleep no backoff w1)"

definition taker_order :: "instrument_pair \<Rightarrow> side \<Rightarrow> decimal \<Rightarrow> new_order" where
  "taker_order pair perp_side hedge_size =
     \<lparr>no_symbol = ip_hedge_symbol pair, no_side = perp_side, no_order_type = Market, no_price = None,
      no_qty = hedge_size, no_time_in_force = Some Ioc, no_client_order_id = None, no_reduce_only = False\<rparr>"

definition maker_leg_order :: "instrument_pair \<Rightarrow> side \<Rightarrow> decimal \<Rightarrow> new_order" where
  "maker_leg_order pair spot_side size' =
     \<lparr>no_symbol = ip_primary_symbol pair, no_side = spot_side, no_order_type = Limit, no_price = None,
      no_qty = size', no_time_in_force = Some PostOnly, no_client_order_id = None, no_reduce_only = False\<rparr>"

definition compensation_order :: "instrument_pair \<Rightarrow> side \<Rightarrow> decimal \<Rightarrow> new_order" where
  "compensation_order pair perp_side hedge_size =
     \<lparr>no_symbol = ip_hedge_symbol pair, no_side = opposite perp_side, no_order_type = Market, no_price = None,
      no_qty = hedge_size, no_time_in_force = Some Ioc, no_client_order_id = None, no_reduce_only = True\<rparr>"

definition pair_dispatch ::
  "'w pair_venues \<Rightarrow> instrument_pair \<Rightarrow> side \<Rightarrow> side \<Rightarrow> decimal \<Rightarrow> 'w
     \<Rightarrow> (pair_leg_error + pair_dispatch_outcome) \<times> 'w" where
  "pair_dispatch pv pair spot_side perp_side size' w =
     (let hedge_size = size' * ip_multiplier pair
      in case place_order (pv_hedge pv) (taker_order pair perp_side hedge_size) w of
           (Inl e, w1) \<Rightarrow> (Inl (TakerRejected e), w1)
         | (Inr taker_id, w1) \<Rightarrow>
             (case place_order (pv_primary pv) (maker_leg_order pair spot_side size') w1 of
                (Inr maker_id, w2) \<Rightarrow>
                  (Inr \<lparr>pd_taker_order_id = taker_id, pd_maker_order_id = maker_id, pd_spot_side = spot_side,
                        pd_perp_side = perp_side, pd_size = size'\<rparr>, w2)
              | (Inl maker_err, w2) \<Rightarrow>
                  (case place_with_retry (pv_hedge pv) (pv_sleep pv) (compensation_order pair perp_side hedge_size)
                          [100, 200, 400] w2 of
                     (compensated, w3) \<Rightarrow> (Inl (PairBreak maker_err compensated), w3))))"

definition pair_enter ::
  "'w pair_venues \<Rightarrow> instrument_pair \<Rightarrow> funding_signal \<Rightarrow> 'w \<Rightarrow> (pair_leg_error + pair_dispatch_outcome) \<times> 'w" where
  "pair_enter pv pair signal w =
     (case signal of
        Enter spot_side perp_side size' \<Rightarrow>
          pair_dispatch pv pair (spot_action_to_side spot_side) (perp_action_to_side perp_side) size' w
      | _ \<Rightarrow> (Inl (TakerRejected ''non-enter signal passed to enter()''), w))"

definition pair_exit ::
  "'w pair_venues \<Rightarrow> instrument_pair \<Rightarrow> side \<Rightarrow> side \<Rightarrow> decimal \<Rightarrow> 'w \<Rightarrow> (pair_leg_error + pair_dispatch_outcome) \<times> 'w" where
  "pair_exit pv pair open_spot_side open_perp_side size' w =
     pair_dispatch pv pair (opposite open_spot_side) (opposite open_perp_side) size' w"

subsection \<open>The driver\<close>

datatype driver_event =
    Entered pair_dispatch_outcome
  | Exited pair_dispatch_outcome string
  | EvTakerRejected string
  | EvPairBreak string bool
  | EvHold
  | InputUnavailable string

record open_sides =
  op_spot :: side
  op_perp :: side
  op_size :: decimal

record funding_arb_driver =
  fd_engine :: funding_arb_engine
  fd_open_sides :: "open_sides option"
  fd_pair :: instrument_pair

definition fa_driver_new :: "instrument_pair \<Rightarrow> funding_arb_config \<Rightarrow> funding_arb_driver" where
  "fa_driver_new pair c =
     \<lparr>fd_engine = fa_engine_new (ip_primary_symbol pair) c, fd_open_sides = None, fd_pair = pair\<rparr>"

definition mid_of :: "(decimal \<Rightarrow> decimal \<Rightarrow> decimal) \<Rightarrow> price_level list \<Rightarrow> price_level list \<Rightarrow> price option" where
  "mid_of ddiv bids asks =
     (case (bids, asks) of
        (b # _, a # _) \<Rightarrow> Some (ddiv (pl_price b + pl_price a) 2)
      | _ \<Rightarrow> None)"

definition sample_mids ::
  "(decimal \<Rightarrow> decimal \<Rightarrow> decimal) \<Rightarrow> 'w pair_venues \<Rightarrow> instrument_pair \<Rightarrow> 'w \<Rightarrow> (price \<times> price) option \<times> 'w" where
  "sample_mids ddiv pv pair w =
     (case pv_primary_orderbook pv (ip_primary_symbol pair) 1 w of
        (Inl _, w1) \<Rightarrow> (None, w1)
      | (Inr (pb, pa, _), w1) \<Rightarrow>
          (case pv_hedge_orderbook pv (ip_hedge_symbol pair) 1 w1 of
             (Inl _, w2) \<Rightarrow> (None, w2)
           | (Inr (hb, ha, _), w2) \<Rightarrow>
               (case (mid_of ddiv pb pa, mid_of ddiv hb ha) of
                  (Some p, Some h) \<Rightarrow> (Some (p, h), w2)
                | _ \<Rightarrow> (None, w2))))"

definition signed_by :: "side \<Rightarrow> decimal \<Rightarrow> decimal" where
  "signed_by s q = (case s of Buy \<Rightarrow> q | Sell \<Rightarrow> - q)"

primrec leg_error_event :: "pair_leg_error \<Rightarrow> driver_event" where
  "leg_error_event (TakerRejected r) = EvTakerRejected r"
| "leg_error_event (PairBreak r c) = EvPairBreak r c"

text \<open>The \<^verbatim>\<open>Enter\<close> and the \<^verbatim>\<open>Exit\<close> arm of the tick.\<close>

definition drive_enter ::
  "'w pair_venues \<Rightarrow> price \<Rightarrow> price \<Rightarrow> spot_action \<Rightarrow> perp_action \<Rightarrow> decimal \<Rightarrow> funding_arb_driver \<Rightarrow> 'w
     \<Rightarrow> driver_event \<times> funding_arb_driver \<times> 'w" where
  "drive_enter pv spot_mid perp_mid spot_side perp_side size' d w =
     (case pair_enter pv (fd_pair d) (Enter spot_side perp_side size') w of
        (Inr out, w1) \<Rightarrow>
          (let spot_qty = (if pd_spot_side out = Buy then size' else - size');
               perp_qty = (if pd_perp_side out = Buy then size' * ip_multiplier (fd_pair d)
                           else - size' * ip_multiplier (fd_pair d))
           in (Entered out,
               d\<lparr>fd_engine := fa_on_entry spot_qty perp_qty spot_mid perp_mid (fd_engine d),
                 fd_open_sides := Some \<lparr>op_spot = spot_action_to_side spot_side, op_perp = perp_action_to_side perp_side,
                                        op_size = size'\<rparr>\<rparr>,
               w1))
      | (Inl e, w1) \<Rightarrow> (leg_error_event e, d, w1))"

definition drive_exit ::
  "'w pair_venues \<Rightarrow> string \<Rightarrow> funding_arb_driver \<Rightarrow> 'w \<Rightarrow> driver_event \<times> funding_arb_driver \<times> 'w" where
  "drive_exit pv reason d w =
     (case fd_open_sides d of
        None \<Rightarrow> (EvHold, d, w)
      | Some sides \<Rightarrow>
          (case pair_exit pv (fd_pair d) (op_spot sides) (op_perp sides) (op_size sides) w of
             (Inr out, w1) \<Rightarrow> (Exited out reason, d\<lparr>fd_engine := fa_on_exit (fd_engine d), fd_open_sides := None\<rparr>, w1)
           | (Inl e, w1) \<Rightarrow> (leg_error_event e, d, w1)))"

definition funding_rate_text :: "funding_rate_error \<Rightarrow> string" where
  "funding_rate_text e =
     (case e of NotSupported \<Rightarrow> ''hedge connector does not support get_funding_rate'' | Other t \<Rightarrow> t)"

definition fa_tick_once ::
  "(decimal \<Rightarrow> decimal \<Rightarrow> decimal) \<Rightarrow> (decimal \<Rightarrow> string) \<Rightarrow> 'w pair_venues \<Rightarrow> funding_arb_driver \<Rightarrow> 'w
     \<Rightarrow> (driver_event \<times> funding_arb_driver \<times> 'w) option" where
  "fa_tick_once ddiv show_dec pv d w =
     (case sample_mids ddiv pv (fd_pair d) w of
        (None, w1) \<Rightarrow> Some (InputUnavailable ''primary or hedge book empty'', d, w1)
      | (Some (spot_mid, perp_mid), w1) \<Rightarrow>
          (case pv_hedge_funding_rate pv (ip_hedge_symbol (fd_pair d)) w1 of
             (Inl e, w2) \<Rightarrow> Some (InputUnavailable (funding_rate_text e), d, w2)
           | (Inr rate, w2) \<Rightarrow>
               map_option
                 (\<lambda>signal. case signal of
                    Hold \<Rightarrow> (EvHold, d, w2)
                  | Enter spot_side perp_side size' \<Rightarrow> drive_enter pv spot_mid perp_mid spot_side perp_side size' d w2
                  | Exit reason \<Rightarrow> drive_exit pv reason d w2)
                 (fa_evaluate ddiv show_dec rate spot_mid perp_mid (fd_engine d))))"

definition on_primary_fill :: "decimal \<Rightarrow> funding_arb_driver \<Rightarrow> funding_arb_driver" where
  "on_primary_fill q d = d\<lparr>fd_engine := apply_spot_fill q (fd_engine d)\<rparr>"

definition on_hedge_fill :: "decimal \<Rightarrow> funding_arb_driver \<Rightarrow> funding_arb_driver" where
  "on_hedge_fill q d = d\<lparr>fd_engine := apply_perp_fill q (fd_engine d)\<rparr>"

definition drv_on_funding_payment :: "timestamp \<Rightarrow> decimal \<Rightarrow> funding_arb_driver \<Rightarrow> funding_arb_driver" where
  "drv_on_funding_payment now amount d = d\<lparr>fd_engine := fa_on_funding_payment now amount (fd_engine d)\<rparr>"

subsection \<open>The engine around the driver\<close>

text \<open>The driver slot of the engine, its kill switch, its audit tape and its incidents.\<close>

record funding_arb_host =
  fh_driver :: "funding_arb_driver option"
  fh_kill_switch :: kill_switch
  fh_audit :: "(string \<times> string) list"
  fh_incidents :: "(string \<times> string) list"

definition fh_risk_event :: "string \<Rightarrow> string \<Rightarrow> funding_arb_host \<Rightarrow> funding_arb_host" where
  "fh_risk_event kind detail h = h\<lparr>fh_audit := fh_audit h @ [(kind, detail)]\<rparr>"

definition compensated_text :: "bool \<Rightarrow> string" where
  "compensated_text c = ''compensated='' @ (if c then ''true'' else ''false'')"

definition handle_driver_event :: "timestamp \<Rightarrow> driver_event \<Rightarrow> funding_arb_host \<Rightarrow> funding_arb_host" where
  "handle_driver_event now ev h =
     (case ev of
        Entered out \<Rightarrow> fh_risk_event ''PairDispatchEntered'' ''funding arb driver entered'' h
      | Exited out reason \<Rightarrow> fh_risk_event ''PairDispatchExited'' reason h
      | EvTakerRejected reason \<Rightarrow> fh_risk_event ''PairTakerRejected'' reason h
      | EvPairBreak reason compensated \<Rightarrow>
          (let h1 = fh_risk_event ''PairBreak'' (compensated_text compensated @ '': '' @ reason) h;
               h2 = h1\<lparr>fh_incidents := fh_incidents h1 @
                        [(if compensated then ''high'' else ''critical'',
                          ''funding arb pair break ('' @ compensated_text compensated @ ''): '' @ reason)]\<rparr>
           in if compensated then h2
              else h2\<lparr>fh_kill_switch := manual_trigger StopNewOrders ''uncompensated funding arb pair break'' now (fh_kill_switch h2),
                      fh_driver := None\<rparr>)
      | EvHold \<Rightarrow> h
      | InputUnavailable reason \<Rightarrow> h)"

definition funding_arb_tick ::
  "(decimal \<Rightarrow> decimal \<Rightarrow> decimal) \<Rightarrow> (decimal \<Rightarrow> string) \<Rightarrow> 'w pair_venues \<Rightarrow> timestamp \<Rightarrow> funding_arb_host \<Rightarrow> 'w
     \<Rightarrow> (funding_arb_host \<times> 'w) option" where
  "funding_arb_tick ddiv show_dec pv now h w =
     (case fh_driver h of
        None \<Rightarrow> Some (h, w)
      | Some d \<Rightarrow>
          map_option (\<lambda>(ev, d', w'). (handle_driver_event now ev (h\<lparr>fh_driver := Some d'\<rparr>), w'))
            (fa_tick_once ddiv show_dec pv d w))"

text \<open>What the engine's event handlers pass on: a fill of any order on either leg's stream.\<close>

definition host_primary_fill :: "side \<Rightarrow> qty \<Rightarrow> funding_arb_host \<Rightarrow> funding_arb_host" where
  "host_primary_fill s q h = h\<lparr>fh_driver := map_option (on_primary_fill (signed_by s q)) (fh_driver h)\<rparr>"

definition host_hedge_fill :: "side \<Rightarrow> qty \<Rightarrow> funding_arb_host \<Rightarrow> funding_arb_host" where
  "host_hedge_fill s q h = h\<lparr>fh_driver := map_option (on_hedge_fill (signed_by s q)) (fh_driver h)\<rparr>"

subsection \<open>Exposure of the hedge leg\<close>

text \<open>
  What the dispatcher relies on of the hedge venue, whose position in the hedge symbol is \<open>pos\<close>: a
  market order that is accepted fills, an order that is refused changes nothing, a reduce-only order
  that would not reduce the position is refused, and nothing else moves the position meanwhile.
\<close>

definition perp_venue :: "'w pair_venues \<Rightarrow> ('w \<Rightarrow> decimal) \<Rightarrow> bool" where
  "perp_venue pv pos \<longleftrightarrow>
     (\<forall>no w. no_order_type no = Market \<longrightarrow>
        pos (snd (place_order (pv_hedge pv) no w)) =
          (case fst (place_order (pv_hedge pv) no w) of Inl _ \<Rightarrow> pos w | Inr _ \<Rightarrow> pos w + signed_by (no_side no) (no_qty no)))
     \<and> (\<forall>no w. no_reduce_only no \<and> 0 \<le> signed_by (no_side no) (pos w) \<longrightarrow>
          (\<exists>e. fst (place_order (pv_hedge pv) no w) = Inl e))
     \<and> (\<forall>no w. pos (snd (place_order (pv_primary pv) no w)) = pos w)
     \<and> (\<forall>d w. pos (pv_sleep pv d w) = pos w)"

lemma perp_venueD:
  assumes "perp_venue pv pos"
  shows "no_order_type no = Market \<Longrightarrow> place_order (pv_hedge pv) no w = (Inl e, w') \<Longrightarrow> pos w' = pos w"
    and "no_order_type no = Market \<Longrightarrow> place_order (pv_hedge pv) no w = (Inr i, w') \<Longrightarrow>
           pos w' = pos w + signed_by (no_side no) (no_qty no)"
    and "place_order (pv_primary pv) no w = (r, w') \<Longrightarrow> pos w' = pos w"
    and "pos (pv_sleep pv d w) = pos w"
    and "no_reduce_only no \<Longrightarrow> 0 \<le> signed_by (no_side no) (pos w) \<Longrightarrow>
           \<exists>e w'. place_order (pv_hedge pv) no w = (Inl e, w')"
  using assms unfolding perp_venue_def by (metis fst_conv snd_conv sum.case, metis fst_conv snd_conv sum.case, metis snd_conv, metis, metis surj_pair fst_conv)

lemma signed_by_opposite [simp]: "signed_by (opposite s) q = - signed_by s q"
  by (cases s) (simp_all add: signed_by_def)

lemma order_fields [simp]:
  "no_order_type (taker_order p s q) = Market" "no_side (taker_order p s q) = s" "no_qty (taker_order p s q) = q"
  "no_order_type (compensation_order p s q) = Market" "no_side (compensation_order p s q) = opposite s"
  "no_qty (compensation_order p s q) = q" "no_reduce_only (compensation_order p s q)"
  by (simp_all add: taker_order_def compensation_order_def)

text \<open>Retrying one market order fills it at most once.\<close>

lemma retry_after_position:
  assumes "perp_venue pv pos" and "no_order_type no = Market"
  shows "retry_after (pv_hedge pv) (pv_sleep pv) no ds w = (ok, w') \<Longrightarrow>
    pos w' = pos w + (if ok then signed_by (no_side no) (no_qty no) else 0)"
  by (induction ds arbitrary: w)
     (auto simp: perp_venueD(1,2) [OF assms] perp_venueD(4) [OF assms(1)] split: prod.splits sum.splits)

lemma place_with_retry_position:
  assumes "perp_venue pv pos" and "no_order_type no = Market"
    and "place_with_retry (pv_hedge pv) (pv_sleep pv) no ds w = (ok, w')"
  shows "pos w' = pos w + (if ok then signed_by (no_side no) (no_qty no) else 0)"
  using assms(3) perp_venueD(1,2) [OF assms(1,2)] retry_after_position [OF assms(1,2)]
  by (auto simp: place_with_retry_def split: prod.splits sum.splits)

text \<open>
  What a dispatch does to the exposure. Whatever the two venues answer, the position of the hedge
  leg moves by exactly the wanted leg when the pair is placed, not at all when the taker leg is
  refused or a pair break was compensated, and by the whole leg, left naked, when a pair break is
  reported as not compensated; however many attempts the compensation took.
\<close>

theorem pair_dispatch_exposure:
  assumes "perp_venue pv pos" and "pair_dispatch pv pair spot_side perp_side size' w = (r, w')"
  shows "pos w' = pos w +
    (case r of Inr _ \<Rightarrow> signed_by perp_side (size' * ip_multiplier pair)
     | Inl (TakerRejected _) \<Rightarrow> 0
     | Inl (PairBreak _ compensated) \<Rightarrow> if compensated then 0 else signed_by perp_side (size' * ip_multiplier pair))"
proof -
  note venue = perp_venueD [OF assms(1)] and retried = place_with_retry_position [OF assms(1)]
  show ?thesis
    using assms(2) venue(1,2) [OF order_fields(1)] venue(3) retried [OF order_fields(4)]
    unfolding pair_dispatch_def Let_def
    by (fastforce split: prod.splits sum.splits)
qed

text \<open>A reduce-only order that cannot reduce fails at every attempt.\<close>

lemma retry_after_refused:
  assumes "perp_venue pv pos" and "no_order_type no = Market" and "no_reduce_only no"
  shows "0 \<le> signed_by (no_side no) (pos w) \<Longrightarrow> \<not> fst (retry_after (pv_hedge pv) (pv_sleep pv) no ds w)"
proof (induction ds arbitrary: w)
  case (Cons d ds)
  let ?w = "pv_sleep pv d w"
  have "0 \<le> signed_by (no_side no) (pos ?w)" using Cons.prems perp_venueD(4) [OF assms(1)] by simp
  then obtain e w1 where p: "place_order (pv_hedge pv) no ?w = (Inl e, w1)"
    using perp_venueD(5) [OF assms(1,3)] by blast
  from perp_venueD(1) [OF assms(1,2) p] have "0 \<le> signed_by (no_side no) (pos w1)"
    using \<open>0 \<le> signed_by (no_side no) (pos ?w)\<close> by simp
  from Cons.IH [OF this] show ?case by (simp add: p)
qed simp

lemma place_with_retry_refused:
  assumes "perp_venue pv pos" and "no_order_type no = Market" and "no_reduce_only no" and "0 \<le> signed_by (no_side no) (pos w)"
  shows "\<not> fst (place_with_retry (pv_hedge pv) (pv_sleep pv) no ds w)"
proof -
  obtain e w1 where p: "place_order (pv_hedge pv) no w = (Inl e, w1)"
    using perp_venueD(5) [OF assms(1,3,4)] by blast
  from perp_venueD(1) [OF assms(1,2) p] have "0 \<le> signed_by (no_side no) (pos w1)" using assms(4) by simp
  from retry_after_refused [OF assms(1-3) this] show ?thesis by (simp add: place_with_retry_def p)
qed

text \<open>
  C26: a broken exit is never repaired. When a pair is closed from exactly its open position and the
  spot leg is refused, the compensation would re-open the perpetual leg, but it is sent as
  reduce-only while the position is already flat, so the venue refuses every attempt: the exit is
  reported as an uncompensated break, the engine drops the driver for good and sets the kill switch
  to \<^verbatim>\<open>StopNewOrders\<close>, and the spot position stays without its hedge.
\<close>

theorem exit_break_never_compensated:
  assumes venue: "perp_venue pv pos"
    and "fh_driver h = Some d" and sides: "fd_open_sides d = Some sides"
    and open_pos: "pos w = signed_by (op_perp sides) (op_size sides * ip_multiplier (fd_pair d))"
    and refused: "\<And>no w. \<exists>e w'. place_order (pv_primary pv) no w = (Inl e, w')"
    and tick: "fa_tick_once ddiv show_dec pv d w\<^sub>0 = Some (ev, d', w')"
    and sampled: "sample_mids ddiv pv (fd_pair d) w\<^sub>0 = (Some mids, w\<^sub>1)"
      "pv_hedge_funding_rate pv (ip_hedge_symbol (fd_pair d)) w\<^sub>1 = (Inr rate, w)"
    and exiting: "fa_evaluate ddiv show_dec rate (fst mids) (snd mids) (fd_engine d) = Some (Exit reason)"
    and taken: "\<exists>i w1. place_order (pv_hedge pv)
        (taker_order (fd_pair d) (opposite (op_perp sides)) (op_size sides * ip_multiplier (fd_pair d))) w = (Inr i, w1)"
  shows "\<exists>e. ev = EvPairBreak e False \<and> pos w' = 0
    \<and> fh_driver (handle_driver_event now ev (h\<lparr>fh_driver := Some d'\<rparr>)) = None
    \<and> current_level (fh_kill_switch (handle_driver_event now ev (h\<lparr>fh_driver := Some d'\<rparr>))) = StopNewOrders"
proof -
  let ?q = "op_size sides * ip_multiplier (fd_pair d)" and ?s = "opposite (op_perp sides)"
  obtain i w1 where t: "place_order (pv_hedge pv) (taker_order (fd_pair d) ?s ?q) w = (Inr i, w1)" using taken by blast
  obtain e w2 where m: "place_order (pv_primary pv) (maker_leg_order (fd_pair d) (opposite (op_spot sides)) (op_size sides)) w1 = (Inl e, w2)"
    using refused by blast
  obtain ok w3 where c: "place_with_retry (pv_hedge pv) (pv_sleep pv) (compensation_order (fd_pair d) ?s ?q) [100, 200, 400] w2 = (ok, w3)"
    by (rule prod.exhaust)
  have "pos w1 = 0" using perp_venueD(2) [OF venue order_fields(1) t] open_pos by simp
  then have flat: "pos w2 = 0" using perp_venueD(3) [OF venue m] by simp
  then have ok: "\<not> ok"
    using place_with_retry_refused [OF venue order_fields(4) order_fields(7), of "fd_pair d" ?s ?q w2 "[100, 200, 400]"] c
    by (simp add: signed_by_def split: side.splits)
  have pos: "pos w3 = 0" using place_with_retry_position [OF venue order_fields(4) c] ok flat by simp
  have "drive_exit pv reason d w = (EvPairBreak e False, d, w3)"
    using t m c ok sides by (simp add: drive_exit_def pair_exit_def pair_dispatch_def Let_def)
  then have "ev = EvPairBreak e False" "w' = w3"
    using tick sampled exiting by (auto simp: fa_tick_once_def split: prod.splits)
  then show ?thesis using pos by (simp add: handle_driver_event_def Let_def fh_risk_event_def manual_trigger_def)
qed

subsection \<open>The books of the driver\<close>

text \<open>Consecutive ticks of the driver, and the worlds in which they run.\<close>

primrec fa_ticks ::
  "(decimal \<Rightarrow> decimal \<Rightarrow> decimal) \<Rightarrow> (decimal \<Rightarrow> string) \<Rightarrow> 'w pair_venues \<Rightarrow> nat \<Rightarrow> funding_arb_driver \<Rightarrow> 'w
     \<Rightarrow> (funding_arb_driver \<times> 'w) option" where
  "fa_ticks ddiv show_dec pv 0 d w = Some (d, w)"
| "fa_ticks ddiv show_dec pv (Suc n) d w =
     (case fa_tick_once ddiv show_dec pv d w of
        None \<Rightarrow> None
      | Some (ev, d', w') \<Rightarrow> fa_ticks ddiv show_dec pv n d' w')"

text \<open>Queries place no order (the orders placed are read off the world by \<open>placed\<close>), and no book has a
  spot mid of zero.\<close>

definition quiet_queries :: "(decimal \<Rightarrow> decimal \<Rightarrow> decimal) \<Rightarrow> 'w pair_venues \<Rightarrow> instrument_pair \<Rightarrow> ('w \<Rightarrow> 'a) \<Rightarrow> bool" where
  "quiet_queries ddiv pv pair placed \<longleftrightarrow>
     (\<forall>w mids w'. sample_mids ddiv pv pair w = (mids, w') \<longrightarrow>
        placed w' = placed w \<and> (\<forall>p q. mids = Some (p, q) \<longrightarrow> p \<noteq> 0))
     \<and> (\<forall>w. placed (snd (pv_hedge_funding_rate pv (ip_hedge_symbol pair) w)) = placed w)"

text \<open>A driver whose books say open while it remembers no pair.\<close>

definition wedged :: "funding_arb_driver \<Rightarrow> bool" where
  "wedged d \<longleftrightarrow> fd_open_sides d = None \<and> fa_is_open (fe_state (fd_engine d))"

lemma wedged_tick:
  assumes "wedged d" and "quiet_queries ddiv pv (fd_pair d) placed"
  shows "\<exists>ev w'. fa_tick_once ddiv show_dec pv d w = Some (ev, d, w') \<and> placed w' = placed w"
proof -
  obtain mids w1 where s: "sample_mids ddiv pv (fd_pair d) w = (mids, w1)" by (rule prod.exhaust)
  from assms(2) s have w1: "placed w1 = placed w" and nz: "\<And>p q. mids = Some (p, q) \<Longrightarrow> p \<noteq> 0"
    unfolding quiet_queries_def by blast+
  obtain r w2 where f: "pv_hedge_funding_rate pv (ip_hedge_symbol (fd_pair d)) w1 = (r, w2)" by (rule prod.exhaust)
  have w2: "placed w2 = placed w1" using assms(2) f unfolding quiet_queries_def by (metis snd_conv)
  show ?thesis
  proof (cases mids)
    case None
    then show ?thesis using s w1 by (simp add: fa_tick_once_def)
  next
    case (Some pq)
    then obtain p q where pq: "mids = Some (p, q)" by (cases pq) auto
    show ?thesis
    proof (cases r)
      case (Inl e)
      then show ?thesis using s f pq w1 w2 by (simp add: fa_tick_once_def)
    next
      case (Inr rate)
      then show ?thesis using s f pq nz [OF pq] w1 w2 assms(1)
        by (simp add: fa_tick_once_def fa_evaluate_def wedged_def drive_exit_def Let_def)
    qed
  qed
qed

lemma wedged_ticks:
  assumes "wedged d" and "quiet_queries ddiv pv (fd_pair d) placed"
  shows "\<exists>w'. fa_ticks ddiv show_dec pv n d w = Some (d, w') \<and> placed w' = placed w"
proof (induction n arbitrary: w)
  case (Suc n)
  from wedged_tick [OF assms] obtain ev w1 where "fa_tick_once ddiv show_dec pv d w = Some (ev, d, w1)" "placed w1 = placed w"
    by blast
  with Suc [of w1] show ?case by auto
qed simp

lemma pair_dispatch_placed:
  "pair_dispatch pv pair s p q w = (Inr out, w') \<Longrightarrow> pd_spot_side out = s \<and> pd_perp_side out = p \<and> pd_size out = q"
  by (auto simp: pair_dispatch_def Let_def split: prod.splits sum.splits)

lemma leg_error_event_neq [simp]:
  "leg_error_event e \<noteq> Entered out" "leg_error_event e \<noteq> Exited out r" "leg_error_event e \<noteq> EvHold"
  by (cases e; simp)+

lemma tick_cases:
  assumes "fa_tick_once ddiv show_dec pv d w = Some (ev, d', w')"
  obtains "ev = EvHold" "d' = d" | r where "ev = InputUnavailable r" "d' = d"
    | p q sa pa z w\<^sub>1 where "drive_enter pv p q sa pa z d w\<^sub>1 = (ev, d', w')"
    | r w\<^sub>1 where "drive_exit pv r d w\<^sub>1 = (ev, d', w')"
proof -
  obtain mids w1 where s: "sample_mids ddiv pv (fd_pair d) w = (mids, w1)" by (rule prod.exhaust)
  obtain r w2 where f: "pv_hedge_funding_rate pv (ip_hedge_symbol (fd_pair d)) w1 = (r, w2)" by (rule prod.exhaust)
  show thesis
  proof (cases "mids = None \<or> isl r")
    case True
    then show ?thesis using assms s f that(2) by (auto simp: fa_tick_once_def isl_def split: option.splits)
  next
    case False
    then obtain p q rate where pq: "mids = Some (p, q)" "r = Inr rate" by (cases mids; cases r) auto
    then obtain sg where "fa_evaluate ddiv show_dec rate p q (fd_engine d) = Some sg"
      using assms s f by (auto simp: fa_tick_once_def)
    then show ?thesis using assms s f pq that(1,3,4) by (cases sg) (simp_all add: fa_tick_once_def)
  qed
qed

lemma drive_enter_cases:
  "drive_enter pv p q sa pa z d w = (ev, d', w') \<Longrightarrow>
   (\<exists>out. ev = Entered out \<and> fd_pair d' = fd_pair d \<and> pd_size out = z
      \<and> fa_spot_position (fe_state (fd_engine d')) = signed_by (pd_spot_side out) (pd_size out)
      \<and> fd_open_sides d' = Some \<lparr>op_spot = pd_spot_side out, op_perp = pd_perp_side out, op_size = pd_size out\<rparr>)
   \<or> (\<exists>e. ev = leg_error_event e \<and> d' = d)"
  by (auto simp: drive_enter_def pair_enter_def fa_on_entry_def fe_upd_def Let_def signed_by_def
      dest!: pair_dispatch_placed split: prod.splits sum.splits side.splits)

lemma drive_exit_cases:
  "drive_exit pv r d w = (ev, d', w') \<Longrightarrow>
   (\<exists>out sides. ev = Exited out r \<and> fd_open_sides d = Some sides \<and> pd_size out = op_size sides
      \<and> pd_spot_side out = opposite (op_spot sides) \<and> fd_pair d' = fd_pair d
      \<and> fa_spot_position (fe_state (fd_engine d')) = 0 \<and> fd_open_sides d' = None)
   \<or> (d' = d \<and> (ev = EvHold \<or> (\<exists>e. ev = leg_error_event e)))"
  by (auto simp: drive_exit_def pair_exit_def fa_on_exit_def fe_upd_def
      dest!: pair_dispatch_placed split: prod.splits sum.splits option.splits)

lemma tick_enteredD:
  assumes "fa_tick_once ddiv show_dec pv d w = Some (Entered out, d', w')"
  shows "fd_pair d' = fd_pair d \<and> fd_open_sides d' = Some \<lparr>op_spot = pd_spot_side out, op_perp = pd_perp_side out, op_size = pd_size out\<rparr>
    \<and> fa_spot_position (fe_state (fd_engine d')) = signed_by (pd_spot_side out) (pd_size out)"
  using tick_cases [OF assms] by cases (auto dest!: drive_enter_cases drive_exit_cases simp: leg_error_event_neq [symmetric] dest: sym)

lemma tick_exitedD:
  assumes "fa_tick_once ddiv show_dec pv d w = Some (Exited out reason, d', w')"
  shows "\<exists>sides. fd_open_sides d = Some sides \<and> pd_size out = op_size sides \<and> pd_spot_side out = opposite (op_spot sides)
    \<and> fd_pair d' = fd_pair d \<and> fa_spot_position (fe_state (fd_engine d')) = 0 \<and> fd_open_sides d' = None"
  using tick_cases [OF assms] by cases (auto dest!: drive_enter_cases drive_exit_cases dest: sym)

text \<open>The two fills of a pair that was placed, as the engine passes them on.\<close>

definition pair_fills :: "pair_dispatch_outcome \<Rightarrow> funding_arb_driver \<Rightarrow> funding_arb_driver" where
  "pair_fills out d =
     on_hedge_fill (signed_by (pd_perp_side out) (pd_size out * ip_multiplier (fd_pair d)))
       (on_primary_fill (signed_by (pd_spot_side out) (pd_size out)) d)"

lemma pair_fills_fields [simp]:
  "fd_pair (pair_fills out d) = fd_pair d" "fd_open_sides (pair_fills out d) = fd_open_sides d"
  "fa_spot_position (fe_state (fd_engine (pair_fills out d))) =
     fa_spot_position (fe_state (fd_engine d)) + signed_by (pd_spot_side out) (pd_size out)"
  by (simp_all add: pair_fills_def on_hedge_fill_def on_primary_fill_def apply_spot_fill_def apply_perp_fill_def fe_upd_def)

text \<open>
  C25: after one round trip the driver never trades again. Let a pair be entered and its two fills
  come back, and be exited and those fills come back. The entry was booked when it was dispatched
  and again when it filled, and the exit cleared the books before its own fills were booked, so the
  driver's books show the spot position of the exit as open while no pair is remembered: any number
  of later ticks, whatever the funding rate and the books, places no order and changes nothing.
\<close>

theorem round_trip_stops_arbitrage:
  assumes entered: "fa_tick_once ddiv show_dec pv d w = Some (Entered out, d\<^sub>1, w\<^sub>1)"
    and exited: "fa_tick_once ddiv show_dec pv (pair_fills out d\<^sub>1) w\<^sub>2 = Some (Exited out' reason, d\<^sub>2, w\<^sub>3)"
    and sized: "pd_size out \<noteq> 0"
    and quiet: "quiet_queries ddiv pv (fd_pair d) placed"
  shows "\<exists>w'. fa_ticks ddiv show_dec pv n (pair_fills out' d\<^sub>2) w\<^sub>4 = Some (pair_fills out' d\<^sub>2, w') \<and> placed w' = placed w\<^sub>4"
proof (rule wedged_ticks)
  from tick_enteredD [OF entered] have e: "fd_pair d\<^sub>1 = fd_pair d"
    "fd_open_sides d\<^sub>1 = Some \<lparr>op_spot = pd_spot_side out, op_perp = pd_perp_side out, op_size = pd_size out\<rparr>" by simp_all
  with tick_exitedD [OF exited] have x: "fd_pair d\<^sub>2 = fd_pair d" "fa_spot_position (fe_state (fd_engine d\<^sub>2)) = 0"
    "fd_open_sides d\<^sub>2 = None" "pd_size out' = pd_size out" by auto
  from x sized have "signed_by (pd_spot_side out') (pd_size out') \<noteq> 0" by (simp add: signed_by_def split: side.splits)
  then show "wedged (pair_fills out' d\<^sub>2)" using x by (simp add: wedged_def fa_is_open_def)
  show "quiet_queries ddiv pv (fd_pair (pair_fills out' d\<^sub>2)) placed" using quiet x by simp
qed

text \<open>Nor does a fill of an ordinary quote need a pair: it opens the driver's books at once.\<close>

lemma quote_fill_wedges:
  assumes "fd_open_sides d = None" and "\<not> fa_is_open (fe_state (fd_engine d))" and "q \<noteq> 0"
  shows "wedged (on_primary_fill q d)"
  using assms by (simp add: wedged_def on_primary_fill_def apply_spot_fill_def fe_upd_def fa_is_open_def)

subsection \<open>The decision\<close>

text \<open>
  An entry collects funding. The engine enters only when it is enabled and its books are flat and
  the annualised rate reaches the threshold; then the two legs have the same size and opposite
  sides, and the funding payment of the perpetual leg, minus its signed size times the rate, is the
  size times the magnitude of the rate.
\<close>

theorem funding_entry_collects:
  assumes "fa_evaluate ddiv show_dec rate spot_price perp_price e = Some (Enter sa pa z)"
  shows "fc_enabled (fe_config e) \<and> \<not> fa_is_open (fe_state e) \<and> z = fc_max_position (fe_config e)
    \<and> fc_min_rate_annual_pct (fe_config e) \<le> \<bar>rate * 109500\<bar>
    \<and> spot_action_to_side sa = opposite (perp_action_to_side pa)
    \<and> - (signed_by (perp_action_to_side pa) z * rate) = z * \<bar>rate\<bar>"
  using assms by (auto simp: fa_evaluate_def Let_def signed_by_def abs_mult split: if_splits)

text \<open>Neither the threshold of the pair nor the transfer cost plays any part in it.\<close>

lemma pair_threshold_unused:
  "fa_evaluate ddiv show_dec rate p q
     (e\<lparr>fe_config := fe_config e\<lparr>fc_per_pair_min_rate_annual_pct := m, fc_transfer_latency_cost_bps := c\<rparr>\<rparr>)
   = fa_evaluate ddiv show_dec rate p q e"
  by (simp add: fa_evaluate_def Let_def)

subsection \<open>A concrete pair\<close>

text \<open>A world of the hedge position and the funding rate; the spot venue accepts or refuses.\<close>

definition demo_leg ::
  "(new_order \<Rightarrow> decimal \<times> decimal \<Rightarrow> (string + order_id) \<times> decimal \<times> decimal) \<Rightarrow> (decimal \<times> decimal) connector" where
  "demo_leg place =
     \<lparr>supports_amend = False, max_batch_size = 1, classify_error = id, place_order = place,
      place_orders_batch = \<lambda>nos w. (Inl '''', w), cancel_order = \<lambda>s i w. (Inl '''', w),
      cancel_orders_batch = \<lambda>s is w. (Inl '''', w), amend_order = \<lambda>a w. (Inl '''', w),
      get_open_orders = \<lambda>s w. (Inl '''', w), new_v4 = \<lambda>w. (0, w), utc_now = \<lambda>w. (0, w)\<rparr>"

definition demo_levels :: "string + price_level list \<times> price_level list \<times> u64" where
  "demo_levels = Inr ([\<lparr>pl_price = 99, pl_qty = 1\<rparr>], [\<lparr>pl_price = 101, pl_qty = 1\<rparr>], 0)"

definition demo_pair_venues :: "bool \<Rightarrow> (decimal \<times> decimal) pair_venues" where
  "demo_pair_venues accepts =
     \<lparr>pv_primary = demo_leg (\<lambda>no w. if accepts then (Inr 2, w) else (Inl ''would cross'', w)),
      pv_hedge = demo_leg (\<lambda>no w. if no_reduce_only no \<and> 0 \<le> signed_by (no_side no) (fst w) then (Inl ''reduce only'', w)
                                  else (Inr 1, (fst w + signed_by (no_side no) (no_qty no), snd w))),
      pv_primary_orderbook = \<lambda>s n w. (demo_levels, w), pv_hedge_orderbook = \<lambda>s n w. (demo_levels, w),
      pv_hedge_funding_rate = \<lambda>s w. (Inr (snd w), w), pv_sleep = \<lambda>d w. w\<rparr>"

definition demo_pair :: instrument_pair where
  "demo_pair = \<lparr>ip_primary_symbol = ''BTC'', ip_hedge_symbol = ''BTCPERP'', ip_multiplier = 10,
     ip_funding_interval_secs = None, ip_basis_threshold_bps = 20\<rparr>"

definition demo_funding_config :: funding_arb_config where
  "demo_funding_config = default_funding_arb_config\<lparr>fc_enabled := True\<rparr>"

lemma demo_fields [simp]:
  "place_order (pv_primary (demo_pair_venues accepts)) no w = (if accepts then (Inr 2, w) else (Inl ''would cross'', w))"
  "place_order (pv_hedge (demo_pair_venues accepts)) no w =
     (if no_reduce_only no \<and> 0 \<le> signed_by (no_side no) (fst w) then (Inl ''reduce only'', w)
      else (Inr 1, (fst w + signed_by (no_side no) (no_qty no), snd w)))"
  "pv_hedge_funding_rate (demo_pair_venues accepts) s w = (Inr (snd w), w)"
  by (simp_all add: demo_pair_venues_def demo_leg_def)

lemma demo_perp_venue: "perp_venue (demo_pair_venues accepts) fst"
  by (simp add: perp_venue_def demo_pair_venues_def demo_leg_def)

lemma demo_sample [simp]: "sample_mids (/) (demo_pair_venues accepts) pair w = (Some (100, 100), w)"
  by (simp add: sample_mids_def demo_pair_venues_def demo_levels_def mid_of_def)

lemma demo_quiet: "quiet_queries (/) (demo_pair_venues accepts) pair fst"
  by (simp add: quiet_queries_def)

definition demo_open_driver :: funding_arb_driver where
  "demo_open_driver = (fa_driver_new demo_pair demo_funding_config)
     \<lparr>fd_engine := fa_on_entry (1 / 10) (- 1) 100 100 (fa_engine_new ''BTC'' demo_funding_config),
      fd_open_sides := Some \<lparr>op_spot = Buy, op_perp = Sell, op_size = 1 / 10\<rparr>\<rparr>"

lemmas demo_arb_defs = demo_pair_def demo_funding_config_def default_funding_arb_config_def
  fa_driver_new_def fa_engine_new_def fa_state_new_def demo_open_driver_def
lemmas arb_tick_defs = fa_tick_once_def fa_evaluate_def drive_enter_def drive_exit_def pair_enter_def pair_exit_def
  pair_dispatch_def taker_order_def maker_leg_order_def fa_on_entry_def fa_on_exit_def fe_upd_def fa_is_open_def signed_by_def Let_def

theorem pair_dispatch_exposure_witness:
  "\<exists>r w'. pair_dispatch (demo_pair_venues False) demo_pair Buy Sell 2 (0, 0) = (r, w') \<and> r = Inl (PairBreak ''would cross'' True) \<and> fst w' = 0"
proof -
  obtain r w' where d: "pair_dispatch (demo_pair_venues False) demo_pair Buy Sell 2 (0, 0) = (r, w')" by (rule prod.exhaust)
  then have "r = Inl (PairBreak ''would cross'' True)"
    by (simp add: demo_pair_def pair_dispatch_def taker_order_def compensation_order_def
        place_with_retry_def signed_by_def Let_def)
  with pair_dispatch_exposure [OF demo_perp_venue d] d show ?thesis by simp
qed

theorem exit_break_never_compensated_witness:
  "\<exists>ev d' w' e. fa_tick_once (/) (\<lambda>_. '''') (demo_pair_venues False) demo_open_driver (- 1, 0) = Some (ev, d', w')
     \<and> ev = EvPairBreak e False \<and> fst w' = 0"
proof -
  let ?pv = "demo_pair_venues False" and ?d = demo_open_driver and ?sides = "\<lparr>op_spot = Buy, op_perp = Sell, op_size = 1 / 10\<rparr>"
  let ?h = "\<lparr>fh_driver = Some ?d, fh_kill_switch = ks_new default_kill_switch_config 0, fh_audit = [], fh_incidents = []\<rparr>"
  have exiting: "fa_evaluate (/) (\<lambda>_. '''') 0 (fst (100, 100)) (snd (100, 100)) (fd_engine ?d) = Some (Exit ''funding rate too low to hold'')"
    by (simp add: fa_evaluate_def demo_arb_defs fa_on_entry_def fe_upd_def fa_is_open_def)
  have rate: "pv_hedge_funding_rate ?pv (ip_hedge_symbol (fd_pair ?d)) (- 1, 0) = (Inr 0, (- 1, 0))"
    by simp
  have sides: "fd_open_sides ?d = Some ?sides" by (simp add: demo_open_driver_def)
  have pos: "fst (- 1 :: decimal, 0 :: decimal) = signed_by (op_perp ?sides) (op_size ?sides * ip_multiplier (fd_pair ?d))"
    by (simp add: demo_arb_defs signed_by_def)
  have refused: "\<exists>e w'. place_order (pv_primary ?pv) no w = (Inl e, w')" for no w by simp
  have taken: "\<exists>i w1. place_order (pv_hedge ?pv)
      (taker_order (fd_pair ?d) (opposite (op_perp ?sides)) (op_size ?sides * ip_multiplier (fd_pair ?d))) (- 1, 0) = (Inr i, w1)"
    by (simp add: taker_order_def)
  obtain ev d' w' where t: "fa_tick_once (/) (\<lambda>_. '''') ?pv ?d (- 1, 0) = Some (ev, d', w')"
    using exiting rate by (cases "drive_exit ?pv ''funding rate too low to hold'' ?d (- 1, 0)") (simp add: fa_tick_once_def)
  from exit_break_never_compensated [of ?pv fst ?h ?d ?sides "(- 1, 0)", OF demo_perp_venue _ sides pos refused t demo_sample rate exiting taken] t
  show ?thesis by auto
qed

theorem round_trip_stops_arbitrage_witness:
  "\<exists>out d1 w1 out' d2 w3. fa_tick_once (/) (\<lambda>_. '''') (demo_pair_venues True) (fa_driver_new demo_pair demo_funding_config) (0, 1 / 5000) = Some (Entered out, d1, w1)
     \<and> fa_tick_once (/) (\<lambda>_. '''') (demo_pair_venues True) (pair_fills out d1) (- 1, 0) = Some (Exited out' ''funding rate too low to hold'', d2, w3)
     \<and> (\<exists>w'. fa_ticks (/) (\<lambda>_. '''') (demo_pair_venues True) 1000 (pair_fills out' d2) (0, 1 / 100) = Some (pair_fills out' d2, w') \<and> fst w' = 0)"
proof -
  let ?pv = "demo_pair_venues True" and ?d = "fa_driver_new demo_pair demo_funding_config"
  let ?out = "\<lparr>pd_taker_order_id = 1, pd_maker_order_id = 2, pd_spot_side = Buy, pd_perp_side = Sell, pd_size = 1 / 10\<rparr>"
  let ?out' = "\<lparr>pd_taker_order_id = 1, pd_maker_order_id = 2, pd_spot_side = Sell, pd_perp_side = Buy, pd_size = 1 / 10\<rparr>"
  let ?d1 = demo_open_driver
  have e: "fa_tick_once (/) (\<lambda>_. '''') ?pv ?d (0, 1 / 5000) = Some (Entered ?out, ?d1, (- 1, 1 / 5000))"
    by (simp add: demo_arb_defs arb_tick_defs)
  have "\<exists>d2 w3. fa_tick_once (/) (\<lambda>_. '''') ?pv (pair_fills ?out ?d1) (- 1, 0) = Some (Exited ?out' ''funding rate too low to hold'', d2, w3)"
    by (simp add: demo_arb_defs arb_tick_defs pair_fills_def on_hedge_fill_def
        on_primary_fill_def apply_spot_fill_def apply_perp_fill_def)
  then obtain d2 w3 where x: "fa_tick_once (/) (\<lambda>_. '''') ?pv (pair_fills ?out ?d1) (- 1, 0) = Some (Exited ?out' ''funding rate too low to hold'', d2, w3)"
    by blast
  from round_trip_stops_arbitrage [OF e x _ demo_quiet, of 1000 "(0, 1 / 100)"]
  have "\<exists>w'. fa_ticks (/) (\<lambda>_. '''') ?pv 1000 (pair_fills ?out' d2) (0, 1 / 100) = Some (pair_fills ?out' d2, w') \<and> fst w' = 0" by simp
  with e x show ?thesis by blast
qed

theorem funding_entry_collects_witness:
  "\<exists>sa pa z. fa_evaluate (/) (\<lambda>_. '''') (1 / 5000) 100 100 (fa_engine_new ''BTC'' demo_funding_config) = Some (Enter sa pa z)
     \<and> - (signed_by (perp_action_to_side pa) z * (1 / 5000)) = z * (1 / 5000)"
proof -
  have "fa_evaluate (/) (\<lambda>_. '''') (1 / 5000) 100 100 (fa_engine_new ''BTC'' demo_funding_config) = Some (Enter SpotBuy PerpShort (1 / 10))"
    by (simp add: fa_evaluate_def demo_arb_defs fa_is_open_def)
  from this funding_entry_collects [OF this] show ?thesis
    by (intro exI [where x = SpotBuy] exI [where x = PerpShort] exI [where x = "1 / 10"]) simp
qed

end
