(* ===== verification/Reconciliation.thy ===== *)
theory Reconciliation
  imports Order_Lifecycle Balance_Cache Circuit_Breaker Inventory
begin

section \<open>Reconciliation with the venue\<close>

text \<open>
  \<^verbatim>\<open>crates/risk/src/reconciliation.rs\<close> and \<^verbatim>\<open>inventory_drift.rs\<close>, and the cycle of
  \<^verbatim>\<open>crates/engine/src/market_maker.rs\<close> that uses them: \<^verbatim>\<open>refresh_balances\<close>, \<^verbatim>\<open>reconcile\<close> and
  \<^verbatim>\<open>check_inventory_drift\<close>. A hash set of ids is a list whose order stands for its iteration order. Of
  the audit trail and the incident feed the kinds and severities are kept, not the texts; the
  dashboard's copies are left out.
\<close>

subsection \<open>The checks of the risk crate\<close>

record reconciliation_result =
  rr_orphaned_orders :: "order_id list"
  rr_phantom_orders :: "order_id list"
  rr_balance_mismatches :: "(string \<times> decimal \<times> decimal) list"
  rr_is_clean :: bool

definition set_difference :: "order_id list \<Rightarrow> order_id list \<Rightarrow> order_id list" where
  "set_difference as bs = filter (\<lambda>i. i \<notin> set bs) (remdups as)"

definition reconcile_orders :: "order_id list \<Rightarrow> live_order list \<Rightarrow> reconciliation_result" where
  "reconcile_orders internal_ids exchange_orders =
     (let exchange_ids = map lo_order_id exchange_orders;
          orphaned = set_difference exchange_ids internal_ids;
          phantom = set_difference internal_ids exchange_ids
      in \<lparr>rr_orphaned_orders = orphaned, rr_phantom_orders = phantom, rr_balance_mismatches = [],
          rr_is_clean = (orphaned = [] \<and> phantom = [])\<rparr>)"

definition mismatch :: "(decimal \<Rightarrow> decimal \<Rightarrow> decimal) \<Rightarrow> decimal \<Rightarrow> decimal \<Rightarrow> decimal \<Rightarrow> bool" where
  "mismatch ddiv tolerance_pct internal_val exchange_val \<longleftrightarrow>
     (if exchange_val = 0 \<and> internal_val = 0 then False
      else let diff = \<bar>internal_val - exchange_val\<bar>;
               base = max internal_val exchange_val;
               pct = (if base = 0 then 100 else ddiv diff base * 100)
           in tolerance_pct < pct)"

definition reconcile_balances ::
  "(decimal \<Rightarrow> decimal \<Rightarrow> decimal) \<Rightarrow> (string, decimal) hash_map \<Rightarrow> balance list \<Rightarrow> decimal \<Rightarrow> (string \<times> decimal \<times> decimal) list" where
  "reconcile_balances ddiv internal exchange tolerance_pct =
     List.map_filter
       (\<lambda>eb. let internal_val = (case hm_get internal (bal_asset eb) of None \<Rightarrow> 0 | Some q \<Rightarrow> q)
             in if mismatch ddiv tolerance_pct internal_val (bal_available eb)
                then Some (bal_asset eb, internal_val, bal_available eb) else None)
       exchange"

record position_delta_report =
  dl_reported_inventory :: decimal
  dl_expected_inventory :: decimal
  dl_delta :: decimal
  dl_drifted :: bool

definition reconcile_position_delta :: "decimal \<Rightarrow> decimal \<Rightarrow> decimal \<Rightarrow> decimal \<Rightarrow> position_delta_report" where
  "reconcile_position_delta total_bought total_sold reported abs_tolerance =
     (let expected = total_bought - total_sold; delta = reported - expected
      in \<lparr>dl_reported_inventory = reported, dl_expected_inventory = expected, dl_delta = delta,
          dl_drifted = (abs_tolerance < \<bar>delta\<bar>)\<rparr>)"

record drift_report =
  dre_asset :: string
  dre_venue :: string
  dre_baseline_wallet :: decimal
  dre_current_wallet :: decimal
  dre_expected_inventory :: decimal
  dre_tracked_inventory :: decimal
  dre_drift :: decimal
  dre_corrected :: bool

record drift_reconciler =
  dri_asset :: string
  dri_baseline_wallet :: "decimal option"
  dri_tolerance :: decimal
  dri_auto_correct :: bool
  dri_venue :: string

text \<open>A negative tolerance is a panic.\<close>

definition drift_new :: "string \<Rightarrow> decimal \<Rightarrow> bool \<Rightarrow> drift_reconciler option" where
  "drift_new asset tolerance auto_correct =
     (if 0 \<le> tolerance
      then Some \<lparr>dri_asset = asset, dri_baseline_wallet = None, dri_tolerance = tolerance, dri_auto_correct = auto_correct, dri_venue = ''''\<rparr>
      else None)"

definition drift_with_venue :: "string \<Rightarrow> drift_reconciler \<Rightarrow> drift_reconciler" where
  "drift_with_venue v r = r\<lparr>dri_venue := v\<rparr>"

definition drift_check :: "decimal \<Rightarrow> decimal \<Rightarrow> drift_reconciler \<Rightarrow> drift_report option \<times> drift_reconciler" where
  "drift_check current_wallet tracked r =
     (case dri_baseline_wallet r of
        None \<Rightarrow> (None, r\<lparr>dri_baseline_wallet := Some current_wallet\<rparr>)
      | Some baseline \<Rightarrow>
          (let expected = current_wallet - baseline; drift = expected - tracked
           in if \<bar>drift\<bar> \<le> dri_tolerance r then (None, r)
              else (Some \<lparr>dre_asset = dri_asset r, dre_venue = dri_venue r, dre_baseline_wallet = baseline,
                          dre_current_wallet = current_wallet, dre_expected_inventory = expected,
                          dre_tracked_inventory = tracked, dre_drift = drift, dre_corrected = dri_auto_correct r\<rparr>, r)))"

definition drift_reset_baseline :: "decimal \<Rightarrow> drift_reconciler \<Rightarrow> drift_reconciler" where
  "drift_reset_baseline b r = r\<lparr>dri_baseline_wallet := Some b\<rparr>"

subsection \<open>The engine's cycle\<close>

record recon_engine =
  re_symbol :: string
  re_base_asset :: string
  re_quote_asset :: string
  re_drift_tolerance :: decimal
  re_counter :: u64
  re_orders :: order_manager
  re_cache :: balance_cache
  re_exposure :: exposure_manager
  re_inventory :: inventory_manager
  re_drift :: drift_reconciler
  re_cancel_gaps :: "int option list"
  re_audit :: "string list"
  re_incidents :: "string list"

definition re_risk_event :: "string \<Rightarrow> recon_engine \<Rightarrow> recon_engine" where
  "re_risk_event kind e = e\<lparr>re_audit := re_audit e @ [kind]\<rparr>"

definition re_incident :: "string \<Rightarrow> recon_engine \<Rightarrow> recon_engine" where
  "re_incident severity e = e\<lparr>re_incidents := re_incidents e @ [severity]\<rparr>"

definition refresh_balances :: "string + balance list \<Rightarrow> recon_engine \<Rightarrow> recon_engine" where
  "refresh_balances answer e =
     (case answer of
        Inl _ \<Rightarrow> e
      | Inr bs \<Rightarrow>
          (let quote_balance = (case List.find (\<lambda>b. bal_asset b = re_quote_asset e) bs of None \<Rightarrow> 0 | Some b \<Rightarrow> bal_available b)
           in e\<lparr>re_exposure := em_new quote_balance, re_cache := update_from_exchange (re_cache e) bs\<rparr>))"

definition push_gap :: "int option \<Rightarrow> int option list \<Rightarrow> int option list" where
  "push_gap g gs = (if 50 < length (gs @ [g]) then tl (gs @ [g]) else gs @ [g])"

text \<open>The two loops of the order reconciliation; \<open>gap\<close> is the time since the last nearby trade.\<close>

definition remove_ghosts ::
  "'v connector \<Rightarrow> int option \<Rightarrow> order_id list \<Rightarrow> int option list \<times> 'v om_state \<Rightarrow> int option list \<times> 'v om_state" where
  "remove_ghosts conn gap ghosts s = fold (\<lambda>i (gs, mv). (push_gap gap gs, remove_order conn i mv)) ghosts s"

definition track_phantoms :: "'v connector \<Rightarrow> order_id list \<Rightarrow> live_order list \<Rightarrow> 'v om_state \<Rightarrow> 'v om_state" where
  "track_phantoms conn phantoms venue_orders mv =
     fold (\<lambda>vo mv. if lo_order_id vo \<in> set phantoms then track_order conn vo mv else mv) venue_orders mv"

definition reconcile_open_orders :: "'v connector \<Rightarrow> int option \<Rightarrow> recon_engine \<Rightarrow> 'v \<Rightarrow> recon_engine \<times> 'v" where
  "reconcile_open_orders conn gap e v =
     (let internal_ids = live_order_ids (re_orders e)
      in case get_open_orders conn (re_symbol e) v of
           (Inl _, v1) \<Rightarrow> (e, v1)
         | (Inr venue_orders, v1) \<Rightarrow>
             (let venue_ids = map lo_order_id venue_orders;
                  ghosts = set_difference internal_ids venue_ids;
                  phantoms = set_difference venue_ids internal_ids;
                  e1 = (if ghosts = [] then e else re_incident ''medium'' e)
              in case remove_ghosts conn gap ghosts (re_cancel_gaps e1, re_orders e1, v1) of
                   (gs, mv) \<Rightarrow>
                     (let mv' = track_phantoms conn phantoms venue_orders mv;
                          e2 = e1\<lparr>re_cancel_gaps := gs, re_orders := fst mv'\<rparr>
                      in (if phantoms = [] then e2 else re_incident ''high'' e2, snd mv'))))"

definition check_inventory_drift :: "recon_engine \<Rightarrow> drift_report option \<times> recon_engine" where
  "check_inventory_drift e =
     (case drift_check (total_in (re_cache e) (re_base_asset e) Spot) (iv_inventory (re_inventory e)) (re_drift e) of
        (None, r) \<Rightarrow> (None, e\<lparr>re_drift := r\<rparr>)
      | (Some rep, r) \<Rightarrow>
          (let e1 = re_incident (if dre_corrected rep then ''medium'' else ''high'')
                      (re_risk_event ''InventoryDriftDetected'' (e\<lparr>re_drift := r\<rparr>))
           in (Some rep,
               if dre_corrected rep
               then e1\<lparr>re_inventory := force_reset_inventory_to (dre_expected_inventory rep) (re_inventory e1)\<rparr>
               else e1)))"

definition check_position_delta :: "recon_engine \<Rightarrow> recon_engine" where
  "check_position_delta e =
     (let m = re_inventory e;
          rep = reconcile_position_delta (iv_total_bought m) (iv_total_sold m) (iv_inventory m) (re_drift_tolerance e * 2)
      in if dl_drifted rep then re_incident ''high'' (re_risk_event ''BalanceReconciled'' e) else e)"

definition reconcile_cycle ::
  "'v connector \<Rightarrow> int option \<Rightarrow> string + balance list \<Rightarrow> recon_engine \<Rightarrow> 'v \<Rightarrow> recon_engine \<times> 'v" where
  "reconcile_cycle conn gap balances e v =
     (let e1 = refresh_balances balances (e\<lparr>re_counter := re_counter e + 1\<rparr>)
      in case reconcile_open_orders conn gap e1 v of
           (e2, v') \<Rightarrow>
             (let e3 = re_risk_event ''BalanceReconciled'' e2;
                  e4 = snd (check_inventory_drift e3)
              in (check_position_delta e4, v')))"

subsection \<open>The order book of the engine\<close>

lemma set_set_difference [simp]: "set (set_difference as bs) = set as - set bs"
  by (auto simp: set_difference_def)

lemma track_order_live: "live (fst (track_order conn ord mv)) = (live (fst mv))(lo_order_id ord \<mapsto> ord)"
  by (auto simp: track_order_def feed_surveillance_def Let_def hm_get_def hm_insert_def update_conv' split: prod.splits option.splits)

lemma remove_order_live: "live (fst (remove_order conn i mv)) = (live (fst mv))(i := None)"
  by (auto simp: remove_order_def feed_surveillance_def Let_def hm_get_def hm_remove_def delete_conv' fun_eq_iff
      split: prod.splits option.splits)

lemma remove_ghosts_live:
  "live (fst (snd (remove_ghosts conn gap ghosts s))) = (\<lambda>i. if i \<in> set ghosts then None else live (fst (snd s)) i)"
  by (induction ghosts arbitrary: s) (auto simp: remove_ghosts_def case_prod_beta remove_order_live)

lemma track_phantoms_live:
  "live (fst (track_phantoms conn ps vos mv)) i =
     (case List.find (\<lambda>vo. lo_order_id vo = i) (rev vos) of
        Some vo \<Rightarrow> if i \<in> set ps then Some vo else live (fst mv) i
      | None \<Rightarrow> live (fst mv) i)"
  by (induction vos arbitrary: mv rule: rev_induct) (auto simp: track_phantoms_def track_order_live split: option.splits)

lemma find_rev_venue:
  "List.find (\<lambda>vo. lo_order_id vo = i) (rev os) = None \<longleftrightarrow> i \<notin> lo_order_id ` set os"
  "List.find (\<lambda>vo. lo_order_id vo = i) (rev os) = Some vo \<Longrightarrow> vo \<in> set os \<and> lo_order_id vo = i"
  by (auto simp: find_None_iff dest: find_SomeD)

lemma re_incident_orders [simp]: "re_orders (re_incident s e) = re_orders e"
  by (simp add: re_incident_def)

lemma reconcile_open_orders_live:
  assumes "get_open_orders conn (re_symbol e) v = (Inr os, v1)" and "reconcile_open_orders conn gap e v = (e', v')"
  shows "live (re_orders e') i =
    (if i \<notin> lo_order_id ` set os then None
     else if live (re_orders e) i \<noteq> None then live (re_orders e) i
     else List.find (\<lambda>vo. lo_order_id vo = i) (rev os))"
proof -
  let ?ids = "live_order_ids (re_orders e)" and ?vids = "map lo_order_id os"
  let ?ghosts = "set_difference ?ids ?vids" and ?phantoms = "set_difference ?vids ?ids"
  let ?e1 = "if ?ghosts = [] then e else re_incident ''medium'' e"
  obtain gs mv where r: "remove_ghosts conn gap ?ghosts (re_cancel_gaps ?e1, re_orders e, v1) = (gs, mv)" by (rule prod.exhaust)
  have e1: "re_orders ?e1 = re_orders e" by simp
  have orders: "re_orders e' = fst (track_phantoms conn ?phantoms os mv)"
    using assms(2) r by (cases "?ghosts = []"; cases "?phantoms = []") (auto simp: reconcile_open_orders_def assms(1) Let_def)
  have "live (fst mv) = (\<lambda>i. if i \<in> set ?ghosts then None else live (re_orders e) i)"
    using remove_ghosts_live [of conn gap ?ghosts "(re_cancel_gaps ?e1, re_orders e, v1)"] unfolding r snd_conv fst_conv .
  then have mv: "live (fst mv) i = (if i \<in> set ?ghosts then None else live (re_orders e) i)" by (rule fun_cong)
  have tracked: "i \<in> set ?ids \<longleftrightarrow> live (re_orders e) i \<noteq> None" by (simp add: live_ids dom_def)
  show ?thesis
  proof (cases "List.find (\<lambda>vo. lo_order_id vo = i) (rev os)")
    case None
    then have "i \<notin> lo_order_id ` set os" using find_rev_venue(1) by blast
    then show ?thesis using None tracked by (simp add: orders track_phantoms_live mv)
  next
    case (Some vo)
    then have "i \<in> lo_order_id ` set os" using find_rev_venue(2) by blast
    then show ?thesis using Some tracked by (simp add: orders track_phantoms_live mv)
  qed
qed

text \<open>
  C28: a reconciled order manager tracks what the venue has. When the venue answers, the engine tracks
  exactly the venue's orders afterwards: an order it tracked already keeps its record, a ghost is
  gone, and an unknown one is adopted as the venue describes it; and an incident is raised exactly
  for ghosts and for unknown orders.
\<close>

theorem reconcile_matches_venue:
  assumes "get_open_orders conn (re_symbol e) v = (Inr os, v1)" and "reconcile_open_orders conn gap e v = (e', v')"
  shows "set (live_order_ids (re_orders e')) = lo_order_id ` set os
    \<and> (\<forall>i \<in> lo_order_id ` set os.
         if i \<in> set (live_order_ids (re_orders e)) then live (re_orders e') i = live (re_orders e) i
         else \<exists>vo \<in> set os. lo_order_id vo = i \<and> live (re_orders e') i = Some vo)
    \<and> re_incidents e' = re_incidents e
        @ (if set (live_order_ids (re_orders e)) \<subseteq> lo_order_id ` set os then [] else [''medium''])
        @ (if lo_order_id ` set os \<subseteq> set (live_order_ids (re_orders e)) then [] else [''high''])"
proof (intro conjI)
  note live' = reconcile_open_orders_live [OF assms]
  show "set (live_order_ids (re_orders e')) = lo_order_id ` set os"
    using find_rev_venue(1) [of _ os] by (auto simp: live_ids dom_def live' split: if_splits)
  show "\<forall>i \<in> lo_order_id ` set os.
         if i \<in> set (live_order_ids (re_orders e)) then live (re_orders e') i = live (re_orders e) i
         else \<exists>vo \<in> set os. lo_order_id vo = i \<and> live (re_orders e') i = Some vo"
  proof
    fix i assume i: "i \<in> lo_order_id ` set os"
    then obtain vo where "List.find (\<lambda>vo. lo_order_id vo = i) (rev os) = Some vo" using find_rev_venue(1) [of i os] by auto
    with find_rev_venue(2) [OF this] i
    show "if i \<in> set (live_order_ids (re_orders e)) then live (re_orders e') i = live (re_orders e) i
        else \<exists>vo \<in> set os. lo_order_id vo = i \<and> live (re_orders e') i = Some vo"
      by (auto simp: live_ids live')
  qed
  have empty: "set_difference as bs = [] \<longleftrightarrow> set as \<subseteq> set bs" for as bs
    using set_set_difference [of as bs] by (metis Diff_eq_empty_iff set_empty)
  show "re_incidents e' = re_incidents e
      @ (if set (live_order_ids (re_orders e)) \<subseteq> lo_order_id ` set os then [] else [''medium''])
      @ (if lo_order_id ` set os \<subseteq> set (live_order_ids (re_orders e)) then [] else [''high''])"
    using assms(2) by (auto simp: reconcile_open_orders_def assms(1) Let_def re_incident_def empty split: prod.splits if_splits)
qed

subsection \<open>The inventory\<close>

definition after_fills :: "inventory_manager \<Rightarrow> fill list \<Rightarrow> inventory_manager" where
  "after_fills m fs = foldl (iv_on_fill (/)) m fs"

lemma after_fills_delta:
  "iv_inventory (after_fills m fs) - (iv_total_bought (after_fills m fs) - iv_total_sold (after_fills m fs))
   = iv_inventory m - (iv_total_bought m - iv_total_sold m)"
  "iv_inventory (after_fills m fs) = iv_inventory m + sum_list (map signed_qty fs)"
proof (induction fs arbitrary: m)
  case (Cons f fs)
  { case 1 show ?case using Cons.IH(1) [of "iv_on_fill (/) m f"] on_fill_fields(1,4) [of "(/)" m f] by (simp add: after_fills_def) }
  { case 2 show ?case using Cons.IH(2) [of "iv_on_fill (/) m f"] on_fill_fields(1) [of "(/)" m f] by (simp add: after_fills_def) }
qed (simp_all add: after_fills_def)

text \<open>
  The position-delta check sees no missed fill. The totals it compares the inventory with are
  kept by the same handler of the same fills, so whatever fills reach the engine, and whichever are
  lost, it never reports a drift; but after one automatic correction of the inventory by more than
  its tolerance it reports one in every later cycle, whatever fills follow.
\<close>

theorem position_delta_check_is_blind:
  assumes "0 \<le> re_drift_tolerance e" and "re_drift_tolerance e * 2 < \<bar>q - sum_list (map signed_qty seen)\<bar>"
  shows "(let e1 = e\<lparr>re_inventory := after_fills iv_new seen\<rparr> in check_position_delta e1 = e1)
    \<and> (let e2 = e\<lparr>re_inventory := after_fills (force_reset_inventory_to q (after_fills iv_new seen)) later\<rparr>
       in re_incidents (check_position_delta e2) = re_incidents e2 @ [''high''])"
  using assms after_fills_delta(1) [of iv_new seen] after_fills_delta(2) [of iv_new seen]
    after_fills_delta(1) [of "force_reset_inventory_to q (after_fills iv_new seen)" later]
  by (auto simp: check_position_delta_def reconcile_position_delta_def Let_def iv_new_def force_reset_inventory_to_def
      re_incident_def re_risk_event_def)

text \<open>
  What the wallet check measures. If the wallet moves by exactly the fills of this symbol, the
  drift found against the baseline is what the missed fills add up to less the inventory the
  tracker had when the baseline was taken; so nothing is missed without being seen, and a tracker
  that did not start flat drifts by its starting inventory although no fill was lost.
\<close>

theorem drift_is_missed_fills:
  assumes "drift_check w0 (iv_inventory m) (r\<lparr>dri_baseline_wallet := None\<rparr>) = (None, r1)"
    and wallet: "w = w0 + sum_list (map signed_qty seen) + sum_list (map signed_qty missed)"
    and "drift_check w (iv_inventory (after_fills m seen)) r1 = (rep, r2)"
  shows "let missing = sum_list (map signed_qty missed) - iv_inventory m
    in (rep = None \<longleftrightarrow> \<bar>missing\<bar> \<le> dri_tolerance r) \<and> (\<forall>d. rep = Some d \<longrightarrow> dre_drift d = missing)"
  using assms after_fills_delta(2) [of m seen]
  by (auto simp: drift_check_def Let_def split: if_splits)

subsection \<open>The drawdown\<close>

text \<open>
  C29: a funded account trips the breaker. Every refresh of the balances replaces the exposure manager
  by one whose peak is the free quote balance, while the equity the sweep compares with that peak is
  the profit of the inventory manager alone. So with a drawdown limit of zero or more and a quote
  balance above the profit by more than it, the next sweep with a mid price, from a breaker that is
  tripped exactly when it has a reason, does not go on to quote although nothing was lost: either the
  soft spread gate ends it, or it leaves the breaker tripped. It goes on in exactly one case: the
  breaker was already tripped for exposure, the exposure is back within its limit and the soft spread
  gate is open, so that the exposure check clears the breaker after the drawdown check left it alone.
\<close>

theorem funded_account_trips_breaker:
  assumes "List.find (\<lambda>b. bal_asset b = re_quote_asset e) bs = Some b"
    and "rc_max_drawdown_quote cfg < bal_available b - total_pnl (re_inventory e) mid" and "0 \<le> rc_max_drawdown_quote cfg"
    and "mv_mid view = Some mid" and "mv_equity view = total_pnl (re_inventory e) mid"
    and "breaker_ok br"
  shows "(snd (snd (refresh_checks cfg view now br (re_exposure (refresh_balances (Inr bs) e))))
      \<longleftrightarrow> cb_reason br = Some MaxExposure \<and> \<bar>mv_inventory view\<bar> * mid \<le> rc_max_exposure_quote cfg \<and> \<not> soft_gated cfg view)
    \<and> (soft_gated cfg view
       \<or> (cb_tripped (fst (refresh_checks cfg view now br (re_exposure (refresh_balances (Inr bs) e))))
          \<longleftrightarrow> \<not> (cb_reason br = Some MaxExposure \<and> \<bar>mv_inventory view\<bar> * mid \<le> rc_max_exposure_quote cfg)))"
proof -
  have "re_exposure (refresh_balances (Inr bs) e) = em_new (bal_available b)"
    using assms(1) by (simp add: refresh_balances_def)
  moreover have "is_drawdown_breached (update_equity (mv_equity view) (em_new (bal_available b))) (mv_equity view) cfg"
    using assms(2,3,5) by (simp add: is_drawdown_breached_def drawdown_def update_equity_def em_new_def)
  moreover define b1 where "b1 = check_spread (mv_spread_bps view) cfg now (check_stale_book (mv_last_update_ms view) cfg now br)"
  moreover have "breaker_ok b1" using assms(6) unfolding b1_def by (intro breaker_ok_ops)
  moreover have "cb_reason b1 = Some MaxExposure \<longleftrightarrow> cb_reason br = Some MaxExposure"
    using assms(6) by (auto simp: b1_def breaker_ops breaker_ok_def split: option.splits)
  ultimately show ?thesis using assms(4)
    by (auto simp: refresh_checks_def Let_def drawdown_then_exposure is_exposure_breached_def not_less)
qed

subsection \<open>Concrete cycles\<close>

definition demo_engine :: recon_engine where
  "demo_engine =
     \<lparr>re_symbol = ''BTCUSDT'', re_base_asset = ''BTC'', re_quote_asset = ''USDT'', re_drift_tolerance = 1 / 100, re_counter = 0,
      re_orders = example_manager False, re_cache = bc_new, re_exposure = em_new 0, re_inventory = iv_new,
      re_drift = \<lparr>dri_asset = ''BTC'', dri_baseline_wallet = None, dri_tolerance = 1 / 100, dri_auto_correct = True, dri_venue = ''''\<rparr>,
      re_cancel_gaps = [], re_audit = [], re_incidents = []\<rparr>"

theorem reconcile_matches_venue_witness:
  "\<exists>e' v'. reconcile_open_orders (mock_conn 20) None demo_engine (mock_new\<lparr>mk_open_orders := [example_order 7 Buy 90 1]\<rparr>) = (e', v')
     \<and> set (live_order_ids (re_orders e')) = {7} \<and> re_incidents e' = [''medium'', ''high'']"
proof -
  let ?v = "mock_new\<lparr>mk_open_orders := [example_order 7 Buy 90 1]\<rparr>"
  obtain e' v' where r: "reconcile_open_orders (mock_conn 20) None demo_engine ?v = (e', v')" by (rule prod.exhaust)
  have o: "get_open_orders (mock_conn 20) (re_symbol demo_engine) ?v = (Inr [example_order 7 Buy 90 1], ?v)"
    by (simp add: mock_conn_def)
  have ids: "set (live_order_ids (re_orders demo_engine)) = {0, 1, 2}"
    by (auto simp: demo_engine_def example_manager_def live_order_ids_def)
  have seven: "lo_order_id ` set [example_order 7 Buy 90 1] = {7}" by (simp add: example_order_def)
  from reconcile_matches_venue [OF o r, unfolded seven ids] r show ?thesis
    by (auto simp: demo_engine_def)
qed

theorem position_delta_check_is_blind_witness:
  "re_incidents (check_position_delta (demo_engine\<lparr>re_inventory :=
      after_fills (force_reset_inventory_to 2 (after_fills iv_new [example_fill Buy 100 3])) [example_fill Sell 110 1]\<rparr>)) = [''high'']"
  using position_delta_check_is_blind [of demo_engine 2 "[example_fill Buy 100 3]" "[example_fill Sell 110 1]"]
  by (simp add: demo_engine_def signed_qty_def example_fill_def Let_def)

theorem drift_is_missed_fills_witness:
  "let (rep, r2) = drift_check 13 (iv_inventory (after_fills (iv_new\<lparr>iv_inventory := 5\<rparr>) [example_fill Buy 100 3]))
      ((re_drift demo_engine)\<lparr>dri_baseline_wallet := Some 10\<rparr>)
   in \<exists>d. rep = Some d \<and> dre_drift d = - 5"
proof -
  let ?m = "iv_new\<lparr>iv_inventory := 5\<rparr>" and ?r = "re_drift demo_engine"
  obtain rep r2 where c: "drift_check 13 (iv_inventory (after_fills ?m [example_fill Buy 100 3])) (?r\<lparr>dri_baseline_wallet := Some 10\<rparr>) = (rep, r2)"
    by (rule prod.exhaust)
  have "drift_check 10 (iv_inventory ?m) (?r\<lparr>dri_baseline_wallet := None\<rparr>) = (None, ?r\<lparr>dri_baseline_wallet := Some 10\<rparr>)"
    by (simp add: drift_check_def)
  from drift_is_missed_fills [OF this _ c, of "[]"] c show ?thesis
    by (auto simp: signed_qty_def example_fill_def demo_engine_def Let_def)
qed

theorem funded_account_trips_breaker_witness:
  "let r = refresh_checks example_risk (example_view 0 0) 6000 cb_new (re_exposure (refresh_balances (Inr
      [\<lparr>bal_asset = ''USDT'', bal_wallet = Spot, bal_total = 10000, bal_locked = 0, bal_available = 10000\<rparr>]) demo_engine))
   in \<not> snd (snd r) \<and> cb_tripped (fst r)"
  using funded_account_trips_breaker [of demo_engine "[\<lparr>bal_asset = ''USDT'', bal_wallet = Spot, bal_total = 10000, bal_locked = 0, bal_available = 10000\<rparr>]" _
      example_risk 100 "example_view 0 0" cb_new 6000]
  by (auto simp: Let_def soft_gated_def demo_engine_def example_risk_def example_view_def total_pnl_def unrealized_pnl_def iv_new_def cb_new_def breaker_ok_def)

end
