(* ===== verification/Protections.thy ===== *)
theory Protections
  imports Mm_Prelude Std_Maps Kill_Switch
begin

section \<open>The protections stack\<close>

text \<open>
  \<^verbatim>\<open>crates/risk/src/protections.rs\<close>: the four guards that pause one pair, and the facade that asks them in
  turn. Instants and durations are nanoseconds; an instant below \<open>INSTANT_MIN\<close> does not exist, which
  is when \<^verbatim>\<open>checked_sub\<close> answers none, and an instant that overflows upwards is not modelled. The texts of
  decimals and durations in a reason are the arguments \<open>sd\<close> and \<open>st\<close>.
\<close>

definition INSTANT_MIN :: int where
  "INSTANT_MIN = - (2 ^ 63) * 1000000000"

definition window_start :: "timestamp \<Rightarrow> int \<Rightarrow> timestamp" where
  "window_start now window = (if now - window < INSTANT_MIN then now else now - window)"

datatype protection_status = Clear | Locked string "timestamp option"

definition is_locked_status :: "protection_status \<Rightarrow> bool" where
  "is_locked_status s = (case s of Clear \<Rightarrow> False | Locked _ _ \<Rightarrow> True)"

text \<open>A lock that runs to an instant, as every guard reports it.\<close>

definition lock_status :: "string \<Rightarrow> timestamp option \<Rightarrow> timestamp \<Rightarrow> protection_status option" where
  "lock_status reason until now =
     (case until of None \<Rightarrow> None | Some u \<Rightarrow> if now < u then Some (Locked reason (Some u)) else None)"

subsection \<open>The guards\<close>

record stoploss_guard_config =
  sc_window :: int
  sc_max_stops :: nat
  sc_lockout :: int

record stoploss_guard =
  sg_config :: stoploss_guard_config
  sg_stops :: "(string, timestamp list) hash_map"
  sg_locked_until :: "(string, timestamp) hash_map"

definition sg_new :: "stoploss_guard_config \<Rightarrow> stoploss_guard" where
  "sg_new c = \<lparr>sg_config = c, sg_stops = [], sg_locked_until = []\<rparr>"

definition sg_record_stop :: "string \<Rightarrow> timestamp \<Rightarrow> stoploss_guard \<Rightarrow> stoploss_guard" where
  "sg_record_stop pair now g =
     (let entry = (case hm_get (sg_stops g) pair of None \<Rightarrow> [] | Some ts \<Rightarrow> ts);
          entry' = filter (\<lambda>t. window_start now (sc_window (sg_config g)) \<le> t) entry @ [now];
          g1 = g\<lparr>sg_stops := hm_insert pair entry' (sg_stops g)\<rparr>
      in if sc_max_stops (sg_config g) \<le> length entry'
         then g1\<lparr>sg_locked_until := hm_insert pair (now + sc_lockout (sg_config g)) (sg_locked_until g)\<rparr>
         else g1)"

definition sg_status :: "(int \<Rightarrow> string) \<Rightarrow> string \<Rightarrow> timestamp \<Rightarrow> stoploss_guard \<Rightarrow> protection_status option" where
  "sg_status st pair now g =
     lock_status (''StoplossGuard: '' @ st (int (sc_max_stops (sg_config g))) @ '' stops within '' @ st (sc_window (sg_config g)))
       (hm_get (sg_locked_until g) pair) now"

record cooldown_period =
  cp_duration :: int
  cp_cooldowns :: "(string, timestamp) hash_map"

definition cp_new :: "int \<Rightarrow> cooldown_period" where
  "cp_new d = \<lparr>cp_duration = d, cp_cooldowns = []\<rparr>"

definition cp_trigger :: "string \<Rightarrow> timestamp \<Rightarrow> cooldown_period \<Rightarrow> cooldown_period" where
  "cp_trigger pair now c = c\<lparr>cp_cooldowns := hm_insert pair (now + cp_duration c) (cp_cooldowns c)\<rparr>"

definition cp_status :: "(int \<Rightarrow> string) \<Rightarrow> string \<Rightarrow> timestamp \<Rightarrow> cooldown_period \<Rightarrow> protection_status option" where
  "cp_status st pair now c =
     lock_status (''CooldownPeriod: active for '' @ st (cp_duration c)) (hm_get (cp_cooldowns c) pair) now"

record max_drawdown_config =
  mc_max_drawdown_quote :: decimal
  mc_lockout :: int
  mc_recovery_fraction :: decimal

record drawdown_state =
  dd_peak :: decimal
  dd_last_equity :: decimal
  dd_locked_until :: "timestamp option"

record max_drawdown_pause =
  md_config :: max_drawdown_config
  md_per_pair :: "(string, drawdown_state) hash_map"

definition md_new :: "max_drawdown_config \<Rightarrow> max_drawdown_pause" where
  "md_new c = \<lparr>md_config = c, md_per_pair = []\<rparr>"

text \<open>One update of the state of a pair.\<close>

definition dd_update :: "max_drawdown_config \<Rightarrow> decimal \<Rightarrow> timestamp \<Rightarrow> drawdown_state \<Rightarrow> drawdown_state" where
  "dd_update c equity now s =
     (let s1 = s\<lparr>dd_last_equity := equity\<rparr>;
          s2 = (if dd_peak s1 < equity then s1\<lparr>dd_peak := equity\<rparr> else s1);
          drawdown = dd_peak s2 - equity;
          s3 = (if mc_max_drawdown_quote c \<le> drawdown \<and> dd_locked_until s2 = None
                then s2\<lparr>dd_locked_until := Some (now + mc_lockout c)\<rparr> else s2)
      in case dd_locked_until s3 of
           None \<Rightarrow> s3
         | Some until \<Rightarrow>
             if now < until \<and> dd_peak s3 * mc_recovery_fraction c \<le> equity
             then s3\<lparr>dd_locked_until := None\<rparr> else s3)"

definition md_update :: "string \<Rightarrow> decimal \<Rightarrow> timestamp \<Rightarrow> max_drawdown_pause \<Rightarrow> max_drawdown_pause" where
  "md_update pair equity now m =
     (let s = (case hm_get (md_per_pair m) pair of
                 None \<Rightarrow> \<lparr>dd_peak = equity, dd_last_equity = equity, dd_locked_until = None\<rparr>
               | Some s \<Rightarrow> s)
      in m\<lparr>md_per_pair := hm_insert pair (dd_update (md_config m) equity now s) (md_per_pair m)\<rparr>)"

definition md_status :: "(decimal \<Rightarrow> string) \<Rightarrow> string \<Rightarrow> timestamp \<Rightarrow> max_drawdown_pause \<Rightarrow> protection_status option" where
  "md_status sd pair now m =
     (case hm_get (md_per_pair m) pair of
        None \<Rightarrow> None
      | Some s \<Rightarrow>
          lock_status (''MaxDrawdownPause: dd >= '' @ sd (mc_max_drawdown_quote (md_config m)) @ '' (peak '' @ sd (dd_peak s)
            @ '', equity '' @ sd (dd_last_equity s) @ '')'') (dd_locked_until s) now)"

record low_profit_pairs_config =
  lc_window :: int
  lc_min_pnl_quote :: decimal
  lc_lockout :: int
  lc_min_trades :: nat

record low_profit_pairs =
  lp_config :: low_profit_pairs_config
  lp_trades :: "(string, (timestamp \<times> decimal) list) hash_map"
  lp_locked_until :: "(string, timestamp) hash_map"

definition lp_new :: "low_profit_pairs_config \<Rightarrow> low_profit_pairs" where
  "lp_new c = \<lparr>lp_config = c, lp_trades = [], lp_locked_until = []\<rparr>"

definition lp_record_trade :: "string \<Rightarrow> decimal \<Rightarrow> timestamp \<Rightarrow> low_profit_pairs \<Rightarrow> low_profit_pairs" where
  "lp_record_trade pair pnl now l =
     (let entry = (case hm_get (lp_trades l) pair of None \<Rightarrow> [] | Some ts \<Rightarrow> ts);
          entry' = filter (\<lambda>(t, _). window_start now (lc_window (lp_config l)) \<le> t) entry @ [(now, pnl)];
          l1 = l\<lparr>lp_trades := hm_insert pair entry' (lp_trades l)\<rparr>
      in if lc_min_trades (lp_config l) \<le> length entry' \<and> sum_list (map snd entry') < lc_min_pnl_quote (lp_config l)
         then l1\<lparr>lp_locked_until := hm_insert pair (now + lc_lockout (lp_config l)) (lp_locked_until l)\<rparr>
         else l1)"

definition lp_status ::
  "(decimal \<Rightarrow> string) \<Rightarrow> (int \<Rightarrow> string) \<Rightarrow> string \<Rightarrow> timestamp \<Rightarrow> low_profit_pairs \<Rightarrow> protection_status option" where
  "lp_status sd st pair now l =
     lock_status (''LowProfitPairs: rolling PnL < '' @ sd (lc_min_pnl_quote (lp_config l)) @ '' over '' @ st (lc_window (lp_config l)))
       (hm_get (lp_locked_until l) pair) now"

subsection \<open>The facade\<close>

record protections_config =
  pc_stoploss_guard :: "stoploss_guard_config option"
  pc_cooldown :: "int option"
  pc_max_drawdown :: "max_drawdown_config option"
  pc_low_profit_pairs :: "low_profit_pairs_config option"

record protections =
  pt_stoploss_guard :: "stoploss_guard option"
  pt_cooldown :: "cooldown_period option"
  pt_max_drawdown :: "max_drawdown_pause option"
  pt_low_profit_pairs :: "low_profit_pairs option"

definition pt_new :: "protections_config \<Rightarrow> protections" where
  "pt_new c =
     \<lparr>pt_stoploss_guard = map_option sg_new (pc_stoploss_guard c), pt_cooldown = map_option cp_new (pc_cooldown c),
      pt_max_drawdown = map_option md_new (pc_max_drawdown c), pt_low_profit_pairs = map_option lp_new (pc_low_profit_pairs c)\<rparr>"

definition pt_record_stop :: "string \<Rightarrow> timestamp \<Rightarrow> protections \<Rightarrow> protections" where
  "pt_record_stop pair now p =
     p\<lparr>pt_stoploss_guard := map_option (sg_record_stop pair now) (pt_stoploss_guard p),
       pt_cooldown := map_option (cp_trigger pair now) (pt_cooldown p)\<rparr>"

definition pt_update_equity :: "string \<Rightarrow> decimal \<Rightarrow> timestamp \<Rightarrow> protections \<Rightarrow> protections" where
  "pt_update_equity pair equity now p = p\<lparr>pt_max_drawdown := map_option (md_update pair equity now) (pt_max_drawdown p)\<rparr>"

definition pt_record_trade_pnl :: "string \<Rightarrow> decimal \<Rightarrow> timestamp \<Rightarrow> protections \<Rightarrow> protections" where
  "pt_record_trade_pnl pair pnl now p =
     p\<lparr>pt_low_profit_pairs := map_option (lp_record_trade pair pnl now) (pt_low_profit_pairs p)\<rparr>"

definition first_hit :: "protection_status option list \<Rightarrow> protection_status" where
  "first_hit ss = (case List.map_filter (\<lambda>s. s) ss of [] \<Rightarrow> Clear | s # _ \<Rightarrow> s)"

definition pt_is_locked ::
  "(decimal \<Rightarrow> string) \<Rightarrow> (int \<Rightarrow> string) \<Rightarrow> string \<Rightarrow> timestamp \<Rightarrow> protections \<Rightarrow> protection_status" where
  "pt_is_locked sd st pair now p =
     first_hit
       [Option.bind (pt_stoploss_guard p) (sg_status st pair now),
        Option.bind (pt_cooldown p) (cp_status st pair now),
        Option.bind (pt_max_drawdown p) (md_status sd pair now),
        Option.bind (pt_low_profit_pairs p) (lp_status sd st pair now)]"

subsection \<open>Stops\<close>

lemma lock_status_iff: "lock_status r u now \<noteq> None \<longleftrightarrow> (\<exists>t. u = Some t \<and> now < t)"
  by (auto simp: lock_status_def split: option.splits)

text \<open>Stops of all pairs in the order they came, and those of one pair.\<close>

definition sg_run :: "(string \<times> timestamp) list \<Rightarrow> stoploss_guard \<Rightarrow> stoploss_guard" where
  "sg_run evs g = fold (\<lambda>(pair, t). sg_record_stop pair t) evs g"

definition stops_of :: "string \<Rightarrow> (string \<times> timestamp) list \<Rightarrow> timestamp list" where
  "stops_of pair evs = map snd (filter (\<lambda>e. fst e = pair) evs)"

text \<open>The guard's rule on a history: enough stops in the window that ends at the last one.\<close>

definition enough_stops :: "stoploss_guard_config \<Rightarrow> timestamp list \<Rightarrow> bool" where
  "enough_stops c ts \<longleftrightarrow> ts \<noteq> [] \<and> sc_max_stops c \<le> length (filter (\<lambda>t. last ts - sc_window c \<le> t) ts)"

lemma record_stop_fields [simp]:
  "sg_config (sg_record_stop pair t g) = sg_config g"
  "hm_get (sg_stops (sg_record_stop pair t g)) p =
     (if p = pair then Some (filter (\<lambda>t'. window_start t (sc_window (sg_config g)) \<le> t') (case hm_get (sg_stops g) pair of None \<Rightarrow> [] | Some ts \<Rightarrow> ts) @ [t])
      else hm_get (sg_stops g) p)"
  by (simp_all add: sg_record_stop_def Let_def hm_get_def hm_insert_def update_conv')

lemma record_stop_locked:
  "hm_get (sg_locked_until (sg_record_stop pair t g)) p =
     (if p = pair \<and> sc_max_stops (sg_config g) \<le> length (the (hm_get (sg_stops (sg_record_stop pair t g)) pair))
      then Some (t + sc_lockout (sg_config g)) else hm_get (sg_locked_until g) p)"
  by (simp add: sg_record_stop_def Let_def hm_get_def hm_insert_def update_conv')

text \<open>What the guard knows of a pair after its stops \<open>ts\<close>.\<close>

definition sg_knows :: "stoploss_guard \<Rightarrow> string \<Rightarrow> timestamp list \<Rightarrow> bool" where
  "sg_knows g pair ts \<longleftrightarrow>
     hm_get (sg_stops g) pair = (if ts = [] then None else Some (filter (\<lambda>t. last ts - sc_window (sg_config g) \<le> t) ts)) \<and>
     (\<forall>now. (\<exists>u. hm_get (sg_locked_until g) pair = Some u \<and> now < u) \<longleftrightarrow>
        (\<exists>k < length ts. enough_stops (sg_config g) (take (Suc k) ts) \<and> now < ts ! k + sc_lockout (sg_config g)))"

lemma ex_less_append: "(\<exists>k < length (xs @ [x]). P k) \<longleftrightarrow> (\<exists>k < length xs. P k) \<or> P (length xs)"
  by (auto simp: less_Suc_eq)

lemma sg_knows_step:
  assumes knows: "sg_knows g pair ts" and later: "\<forall>t' \<in> set ts. t' \<le> t"
    and range: "0 \<le> sc_window (sg_config g)" "INSTANT_MIN \<le> t - sc_window (sg_config g)"
  shows "sg_knows (sg_record_stop pair t g) pair (ts @ [t])"
proof -
  let ?c = "sg_config g"
  have start: "window_start t (sc_window ?c) = t - sc_window ?c" using range(2) by (simp add: window_start_def)
  have "filter (\<lambda>t'. t - sc_window ?c \<le> t') (case hm_get (sg_stops g) pair of None \<Rightarrow> [] | Some ts \<Rightarrow> ts)
      = filter (\<lambda>t'. t - sc_window ?c \<le> t') ts"
  proof (cases "ts = []")
    case False
    then have "last ts \<le> t" using later by simp
    moreover have "hm_get (sg_stops g) pair = Some (filter (\<lambda>t. last ts - sc_window ?c \<le> t) ts)"
      using knows False by (simp add: sg_knows_def)
    ultimately show ?thesis by (auto intro!: filter_cong)
  next
    case True
    then have "hm_get (sg_stops g) pair = None" using knows by (simp add: sg_knows_def)
    then show ?thesis using True by simp
  qed
  then have stops: "hm_get (sg_stops (sg_record_stop pair t g)) pair = Some (filter (\<lambda>t'. t - sc_window ?c \<le> t') (ts @ [t]))"
    using range(1) by (simp add: start)
  have old: "(\<exists>u. hm_get (sg_locked_until g) pair = Some u \<and> now < u) \<longleftrightarrow>
      (\<exists>k < length ts. enough_stops ?c (take (Suc k) ts) \<and> now < ts ! k + sc_lockout ?c)" for now
    using knows by (simp add: sg_knows_def)
  have same: "(\<exists>k < length ts. enough_stops ?c (take (Suc k) (ts @ [t])) \<and> now < (ts @ [t]) ! k + sc_lockout ?c)
      \<longleftrightarrow> (\<exists>k < length ts. enough_stops ?c (take (Suc k) ts) \<and> now < ts ! k + sc_lockout ?c)" for now
    by (auto simp: nth_append)
  have "(\<exists>u. hm_get (sg_locked_until (sg_record_stop pair t g)) pair = Some u \<and> now < u) \<longleftrightarrow>
      (\<exists>k < length (ts @ [t]). enough_stops ?c (take (Suc k) (ts @ [t])) \<and> now < (ts @ [t]) ! k + sc_lockout ?c)" for now
  proof (cases "enough_stops ?c (ts @ [t])")
    case True
    then have "hm_get (sg_locked_until (sg_record_stop pair t g)) pair = Some (t + sc_lockout ?c)"
      unfolding record_stop_locked stops by (simp add: enough_stops_def)
    moreover have "now < ts ! k + sc_lockout ?c \<Longrightarrow> now < t + sc_lockout ?c" if "k < length ts" for k
      using later nth_mem [OF that] by fastforce
    ultimately show ?thesis unfolding ex_less_append same using True by auto
  next
    case False
    then have "hm_get (sg_locked_until (sg_record_stop pair t g)) pair = hm_get (sg_locked_until g) pair"
      unfolding record_stop_locked stops by (simp add: enough_stops_def)
    then show ?thesis unfolding ex_less_append same old [symmetric] using False by simp
  qed
  then show ?thesis unfolding sg_knows_def using stops by simp
qed

lemma sg_knows_other: "sg_knows g p ts \<Longrightarrow> p \<noteq> pair \<Longrightarrow> sg_knows (sg_record_stop pair t g) p ts"
  by (simp add: sg_knows_def record_stop_locked)

lemma sg_run_knows:
  assumes "sorted (map snd evs)" and "0 \<le> sc_window c" and "\<forall>(p, t) \<in> set evs. INSTANT_MIN \<le> t - sc_window c"
  shows "sg_config (sg_run evs (sg_new c)) = c \<and> sg_knows (sg_run evs (sg_new c)) pair (stops_of pair evs)"
  using assms(1,3)
proof (induction evs rule: rev_induct)
  case Nil
  then show ?case by (simp add: sg_run_def stops_of_def sg_new_def sg_knows_def)
next
  case (snoc e evs)
  obtain p t where e: "e = (p, t)" by (cases e)
  let ?g = "sg_run evs (sg_new c)"
  have srt: "sorted (map snd evs)" and le: "\<forall>t' \<in> set (map snd evs). t' \<le> t" using snoc.prems(1) e by (simp_all add: sorted_append)
  have IH: "sg_config ?g = c" "sg_knows ?g pair (stops_of pair evs)" using snoc.IH [OF srt] snoc.prems(2) by auto
  have run: "sg_run (evs @ [e]) (sg_new c) = sg_record_stop p t ?g" by (simp add: sg_run_def e)
  show ?case
  proof (cases "p = pair")
    case True
    have "sg_knows (sg_record_stop pair t ?g) pair (stops_of pair evs @ [t])"
      using le snoc.prems(2) e assms(2) IH(1) by (intro sg_knows_step [OF IH(2)]) (auto simp: stops_of_def)
    then show ?thesis unfolding run using IH(1) True by (simp add: stops_of_def e)
  next
    case False
    then show ?thesis unfolding run using sg_knows_other [OF IH(2)] IH(1) by (simp add: stops_of_def e)
  qed
qed

text \<open>
  C27: when the stop-loss guard locks. After any stops of any pairs, in the order of time, a pair is
  locked at an instant exactly when one of its own stops lies less than the lockout back and was, with
  those of the window that it ends, at least \<^verbatim>\<open>max_stops\<close>: what the guard forgets never matters, and
  the stops of other pairs play no part.
\<close>

theorem stoploss_guard_locks_iff:
  assumes "sorted (map snd evs)" and "0 \<le> sc_window c" and "\<forall>(p, t) \<in> set evs. INSTANT_MIN \<le> t - sc_window c"
  shows "sg_status st pair now (sg_run evs (sg_new c)) \<noteq> None \<longleftrightarrow>
    (\<exists>k < length (stops_of pair evs). enough_stops c (take (Suc k) (stops_of pair evs))
       \<and> now < stops_of pair evs ! k + sc_lockout c)"
  using sg_run_knows [OF assms, of pair] by (simp add: sg_status_def lock_status_iff sg_knows_def del: not_None_eq)

theorem stoploss_guard_locks_iff_witness:
  "sg_status (\<lambda>_. '''') ''BTC'' 45 (sg_run [(''BTC'', 0), (''ETH'', 1), (''BTC'', 5), (''BTC'', 10)]
      (sg_new \<lparr>sc_window = 60, sc_max_stops = 3, sc_lockout = 300\<rparr>)) \<noteq> None"
proof -
  let ?evs = "[(''BTC'', 0), (''ETH'', 1), (''BTC'', 5), (''BTC'', 10 :: int)]" and ?c = "\<lparr>sc_window = 60, sc_max_stops = 3, sc_lockout = 300\<rparr>"
  have stops: "stops_of ''BTC'' ?evs = [0, 5, 10]" by (simp add: stops_of_def)
  have "enough_stops ?c (take (Suc 2) [0, 5, 10])" by (simp add: enough_stops_def)
  then have "\<exists>k < length (stops_of ''BTC'' ?evs). enough_stops ?c (take (Suc k) (stops_of ''BTC'' ?evs)) \<and> 45 < stops_of ''BTC'' ?evs ! k + sc_lockout ?c"
    unfolding stops by (intro exI [where x = 2]) simp
  moreover have "sorted (map snd ?evs)" "0 \<le> sc_window ?c" "\<forall>(p, t) \<in> set ?evs. INSTANT_MIN \<le> t - sc_window ?c"
    by (simp_all add: INSTANT_MIN_def)
  ultimately show ?thesis using stoploss_guard_locks_iff [of ?evs ?c "\<lambda>_. ''''" "''BTC''" 45] by simp
qed

subsection \<open>Drawdown\<close>

definition md_run :: "string \<Rightarrow> (decimal \<times> timestamp) list \<Rightarrow> max_drawdown_pause \<Rightarrow> max_drawdown_pause" where
  "md_run pair us m = fold (\<lambda>(equity, t). md_update pair equity t) us m"

lemma dd_update_spent:
  "dd_locked_until s = Some u \<Longrightarrow> u \<le> now \<Longrightarrow> dd_locked_until (dd_update c equity now s) = Some u"
  by (simp add: dd_update_def Let_def)

lemma md_update_get:
  "hm_get (md_per_pair (md_update pair equity now m)) pair =
     Some (dd_update (md_config m) equity now (case hm_get (md_per_pair m) pair of
       None \<Rightarrow> \<lparr>dd_peak = equity, dd_last_equity = equity, dd_locked_until = None\<rparr> | Some s \<Rightarrow> s))"
  by (simp add: md_update_def Let_def hm_get_def hm_insert_def update_conv')

text \<open>
  The drawdown pause fires once. A lock that ran out without a recovery is not taken away, and a
  pair that has one is not locked again: whatever the equity does afterwards, however far below the
  peak, the guard reports the pair clear for ever.
\<close>

theorem drawdown_pause_spent:
  assumes "hm_get (md_per_pair m) pair = Some s" and "dd_locked_until s = Some u"
    and "\<forall>(equity, t) \<in> set us. u \<le> t" and "u \<le> now"
  shows "md_status sd pair now (md_run pair us m) = None"
proof -
  have "\<exists>s'. hm_get (md_per_pair (md_run pair us m)) pair = Some s' \<and> dd_locked_until s' = Some u"
    using assms(1-3)
  proof (induction us arbitrary: m s)
    case Nil
    then show ?case by (simp add: md_run_def)
  next
    case (Cons x us)
    obtain equity t where x: "x = (equity, t)" by (cases x)
    have "hm_get (md_per_pair (md_update pair equity t m)) pair = Some (dd_update (md_config m) equity t s)"
      using Cons.prems(1) by (simp add: md_update_get)
    moreover have "dd_locked_until (dd_update (md_config m) equity t s) = Some u"
      using Cons.prems(2,3) x by (intro dd_update_spent) auto
    ultimately show ?case using Cons.IH Cons.prems(3) by (simp add: md_run_def x)
  qed
  then show ?thesis using assms(4) by (auto simp: md_status_def lock_status_def)
qed

text \<open>A first drawdown does lock.\<close>

definition spent_drawdown :: max_drawdown_pause where
  "spent_drawdown = md_run ''BTC'' [(1000, 0), (800, 1)] (md_new \<lparr>mc_max_drawdown_quote = 100, mc_lockout = 600, mc_recovery_fraction = 1\<rparr>)"

lemma spent_drawdown_state: "hm_get (md_per_pair spent_drawdown) ''BTC'' = Some \<lparr>dd_peak = 1000, dd_last_equity = 800, dd_locked_until = Some 601\<rparr>"
  by (simp add: spent_drawdown_def md_run_def md_update_def dd_update_def md_new_def Let_def hm_get_def hm_insert_def)

theorem drawdown_pause_spent_witness:
  "md_status (\<lambda>_. '''') ''BTC'' 5 spent_drawdown \<noteq> None \<and> md_status (\<lambda>_. '''') ''BTC'' 800 (md_run ''BTC'' [(0, 700), (- 5000, 750)] spent_drawdown) = None"
proof
  show "md_status (\<lambda>_. '''') ''BTC'' 5 spent_drawdown \<noteq> None"
    by (simp add: md_status_def spent_drawdown_state lock_status_def)
  show "md_status (\<lambda>_. '''') ''BTC'' 800 (md_run ''BTC'' [(0, 700), (- 5000, 750)] spent_drawdown) = None"
    by (rule drawdown_pause_spent [OF spent_drawdown_state]) auto
qed

text \<open>With a recovery fraction below one a lock can be cleared by the very update that set it.\<close>

lemma recovery_clears_at_once:
  "md_status sd ''BTC'' 1 (md_run ''BTC'' [(1000, 0), (890, 1)] (md_new \<lparr>mc_max_drawdown_quote = 100, mc_lockout = 600, mc_recovery_fraction = 1 / 2\<rparr>)) = None"
  by (simp add: md_run_def md_update_def dd_update_def md_new_def Let_def hm_get_def hm_insert_def md_status_def lock_status_def)

subsection \<open>The facade\<close>

text \<open>The pair is locked exactly when some guard locks it.\<close>

lemma lock_status_Locked: "lock_status r u now = Some s \<Longrightarrow> is_locked_status s"
  by (auto simp: lock_status_def is_locked_status_def split: option.splits if_splits)

lemma pt_is_locked_iff:
  "is_locked_status (pt_is_locked sd st pair now p) \<longleftrightarrow>
     (\<exists>g. pt_stoploss_guard p = Some g \<and> sg_status st pair now g \<noteq> None) \<or>
     (\<exists>c. pt_cooldown p = Some c \<and> cp_status st pair now c \<noteq> None) \<or>
     (\<exists>m. pt_max_drawdown p = Some m \<and> md_status sd pair now m \<noteq> None) \<or>
     (\<exists>l. pt_low_profit_pairs p = Some l \<and> lp_status sd st pair now l \<noteq> None)"
proof -
  have hit: "is_locked_status (first_hit ss) \<longleftrightarrow> (\<exists>s \<in> set ss. s \<noteq> None)" if "\<forall>s. Some s \<in> set ss \<longrightarrow> is_locked_status s" for ss
    using that by (induction ss) (auto simp: first_hit_def List.map_filter_simps is_locked_status_def split: option.splits)
  have "\<forall>s. Some s \<in> set [Option.bind (pt_stoploss_guard p) (sg_status st pair now), Option.bind (pt_cooldown p) (cp_status st pair now),
        Option.bind (pt_max_drawdown p) (md_status sd pair now), Option.bind (pt_low_profit_pairs p) (lp_status sd st pair now)]
      \<longrightarrow> is_locked_status s"
    by (auto simp: sg_status_def cp_status_def md_status_def lp_status_def lock_status_Locked bind_eq_Some_conv
        dest!: sym [of "Some _"] split: option.splits)
  from hit [OF this] show ?thesis unfolding pt_is_locked_def
    by (auto simp: bind_eq_Some_conv simp del: not_None_eq split: Option.bind_splits)
qed

text \<open>The answer is the first hit, not the one that lasts longest.\<close>

lemma first_hit_is_not_longest:
  "pt_is_locked sd st ''BTC'' 2 (pt_record_stop ''BTC'' 1 (pt_new
      \<lparr>pc_stoploss_guard = Some \<lparr>sc_window = 60, sc_max_stops = 1, sc_lockout = 10\<rparr>, pc_cooldown = Some 100,
       pc_max_drawdown = None, pc_low_profit_pairs = None\<rparr>))
   = Locked (''StoplossGuard: '' @ st 1 @ '' stops within '' @ st 60) (Some 11)"
  by (simp add: pt_is_locked_def first_hit_def pt_record_stop_def pt_new_def sg_new_def cp_new_def sg_status_def lock_status_def
      sg_record_stop_def cp_trigger_def cp_status_def Let_def hm_get_def hm_insert_def List.map_filter_simps)

end
