(* ===== verification/Quote_Gates.thy ===== *)
theory Quote_Gates
  imports Protections Order_Lifecycle Balance_Cache Circuit_Breaker Margin_Guard Order_Emulator Dca_Planner
begin

section \<open>The gates of a quote refresh\<close>

text \<open>
  What \<^verbatim>\<open>refresh_quotes\<close> of \<^verbatim>\<open>crates/engine/src/market_maker.rs\<close> does before it asks the strategy for
  quotes, in its order: the protections, the emulated orders and reduction slices, the loss circuit
  of the client, the lifecycle pause, the stale-book watchdog, the kill switch, the margin
  projection and the breaker sweep; and the filters the quotes pass at its end. With it
  \<^verbatim>\<open>crates/risk/src/per_client_circuit.rs\<close> and \<^verbatim>\<open>volume_limit.rs\<close>. The two calls for atomic bundles, the
  snapshot of the order-to-trade ratio, the incidents of the breaker and the texts of the audit
  trail are left out.
\<close>

subsection \<open>The loss circuit of a client\<close>

record client_loss =
  cl_limit :: "decimal option"
  cl_per_symbol :: "(string, decimal) hash_map"
  cl_tripped :: bool

definition client_loss_default :: client_loss where
  "client_loss_default = \<lparr>cl_limit = None, cl_per_symbol = [], cl_tripped = False\<rparr>"

definition cl_aggregate :: "client_loss \<Rightarrow> decimal" where
  "cl_aggregate c = sum_list (map snd (cl_per_symbol c))"

type_synonym per_client_circuit = "(string, client_loss) hash_map"

definition client_entry :: "string \<Rightarrow> per_client_circuit \<Rightarrow> client_loss" where
  "client_entry client m = (case hm_get m client of None \<Rightarrow> client_loss_default | Some c \<Rightarrow> c)"

definition pc_register :: "string \<Rightarrow> decimal option \<Rightarrow> per_client_circuit \<Rightarrow> per_client_circuit" where
  "pc_register client limit m = hm_insert client ((client_entry client m)\<lparr>cl_limit := limit\<rparr>) m"

definition report_symbol_pnl :: "string \<Rightarrow> string \<Rightarrow> decimal \<Rightarrow> per_client_circuit \<Rightarrow> per_client_circuit" where
  "report_symbol_pnl client symbol pnl m =
     (let c = client_entry client m;
          c1 = c\<lparr>cl_per_symbol := hm_insert symbol pnl (cl_per_symbol c)\<rparr>;
          agg = cl_aggregate c1
      in hm_insert client
           (case cl_limit c1 of
              None \<Rightarrow> c1
            | Some limit \<Rightarrow> if agg \<le> - limit then c1\<lparr>cl_tripped := True\<rparr> else c1) m)"

definition pc_is_tripped :: "string \<Rightarrow> per_client_circuit \<Rightarrow> bool" where
  "pc_is_tripped client m = (case hm_get m client of None \<Rightarrow> False | Some c \<Rightarrow> cl_tripped c)"

record client_loss_state =
  cs_daily_pnl :: decimal
  cs_limit :: "decimal option"
  cs_tripped :: bool

definition pc_snapshot :: "string \<Rightarrow> per_client_circuit \<Rightarrow> client_loss_state option" where
  "pc_snapshot client m =
     map_option (\<lambda>c. \<lparr>cs_daily_pnl = cl_aggregate c, cs_limit = cl_limit c, cs_tripped = cl_tripped c\<rparr>) (hm_get m client)"

definition pc_snapshot_all :: "per_client_circuit \<Rightarrow> (string, client_loss_state) hash_map" where
  "pc_snapshot_all m =
     map (\<lambda>(k, c). (k, \<lparr>cs_daily_pnl = cl_aggregate c, cs_limit = cl_limit c, cs_tripped = cl_tripped c\<rparr>)) m"

definition pc_reset_client :: "string \<Rightarrow> per_client_circuit \<Rightarrow> per_client_circuit" where
  "pc_reset_client client m =
     (case hm_get m client of
        None \<Rightarrow> m
      | Some c \<Rightarrow> hm_insert client (c\<lparr>cl_tripped := False, cl_per_symbol := []\<rparr>) m)"

subsection \<open>The volume limits\<close>

text \<open>Times are milliseconds.\<close>

record volume_limit_tracker =
  vl_max_daily_quote :: decimal
  vl_max_hourly_quote :: decimal
  vl_trades :: "(timestamp \<times> decimal) list"
  vl_daily_total :: decimal
  vl_hourly_total :: decimal

definition vl_new :: "decimal \<Rightarrow> decimal \<Rightarrow> volume_limit_tracker" where
  "vl_new daily hourly =
     \<lparr>vl_max_daily_quote = daily, vl_max_hourly_quote = hourly, vl_trades = [], vl_daily_total = 0, vl_hourly_total = 0\<rparr>"

fun drop_before :: "timestamp \<Rightarrow> (timestamp \<times> decimal) list \<Rightarrow> decimal \<Rightarrow> (timestamp \<times> decimal) list \<times> decimal" where
  "drop_before day_ago [] daily = ([], daily)"
| "drop_before day_ago ((ts, vol) # ts') daily =
     (if ts < day_ago then drop_before day_ago ts' (daily - vol) else ((ts, vol) # ts', daily))"

definition vl_prune :: "timestamp \<Rightarrow> volume_limit_tracker \<Rightarrow> volume_limit_tracker" where
  "vl_prune now t =
     (let (kept, daily) = drop_before (now - 24 * 3600000) (vl_trades t) (vl_daily_total t)
      in t\<lparr>vl_trades := kept, vl_daily_total := daily,
           vl_hourly_total := sum_list (map snd (filter (\<lambda>(ts, _). now - 3600000 \<le> ts) kept))\<rparr>)"

definition vl_on_trade :: "timestamp \<Rightarrow> decimal \<Rightarrow> volume_limit_tracker \<Rightarrow> volume_limit_tracker" where
  "vl_on_trade now volume t =
     vl_prune now (t\<lparr>vl_trades := vl_trades t @ [(now, volume)], vl_daily_total := vl_daily_total t + volume,
                     vl_hourly_total := vl_hourly_total t + volume\<rparr>)"

definition can_trade :: "decimal \<Rightarrow> volume_limit_tracker \<Rightarrow> bool" where
  "can_trade volume t \<longleftrightarrow>
     \<not> (vl_max_daily_quote t \<noteq> 0 \<and> vl_max_daily_quote t < vl_daily_total t + volume)
     \<and> \<not> (vl_max_hourly_quote t \<noteq> 0 \<and> vl_max_hourly_quote t < vl_hourly_total t + volume)"

subsection \<open>The engine\<close>

record gate_engine =
  ge_symbol :: string
  ge_protections :: "protections option"
  ge_last_status :: protection_status
  ge_last_kill_level :: kill_level
  ge_emulator :: order_emulator
  ge_dca :: dca_state
  ge_client_id :: "string option"
  ge_trip_noted :: bool
  ge_lifecycle_paused :: bool
  ge_stale_paused :: bool
  ge_kill :: kill_switch
  ge_margin :: "margin_guard option"
  ge_margin_leverage :: u32
  ge_order_size :: qty
  ge_risk :: risk_config
  ge_breaker :: circuit_breaker
  ge_exposure :: exposure_manager
  ge_orders :: order_manager
  ge_cache :: balance_cache
  ge_audit :: "string list"
  ge_incidents :: "string list"

text \<open>What one refresh reads: the instant (nanoseconds) and the time (milliseconds), the profit of the
  tracker, the seconds since the last book update, the market view and the shared loss circuit.\<close>

record gate_input =
  gi_instant :: timestamp
  gi_now :: timestamp
  gi_equity :: decimal
  gi_book_age_secs :: "nat option"
  gi_view :: market_view
  gi_circuit :: "per_client_circuit option"

datatype gate_outcome =
  ByProtections | ByLifecycle | ByStaleBook | ByKillSwitch | ByMargin | BySpread | ByBreaker | Proceed

definition ge_note :: "string \<Rightarrow> gate_engine \<Rightarrow> gate_engine" where
  "ge_note kind e = e\<lparr>ge_audit := ge_audit e @ [kind]\<rparr>"

text \<open>The cancel-all of a gate: the order manager's, then the reservations are reset.\<close>

definition gate_cancel_all :: "'v connector \<Rightarrow> gate_engine \<Rightarrow> 'v \<Rightarrow> gate_engine \<times> 'v" where
  "gate_cancel_all conn e v =
     (case cancel_all conn (ge_symbol e) (ge_orders e, v) of
        (_, om, v') \<Rightarrow> (e\<lparr>ge_orders := om, ge_cache := reset_reservations (ge_cache e)\<rparr>, v'))"

definition protections_gate ::
  "(decimal \<Rightarrow> string) \<Rightarrow> (int \<Rightarrow> string) \<Rightarrow> gate_input \<Rightarrow> gate_engine \<Rightarrow> bool \<times> gate_engine" where
  "protections_gate sd st inp e =
     (case ge_protections e of
        None \<Rightarrow> (False, e)
      | Some p \<Rightarrow>
          (let p1 = pt_update_equity (ge_symbol e) (gi_equity inp) (gi_instant inp) p;
               status = pt_is_locked sd st (ge_symbol e) (gi_instant inp) p1;
               e1 = e\<lparr>ge_protections := Some p1\<rparr>;
               e2 = (if ge_last_status e1 = status then e1
                     else (ge_note (if is_locked_status status then ''ProtectionsLocked'' else ''ProtectionsCleared'') e1)
                            \<lparr>ge_last_status := status\<rparr>)
           in (is_locked_status status, e2)))"

definition client_gate :: "gate_input \<Rightarrow> gate_engine \<Rightarrow> gate_engine" where
  "client_gate inp e =
     (case (ge_client_id e, gi_circuit inp) of
        (Some client, Some circuit) \<Rightarrow>
          if pc_is_tripped client circuit
          then if ge_trip_noted e then e
               else (ge_note ''KillSwitchEscalated'' e)
                      \<lparr>ge_incidents := ge_incidents e @ [''critical''],
                       ge_kill := manual_trigger CancelAll ''per-client loss circuit'' (gi_now inp) (ge_kill e),
                       ge_trip_noted := True\<rparr>
          else if ge_trip_noted e then e\<lparr>ge_trip_noted := False\<rparr> else e
      | _ \<Rightarrow> e)"

definition stale_gate :: "'v connector \<Rightarrow> gate_input \<Rightarrow> gate_engine \<Rightarrow> 'v \<Rightarrow> bool \<times> gate_engine \<times> 'v" where
  "stale_gate conn inp e v =
     (case gi_book_age_secs inp of
        None \<Rightarrow> (False, e, v)
      | Some age \<Rightarrow>
          if unat (rc_stale_book_timeout_secs (ge_risk e)) \<le> age
          then if ge_stale_paused e then (True, e, v)
               else (case gate_cancel_all conn e v of
                       (e1, v1) \<Rightarrow> (True, ge_note ''CircuitBreakerTripped'' (e1\<lparr>ge_stale_paused := True\<rparr>), v1))
          else (False, e\<lparr>ge_stale_paused := False\<rparr>, v))"

definition kill_gate :: "'v connector \<Rightarrow> gate_engine \<Rightarrow> 'v \<Rightarrow> bool \<times> gate_engine \<times> 'v" where
  "kill_gate conn e v =
     (if allow_new_orders (ge_kill e) then (False, e, v)
      else if CancelAll \<le> current_level (ge_kill e)
      then (case gate_cancel_all conn e v of (e1, v1) \<Rightarrow> (True, e1, v1))
      else (True, e, v))"

definition margin_gate :: "(decimal \<Rightarrow> decimal \<Rightarrow> decimal) \<Rightarrow> gate_input \<Rightarrow> gate_engine \<Rightarrow> bool" where
  "margin_gate ddiv inp e =
     (case (ge_margin e, mv_mid (gi_view inp)) of
        (Some g, Some mid) \<Rightarrow>
          (case projected_ratio ddiv g (ge_order_size e * mid * 2) (ge_margin_leverage e) of
             None \<Rightarrow> False
           | Some projected \<Rightarrow> stop_ratio (mg_thresholds g) \<le> projected)
      | _ \<Rightarrow> False)"

definition breaker_gate :: "'v connector \<Rightarrow> gate_input \<Rightarrow> gate_engine \<Rightarrow> 'v \<Rightarrow> gate_outcome \<times> gate_engine \<times> 'v" where
  "breaker_gate conn inp e v =
     (case refresh_checks (ge_risk e) (gi_view inp) (gi_now inp) (ge_breaker e) (ge_exposure e) of
        (b, m, go) \<Rightarrow>
          (let e1 = e\<lparr>ge_breaker := b, ge_exposure := m\<rparr>
           in if soft_gated (ge_risk e) (gi_view inp) then (BySpread, e1, v)
              else if cb_tripped b then (case gate_cancel_all conn e1 v of (e2, v1) \<Rightarrow> (ByBreaker, e2, v1))
              else (Proceed, e1, v)))"

definition refresh_gates ::
  "(decimal \<Rightarrow> decimal \<Rightarrow> decimal) \<Rightarrow> (decimal \<Rightarrow> string) \<Rightarrow> (int \<Rightarrow> string) \<Rightarrow> (string \<Rightarrow> uuid option) \<Rightarrow> 'v connector
     \<Rightarrow> gate_input \<Rightarrow> gate_engine \<Rightarrow> 'v \<Rightarrow> gate_outcome \<times> gate_engine \<times> 'v" where
  "refresh_gates ddiv sd st parse_uuid conn inp e v =
     (let (locked, e1) = protections_gate sd st inp e
      in if locked then (ByProtections, e1, v)
         else
           let (em, v1) = emulator_tick parse_uuid conn (ge_symbol e1) (mv_mid (gi_view inp)) (gi_instant inp) (ge_emulator e1) v;
               (dca, v2) = dca_tick conn (ge_symbol e1) (gi_instant inp) (ge_dca e1) v1;
               e2 = client_gate inp (e1\<lparr>ge_emulator := em, ge_dca := dca\<rparr>)
           in if ge_lifecycle_paused e2 then (ByLifecycle, e2, v2)
              else
                let (stale, e3, v3) = stale_gate conn inp e2 v2
                in if stale then (ByStaleBook, e3, v3)
                   else
                     let (killed, e4, v4) = kill_gate conn e3 v3
                     in if killed then (ByKillSwitch, e4, v4)
                        else if margin_gate ddiv inp e4 then (ByMargin, e4, v4)
                        else breaker_gate conn inp e4 v4)"

text \<open>The rise of the kill level that counts as a stop; \<open>asset_level\<close> is the level of the shared switch
  of the asset class.\<close>

definition effective_kill_level :: "kill_level option \<Rightarrow> kill_switch \<Rightarrow> kill_level" where
  "effective_kill_level asset_level k =
     (case asset_level of None \<Rightarrow> current_level k | Some a \<Rightarrow> max (current_level k) a)"

definition kill_level_edge :: "kill_level option \<Rightarrow> timestamp \<Rightarrow> gate_engine \<Rightarrow> gate_engine" where
  "kill_level_edge asset_level now e =
     (let level = effective_kill_level asset_level (ge_kill e);
          e1 = (if ge_last_kill_level e < level \<and> StopNewOrders \<le> level
                then e\<lparr>ge_protections := map_option (pt_record_stop (ge_symbol e) now) (ge_protections e)\<rparr>
                else e)
      in e1\<lparr>ge_last_kill_level := level\<rparr>)"

subsection \<open>The filters at the end\<close>

text \<open>\<open>None\<close> is the panic of rounding by a lot size of zero.\<close>

definition cap_side ::
  "(decimal \<Rightarrow> decimal \<Rightarrow> decimal) \<Rightarrow> product_spec \<Rightarrow> qty \<Rightarrow> quote option \<Rightarrow> quote option option" where
  "cap_side ddiv p max_size side' =
     (case side' of
        None \<Rightarrow> Some None
      | Some q \<Rightarrow> if max_size < q_qty q then map_option (\<lambda>z. Some (q\<lparr>q_qty := z\<rparr>)) (round_qty ddiv p max_size) else Some (Some q))"

definition cap_quotes ::
  "(decimal \<Rightarrow> decimal \<Rightarrow> decimal) \<Rightarrow> product_spec \<Rightarrow> qty \<Rightarrow> quote_pair list \<Rightarrow> quote_pair list option" where
  "cap_quotes ddiv p max_size qs =
     (if max_size = 0 then Some qs
      else those (map (\<lambda>q. case (cap_side ddiv p max_size (qp_bid q), cap_side ddiv p max_size (qp_ask q)) of
                             (Some b, Some a) \<Rightarrow> Some (q\<lparr>qp_bid := b, qp_ask := a\<rparr>)
                           | _ \<Rightarrow> None) qs))"

definition volume_filter :: "volume_limit_tracker \<Rightarrow> quote_pair list \<Rightarrow> quote_pair list" where
  "volume_filter vl qs = (if can_trade 0 vl then qs else map (\<lambda>q. q\<lparr>qp_bid := None, qp_ask := None\<rparr>) qs)"

definition drop_zero :: "quote option \<Rightarrow> quote option" where
  "drop_zero q = (case q of None \<Rightarrow> None | Some x \<Rightarrow> if q_qty x = 0 then None else Some x)"

definition drop_zero_quotes :: "quote_pair list \<Rightarrow> quote_pair list" where
  "drop_zero_quotes qs = map (\<lambda>q. q\<lparr>qp_bid := drop_zero (qp_bid q), qp_ask := drop_zero (qp_ask q)\<rparr>) qs"

definition final_filters ::
  "(decimal \<Rightarrow> decimal \<Rightarrow> decimal) \<Rightarrow> product_spec \<Rightarrow> qty \<Rightarrow> volume_limit_tracker \<Rightarrow> quote_pair list \<Rightarrow> quote_pair list option" where
  "final_filters ddiv p max_size vl qs =
     map_option (\<lambda>qs'. drop_zero_quotes (volume_filter vl qs')) (cap_quotes ddiv p max_size qs)"

subsection \<open>What gets past the gates\<close>

lemma gate_cancel_all_rest:
  "gate_cancel_all conn e v = (e', v') \<Longrightarrow> ge_kill e' = ge_kill e \<and> ge_risk e' = ge_risk e \<and> ge_breaker e' = ge_breaker e
     \<and> ge_exposure e' = ge_exposure e \<and> ge_margin e' = ge_margin e \<and> ge_lifecycle_paused e' = ge_lifecycle_paused e"
  by (auto simp: gate_cancel_all_def split: prod.splits)

lemma gate_rest:
  "protections_gate sd st inp e = (b, e1) \<Longrightarrow> ge_kill e1 = ge_kill e \<and> ge_risk e1 = ge_risk e \<and> ge_breaker e1 = ge_breaker e
     \<and> ge_exposure e1 = ge_exposure e \<and> ge_lifecycle_paused e1 = ge_lifecycle_paused e \<and> ge_margin e1 = ge_margin e
     \<and> ge_orders e1 = ge_orders e \<and> ge_emulator e1 = ge_emulator e \<and> ge_dca e1 = ge_dca e
     \<and> ge_client_id e1 = ge_client_id e \<and> ge_trip_noted e1 = ge_trip_noted e \<and> ge_margin_leverage e1 = ge_margin_leverage e
     \<and> ge_order_size e1 = ge_order_size e"
  "ge_risk (client_gate inp e) = ge_risk e" "ge_breaker (client_gate inp e) = ge_breaker e"
  "ge_exposure (client_gate inp e) = ge_exposure e" "ge_lifecycle_paused (client_gate inp e) = ge_lifecycle_paused e"
  "ge_margin (client_gate inp e) = ge_margin e" "ge_margin_leverage (client_gate inp e) = ge_margin_leverage e"
  "ge_order_size (client_gate inp e) = ge_order_size e"
  by (auto simp: protections_gate_def client_gate_def ge_note_def Let_def split: option.splits if_splits)

text \<open>When the watchdog or the switch lets a refresh pass, the engine is as before but for the pause flag.\<close>

lemma stale_gate_passes:
  "stale_gate conn inp e v = (False, e', v') \<Longrightarrow>
   v' = v \<and> (e' = e \<or> e' = e\<lparr>ge_stale_paused := False\<rparr>)
   \<and> (\<forall>age. gi_book_age_secs inp = Some age \<longrightarrow> age < unat (rc_stale_book_timeout_secs (ge_risk e)))"
  by (auto simp: stale_gate_def split: option.splits if_splits prod.splits)

lemma kill_gate_passes: "kill_gate conn e v = (False, e', v') \<Longrightarrow> e' = e \<and> v' = v \<and> allow_new_orders (ge_kill e)"
  by (auto simp: kill_gate_def split: if_splits prod.splits)

text \<open>The stages of a refresh that proceeds.\<close>

lemma refresh_gates_ProceedE:
  assumes "refresh_gates ddiv sd st parse_uuid conn inp e v = (Proceed, e', v')"
  obtains e1 em v1 dca v2 e3 where
    "protections_gate sd st inp e = (False, e1)"
    "emulator_tick parse_uuid conn (ge_symbol e1) (mv_mid (gi_view inp)) (gi_instant inp) (ge_emulator e1) v = (em, v1)"
    "dca_tick conn (ge_symbol e1) (gi_instant inp) (ge_dca e1) v1 = (dca, v2)"
    "\<not> ge_lifecycle_paused e1"
    "stale_gate conn inp (client_gate inp (e1\<lparr>ge_emulator := em, ge_dca := dca\<rparr>)) v2 = (False, e3, v2)"
    "allow_new_orders (ge_kill e3)" "\<not> margin_gate ddiv inp e3"
    "breaker_gate conn inp e3 v2 = (Proceed, e', v')"
proof -
  obtain locked e1 where p: "protections_gate sd st inp e = (locked, e1)" by (rule prod.exhaust)
  have nl: "\<not> locked" using assms by (auto simp: refresh_gates_def p)
  obtain em v1 where m: "emulator_tick parse_uuid conn (ge_symbol e1) (mv_mid (gi_view inp)) (gi_instant inp) (ge_emulator e1) v = (em, v1)"
    by (rule prod.exhaust)
  obtain dca v2 where d: "dca_tick conn (ge_symbol e1) (gi_instant inp) (ge_dca e1) v1 = (dca, v2)" by (rule prod.exhaust)
  let ?e2 = "client_gate inp (e1\<lparr>ge_emulator := em, ge_dca := dca\<rparr>)"
  obtain stale e3 v3 where s: "stale_gate conn inp ?e2 v2 = (stale, e3, v3)" by (rule prod_cases3)
  obtain killed e4 v4 where k: "kill_gate conn e3 v3 = (killed, e4, v4)" by (rule prod_cases3)
  note unf = assms [unfolded refresh_gates_def Let_def p prod.case m d s k]
  from unf nl have life: "\<not> ge_lifecycle_paused ?e2" by (auto split: if_splits)
  from unf nl life have ns: "\<not> stale" by (auto split: if_splits)
  from unf nl life ns have nk: "\<not> killed" by (auto split: if_splits)
  from stale_gate_passes [OF s [unfolded ns [THEN eq_False [THEN iffD2]]]] have v3: "v3 = v2" by simp
  from kill_gate_passes [OF k [unfolded nk [THEN eq_False [THEN iffD2]]]] have e4: "e4 = e3" "v4 = v3" and allow: "allow_new_orders (ge_kill e3)"
    by simp_all
  from unf nl life ns nk e4 v3 have mg: "\<not> margin_gate ddiv inp e3" and br: "breaker_gate conn inp e3 v2 = (Proceed, e', v')"
    by (auto split: if_splits)
  show ?thesis
    by (rule that [OF p [unfolded nl [THEN eq_False [THEN iffD2]]] m d _ _ allow mg br])
       (use life s ns v3 in \<open>simp_all add: gate_rest(5)\<close>)
qed

lemma breaker_gate_proceeds:
  assumes "breaker_gate conn inp e v = (Proceed, e', v')"
  shows "\<exists>b m. refresh_checks (ge_risk e) (gi_view inp) (gi_now inp) (ge_breaker e) (ge_exposure e) = (b, m, True)
    \<and> \<not> cb_tripped b \<and> e' = e\<lparr>ge_breaker := b, ge_exposure := m\<rparr>"
proof -
  obtain b m go where r: "refresh_checks (ge_risk e) (gi_view inp) (gi_now inp) (ge_breaker e) (ge_exposure e) = (b, m, go)"
    by (rule prod_cases3)
  with assms have soft: "\<not> soft_gated (ge_risk e) (gi_view inp)" and nt: "\<not> cb_tripped b"
    and e': "e' = e\<lparr>ge_breaker := b, ge_exposure := m\<rparr>"
    by (auto simp: breaker_gate_def Let_def split: if_splits prod.splits)
  have "go" using r soft nt by (auto simp: refresh_checks_def Let_def split: option.splits)
  with r nt e' show ?thesis by auto
qed

text \<open>
  C30: what holds when quoting is reached. If a refresh gets to the strategy from a breaker that is
  tripped exactly when it has a reason, then no protection locks the pair at the profit and instant of
  this refresh, the symbol is not paused, the book was updated within the timeout, the kill switch still
  allows orders after the loss circuit of the client was asked, the projected margin stays below the
  stop ratio, the soft spread gate is open, and, when there is a mid price, the exposure is within its
  limit. The book is fresh by the breaker's clock, the spread within its limit and, when there is a mid
  price, the drawdown within its own too, except where the breaker was already tripped for a condition
  that a later check of this refresh found healed: the breaker then keeps the earlier reason and is
  cleared, so a drawdown breach passes behind an exposure trip, a wide spread behind a drawdown or
  exposure trip, and a stale book behind any of these or a spread trip. From an untripped breaker there
  is no such exception and the market is safe in all of these.
\<close>

theorem refresh_proceeds_only_when_safe:
  assumes "refresh_gates ddiv sd st parse_uuid conn inp e v = (Proceed, e', v')"
    and "breaker_ok (ge_breaker e)"
  shows "(\<forall>p. ge_protections e = Some p \<longrightarrow> \<not> is_locked_status (pt_is_locked sd st (ge_symbol e) (gi_instant inp)
              (pt_update_equity (ge_symbol e) (gi_equity inp) (gi_instant inp) p)))
    \<and> \<not> ge_lifecycle_paused e
    \<and> (\<forall>age. gi_book_age_secs inp = Some age \<longrightarrow> age < unat (rc_stale_book_timeout_secs (ge_risk e)))
    \<and> allow_new_orders (ge_kill e')
    \<and> \<not> margin_gate ddiv inp e
    \<and> checked_market (ge_risk e) (gi_view inp) (gi_now inp) (ge_exposure e) (ge_breaker e)
    \<and> (\<not> cb_tripped (ge_breaker e) \<longrightarrow> \<not> unsafe_market (ge_risk e) (gi_view inp) (gi_now inp) (ge_exposure e))"
  using assms(1)
proof (rule refresh_gates_ProceedE)
  fix e1 em v1 dca v2 e3
  assume p: "protections_gate sd st inp e = (False, e1)"
    and life: "\<not> ge_lifecycle_paused e1"
    and s: "stale_gate conn inp (client_gate inp (e1\<lparr>ge_emulator := em, ge_dca := dca\<rparr>)) v2 = (False, e3, v2)"
    and allow: "allow_new_orders (ge_kill e3)" and mg: "\<not> margin_gate ddiv inp e3"
    and br: "breaker_gate conn inp e3 v2 = (Proceed, e', v')"
  let ?e2 = "client_gate inp (e1\<lparr>ge_emulator := em, ge_dca := dca\<rparr>)"
  from stale_gate_passes [OF s] have e3: "e3 = ?e2 \<or> e3 = ?e2\<lparr>ge_stale_paused := False\<rparr>"
    and age: "\<forall>age. gi_book_age_secs inp = Some age \<longrightarrow> age < unat (rc_stale_book_timeout_secs (ge_risk ?e2))" by simp_all
  note rest = gate_rest(1) [OF p]
  have same: "ge_risk e3 = ge_risk e" "ge_breaker e3 = ge_breaker e" "ge_exposure e3 = ge_exposure e"
    "ge_margin e3 = ge_margin e" "ge_margin_leverage e3 = ge_margin_leverage e" "ge_order_size e3 = ge_order_size e"
    using e3 rest by (auto simp: gate_rest)
  obtain b m where c: "refresh_checks (ge_risk e) (gi_view inp) (gi_now inp) (ge_breaker e) (ge_exposure e) = (b, m, True)"
    and e': "e' = e3\<lparr>ge_breaker := b, ge_exposure := m\<rparr>"
    using breaker_gate_proceeds [OF br] same by auto
  have safe: "checked_market (ge_risk e) (gi_view inp) (gi_now inp) (ge_exposure e) (ge_breaker e)"
    by (rule refresh_checks_proceed [OF assms(2) c])
  have untripped: "\<not> cb_tripped (ge_breaker e) \<longrightarrow> \<not> unsafe_market (ge_risk e) (gi_view inp) (gi_now inp) (ge_exposure e)"
    using safe checked_market_untripped [OF assms(2)] by blast
  have unlocked: "\<forall>p. ge_protections e = Some p \<longrightarrow> \<not> is_locked_status (pt_is_locked sd st (ge_symbol e) (gi_instant inp)
      (pt_update_equity (ge_symbol e) (gi_equity inp) (gi_instant inp) p))"
    using p by (auto simp: protections_gate_def Let_def)
  have margin: "margin_gate ddiv inp e3 = margin_gate ddiv inp e" unfolding margin_gate_def same ..
  show ?thesis
    using unlocked life rest age allow mg safe untripped by (simp add: e' margin gate_rest)
qed

subsection \<open>A locked pair\<close>

primrec gate_runs ::
  "(decimal \<Rightarrow> decimal \<Rightarrow> decimal) \<Rightarrow> (decimal \<Rightarrow> string) \<Rightarrow> (int \<Rightarrow> string) \<Rightarrow> (string \<Rightarrow> uuid option) \<Rightarrow> 'v connector
     \<Rightarrow> gate_input list \<Rightarrow> gate_engine \<Rightarrow> 'v \<Rightarrow> gate_outcome list \<times> gate_engine \<times> 'v" where
  "gate_runs ddiv sd st parse_uuid conn [] e v = ([], e, v)"
| "gate_runs ddiv sd st parse_uuid conn (inp # inps) e v =
     (case refresh_gates ddiv sd st parse_uuid conn inp e v of
        (o', e1, v1) \<Rightarrow> (case gate_runs ddiv sd st parse_uuid conn inps e1 v1 of (os, e2, v2) \<Rightarrow> (o' # os, e2, v2)))"

definition cooling :: "timestamp \<Rightarrow> gate_engine \<Rightarrow> bool" where
  "cooling until e \<longleftrightarrow> (\<exists>p c. ge_protections e = Some p \<and> pt_cooldown p = Some c \<and> hm_get (cp_cooldowns c) (ge_symbol e) = Some until)"

lemma cooling_tick:
  assumes "cooling until e" and "gi_instant inp < until"
  shows "\<exists>e'. refresh_gates ddiv sd st parse_uuid conn inp e v = (ByProtections, e', v) \<and> cooling until e'
    \<and> ge_emulator e' = ge_emulator e \<and> ge_dca e' = ge_dca e \<and> ge_orders e' = ge_orders e \<and> ge_kill e' = ge_kill e"
proof -
  obtain p c where p: "ge_protections e = Some p" "pt_cooldown p = Some c" "hm_get (cp_cooldowns c) (ge_symbol e) = Some until"
    using assms(1) by (auto simp: cooling_def)
  let ?p1 = "pt_update_equity (ge_symbol e) (gi_equity inp) (gi_instant inp) p"
  have "cp_status st (ge_symbol e) (gi_instant inp) c \<noteq> None" using p(3) assms(2) by (simp add: cp_status_def lock_status_def)
  then have locked: "is_locked_status (pt_is_locked sd st (ge_symbol e) (gi_instant inp) ?p1)"
    using p(2) by (simp add: pt_is_locked_iff pt_update_equity_def del: not_None_eq)
  obtain b e1 where g: "protections_gate sd st inp e = (b, e1)" by (rule prod.exhaust)
  have b: "b" and e1: "ge_protections e1 = Some ?p1" "ge_symbol e1 = ge_symbol e"
    using g locked p(1) by (auto simp: protections_gate_def Let_def ge_note_def split: if_splits)
  have "cooling until e1" using p e1 by (simp add: cooling_def pt_update_equity_def)
  then show ?thesis using g b gate_rest(1) [OF g] by (simp add: refresh_gates_def)
qed

text \<open>
  An escalation freezes the stops of its pair. When the effective kill level rises to stopping
  new orders or beyond, the rise is recorded as a stop, and with a cooldown configured every refresh
  within it ends at the protections: nothing is sent to the venue, so no emulated stop fires, no
  slice of a reduction goes out, no resting order is cancelled by the refresh and the loss circuit
  is not asked, whatever the market does meanwhile.
\<close>

theorem escalation_freezes_stops:
  assumes "ge_protections e = Some p" and "pt_cooldown p = Some c"
    and "ge_last_kill_level e < effective_kill_level asset_level (ge_kill e)"
    and "StopNewOrders \<le> effective_kill_level asset_level (ge_kill e)"
    and "\<forall>inp \<in> set inps. gi_instant inp < now + cp_duration c"
  shows "\<exists>e'. gate_runs ddiv sd st parse_uuid conn inps (kill_level_edge asset_level now e) v
      = (replicate (length inps) ByProtections, e', v)
    \<and> ge_emulator e' = ge_emulator e \<and> ge_dca e' = ge_dca e \<and> ge_orders e' = ge_orders e \<and> ge_kill e' = ge_kill e"
proof -
  let ?e0 = "kill_level_edge asset_level now e"
  have cool: "cooling (now + cp_duration c) ?e0"
    using assms(1-4) by (simp add: cooling_def kill_level_edge_def Let_def pt_record_stop_def cp_trigger_def hm_get_def hm_insert_def update_conv')
  have same: "ge_emulator ?e0 = ge_emulator e" "ge_dca ?e0 = ge_dca e" "ge_orders ?e0 = ge_orders e" "ge_kill ?e0 = ge_kill e"
    by (simp_all add: kill_level_edge_def Let_def)
  have "\<exists>e'. gate_runs ddiv sd st parse_uuid conn inps e0 v = (replicate (length inps) ByProtections, e', v)
      \<and> ge_emulator e' = ge_emulator e0 \<and> ge_dca e' = ge_dca e0 \<and> ge_orders e' = ge_orders e0 \<and> ge_kill e' = ge_kill e0"
    if "cooling (now + cp_duration c) e0" for e0
    using that assms(5)
  proof (induction inps arbitrary: e0)
    case (Cons inp inps)
    have "gi_instant inp < now + cp_duration c" using Cons.prems(2) by simp
    from cooling_tick [OF Cons.prems(1) this, where ddiv = ddiv and sd = sd and st = st and parse_uuid = parse_uuid and conn = conn and v = v] obtain e1 where
      "refresh_gates ddiv sd st parse_uuid conn inp e0 v = (ByProtections, e1, v)" "cooling (now + cp_duration c) e1"
      "ge_emulator e1 = ge_emulator e0" "ge_dca e1 = ge_dca e0" "ge_orders e1 = ge_orders e0" "ge_kill e1 = ge_kill e0" by blast
    with Cons.IH [of e1] Cons.prems(2) show ?case by auto
  qed simp
  from this [OF cool] same show ?thesis by simp
qed

subsection \<open>The client's circuit\<close>

text \<open>
  A client that is still tripped is quoted again. Once an engine has noted the trip it does not
  look at the circuit any more: after the operator resets the engine's kill switch, and not the
  client, every refresh goes exactly as it would without a circuit, for as long as the client stays
  tripped.
\<close>

theorem tripped_client_ignored:
  assumes "ge_client_id e = Some client" and "gi_circuit inp = Some circuit" and "pc_is_tripped client circuit" and "ge_trip_noted e"
  shows "refresh_gates ddiv sd st parse_uuid conn inp e v = refresh_gates ddiv sd st parse_uuid conn (inp\<lparr>gi_circuit := None\<rparr>) e v"
proof -
  have gates: "protections_gate sd st (inp\<lparr>gi_circuit := None\<rparr>) e = protections_gate sd st inp e"
    "stale_gate conn (inp\<lparr>gi_circuit := None\<rparr>) e' v' = stale_gate conn inp e' v'"
    "margin_gate ddiv (inp\<lparr>gi_circuit := None\<rparr>) e' = margin_gate ddiv inp e'"
    "breaker_gate conn (inp\<lparr>gi_circuit := None\<rparr>) e' v' = breaker_gate conn inp e' v'" for e' v'
    by (simp_all add: protections_gate_def stale_gate_def margin_gate_def breaker_gate_def Let_def cong: option.case_cong)
  obtain b e1 where p: "protections_gate sd st inp e = (b, e1)" by (rule prod.exhaust)
  from gate_rest(1) [OF p] assms have "ge_client_id e1 = Some client" "ge_trip_noted e1" by auto
  then have "client_gate inp (e1\<lparr>ge_emulator := em, ge_dca := dca\<rparr>) = client_gate (inp\<lparr>gi_circuit := None\<rparr>) (e1\<lparr>ge_emulator := em, ge_dca := dca\<rparr>)" for em dca
    using assms(2,3) by (simp add: client_gate_def)
  then show ?thesis unfolding refresh_gates_def gates p by simp
qed

text \<open>Nor does a reset hold: the engines report totals, so the next report of an unchanged loss trips the
  client again.\<close>

lemma client_reset_retrips:
  assumes "hm_get m client = Some c" and "cl_limit c = Some limit" and "pnl \<le> - limit"
  shows "pc_is_tripped client (report_symbol_pnl client symbol pnl (pc_reset_client client m))"
  using assms by (simp add: pc_is_tripped_def report_symbol_pnl_def pc_reset_client_def client_entry_def cl_aggregate_def Let_def
      hm_get_def hm_insert_def update_conv')

subsection \<open>Volumes\<close>

text \<open>The totals after any trades, in the order of time: the windows end at the last trade, not at the
  time of the question.\<close>

definition vl_run :: "(timestamp \<times> decimal) list \<Rightarrow> volume_limit_tracker \<Rightarrow> volume_limit_tracker" where
  "vl_run ts t = fold (\<lambda>(now, q). vl_on_trade now q) ts t"

definition since :: "timestamp \<Rightarrow> (timestamp \<times> decimal) list \<Rightarrow> (timestamp \<times> decimal) list" where
  "since t0 ts = filter (\<lambda>e. t0 \<le> fst e) ts"

lemma drop_before_sorted:
  "sorted (map fst ts) \<Longrightarrow> drop_before t0 ts daily = (since t0 ts, daily - sum_list (map snd ts) + sum_list (map snd (since t0 ts)))"
proof (induction t0 ts daily rule: drop_before.induct)
  case (2 t0 t q ts daily)
  show ?case
  proof (cases "t < t0")
    case True
    then show ?thesis using 2 by (simp add: since_def)
  next
    case False
    then have "since t0 ts = ts" using 2(2) by (auto simp: since_def intro!: filter_True)
    then show ?thesis using False by (simp add: since_def)
  qed
qed (simp add: since_def)

lemma since_since: "t0 \<le> t1 \<Longrightarrow> since t1 (since t0 ts) = since t1 ts"
  by (auto simp: since_def intro: filter_cong)

lemma since_append: "since t (xs @ ys) = since t xs @ since t ys"
  by (simp add: since_def)

abbreviation DAY :: int where "DAY \<equiv> 86400000"
abbreviation HOUR :: int where "HOUR \<equiv> 3600000"

lemma vl_on_trade_window:
  assumes "sorted (map fst (ts @ [(t, q)]))" and "vl_trades vl = since (fst (last ts) - DAY) ts"
    and "vl_daily_total vl = sum_list (map snd (vl_trades vl))"
  shows "vl_trades (vl_on_trade t q vl) = since (t - DAY) (ts @ [(t, q)])
    \<and> vl_daily_total (vl_on_trade t q vl) = sum_list (map snd (vl_trades (vl_on_trade t q vl)))
    \<and> vl_hourly_total (vl_on_trade t q vl) = sum_list (map snd (since (t - HOUR) (ts @ [(t, q)])))"
proof -
  let ?w = "since (fst (last ts) - DAY) ts"
  have srt: "sorted (map fst ts)" and le: "\<forall>x \<in> set ts. fst x \<le> t" using assms(1) by (auto simp: sorted_append)
  have w: "since (t - DAY) (?w @ [(t, q)]) = since (t - DAY) (ts @ [(t, q)])"
  proof (cases "ts = []")
    case False
    then have "fst (last ts) \<le> t" using le by simp
    then show ?thesis by (simp add: since_append since_since)
  qed (simp add: since_def)
  have "sorted (map fst (?w @ [(t, q)]))" using srt le by (auto simp: sorted_append since_def intro: sorted_filter)
  note dropped = drop_before_sorted [OF this, of "t - DAY"]
  have "filter (\<lambda>(ts, _). t - HOUR \<le> ts) (since (t - DAY) (ts @ [(t, q)])) = since (t - HOUR) (ts @ [(t, q)])"
    using since_since [of "t - DAY" "t - HOUR" "ts @ [(t, q)]"] by (simp add: since_def case_prod_beta)
  with dropped w assms(2,3) show ?thesis
    by (simp add: vl_on_trade_def vl_prune_def Let_def)
qed

lemma vl_run_window:
  "sorted (map fst ts) \<Longrightarrow>
   vl_trades (vl_run ts (vl_new daily hourly)) = since (fst (last ts) - DAY) ts
   \<and> vl_daily_total (vl_run ts (vl_new daily hourly)) = sum_list (map snd (vl_trades (vl_run ts (vl_new daily hourly))))"
proof (induction ts rule: rev_induct)
  case (snoc e ts)
  obtain t q where e: "e = (t, q)" by (cases e)
  have "sorted (map fst ts)" using snoc.prems by (simp add: sorted_append)
  from snoc.IH [OF this] vl_on_trade_window [of ts t q "vl_run ts (vl_new daily hourly)"] snoc.prems
  show ?case by (simp add: vl_run_def e)
qed (simp add: vl_run_def vl_new_def since_def)

text \<open>
  What the volume limits count. After trades in the order of time the tracker's totals are the
  volumes of the last day and of the last hour before its last trade. They do not depend on when
  they are asked for: once a limit is exceeded every quote is suppressed at any later time, until
  another fill, which without quotes need not come, moves the windows.
\<close>

theorem volume_totals_end_at_last_trade:
  assumes "sorted (map fst (ts @ [(t, q)]))"
  shows "let vl = vl_run (ts @ [(t, q)]) (vl_new daily hourly)
    in vl_daily_total vl = sum_list (map snd (since (t - 86400000) (ts @ [(t, q)])))
     \<and> vl_hourly_total vl = sum_list (map snd (since (t - 3600000) (ts @ [(t, q)])))"
proof -
  have "sorted (map fst ts)" using assms by (simp add: sorted_append)
  from vl_run_window [OF this] vl_on_trade_window [OF assms, of "vl_run ts (vl_new daily hourly)"]
  show ?thesis by (simp add: vl_run_def Let_def)
qed

subsection \<open>What leaves the refresh\<close>

lemma those_Some: "those xs = Some ys \<longleftrightarrow> xs = map Some ys"
  by (induction xs arbitrary: ys) (auto split: option.splits simp: Cons_eq_map_conv)

lemma cap_side_bound:
  assumes "cap_side (/) p max_size s = Some (Some x)" and "0 < ps_lot_size p"
  shows "q_qty x \<le> max_size"
proof (cases s)
  case None
  then show ?thesis using assms(1) by (simp add: cap_side_def)
next
  case (Some q)
  show ?thesis
  proof (cases "max_size < q_qty q")
    case True
    then obtain r where "round_down (/) (ps_lot_size p) max_size = Some r" "q_qty x = r"
      using assms(1) Some by (auto simp: cap_side_def round_qty_def)
    with exact_division.round_down_bounds [OF this(1) assms(2)] show ?thesis by simp
  next
    case False
    then show ?thesis using assms(1) Some by (auto simp: cap_side_def)
  qed
qed

text \<open>
  C31: quotes leave the refresh within the limits. With a positive lot size the filters at the end do
  not panic and keep one pair per level; every side that is left has a quantity, not zero and not
  above the largest order size when one is set, and no side is left at all once a volume limit is
  exceeded.
\<close>

theorem final_quotes_within_limits:
  assumes "0 < ps_lot_size p"
  shows "\<exists>qs'. final_filters (/) p max_size vl qs = Some qs' \<and> length qs' = length qs
    \<and> (\<forall>q \<in> set qs'. \<forall>x. qp_bid q = Some x \<or> qp_ask q = Some x \<longrightarrow>
         q_qty x \<noteq> 0 \<and> (max_size \<noteq> 0 \<longrightarrow> q_qty x \<le> max_size) \<and> can_trade 0 vl)"
proof -
  have total: "\<exists>s'. cap_side (/) p max_size s = Some s'" for s
    using assms by (auto simp: cap_side_def round_qty_def round_down_def split: option.splits)
  have "\<exists>cs. cap_quotes (/) p max_size qs = Some cs \<and> length cs = length qs \<and> (max_size \<noteq> 0 \<longrightarrow>
      (\<forall>q \<in> set cs. \<forall>x. qp_bid q = Some x \<or> qp_ask q = Some x \<longrightarrow> q_qty x \<le> max_size))"
  proof (cases "max_size = 0")
    case True
    then show ?thesis by (simp add: cap_quotes_def)
  next
    case False
    define c where "c = (\<lambda>q :: quote_pair. q\<lparr>qp_bid := the (cap_side (/) p max_size (qp_bid q)), qp_ask := the (cap_side (/) p max_size (qp_ask q))\<rparr>)"
    have "(case (cap_side (/) p max_size (qp_bid q), cap_side (/) p max_size (qp_ask q)) of
        (Some b, Some a) \<Rightarrow> Some (q\<lparr>qp_bid := b, qp_ask := a\<rparr>) | _ \<Rightarrow> None) = Some (c q)" for q
      using total [of "qp_bid q"] total [of "qp_ask q"] by (auto simp: c_def)
    then have "cap_quotes (/) p max_size qs = Some (map c qs)" using False by (simp add: cap_quotes_def those_Some)
    moreover have "q_qty x \<le> max_size" if "qp_bid (c q) = Some x \<or> qp_ask (c q) = Some x" for q x
    proof -
      have "the (cap_side (/) p max_size (qp_bid q)) = Some x \<or> the (cap_side (/) p max_size (qp_ask q)) = Some x"
        using that by (simp add: c_def)
      then obtain s where "the (cap_side (/) p max_size s) = Some x" by blast
      with total [of s] have "cap_side (/) p max_size s = Some (Some x)" by auto
      then show ?thesis by (rule cap_side_bound [OF _ assms])
    qed
    ultimately show ?thesis by (intro exI [where x = "map c qs"]) auto
  qed
  then obtain cs where cs: "cap_quotes (/) p max_size qs = Some cs" "length cs = length qs"
    and le: "\<And>q x. max_size \<noteq> 0 \<Longrightarrow> q \<in> set cs \<Longrightarrow> qp_bid q = Some x \<or> qp_ask q = Some x \<Longrightarrow> q_qty x \<le> max_size" by blast
  let ?qs' = "drop_zero_quotes (volume_filter vl cs)"
  have "q_qty x \<noteq> 0 \<and> (max_size \<noteq> 0 \<longrightarrow> q_qty x \<le> max_size) \<and> can_trade 0 vl"
    if mem: "q \<in> set ?qs'" and side: "qp_bid q = Some x \<or> qp_ask q = Some x" for q x
  proof -
    obtain q1 where q1: "q1 \<in> set (volume_filter vl cs)" "q = q1\<lparr>qp_bid := drop_zero (qp_bid q1), qp_ask := drop_zero (qp_ask q1)\<rparr>"
      using mem unfolding drop_zero_quotes_def set_map by (rule imageE)
    then have x: "qp_bid q1 = Some x \<or> qp_ask q1 = Some x" "q_qty x \<noteq> 0"
      using side by (auto simp: drop_zero_def split: option.splits if_splits)
    have "can_trade 0 vl" using q1(1) x(1) by (auto simp: volume_filter_def split: if_splits)
    with q1(1) x le [of q1 x] show ?thesis by (simp add: volume_filter_def)
  qed
  moreover have "final_filters (/) p max_size vl qs = Some ?qs'" "length ?qs' = length qs"
    using cs by (simp_all add: final_filters_def drop_zero_quotes_def volume_filter_def)
  ultimately show ?thesis by blast
qed

subsection \<open>Concrete refreshes\<close>

definition demo_gates :: "protections option \<Rightarrow> gate_engine" where
  "demo_gates p =
     \<lparr>ge_symbol = ''BTC'', ge_protections = p, ge_last_status = Clear, ge_last_kill_level = Normal,
      ge_emulator = emulator_new, ge_dca = \<lparr>pending_dca = [], dca_started_at = None\<rparr>, ge_client_id = Some ''acme'',
      ge_trip_noted = True, ge_lifecycle_paused = False, ge_stale_paused = False,
      ge_kill = ks_new default_kill_switch_config 0, ge_margin = None, ge_margin_leverage = 1, ge_order_size = 1,
      ge_risk = example_risk, ge_breaker = cb_new, ge_exposure = em_new 1000, ge_orders = om_new, ge_cache = bc_new,
      ge_audit = [], ge_incidents = []\<rparr>"

definition demo_input :: gate_input where
  "demo_input = \<lparr>gi_instant = 5, gi_now = 6000, gi_equity = 0, gi_book_age_secs = Some 1, gi_view = example_view 950 5,
     gi_circuit = Some [(''acme'', \<lparr>cl_limit = Some 100, cl_per_symbol = [], cl_tripped = True\<rparr>)]\<rparr>"

lemma demo_proceeds:
  "\<exists>e' v'. refresh_gates (/) (\<lambda>_. '''') (\<lambda>_. '''') (\<lambda>_. None) (mock_conn 20) demo_input (demo_gates None) mock_new = (Proceed, e', v')"
proof -
  have c: "client_gate demo_input (demo_gates None) = demo_gates None"
    by (simp add: client_gate_def demo_gates_def demo_input_def pc_is_tripped_def hm_get_def)
  have "\<not> unsafe_market example_risk (example_view 950 5) 6000 (em_new 1000)"
    using example_fresh by (auto simp: unsafe_market_def example_view_def example_risk_def soft_gated_def em_new_def max_def)
  moreover obtain b m go where r: "refresh_checks example_risk (example_view 950 5) 6000 cb_new (em_new 1000) = (b, m, go)"
    by (rule prod_cases3)
  ultimately have go: "go" using refresh_quotes_only_when_safe [OF breaker_ok_ops(1) _ r] by (simp add: cb_new_def)
  have soft: "\<not> soft_gated example_risk (example_view 950 5)" by (simp add: soft_gated_def example_risk_def)
  then have "\<not> cb_tripped b" using r go by (auto simp: refresh_checks_def Let_def split: option.splits)
  then have "\<exists>e'. breaker_gate (mock_conn 20) demo_input (demo_gates None) mock_new = (Proceed, e', mock_new)"
    using r soft by (simp add: breaker_gate_def demo_gates_def demo_input_def Let_def)
  moreover have "protections_gate (\<lambda>_. '''') (\<lambda>_. '''') demo_input (demo_gates None) = (False, demo_gates None)"
    by (simp add: protections_gate_def demo_gates_def)
  moreover have "(demo_gates None)\<lparr>ge_emulator := ge_emulator (demo_gates None), ge_dca := ge_dca (demo_gates None)\<rparr> = demo_gates None" by simp
  moreover have "emulator_tick (\<lambda>_. None) (mock_conn 20) s m t (ge_emulator (demo_gates None)) v = (ge_emulator (demo_gates None), v)"
    "dca_tick (mock_conn 20) s t (ge_dca (demo_gates None)) v = (ge_dca (demo_gates None), v)" for s m t v
    by (simp_all add: emulator_tick_def dca_tick_def demo_gates_def em_len_def emulator_new_def)
  moreover have "stale_gate (mock_conn 20) demo_input (demo_gates None) v = (False, demo_gates None, v)"
    "kill_gate (mock_conn 20) (demo_gates None) v = (False, demo_gates None, v)" "margin_gate (/) demo_input (demo_gates None) = False" for v
    by (simp_all add: stale_gate_def kill_gate_def margin_gate_def demo_gates_def demo_input_def example_risk_def allow_new_orders_def
        ks_new_def less_kill_level_def)
  moreover have "\<not> ge_lifecycle_paused (demo_gates None)" by (simp add: demo_gates_def)
  ultimately show ?thesis using c by (auto simp: refresh_gates_def Let_def)
qed

theorem refresh_proceeds_only_when_safe_witness:
  "\<exists>e' v'. refresh_gates (/) (\<lambda>_. '''') (\<lambda>_. '''') (\<lambda>_. None) (mock_conn 20) demo_input (demo_gates None) mock_new = (Proceed, e', v')
     \<and> allow_new_orders (ge_kill e') \<and> \<not> unsafe_market example_risk (example_view 950 5) 6000 (em_new 1000)"
proof -
  obtain e' v' where r: "refresh_gates (/) (\<lambda>_. '''') (\<lambda>_. '''') (\<lambda>_. None) (mock_conn 20) demo_input (demo_gates None) mock_new = (Proceed, e', v')"
    using demo_proceeds by blast
  have "breaker_ok (ge_breaker (demo_gates None))" "\<not> cb_tripped (ge_breaker (demo_gates None))"
    by (simp_all add: demo_gates_def cb_new_def breaker_ok_def)
  from refresh_proceeds_only_when_safe [OF r this(1)] this(2) r show ?thesis
    by (auto simp: demo_gates_def demo_input_def)
qed

theorem escalation_freezes_stops_witness:
  "\<exists>e'. gate_runs (/) (\<lambda>_. '''') (\<lambda>_. '''') (\<lambda>_. None) (mock_conn 20) [demo_input, demo_input]
      (kill_level_edge (Some CancelAll) 0 (demo_gates (Some (pt_new \<lparr>pc_stoploss_guard = None, pc_cooldown = Some 30, pc_max_drawdown = None, pc_low_profit_pairs = None\<rparr>)))) mock_new
    = ([ByProtections, ByProtections], e', mock_new)"
proof -
  let ?p = "pt_new \<lparr>pc_stoploss_guard = None, pc_cooldown = Some 30, pc_max_drawdown = None, pc_low_profit_pairs = None\<rparr>"
  have level: "effective_kill_level (Some CancelAll) (ge_kill (demo_gates (Some ?p))) = CancelAll"
    by (simp add: effective_kill_level_def demo_gates_def ks_new_def max_def less_eq_kill_level_def)
  have "ge_protections (demo_gates (Some ?p)) = Some ?p" "pt_cooldown ?p = Some (cp_new 30)" "cp_duration (cp_new 30) = 30"
    by (simp_all add: demo_gates_def pt_new_def cp_new_def)
  moreover have "ge_last_kill_level (demo_gates (Some ?p)) < CancelAll" "StopNewOrders \<le> CancelAll"
    by (simp_all add: demo_gates_def less_kill_level_def less_eq_kill_level_def)
  ultimately show ?thesis
    using escalation_freezes_stops [of "demo_gates (Some ?p)" ?p "cp_new 30" "Some CancelAll" "[demo_input, demo_input]" 0
        "(/)" "\<lambda>_. ''''" "\<lambda>_. ''''" "\<lambda>_. None" "mock_conn 20" mock_new] level
    by (auto simp: demo_input_def numeral_2_eq_2)
qed

theorem tripped_client_ignored_witness:
  "\<exists>e' v'. refresh_gates (/) (\<lambda>_. '''') (\<lambda>_. '''') (\<lambda>_. None) (mock_conn 20) (demo_input\<lparr>gi_circuit := None\<rparr>) (demo_gates None) mock_new = (Proceed, e', v')
     \<and> pc_is_tripped ''acme'' (the (gi_circuit demo_input))"
proof -
  have t: "pc_is_tripped ''acme'' (the (gi_circuit demo_input))" by (simp add: demo_input_def pc_is_tripped_def hm_get_def)
  have "refresh_gates (/) (\<lambda>_. '''') (\<lambda>_. '''') (\<lambda>_. None) (mock_conn 20) demo_input (demo_gates None) mock_new
      = refresh_gates (/) (\<lambda>_. '''') (\<lambda>_. '''') (\<lambda>_. None) (mock_conn 20) (demo_input\<lparr>gi_circuit := None\<rparr>) (demo_gates None) mock_new"
    by (rule tripped_client_ignored [OF _ _ t]) (simp_all add: demo_gates_def demo_input_def)
  with demo_proceeds t show ?thesis by auto
qed

theorem volume_totals_end_at_last_trade_witness:
  "let vl = vl_run ([(0, 60)] @ [(1000, 50)]) (vl_new 100 0) in vl_daily_total vl = 110 \<and> \<not> can_trade 0 vl"
proof -
  have "sorted (map fst ([(0, 60)] @ [(1000 :: int, 50 :: decimal)]))" by simp
  from volume_totals_end_at_last_trade [OF this, of 100 0]
  have "vl_daily_total (vl_run ([(0, 60)] @ [(1000, 50)]) (vl_new 100 0)) = 110" by (simp add: Let_def since_def)
  moreover have "vl_max_daily_quote (vl_run ([(0, 60)] @ [(1000, 50)]) (vl_new 100 0)) = 100"
    by (simp add: vl_run_def vl_on_trade_def vl_prune_def vl_new_def)
  ultimately show ?thesis by (simp add: Let_def can_trade_def)
qed

theorem final_quotes_within_limits_witness:
  "\<exists>qs'. final_filters (/) example_product 2 (vl_new 0 0) [\<lparr>qp_bid = Some \<lparr>q_side = Buy, q_price = 100, q_qty = 5\<rparr>, qp_ask = None\<rparr>] = Some qs'
     \<and> length qs' = 1"
  using final_quotes_within_limits [of example_product 2 "vl_new 0 0" "[\<lparr>qp_bid = Some \<lparr>q_side = Buy, q_price = 100, q_qty = 5\<rparr>, qp_ask = None\<rparr>]"]
  by (auto simp: example_product_def)

end
