(* ===== verification/Text_Codec.thy ===== *)
theory Text_Codec
  imports Std_Json Std_Text
begin

section \<open>Reading and writing JSON text\<close>

text \<open>
  The text form of JSON is a library's. The components that store it take a printer and a reader as
  arguments, with what they rely on as the predicate \<open>json_text\<close>: what is printed is read back, it is
  valid UTF-8, and it is one line that starts with a printing character. Fields of a record are looked up as the derived
  readers do it. The last part gives a printer and a reader for which the predicate holds.
\<close>

subsection \<open>Lines\<close>

text \<open>\<^verbatim>\<open>str::lines\<close>: pieces ended by a line feed, a carriage return before it dropped.\<close>

definition strip_cr :: "string \<Rightarrow> string" where
  "strip_cr l = (if l \<noteq> [] \<and> last l = CHR 0x0D then butlast l else l)"

definition str_lines :: "string \<Rightarrow> string list" where
  "str_lines s =
     (let ps = split_on (CHR 0x0A) s
      in if last ps = [] then map strip_cr (butlast ps) else map strip_cr (butlast ps) @ [last ps])"

definition code_of :: "char \<Rightarrow> nat" where
  "code_of c = of_char c"

text \<open>\<^verbatim>\<open>trim().is_empty()\<close>: every character is white space, on the bytes of the text.\<close>

fun blank_line :: "string \<Rightarrow> bool" where
  "blank_line [] = True"
| "blank_line (c # s) =
     (if code_of c \<in> {9, 10, 11, 12, 13, 32} then blank_line s
      else case s of
        d # t \<Rightarrow>
          if code_of c = 194 \<and> code_of d \<in> {133, 160} then blank_line t
          else (case t of
            e # u \<Rightarrow>
              if code_of c = 225 \<and> code_of d = 154 \<and> code_of e = 128 \<or>
                 code_of c = 226 \<and> code_of d = 128 \<and> (128 \<le> code_of e \<and> code_of e \<le> 138 \<or> code_of e \<in> {168, 169, 175}) \<or>
                 code_of c = 226 \<and> code_of d = 129 \<and> code_of e = 159 \<or>
                 code_of c = 227 \<and> code_of d = 128 \<and> code_of e = 128
              then blank_line u else False
          | [] \<Rightarrow> False)
      | [] \<Rightarrow> False)"

definition one_line :: "string \<Rightarrow> bool" where
  "one_line l \<longleftrightarrow>
     CHR 0x0A \<notin> set l \<and> CHR 0x0D \<notin> set l \<and> l \<noteq> [] \<and> 32 < code_of (hd l) \<and> code_of (hd l) < 127 \<and> utf8_valid l"

lemma one_line_not_blank: "one_line l \<Longrightarrow> \<not> blank_line l"
  by (cases l) (auto simp: one_line_def split: list.splits)

lemma one_line_append: "one_line a \<Longrightarrow> one_line b \<Longrightarrow> one_line (a @ b)"
  by (simp add: one_line_def utf8_append)

definition text_of :: "string list \<Rightarrow> string" where
  "text_of ls = concat (map (\<lambda>l. l @ [CHR 0x0A]) ls)"

lemma text_of_append [simp]: "text_of (xs @ ys) = text_of xs @ text_of ys"
  by (simp add: text_of_def)

lemma split_on_no: "c \<notin> set s \<Longrightarrow> split_on c s = [s]"
  by (induction s) auto

lemma split_text: "(\<And>l. l \<in> set ls \<Longrightarrow> CHR 0x0A \<notin> set l) \<Longrightarrow> split_on (CHR 0x0A) (text_of ls @ r) = ls @ split_on (CHR 0x0A) r"
proof (induction ls)
  case (Cons l ls)
  then show ?case using split_on_piece [of "CHR 0x0A" l "text_of ls @ r"] by (simp add: text_of_def)
qed (simp add: text_of_def)

lemma strip_cr_id: "CHR 0x0D \<notin> set l \<Longrightarrow> strip_cr l = l"
  by (auto simp: strip_cr_def dest: last_in_set)

lemma str_lines_text:
  assumes "\<And>l. l \<in> set ls \<Longrightarrow> one_line l"
  shows "str_lines (text_of ls) = ls"
proof -
  have "split_on (CHR 0x0A) (text_of ls) = ls @ [[]]"
    using split_text [of ls "[]"] assms by (auto simp: one_line_def)
  then show ?thesis using assms by (simp add: str_lines_def map_idI strip_cr_id one_line_def)
qed

lemma str_lines_torn:
  assumes "\<And>l. l \<in> set ls \<Longrightarrow> one_line l" and "one_line t"
  shows "str_lines (text_of ls @ t) = ls @ [t]"
proof -
  have "split_on (CHR 0x0A) (text_of ls @ t) = ls @ [t]"
    using split_text [of ls t] split_on_no [of "CHR 0x0A" t] assms by (auto simp: one_line_def)
  moreover have "t \<noteq> []" using assms(2) by (auto simp: one_line_def)
  ultimately show ?thesis using assms(1) by (simp add: str_lines_def map_idI strip_cr_id one_line_def)
qed

lemma text_of_utf8: "(\<And>l. l \<in> set ls \<Longrightarrow> one_line l) \<Longrightarrow> utf8_valid (text_of ls)"
proof (induction ls)
  case (Cons l ls)
  have "utf8_valid (l @ [CHR 0x0A])"
    using Cons.prems [of l] by (intro utf8_append) (simp_all add: one_line_def utf8_ascii)
  then show ?case using Cons utf8_append [of "l @ [CHR 0x0A]" "text_of ls"] by (simp add: text_of_def)
qed (simp add: text_of_def)

subsection \<open>Fields\<close>

text \<open>
  A derived reader: a field that occurs twice is an error, an optional field may be absent or null, other
  names are ignored.
\<close>

datatype 'a field = Absent | Present 'a | Bad

definition json_field :: "string \<Rightarrow> json \<Rightarrow> json field" where
  "json_field k j =
     (case j of
        JObject es \<Rightarrow> (case filter (\<lambda>e. fst e = k) es of [] \<Rightarrow> Absent | [e] \<Rightarrow> Present (snd e) | _ \<Rightarrow> Bad)
      | _ \<Rightarrow> Bad)"

definition required_field :: "(json \<Rightarrow> 'a option) \<Rightarrow> string \<Rightarrow> json \<Rightarrow> 'a option" where
  "required_field rd k j = (case json_field k j of Present v \<Rightarrow> rd v | _ \<Rightarrow> None)"

definition optional :: "(json \<Rightarrow> 'a option) \<Rightarrow> string \<Rightarrow> json \<Rightarrow> 'a option option" where
  "optional rd k j =
     (case json_field k j of
        Absent \<Rightarrow> Some None
      | Present v \<Rightarrow> if v = JNull then Some None else map_option Some (rd v)
      | Bad \<Rightarrow> None)"

text \<open>An entry that is skipped when the value is none.\<close>

definition entry_opt :: "string \<Rightarrow> ('a \<Rightarrow> json) \<Rightarrow> 'a option \<Rightarrow> (string \<times> json) list" where
  "entry_opt k wr v = (case v of None \<Rightarrow> [] | Some x \<Rightarrow> [(k, wr x)])"

lemma required_present: "filter (\<lambda>e. fst e = k) es = [(k, v)] \<Longrightarrow> required_field rd k (JObject es) = rd v"
  by (simp add: required_field_def json_field_def)

lemma optional_opt:
  assumes "filter (\<lambda>e. fst e = k) es = entry_opt k wr v" and "\<And>x. wr x \<noteq> JNull" and "\<And>x. v = Some x \<Longrightarrow> rd (wr x) = Some x"
  shows "optional rd k (JObject es) = Some v"
  using assms by (cases v) (auto simp: optional_def json_field_def entry_opt_def)

lemma filter_entry_opt [simp]:
  "filter (\<lambda>e. fst e = k) (entry_opt k' wr v) = (if k' = k then entry_opt k wr v else [])"
  by (auto simp: entry_opt_def split: option.splits)

subsection \<open>What is relied on\<close>

text \<open>
  The libraries' functions: the JSON printer and reader, the digest in hexadecimal, and the text forms
  of decimals, times and identifiers. A text is read as its syntax tree, with the entries of an object in
  the order of the text; the text of a decimal is taken as a function of its value.
  What is relied on is limited to the values the libraries write and read back: texts are UTF-8, a value with a
  binary floating point number in it need not survive, the reader refuses more than 127 levels of
  nesting, a decimal has at most 28 places and a 96-bit mantissa, a time is a microsecond of the
  years 0 to 9999, an identifier has 128 bits. Behind an object the reader refuses any further character
  that is not white space, so two objects one after the other are no value.
\<close>

record codec =
  co_print :: "json \<Rightarrow> string"
  co_parse :: "string \<Rightarrow> json option"
  co_hash :: "string \<Rightarrow> string"
  co_decimal :: "decimal \<Rightarrow> string"
  co_read_decimal :: "json \<Rightarrow> decimal option"
  co_time :: "timestamp \<Rightarrow> string"
  co_read_time :: "string \<Rightarrow> timestamp option"
  co_uuid :: "uuid \<Rightarrow> string"
  co_read_uuid :: "string \<Rightarrow> uuid option"

fun plain :: "json \<Rightarrow> bool" where
  "plain (JNumber (Float _)) = False"
| "plain (JNumber (NegInt i)) \<longleftrightarrow> - (2 ^ 63) \<le> i \<and> i < 0"
| "plain (JString s) = utf8_valid s"
| "plain (JArray js) = list_all plain js"
| "plain (JObject es) = list_all (\<lambda>e. utf8_valid (fst e) \<and> plain (snd e)) es"
| "plain _ = True"

fun nested :: "nat \<Rightarrow> json \<Rightarrow> bool" where
  "nested n (JArray js) = (case n of 0 \<Rightarrow> False | Suc m \<Rightarrow> list_all (nested m) js)"
| "nested n (JObject es) = (case n of 0 \<Rightarrow> False | Suc m \<Rightarrow> list_all (\<lambda>e. nested m (snd e)) es)"
| "nested n _ = True"

definition writable :: "json \<Rightarrow> bool" where
  "writable j \<longleftrightarrow> plain j \<and> nested 127 j"

definition is_decimal :: "decimal \<Rightarrow> bool" where
  "is_decimal d \<longleftrightarrow> (\<exists>m s. s \<le> 28 \<and> \<bar>m\<bar> < 2 ^ 96 \<and> d = of_int m / 10 ^ s)"

definition is_time :: "timestamp \<Rightarrow> bool" where
  "is_time t \<longleftrightarrow> - 62167219200000000 \<le> t \<and> t < 253402300800000000"

definition is_uuid :: "uuid \<Rightarrow> bool" where
  "is_uuid u \<longleftrightarrow> u < 2 ^ 128"

definition codec_ok :: "codec \<Rightarrow> bool" where
  "codec_ok c \<longleftrightarrow>
     (\<forall>j. writable j \<longrightarrow> co_parse c (co_print c j) = Some j \<and> one_line (co_print c j)) \<and>
     (\<forall>es fs. writable (JObject es) \<and> writable (JObject fs) \<longrightarrow> co_parse c (co_print c (JObject es) @ co_print c (JObject fs)) = None) \<and>
     (\<forall>d. is_decimal d \<longrightarrow> co_read_decimal c (JString (co_decimal c d)) = Some d) \<and>
     (\<forall>t. is_time t \<longrightarrow> co_read_time c (co_time c t) = Some t) \<and>
     (\<forall>u. is_uuid u \<longrightarrow> co_read_uuid c (co_uuid c u) = Some u) \<and>
     (\<forall>d t u. utf8_valid (co_decimal c d) \<and> utf8_valid (co_time c t) \<and> utf8_valid (co_uuid c u)) \<and>
     (\<forall>s. utf8_valid s \<longrightarrow> utf8_valid (co_hash c s))"

subsection \<open>A codec that does\<close>

text \<open>Numbers in unary, a list as its elements each after a comma and a full stop.\<close>

definition put_nat :: "nat \<Rightarrow> string" where
  "put_nat n = replicate n (CHR ''1'') @ '';''"

fun get_nat :: "string \<Rightarrow> (nat \<times> string) option" where
  "get_nat (c # s) = (if c = CHR ''1'' then map_option (map_prod Suc id) (get_nat s) else if c = CHR '';'' then Some (0, s) else None)"
| "get_nat [] = None"

definition put_int :: "int \<Rightarrow> string" where
  "put_int i = (if i < 0 then ''-'' else ''+'') @ put_nat (nat \<bar>i\<bar>)"

definition get_int :: "string \<Rightarrow> (int \<times> string) option" where
  "get_int s = (case s of [] \<Rightarrow> None | c # r \<Rightarrow>
     map_option (map_prod (\<lambda>n. if c = CHR ''-'' then - int n else int n) id) (get_nat r))"

fun put_str :: "string \<Rightarrow> string" where
  "put_str [] = ''.''"
| "put_str (c # s) = '','' @ put_nat (code_of c) @ put_str s"

fun get_str :: "nat \<Rightarrow> string \<Rightarrow> (string \<times> string) option" where
  "get_str (Suc n) (c # s) =
     (if c = CHR ''.'' then Some ([], s)
      else case get_nat s of None \<Rightarrow> None | Some (k, r) \<Rightarrow> map_option (map_prod (Cons (char_of k)) id) (get_str n r))"
| "get_str _ _ = None"

fun put_json :: "json \<Rightarrow> string" and put_jsons :: "json list \<Rightarrow> string" and put_entries :: "(string \<times> json) list \<Rightarrow> string" where
  "put_json JNull = ''n''"
| "put_json (JBool b) = (if b then ''t'' else ''f'')"
| "put_json (JNumber (PosInt w)) = ''p'' @ put_nat (unat w)"
| "put_json (JNumber (NegInt i)) = ''m'' @ put_int i"
| "put_json (JNumber (Float q)) = ''n''"
| "put_json (JString s) = ''s'' @ put_str s"
| "put_json (JArray js) = ''a'' @ put_jsons js"
| "put_json (JObject es) = ''o'' @ put_entries es"
| "put_jsons [] = ''.''"
| "put_jsons (j # js) = '','' @ put_json j @ put_jsons js"
| "put_entries [] = ''.''"
| "put_entries ((k, j) # es) = '','' @ put_str k @ put_json j @ put_entries es"

fun get_json :: "nat \<Rightarrow> string \<Rightarrow> (json \<times> string) option"
  and get_jsons :: "nat \<Rightarrow> string \<Rightarrow> (json list \<times> string) option"
  and get_entries :: "nat \<Rightarrow> string \<Rightarrow> ((string \<times> json) list \<times> string) option" where
  "get_json (Suc n) (c # s) =
     (if c = CHR ''n'' then Some (JNull, s)
      else if c = CHR ''t'' then Some (JBool True, s)
      else if c = CHR ''f'' then Some (JBool False, s)
      else if c = CHR ''p'' then map_option (map_prod (\<lambda>k. JNumber (PosInt (of_nat k))) id) (get_nat s)
      else if c = CHR ''m'' then map_option (map_prod (\<lambda>i. JNumber (NegInt i)) id) (get_int s)
      else if c = CHR ''s'' then map_option (map_prod JString id) (get_str n s)
      else if c = CHR ''a'' then map_option (map_prod JArray id) (get_jsons n s)
      else if c = CHR ''o'' then map_option (map_prod JObject id) (get_entries n s)
      else None)"
| "get_json _ _ = None"
| "get_jsons (Suc n) (c # s) =
     (if c = CHR ''.'' then Some ([], s)
      else case get_json n s of None \<Rightarrow> None | Some (j, r) \<Rightarrow> map_option (map_prod (Cons j) id) (get_jsons n r))"
| "get_jsons _ _ = None"
| "get_entries (Suc n) (c # s) =
     (if c = CHR ''.'' then Some ([], s)
      else case get_str n s of None \<Rightarrow> None | Some (k, r) \<Rightarrow>
        (case get_json n r of None \<Rightarrow> None | Some (j, r') \<Rightarrow> map_option (map_prod (Cons (k, j)) id) (get_entries n r')))"
| "get_entries _ _ = None"

definition parse_json :: "string \<Rightarrow> json option" where
  "parse_json s = (case get_json (length s) s of Some (j, []) \<Rightarrow> Some j | _ \<Rightarrow> None)"

definition put_rat :: "rat \<Rightarrow> string" where
  "put_rat q = put_int (fst (quotient_of q)) @ put_int (snd (quotient_of q))"

definition get_rat :: "string \<Rightarrow> rat option" where
  "get_rat s = (case get_int s of None \<Rightarrow> None | Some (a, r) \<Rightarrow>
     (case get_int r of Some (b, []) \<Rightarrow> Some (of_int a / of_int b) | _ \<Rightarrow> None))"

definition sample_codec :: codec where
  "sample_codec =
     \<lparr>co_print = put_json, co_parse = parse_json, co_hash = (\<lambda>s. s), co_decimal = put_rat,
      co_read_decimal = (\<lambda>j. case j of JString s \<Rightarrow> get_rat s | _ \<Rightarrow> None),
      co_time = put_int, co_read_time = (\<lambda>s. map_option fst (get_int s)),
      co_uuid = put_nat, co_read_uuid = (\<lambda>s. map_option fst (get_nat s))\<rparr>"

lemma get_put_nat [simp]: "get_nat (put_nat n @ r) = Some (n, r)"
  by (induction n) (auto simp: put_nat_def)

lemma get_put_nat_end [simp]: "get_nat (put_nat n) = Some (n, [])"
  using get_put_nat [of n "[]"] by simp

lemma get_put_int [simp]: "get_int (put_int i @ r) = Some (i, r)"
  by (auto simp: put_int_def get_int_def)

lemma get_put_int_end [simp]: "get_int (put_int i) = Some (i, [])"
  using get_put_int [of i "[]"] by simp

lemma get_put_str: "length (put_str s) \<le> n \<Longrightarrow> get_str n (put_str s @ r) = Some (s, r)"
proof (induction s arbitrary: n)
  case Nil
  then show ?case by (cases n) auto
next
  case (Cons c s)
  then show ?case by (cases n) (auto simp: code_of_def)
qed

lemma get_put_json:
  "plain j \<Longrightarrow> length (put_json j) \<le> n \<Longrightarrow> get_json n (put_json j @ r) = Some (j, r)"
  "list_all plain js \<Longrightarrow> length (put_jsons js) \<le> n \<Longrightarrow> get_jsons n (put_jsons js @ r) = Some (js, r)"
  "list_all (\<lambda>e. utf8_valid (fst e) \<and> plain (snd e)) es \<Longrightarrow> length (put_entries es) \<le> n \<Longrightarrow> get_entries n (put_entries es @ r) = Some (es, r)"
proof (induction j and js and es arbitrary: n r and n r and n r rule: put_json_put_jsons_put_entries.induct)
  case 1
  then show ?case by (cases n) auto
next
  case (2 b)
  then show ?case by (cases n) (auto split: if_splits)
next
  case (3 w)
  then show ?case by (cases n) auto
next
  case (4 i)
  then show ?case by (cases n) auto
next
  case (5 q)
  then show ?case by (cases n) auto
next
  case (6 s)
  then show ?case by (cases n) (auto simp: get_put_str)
next
  case (7 js)
  then show ?case by (cases n) auto
next
  case (8 es)
  then show ?case by (cases n) auto
next
  case 9
  then show ?case by (cases n) auto
next
  case 11
  then show ?case by (cases n) auto
next
  case (10 j js)
  then show ?case by (cases n) auto
next
  case (12 k j es)
  obtain m where n: "n = Suc m" using 12(4) by (cases n) auto
  have "get_str m (put_str k @ put_json j @ put_entries es @ r) = Some (k, put_json j @ put_entries es @ r)"
    using 12(4) by (intro get_put_str) (simp add: n)
  then show ?case using 12 by (simp add: n)
qed

definition printable :: "string \<Rightarrow> bool" where
  "printable s \<longleftrightarrow> s \<noteq> [] \<and> list_all (\<lambda>c. 33 \<le> code_of c \<and> code_of c < 127) s"

lemma printable_append [simp]: "list_all P (a @ b) \<longleftrightarrow> list_all P a \<and> list_all P b"
  by simp

lemma printable_parts:
  "list_all (\<lambda>c. 33 \<le> code_of c \<and> code_of c < 127) (put_nat m)"
  "list_all (\<lambda>c. 33 \<le> code_of c \<and> code_of c < 127) (put_int i)"
  "list_all (\<lambda>c. 33 \<le> code_of c \<and> code_of c < 127) (put_str s)"
proof -
  show n: "list_all (\<lambda>c. 33 \<le> code_of c \<and> code_of c < 127) (put_nat m)" for m
    by (simp add: put_nat_def list_all_iff code_of_def)
  show "list_all (\<lambda>c. 33 \<le> code_of c \<and> code_of c < 127) (put_int i)"
    using n by (simp add: put_int_def code_of_def)
  show "list_all (\<lambda>c. 33 \<le> code_of c \<and> code_of c < 127) (put_str s)"
    using n by (induction s) (simp_all add: code_of_def)
qed

lemma code_of_char: "code_of (Char b0 b1 b2 b3 b4 b5 b6 b7) = of_char (Char b0 b1 b2 b3 b4 b5 b6 b7)"
  by (simp add: code_of_def)

lemma printable_json:
  "list_all (\<lambda>c. 33 \<le> code_of c \<and> code_of c < 127) (put_json j)"
  "list_all (\<lambda>c. 33 \<le> code_of c \<and> code_of c < 127) (put_jsons js)"
  "list_all (\<lambda>c. 33 \<le> code_of c \<and> code_of c < 127) (put_entries es)"
  by (induction j and js and es rule: put_json_put_jsons_put_entries.induct) (simp_all add: printable_parts code_of_char)

lemma printable_line: "printable s \<Longrightarrow> one_line s"
proof -
  assume p: "printable s"
  then obtain c r where s: "s = c # r" and c: "33 \<le> code_of c" "code_of c < 127" by (cases s) (auto simp: printable_def)
  have "code_of d \<noteq> 10 \<and> code_of d \<noteq> 13 \<and> code_of d < 128" if "d \<in> set s" for d
    using p that by (force simp: printable_def list_all_iff)
  moreover from this have "CHR 0x0A \<notin> set s" "CHR 0x0D \<notin> set s" by (fastforce simp: code_of_def)+
  moreover have "s \<noteq> [] \<and> 32 < code_of (hd s) \<and> code_of (hd s) < 127" using c by (simp add: s)
  ultimately show ?thesis by (auto simp: one_line_def code_of_def list_all_iff intro!: utf8_ascii)
qed

lemma printable_utf8: "list_all (\<lambda>c. 33 \<le> code_of c \<and> code_of c < 127) s \<Longrightarrow> utf8_valid s"
  by (rule utf8_ascii) (auto simp: list_all_iff code_of_def)

lemma sample_codec_ok: "codec_ok sample_codec"
proof -
  have ne: "put_json j \<noteq> []" for j by (cases j rule: put_json.cases) auto
  then have "one_line (put_json j)" for j using printable_json(1) by (intro printable_line) (simp add: printable_def)
  moreover have "parse_json (put_json j) = Some j" if "plain j" for j
    using get_put_json(1) [OF that order_refl, of "[]"] by (simp add: parse_json_def)
  moreover have "get_rat (put_rat q) = Some q" for q
    using quotient_of_div [of q "fst (quotient_of q)" "snd (quotient_of q)"] by (simp add: get_rat_def put_rat_def)
  moreover have "parse_json (put_json j @ put_json k) = None" if "plain j" for j k
    using get_put_json(1) [OF that, of "length (put_json j @ put_json k)" "put_json k"] ne [of k]
    by (simp add: parse_json_def split: list.splits)
  moreover have "utf8_valid (put_rat q)" "utf8_valid (put_int i)" "utf8_valid (put_nat m)" for q i m
    unfolding put_rat_def by (rule printable_utf8; simp add: printable_parts)+
  ultimately show ?thesis
    unfolding codec_ok_def sample_codec_def codec.simps writable_def by (intro conjI allI impI) (simp_all del: put_json.simps)
qed

end
