(* ===== verification/Audit_Log.thy ===== *)
theory Audit_Log
  imports Text_Codec Common_Types Std_Maps
begin

section \<open>The audit log\<close>

text \<open>
  \<^verbatim>\<open>crates/risk/src/audit.rs\<close>: the events, the append-only log with its hash chain, its daily rotation and
  its buffered writes, and the verification of a file; and \<^verbatim>\<open>audit_reader.rs\<close>. Times are microseconds.

  \<^item> The text forms and the digest are a \<open>codec\<close>. Decimals and values quoted in a detail text are
    printed by arguments.
  \<^item> The file system is a table of names and of files; a writer keeps its file when the name moves. What
    an operation meets (a rename or an opening that fails, a device that takes nothing) is an argument. A
    write to a failing device takes no part of it. The capacity of the buffer is the library's.
  \<^item> The compression and upload of an archived file, the creation of directories and poisoned locks are left out.
\<close>

subsection \<open>Events\<close>

datatype (plugins only:) audit_event_type =
  OrderPlaced | OrderCancelled | OrderAmended | OrderFilled | OrderRejected | CircuitBreakerTripped |
  KillSwitchEscalated | KillSwitchReset | InventoryLimitHit | ExchangeConnected | ExchangeDisconnected |
  ExchangeReconnected | BookResync | EngineStarted | EngineShutdown | ConfigLoaded | CheckpointSaved |
  BalanceReconciled | SlaViolation | StrategyQuoteRefresh | RegimeChange | OrderToTradeRatioSnapshot |
  InventoryDriftDetected | ProtectionsLocked | ProtectionsCleared | XemmHedgeRejected | PairDispatchEntered |
  PairDispatchExited | PairTakerRejected | PairBreak | CrossVenueBasisEntered | CrossVenueBasisExited |
  PairLifecycleListed | PairLifecycleDelisted | PairLifecycleHalted | PairLifecycleResumed |
  PairLifecycleTickLotChanged | PairLifecycleMinNotionalChanged | HedgeBasketRecommended |
  VarGuardThrottleApplied | RouteDecisionEmitted | ListingEntered | ListingEntryRejected |
  CointegrationScreened | RouteDispatched | StatArbEntered | StatArbExited | OfiFeatureSnapshot |
  AsSpreadWidened | LeadLagTriggered | NewsRetreatActivated | NewsRetreatExpired | StrategyGraphDeployed |
  StrategyGraphRolledBack | StrategyGraphDeployRejected | StrategyGraphNodePatched |
  StrategyGraphRestrictedDeployAcked | StrategyGraphSinkFired | SurveillanceAlert | ListingDiscovered |
  ListingRemoved | LoanCreated | LoanUpdated | LoanReturnScheduled | LoanReturnCompleted |
  LoanUtilizationAlert | LoanStatusChanged | WithdrawRequested | WithdrawCompleted | InternalTransferRequested
  | InternalTransferCompleted | AutoRebalanceExecuted | ReportGenerated | LoginSucceeded | LoginFailed |
  LogoutSucceeded | PasswordResetIssued | PasswordResetCompleted | FundingAccrued

primrec event_name :: "audit_event_type \<Rightarrow> string" where
  "event_name OrderPlaced = ''OrderPlaced''"
| "event_name OrderCancelled = ''OrderCancelled''"
| "event_name OrderAmended = ''OrderAmended''"
| "event_name OrderFilled = ''OrderFilled''"
| "event_name OrderRejected = ''OrderRejected''"
| "event_name CircuitBreakerTripped = ''CircuitBreakerTripped''"
| "event_name KillSwitchEscalated = ''KillSwitchEscalated''"
| "event_name KillSwitchReset = ''KillSwitchReset''"
| "event_name InventoryLimitHit = ''InventoryLimitHit''"
| "event_name ExchangeConnected = ''ExchangeConnected''"
| "event_name ExchangeDisconnected = ''ExchangeDisconnected''"
| "event_name ExchangeReconnected = ''ExchangeReconnected''"
| "event_name BookResync = ''BookResync''"
| "event_name EngineStarted = ''EngineStarted''"
| "event_name EngineShutdown = ''EngineShutdown''"
| "event_name ConfigLoaded = ''ConfigLoaded''"
| "event_name CheckpointSaved = ''CheckpointSaved''"
| "event_name BalanceReconciled = ''BalanceReconciled''"
| "event_name SlaViolation = ''SlaViolation''"
| "event_name StrategyQuoteRefresh = ''StrategyQuoteRefresh''"
| "event_name RegimeChange = ''RegimeChange''"
| "event_name OrderToTradeRatioSnapshot = ''OrderToTradeRatioSnapshot''"
| "event_name InventoryDriftDetected = ''InventoryDriftDetected''"
| "event_name ProtectionsLocked = ''ProtectionsLocked''"
| "event_name ProtectionsCleared = ''ProtectionsCleared''"
| "event_name XemmHedgeRejected = ''XemmHedgeRejected''"
| "event_name PairDispatchEntered = ''PairDispatchEntered''"
| "event_name PairDispatchExited = ''PairDispatchExited''"
| "event_name PairTakerRejected = ''PairTakerRejected''"
| "event_name PairBreak = ''PairBreak''"
| "event_name CrossVenueBasisEntered = ''CrossVenueBasisEntered''"
| "event_name CrossVenueBasisExited = ''CrossVenueBasisExited''"
| "event_name PairLifecycleListed = ''PairLifecycleListed''"
| "event_name PairLifecycleDelisted = ''PairLifecycleDelisted''"
| "event_name PairLifecycleHalted = ''PairLifecycleHalted''"
| "event_name PairLifecycleResumed = ''PairLifecycleResumed''"
| "event_name PairLifecycleTickLotChanged = ''PairLifecycleTickLotChanged''"
| "event_name PairLifecycleMinNotionalChanged = ''PairLifecycleMinNotionalChanged''"
| "event_name HedgeBasketRecommended = ''HedgeBasketRecommended''"
| "event_name VarGuardThrottleApplied = ''VarGuardThrottleApplied''"
| "event_name RouteDecisionEmitted = ''RouteDecisionEmitted''"
| "event_name ListingEntered = ''ListingEntered''"
| "event_name ListingEntryRejected = ''ListingEntryRejected''"
| "event_name CointegrationScreened = ''CointegrationScreened''"
| "event_name RouteDispatched = ''RouteDispatched''"
| "event_name StatArbEntered = ''StatArbEntered''"
| "event_name StatArbExited = ''StatArbExited''"
| "event_name OfiFeatureSnapshot = ''OfiFeatureSnapshot''"
| "event_name AsSpreadWidened = ''AsSpreadWidened''"
| "event_name LeadLagTriggered = ''LeadLagTriggered''"
| "event_name NewsRetreatActivated = ''NewsRetreatActivated''"
| "event_name NewsRetreatExpired = ''NewsRetreatExpired''"
| "event_name StrategyGraphDeployed = ''StrategyGraphDeployed''"
| "event_name StrategyGraphRolledBack = ''StrategyGraphRolledBack''"
| "event_name StrategyGraphDeployRejected = ''StrategyGraphDeployRejected''"
| "event_name StrategyGraphNodePatched = ''StrategyGraphNodePatched''"
| "event_name StrategyGraphRestrictedDeployAcked = ''StrategyGraphRestrictedDeployAcked''"
| "event_name StrategyGraphSinkFired = ''StrategyGraphSinkFired''"
| "event_name SurveillanceAlert = ''SurveillanceAlert''"
| "event_name ListingDiscovered = ''ListingDiscovered''"
| "event_name ListingRemoved = ''ListingRemoved''"
| "event_name LoanCreated = ''LoanCreated''"
| "event_name LoanUpdated = ''LoanUpdated''"
| "event_name LoanReturnScheduled = ''LoanReturnScheduled''"
| "event_name LoanReturnCompleted = ''LoanReturnCompleted''"
| "event_name LoanUtilizationAlert = ''LoanUtilizationAlert''"
| "event_name LoanStatusChanged = ''LoanStatusChanged''"
| "event_name WithdrawRequested = ''WithdrawRequested''"
| "event_name WithdrawCompleted = ''WithdrawCompleted''"
| "event_name InternalTransferRequested = ''InternalTransferRequested''"
| "event_name InternalTransferCompleted = ''InternalTransferCompleted''"
| "event_name AutoRebalanceExecuted = ''AutoRebalanceExecuted''"
| "event_name ReportGenerated = ''ReportGenerated''"
| "event_name LoginSucceeded = ''LoginSucceeded''"
| "event_name LoginFailed = ''LoginFailed''"
| "event_name LogoutSucceeded = ''LogoutSucceeded''"
| "event_name PasswordResetIssued = ''PasswordResetIssued''"
| "event_name PasswordResetCompleted = ''PasswordResetCompleted''"
| "event_name FundingAccrued = ''FundingAccrued''"

definition event_types :: "audit_event_type list" where
  "event_types =
     [OrderPlaced, OrderCancelled, OrderAmended, OrderFilled, OrderRejected, CircuitBreakerTripped,
      KillSwitchEscalated, KillSwitchReset, InventoryLimitHit, ExchangeConnected, ExchangeDisconnected,
      ExchangeReconnected, BookResync, EngineStarted, EngineShutdown, ConfigLoaded, CheckpointSaved,
      BalanceReconciled, SlaViolation, StrategyQuoteRefresh, RegimeChange, OrderToTradeRatioSnapshot,
      InventoryDriftDetected, ProtectionsLocked, ProtectionsCleared, XemmHedgeRejected,
      PairDispatchEntered, PairDispatchExited, PairTakerRejected, PairBreak, CrossVenueBasisEntered,
      CrossVenueBasisExited, PairLifecycleListed, PairLifecycleDelisted, PairLifecycleHalted,
      PairLifecycleResumed, PairLifecycleTickLotChanged, PairLifecycleMinNotionalChanged,
      HedgeBasketRecommended, VarGuardThrottleApplied, RouteDecisionEmitted, ListingEntered,
      ListingEntryRejected, CointegrationScreened, RouteDispatched, StatArbEntered, StatArbExited,
      OfiFeatureSnapshot, AsSpreadWidened, LeadLagTriggered, NewsRetreatActivated, NewsRetreatExpired,
      StrategyGraphDeployed, StrategyGraphRolledBack, StrategyGraphDeployRejected,
      StrategyGraphNodePatched, StrategyGraphRestrictedDeployAcked, StrategyGraphSinkFired,
      SurveillanceAlert, ListingDiscovered, ListingRemoved, LoanCreated, LoanUpdated,
      LoanReturnScheduled, LoanReturnCompleted, LoanUtilizationAlert, LoanStatusChanged,
      WithdrawRequested, WithdrawCompleted, InternalTransferRequested, InternalTransferCompleted,
      AutoRebalanceExecuted, ReportGenerated, LoginSucceeded, LoginFailed, LogoutSucceeded,
      PasswordResetIssued, PasswordResetCompleted, FundingAccrued]"

record audit_event =
  ae_seq :: u64
  ae_timestamp :: timestamp
  ae_event_type :: audit_event_type
  ae_symbol :: string
  ae_client_id :: "string option"
  ae_order_id :: "order_id option"
  ae_side :: "side option"
  ae_price :: "price option"
  ae_qty :: "qty option"
  ae_detail :: "string option"
  ae_prev_hash :: "string option"

text \<open>The renaming of a variant to snake case.\<close>

definition is_upper :: "char \<Rightarrow> bool" where
  "is_upper c \<longleftrightarrow> 65 \<le> code_of c \<and> code_of c \<le> 90"

definition snake_case :: "string \<Rightarrow> string" where
  "snake_case s =
     (case s of [] \<Rightarrow> [] | c # r \<Rightarrow> lower [c] @ concat (map (\<lambda>d. (if is_upper d then ''_'' else []) @ lower [d]) r))"

definition event_label :: "audit_event_type \<Rightarrow> string" where
  "event_label t = snake_case (event_name t)"

definition event_of_label :: "string \<Rightarrow> audit_event_type option" where
  "event_of_label l = List.find (\<lambda>t. event_label t = l) event_types"

primrec side_label :: "side \<Rightarrow> string" where
  "side_label Buy = ''buy''"
| "side_label Sell = ''sell''"

definition side_of_label :: "string \<Rightarrow> side option" where
  "side_of_label l = (if l = ''buy'' then Some Buy else if l = ''sell'' then Some Sell else None)"

text \<open>The derived writer and reader of an event.\<close>

definition event_json :: "codec \<Rightarrow> audit_event \<Rightarrow> json" where
  "event_json c e =
     JObject
       ([(''seq'', JNumber (PosInt (ae_seq e))), (''timestamp'', JString (co_time c (ae_timestamp e))),
         (''event_type'', JString (event_label (ae_event_type e))), (''symbol'', JString (ae_symbol e))]
        @ entry_opt ''client_id'' JString (ae_client_id e)
        @ entry_opt ''order_id'' (\<lambda>u. JString (co_uuid c u)) (ae_order_id e)
        @ entry_opt ''side'' (\<lambda>s. JString (side_label s)) (ae_side e)
        @ entry_opt ''price'' (\<lambda>d. JString (co_decimal c d)) (ae_price e)
        @ entry_opt ''qty'' (\<lambda>d. JString (co_decimal c d)) (ae_qty e)
        @ entry_opt ''detail'' JString (ae_detail e)
        @ entry_opt ''prev_hash'' JString (ae_prev_hash e))"

definition read_via :: "(string \<Rightarrow> 'a option) \<Rightarrow> json \<Rightarrow> 'a option" where
  "read_via rd j = Option.bind (as_str j) rd"

definition event_of_json :: "codec \<Rightarrow> json \<Rightarrow> audit_event option" where
  "event_of_json c j =
     (case (required_field json_as_u64 ''seq'' j, required_field (read_via (co_read_time c)) ''timestamp'' j,
            required_field (read_via event_of_label) ''event_type'' j, required_field as_str ''symbol'' j,
            optional as_str ''client_id'' j, optional (read_via (co_read_uuid c)) ''order_id'' j,
            optional (read_via side_of_label) ''side'' j, optional (co_read_decimal c) ''price'' j,
            optional (co_read_decimal c) ''qty'' j, optional as_str ''detail'' j, optional as_str ''prev_hash'' j) of
        (Some sq, Some ts, Some ty, Some sy, Some cl, Some oi, Some si, Some pr, Some qt, Some de, Some pv) \<Rightarrow>
          Some \<lparr>ae_seq = sq, ae_timestamp = ts, ae_event_type = ty, ae_symbol = sy, ae_client_id = cl, ae_order_id = oi,
             ae_side = si, ae_price = pr, ae_qty = qt, ae_detail = de, ae_prev_hash = pv\<rparr>
      | _ \<Rightarrow> None)"

definition row_of :: "codec \<Rightarrow> audit_event \<Rightarrow> string" where
  "row_of c e = co_print c (event_json c e)"

definition event_of_row :: "codec \<Rightarrow> string \<Rightarrow> audit_event option" where
  "event_of_row c l = Option.bind (co_parse c l) (event_of_json c)"

definition is_critical :: "audit_event_type \<Rightarrow> bool" where
  "is_critical t \<longleftrightarrow>
     t \<in> {OrderFilled, KillSwitchEscalated, CircuitBreakerTripped, StrategyGraphDeployed, StrategyGraphRolledBack,
          StrategyGraphDeployRejected, StrategyGraphRestrictedDeployAcked, StrategyGraphNodePatched,
          StrategyGraphSinkFired, SurveillanceAlert, LoginSucceeded, LoginFailed, LogoutSucceeded,
          PasswordResetIssued, PasswordResetCompleted}"


subsection \<open>Files and the buffered writer\<close>

text \<open>A path in the three parts the standard library splits it into.\<close>

record file_path =
  fp_parent :: "string option"
  fp_stem :: "string option"
  fp_ext :: "string option"

record file_system =
  fs_names :: "(file_path, nat) hash_map"
  fs_data :: "nat \<Rightarrow> string"
  fs_next :: nat

definition fs_read :: "file_path \<Rightarrow> file_system \<Rightarrow> string option" where
  "fs_read p fs =
     (case hm_get (fs_names fs) p of None \<Rightarrow> None
      | Some n \<Rightarrow> if utf8_valid (fs_data fs n) then Some (fs_data fs n) else None)"

definition fs_open_append :: "file_path \<Rightarrow> file_system \<Rightarrow> nat \<times> file_system" where
  "fs_open_append p fs =
     (case hm_get (fs_names fs) p of
        Some n \<Rightarrow> (n, fs)
      | None \<Rightarrow> (fs_next fs, fs\<lparr>fs_names := hm_insert p (fs_next fs) (fs_names fs),
                               fs_data := (fs_data fs)(fs_next fs := []), fs_next := fs_next fs + 1\<rparr>))"

definition fs_rename :: "file_path \<Rightarrow> file_path \<Rightarrow> file_system \<Rightarrow> file_system" where
  "fs_rename a b fs =
     (case hm_get (fs_names fs) a of None \<Rightarrow> fs
      | Some n \<Rightarrow> fs\<lparr>fs_names := hm_insert b n (hm_remove a (fs_names fs))\<rparr>)"

definition fs_append :: "nat \<Rightarrow> string \<Rightarrow> file_system \<Rightarrow> file_system" where
  "fs_append n s fs = fs\<lparr>fs_data := (fs_data fs)(n := fs_data fs n @ s)\<rparr>"

record audit_log =
  al_file :: nat
  al_buffer :: string
  al_capacity :: nat
  al_base_path :: file_path
  al_current_date :: int
  al_last_hash :: "string option"
  al_sequence :: u64

type_synonym log_state = "audit_log \<times> file_system"

text \<open>\<^verbatim>\<open>BufWriter\<close>: a write that does not fit empties the buffer first, one as large as the buffer bypasses it.\<close>

definition buf_flush :: "bool \<Rightarrow> log_state \<Rightarrow> bool \<times> log_state" where
  "buf_flush device s =
     (let (l, fs) = s
      in if al_buffer l = [] then (True, s)
         else if device then (True, l\<lparr>al_buffer := []\<rparr>, fs_append (al_file l) (al_buffer l) fs)
         else (False, s))"

definition buf_push :: "string \<Rightarrow> log_state \<Rightarrow> log_state" where
  "buf_push t s = (let (l, fs) = s in (l\<lparr>al_buffer := al_buffer l @ t\<rparr>, fs))"

definition buf_write :: "bool \<Rightarrow> string \<Rightarrow> log_state \<Rightarrow> bool \<times> log_state" where
  "buf_write device t s =
     (let used = length (al_buffer (fst s)); cap = al_capacity (fst s)
      in if used + length t < cap then (True, buf_push t s)
         else
           let (ok, s1) = (if cap < used + length t then buf_flush device s else (True, s))
           in if \<not> ok then (False, s1)
              else if cap \<le> length t
              then (if device then (True, fst s1, fs_append (al_file (fst s1)) t (snd s1)) else (False, s1))
              else (True, buf_push t s1))"

definition buf_writeln :: "bool \<Rightarrow> string \<Rightarrow> log_state \<Rightarrow> bool \<times> log_state" where
  "buf_writeln device t s =
     (let (ok, s1) = buf_write device t s in if ok then buf_write device [CHR 0x0A] s1 else (False, s1))"

subsection \<open>The log\<close>

definition seed_last_hash_from_file :: "codec \<Rightarrow> file_path \<Rightarrow> file_system \<Rightarrow> string option" where
  "seed_last_hash_from_file c p fs =
     (case fs_read p fs of None \<Rightarrow> None
      | Some content \<Rightarrow> map_option (co_hash c) (List.find (\<lambda>l. \<not> blank_line l) (rev (str_lines content))))"

definition DAY_MICROS :: int where
  "DAY_MICROS = 86400 * 1000000"

definition audit_day :: "timestamp \<Rightarrow> int" where
  "audit_day t = t div DAY_MICROS"

definition al_new :: "codec \<Rightarrow> nat \<Rightarrow> file_path \<Rightarrow> timestamp \<Rightarrow> file_system \<Rightarrow> log_state" where
  "al_new c cap p now fs =
     (let last_hash = seed_last_hash_from_file c p fs;
          (n, fs1) = fs_open_append p fs
      in (\<lparr>al_file = n, al_buffer = [], al_capacity = cap, al_base_path = p, al_current_date = audit_day now,
           al_last_hash = last_hash, al_sequence = 1\<rparr>, fs1))"

text \<open>\<open>day_text\<close> is the ISO form of a day.\<close>

definition audit_archive_name :: "(int \<Rightarrow> string) \<Rightarrow> file_path \<Rightarrow> int \<Rightarrow> file_path" where
  "audit_archive_name day_text p day =
     (let parent = (case fp_parent p of None \<Rightarrow> ''.'' | Some d \<Rightarrow> d);
          stem = (case fp_stem p of None \<Rightarrow> ''audit'' | Some s \<Rightarrow> s);
          ext = (case fp_ext p of None \<Rightarrow> ''jsonl'' | Some x \<Rightarrow> x)
      in \<lparr>fp_parent = Some parent, fp_stem = Some (stem @ ''-'' @ day_text day), fp_ext = Some ext\<rparr>)"

record audit_io =
  io_rename :: bool
  io_open :: bool
  io_device :: bool

text \<open>A dropped writer empties its buffer once more.\<close>

definition rotate_locked :: "(int \<Rightarrow> string) \<Rightarrow> audit_io \<Rightarrow> int \<Rightarrow> log_state \<Rightarrow> bool \<times> log_state" where
  "rotate_locked day_text io today s =
     (let s1 = snd (buf_flush (io_device io) s);
          l1 = fst s1;
          archived = audit_archive_name day_text (al_base_path l1) (al_current_date l1);
          exists = hm_contains (fs_names (snd s1)) (al_base_path l1)
      in if exists \<and> \<not> io_rename io then (False, s1)
         else
           let fs2 = (if exists then fs_rename (al_base_path l1) archived (snd s1) else snd s1)
           in if \<not> io_open io then (False, l1, fs2)
              else
                let (l3, fs3) = snd (buf_flush (io_device io) (l1, fs2));
                    (n, fs4) = fs_open_append (al_base_path l1) fs3
                in (True, l3\<lparr>al_file := n, al_buffer := [], al_current_date := today, al_last_hash := None\<rparr>, fs4))"

definition al_log :: "codec \<Rightarrow> (int \<Rightarrow> string) \<Rightarrow> audit_io \<Rightarrow> timestamp \<Rightarrow> audit_event \<Rightarrow> log_state \<Rightarrow> log_state" where
  "al_log c day_text io now event s =
     (let e1 = event\<lparr>ae_seq := al_sequence (fst s), ae_timestamp := now\<rparr>;
          s0 = ((fst s)\<lparr>al_sequence := al_sequence (fst s) + 1\<rparr>, snd s);
          today = audit_day now;
          s1 = (if today \<noteq> al_current_date (fst s0) then snd (rotate_locked day_text io today s0) else s0);
          row = row_of c (e1\<lparr>ae_prev_hash := al_last_hash (fst s1)\<rparr>);
          s2 = ((fst s1)\<lparr>al_last_hash := Some (co_hash c row)\<rparr>, snd s1);
          s3 = snd (buf_writeln (io_device io) row s2)
      in if is_critical (ae_event_type event) then snd (buf_flush (io_device io) s3) else s3)"

definition al_flush :: "bool \<Rightarrow> log_state \<Rightarrow> log_state" where
  "al_flush device s = snd (buf_flush device s)"

subsection \<open>The events of the convenience methods\<close>

definition plain_event :: "audit_event_type \<Rightarrow> string \<Rightarrow> audit_event" where
  "plain_event ty symbol =
     \<lparr>ae_seq = 0, ae_timestamp = 0, ae_event_type = ty, ae_symbol = symbol, ae_client_id = None, ae_order_id = None,
      ae_side = None, ae_price = None, ae_qty = None, ae_detail = None, ae_prev_hash = None\<rparr>"

definition order_placed :: "string \<Rightarrow> order_id \<Rightarrow> side \<Rightarrow> price \<Rightarrow> qty \<Rightarrow> audit_event" where
  "order_placed symbol i s p q =
     (plain_event OrderPlaced symbol)\<lparr>ae_order_id := Some i, ae_side := Some s, ae_price := Some p, ae_qty := Some q\<rparr>"

definition order_filled :: "string \<Rightarrow> order_id \<Rightarrow> side \<Rightarrow> price \<Rightarrow> qty \<Rightarrow> bool \<Rightarrow> audit_event" where
  "order_filled symbol i s p q is_maker =
     (plain_event OrderFilled symbol)\<lparr>ae_order_id := Some i, ae_side := Some s, ae_price := Some p, ae_qty := Some q,
        ae_detail := Some (if is_maker then ''maker'' else ''taker'')\<rparr>"

definition order_cancelled :: "string \<Rightarrow> order_id \<Rightarrow> audit_event" where
  "order_cancelled symbol i = (plain_event OrderCancelled symbol)\<lparr>ae_order_id := Some i\<rparr>"

definition risk_event :: "string \<Rightarrow> audit_event_type \<Rightarrow> string \<Rightarrow> audit_event" where
  "risk_event symbol ty detail = (plain_event ty symbol)\<lparr>ae_detail := Some detail\<rparr>"

definition auth_event :: "audit_event_type \<Rightarrow> string \<Rightarrow> audit_event" where
  "auth_event ty detail = risk_event [] ty detail"

text \<open>\<open>sd\<close> prints a decimal.\<close>

definition order_to_trade_ratio_snapshot ::
  "(decimal \<Rightarrow> string) \<Rightarrow> string \<Rightarrow> decimal \<Rightarrow> u64 \<Rightarrow> u64 \<Rightarrow> u64 \<Rightarrow> u64 \<Rightarrow> audit_event" where
  "order_to_trade_ratio_snapshot sd symbol ratio adds updates cancels trades =
     risk_event symbol OrderToTradeRatioSnapshot
       (''ratio='' @ sd ratio @ '' adds='' @ show_nat (unat adds) @ '' updates='' @ show_nat (unat updates)
        @ '' cancels='' @ show_nat (unat cancels) @ '' trades='' @ show_nat (unat trades))"

definition strategy_graph_deployed :: "string \<Rightarrow> string \<Rightarrow> string \<Rightarrow> string \<Rightarrow> nat \<Rightarrow> audit_event" where
  "strategy_graph_deployed graph hash scope_key operator recipients =
     risk_event [] StrategyGraphDeployed
       (''graph='' @ graph @ '' hash='' @ hash @ '' scope='' @ scope_key @ '' operator='' @ operator
        @ '' recipients='' @ show_nat recipients)"

definition strategy_graph_rolled_back :: "string \<Rightarrow> string \<Rightarrow> string \<Rightarrow> string \<Rightarrow> audit_event" where
  "strategy_graph_rolled_back graph from_hash to_hash operator =
     risk_event [] StrategyGraphRolledBack
       (''graph='' @ graph @ '' from_hash='' @ from_hash @ '' to_hash='' @ to_hash @ '' operator='' @ operator)"

definition strategy_graph_node_patched :: "string \<Rightarrow> string \<Rightarrow> string \<Rightarrow> string \<Rightarrow> string \<Rightarrow> audit_event" where
  "strategy_graph_node_patched graph from_hash to_hash node_id operator =
     risk_event [] StrategyGraphNodePatched
       (''graph='' @ graph @ '' from_hash='' @ from_hash @ '' to_hash='' @ to_hash @ '' node_id='' @ node_id
        @ '' operator='' @ operator)"

fun comma_join :: "string list \<Rightarrow> string" where
  "comma_join [] = []"
| "comma_join [x] = x"
| "comma_join (x # xs) = x @ '','' @ comma_join xs"

definition strategy_graph_restricted_deploy_acked :: "string \<Rightarrow> string \<Rightarrow> string \<Rightarrow> string list \<Rightarrow> audit_event" where
  "strategy_graph_restricted_deploy_acked graph hash operator restricted_nodes =
     risk_event [] StrategyGraphRestrictedDeployAcked
       (''graph='' @ graph @ '' hash='' @ hash @ '' operator='' @ operator @ '' restricted_nodes='' @ comma_join restricted_nodes)"

definition strategy_graph_deploy_rejected :: "string \<Rightarrow> string \<Rightarrow> string \<Rightarrow> audit_event" where
  "strategy_graph_deploy_rejected graph reason operator =
     risk_event [] StrategyGraphDeployRejected (''graph='' @ graph @ '' reason='' @ reason @ '' operator='' @ operator)"

definition strategy_graph_sink_fired :: "string \<Rightarrow> string \<Rightarrow> string \<Rightarrow> audit_event" where
  "strategy_graph_sink_fired symbol action hash =
     risk_event symbol StrategyGraphSinkFired (''action='' @ action @ '' hash='' @ hash)"

definition surveillance_alert :: "(decimal \<Rightarrow> string) \<Rightarrow> string \<Rightarrow> string \<Rightarrow> decimal \<Rightarrow> string \<Rightarrow> audit_event" where
  "surveillance_alert sd symbol pattern score detail_extra =
     risk_event symbol SurveillanceAlert (''pattern='' @ pattern @ '' score='' @ sd score @ '' '' @ detail_extra)"

subsection \<open>Verification\<close>

datatype chain_verify_error = MalformedRow nat | ChainBroken nat "string option" "string option"

record chain_verify_report =
  cr_rows_checked :: nat
  cr_last_hash :: "string option"

fun verify_rows ::
  "codec \<Rightarrow> nat \<Rightarrow> nat \<Rightarrow> string option \<Rightarrow> string list \<Rightarrow> chain_verify_error + chain_verify_report" where
  "verify_rows c row rows prev [] = Inr \<lparr>cr_rows_checked = rows, cr_last_hash = prev\<rparr>"
| "verify_rows c row rows prev (line # ls) =
     (if blank_line line then verify_rows c (row + 1) rows prev ls
      else case event_of_row c line of
             None \<Rightarrow> Inl (MalformedRow row)
           | Some e \<Rightarrow>
               if ae_prev_hash e \<noteq> prev then Inl (ChainBroken row prev (ae_prev_hash e))
               else verify_rows c (row + 1) (rows + 1) (Some (co_hash c line)) ls)"

definition verify_chain :: "codec \<Rightarrow> file_path \<Rightarrow> file_system \<Rightarrow> chain_verify_error + chain_verify_report" where
  "verify_chain c p fs =
     (case fs_read p fs of
        None \<Rightarrow> Inr \<lparr>cr_rows_checked = 0, cr_last_hash = None\<rparr>
      | Some content \<Rightarrow> verify_rows c 1 0 None (str_lines content))"

subsection \<open>Reading back\<close>

definition read_audit_range :: "codec \<Rightarrow> timestamp \<Rightarrow> timestamp \<Rightarrow> file_path \<Rightarrow> file_system \<Rightarrow> audit_event list option" where
  "read_audit_range c from until p fs =
     map_option (\<lambda>content. filter (\<lambda>e. from \<le> ae_timestamp e \<and> ae_timestamp e \<le> until)
                             (List.map_filter (event_of_row c) (str_lines content)))
       (fs_read p fs)"

definition read_audit_filtered ::
  "codec \<Rightarrow> timestamp \<Rightarrow> timestamp \<Rightarrow> audit_event_type list option \<Rightarrow> string option \<Rightarrow> file_path \<Rightarrow> file_system
    \<Rightarrow> audit_event list option" where
  "read_audit_filtered c from until types symbol p fs =
     map_option (filter (\<lambda>e. (case types of None \<Rightarrow> True | Some ts \<Rightarrow> ae_event_type e \<in> set ts) \<and>
                             (case symbol of None \<Rightarrow> True | Some s \<Rightarrow> ae_symbol e = s)))
       (read_audit_range c from until p fs)"

record signed_audit_export =
  se_from :: timestamp
  se_to :: timestamp
  se_event_count :: nat
  se_events :: "audit_event list"
  se_signature :: string

definition export_signed ::
  "codec \<Rightarrow> (string \<Rightarrow> string \<Rightarrow> string) \<Rightarrow> audit_event list \<Rightarrow> timestamp \<Rightarrow> timestamp \<Rightarrow> string \<Rightarrow> signed_audit_export" where
  "export_signed c hmac events from until secret =
     \<lparr>se_from = from, se_to = until, se_event_count = length events, se_events = events,
      se_signature = hmac secret (co_print c (JArray (map (event_json c) events)))\<rparr>"


subsection \<open>What is written is read\<close>

lemma event_labels:
  "map event_label event_types =
     [''order_placed'', ''order_cancelled'', ''order_amended'', ''order_filled'', ''order_rejected'',
      ''circuit_breaker_tripped'', ''kill_switch_escalated'', ''kill_switch_reset'',
      ''inventory_limit_hit'', ''exchange_connected'', ''exchange_disconnected'',
      ''exchange_reconnected'', ''book_resync'', ''engine_started'', ''engine_shutdown'',
      ''config_loaded'', ''checkpoint_saved'', ''balance_reconciled'', ''sla_violation'',
      ''strategy_quote_refresh'', ''regime_change'', ''order_to_trade_ratio_snapshot'',
      ''inventory_drift_detected'', ''protections_locked'', ''protections_cleared'',
      ''xemm_hedge_rejected'', ''pair_dispatch_entered'', ''pair_dispatch_exited'',
      ''pair_taker_rejected'', ''pair_break'', ''cross_venue_basis_entered'',
      ''cross_venue_basis_exited'', ''pair_lifecycle_listed'', ''pair_lifecycle_delisted'',
      ''pair_lifecycle_halted'', ''pair_lifecycle_resumed'', ''pair_lifecycle_tick_lot_changed'',
      ''pair_lifecycle_min_notional_changed'', ''hedge_basket_recommended'',
      ''var_guard_throttle_applied'', ''route_decision_emitted'', ''listing_entered'',
      ''listing_entry_rejected'', ''cointegration_screened'', ''route_dispatched'', ''stat_arb_entered'',
      ''stat_arb_exited'', ''ofi_feature_snapshot'', ''as_spread_widened'', ''lead_lag_triggered'',
      ''news_retreat_activated'', ''news_retreat_expired'', ''strategy_graph_deployed'',
      ''strategy_graph_rolled_back'', ''strategy_graph_deploy_rejected'',
      ''strategy_graph_node_patched'', ''strategy_graph_restricted_deploy_acked'',
      ''strategy_graph_sink_fired'', ''surveillance_alert'', ''listing_discovered'', ''listing_removed'',
      ''loan_created'', ''loan_updated'', ''loan_return_scheduled'', ''loan_return_completed'',
      ''loan_utilization_alert'', ''loan_status_changed'', ''withdraw_requested'',
      ''withdraw_completed'', ''internal_transfer_requested'', ''internal_transfer_completed'',
      ''auto_rebalance_executed'', ''report_generated'', ''login_succeeded'', ''login_failed'',
      ''logout_succeeded'', ''password_reset_issued'', ''password_reset_completed'', ''funding_accrued'']"
  by (simp add: event_types_def event_label_def snake_case_def is_upper_def lower_def code_of_def char_of_def bit_0)

lemma event_labels_distinct: "distinct (map event_label event_types)"
  unfolding event_labels by code_simp

lemma all_event_types: "t \<in> set event_types"
  by (cases t) (simp_all add: event_types_def)

lemma find_key:
  assumes "distinct (map f xs)" and "x \<in> set xs"
  shows "List.find (\<lambda>y. f y = f x) xs = Some x"
  using assms by (induction xs) (auto simp: image_iff)

lemma event_of_event_label [simp]: "event_of_label (event_label t) = Some t"
  unfolding event_of_label_def by (rule find_key [OF event_labels_distinct all_event_types])

lemma side_of_side_label [simp]: "side_of_label (side_label s) = Some s"
  by (cases s) (simp_all add: side_of_label_def)


text \<open>What the types of the source give: texts are UTF-8, decimals, times and identifiers in range.\<close>

definition event_ok :: "audit_event \<Rightarrow> bool" where
  "event_ok e \<longleftrightarrow> is_time (ae_timestamp e) \<and> utf8_valid (ae_symbol e)
     \<and> pred_option utf8_valid (ae_client_id e) \<and> pred_option is_uuid (ae_order_id e)
     \<and> pred_option is_decimal (ae_price e) \<and> pred_option is_decimal (ae_qty e)
     \<and> pred_option utf8_valid (ae_detail e) \<and> pred_option utf8_valid (ae_prev_hash e)"

lemma event_json_read:
  assumes "codec_ok c" and "event_ok e"
  shows "event_of_json c (event_json c e) = Some e"
proof -
  define es where "es = [(''seq'', JNumber (PosInt (ae_seq e))), (''timestamp'', JString (co_time c (ae_timestamp e))),
         (''event_type'', JString (event_label (ae_event_type e))), (''symbol'', JString (ae_symbol e))]
        @ entry_opt ''client_id'' JString (ae_client_id e)
        @ entry_opt ''order_id'' (\<lambda>u. JString (co_uuid c u)) (ae_order_id e)
        @ entry_opt ''side'' (\<lambda>s. JString (side_label s)) (ae_side e)
        @ entry_opt ''price'' (\<lambda>d. JString (co_decimal c d)) (ae_price e)
        @ entry_opt ''qty'' (\<lambda>d. JString (co_decimal c d)) (ae_qty e)
        @ entry_opt ''detail'' JString (ae_detail e)
        @ entry_opt ''prev_hash'' JString (ae_prev_hash e)"
  have j: "event_json c e = JObject es" by (simp add: event_json_def es_def)
  have r:
    "required_field json_as_u64 ''seq'' (JObject es) = Some (ae_seq e)"
    "required_field (read_via (co_read_time c)) ''timestamp'' (JObject es) = Some (ae_timestamp e)"
    "required_field (read_via event_of_label) ''event_type'' (JObject es) = Some (ae_event_type e)"
    "required_field as_str ''symbol'' (JObject es) = Some (ae_symbol e)"
    using assms by (simp_all add: required_field_def json_field_def es_def read_via_def codec_ok_def event_ok_def)
  have o:
    "optional as_str ''client_id'' (JObject es) = Some (ae_client_id e)"
    "optional (read_via (co_read_uuid c)) ''order_id'' (JObject es) = Some (ae_order_id e)"
    "optional (read_via side_of_label) ''side'' (JObject es) = Some (ae_side e)"
    "optional (co_read_decimal c) ''price'' (JObject es) = Some (ae_price e)"
    "optional (co_read_decimal c) ''qty'' (JObject es) = Some (ae_qty e)"
    "optional as_str ''detail'' (JObject es) = Some (ae_detail e)"
    "optional as_str ''prev_hash'' (JObject es) = Some (ae_prev_hash e)"
    using assms
    by (auto intro!: optional_opt [where wr = JString] optional_opt [where wr = "\<lambda>u. JString (co_uuid c u)"]
          optional_opt [where wr = "\<lambda>s. JString (side_label s)"] optional_opt [where wr = "\<lambda>d. JString (co_decimal c d)"]
          simp: es_def read_via_def codec_ok_def event_ok_def)
  show ?thesis unfolding j event_of_json_def r o by simp
qed

lemma event_label_utf8: "utf8_valid (event_label t)"
proof -
  have "list_all utf8_valid (map event_label event_types)" unfolding event_labels by code_simp
  then show ?thesis using all_event_types [of t] by (auto simp: list_all_iff)
qed

lemma writable_entry_opt:
  "utf8_valid k \<Longrightarrow> (\<And>x. v = Some x \<Longrightarrow> utf8_valid (wr x)) \<Longrightarrow>
   list_all (\<lambda>e. utf8_valid (fst e) \<and> plain (snd e)) (entry_opt k (\<lambda>x. JString (wr x)) v)"
  by (auto simp: entry_opt_def split: option.splits)

lemma flat_entry_opt: "list_all (\<lambda>e. nested n (snd e)) (entry_opt k (\<lambda>x. JString (wr x)) v)"
  by (auto simp: entry_opt_def split: option.splits)

lemma event_keys_utf8:
  "list_all utf8_valid [''seq'', ''timestamp'', ''event_type'', ''symbol'', ''client_id'', ''order_id'', ''side'', ''price'',
     ''qty'', ''detail'', ''prev_hash'', side_label Buy, side_label Sell]"
  by code_simp

lemma writable_event_json:
  assumes "codec_ok c" and "event_ok e"
  shows "writable (event_json c e)"
proof -
  have c: "utf8_valid (co_decimal c d)" "utf8_valid (co_time c t)" "utf8_valid (co_uuid c u)" for d t u
    using assms(1) by (simp_all add: codec_ok_def)
  have side: "utf8_valid (side_label x)" for x using event_keys_utf8 by (cases x) simp_all
  note k = event_keys_utf8 [unfolded list.pred_inject]
  have "plain (event_json c e)"
    using assms(2) k event_label_utf8 c side
      writable_entry_opt [where wr = "\<lambda>x. x"]
    unfolding event_json_def event_ok_def
    by (auto simp: option.pred_set intro!: writable_entry_opt writable_entry_opt [where wr = "\<lambda>x. x"])
  moreover have "nested 127 (event_json c e)"
    using flat_entry_opt [where wr = "\<lambda>x. x"] by (simp add: event_json_def flat_entry_opt)
  ultimately show ?thesis by (simp add: writable_def)
qed

lemma row_read:
  assumes "codec_ok c" and "event_ok e"
  shows "one_line (row_of c e)" and "event_of_row c (row_of c e) = Some e"
  using assms writable_event_json [OF assms] event_json_read [OF assms]
  by (simp_all add: codec_ok_def row_of_def event_of_row_def)

subsection \<open>Chains\<close>

fun chained :: "codec \<Rightarrow> string option \<Rightarrow> string list \<Rightarrow> string option option" where
  "chained c p [] = Some p"
| "chained c p (r # rs) =
     (case event_of_row c r of None \<Rightarrow> None
      | Some e \<Rightarrow> if ae_prev_hash e = p \<and> one_line r then chained c (Some (co_hash c r)) rs else None)"

lemma chained_lines: "chained c p rs = Some h \<Longrightarrow> r \<in> set rs \<Longrightarrow> one_line r"
  by (induction c p rs rule: chained.induct) (auto split: option.splits if_splits)

lemma chained_end: "chained c p rs = Some h \<Longrightarrow> h = (if rs = [] then p else Some (co_hash c (last rs)))"
  by (induction c p rs rule: chained.induct) (auto split: option.splits if_splits)

lemma chained_append: "chained c p (rs @ ss) = Option.bind (chained c p rs) (\<lambda>q. chained c q ss)"
  by (induction c p rs rule: chained.induct) (auto split: option.splits)

lemma verify_chained:
  "chained c p rs = Some h \<Longrightarrow> verify_rows c i n p (rs @ ls) = verify_rows c (i + length rs) (n + length rs) h ls"
proof (induction rs arbitrary: p i n)
  case (Cons r rs)
  then obtain e where "event_of_row c r = Some e" "ae_prev_hash e = p" "one_line r" "chained c (Some (co_hash c r)) rs = Some h"
    by (auto split: option.splits if_splits)
  then show ?case using Cons.IH [of "Some (co_hash c r)" "i + 1" "n + 1"] by (simp add: one_line_not_blank)
qed simp

definition holds_chain :: "codec \<Rightarrow> string \<Rightarrow> string option \<Rightarrow> bool" where
  "holds_chain c content h \<longleftrightarrow> (\<exists>rs. content = text_of rs \<and> chained c None rs = Some h)"

lemma holds_chain_new: "holds_chain c [] None"
  by (auto simp: holds_chain_def text_of_def intro!: exI [of _ "[]"])

lemma holds_chain_digest:
  assumes "codec_ok c" and "holds_chain c content h"
  shows "pred_option utf8_valid h"
proof -
  obtain rs where rs: "chained c None rs = Some h" using assms(2) by (auto simp: holds_chain_def)
  have "utf8_valid (co_hash c (last rs))" if "rs \<noteq> []"
    using chained_lines [OF rs, of "last rs"] that assms(1) by (simp add: codec_ok_def one_line_def)
  then show ?thesis using chained_end [OF rs] by simp
qed

lemma holds_chain_row:
  assumes "codec_ok c" and "event_ok e" and "holds_chain c content h"
  shows "holds_chain c (content @ row_of c (e\<lparr>ae_prev_hash := h\<rparr>) @ [CHR 0x0A])
           (Some (co_hash c (row_of c (e\<lparr>ae_prev_hash := h\<rparr>))))"
proof -
  obtain rs where rs: "content = text_of rs" "chained c None rs = Some h" using assms(3) by (auto simp: holds_chain_def)
  let ?r = "row_of c (e\<lparr>ae_prev_hash := h\<rparr>)"
  have "event_ok (e\<lparr>ae_prev_hash := h\<rparr>)" using assms(2) holds_chain_digest [OF assms(1,3)] by (simp add: event_ok_def)
  then have "chained c None (rs @ [?r]) = Some (Some (co_hash c ?r))"
    using row_read [OF assms(1), of "e\<lparr>ae_prev_hash := h\<rparr>"] rs(2) by (simp add: chained_append)
  then show ?thesis unfolding holds_chain_def rs(1) by (intro exI [of _ "rs @ [?r]"]) (simp add: text_of_def)
qed

lemma holds_chain_verify:
  assumes "holds_chain c (fs_data fs n) h" and "hm_get (fs_names fs) p = Some n"
  shows "\<exists>k. verify_chain c p fs = Inr \<lparr>cr_rows_checked = k, cr_last_hash = h\<rparr>"
    and "seed_last_hash_from_file c p fs = h"
proof -
  obtain rs where rs: "fs_data fs n = text_of rs" "chained c None rs = Some h" using assms(1) by (auto simp: holds_chain_def)
  have l: "\<And>r. r \<in> set rs \<Longrightarrow> one_line r" using chained_lines [OF rs(2)] .
  then have rd: "fs_read p fs = Some (text_of rs)" "str_lines (text_of rs) = rs"
    by (simp_all add: fs_read_def assms(2) rs(1) text_of_utf8 str_lines_text)
  show "\<exists>k. verify_chain c p fs = Inr \<lparr>cr_rows_checked = k, cr_last_hash = h\<rparr>"
    using verify_chained [OF rs(2), of 1 0 "[]"] by (simp add: verify_chain_def rd)
  have "List.find (\<lambda>l. \<not> blank_line l) (rev rs) = (if rs = [] then None else Some (last rs))"
    using l by (cases rs rule: rev_cases) (auto simp: one_line_not_blank)
  then show "seed_last_hash_from_file c p fs = h"
    using chained_end [OF rs(2)] by (simp add: seed_last_hash_from_file_def rd)
qed


subsection \<open>Every file the log writes verifies\<close>

definition wrote :: "string \<Rightarrow> log_state \<Rightarrow> log_state \<Rightarrow> bool" where
  "wrote t s s' \<longleftrightarrow>
     fst s' = (fst s)\<lparr>al_buffer := al_buffer (fst s')\<rparr> \<and> fs_names (snd s') = fs_names (snd s) \<and>
     fs_next (snd s') = fs_next (snd s) \<and> (\<forall>n. n \<noteq> al_file (fst s) \<longrightarrow> fs_data (snd s') n = fs_data (snd s) n) \<and>
     fs_data (snd s') (al_file (fst s)) @ al_buffer (fst s') = fs_data (snd s) (al_file (fst s)) @ al_buffer (fst s) @ t"

lemma wrote_fields:
  assumes "wrote t s s'"
  shows "al_file (fst s') = al_file (fst s)" "al_base_path (fst s') = al_base_path (fst s)"
    "al_current_date (fst s') = al_current_date (fst s)" "al_last_hash (fst s') = al_last_hash (fst s)"
    "al_sequence (fst s') = al_sequence (fst s)"
proof -
  have "fst s' = (fst s)\<lparr>al_buffer := al_buffer (fst s')\<rparr>" using assms by (simp add: wrote_def)
  then show "al_file (fst s') = al_file (fst s)" "al_base_path (fst s') = al_base_path (fst s)"
    "al_current_date (fst s') = al_current_date (fst s)" "al_last_hash (fst s') = al_last_hash (fst s)"
    "al_sequence (fst s') = al_sequence (fst s)"
    by (metis audit_log.select_convs audit_log.surjective audit_log.update_convs(2))+
qed

lemma wrote_trans: "wrote t s s' \<Longrightarrow> wrote u s' s'' \<Longrightarrow> wrote (t @ u) s s''"
proof -
  assume a: "wrote t s s'" "wrote u s' s''"
  have "fst s'' = (fst s')\<lparr>al_buffer := al_buffer (fst s'')\<rparr>" using a(2) by (simp add: wrote_def)
  also have "\<dots> = ((fst s)\<lparr>al_buffer := al_buffer (fst s')\<rparr>)\<lparr>al_buffer := al_buffer (fst s'')\<rparr>"
    using a(1) by (metis wrote_def)
  finally show ?thesis using a wrote_fields(1) [OF a(1)] by (simp add: wrote_def)
qed

lemma flush_wrote: "\<exists>s'. buf_flush True s = (True, s') \<and> wrote [] s s' \<and> al_buffer (fst s') = []"
  by (cases s) (auto simp: buf_flush_def wrote_def fs_append_def)

lemma push_wrote: "wrote t s (buf_push t s)"
  by (cases s) (auto simp: buf_push_def wrote_def)

lemma write_wrote: "fst (buf_write True t s) \<and> wrote t s (snd (buf_write True t s))"
proof (cases "length (al_buffer (fst s)) + length t < al_capacity (fst s)")
  case True
  then show ?thesis by (simp add: buf_write_def push_wrote)
next
  case False
  obtain s1 where s1: "buf_flush True s = (True, s1)" "wrote [] s s1" "al_buffer (fst s1) = []" using flush_wrote by blast
  have direct: "wrote t s1 (fst s1, fs_append (al_file (fst s1)) t (snd s1))" if "al_buffer (fst s1) = []" for s1
    using that by (simp add: wrote_def fs_append_def)
  show ?thesis
  proof (cases "al_capacity (fst s) < length (al_buffer (fst s)) + length t")
    case True
    then show ?thesis using False s1 wrote_trans [OF s1(2) direct [OF s1(3)]] wrote_trans [OF s1(2) push_wrote]
      by (simp add: buf_write_def)
  next
    case nf: False
    then have "al_capacity (fst s) \<le> length t \<Longrightarrow> al_buffer (fst s) = []" using False by (cases "al_buffer (fst s)") auto
    then show ?thesis using nf False direct [of s] push_wrote [of t s] by (simp add: buf_write_def)
  qed
qed

lemma writeln_wrote: "\<exists>s'. buf_writeln True t s = (True, s') \<and> wrote (t @ [CHR 0x0A]) s s'"
proof -
  obtain s1 where s1: "buf_write True t s = (True, s1)" "wrote t s s1" using write_wrote [of t s] by (metis prod.collapse)
  obtain s2 where s2: "buf_write True [CHR 0x0A] s1 = (True, s2)" "wrote [CHR 0x0A] s1 s2"
    using write_wrote [of "[CHR 0x0A]" s1] by (metis prod.collapse)
  show ?thesis using s1 s2 wrote_trans [OF s1(2) s2(2)] by (simp add: buf_writeln_def)
qed

definition fs_ok :: "codec \<Rightarrow> file_system \<Rightarrow> bool" where
  "fs_ok c fs \<longleftrightarrow>
     (\<forall>p n. hm_get (fs_names fs) p = Some n \<longrightarrow> n < fs_next fs) \<and> (\<forall>n<fs_next fs. \<exists>h. holds_chain c (fs_data fs n) h)"

definition log_ok :: "codec \<Rightarrow> log_state \<Rightarrow> bool" where
  "log_ok c s \<longleftrightarrow>
     al_file (fst s) < fs_next (snd s) \<and> (\<forall>p n. hm_get (fs_names (snd s)) p = Some n \<longrightarrow> n < fs_next (snd s)) \<and>
     (\<forall>n<fs_next (snd s). n \<noteq> al_file (fst s) \<longrightarrow> (\<exists>h. holds_chain c (fs_data (snd s) n) h)) \<and>
     holds_chain c (fs_data (snd s) (al_file (fst s)) @ al_buffer (fst s)) (al_last_hash (fst s))"

lemma log_ok_wrote:
  assumes "log_ok c s" and "wrote t s s'"
    and "holds_chain c (fs_data (snd s) (al_file (fst s)) @ al_buffer (fst s) @ t) h"
  shows "log_ok c ((fst s')\<lparr>al_last_hash := h\<rparr>, snd s')"
  using assms wrote_fields [OF assms(2)] by (auto simp: log_ok_def wrote_def)

lemma log_ok_flush: "log_ok c s \<Longrightarrow> log_ok c (snd (buf_flush True s))"
proof -
  assume ok: "log_ok c s"
  obtain s' where s': "buf_flush True s = (True, s')" "wrote [] s s'" using flush_wrote by blast
  have "log_ok c ((fst s')\<lparr>al_last_hash := al_last_hash (fst s)\<rparr>, snd s')"
    using ok by (intro log_ok_wrote [OF ok s'(2)]) (simp add: log_ok_def)
  then show ?thesis using wrote_fields(4) [OF s'(2)] s'(1) by (simp add: log_ok_def)
qed

lemma flushed_fs_ok: "log_ok c s \<Longrightarrow> al_buffer (fst s) = [] \<Longrightarrow> fs_ok c (snd s)"
  by (auto simp: log_ok_def fs_ok_def)

lemma open_log_ok:
  assumes "fs_ok c fs" and "fs_open_append p fs = (n, fs')"
    and "\<And>m. hm_get (fs_names fs) p = Some m \<Longrightarrow> holds_chain c (fs_data fs m) (al_last_hash l)"
    and "hm_get (fs_names fs) p = None \<Longrightarrow> al_last_hash l = None" and "al_file l = n" "al_buffer l = []"
  shows "log_ok c (l, fs')"
  using assms holds_chain_new [of c]
  by (auto simp: log_ok_def fs_ok_def fs_open_append_def hm_get_def hm_insert_def update_conv' split: option.splits if_splits)
    (metis less_SucI)+

lemma al_new_ok:
  assumes "fs_ok c fs"
  shows "log_ok c (al_new c cap p now fs)"
proof -
  obtain n fs' where o: "fs_open_append p fs = (n, fs')" by (rule prod.exhaust)
  have "holds_chain c (fs_data fs m) (seed_last_hash_from_file c p fs)" if "hm_get (fs_names fs) p = Some m" for m
  proof -
    obtain h where "holds_chain c (fs_data fs m) h" using assms \<open>hm_get (fs_names fs) p = Some m\<close> unfolding fs_ok_def by blast
    with holds_chain_verify(2) [OF this \<open>hm_get (fs_names fs) p = Some m\<close>] show ?thesis by simp
  qed
  moreover have "seed_last_hash_from_file c p fs = None" if "hm_get (fs_names fs) p = None"
    using that by (simp add: seed_last_hash_from_file_def fs_read_def)
  ultimately show ?thesis unfolding al_new_def by (simp add: o open_log_ok [OF assms o])
qed

lemma rename_fs_ok: "fs_ok c fs \<Longrightarrow> fs_ok c (fs_rename a b fs)"
  by (auto simp: fs_ok_def fs_rename_def hm_get_def hm_insert_def hm_remove_def update_conv' delete_conv'
      split: option.splits if_splits)


lemma rotate_log_ok:
  assumes "log_ok c s" and "io_device io"
  shows "log_ok c (snd (rotate_locked day_text io today s))"
    and "al_sequence (fst (snd (rotate_locked day_text io today s))) = al_sequence (fst s)"
proof -
  obtain s1 where s1: "buf_flush True s = (True, s1)" "wrote [] s s1" "al_buffer (fst s1) = []" using flush_wrote by blast
  obtain l1 fs1 where l1: "s1 = (l1, fs1)" by (rule prod.exhaust)
  have ok1: "log_ok c (l1, fs1)" using log_ok_flush [OF assms(1)] s1(1) by (simp add: l1)
  have fsok: "fs_ok c fs1" using flushed_fs_ok [OF ok1] s1(3) by (simp add: l1)
  have buf: "al_buffer l1 = []" using s1(3) by (simp add: l1)
  have noflush: "buf_flush True (l1, fs) = (True, l1, fs)" for fs by (simp add: buf_flush_def buf)
  let ?arch = "audit_archive_name day_text (al_base_path l1) (al_current_date l1)"
  define fs2 where "fs2 = (if hm_contains (fs_names fs1) (al_base_path l1) then fs_rename (al_base_path l1) ?arch fs1 else fs1)"
  have fs2: "fs_ok c fs2" using fsok rename_fs_ok by (simp add: fs2_def)
  have data2: "fs_data fs2 = fs_data fs1" "fs_next fs2 = fs_next fs1"
    by (simp_all add: fs2_def fs_rename_def split: option.splits)
  have ok2: "log_ok c (l1, fs2)" using ok1 fs2 data2 by (auto simp: log_ok_def fs_ok_def)
  obtain n fs4 where o: "fs_open_append (al_base_path l1) fs2 = (n, fs4)" by (rule prod.exhaust)
  have "?arch \<noteq> al_base_path l1"
    by (auto simp: audit_archive_name_def Let_def dest!: arg_cong [of _ _ fp_stem] split: option.splits)
  then have gone: "hm_get (fs_names fs2) (al_base_path l1) = None"
    by (auto simp: fs2_def fs_rename_def hm_contains_def hm_get_def hm_insert_def hm_remove_def update_conv' delete_conv'
        split: option.splits)
  define l4 where "l4 = l1\<lparr>al_file := n, al_buffer := [], al_current_date := today, al_last_hash := None\<rparr>"
  have ok4: "log_ok c (l4, fs4)"
    using gone by (intro open_log_ok [OF fs2 o]) (simp_all add: l4_def)
  have "snd (rotate_locked day_text io today s) \<in> {(l1, fs1), (l1, fs2), (l4, fs4)}"
    unfolding rotate_locked_def eqTrueI [OF assms(2)] s1(1) l1 Let_def snd_conv fst_conv fs2_def [symmetric] noflush o prod.case
    by (simp add: l4_def)
  then show "log_ok c (snd (rotate_locked day_text io today s))"
    "al_sequence (fst (snd (rotate_locked day_text io today s))) = al_sequence (fst s)"
    using ok1 ok2 ok4 wrote_fields(5) [OF s1(2)] by (auto simp: l1 l4_def)
qed

lemma al_log_effect:
  fixes now :: timestamp and day_text :: "int \<Rightarrow> string"
  assumes "codec_ok c" and "event_ok event" and "log_ok c s" and "io_device io" and time: "is_time now"
  defines "s' \<equiv> al_log c day_text io now event s"
  shows "log_ok c s'"
    and "is_critical (ae_event_type event) \<Longrightarrow> al_buffer (fst s') = []"
    and "\<exists>pre prev. fs_data (snd s') (al_file (fst s')) @ al_buffer (fst s') =
      pre @ row_of c (event\<lparr>ae_seq := al_sequence (fst s), ae_timestamp := now, ae_prev_hash := prev\<rparr>) @ [CHR 0x0A]"
proof -
  define s0 where "s0 = ((fst s)\<lparr>al_sequence := al_sequence (fst s) + 1\<rparr>, snd s)"
  define s1 where "s1 = (if audit_day now \<noteq> al_current_date (fst s0) then snd (rotate_locked day_text io (audit_day now) s0) else s0)"
  define e1 where "e1 = event\<lparr>ae_seq := al_sequence (fst s), ae_timestamp := now\<rparr>"
  define row where "row = row_of c (e1\<lparr>ae_prev_hash := al_last_hash (fst s1)\<rparr>)"
  define s2 where "s2 = ((fst s1)\<lparr>al_last_hash := Some (co_hash c row)\<rparr>, snd s1)"
  have "log_ok c s0" using assms(3) by (simp add: s0_def log_ok_def)
  then have ok1: "log_ok c s1" using rotate_log_ok(1) [OF _ assms(4)] by (simp add: s1_def)
  have chain: "holds_chain c (fs_data (snd s1) (al_file (fst s1)) @ al_buffer (fst s1)) (al_last_hash (fst s1))"
    using ok1 by (simp add: log_ok_def)
  have "event_ok e1" using assms(2) time by (simp add: e1_def event_ok_def)
  from holds_chain_row [OF assms(1) this chain]
  have chain': "holds_chain c (fs_data (snd s1) (al_file (fst s1)) @ al_buffer (fst s1) @ row @ [CHR 0x0A]) (Some (co_hash c row))"
    by (simp add: row_def)
  obtain s3 where s3: "buf_writeln True row s2 = (True, s3)" "wrote (row @ [CHR 0x0A]) s2 s3" using writeln_wrote by blast
  have w: "wrote (row @ [CHR 0x0A]) s1 ((fst s3)\<lparr>al_last_hash := al_last_hash (fst s1)\<rparr>, snd s3)"
  proof -
    obtain b where b: "fst s3 = (fst s1)\<lparr>al_last_hash := Some (co_hash c row), al_buffer := b\<rparr>"
      using s3(2) by (auto simp: wrote_def s2_def)
    have "(fst s3)\<lparr>al_last_hash := al_last_hash (fst s1)\<rparr> = (fst s1)\<lparr>al_buffer := b\<rparr>"
      unfolding b by (cases "fst s1") simp
    then show ?thesis using s3(2) b by (simp add: wrote_def s2_def)
  qed
  have "log_ok c ((fst s3)\<lparr>al_last_hash := Some (co_hash c row)\<rparr>, snd s3)"
    using log_ok_wrote [OF ok1 w chain'] by simp
  then have ok3: "log_ok c s3" using wrote_fields(4) [OF s3(2)] by (simp add: s2_def log_ok_def)
  have s': "s' = (if is_critical (ae_event_type event) then snd (buf_flush True s3) else s3)"
    unfolding s'_def al_log_def Let_def eqTrueI [OF assms(4)] s0_def [symmetric] s1_def [symmetric] e1_def [symmetric] row_def [symmetric]
      s2_def [symmetric] s3(1) by simp
  obtain s4 where s4: "buf_flush True s3 = (True, s4)" "wrote [] s3 s4" "al_buffer (fst s4) = []" using flush_wrote by blast
  show "log_ok c s'" using s' ok3 log_ok_flush by simp
  show "is_critical (ae_event_type event) \<Longrightarrow> al_buffer (fst s') = []" using s' s4 by simp
  have "s' = s3 \<or> s' = s4" unfolding s' s4(1) by simp
  then have w': "wrote (row @ [CHR 0x0A]) s2 s'"
    using s3(2) wrote_trans [OF s3(2) s4(2)] unfolding append_Nil2 by blast
  then have "fs_data (snd s') (al_file (fst s')) @ al_buffer (fst s') = (fs_data (snd s2) (al_file (fst s2)) @ al_buffer (fst s2)) @ row @ [CHR 0x0A]"
    unfolding wrote_fields(1) [OF w'] append_assoc using w' by (simp only: wrote_def)
  then show "\<exists>pre prev. fs_data (snd s') (al_file (fst s')) @ al_buffer (fst s') =
      pre @ row_of c (event\<lparr>ae_seq := al_sequence (fst s), ae_timestamp := now, ae_prev_hash := prev\<rparr>) @ [CHR 0x0A]"
    unfolding row_def e1_def by blast
qed

text \<open>What a process does with its log; a restart is orderly, the buffer is emptied when the writer is dropped.\<close>

datatype audit_op = LogOp bool bool timestamp audit_event | FlushOp | ReopenOp timestamp

primrec audit_step :: "codec \<Rightarrow> (int \<Rightarrow> string) \<Rightarrow> audit_op \<Rightarrow> log_state \<Rightarrow> log_state" where
  "audit_step c day_text (LogOp rename open' now event) s =
     al_log c day_text \<lparr>io_rename = rename, io_open = open', io_device = True\<rparr> now event s"
| "audit_step c day_text FlushOp s = al_flush True s"
| "audit_step c day_text (ReopenOp now) s =
     (let (l, fs) = snd (buf_flush True s) in al_new c (al_capacity l) (al_base_path l) now fs)"

lemma audit_step_ok:
  assumes "codec_ok c" and "\<And>r op now e. a = LogOp r op now e \<Longrightarrow> is_time now \<and> event_ok e" and "log_ok c s"
  shows "log_ok c (audit_step c day_text a s)"
proof (cases a)
  case (ReopenOp now)
  obtain l fs where f: "buf_flush True s = (True, l, fs)" "al_buffer l = []" using flush_wrote [of s] by fastforce
  have "log_ok c (l, fs)" using log_ok_flush [OF assms(3)] f(1) by simp
  then have "fs_ok c fs" using flushed_fs_ok [of c "(l, fs)"] f(2) by simp
  then show ?thesis using al_new_ok by (simp add: ReopenOp f(1))
qed (use assms al_log_effect(1) log_ok_flush in \<open>simp_all add: al_flush_def\<close>)

lemma audit_run_ok:
  assumes "codec_ok c" and "\<And>r op now e. LogOp r op now e \<in> set ops \<Longrightarrow> is_time now \<and> event_ok e" and "log_ok c s"
  shows "log_ok c (fold (audit_step c day_text) ops s)"
  using assms(2,3)
proof (induction ops arbitrary: s)
  case (Cons a ops)
  have "log_ok c (audit_step c day_text a s)" using Cons.prems by (intro audit_step_ok [OF assms(1)]) auto
  with Cons.IH [of "audit_step c day_text a s"] Cons.prems(1) show ?case by (metis fold_simps(2) list.set_intros(2))
qed simp

text \<open>
  C34: every file the log writes verifies. Start a log on a file system whose files verify and let
  it record events with texts, decimals, times and identifiers in the range of their types, flush, rotate at midnight, meet renames and openings that fail, and be closed and
  opened again, while the device takes what is written. Once its buffer is empty every file that a name
  points to passes the verification, and for the file being written the verification ends in the
  digest the next event will carry.
\<close>

theorem audit_files_verify:
  assumes "codec_ok c" and "fs_ok c fs" and "\<And>r op t e. LogOp r op t e \<in> set ops \<Longrightarrow> is_time t \<and> event_ok e"
    and "al_flush True (fold (audit_step c day_text) ops (al_new c cap base now fs)) = (l, fs')"
    and "hm_get (fs_names fs') p = Some n"
  shows "\<exists>k h. verify_chain c p fs' = Inr \<lparr>cr_rows_checked = k, cr_last_hash = h\<rparr> \<and> (n = al_file l \<longrightarrow> h = al_last_hash l)"
proof -
  let ?s = "fold (audit_step c day_text) ops (al_new c cap base now fs)"
  have "log_ok c ?s" by (rule audit_run_ok [OF assms(1,3) al_new_ok [OF assms(2)]])
  from log_ok_flush [OF this] have ok: "log_ok c (l, fs')" using assms(4) by (simp add: al_flush_def)
  have buf: "al_buffer l = []" using flush_wrote [of ?s] assms(4) by (auto simp: al_flush_def)
  have "n < fs_next fs'" using ok assms(5) by (auto simp: log_ok_def)
  then obtain h where "holds_chain c (fs_data fs' n) h" "n = al_file l \<longrightarrow> h = al_last_hash l"
    using ok buf by (cases "n = al_file l") (auto simp: log_ok_def)
  with holds_chain_verify(1) [OF this(1) assms(5)] show ?thesis by blast
qed


subsection \<open>What survives a crash\<close>

lemma holds_chain_seed:
  "holds_chain c (fs_data fs n) h \<Longrightarrow> hm_get (fs_names fs) p = Some n \<Longrightarrow> al_last_hash (fst (al_new c cap p t fs)) = h"
  by (simp add: al_new_def holds_chain_verify(2) split: prod.splits)

text \<open>
  A critical event survives. After any history on a device that takes what is written, once a
  critical event has been recorded nothing waits in the buffer: the file ends with the row of the event, so
  a process that dies at that moment loses nothing, and one that opens the file next continues the
  chain behind that row.
\<close>

theorem critical_event_durable:
  assumes "codec_ok c" and "fs_ok c fs" and "\<And>r op t e. LogOp r op t e \<in> set ops \<Longrightarrow> is_time t \<and> event_ok e"
    and "is_time now \<and> event_ok event" and "is_critical (ae_event_type event)" and "io_device io"
    and "fold (audit_step c day_text) ops (al_new c cap base now0 fs) = s"
    and "al_log c day_text io now event s = (l, fs')"
  shows "al_buffer l = [] \<and>
    (\<exists>pre prev. fs_data fs' (al_file l) =
       pre @ row_of c (event\<lparr>ae_seq := al_sequence (fst s), ae_timestamp := now, ae_prev_hash := prev\<rparr>) @ [CHR 0x0A]) \<and>
    (\<forall>p t. hm_get (fs_names fs') p = Some (al_file l) \<longrightarrow> al_last_hash (fst (al_new c cap p t fs')) = al_last_hash l)"
proof -
  have ok: "log_ok c s" unfolding assms(7) [symmetric] by (rule audit_run_ok [OF assms(1,3) al_new_ok [OF assms(2)]])
  note e = al_log_effect [OF assms(1) conjunct2 [OF assms(4)] ok assms(6) conjunct1 [OF assms(4)], of day_text]
  have buf: "al_buffer l = []" using e(2) [OF assms(5)] by (simp add: assms(8))
  have "holds_chain c (fs_data fs' (al_file l)) (al_last_hash l)"
    using e(1) buf by (simp add: assms(8) log_ok_def)
  then have "\<forall>p t. hm_get (fs_names fs') p = Some (al_file l) \<longrightarrow> al_last_hash (fst (al_new c cap p t fs')) = al_last_hash l"
    using holds_chain_seed by blast
  then show ?thesis using e(3) buf by (simp add: assms(8))
qed

lemma same_day_log:
  assumes "audit_day now = al_current_date (fst s)"
  shows "al_log c day_text io now event s =
    (let row = row_of c (event\<lparr>ae_seq := al_sequence (fst s), ae_timestamp := now, ae_prev_hash := al_last_hash (fst s)\<rparr>);
         s3 = snd (buf_writeln (io_device io) row
                ((fst s)\<lparr>al_sequence := al_sequence (fst s) + 1, al_last_hash := Some (co_hash c row)\<rparr>, snd s))
     in if is_critical (ae_event_type event) then snd (buf_flush (io_device io) s3) else s3)"
  using assms by (simp add: al_log_def Let_def)

text \<open>
  C35: a crash can leave a log that no longer verifies. A row and its line feed are two writes. If
  a row fills the buffer exactly, the row goes to the file with the line feed still in the buffer; a
  process that dies there leaves an unfinished line, the next one takes up the chain behind it but writes
  its first row on the same line, and from then on the verification of the file reports a malformed row.
\<close>

theorem torn_row_breaks_chain:
  assumes "codec_ok c" and "is_time now \<and> event_ok e" and "is_time later \<and> event_ok e2" and "log_ok c s" and "io_device io"
    and "hm_get (fs_names (snd s)) base = Some (al_file (fst s))"
    and "audit_day now = al_current_date (fst s)" and "\<not> is_critical (ae_event_type e)" and "audit_day opened = audit_day later"
    and "length (al_buffer (fst s)) + length (row_of c (e\<lparr>ae_seq := al_sequence (fst s), ae_timestamp := now,
           ae_prev_hash := al_last_hash (fst s)\<rparr>)) = al_capacity (fst s)" and "1 < al_capacity (fst s)"
  shows "\<exists>k. verify_chain c base
    (snd (al_flush True (al_log c day_text io later e2 (al_new c cap base opened (snd (al_log c day_text io now e s)))))) = Inl (MalformedRow k)"
proof -
  define row where "row = row_of c (e\<lparr>ae_seq := al_sequence (fst s), ae_timestamp := now, ae_prev_hash := al_last_hash (fst s)\<rparr>)"
  obtain l fs where s: "s = (l, fs)" by (rule prod.exhaust)
  obtain rs where rs: "fs_data fs (al_file l) @ al_buffer l = text_of rs" "chained c None rs = Some (al_last_hash l)"
    using assms(4) by (auto simp: log_ok_def holds_chain_def s)
  have lines: "\<And>r. r \<in> set rs \<Longrightarrow> one_line r" using chained_lines [OF rs(2)] .
  have "pred_option utf8_valid (al_last_hash l)" using holds_chain_digest [OF assms(1)] assms(4) by (auto simp: log_ok_def s)
  then have ok: "event_ok (e\<lparr>ae_seq := al_sequence (fst s), ae_timestamp := now, ae_prev_hash := al_last_hash (fst s)\<rparr>)"
    using assms(2) by (simp add: event_ok_def s)
  have row: "one_line row" using row_read(1) [OF assms(1) ok] by (simp add: row_def)
  then have ne: "row \<noteq> []" by (simp add: one_line_def)
  have len: "length (al_buffer l) + length row = al_capacity l" using assms(10) by (simp add: row_def s)
  define fs1 where "fs1 = snd (al_log c day_text io now e s)"
  have "fs_data fs1 (al_file l) = text_of rs @ row \<and> fs_names fs1 = fs_names fs"
  proof (cases "al_buffer l = []")
    case True
    then have "length row = al_capacity l" using len by simp
    then show ?thesis using True ne rs(1) assms(5,8,11)
      unfolding fs1_def same_day_log [OF assms(7)] row_def [symmetric]
      by (auto simp: s buf_writeln_def buf_write_def buf_push_def buf_flush_def fs_append_def Let_def)
  next
    case False
    then have "0 < length (al_buffer l)" by simp
    then have "length row < al_capacity l" "\<not> al_capacity l \<le> Suc 0" using len assms(11) unfolding s fst_conv by linarith+
    then show ?thesis using False ne rs(1) len assms(5,8,11)
      unfolding fs1_def same_day_log [OF assms(7)] row_def [symmetric]
      by (auto simp: s buf_writeln_def buf_write_def buf_push_def buf_flush_def fs_append_def Let_def)
  qed
  then have d1: "fs_data fs1 (al_file l) = text_of rs @ row" and n1: "hm_get (fs_names fs1) base = Some (al_file l)"
    using assms(6) by (simp_all add: s)
  obtain l2 where l2: "al_new c cap base opened fs1 = (l2, fs1)" "al_file l2 = al_file l" "al_buffer l2 = []" "al_current_date l2 = audit_day opened"
    by (auto simp: al_new_def fs_open_append_def n1)
  define row2 where "row2 = row_of c (e2\<lparr>ae_seq := al_sequence l2, ae_timestamp := later, ae_prev_hash := al_last_hash l2\<rparr>)"
  have torn: "str_lines (text_of rs @ row) = rs @ [row]" by (rule str_lines_torn [OF lines row])
  have "utf8_valid (text_of rs @ row)" using text_of_utf8 [OF lines] row by (intro utf8_append) (simp_all add: one_line_def)
  then have "fs_read base fs1 = Some (text_of rs @ row)" by (simp add: fs_read_def n1 d1)
  then have "seed_last_hash_from_file c base fs1 = Some (co_hash c row)"
    using one_line_not_blank [OF row] by (simp add: seed_last_hash_from_file_def torn)
  then have "al_last_hash l2 = Some (co_hash c row)"
    using l2(1) n1 by (auto simp: al_new_def fs_open_append_def)
  then have ok2: "event_ok (e2\<lparr>ae_seq := al_sequence l2, ae_timestamp := later, ae_prev_hash := al_last_hash l2\<rparr>)"
    using assms(1,3) row by (simp add: event_ok_def codec_ok_def one_line_def)
  have row2: "one_line row2" using row_read(1) [OF assms(1) ok2] by (simp add: row2_def)
  define l3 where "l3 = l2\<lparr>al_sequence := al_sequence l2 + 1, al_last_hash := Some (co_hash c row2)\<rparr>"
  obtain s3 where s3: "buf_writeln True row2 (l3, fs1) = (True, s3)" "wrote (row2 @ [CHR 0x0A]) (l3, fs1) s3"
    using writeln_wrote by blast
  obtain s4 where s4: "buf_flush True s3 = (True, s4)" "wrote [] s3 s4" "al_buffer (fst s4) = []" using flush_wrote by blast
  have w: "wrote (row2 @ [CHR 0x0A]) (l3, fs1) s4" using wrote_trans [OF s3(2) s4(2)] by simp
  have again: "buf_flush True s4 = (True, s4)" using s4(3) by (cases s4) (simp add: buf_flush_def)
  have run: "al_flush True (al_log c day_text io later e2 (l2, fs1)) = s4"
    using l2(4) assms(9) s3(1) s4(1) again eqTrueI [OF assms(5)]
    by (simp add: same_day_log Let_def row2_def [symmetric] l3_def [symmetric] al_flush_def)
  have d4: "fs_data (snd s4) (al_file l) = text_of (rs @ [row @ row2])"
    using w d1 l2(2,3) s4(3) wrote_fields(1) [OF w] by (simp add: wrote_def l3_def text_of_def)
  have n4: "hm_get (fs_names (snd s4)) base = Some (al_file l)" using w n1 by (simp add: wrote_def)
  have bad: "event_of_row c (row @ row2) = None"
    using assms(1) writable_event_json [OF assms(1) ok] writable_event_json [OF assms(1) ok2]
    by (simp add: codec_ok_def event_of_row_def row_def row2_def row_of_def event_json_def)
  have ol: "one_line (row @ row2)" by (rule one_line_append [OF row row2])
  have ls: "r \<in> set (rs @ [row @ row2]) \<Longrightarrow> one_line r" for r using lines ol by auto
  have "fs_read base (snd s4) = Some (text_of (rs @ [row @ row2]))"
    unfolding fs_read_def n4 option.case d4 using text_of_utf8 [of "rs @ [row @ row2]"] ls by simp
  then have "verify_chain c base (snd s4) = Inl (MalformedRow (1 + length rs))"
    using verify_chained [OF rs(2), of 1 0 "[row @ row2]"] one_line_not_blank [OF ol] bad str_lines_text [of "rs @ [row @ row2]"] ls
    by (simp add: verify_chain_def del: text_of_append)
  then show ?thesis using run l2(1) by (simp add: fs1_def [symmetric])
qed

subsection \<open>What the digest protects\<close>

fun links :: "codec \<Rightarrow> string option \<Rightarrow> string list \<Rightarrow> string option option" where
  "links c p [] = Some p"
| "links c p (r # rs) =
     (if blank_line r then links c p rs
      else case event_of_row c r of None \<Rightarrow> None
           | Some e \<Rightarrow> if ae_prev_hash e = p then links c (Some (co_hash c r)) rs else None)"

lemma verify_links:
  "(case verify_rows c i n p ls of Inl _ \<Rightarrow> None | Inr r \<Rightarrow> Some (cr_last_hash r)) = links c p ls"
  by (induction c i n p ls rule: verify_rows.induct) (auto split: option.splits)

lemma verify_rows_links: "verify_rows c i n p ls = Inr r \<Longrightarrow> links c p ls = Some (cr_last_hash r)"
  using verify_links [of c i n p ls] by simp

lemma links_verify_rows: "links c p ls = Some h \<Longrightarrow> \<exists>r. verify_rows c i n p ls = Inr r"
  using verify_links [of c i n p ls] by (auto split: sum.splits)

lemma links_append: "links c p (rs @ ss) = Option.bind (links c p rs) (\<lambda>q. links c q ss)"
  by (induction c p rs rule: links.induct) (auto split: option.splits)




text \<open>
  The verification alone protects all but the end. Of a file that passes, every initial part
  passes too, and the last row may be replaced by any event that names the same previous digest:
  removing the newest rows, or changing the newest one, is not detected.
\<close>

theorem verification_blind_at_end:
  assumes "verify_rows c 1 0 None (ls @ y # zs) = Inr r" and "\<not> blank_line y" and "event_of_row c y = Some e"
    and "\<not> blank_line y'" and "event_of_row c y' = Some e'" and "ae_prev_hash e' = ae_prev_hash e"
  shows "(\<exists>r'. verify_rows c 1 0 None ls = Inr r') \<and> (\<exists>r'. verify_rows c 1 0 None (ls @ [y']) = Inr r')"
proof -
  obtain p where p: "links c None ls = Some p" "ae_prev_hash e = p"
    using verify_rows_links [OF assms(1)] assms(2,3)
    by (auto simp: links_append bind_eq_Some_conv split: if_splits)
  then have "links c None (ls @ [y']) = Some (Some (co_hash c y'))" using assms(4-6) by (simp add: links_append)
  with p(1) show ?thesis using links_verify_rows by blast
qed

text \<open>A file that cannot be read as text passes with no rows.\<close>

lemma unreadable_log_verifies:
  "hm_get (fs_names fs) p = Some n \<Longrightarrow> \<not> utf8_valid (fs_data fs n) \<Longrightarrow>
     verify_chain c p fs = Inr \<lparr>cr_rows_checked = 0, cr_last_hash = None\<rparr>"
  by (simp add: verify_chain_def fs_read_def)


subsection \<open>Instances\<close>

definition demo_path :: file_path where
  "demo_path = \<lparr>fp_parent = Some ''data'', fp_stem = Some ''audit'', fp_ext = Some ''jsonl''\<rparr>"

definition empty_fs :: file_system where
  "empty_fs = \<lparr>fs_names = [], fs_data = (\<lambda>_. []), fs_next = 0\<rparr>"

lemma empty_fs_ok: "fs_ok c empty_fs"
  by (simp add: fs_ok_def empty_fs_def hm_get_def)

definition demo_event :: audit_event where
  "demo_event = plain_event EngineStarted ''BTCUSDT''"

definition demo_fill :: audit_event where
  "demo_fill = order_cancelled ''BTCUSDT'' 7\<lparr>ae_event_type := OrderFilled\<rparr>"

lemma demo_events_ok: "event_ok demo_event" "event_ok demo_fill" "is_critical (ae_event_type demo_fill)"
  "\<not> is_critical (ae_event_type demo_event)"
  by (simp_all add: demo_event_def demo_fill_def plain_event_def order_cancelled_def event_ok_def is_critical_def is_time_def is_uuid_def)

text \<open>Two events on two days: the second is written behind a rotation, both files verify.\<close>

theorem audit_files_verify_witness:
  "let (l, fs') = al_flush True (fold (audit_step sample_codec (\<lambda>d. put_int d)) [LogOp True True 5 demo_event, LogOp True True DAY_MICROS demo_fill]
         (al_new sample_codec 100 demo_path 0 empty_fs))
   in \<forall>p n. hm_get (fs_names fs') p = Some n \<longrightarrow>
        (\<exists>k h. verify_chain sample_codec p fs' = Inr \<lparr>cr_rows_checked = k, cr_last_hash = h\<rparr>)"
proof -
  let ?ops = "[LogOp True True 5 demo_event, LogOp True True DAY_MICROS demo_fill]"
  obtain l fs' where e: "al_flush True (fold (audit_step sample_codec (\<lambda>d. put_int d)) ?ops (al_new sample_codec 100 demo_path 0 empty_fs)) = (l, fs')"
    by (rule prod.exhaust)
  have ok: "is_time t \<and> event_ok ev" if "LogOp r op t ev \<in> set ?ops" for r op t ev
    using that demo_events_ok by (auto simp: is_time_def DAY_MICROS_def)
  show ?thesis unfolding e Let_def prod.case
    by (intro allI impI) (use audit_files_verify [OF sample_codec_ok empty_fs_ok _ e] ok in blast)
qed

theorem critical_event_durable_witness:
  "al_buffer (fst (al_log sample_codec (\<lambda>d. put_int d) \<lparr>io_rename = True, io_open = True, io_device = True\<rparr> 5 demo_fill
     (al_new sample_codec 100 demo_path 0 empty_fs))) = []"
proof -
  let ?io = "\<lparr>io_rename = True, io_open = True, io_device = True\<rparr>"
  obtain l fs' where e: "al_log sample_codec (\<lambda>d. put_int d) ?io 5 demo_fill (al_new sample_codec 100 demo_path 0 empty_fs) = (l, fs')"
    by (rule prod.exhaust)
  have "al_buffer l = []"
    using critical_event_durable [OF sample_codec_ok empty_fs_ok _ conjI [OF _ demo_events_ok(2)] demo_events_ok(3), where ops = "[]" and io = ?io and now = 5, OF _ _ _ _ e]
    by (simp add: is_time_def)
  then show ?thesis by (simp add: e)
qed

theorem torn_row_breaks_chain_witness:
  "\<exists>cap k. verify_chain sample_codec demo_path
    (snd (al_flush True (al_log sample_codec (\<lambda>d. put_int d) \<lparr>io_rename = True, io_open = True, io_device = True\<rparr> 9 demo_event
       (al_new sample_codec cap demo_path 8
         (snd (al_log sample_codec (\<lambda>d. put_int d) \<lparr>io_rename = True, io_open = True, io_device = True\<rparr> 5 demo_event
            (al_new sample_codec cap demo_path 0 empty_fs))))))) = Inl (MalformedRow k)"
proof -
  let ?io = "\<lparr>io_rename = True, io_open = True, io_device = True\<rparr>"
  define row where "row = row_of sample_codec (demo_event\<lparr>ae_seq := 1, ae_timestamp := 5, ae_prev_hash := None\<rparr>)"
  have len: "1 < length row"
    by (simp add: row_def row_of_def sample_codec_def event_json_def)
  define s where "s = al_new sample_codec (length row) demo_path 0 empty_fs"
  have s: "al_file (fst s) = 0" "al_buffer (fst s) = []" "al_capacity (fst s) = length row" "al_sequence (fst s) = 1"
    "al_current_date (fst s) = 0" "al_last_hash (fst s) = None" "hm_get (fs_names (snd s)) demo_path = Some 0"
    by (simp_all add: s_def al_new_def fs_open_append_def empty_fs_def hm_get_def hm_insert_def seed_last_hash_from_file_def
        fs_read_def audit_day_def)
  have "log_ok sample_codec s" unfolding s_def by (rule al_new_ok [OF empty_fs_ok])
  moreover have "\<exists>k. verify_chain sample_codec demo_path (snd (al_flush True (al_log sample_codec (\<lambda>d. put_int d) ?io 9 demo_event
       (al_new sample_codec (length row) demo_path 8 (snd (al_log sample_codec (\<lambda>d. put_int d) ?io 5 demo_event s)))))) = Inl (MalformedRow k)"
    by (rule torn_row_breaks_chain [OF sample_codec_ok _ _ calculation])
      (use demo_events_ok(1,4) len s in \<open>simp_all add: audit_day_def DAY_MICROS_def row_def is_time_def\<close>)
  ultimately show ?thesis unfolding s_def by blast
qed

definition demo_row :: "nat \<Rightarrow> string option \<Rightarrow> string" where
  "demo_row n prev = row_of sample_codec (demo_event\<lparr>ae_timestamp := int n, ae_prev_hash := prev\<rparr>)"

lemma demo_row_read:
  assumes "n < 1000" and "pred_option utf8_valid prev"
  shows "event_of_row sample_codec (demo_row n prev) = Some (demo_event\<lparr>ae_timestamp := int n, ae_prev_hash := prev\<rparr>)"
    and "one_line (demo_row n prev)" and "\<not> blank_line (demo_row n prev)"
proof -
  have ok: "event_ok (demo_event\<lparr>ae_timestamp := int n, ae_prev_hash := prev\<rparr>)"
    using demo_events_ok(1) assms by (simp add: event_ok_def is_time_def)
  show "event_of_row sample_codec (demo_row n prev) = Some (demo_event\<lparr>ae_timestamp := int n, ae_prev_hash := prev\<rparr>)"
    and "one_line (demo_row n prev)" and "\<not> blank_line (demo_row n prev)"
    using row_read [OF sample_codec_ok ok] by (simp_all add: demo_row_def one_line_not_blank)
qed

lemma demo_rows:
  "event_of_row sample_codec (demo_row 5 None) = Some (demo_event\<lparr>ae_timestamp := 5, ae_prev_hash := None\<rparr>)"
  "one_line (demo_row 5 None)" "\<not> blank_line (demo_row 5 None)"
  "n < 1000 \<Longrightarrow> event_of_row sample_codec (demo_row n (Some (demo_row 5 None))) =
     Some (demo_event\<lparr>ae_timestamp := int n, ae_prev_hash := Some (demo_row 5 None)\<rparr>)"
  "n < 1000 \<Longrightarrow> one_line (demo_row n (Some (demo_row 5 None)))" "n < 1000 \<Longrightarrow> \<not> blank_line (demo_row n (Some (demo_row 5 None)))"
proof -
  note f = demo_row_read [of 5 None]
  show 1: "event_of_row sample_codec (demo_row 5 None) = Some (demo_event\<lparr>ae_timestamp := 5, ae_prev_hash := None\<rparr>)"
    and 2: "one_line (demo_row 5 None)" and 3: "\<not> blank_line (demo_row 5 None)"
    using f by simp_all
  have "pred_option utf8_valid (Some (demo_row 5 None))" using 2 by (simp add: one_line_def)
  then show "n < 1000 \<Longrightarrow> event_of_row sample_codec (demo_row n (Some (demo_row 5 None))) =
     Some (demo_event\<lparr>ae_timestamp := int n, ae_prev_hash := Some (demo_row 5 None)\<rparr>)"
    "n < 1000 \<Longrightarrow> one_line (demo_row n (Some (demo_row 5 None)))" "n < 1000 \<Longrightarrow> \<not> blank_line (demo_row n (Some (demo_row 5 None)))"
    using demo_row_read by blast+
qed



lemma sample_hash [simp]: "co_hash sample_codec s = s"
  by (simp add: sample_codec_def)

lemma demo_file_verifies:
  "verify_rows sample_codec (Suc 0) 0 None [demo_row 5 None, demo_row 6 (Some (demo_row 5 None))] =
     Inr \<lparr>cr_rows_checked = 2, cr_last_hash = Some (demo_row 6 (Some (demo_row 5 None)))\<rparr>"
  using demo_rows by simp


theorem verification_blind_at_end_witness:
  "(\<exists>r'. verify_rows sample_codec 1 0 None [demo_row 5 None] = Inr r') \<and>
   (\<exists>r'. verify_rows sample_codec 1 0 None [demo_row 5 None, demo_row 7 (Some (demo_row 5 None))] = Inr r')"
proof -
  have "verify_rows sample_codec 1 0 None ([demo_row 5 None] @ demo_row 6 (Some (demo_row 5 None)) # []) =
      Inr \<lparr>cr_rows_checked = 2, cr_last_hash = Some (demo_row 6 (Some (demo_row 5 None)))\<rparr>"
    using demo_file_verifies by simp
  from verification_blind_at_end [OF this demo_rows(6,4) demo_rows(6,4) [of 7]]
  show ?thesis by (simp del: verify_rows.simps)
qed

end
