(* ===== verification/Pnl_Tracker.thy ===== *)
theory Pnl_Tracker
  imports Portfolio Protections Kill_Switch
begin

section \<open>The attribution of profit\<close>

text \<open>
  \<^verbatim>\<open>crates/risk/src/pnl.rs\<close> and the two places of \<^verbatim>\<open>crates/engine/src/market_maker.rs\<close> that drive it: the
  marking and the funding of \<^verbatim>\<open>tick_second\<close>, and the booking of a fill in \<^verbatim>\<open>handle_ws_event\<close> with the
  sample it hands to the protections. Times and durations are milliseconds; the counters are naturals.
\<close>

subsection \<open>The tracker\<close>

record pnl_attribution =
  pa_spread_pnl :: decimal
  pa_inventory_pnl :: decimal
  pa_rebate_income :: decimal
  pa_fees_paid :: decimal
  pa_loan_cost_amortized :: decimal
  pa_funding_pnl_realised :: decimal
  pa_funding_pnl_mtm :: decimal
  pa_round_trips :: nat
  pa_fill_count :: nat
  pa_total_volume :: decimal

definition pa_default :: pnl_attribution where
  "pa_default =
     \<lparr>pa_spread_pnl = 0, pa_inventory_pnl = 0, pa_rebate_income = 0, pa_fees_paid = 0, pa_loan_cost_amortized = 0,
      pa_funding_pnl_realised = 0, pa_funding_pnl_mtm = 0, pa_round_trips = 0, pa_fill_count = 0, pa_total_volume = 0\<rparr>"

definition pa_total_pnl :: "pnl_attribution \<Rightarrow> decimal" where
  "pa_total_pnl a =
     pa_spread_pnl a + pa_inventory_pnl a + pa_rebate_income a + pa_funding_pnl_realised a - pa_fees_paid a
     - pa_loan_cost_amortized a"

definition pnl_per_volume :: "(decimal \<Rightarrow> decimal \<Rightarrow> decimal) \<Rightarrow> pnl_attribution \<Rightarrow> decimal" where
  "pnl_per_volume ddiv a = (if pa_total_volume a = 0 then 0 else ddiv (pa_total_pnl a) (pa_total_volume a))"

record pnl_tracker =
  pn_attribution :: pnl_attribution
  pn_last_mid :: decimal
  pn_inventory :: decimal
  pn_maker_fee :: decimal
  pn_taker_fee :: decimal
  pn_loan_daily_cost :: decimal
  pn_funding_rate :: "decimal option"
  pn_next_funding_time :: "timestamp option"
  pn_period_start :: "timestamp option"
  pn_funding_interval :: "int option"

definition pn_new :: "decimal \<Rightarrow> decimal \<Rightarrow> pnl_tracker" where
  "pn_new maker_fee taker_fee =
     \<lparr>pn_attribution = pa_default, pn_last_mid = 0, pn_inventory = 0, pn_maker_fee = maker_fee, pn_taker_fee = taker_fee,
      pn_loan_daily_cost = 0, pn_funding_rate = None, pn_next_funding_time = None, pn_period_start = None,
      pn_funding_interval = None\<rparr>"

definition set_fee_rates :: "decimal \<Rightarrow> decimal \<Rightarrow> pnl_tracker \<Rightarrow> pnl_tracker" where
  "set_fee_rates maker_fee taker_fee p = p\<lparr>pn_maker_fee := maker_fee, pn_taker_fee := taker_fee\<rparr>"

definition spread_capture :: "fill \<Rightarrow> price \<Rightarrow> decimal" where
  "spread_capture f mid =
     (case f_side f of Buy \<Rightarrow> (mid - f_price f) * f_qty f | Sell \<Rightarrow> (f_price f - mid) * f_qty f)"

definition attribute_fee :: "pnl_tracker \<Rightarrow> fill \<Rightarrow> pnl_attribution \<Rightarrow> pnl_attribution" where
  "attribute_fee p f a =
     (let fill_value = f_price f * f_qty f
      in if f_is_maker f
         then let fee = fill_value * pn_maker_fee p
              in if fee < 0 then a\<lparr>pa_rebate_income := pa_rebate_income a + \<bar>fee\<bar>\<rparr>
                 else a\<lparr>pa_fees_paid := pa_fees_paid a + fee\<rparr>
         else a\<lparr>pa_fees_paid := pa_fees_paid a + fill_value * pn_taker_fee p\<rparr>)"

definition pn_on_fill :: "fill \<Rightarrow> price \<Rightarrow> pnl_tracker \<Rightarrow> pnl_tracker" where
  "pn_on_fill f mid p =
     (let a1 = (pn_attribution p)\<lparr>pa_spread_pnl := pa_spread_pnl (pn_attribution p) + spread_capture f mid\<rparr>;
          a2 = attribute_fee p f a1;
          q = (case f_side f of Buy \<Rightarrow> pn_inventory p + f_qty f | Sell \<Rightarrow> pn_inventory p - f_qty f);
          a3 = a2\<lparr>pa_total_volume := pa_total_volume a2 + f_price f * f_qty f, pa_fill_count := pa_fill_count a2 + 1\<rparr>;
          a4 = (if (q = 0 \<or> 0 < q \<and> f_side f = Sell \<or> q < 0 \<and> f_side f = Buy) \<and> q = 0
                then a3\<lparr>pa_round_trips := pa_round_trips a3 + 1\<rparr> else a3)
      in p\<lparr>pn_attribution := a4, pn_inventory := q\<rparr>)"

definition pn_mark_to_market :: "price \<Rightarrow> pnl_tracker \<Rightarrow> pnl_tracker" where
  "pn_mark_to_market mid p =
     (let a = pn_attribution p;
          a' = (if pn_last_mid p \<noteq> 0 \<and> pn_inventory p \<noteq> 0
                then a\<lparr>pa_inventory_pnl := pa_inventory_pnl a + pn_inventory p * (mid - pn_last_mid p)\<rparr> else a)
      in p\<lparr>pn_attribution := a', pn_last_mid := mid\<rparr>)"

definition set_loan_daily_cost :: "decimal \<Rightarrow> pnl_tracker \<Rightarrow> pnl_tracker" where
  "set_loan_daily_cost daily_cost p = p\<lparr>pn_loan_daily_cost := daily_cost\<rparr>"

definition amortize_loan_cost :: "decimal \<Rightarrow> pnl_tracker \<Rightarrow> pnl_tracker" where
  "amortize_loan_cost elapsed_days p =
     (let a = pn_attribution p
      in p\<lparr>pn_attribution := a\<lparr>pa_loan_cost_amortized := pa_loan_cost_amortized a + pn_loan_daily_cost p * elapsed_days\<rparr>\<rparr>)"

definition on_funding_update :: "decimal \<Rightarrow> timestamp \<Rightarrow> int \<Rightarrow> pnl_tracker \<Rightarrow> pnl_tracker" where
  "on_funding_update rate next_at interval p =
     (let p1 = p\<lparr>pn_funding_rate := Some rate, pn_funding_interval := Some interval\<rparr>;
          anchored = p1\<lparr>pn_period_start := Some (next_at - interval), pn_next_funding_time := Some next_at\<rparr>
      in case pn_next_funding_time p of
           None \<Rightarrow> anchored
         | Some prev_next \<Rightarrow> if prev_next < next_at then anchored else p1)"

definition set_mtm :: "decimal \<Rightarrow> pnl_tracker \<Rightarrow> pnl_tracker" where
  "set_mtm v p = p\<lparr>pn_attribution := (pn_attribution p)\<lparr>pa_funding_pnl_mtm := v\<rparr>\<rparr>"

definition accrue_funding_mtm ::
  "(decimal \<Rightarrow> decimal \<Rightarrow> decimal) \<Rightarrow> timestamp \<Rightarrow> price \<Rightarrow> pnl_tracker \<Rightarrow> pnl_tracker" where
  "accrue_funding_mtm ddiv now mark p =
     (case (pn_funding_rate p, pn_next_funding_time p, pn_period_start p, pn_funding_interval p) of
        (Some rate, Some next_at, Some start, Some interval) \<Rightarrow>
          if pn_inventory p = 0 then set_mtm 0 p
          else let period_secs = max (num_seconds interval) 1;
                   remaining_secs = min (max (num_seconds (next_at - now)) 0) period_secs;
                   elapsed_fraction = ddiv (of_int (period_secs - remaining_secs)) (of_int period_secs)
               in set_mtm (- pn_inventory p * mark * rate * elapsed_fraction) p
      | _ \<Rightarrow> set_mtm 0 p)"

definition settle_funding :: "timestamp \<Rightarrow> price \<Rightarrow> pnl_tracker \<Rightarrow> decimal option \<times> pnl_tracker" where
  "settle_funding now mark p =
     (case (pn_funding_rate p, pn_next_funding_time p, pn_funding_interval p) of
        (Some rate, Some next_at, Some interval) \<Rightarrow>
          if now < next_at then (None, p)
          else let delta = - pn_inventory p * mark * rate;
                   a = pn_attribution p
               in (Some delta,
                   p\<lparr>pn_attribution := a\<lparr>pa_funding_pnl_realised := pa_funding_pnl_realised a + delta, pa_funding_pnl_mtm := 0\<rparr>,
                     pn_period_start := Some next_at, pn_next_funding_time := Some (next_at + interval)\<rparr>)
      | _ \<Rightarrow> (None, p))"

definition set_inventory_for_funding :: "decimal \<Rightarrow> pnl_tracker \<Rightarrow> pnl_tracker" where
  "set_inventory_for_funding q p = p\<lparr>pn_inventory := q\<rparr>"

subsection \<open>The engine around it\<close>

text \<open>
  The marking and the funding of one second. The poll is the answer of the venue, when this second
  is one of every thirty that ask for it and the venue answers.
\<close>

definition funding_tick ::
  "(decimal \<Rightarrow> decimal \<Rightarrow> decimal) \<Rightarrow> nat \<Rightarrow> (decimal \<times> timestamp \<times> int) option \<Rightarrow> timestamp \<Rightarrow> price
    \<Rightarrow> decimal \<Rightarrow> pnl_tracker \<Rightarrow> decimal option \<times> pnl_tracker" where
  "funding_tick ddiv tick_count poll now mid inventory p =
     (let p1 = set_inventory_for_funding inventory p;
          p2 = (if tick_count mod 30 = 0
                then (case poll of None \<Rightarrow> p1 | Some (rate, next_at, interval) \<Rightarrow> on_funding_update rate next_at interval p1)
                else p1)
      in settle_funding now mid (accrue_funding_mtm ddiv now mid p2))"

definition pnl_tick ::
  "(decimal \<Rightarrow> decimal \<Rightarrow> decimal) \<Rightarrow> bool \<Rightarrow> nat \<Rightarrow> (decimal \<times> timestamp \<times> int) option \<Rightarrow> timestamp \<Rightarrow> price option
    \<Rightarrow> decimal \<Rightarrow> pnl_tracker \<Rightarrow> pnl_tracker" where
  "pnl_tick ddiv has_funding tick_count poll now mid inventory p =
     (case mid of
        None \<Rightarrow> p
      | Some m \<Rightarrow>
          let p1 = pn_mark_to_market m p
          in if has_funding then snd (funding_tick ddiv tick_count poll now m inventory p1) else p1)"

text \<open>A fill, and the sample of it the protections get; \<open>base\<close> is \<^verbatim>\<open>var_guard_last_total_pnl\<close>.\<close>

definition book_fill ::
  "decimal \<Rightarrow> string \<Rightarrow> timestamp \<Rightarrow> price option \<Rightarrow> fill \<Rightarrow> pnl_tracker \<times> protections option
    \<Rightarrow> pnl_tracker \<times> protections option" where
  "book_fill base symbol now mid f s =
     (case mid of
        None \<Rightarrow> s
      | Some m \<Rightarrow>
          let p = pn_on_fill f m (fst s);
              delta = pa_spread_pnl (pn_attribution p) - base
          in (p, if delta = 0 then snd s else map_option (pt_record_trade_pnl symbol delta now) (snd s)))"

text \<open>The minute sample of the value-at-risk guard, which is what moves that base.\<close>

definition var_sample :: "bool \<Rightarrow> nat \<Rightarrow> pnl_tracker \<Rightarrow> decimal \<Rightarrow> decimal option \<times> decimal" where
  "var_sample has_var_guard tick_count p base =
     (if has_var_guard \<and> tick_count mod 60 = 0
      then let t = pa_total_pnl (pn_attribution p) in (Some (t - base), t)
      else (None, base))"

text \<open>The six fields the engine copies into the portfolio.\<close>

definition attribution_snap :: "pnl_attribution \<Rightarrow> attribution" where
  "attribution_snap a =
     \<lparr>at_spread_pnl = pa_spread_pnl a, at_inventory_pnl = pa_inventory_pnl a, at_rebate_income = pa_rebate_income a,
      at_fees_paid = pa_fees_paid a, at_funding_pnl_realised = pa_funding_pnl_realised a,
      at_loan_cost_amortized = pa_loan_cost_amortized a\<rparr>"


subsection \<open>What the attribution measures\<close>

text \<open>The operations as events, so that a history can be followed.\<close>

datatype pnl_event =
  Booked fill price
| Marked price
| FeesSet decimal decimal
| LoanCostSet decimal
| Amortized decimal
| FundingPolled decimal timestamp int
| Accrued timestamp price
| Settled timestamp price

primrec pnl_step :: "(decimal \<Rightarrow> decimal \<Rightarrow> decimal) \<Rightarrow> pnl_event \<Rightarrow> pnl_tracker \<Rightarrow> pnl_tracker" where
  "pnl_step ddiv (Booked f mid) p = pn_on_fill f mid p"
| "pnl_step ddiv (Marked mid) p = pn_mark_to_market mid p"
| "pnl_step ddiv (FeesSet a b) p = set_fee_rates a b p"
| "pnl_step ddiv (LoanCostSet c) p = set_loan_daily_cost c p"
| "pnl_step ddiv (Amortized d) p = amortize_loan_cost d p"
| "pnl_step ddiv (FundingPolled r n i) p = on_funding_update r n i p"
| "pnl_step ddiv (Accrued now mark) p = accrue_funding_mtm ddiv now mark p"
| "pnl_step ddiv (Settled now mark) p = snd (settle_funding now mark p)"

definition fee_of :: "pnl_tracker \<Rightarrow> fill \<Rightarrow> decimal" where
  "fee_of p f = f_price f * f_qty f * (if f_is_maker f then pn_maker_fee p else pn_taker_fee p)"

text \<open>The money an event moves: the price of the fill and its fee, the loan and the funding.\<close>

primrec event_cash :: "pnl_event \<Rightarrow> pnl_tracker \<Rightarrow> decimal" where
  "event_cash (Booked f mid) p = - signed_qty f * f_price f - fee_of p f"
| "event_cash (Marked mid) p = 0"
| "event_cash (FeesSet a b) p = 0"
| "event_cash (LoanCostSet c) p = 0"
| "event_cash (Amortized d) p = - pn_loan_daily_cost p * d"
| "event_cash (FundingPolled r n i) p = 0"
| "event_cash (Accrued now mark) p = 0"
| "event_cash (Settled now mark) p = (case fst (settle_funding now mark p) of None \<Rightarrow> 0 | Some d \<Rightarrow> d)"

text \<open>How far the mid of a fill had moved from the last mark, on the quantity of the fill.\<close>

primrec event_lag :: "pnl_event \<Rightarrow> pnl_tracker \<Rightarrow> decimal" where
  "event_lag (Booked f mid) p = signed_qty f * (mid - pn_last_mid p)"
| "event_lag (Marked mid) p = 0"
| "event_lag (FeesSet a b) p = 0"
| "event_lag (LoanCostSet c) p = 0"
| "event_lag (Amortized d) p = 0"
| "event_lag (FundingPolled r n i) p = 0"
| "event_lag (Accrued now mark) p = 0"
| "event_lag (Settled now mark) p = 0"

primrec along :: "(decimal \<Rightarrow> decimal \<Rightarrow> decimal) \<Rightarrow> (pnl_event \<Rightarrow> pnl_tracker \<Rightarrow> decimal) \<Rightarrow> pnl_event list \<Rightarrow> pnl_tracker \<Rightarrow> decimal"
where
  "along ddiv g [] p = 0"
| "along ddiv g (e # es) p = g e p + along ddiv g es (pnl_step ddiv e p)"

definition pnl_value :: "pnl_tracker \<Rightarrow> decimal" where
  "pnl_value p = pa_total_pnl (pn_attribution p) - pn_inventory p * pn_last_mid p"

lemma attribute_fee_total:
  "pa_total_pnl (attribute_fee p f a) = pa_total_pnl a - fee_of p f"
  by (auto simp: attribute_fee_def fee_of_def pa_total_pnl_def Let_def abs_if)

lemma spread_capture_signed: "spread_capture f mid = signed_qty f * (mid - f_price f)"
  by (cases "f_side f") (auto simp: spread_capture_def signed_qty_def algebra_simps)

lemma on_fill_inventory: "pn_inventory (pn_on_fill f mid p) = pn_inventory p + signed_qty f"
  by (cases "f_side f") (auto simp: pn_on_fill_def signed_qty_def Let_def)

lemma pn_on_fill_fields [simp]:
  "pn_last_mid (pn_on_fill f mid p) = pn_last_mid p"
  "pn_maker_fee (pn_on_fill f mid p) = pn_maker_fee p"
  "pn_taker_fee (pn_on_fill f mid p) = pn_taker_fee p"
  by (simp_all add: pn_on_fill_def Let_def)

lemma attribute_fee_spread [simp]: "pa_spread_pnl (attribute_fee p f a) = pa_spread_pnl a"
  by (auto simp: attribute_fee_def Let_def)

lemma on_fill_spread:
  "pa_spread_pnl (pn_attribution (pn_on_fill f mid p)) = pa_spread_pnl (pn_attribution p) + spread_capture f mid"
  by (simp add: pn_on_fill_def Let_def)

lemma pn_on_fill_total:
  "pa_total_pnl (pn_attribution (pn_on_fill f mid p)) =
     pa_total_pnl (pn_attribution p) + spread_capture f mid - fee_of p f"
proof -
  define a1 where "a1 = (pn_attribution p)\<lparr>pa_spread_pnl := pa_spread_pnl (pn_attribution p) + spread_capture f mid\<rparr>"
  have "pa_total_pnl (pn_attribution (pn_on_fill f mid p)) = pa_total_pnl (attribute_fee p f a1)"
    by (simp add: pn_on_fill_def Let_def pa_total_pnl_def a1_def)
  also have "\<dots> = pa_total_pnl a1 - fee_of p f" by (rule attribute_fee_total)
  finally show ?thesis by (simp add: a1_def pa_total_pnl_def)
qed

text \<open>A round trip is counted when the position is exactly flat; a fill that turns it is none.\<close>

lemma round_trips_exact:
  "pa_round_trips (pn_attribution (pn_on_fill f mid p)) =
     pa_round_trips (pn_attribution p) + (if pn_inventory p + signed_qty f = 0 then 1 else 0)"
  by (cases "f_side f") (auto simp: pn_on_fill_def Let_def attribute_fee_def signed_qty_def)

lemma mtm_fields [simp]:
  "pn_inventory (accrue_funding_mtm ddiv now mark p) = pn_inventory p"
  "pn_last_mid (accrue_funding_mtm ddiv now mark p) = pn_last_mid p"
  "pa_total_pnl (pn_attribution (accrue_funding_mtm ddiv now mark p)) = pa_total_pnl (pn_attribution p)"
  "pa_funding_pnl_realised (pn_attribution (accrue_funding_mtm ddiv now mark p)) = pa_funding_pnl_realised (pn_attribution p)"
  "pn_next_funding_time (accrue_funding_mtm ddiv now mark p) = pn_next_funding_time p"
  "pn_funding_rate (accrue_funding_mtm ddiv now mark p) = pn_funding_rate p"
  "pn_funding_interval (accrue_funding_mtm ddiv now mark p) = pn_funding_interval p"
  by (auto simp: accrue_funding_mtm_def set_mtm_def pa_total_pnl_def Let_def split: option.splits)

lemma step_value:
  assumes "pn_last_mid p \<noteq> 0" and "\<And>m. e = Marked m \<Longrightarrow> m \<noteq> 0"
  shows "pnl_value (pnl_step ddiv e p) = pnl_value p + event_cash e p + event_lag e p"
    and "pn_last_mid (pnl_step ddiv e p) \<noteq> 0"
proof -
  show "pn_last_mid (pnl_step ddiv e p) \<noteq> 0"
    using assms by (cases e)
      (auto simp: pn_mark_to_market_def set_fee_rates_def set_loan_daily_cost_def amortize_loan_cost_def
        on_funding_update_def settle_funding_def Let_def split: option.splits)
  show "pnl_value (pnl_step ddiv e p) = pnl_value p + event_cash e p + event_lag e p"
  proof (cases e)
    case (Booked f mid)
    then show ?thesis
      by (simp add: pnl_value_def pn_on_fill_total on_fill_inventory spread_capture_signed algebra_simps)
  next
    case (Accrued now mark)
    then show ?thesis by (simp add: pnl_value_def)
  next
    case (Settled now mark)
    then show ?thesis
      by (auto simp: pnl_value_def settle_funding_def pa_total_pnl_def Let_def split: option.splits)
  qed (use assms in \<open>auto simp: pnl_value_def pn_mark_to_market_def set_fee_rates_def set_loan_daily_cost_def
        amortize_loan_cost_def on_funding_update_def pa_total_pnl_def Let_def algebra_simps split: option.splits\<close>)
qed

lemma run_value:
  assumes "pn_last_mid p \<noteq> 0" and "\<And>m. Marked m \<in> set es \<Longrightarrow> m \<noteq> 0"
  shows "pnl_value (fold (pnl_step ddiv) es p) =
    pnl_value p + along ddiv event_cash es p + along ddiv event_lag es p"
  using assms
proof (induction es arbitrary: p)
  case (Cons e es)
  have "\<And>m. e = Marked m \<Longrightarrow> m \<noteq> 0" using Cons.prems(2) by auto
  note s = step_value [OF Cons.prems(1) this]
  show ?case using Cons.IH [OF s(2)] Cons.prems(2) s(1) by simp
qed simp

text \<open>
  C32: what the attributed profit is. From the first mark on, after any fills, marks, fee changes, loan
  charges and funding events, the total of the attribution is the cash that moved plus the position at the
  last mark, plus an error: for every fill its signed quantity times the distance the mid had moved since
  the mark before it. The error is zero when every fill is booked at the mid of the last mark; otherwise it
  stays in the profit for good.
\<close>

theorem attribution_is_cash_flow:
  assumes "m0 \<noteq> 0" and "\<And>m. Marked m \<in> set es \<Longrightarrow> m \<noteq> 0"
  shows "let p0 = pn_mark_to_market m0 (pn_new maker_fee taker_fee); p = fold (pnl_step ddiv) es p0
    in pa_total_pnl (pn_attribution p) =
         along ddiv event_cash es p0 + pn_inventory p * pn_last_mid p + along ddiv event_lag es p0"
proof -
  let ?p0 = "pn_mark_to_market m0 (pn_new maker_fee taker_fee)"
  have "pn_last_mid ?p0 \<noteq> 0" "pnl_value ?p0 = 0"
    using assms(1) by (simp_all add: pn_mark_to_market_def pn_new_def pnl_value_def pa_default_def pa_total_pnl_def)
  from run_value [OF this(1) assms(2), of es ddiv] this(2) show ?thesis by (simp add: Let_def pnl_value_def)
qed

text \<open>Bought at 99 when the mid was 100 but the last mark 90: the attribution is 10 above the money.\<close>

theorem attribution_is_cash_flow_witness:
  "let p0 = pn_mark_to_market 90 (pn_new 0 0);
       es = [Booked (example_fill Buy 99 1) 100, Marked 100, Booked (example_fill Sell 101 1) 100];
       p = fold (pnl_step (/)) es p0
   in pa_total_pnl (pn_attribution p) = 12 \<and> along (/) event_cash es p0 = 2 \<and> pn_inventory p = 0"
proof -
  let ?es = "[Booked (example_fill Buy 99 1) 100, Marked 100, Booked (example_fill Sell 101 1) 100]"
  let ?p0 = "pn_mark_to_market 90 (pn_new 0 0)"
  have cash: "along (/) event_cash ?es ?p0 = 2" and lag: "along (/) event_lag ?es ?p0 = 10"
    by (simp_all add: signed_qty_def example_fill_def fee_of_def pn_mark_to_market_def pn_new_def pn_on_fill_def
        attribute_fee_def pa_default_def Let_def)
  have q: "pn_inventory (fold (pnl_step (/)) ?es ?p0) = 0"
    by (simp add: on_fill_inventory signed_qty_def example_fill_def pn_mark_to_market_def pn_new_def Let_def)
  have "pa_total_pnl (pn_attribution (fold (pnl_step (/)) ?es ?p0)) =
    along (/) event_cash ?es ?p0 + pn_inventory (fold (pnl_step (/)) ?es ?p0) * pn_last_mid (fold (pnl_step (/)) ?es ?p0)
      + along (/) event_lag ?es ?p0"
    using attribution_is_cash_flow [of 90 ?es 0 0 "(/)"] by (simp only: Let_def) auto
  then show ?thesis unfolding Let_def cash lag q by simp
qed

lemma snap_total: "attribution_total (attribution_snap a) = pa_total_pnl a"
  by (simp add: attribution_total_def attribution_snap_def pa_total_pnl_def)


subsection \<open>Funding\<close>

lemma funding_tick_books:
  assumes "pn_funding_rate p = Some rate" and "pn_next_funding_time p = Some next_at" and "pn_funding_interval p = Some interval"
    and "next_at \<le> now" and "tick_count mod 30 \<noteq> 0 \<or> poll = None"
  shows "fst (funding_tick ddiv tick_count poll now mid inventory p) = Some (- inventory * mid * rate)"
  using assms by (auto simp: funding_tick_def settle_funding_def set_inventory_for_funding_def Let_def)

text \<open>
  C33: a settlement that meets a poll is never booked. The engine polls the funding rate before it settles. In
  the first second at or after the settlement time, the payment of the period on the whole position
  is booked if the venue is not polled in that second or does not answer; if it is polled and already names the
  next settlement time, nothing is booked, the realised funding stays as it was and the tracker waits
  for the next period, so the payment is missing from the profit.
\<close>

theorem polled_settlement_lost:
  assumes "pn_funding_rate p = Some rate" and "pn_next_funding_time p = Some next_at" and "pn_funding_interval p = Some interval"
    and "next_at \<le> now" and "\<And>r n i. poll = Some (r, n, i) \<Longrightarrow> now < n"
  shows "fst (funding_tick ddiv tick_count poll now mid inventory p) =
           (if tick_count mod 30 = 0 \<and> poll \<noteq> None then None else Some (- inventory * mid * rate)) \<and>
         (\<forall>r n i. tick_count mod 30 = 0 \<and> poll = Some (r, n, i) \<longrightarrow>
            (let p' = snd (funding_tick ddiv tick_count poll now mid inventory p)
             in pa_funding_pnl_realised (pn_attribution p') = pa_funding_pnl_realised (pn_attribution p) \<and>
                pn_next_funding_time p' = Some n))"
proof (intro conjI allI impI)
  have lost: "fst (funding_tick ddiv tick_count (Some (r, n, i)) now mid inventory p) = None \<and>
      snd (funding_tick ddiv tick_count (Some (r, n, i)) now mid inventory p) =
        accrue_funding_mtm ddiv now mid (on_funding_update r n i (set_inventory_for_funding inventory p))"
    if "tick_count mod 30 = 0" "poll = Some (r, n, i)" for r n i
    using that assms(2,4) assms(5) [of r n i]
    by (simp add: funding_tick_def settle_funding_def on_funding_update_def set_inventory_for_funding_def Let_def)
  show "fst (funding_tick ddiv tick_count poll now mid inventory p) =
      (if tick_count mod 30 = 0 \<and> poll \<noteq> None then None else Some (- inventory * mid * rate))"
  proof (cases "tick_count mod 30 = 0 \<and> poll \<noteq> None")
    case True
    then obtain r n i where pl: "poll = Some (r, n, i)" by (metis option.exhaust prod_cases3)
    from True show ?thesis using lost [OF _ pl] unfolding pl by simp
  next
    case False
    then have "tick_count mod 30 \<noteq> 0 \<or> poll = None" by auto
    from funding_tick_books [OF assms(1-4) this] False show ?thesis by simp
  qed
  show "let p' = snd (funding_tick ddiv tick_count poll now mid inventory p)
      in pa_funding_pnl_realised (pn_attribution p') = pa_funding_pnl_realised (pn_attribution p) \<and>
         pn_next_funding_time p' = Some n"
    if "tick_count mod 30 = 0 \<and> poll = Some (r, n, i)" for r n i
  proof -
    from that have pl: "poll = Some (r, n, i)" and l: "snd (funding_tick ddiv tick_count poll now mid inventory p) =
        accrue_funding_mtm ddiv now mid (on_funding_update r n i (set_inventory_for_funding inventory p))"
      using lost [of r n i] by simp_all
    show ?thesis unfolding l using assms(2,4) assms(5) [OF pl]
      by (simp add: Let_def on_funding_update_def set_inventory_for_funding_def)
  qed
qed

definition demo_funding :: pnl_tracker where
  "demo_funding = on_funding_update (1 / 1000) 1000 1000 (pn_new 0 0)"

theorem polled_settlement_lost_witness:
  "fst (funding_tick (/) 30 (Some (1 / 1000, 2000, 1000)) 1000 100 5 demo_funding) = None \<and>
   fst (funding_tick (/) 31 (Some (1 / 1000, 2000, 1000)) 1000 100 5 demo_funding) = Some (- 1 / 2)"
proof -
  have d: "pn_funding_rate demo_funding = Some (1 / 1000)" "pn_next_funding_time demo_funding = Some 1000"
    "pn_funding_interval demo_funding = Some 1000"
    by (simp_all add: demo_funding_def on_funding_update_def pn_new_def Let_def)
  note l = polled_settlement_lost [OF d, of 1000 "Some (1 / 1000, 2000, 1000)" "(/)" _ 100 5, THEN conjunct1]
  show ?thesis using l [of 30] l [of 31] by simp
qed

subsection \<open>The samples of the protections\<close>

fun running_totals :: "decimal list \<Rightarrow> decimal \<Rightarrow> decimal list" where
  "running_totals [] t = []"
| "running_totals (x # xs) t = (t + x) # running_totals xs (t + x)"

definition lp_samples :: "string \<Rightarrow> protections option \<Rightarrow> decimal list" where
  "lp_samples symbol p =
     (case Option.bind p pt_low_profit_pairs of None \<Rightarrow> []
      | Some l \<Rightarrow> (case hm_get (lp_trades l) symbol of None \<Rightarrow> [] | Some ts \<Rightarrow> map snd ts))"

type_synonym booked = "timestamp \<times> price \<times> fill"

definition book_fills :: "string \<Rightarrow> booked list \<Rightarrow> pnl_tracker \<times> protections option \<Rightarrow> pnl_tracker \<times> protections option" where
  "book_fills symbol bs s = fold (\<lambda>(now, mid, f). book_fill 0 symbol now (Some mid) f) bs s"

text \<open>No sample of the pair is older than the window when a fill of the span comes.\<close>

definition lp_within :: "string \<Rightarrow> timestamp \<Rightarrow> timestamp \<Rightarrow> protections option \<Rightarrow> bool" where
  "lp_within symbol from until p \<longleftrightarrow>
     (\<exists>l q. p = Some q \<and> pt_low_profit_pairs q = Some l \<and> until - lc_window (lp_config l) \<le> from \<and>
       INSTANT_MIN \<le> from - lc_window (lp_config l) \<and> 0 \<le> lc_window (lp_config l) \<and>
       (\<forall>ts. hm_get (lp_trades l) symbol = Some ts \<longrightarrow> (\<forall>e \<in> set ts. from \<le> fst e)))"

lemma lp_record_keeps_all:
  assumes "lp_within symbol from until (Some q)" and "from \<le> now" "now \<le> until"
  shows "lp_samples symbol (Some (pt_record_trade_pnl symbol d now q)) = lp_samples symbol (Some q) @ [d]"
    and "lp_within symbol from until (Some (pt_record_trade_pnl symbol d now q))"
proof -
  obtain l where l: "pt_low_profit_pairs q = Some l" "until - lc_window (lp_config l) \<le> from"
    "INSTANT_MIN \<le> from - lc_window (lp_config l)" "0 \<le> lc_window (lp_config l)"
    "\<And>ts e. hm_get (lp_trades l) symbol = Some ts \<Longrightarrow> e \<in> set ts \<Longrightarrow> from \<le> fst e"
    using assms(1) by (auto simp: lp_within_def)
  define ts where "ts = (case hm_get (lp_trades l) symbol of None \<Rightarrow> [] | Some ts \<Rightarrow> ts)"
  have young: "\<And>e. e \<in> set ts \<Longrightarrow> from \<le> fst e"
    using l(5) by (cases "hm_get (lp_trades l) symbol") (auto simp: ts_def)
  have start: "window_start now (lc_window (lp_config l)) \<le> from"
    using l(2-4) assms(2,3) by (auto simp: window_start_def)
  have "filter (\<lambda>(t, _). window_start now (lc_window (lp_config l)) \<le> t) ts = ts"
    using young start by (intro filter_True) force
  then have rec: "hm_get (lp_trades (lp_record_trade symbol d now l)) symbol = Some (ts @ [(now, d)])"
    and cfg: "lp_config (lp_record_trade symbol d now l) = lp_config l"
    by (auto simp: lp_record_trade_def Let_def ts_def hm_get_def hm_insert_def update_conv')
  have pt: "pt_low_profit_pairs (pt_record_trade_pnl symbol d now q) = Some (lp_record_trade symbol d now l)"
    by (simp add: pt_record_trade_pnl_def l(1))
  show "lp_samples symbol (Some (pt_record_trade_pnl symbol d now q)) = lp_samples symbol (Some q) @ [d]"
    by (simp add: lp_samples_def pt rec l(1) ts_def split: option.splits)
  show "lp_within symbol from until (Some (pt_record_trade_pnl symbol d now q))"
    using l(2-4) young assms(2) by (auto simp: lp_within_def pt rec cfg)
qed

lemma lp_samples_run:
  assumes "lp_within symbol from until pr" and "\<And>b. b \<in> set bs \<Longrightarrow> from \<le> fst b \<and> fst b \<le> until"
  shows "lp_samples symbol (snd (book_fills symbol bs (p, pr))) =
    lp_samples symbol pr @ filter (\<lambda>x. x \<noteq> 0)
      (running_totals (map (\<lambda>(now, mid, f). spread_capture f mid) bs) (pa_spread_pnl (pn_attribution p)))"
  using assms
proof (induction bs arbitrary: p pr)
  case Nil
  then show ?case by (simp add: book_fills_def)
next
  case (Cons b bs)
  obtain now mid f where b: "b = (now, mid, f)" by (rule prod_cases3)
  obtain q where q: "pr = Some q" using Cons.prems(1) by (auto simp: lp_within_def)
  have time: "from \<le> now" "now \<le> until" using Cons.prems(2) [of b] by (simp_all add: b)
  define p' where "p' = pn_on_fill f mid p"
  define t where "t = pa_spread_pnl (pn_attribution p) + spread_capture f mid"
  have t: "pa_spread_pnl (pn_attribution p') = t" by (simp add: p'_def t_def on_fill_spread)
  define pr' where "pr' = (if t = 0 then pr else Some (pt_record_trade_pnl symbol t now q))"
  have step: "book_fill 0 symbol now (Some mid) f (p, pr) = (p', pr')"
    by (simp add: book_fill_def Let_def p'_def [symmetric] t pr'_def q)
  have keep: "lp_samples symbol pr' = lp_samples symbol pr @ filter (\<lambda>x. x \<noteq> 0) [t]" "lp_within symbol from until pr'"
    using lp_record_keeps_all [of symbol "from" until q now t] Cons.prems(1) time by (simp_all add: pr'_def q)
  have "book_fills symbol (b # bs) (p, pr) = book_fills symbol bs (p', pr')"
    by (simp add: book_fills_def b step)
  then show ?case using Cons.IH [OF keep(2), of p'] Cons.prems(2) keep(1) by (simp add: b t t_def)
qed

text \<open>
  The low-profit guard sums running totals. Without a value-at-risk guard its base stays zero, and
  the sample handed over with every fill is the whole spread profit since the start, not that of the
  fill: after fills of one pair within the window of the guard, its samples are the non-zero running
  totals of the spread captures, and it compares their sum with its limit. An early loss is so
  counted again with every later fill, and an early gain hides later losses.
\<close>

theorem low_profit_counts_running_totals:
  assumes "pt_low_profit_pairs q = Some (lp_new c)" and "until - lc_window c \<le> from" and "0 \<le> lc_window c"
    and "INSTANT_MIN \<le> from - lc_window c" and "\<And>b. b \<in> set bs \<Longrightarrow> from \<le> fst b \<and> fst b \<le> until"
  shows "lp_samples symbol (snd (book_fills symbol bs (pn_new maker_fee taker_fee, Some q))) =
    filter (\<lambda>x. x \<noteq> 0) (running_totals (map (\<lambda>(now, mid, f). spread_capture f mid) bs) 0)"
proof -
  have "lp_within symbol from until (Some q)"
    using assms(1-4) by (auto simp: lp_within_def lp_new_def hm_get_def)
  from lp_samples_run [OF this assms(5)] assms(1) show ?thesis
    by (simp add: lp_samples_def lp_new_def hm_get_def pn_new_def pa_default_def)
qed

definition demo_low_profit :: protections where
  "demo_low_profit = pt_new \<lparr>pc_stoploss_guard = None, pc_cooldown = None, pc_max_drawdown = None,
     pc_low_profit_pairs = Some \<lparr>lc_window = 1000, lc_min_pnl_quote = - 5, lc_lockout = 50, lc_min_trades = 3\<rparr>\<rparr>"

text \<open>A loss of 4 and three gains of 1: the profit of the window is -1, the samples sum to -10.\<close>

definition demo_bookings :: "booked list" where
  "demo_bookings = [(1, 100, example_fill Buy 104 1), (2, 100, example_fill Buy 99 1), (3, 100, example_fill Buy 99 1),
     (4, 100, example_fill Buy 99 1)]"

theorem low_profit_counts_running_totals_witness:
  "let bs = demo_bookings
   in sum_list (lp_samples ''BTCUSDT'' (snd (book_fills ''BTCUSDT'' bs (pn_new 0 0, Some demo_low_profit)))) = - 10 \<and>
      sum_list (map (\<lambda>(now, mid, f). spread_capture f mid) bs) = - 1"
proof -
  let ?c = "\<lparr>lc_window = 1000, lc_min_pnl_quote = - 5, lc_lockout = 50, lc_min_trades = 3\<rparr>"
  have g: "pt_low_profit_pairs demo_low_profit = Some (lp_new ?c)" by (simp add: demo_low_profit_def pt_new_def)
  have t: "0 \<le> fst b \<and> fst b \<le> 4" if "b \<in> set demo_bookings" for b using that by (auto simp: demo_bookings_def)
  have caps: "map (\<lambda>(now, mid, f). spread_capture f mid) demo_bookings = [- 4, 1, 1, 1]"
    by (simp add: demo_bookings_def spread_capture_def example_fill_def)
  have "lp_samples ''BTCUSDT'' (snd (book_fills ''BTCUSDT'' demo_bookings (pn_new 0 0, Some demo_low_profit))) =
      filter (\<lambda>x. x \<noteq> 0) (running_totals (map (\<lambda>(now, mid, f). spread_capture f mid) demo_bookings) 0)"
    by (rule low_profit_counts_running_totals [OF g _ _ _ t]) (simp_all add: INSTANT_MIN_def)
  then show ?thesis unfolding Let_def caps by simp
qed

end
