(* ===== verification/Persistence.thy ===== *)
theory Persistence
  imports Audit_Log Pnl_Tracker
begin

section \<open>Checkpoints and the replay of fills\<close>

text \<open>
  \<^verbatim>\<open>crates/persistence/src/checkpoint.rs\<close> and \<^verbatim>\<open>fill_replay.rs\<close>; the checkpoint an engine composes every
  sixty ticks and takes up again (\<^verbatim>\<open>market_maker.rs\<close>), and the way there (\<^verbatim>\<open>dashboard/src/state.rs\<close>).

  \<^item> \<open>pretty\<close> is the library's other printer, \<open>hmac\<close> the keyed digest in hexadecimal. A comparison in constant
    time is a comparison.
  \<^item> Iterating a hash map follows the list that models it. Reading one keeps the last of two equal keys.
  \<^item> What the strategies and the tuners keep is carried as their JSON; only the engine's own fields are
    restored here. The file permissions and the choice of the secret from the environment are left out.
\<close>

subsection \<open>Checkpoints\<close>

record symbol_checkpoint =
  sc_symbol :: string
  sc_inventory :: decimal
  sc_avg_entry_price :: decimal
  sc_open_order_ids :: "order_id list"
  sc_realized_pnl :: decimal
  sc_total_volume :: decimal
  sc_total_fills :: u64
  sc_inflight_atomic_bundles :: "json list"
  sc_strategy_state :: "json option"
  sc_engine_state :: "(string, json) hash_map"

record checkpoint =
  ck_timestamp :: timestamp
  ck_symbols :: "(string, symbol_checkpoint) hash_map"
  ck_daily_pnl :: decimal
  ck_total_realized_pnl :: decimal

definition checkpoint_new :: "timestamp \<Rightarrow> checkpoint" where
  "checkpoint_new now = \<lparr>ck_timestamp = now, ck_symbols = [], ck_daily_pnl = 0, ck_total_realized_pnl = 0\<rparr>"

definition symbol_issues :: "(decimal \<Rightarrow> string) \<Rightarrow> string \<times> symbol_checkpoint \<Rightarrow> string list" where
  "symbol_issues sd e =
     (let (symbol, sc) = e
      in (if sc_inventory sc \<noteq> 0 \<and> sc_avg_entry_price sc = 0
          then [symbol @ '': non-zero inventory ('' @ sd (sc_inventory sc) @ '') with zero avg_entry_price''] else [])
         @ (if sc_avg_entry_price sc < 0
            then [symbol @ '': negative avg_entry_price ('' @ sd (sc_avg_entry_price sc) @ '')''] else [])
         @ (if 0 < sc_total_fills sc \<and> sc_total_volume sc = 0
            then [symbol @ '': '' @ show_nat (unat (sc_total_fills sc)) @ '' fills but zero volume''] else []))"

definition ck_validate :: "(decimal \<Rightarrow> string) \<Rightarrow> timestamp \<Rightarrow> checkpoint \<Rightarrow> string list" where
  "ck_validate sd now k =
     (if now < ck_timestamp k then [''checkpoint timestamp is in the future''] else [])
     @ concat (map (symbol_issues sd) (ck_symbols k))"

subsection \<open>Its JSON\<close>

definition json_items :: "json \<Rightarrow> json list option" where
  "json_items j = (case j of JArray js \<Rightarrow> Some js | _ \<Rightarrow> None)"

definition json_entries :: "json \<Rightarrow> (string \<times> json) list option" where
  "json_entries j = (case j of JObject es \<Rightarrow> Some es | _ \<Rightarrow> None)"

definition read_list :: "(json \<Rightarrow> 'a option) \<Rightarrow> json \<Rightarrow> 'a list option" where
  "read_list rd j = Option.bind (json_items j) (\<lambda>js. those (map rd js))"

definition read_map :: "(json \<Rightarrow> 'a option) \<Rightarrow> json \<Rightarrow> (string, 'a) hash_map option" where
  "read_map rd j =
     Option.bind (json_entries j)
       (\<lambda>es. map_option (\<lambda>vs. fold (\<lambda>(k, v) m. hm_insert k v m) (zip (map fst es) vs) []) (those (map (rd \<circ> snd) es)))"

text \<open>A field with a default: the default when it is absent; a null is a value like any other.\<close>

definition defaulted :: "'a \<Rightarrow> (json \<Rightarrow> 'a option) \<Rightarrow> string \<Rightarrow> json \<Rightarrow> 'a option" where
  "defaulted d rd k j = (case json_field k j of Absent \<Rightarrow> Some d | Present v \<Rightarrow> rd v | Bad \<Rightarrow> None)"

definition dec_json :: "codec \<Rightarrow> decimal \<Rightarrow> json" where
  "dec_json c d = JString (co_decimal c d)"

definition opt_json :: "json option \<Rightarrow> json" where
  "opt_json v = (case v of None \<Rightarrow> JNull | Some j \<Rightarrow> j)"

definition symbol_json :: "codec \<Rightarrow> symbol_checkpoint \<Rightarrow> json" where
  "symbol_json c s =
     JObject
       [(''symbol'', JString (sc_symbol s)), (''inventory'', dec_json c (sc_inventory s)),
        (''avg_entry_price'', dec_json c (sc_avg_entry_price s)),
        (''open_order_ids'', JArray (map (\<lambda>i. JString (co_uuid c i)) (sc_open_order_ids s))),
        (''realized_pnl'', dec_json c (sc_realized_pnl s)), (''total_volume'', dec_json c (sc_total_volume s)),
        (''total_fills'', JNumber (PosInt (sc_total_fills s))),
        (''inflight_atomic_bundles'', JArray (sc_inflight_atomic_bundles s)),
        (''strategy_state'', opt_json (sc_strategy_state s)), (''engine_state'', JObject (sc_engine_state s))]"

definition symbol_of_json :: "codec \<Rightarrow> json \<Rightarrow> symbol_checkpoint option" where
  "symbol_of_json c j =
     (case (required_field as_str ''symbol'' j, required_field (co_read_decimal c) ''inventory'' j,
            required_field (co_read_decimal c) ''avg_entry_price'' j,
            required_field (read_list (read_via (co_read_uuid c))) ''open_order_ids'' j,
            required_field (co_read_decimal c) ''realized_pnl'' j, required_field (co_read_decimal c) ''total_volume'' j,
            required_field json_as_u64 ''total_fills'' j, defaulted [] json_items ''inflight_atomic_bundles'' j,
            optional Some ''strategy_state'' j, defaulted [] (read_map Some) ''engine_state'' j) of
        (Some sy, Some iv, Some av, Some oo, Some rp, Some tv, Some tf, Some ib, Some ss, Some es) \<Rightarrow>
          Some \<lparr>sc_symbol = sy, sc_inventory = iv, sc_avg_entry_price = av, sc_open_order_ids = oo, sc_realized_pnl = rp,
             sc_total_volume = tv, sc_total_fills = tf, sc_inflight_atomic_bundles = ib, sc_strategy_state = ss,
             sc_engine_state = es\<rparr>
      | _ \<Rightarrow> None)"

definition checkpoint_json :: "codec \<Rightarrow> checkpoint \<Rightarrow> json" where
  "checkpoint_json c k =
     JObject
       [(''timestamp'', JString (co_time c (ck_timestamp k))),
        (''symbols'', JObject (map (\<lambda>(n, s). (n, symbol_json c s)) (ck_symbols k))),
        (''daily_pnl'', dec_json c (ck_daily_pnl k)), (''total_realized_pnl'', dec_json c (ck_total_realized_pnl k))]"

definition checkpoint_of_json :: "codec \<Rightarrow> json \<Rightarrow> checkpoint option" where
  "checkpoint_of_json c j =
     (case (required_field (read_via (co_read_time c)) ''timestamp'' j, required_field (read_map (symbol_of_json c)) ''symbols'' j,
            required_field (co_read_decimal c) ''daily_pnl'' j, required_field (co_read_decimal c) ''total_realized_pnl'' j) of
        (Some t, Some sy, Some d, Some r) \<Rightarrow>
          Some \<lparr>ck_timestamp = t, ck_symbols = sy, ck_daily_pnl = d, ck_total_realized_pnl = r\<rparr>
      | _ \<Rightarrow> None)"

record signed_checkpoint =
  sg_version :: u32
  sg_payload :: string
  sg_signature :: string

definition envelope_json :: "signed_checkpoint \<Rightarrow> json" where
  "envelope_json e =
     JObject [(''version'', JNumber (PosInt (ucast (sg_version e)))), (''payload'', JString (sg_payload e)),
       (''signature'', JString (sg_signature e))]"

definition json_as_u32 :: "json \<Rightarrow> u32 option" where
  "json_as_u32 j = Option.bind (json_as_u64 j) (\<lambda>n. if unat n < 2 ^ 32 then Some (ucast n) else None)"

definition envelope_of_json :: "json \<Rightarrow> signed_checkpoint option" where
  "envelope_of_json j =
     (case (required_field json_as_u32 ''version'' j, required_field as_str ''payload'' j, required_field as_str ''signature'' j) of
        (Some v, Some p, Some s) \<Rightarrow> Some \<lparr>sg_version = v, sg_payload = p, sg_signature = s\<rparr>
      | _ \<Rightarrow> None)"

subsection \<open>The manager\<close>

datatype load_error = Unreadable | UnsupportedVersion u32 | HmacMismatch | Malformed

record checkpoint_store =
  st_codec :: codec
  st_pretty :: "json \<Rightarrow> string"
  st_hmac :: "string \<Rightarrow> string \<Rightarrow> string"

definition load_from_disk ::
  "checkpoint_store \<Rightarrow> file_path \<Rightarrow> string option \<Rightarrow> file_system \<Rightarrow> load_error + checkpoint" where
  "load_from_disk st p secret fs =
     (let c = st_codec st;
          read = (\<lambda>t. case Option.bind (co_parse c t) (checkpoint_of_json c) of None \<Rightarrow> Inl Malformed | Some k \<Rightarrow> Inr k)
      in case fs_read p fs of
           None \<Rightarrow> Inl Unreadable
         | Some content \<Rightarrow>
             (case Option.bind (co_parse c content) envelope_of_json of
                Some e \<Rightarrow>
                  if sg_version e \<noteq> 1 then Inl (UnsupportedVersion (sg_version e))
                  else (case secret of
                          Some s \<Rightarrow>
                            if sg_signature e \<noteq> [] \<and> sg_signature e \<noteq> st_hmac st s (sg_payload e) then Inl HmacMismatch
                            else read (sg_payload e)
                        | None \<Rightarrow> read (sg_payload e))
              | None \<Rightarrow> read content))"

record checkpoint_manager =
  cm_path :: file_path
  cm_current :: checkpoint
  cm_write_count :: nat
  cm_flush_every :: nat
  cm_secret :: "string option"

definition cm_new ::
  "checkpoint_store \<Rightarrow> file_path \<Rightarrow> nat \<Rightarrow> string option \<Rightarrow> timestamp \<Rightarrow> file_system \<Rightarrow> checkpoint_manager" where
  "cm_new st p flush_every secret now fs =
     \<lparr>cm_path = p, cm_current = (case load_from_disk st p secret fs of Inl _ \<Rightarrow> checkpoint_new now | Inr k \<Rightarrow> k),
      cm_write_count = 0, cm_flush_every = flush_every, cm_secret = secret\<rparr>"

definition fs_write :: "file_path \<Rightarrow> string \<Rightarrow> file_system \<Rightarrow> file_system" where
  "fs_write p s fs = (let (n, fs1) = fs_open_append p fs in fs1\<lparr>fs_data := (fs_data fs1)(n := s)\<rparr>)"

record store_io =
  si_write :: bool
  si_rename :: bool

definition cm_flush :: "checkpoint_store \<Rightarrow> store_io \<Rightarrow> checkpoint_manager \<Rightarrow> file_system \<Rightarrow> bool \<times> file_system" where
  "cm_flush st io m fs =
     (let payload = co_print (st_codec st) (checkpoint_json (st_codec st) (cm_current m));
          signature = (case cm_secret m of None \<Rightarrow> [] | Some s \<Rightarrow> st_hmac st s payload);
          text = st_pretty st (envelope_json \<lparr>sg_version = 1, sg_payload = payload, sg_signature = signature\<rparr>);
          tmp = (cm_path m)\<lparr>fp_ext := Some ''tmp''\<rparr>
      in if \<not> si_write io then (False, fs)
         else let fs1 = fs_write tmp text fs
              in if si_rename io then (True, fs_rename tmp (cm_path m) fs1) else (False, fs1))"

definition update_symbol ::
  "checkpoint_store \<Rightarrow> store_io \<Rightarrow> timestamp \<Rightarrow> symbol_checkpoint \<Rightarrow> checkpoint_manager \<times> file_system
    \<Rightarrow> checkpoint_manager \<times> file_system" where
  "update_symbol st io now sc s =
     (let (m, fs) = s;
          k = (cm_current m)\<lparr>ck_symbols := hm_insert (sc_symbol sc) sc (ck_symbols (cm_current m)), ck_timestamp := now\<rparr>;
          m1 = m\<lparr>cm_current := k, cm_write_count := cm_write_count m + 1\<rparr>
      in if cm_flush_every m1 \<le> cm_write_count m1
         then (m1\<lparr>cm_write_count := 0\<rparr>, snd (cm_flush st io m1 fs))
         else (m1, fs))"

definition cm_update_pnl :: "decimal \<Rightarrow> decimal \<Rightarrow> checkpoint_manager \<Rightarrow> checkpoint_manager" where
  "cm_update_pnl daily realized m =
     m\<lparr>cm_current := (cm_current m)\<lparr>ck_daily_pnl := daily, ck_total_realized_pnl := realized\<rparr>\<rparr>"

definition cm_get_symbol :: "checkpoint_manager \<Rightarrow> string \<Rightarrow> symbol_checkpoint option" where
  "cm_get_symbol m symbol = hm_get (ck_symbols (cm_current m)) symbol"

definition publish_symbol_checkpoint ::
  "checkpoint_store \<Rightarrow> store_io \<Rightarrow> timestamp \<Rightarrow> symbol_checkpoint \<Rightarrow> checkpoint_manager option \<times> file_system
    \<Rightarrow> checkpoint_manager option \<times> file_system" where
  "publish_symbol_checkpoint st io now sc s =
     (case fst s of None \<Rightarrow> s
      | Some m \<Rightarrow> (let (m', fs') = update_symbol st io now sc (m, snd s) in (Some m', fs')))"

subsection \<open>The engine's side\<close>

record ('b) checkpointed =
  ce_symbol :: string
  ce_inventory :: inventory_manager
  ce_pnl :: pnl_tracker
  ce_live_orders :: "order_id list"
  ce_bundles :: "(string, 'b) hash_map"
  ce_strategy_state :: "json option"
  ce_engine_state :: "(string, json) hash_map"

text \<open>A bundle that does not become JSON is skipped.\<close>

definition inflight_atomic_bundles_checkpoint :: "(string \<times> 'b \<Rightarrow> json option) \<Rightarrow> 'b checkpointed \<Rightarrow> json list" where
  "inflight_atomic_bundles_checkpoint bundle_json e = List.map_filter bundle_json (ce_bundles e)"

definition engine_checkpoint :: "(string \<times> 'b \<Rightarrow> json option) \<Rightarrow> 'b checkpointed \<Rightarrow> symbol_checkpoint" where
  "engine_checkpoint bundle_json e =
     (let a = pn_attribution (ce_pnl e)
      in \<lparr>sc_symbol = ce_symbol e, sc_inventory = iv_inventory (ce_inventory e),
          sc_avg_entry_price = iv_avg_entry_price (ce_inventory e), sc_open_order_ids = ce_live_orders e,
          sc_realized_pnl = pa_spread_pnl a, sc_total_volume = pa_total_volume a,
          sc_total_fills = of_nat (pa_round_trips a * 2),
          sc_inflight_atomic_bundles = inflight_atomic_bundles_checkpoint bundle_json e,
          sc_strategy_state = ce_strategy_state e, sc_engine_state = ce_engine_state e\<rparr>)"

definition with_checkpoint_restore ::
  "(json \<Rightarrow> (string \<times> 'b) option) \<Rightarrow> symbol_checkpoint \<Rightarrow> 'b checkpointed \<Rightarrow> 'b checkpointed" where
  "with_checkpoint_restore read_bundle sc e =
     (let p = ce_pnl e
      in e\<lparr>ce_inventory := force_reset_inventory_to (sc_inventory sc) (ce_inventory e),
           ce_pnl := p\<lparr>pn_attribution := (pn_attribution p)\<lparr>pa_spread_pnl := sc_realized_pnl sc\<rparr>\<rparr>,
           ce_bundles := fold (\<lambda>j m. case read_bundle j of None \<Rightarrow> m | Some (i, b) \<Rightarrow> hm_insert i b m)
                           (sc_inflight_atomic_bundles sc) (ce_bundles e)\<rparr>)"

subsection \<open>The replay of fills\<close>

record audit_event_slim =
  sl_event_type :: string
  sl_side :: "string option"
  sl_price :: "decimal option"
  sl_qty :: "decimal option"
  sl_timestamp :: "timestamp option"

definition slim_of_json :: "codec \<Rightarrow> json \<Rightarrow> audit_event_slim option" where
  "slim_of_json c j =
     (case (required_field as_str ''event_type'' j, optional as_str ''side'' j, optional (co_read_decimal c) ''price'' j,
            optional (co_read_decimal c) ''qty'' j, optional (read_via (co_read_time c)) ''timestamp'' j) of
        (Some ty, Some si, Some pr, Some qt, Some ts) \<Rightarrow>
          Some \<lparr>sl_event_type = ty, sl_side = si, sl_price = pr, sl_qty = qt, sl_timestamp = ts\<rparr>
      | _ \<Rightarrow> None)"

record fill_replay_result =
  fr_inventory :: decimal
  fr_realized_pnl :: decimal
  fr_fill_count :: nat
  fr_total_volume :: decimal
  fr_last_fill_at :: "timestamp option"

definition replay_fill :: "string \<Rightarrow> decimal \<Rightarrow> decimal \<Rightarrow> timestamp option \<Rightarrow> fill_replay_result \<times> decimal \<Rightarrow> fill_replay_result \<times> decimal" where
  "replay_fill s price q ts acc =
     (let (r, last_mid) = acc;
          capture = (if 0 < last_mid
                     then (if s = ''Buy'' then (last_mid - price) * q else if s = ''Sell'' then (price - last_mid) * q else 0)
                     else 0);
          move = (if s = ''Buy'' then q else if s = ''Sell'' then - q else 0)
      in (\<lparr>fr_inventory = fr_inventory r + move, fr_realized_pnl = fr_realized_pnl r + capture,
           fr_fill_count = fr_fill_count r + 1, fr_total_volume = fr_total_volume r + price * q, fr_last_fill_at = ts\<rparr>, price))"

definition replay_line :: "codec \<Rightarrow> string \<Rightarrow> fill_replay_result \<times> decimal \<Rightarrow> fill_replay_result \<times> decimal" where
  "replay_line c line acc =
     (case Option.bind (co_parse c line) (slim_of_json c) of
        None \<Rightarrow> acc
      | Some e \<Rightarrow>
          if sl_event_type e \<noteq> ''order_filled'' then acc
          else (case (sl_side e, sl_price e, sl_qty e) of
                  (Some s, Some p, Some q) \<Rightarrow> replay_fill s p q (sl_timestamp e) acc
                | _ \<Rightarrow> acc))"

definition replay_fills_from_audit :: "codec \<Rightarrow> file_path \<Rightarrow> file_system \<Rightarrow> fill_replay_result option" where
  "replay_fills_from_audit c p fs =
     Option.bind (fs_read p fs) (\<lambda>content.
       let (r, _) = fold (replay_line c) (str_lines content)
             (\<lparr>fr_inventory = 0, fr_realized_pnl = 0, fr_fill_count = 0, fr_total_volume = 0, fr_last_fill_at = None\<rparr>, 0)
       in if fr_fill_count r = 0 then None else Some r)"

definition validate_checkpoint_against_replay ::
  "(decimal \<Rightarrow> string) \<Rightarrow> symbol_checkpoint \<Rightarrow> fill_replay_result \<Rightarrow> decimal \<Rightarrow> string list" where
  "validate_checkpoint_against_replay sd k r tolerance =
     (let inv_diff = \<bar>sc_inventory k - fr_inventory r\<bar>
      in (if tolerance < inv_diff
          then [''inventory mismatch: checkpoint='' @ sd (sc_inventory k) @ '', replay='' @ sd (fr_inventory r) @ '', diff='' @ sd inv_diff]
          else [])
         @ (if unat (sc_total_fills k) \<noteq> fr_fill_count r
            then [''fill count mismatch: checkpoint='' @ show_nat (unat (sc_total_fills k)) @ '', replay='' @ show_nat (fr_fill_count r)]
            else []))"


subsection \<open>The replay of the log's own fills\<close>

lemma event_label_filled: "event_label t = ''order_filled'' \<longleftrightarrow> t = OrderFilled"
proof -
  have "event_label OrderFilled = ''order_filled''"
    by (simp add: event_label_def snake_case_def is_upper_def lower_def code_of_def char_of_def bit_0)
  then show ?thesis using event_of_event_label [of t] event_of_event_label [of OrderFilled] by (metis option.inject)
qed

lemma slim_of_event:
  assumes "codec_ok c" and "event_ok e"
  shows "slim_of_json c (event_json c e) =
    Some \<lparr>sl_event_type = event_label (ae_event_type e), sl_side = map_option side_label (ae_side e), sl_price = ae_price e,
       sl_qty = ae_qty e, sl_timestamp = Some (ae_timestamp e)\<rparr>"
proof -
  define es where "es = (''seq'', JNumber (PosInt (ae_seq e))) # (''timestamp'', JString (co_time c (ae_timestamp e)))
        # (''event_type'', JString (event_label (ae_event_type e))) # (''symbol'', JString (ae_symbol e))
        # entry_opt ''client_id'' JString (ae_client_id e)
        @ entry_opt ''order_id'' (\<lambda>u. JString (co_uuid c u)) (ae_order_id e)
        @ entry_opt ''side'' (\<lambda>s. JString (side_label s)) (ae_side e)
        @ entry_opt ''price'' (\<lambda>d. JString (co_decimal c d)) (ae_price e)
        @ entry_opt ''qty'' (\<lambda>d. JString (co_decimal c d)) (ae_qty e)
        @ entry_opt ''detail'' JString (ae_detail e)
        @ entry_opt ''prev_hash'' JString (ae_prev_hash e)"
  have j: "event_json c e = JObject es" by (simp add: event_json_def es_def)
  have side: "filter (\<lambda>e. fst e = ''side'') es = entry_opt ''side'' JString (map_option side_label (ae_side e))"
    by (cases "ae_side e") (simp_all add: es_def entry_opt_def)
  have r: "required_field as_str ''event_type'' (JObject es) = Some (event_label (ae_event_type e))"
    by (simp add: required_field_def json_field_def es_def)
  have o: "optional as_str ''side'' (JObject es) = Some (map_option side_label (ae_side e))"
    "optional (co_read_decimal c) ''price'' (JObject es) = Some (ae_price e)"
    "optional (co_read_decimal c) ''qty'' (JObject es) = Some (ae_qty e)"
    "optional (read_via (co_read_time c)) ''timestamp'' (JObject es) = Some (Some (ae_timestamp e))"
    using assms optional_opt [OF side, of as_str]
    by (auto intro!: optional_opt [where wr = "\<lambda>d. JString (co_decimal c d)"]
        optional_opt [where wr = "\<lambda>t. JString (co_time c t)"] simp: es_def read_via_def codec_ok_def event_ok_def entry_opt_def)
  show ?thesis unfolding j slim_of_json_def r o by simp
qed

definition is_fill_event :: "audit_event \<Rightarrow> bool" where
  "is_fill_event e \<longleftrightarrow> ae_event_type e = OrderFilled \<and> ae_side e \<noteq> None \<and> ae_price e \<noteq> None \<and> ae_qty e \<noteq> None"

definition event_value :: "audit_event \<Rightarrow> decimal" where
  "event_value e = the (ae_price e) * the (ae_qty e)"

definition flat_replay :: "nat \<Rightarrow> decimal \<Rightarrow> timestamp option \<Rightarrow> fill_replay_result" where
  "flat_replay n v ts =
     \<lparr>fr_inventory = 0, fr_realized_pnl = 0, fr_fill_count = n, fr_total_volume = v, fr_last_fill_at = ts\<rparr>"

lemma replay_row:
  assumes "codec_ok c" and "event_ok e"
  shows "\<exists>lm'. replay_line c (row_of c e) (flat_replay n v ts, lm) =
    (if is_fill_event e then (flat_replay (n + 1) (v + event_value e) (Some (ae_timestamp e)), lm') else (flat_replay n v ts, lm))"
proof -
  have p: "Option.bind (co_parse c (row_of c e)) (slim_of_json c) = slim_of_json c (event_json c e)"
    using assms(1) writable_event_json [OF assms] by (simp add: codec_ok_def row_of_def)
  have "side_label s \<noteq> ''Buy'' \<and> side_label s \<noteq> ''Sell''" for s by (cases s) auto
  then show ?thesis
    unfolding replay_line_def p slim_of_event [OF assms]
    by (auto simp: is_fill_event_def event_label_filled event_value_def flat_replay_def replay_fill_def Let_def split: option.splits)
qed

lemma replay_rows:
  assumes "codec_ok c" and "\<And>e. e \<in> set evs \<Longrightarrow> event_ok e"
  shows "\<exists>lm'. fold (replay_line c) (map (row_of c) evs) (flat_replay n v ts, lm) =
    (flat_replay (n + length (filter is_fill_event evs)) (v + sum_list (map event_value (filter is_fill_event evs)))
       (if filter is_fill_event evs = [] then ts else Some (ae_timestamp (last (filter is_fill_event evs)))), lm')"
  using assms(2)
proof (induction evs arbitrary: n v ts lm)
  case (Cons e evs)
  have IH: "\<exists>lm'. fold (replay_line c) (map (row_of c) evs) (flat_replay n v ts, lm) =
    (flat_replay (n + length (filter is_fill_event evs)) (v + sum_list (map event_value (filter is_fill_event evs)))
       (if filter is_fill_event evs = [] then ts else Some (ae_timestamp (last (filter is_fill_event evs)))), lm')"
    for n v ts lm using Cons.IH Cons.prems by simp
  obtain lm' where "replay_line c (row_of c e) (flat_replay n v ts, lm) =
      (if is_fill_event e then (flat_replay (n + 1) (v + event_value e) (Some (ae_timestamp e)), lm') else (flat_replay n v ts, lm))"
    using replay_row [OF assms(1)] Cons.prems by (meson list.set_intros(1))
  then show ?case
    using IH [of "n + 1" "v + event_value e" "Some (ae_timestamp e)" lm'] IH [of n v ts lm]
    by (cases "is_fill_event e") (auto simp: algebra_simps)
qed simp

text \<open>
  C38: the replay never sees a position. Of a file that holds rows the audit log wrote, the replay
  counts the fills, their volume and the last of their times right, but its inventory and its profit are zero whatever was
  filled: the log writes the side in lower case and the replay compares with the capitalised names.
\<close>

theorem replay_of_audit_log_is_flat:
  assumes "codec_ok c" and "\<And>e. e \<in> set evs \<Longrightarrow> event_ok e" and "fs_read p fs = Some (text_of (map (row_of c) evs))"
  defines "fills \<equiv> filter is_fill_event evs"
  shows "replay_fills_from_audit c p fs =
    (if fills = [] then None
     else Some \<lparr>fr_inventory = 0, fr_realized_pnl = 0, fr_fill_count = length fills,
                fr_total_volume = sum_list (map event_value fills), fr_last_fill_at = Some (ae_timestamp (last fills))\<rparr>)"
proof -
  obtain lm where "fold (replay_line c) (map (row_of c) evs) (flat_replay 0 0 None, 0) =
    (flat_replay (length fills) (sum_list (map event_value fills)) (if fills = [] then None else Some (ae_timestamp (last fills))), lm)"
    using replay_rows [OF assms(1,2), of evs 0 0 None 0] by (auto simp: fills_def)
  moreover have "str_lines (text_of (map (row_of c) evs)) = map (row_of c) evs"
    by (rule str_lines_text) (use row_read(1) [OF assms(1)] assms(2) in auto)
  ultimately show ?thesis
    by (simp add: replay_fills_from_audit_def assms(3) flat_replay_def)
qed

definition demo_buy :: audit_event where
  "demo_buy = order_filled ''BTCUSDT'' 7 Buy 100 2 True"

lemma is_decimal_int: "\<bar>i\<bar> < 2 ^ 96 \<Longrightarrow> is_decimal (of_int i)"
  unfolding is_decimal_def by (intro exI [of _ i] exI [of _ 0]) simp

lemma demo_buy_ok: "event_ok demo_buy"
  using is_decimal_int [of 100] is_decimal_int [of 2] by (simp add: demo_buy_def order_filled_def event_ok_def plain_event_def is_time_def is_uuid_def)

definition demo_trail :: file_system where
  "demo_trail = \<lparr>fs_names = [(demo_path, 0)], fs_data = (\<lambda>_. text_of (map (row_of sample_codec) [demo_buy])), fs_next = 1\<rparr>"

theorem replay_of_audit_log_is_flat_witness:
  "replay_fills_from_audit sample_codec demo_path demo_trail =
     Some \<lparr>fr_inventory = 0, fr_realized_pnl = 0, fr_fill_count = 1, fr_total_volume = 200, fr_last_fill_at = Some 0\<rparr>"
proof -
  have "one_line (row_of sample_codec demo_buy)" by (rule row_read(1) [OF sample_codec_ok demo_buy_ok])
  then have "fs_read demo_path demo_trail = Some (text_of (map (row_of sample_codec) [demo_buy]))"
    using text_of_utf8 [of "[row_of sample_codec demo_buy]"] by (simp add: fs_read_def demo_trail_def hm_get_def)
  from replay_of_audit_log_is_flat [OF sample_codec_ok _ this] demo_buy_ok
  show ?thesis by (simp add: is_fill_event_def demo_buy_def order_filled_def plain_event_def event_value_def)
qed


subsection \<open>A checkpoint survives a restart\<close>

text \<open>
  What the types of the source give, and two limits of the JSON library: no floating-point number in the opaque
  states, and no nesting that passes 127 levels with the levels around them.
\<close>

definition symbol_ok :: "symbol_checkpoint \<Rightarrow> bool" where
  "symbol_ok s \<longleftrightarrow>
     utf8_valid (sc_symbol s) \<and> list_all is_uuid (sc_open_order_ids s) \<and>
     is_decimal (sc_inventory s) \<and> is_decimal (sc_avg_entry_price s) \<and> is_decimal (sc_realized_pnl s) \<and>
     is_decimal (sc_total_volume s) \<and> list_all (\<lambda>j. plain j \<and> nested 123 j) (sc_inflight_atomic_bundles s) \<and>
     sc_strategy_state s \<noteq> Some JNull \<and> plain (opt_json (sc_strategy_state s)) \<and> nested 124 (opt_json (sc_strategy_state s)) \<and>
     hm_ok (sc_engine_state s) \<and> list_all (\<lambda>e. utf8_valid (fst e) \<and> plain (snd e) \<and> nested 123 (snd e)) (sc_engine_state s)"

definition checkpoint_ok :: "checkpoint \<Rightarrow> bool" where
  "checkpoint_ok k \<longleftrightarrow>
     is_time (ck_timestamp k) \<and> hm_ok (ck_symbols k) \<and> list_all (\<lambda>e. utf8_valid (fst e) \<and> symbol_ok (snd e)) (ck_symbols k) \<and>
     is_decimal (ck_daily_pnl k) \<and> is_decimal (ck_total_realized_pnl k)"

definition store_ok :: "checkpoint_store \<Rightarrow> bool" where
  "store_ok st \<longleftrightarrow>
     codec_ok (st_codec st) \<and>
     (\<forall>j. writable j \<longrightarrow> co_parse (st_codec st) (st_pretty st j) = Some j \<and> utf8_valid (st_pretty st j)) \<and>
     (\<forall>s t. utf8_valid (st_hmac st s t))"

lemma those_map: "(\<And>x. x \<in> set xs \<Longrightarrow> f x = Some (g x)) \<Longrightarrow> those (map f xs) = Some (map g xs)"
  by (induction xs) auto

lemma insert_absent: "k \<notin> fst ` set m \<Longrightarrow> hm_insert k v m = m @ [(k, v)]"
  by (induction m) (auto simp: hm_insert_def)

lemma fold_insert: "distinct (map fst (acc @ es)) \<Longrightarrow> fold (\<lambda>(k, v) m. hm_insert k v m) es acc = acc @ es"
  by (induction es arbitrary: acc) (auto simp: insert_absent)

lemma read_map_written:
  assumes "hm_ok m" and "\<And>k v. (k, v) \<in> set m \<Longrightarrow> rd (wr v) = Some v"
  shows "read_map rd (JObject (map (\<lambda>(k, v). (k, wr v)) m)) = Some m"
proof -
  let ?es = "map (\<lambda>(k, v). (k, wr v)) m"
  have vs: "those (map (rd \<circ> snd) ?es) = Some (map snd m)"
    using assms(2) by (subst map_map) (rule those_map, auto)
  have ks: "map fst ?es = map fst m" by (induction m) auto
  have "fold (\<lambda>(k, v) m. hm_insert k v m) m [] = m" using fold_insert [of "[]" m] assms(1) by (simp add: hm_ok_def)
  then show ?thesis unfolding read_map_def json_entries_def json.case Option.bind.simps vs ks zip_map_fst_snd option.map by simp
qed

lemma read_ids:
  assumes "codec_ok c" and "list_all is_uuid ids"
  shows "read_list (read_via (co_read_uuid c)) (JArray (map (\<lambda>i. JString (co_uuid c i)) ids)) = Some ids"
proof -
  have "those (map (read_via (co_read_uuid c) \<circ> (\<lambda>i. JString (co_uuid c i))) ids) = Some (map (\<lambda>i. i) ids)"
    using assms by (intro those_map) (simp add: read_via_def codec_ok_def list_all_iff)
  then show ?thesis by (simp add: read_list_def json_items_def)
qed

lemma symbol_json_read:
  assumes "codec_ok c" and "symbol_ok s"
  shows "symbol_of_json c (symbol_json c s) = Some s"
proof -
  have d: "is_decimal x \<Longrightarrow> co_read_decimal c (dec_json c x) = Some x" for x
    using assms(1) by (simp add: codec_ok_def dec_json_def)
  have es: "read_map Some (JObject (sc_engine_state s)) = Some (sc_engine_state s)"
    using read_map_written [of "sc_engine_state s" Some "\<lambda>j. j"] assms(2) by (simp add: symbol_ok_def)
  have ss: "optional Some ''strategy_state'' (symbol_json c s) = Some (sc_strategy_state s)"
    using assms(2) by (cases "sc_strategy_state s") (auto simp: optional_def json_field_def symbol_json_def opt_json_def symbol_ok_def)
  show ?thesis
    using assms(2) d read_ids [OF assms(1), of "sc_open_order_ids s"] es
    unfolding symbol_of_json_def ss
    by (simp add: symbol_json_def required_field_def defaulted_def json_field_def symbol_ok_def json_items_def)
qed

lemma checkpoint_json_read:
  assumes "codec_ok c" and "checkpoint_ok k"
  shows "checkpoint_of_json c (checkpoint_json c k) = Some k"
proof -
  have d: "is_decimal x \<Longrightarrow> co_read_decimal c (dec_json c x) = Some x" for x
    using assms(1) by (simp add: codec_ok_def dec_json_def)
  have m: "read_map (symbol_of_json c) (JObject (map (\<lambda>(n, s). (n, symbol_json c s)) (ck_symbols k))) = Some (ck_symbols k)"
    using assms by (intro read_map_written symbol_json_read) (auto simp: checkpoint_ok_def list_all_iff)
  show ?thesis
    using assms d m by (simp add: checkpoint_of_json_def checkpoint_json_def required_field_def json_field_def read_via_def codec_ok_def checkpoint_ok_def)
qed

lemma checkpoint_keys_utf8:
  "list_all utf8_valid [''symbol'', ''inventory'', ''avg_entry_price'', ''open_order_ids'', ''realized_pnl'', ''total_volume'',
     ''total_fills'', ''inflight_atomic_bundles'', ''strategy_state'', ''engine_state'', ''timestamp'', ''symbols'', ''daily_pnl'',
     ''total_realized_pnl'', ''version'', ''payload'', ''signature'']"
  by code_simp

lemmas checkpoint_keys = checkpoint_keys_utf8 [unfolded list.pred_inject]

lemma writable_symbol_json:
  assumes "codec_ok c" and "symbol_ok s"
  shows "plain (symbol_json c s)" and "nested 125 (symbol_json c s)"
proof -
  have c: "utf8_valid (co_decimal c d)" "utf8_valid (co_uuid c u)" for d u using assms(1) by (simp_all add: codec_ok_def)
  show "plain (symbol_json c s)"
    using assms(2) c checkpoint_keys by (auto simp: symbol_json_def symbol_ok_def dec_json_def list_all_iff)
  show "nested 125 (symbol_json c s)"
    using assms(2) by (auto simp: symbol_json_def symbol_ok_def dec_json_def list_all_iff)
qed

lemma writable_checkpoint_json:
  assumes "codec_ok c" and "checkpoint_ok k"
  shows "writable (checkpoint_json c k)"
proof -
  have c: "utf8_valid (co_decimal c d)" "utf8_valid (co_time c t)" for d t using assms(1) by (simp_all add: codec_ok_def)
  have "plain (checkpoint_json c k)"
    using assms(2) c checkpoint_keys writable_symbol_json(1) [OF assms(1)]
    by (auto simp: checkpoint_json_def checkpoint_ok_def dec_json_def list_all_iff)
  moreover have "nested 127 (checkpoint_json c k)"
    using assms(2) writable_symbol_json(2) [OF assms(1)]
    by (auto simp: checkpoint_json_def checkpoint_ok_def dec_json_def list_all_iff)
  ultimately show ?thesis by (simp add: writable_def)
qed

lemma envelope_read: "envelope_of_json (envelope_json e) = Some e"
proof -
  have "uint (sg_version e) < 2 ^ 32" "0 \<le> uint (sg_version e)" using uint_bounded [of "sg_version e"] by simp_all
  then have "uint (ucast (sg_version e) :: u64) < 2 ^ 32" by (simp add: unsigned_ucast_eq take_bit_eq_mod)
  then have "unat (ucast (sg_version e) :: u64) < 2 ^ 32" by (simp add: nat_less_iff flip: nat_uint_eq)
  moreover have "(ucast (ucast (sg_version e) :: u64) :: u32) = sg_version e" by (rule bit_word_eqI) (simp add: bit_simps)
  ultimately show ?thesis
    by (simp add: envelope_json_def envelope_of_json_def required_field_def json_field_def json_as_u32_def)
qed

lemma writable_envelope: "utf8_valid (sg_payload e) \<Longrightarrow> utf8_valid (sg_signature e) \<Longrightarrow> writable (envelope_json e)"
  using checkpoint_keys by (simp add: envelope_json_def writable_def)

text \<open>What a file with an envelope, and one with a bare checkpoint, loads as.\<close>

lemma load_envelope:
  assumes "store_ok st" and "checkpoint_ok k" and "sg_version e = 1"
    and "sg_payload e = co_print (st_codec st) (checkpoint_json (st_codec st) k)"
    and "fs_read p fs = Some (st_pretty st (envelope_json e))" and "utf8_valid (sg_signature e)"
  shows "load_from_disk st p secret fs =
    (if sg_signature e \<noteq> [] \<and> (\<exists>s. secret = Some s \<and> sg_signature e \<noteq> st_hmac st s (sg_payload e)) then Inl HmacMismatch else Inr k)"
proof -
  have payload: "utf8_valid (sg_payload e)"
    using assms(1,4) writable_checkpoint_json [OF _ assms(2)] by (simp add: store_ok_def codec_ok_def one_line_def)
  have e: "Option.bind (co_parse (st_codec st) (st_pretty st (envelope_json e))) envelope_of_json = Some e"
    using assms(1) writable_envelope [OF payload assms(6)] envelope_read by (simp add: store_ok_def)
  have k: "Option.bind (co_parse (st_codec st) (sg_payload e)) (checkpoint_of_json (st_codec st)) = Some k"
    using assms(1) writable_checkpoint_json [OF _ assms(2)] checkpoint_json_read [OF _ assms(2)]
    by (simp add: store_ok_def codec_ok_def assms(4))
  show ?thesis
    by (cases secret) (simp_all add: load_from_disk_def assms(3,5) e k)
qed

lemma load_bare:
  assumes "store_ok st" and "checkpoint_ok k"
    and "fs_read p fs = Some (co_print (st_codec st) (checkpoint_json (st_codec st) k))"
  shows "load_from_disk st p secret fs = Inr k"
proof -
  have "co_parse (st_codec st) (co_print (st_codec st) (checkpoint_json (st_codec st) k)) = Some (checkpoint_json (st_codec st) k)"
    using assms(1) writable_checkpoint_json [OF _ assms(2)] by (simp add: store_ok_def codec_ok_def)
  moreover have "envelope_of_json (checkpoint_json (st_codec st) k) = None"
    by (simp add: envelope_of_json_def checkpoint_json_def required_field_def json_field_def)
  ultimately show ?thesis
    using checkpoint_json_read [OF _ assms(2)] assms(1) by (simp add: load_from_disk_def assms(3) store_ok_def)
qed

lemma written_renamed:
  assumes "utf8_valid text"
  shows "fs_read p (fs_rename q p (fs_write q text fs)) = Some text"
  using assms
  by (auto simp: fs_read_def fs_rename_def fs_write_def fs_open_append_def hm_get_def hm_insert_def update_conv' split: option.splits)

text \<open>
  C37: a checkpoint survives a restart. If the write and the rename of a flush succeed, the flush does, and a
  process that opens the same path with the same secret, or with none, starts from exactly
  the checkpoint that was flushed: positions, orders, in-flight bundles and the states of strategies and tuners
  included, as long as the decimals are ones \<^verbatim>\<open>Decimal\<close> can hold and the bundles and states have no
  floating-point number in them, are no bare null and are nested less than 124 deep.
\<close>

theorem checkpoint_survives_restart:
  assumes "store_ok st" and "checkpoint_ok (cm_current m)" and "si_write io" and "si_rename io"
    and "secret = cm_secret m \<or> secret = None"
  shows "fst (cm_flush st io m fs) \<and>
    cm_current (cm_new st (cm_path m) n secret now (snd (cm_flush st io m fs))) = cm_current m"
proof -
  define payload where "payload = co_print (st_codec st) (checkpoint_json (st_codec st) (cm_current m))"
  define e where "e = \<lparr>sg_version = 1, sg_payload = payload,
      sg_signature = (case cm_secret m of None \<Rightarrow> [] | Some s \<Rightarrow> st_hmac st s payload)\<rparr>"
  have f: "cm_flush st io m fs = (True, fs_rename ((cm_path m)\<lparr>fp_ext := Some ''tmp''\<rparr>) (cm_path m)
      (fs_write ((cm_path m)\<lparr>fp_ext := Some ''tmp''\<rparr>) (st_pretty st (envelope_json e)) fs))"
    using assms(3,4) by (simp add: cm_flush_def e_def payload_def Let_def cong: option.case_cong)
  have pay: "utf8_valid payload"
    using assms(1) writable_checkpoint_json [OF _ assms(2)] by (simp add: payload_def store_ok_def codec_ok_def one_line_def)
  have sig: "utf8_valid (sg_signature e)" using assms(1) by (simp add: e_def store_ok_def split: option.split)
  have valid: "utf8_valid (st_pretty st (envelope_json e))"
    using assms(1) writable_envelope [OF _ sig] pay by (simp add: store_ok_def e_def)
  have e: "sg_version e = 1" "sg_payload e = payload"
    "\<And>s. cm_secret m = Some s \<Longrightarrow> sg_signature e = st_hmac st s payload" by (simp_all add: e_def)
  from written_renamed [OF valid] have disk: "fs_read (cm_path m) (snd (cm_flush st io m fs)) = Some (st_pretty st (envelope_json e))"
    unfolding f by simp
  have "load_from_disk st (cm_path m) secret (snd (cm_flush st io m fs)) = Inr (cm_current m)"
    using load_envelope [OF assms(1,2) e(1) e(2) [unfolded payload_def] disk sig, of secret] e assms(5) by auto
  then show ?thesis by (simp add: cm_new_def f)
qed

text \<open>
  A forged checkpoint is accepted when it carries no signature. With a secret configured, a
  file whose signature is neither empty nor right is refused and the manager starts fresh. But
  whoever can write the file needs no secret: an envelope with an empty signature, or the bare checkpoint
  without an envelope, is loaded whatever it says.
\<close>

theorem unsigned_forgery_accepted:
  assumes "store_ok st" and "checkpoint_ok forged"
    and "payload = co_print (st_codec st) (checkpoint_json (st_codec st) forged)"
  shows "(fs_read p fs = Some (st_pretty st (envelope_json \<lparr>sg_version = 1, sg_payload = payload, sg_signature = []\<rparr>)) \<or>
            fs_read p fs = Some payload \<longrightarrow>
          cm_current (cm_new st p n (Some secret) now fs) = forged) \<and>
         (fs_read p fs = Some (st_pretty st (envelope_json \<lparr>sg_version = 1, sg_payload = payload, sg_signature = sig\<rparr>)) \<and>
            utf8_valid sig \<and> sig \<noteq> [] \<and> sig \<noteq> st_hmac st secret payload \<longrightarrow>
          cm_current (cm_new st p n (Some secret) now fs) = checkpoint_new now)"
  using load_envelope [OF assms(1,2), of "\<lparr>sg_version = 1, sg_payload = payload, sg_signature = []\<rparr>" p fs "Some secret"]
    load_envelope [OF assms(1,2), of "\<lparr>sg_version = 1, sg_payload = payload, sg_signature = sig\<rparr>" p fs "Some secret"]
    load_bare [OF assms(1,2), of p fs "Some secret"]
  by (auto simp: cm_new_def assms(3))

subsection \<open>What a restored engine knows\<close>

text \<open>
  C39: a restored position has no cost. A fresh engine that takes up a checkpoint with an open position gets
  the quantity but not the entry price: its unrealised profit is zero at every mark, its attribution
  marks nothing to market, and the next checkpoint it writes is one the validation objects to.
\<close>

theorem restored_position_has_no_cost:
  assumes "ce_inventory e = iv_new" and "pn_inventory (ce_pnl e) = 0" and "sc_inventory sc \<noteq> 0"
    and "hm_get (ck_symbols k) (ce_symbol e) = Some (engine_checkpoint bj (with_checkpoint_restore rb sc e))"
  shows "iv_inventory (ce_inventory (with_checkpoint_restore rb sc e)) = sc_inventory sc \<and>
    unrealized_pnl (ce_inventory (with_checkpoint_restore rb sc e)) mark = 0 \<and>
    pa_inventory_pnl (pn_attribution (pn_mark_to_market mark (ce_pnl (with_checkpoint_restore rb sc e)))) =
      pa_inventory_pnl (pn_attribution (ce_pnl e)) \<and>
    ck_validate sd now k \<noteq> []"
proof -
  let ?sc = "engine_checkpoint bj (with_checkpoint_restore rb sc e)"
  have "sc_inventory ?sc = sc_inventory sc" "sc_avg_entry_price ?sc = 0"
    using assms(1) by (simp_all add: engine_checkpoint_def with_checkpoint_restore_def force_reset_inventory_to_def iv_new_def Let_def)
  then have "symbol_issues sd (ce_symbol e, ?sc) \<noteq> []" using assms(3) by (simp add: symbol_issues_def)
  moreover have "(ce_symbol e, ?sc) \<in> set (ck_symbols k)" using assms(4) by (simp add: hm_get_def map_of_SomeD)
  ultimately have "ck_validate sd now k \<noteq> []" by (auto simp: ck_validate_def)
  then show ?thesis
    using assms(1,2)
    by (simp add: with_checkpoint_restore_def force_reset_inventory_to_def iv_new_def unrealized_pnl_def pn_mark_to_market_def Let_def)
qed


subsection \<open>Instances\<close>

definition sample_store :: checkpoint_store where
  "sample_store = \<lparr>st_codec = sample_codec, st_pretty = put_json, st_hmac = (\<lambda>s p. put_str (s @ p))\<rparr>"

lemma sample_store_ok: "store_ok sample_store"
proof -
  have "utf8_valid (put_str s)" for s by (rule printable_utf8) (rule printable_parts)
  then show ?thesis
    using sample_codec_ok by (simp add: store_ok_def sample_store_def codec_ok_def one_line_def) (simp add: sample_codec_def)
qed

definition demo_symbol :: symbol_checkpoint where
  "demo_symbol =
     \<lparr>sc_symbol = ''BTCUSDT'', sc_inventory = 2, sc_avg_entry_price = 100, sc_open_order_ids = [7], sc_realized_pnl = 5,
      sc_total_volume = 400, sc_total_fills = 2, sc_inflight_atomic_bundles = [], sc_strategy_state = None, sc_engine_state = []\<rparr>"

definition demo_checkpoint :: checkpoint where
  "demo_checkpoint = \<lparr>ck_timestamp = 5, ck_symbols = [(''BTCUSDT'', demo_symbol)], ck_daily_pnl = 5, ck_total_realized_pnl = 5\<rparr>"

lemma demo_checkpoint_ok: "checkpoint_ok demo_checkpoint"
  using is_decimal_int [of 2] is_decimal_int [of 100] is_decimal_int [of 5] is_decimal_int [of 400]
  by (simp add: checkpoint_ok_def demo_checkpoint_def symbol_ok_def demo_symbol_def hm_ok_def opt_json_def is_time_def is_uuid_def)

definition demo_manager :: checkpoint_manager where
  "demo_manager = \<lparr>cm_path = demo_path, cm_current = demo_checkpoint, cm_write_count = 0, cm_flush_every = 10, cm_secret = Some ''key''\<rparr>"

theorem checkpoint_survives_restart_witness:
  "cm_current (cm_new sample_store demo_path 10 (Some ''key'') 9
     (snd (cm_flush sample_store \<lparr>si_write = True, si_rename = True\<rparr> demo_manager empty_fs))) = demo_checkpoint"
  using checkpoint_survives_restart [OF sample_store_ok, of demo_manager "\<lparr>si_write = True, si_rename = True\<rparr>" "Some ''key''"
      empty_fs 10 9] demo_checkpoint_ok
  by (simp add: demo_manager_def)

definition demo_forged :: file_system where
  "demo_forged = \<lparr>fs_names = [(demo_path, 0)], fs_data = (\<lambda>_. put_json (checkpoint_json sample_codec demo_checkpoint)), fs_next = 1\<rparr>"

theorem unsigned_forgery_accepted_witness:
  "cm_current (cm_new sample_store demo_path 10 (Some ''key'') 9 demo_forged) = demo_checkpoint"
proof -
  let ?p = "co_print (st_codec sample_store) (checkpoint_json (st_codec sample_store) demo_checkpoint)"
  have p: "?p = put_json (checkpoint_json sample_codec demo_checkpoint)" by (simp add: sample_store_def) (simp add: sample_codec_def)
  have "utf8_valid (put_json (checkpoint_json sample_codec demo_checkpoint))"
    using sample_store_ok writable_checkpoint_json [OF sample_codec_ok demo_checkpoint_ok] by (simp add: store_ok_def sample_store_def)
  then have "fs_read demo_path demo_forged = Some ?p"
    unfolding p by (simp add: fs_read_def demo_forged_def hm_get_def)
  then show ?thesis using unsigned_forgery_accepted [OF sample_store_ok demo_checkpoint_ok refl] by blast
qed

definition demo_fresh_engine :: "unit checkpointed" where
  "demo_fresh_engine =
     \<lparr>ce_symbol = ''BTCUSDT'', ce_inventory = iv_new, ce_pnl = pn_new 0 0, ce_live_orders = [], ce_bundles = [],
      ce_strategy_state = None, ce_engine_state = []\<rparr>"

theorem restored_position_has_no_cost_witness:
  "iv_inventory (ce_inventory (with_checkpoint_restore (\<lambda>_. None) demo_symbol demo_fresh_engine)) = 2 \<and>
   unrealized_pnl (ce_inventory (with_checkpoint_restore (\<lambda>_. None) demo_symbol demo_fresh_engine)) 50 = 0"
proof -
  let ?k = "demo_checkpoint\<lparr>ck_symbols := [(''BTCUSDT'', engine_checkpoint (\<lambda>_. None)
      (with_checkpoint_restore (\<lambda>_. None) demo_symbol demo_fresh_engine))]\<rparr>"
  have "hm_get (ck_symbols ?k) (ce_symbol demo_fresh_engine) =
      Some (engine_checkpoint (\<lambda>_. None) (with_checkpoint_restore (\<lambda>_. None) demo_symbol demo_fresh_engine))"
    by (simp add: hm_get_def demo_fresh_engine_def)
  from restored_position_has_no_cost [OF _ _ _ this, of 50 "\<lambda>_. []" 9] show ?thesis
    by (simp add: demo_fresh_engine_def demo_symbol_def pn_new_def)
qed

end
