(* ===== verification/Decision_Ledger.thy ===== *)
theory Decision_Ledger
  imports Common_Types Std_Maps
begin

section \<open>The decision ledger\<close>

text \<open>
  \<^verbatim>\<open>crates/risk/src/decision_ledger.rs\<close>: the bounded ring of recent quote decisions, the orders bound to them and
  the cost of their fills. Positions in the ring are found through ranks, the number of decisions recorded
  before; the specification is the unbounded history. A fresh identifier is an argument; the lock and the
  copies made for the API are left out.
\<close>

subsection \<open>The ring\<close>

record resolved_cost =
  rc_tick_ms :: timestamp
  rc_fill_price :: decimal
  rc_fill_qty :: decimal
  rc_realized_cost_bps :: decimal
  rc_vs_expected_bps :: "decimal option"

record decision_record =
  dr_id :: uuid
  dr_tick_ms :: timestamp
  dr_symbol :: string
  dr_side :: side
  dr_target_qty :: decimal
  dr_mid_at_decision :: decimal
  dr_expected_cost_bps :: "decimal option"
  dr_resolved :: "resolved_cost list"

record decision_ledger =
  dl_records :: "decision_record list"
  dl_by_id :: "(uuid, nat) hash_map"
  dl_by_order :: "(order_id, uuid) hash_map"
  dl_capacity :: nat
  dl_next_rank :: nat
  dl_front_rank :: nat

text \<open>A capacity of zero panics.\<close>

definition dl_new :: "nat \<Rightarrow> decision_ledger option" where
  "dl_new capacity =
     (if 0 < capacity
      then Some \<lparr>dl_records = [], dl_by_id = [], dl_by_order = [], dl_capacity = capacity, dl_next_rank = 0, dl_front_rank = 0\<rparr>
      else None)"

primrec evict_from :: "decision_record list \<Rightarrow> decision_ledger \<Rightarrow> decision_ledger" where
  "evict_from [] g = g\<lparr>dl_records := []\<rparr>"
| "evict_from (dropped # rs) g =
     (if dl_capacity g \<le> length (dropped # rs)
      then evict_from rs (g\<lparr>dl_by_id := hm_remove (dr_id dropped) (dl_by_id g),
                            dl_by_order := filter (\<lambda>e. snd e \<noteq> dr_id dropped) (dl_by_order g),
                            dl_front_rank := dl_front_rank g + 1\<rparr>)
      else g\<lparr>dl_records := dropped # rs\<rparr>)"

definition record_decision ::
  "uuid \<Rightarrow> timestamp \<Rightarrow> string \<Rightarrow> side \<Rightarrow> decimal \<Rightarrow> decimal \<Rightarrow> decimal option \<Rightarrow> decision_ledger \<Rightarrow> decision_ledger" where
  "record_decision i tick_ms symbol s target_qty mid expected g =
     (let rec = \<lparr>dr_id = i, dr_tick_ms = tick_ms, dr_symbol = symbol, dr_side = s, dr_target_qty = target_qty,
                 dr_mid_at_decision = mid, dr_expected_cost_bps = expected, dr_resolved = []\<rparr>;
          g1 = evict_from (dl_records g) g
      in g1\<lparr>dl_records := dl_records g1 @ [rec], dl_by_id := hm_insert i (dl_next_rank g1) (dl_by_id g1),
            dl_next_rank := dl_next_rank g1 + 1\<rparr>)"

definition bind_order :: "uuid \<Rightarrow> order_id \<Rightarrow> decision_ledger \<Rightarrow> bool \<times> decision_ledger" where
  "bind_order decision order g =
     (if hm_contains (dl_by_id g) decision
      then (True, g\<lparr>dl_by_order := hm_insert order decision (dl_by_order g)\<rparr>) else (False, g))"

definition fill_cost ::
  "(decimal \<Rightarrow> decimal \<Rightarrow> decimal) \<Rightarrow> timestamp \<Rightarrow> side \<Rightarrow> decimal \<Rightarrow> decimal \<Rightarrow> decision_record \<Rightarrow> resolved_cost" where
  "fill_cost ddiv tick_ms fill_side price q r =
     (let side_mult = (if fill_side = dr_side r then 1 else - 1);
          delta = (case dr_side r of Buy \<Rightarrow> price - dr_mid_at_decision r | Sell \<Rightarrow> dr_mid_at_decision r - price) * side_mult;
          realized = ddiv delta (dr_mid_at_decision r) * 10000
      in \<lparr>rc_tick_ms = tick_ms, rc_fill_price = price, rc_fill_qty = q, rc_realized_cost_bps = realized,
          rc_vs_expected_bps = map_option (\<lambda>e. realized - e) (dr_expected_cost_bps r)\<rparr>)"

definition dl_offset :: "uuid \<Rightarrow> decision_ledger \<Rightarrow> nat option" where
  "dl_offset i g =
     Option.bind (hm_get (dl_by_id g) i)
       (\<lambda>rank. if rank < dl_front_rank g then None
               else let offset = rank - dl_front_rank g in if offset < length (dl_records g) then Some offset else None)"

definition dl_on_fill ::
  "(decimal \<Rightarrow> decimal \<Rightarrow> decimal) \<Rightarrow> order_id \<Rightarrow> timestamp \<Rightarrow> side \<Rightarrow> decimal \<Rightarrow> decimal \<Rightarrow> decision_ledger
    \<Rightarrow> resolved_cost option \<times> decision_ledger" where
  "dl_on_fill ddiv order tick_ms fill_side price q g =
     (case Option.bind (hm_get (dl_by_order g) order) (\<lambda>i. dl_offset i g) of
        None \<Rightarrow> (None, g)
      | Some k \<Rightarrow>
          let r = dl_records g ! k
          in if dr_mid_at_decision r \<le> 0 then (None, g)
             else let c = fill_cost ddiv tick_ms fill_side price q r
                  in (Some c, g\<lparr>dl_records := (dl_records g)[k := r\<lparr>dr_resolved := dr_resolved r @ [c]\<rparr>]\<rparr>))"

definition dl_recent :: "nat \<Rightarrow> decision_ledger \<Rightarrow> decision_record list" where
  "dl_recent max_count g = take max_count (rev (dl_records g))"

definition dl_get :: "uuid \<Rightarrow> decision_ledger \<Rightarrow> decision_record option" where
  "dl_get i g = map_option (\<lambda>k. dl_records g ! k) (dl_offset i g)"

subsection \<open>The unbounded history\<close>

datatype ledger_op =
  Recorded uuid timestamp string side decimal decimal "decimal option"
| Bound uuid order_id
| Resolved order_id timestamp side decimal decimal

primrec ledger_step :: "(decimal \<Rightarrow> decimal \<Rightarrow> decimal) \<Rightarrow> ledger_op \<Rightarrow> decision_ledger \<Rightarrow> decision_ledger" where
  "ledger_step ddiv (Recorded i t sy s q m e) g = record_decision i t sy s q m e g"
| "ledger_step ddiv (Bound i order) g = snd (bind_order i order g)"
| "ledger_step ddiv (Resolved order t s p q) g = snd (dl_on_fill ddiv order t s p q g)"

text \<open>All decisions in order, and the decision each order was last bound to.\<close>

type_synonym history = "decision_record list \<times> (order_id \<Rightarrow> uuid option)"

definition retained :: "nat \<Rightarrow> 'a list \<Rightarrow> 'a list" where
  "retained cap xs = drop (length xs - cap) xs"

definition resolve_cost :: "(decision_record \<Rightarrow> resolved_cost) \<Rightarrow> decision_record \<Rightarrow> decision_record" where
  "resolve_cost f r = r\<lparr>dr_resolved := dr_resolved r @ [f r]\<rparr>"

primrec history_step :: "(decimal \<Rightarrow> decimal \<Rightarrow> decimal) \<Rightarrow> nat \<Rightarrow> ledger_op \<Rightarrow> history \<Rightarrow> history" where
  "history_step ddiv cap (Recorded i t sy s q m e) h =
     (fst h @ [\<lparr>dr_id = i, dr_tick_ms = t, dr_symbol = sy, dr_side = s, dr_target_qty = q, dr_mid_at_decision = m,
        dr_expected_cost_bps = e, dr_resolved = []\<rparr>], snd h)"
| "history_step ddiv cap (Bound i order) h =
     (if i \<in> dr_id ` set (retained cap (fst h)) then (fst h, (snd h)(order \<mapsto> i)) else h)"
| "history_step ddiv cap (Resolved order t s p q) h =
     (map (\<lambda>r. if snd h order = Some (dr_id r) \<and> r \<in> set (retained cap (fst h)) \<and> 0 < dr_mid_at_decision r
               then resolve_cost (fill_cost ddiv t s p q) r else r) (fst h), snd h)"


subsection \<open>The ring holds the end of the history\<close>

definition ledger_ok :: "decision_ledger \<Rightarrow> bool" where
  "ledger_ok g \<longleftrightarrow>
     0 < dl_capacity g \<and> length (dl_records g) \<le> dl_capacity g \<and> distinct (map dr_id (dl_records g)) \<and>
     dl_next_rank g = dl_front_rank g + length (dl_records g) \<and> hm_ok (dl_by_order g) \<and>
     (\<forall>i rank. hm_get (dl_by_id g) i = Some rank \<longleftrightarrow>
        (\<exists>k<length (dl_records g). dr_id (dl_records g ! k) = i \<and> rank = dl_front_rank g + k))"

lemma offset_iff:
  assumes "ledger_ok g"
  shows "dl_offset i g = Some k \<longleftrightarrow> k < length (dl_records g) \<and> dr_id (dl_records g ! k) = i"
proof -
  have "hm_get (dl_by_id g) i = Some rank \<longleftrightarrow> (\<exists>k<length (dl_records g). dr_id (dl_records g ! k) = i \<and> rank = dl_front_rank g + k)" for rank
    using assms by (simp add: ledger_ok_def)
  then show ?thesis by (auto simp: dl_offset_def bind_eq_Some_conv Let_def split: if_splits)
qed

lemma find_nth:
  assumes "distinct (map f xs)" and "k < length xs" and "f (xs ! k) = i"
  shows "List.find (\<lambda>x. f x = i) xs = Some (xs ! k)"
  using assms
proof (induction xs arbitrary: k)
  case (Cons x xs)
  then show ?case by (cases k) (auto simp: image_iff dest: nth_mem)
qed simp

lemma get_is_find:
  assumes "ledger_ok g"
  shows "dl_get i g = List.find (\<lambda>r. dr_id r = i) (dl_records g)"
proof (cases "dl_offset i g")
  case None
  then have "\<And>k. k < length (dl_records g) \<Longrightarrow> dr_id (dl_records g ! k) \<noteq> i" using offset_iff [OF assms, of i] by auto
  then have "List.find (\<lambda>r. dr_id r = i) (dl_records g) = None" by (auto simp: find_None_iff in_set_conv_nth)
  then show ?thesis using None by (simp add: dl_get_def)
next
  case (Some k)
  then show ?thesis using find_nth [of dr_id "dl_records g" k i] offset_iff [OF assms, of i k] assms
    by (simp add: dl_get_def ledger_ok_def)
qed

lemma get_filter_values:
  assumes "hm_ok m"
  shows "hm_get (filter (\<lambda>e. snd e \<noteq> d) m) k = (case hm_get m k of None \<Rightarrow> None | Some v \<Rightarrow> if v = d then None else Some v)"
  using assms by (induction m) (auto simp: hm_ok_def hm_get_def map_of_eq_None_iff split: option.splits)

lemma retained_snoc:
  assumes "0 < cap"
  shows "retained cap (xs @ [x]) = (if length (retained cap xs) = cap then tl (retained cap xs) else retained cap xs) @ [x]"
proof (cases "length xs < cap")
  case False
  then have "Suc (length xs) - cap = Suc (length xs - cap)" using assms by simp
  then show ?thesis using False assms by (simp add: retained_def tl_drop drop_Suc)
qed (use assms in \<open>simp add: retained_def\<close>)

lemma set_retained: "x \<in> set (retained cap xs) \<Longrightarrow> x \<in> set xs"
  by (auto simp: retained_def dest: in_set_dropD)

definition simulates :: "decision_ledger \<Rightarrow> history \<Rightarrow> bool" where
  "simulates g h \<longleftrightarrow>
     ledger_ok g \<and> dl_records g = retained (dl_capacity g) (fst h) \<and> distinct (map dr_id (fst h)) \<and>
     (\<forall>order i. snd h order = Some i \<longrightarrow> i \<in> dr_id ` set (fst h)) \<and>
     (\<forall>order. hm_get (dl_by_order g) order =
        (case snd h order of None \<Rightarrow> None | Some i \<Rightarrow> if i \<in> dr_id ` set (dl_records g) then Some i else None))"

definition evicted :: "decision_ledger \<Rightarrow> decision_ledger" where
  "evicted g =
     (if length (dl_records g) = dl_capacity g
      then g\<lparr>dl_by_id := hm_remove (dr_id (hd (dl_records g))) (dl_by_id g),
             dl_by_order := filter (\<lambda>e. snd e \<noteq> dr_id (hd (dl_records g))) (dl_by_order g),
             dl_front_rank := dl_front_rank g + 1, dl_records := tl (dl_records g)\<rparr>
      else g)"

lemma evict_from_ok:
  assumes "ledger_ok g"
  shows "evict_from (dl_records g) g = evicted g"
proof (cases "dl_records g")
  case (Cons d rs)
  then show ?thesis using assms by (cases rs) (auto simp: ledger_ok_def evicted_def)
qed (use assms in \<open>simp add: ledger_ok_def evicted_def\<close>)

lemma evicted_ok:
  assumes "ledger_ok g"
  shows "ledger_ok (evicted g)" and "length (dl_records (evicted g)) < dl_capacity g" and "dl_capacity (evicted g) = dl_capacity g"
proof -
  have m: "hm_get (dl_by_id g) i = Some rank \<longleftrightarrow> (\<exists>k<length (dl_records g). dr_id (dl_records g ! k) = i \<and> rank = dl_front_rank g + k)" for i rank
    using assms by (simp add: ledger_ok_def)
  show "length (dl_records (evicted g)) < dl_capacity g" "dl_capacity (evicted g) = dl_capacity g"
    using assms by (auto simp: ledger_ok_def evicted_def)
  show "ledger_ok (evicted g)"
  proof (cases "length (dl_records g) = dl_capacity g")
    case True
    then obtain d rs where r: "dl_records g = d # rs" using assms by (cases "dl_records g") (auto simp: ledger_ok_def)
    have "hm_get (hm_remove (dr_id d) (dl_by_id g)) i = Some rank \<longleftrightarrow>
        (\<exists>k<length rs. dr_id (rs ! k) = i \<and> rank = dl_front_rank g + 1 + k)" for i rank
    proof -
      have "hm_get (hm_remove (dr_id d) (dl_by_id g)) i = (if i = dr_id d then None else hm_get (dl_by_id g) i)"
        by (auto simp: hm_get_def hm_remove_def delete_conv')
      moreover have "(\<exists>k<length rs. dr_id (rs ! k) = dr_id d \<and> rank = dl_front_rank g + 1 + k) = False"
        using assms by (auto simp: ledger_ok_def r) (metis image_eqI nth_mem)
      moreover have "(\<exists>k<length (d # rs). dr_id ((d # rs) ! k) = i \<and> rank = dl_front_rank g + k) \<longleftrightarrow>
          (\<exists>k<length rs. dr_id (rs ! k) = i \<and> rank = dl_front_rank g + 1 + k)" if "i \<noteq> dr_id d"
        using that by (auto simp: Ex_less_Suc2)
      ultimately show ?thesis using m [of i rank] by (auto simp: r)
    qed
    then show ?thesis using assms True
      by (auto simp: ledger_ok_def evicted_def r hm_ok_def distinct_map_filter)
  qed (use assms in \<open>simp add: evicted_def\<close>)
qed


lemma resolve_keeps [simp]: "dr_id (resolve_cost f r) = dr_id r"
  by (simp add: resolve_cost_def)

lemma map_retained: "map f (retained cap xs) = retained cap (map f xs)"
  by (simp add: retained_def drop_map)

lemma simulates_record:
  assumes "simulates g h" and "i \<notin> dr_id ` set (fst h)"
  shows "simulates (record_decision i t sy s q m e g) (history_step ddiv (dl_capacity g) (Recorded i t sy s q m e) h)"
proof -
  have ok: "ledger_ok g" using assms(1) by (simp add: simulates_def)
  define r where "r = \<lparr>dr_id = i, dr_tick_ms = t, dr_symbol = sy, dr_side = s, dr_target_qty = q, dr_mid_at_decision = m,
      dr_expected_cost_bps = e, dr_resolved = []\<rparr>"
  define g1 where "g1 = evicted g"
  note e1 = evicted_ok [OF ok, folded g1_def]
  have rec: "record_decision i t sy s q m e g = g1\<lparr>dl_records := dl_records g1 @ [r],
      dl_by_id := hm_insert i (dl_next_rank g1) (dl_by_id g1), dl_next_rank := dl_next_rank g1 + 1\<rparr>" (is "_ = ?g2")
    by (simp add: record_decision_def evict_from_ok [OF ok] g1_def r_def Let_def)
  have rs: "dl_records g = retained (dl_capacity g) (fst h)" using assms(1) by (simp add: simulates_def)
  have "0 < dl_capacity g" using ok by (simp add: ledger_ok_def)
  have rs2: "dl_records g1 @ [r] = retained (dl_capacity g) (fst h @ [r])"
    unfolding retained_snoc [OF \<open>0 < dl_capacity g\<close>] rs [symmetric] by (simp add: g1_def evicted_def)
  have sub: "set (dl_records g1) \<subseteq> set (dl_records g)"
    by (auto simp: g1_def evicted_def intro: list.set_sel(2) split: if_splits)
  have new: "i \<notin> dr_id ` set (dl_records g)" "i \<notin> dr_id ` set (dl_records g1)"
  proof -
    show "i \<notin> dr_id ` set (dl_records g)" using assms(2) unfolding rs by (auto dest: set_retained)
    then show "i \<notin> dr_id ` set (dl_records g1)" using sub by auto
  qed
  have by1: "hm_get (dl_by_id g1) j = Some rank \<longleftrightarrow>
      (\<exists>k<length (dl_records g1). dr_id (dl_records g1 ! k) = j \<and> rank = dl_front_rank g1 + k)" for j rank
    using e1(1) by (simp add: ledger_ok_def)
  have "hm_get (hm_insert i (dl_next_rank g1) (dl_by_id g1)) j = Some rank \<longleftrightarrow>
      (\<exists>k<length (dl_records g1 @ [r]). dr_id ((dl_records g1 @ [r]) ! k) = j \<and> rank = dl_front_rank g1 + k)" for j rank
  proof -
    have "hm_get (hm_insert i (dl_next_rank g1) (dl_by_id g1)) j = (if j = i then Some (dl_next_rank g1) else hm_get (dl_by_id g1) j)"
      by (simp add: hm_get_def hm_insert_def update_conv')
    moreover have "(\<exists>k<length (dl_records g1 @ [r]). dr_id ((dl_records g1 @ [r]) ! k) = j \<and> rank = dl_front_rank g1 + k) \<longleftrightarrow>
        (\<exists>k<length (dl_records g1). dr_id (dl_records g1 ! k) = j \<and> rank = dl_front_rank g1 + k) \<or>
        j = i \<and> rank = dl_front_rank g1 + length (dl_records g1)"
      by (simp add: Ex_less_Suc nth_append r_def cong: conj_cong) blast
    moreover have "\<not> (\<exists>k<length (dl_records g1). dr_id (dl_records g1 ! k) = i \<and> rank = dl_front_rank g1 + k)"
      using new(2) by (auto simp: image_iff)
    moreover have "dl_next_rank g1 = dl_front_rank g1 + length (dl_records g1)" using e1(1) by (simp add: ledger_ok_def)
    ultimately show ?thesis using by1 [of j rank] by auto
  qed
  then have ok2: "ledger_ok ?g2"
    using e1 new(2) by (auto simp: ledger_ok_def r_def)
  have bo: "hm_get (dl_by_order g1) order =
      (case snd h order of None \<Rightarrow> None | Some d \<Rightarrow> if d \<in> dr_id ` set (dl_records g1 @ [r]) then Some d else None)" for order
  proof -
    have o: "hm_get (dl_by_order g) order = (case snd h order of None \<Rightarrow> None | Some d \<Rightarrow> if d \<in> dr_id ` set (dl_records g) then Some d else None)"
      using assms(1) by (simp add: simulates_def)
    have old: "d \<noteq> i" if "snd h order = Some d" for d using assms that by (auto simp: simulates_def)
    show ?thesis
    proof (cases "length (dl_records g) = dl_capacity g")
      case False
      then show ?thesis using o old by (auto simp: g1_def evicted_def r_def split: option.splits)
    next
      case True
      then obtain x xs where x: "dl_records g = x # xs" using \<open>0 < dl_capacity g\<close> by (cases "dl_records g") auto
      have "dr_id x \<notin> dr_id ` set xs" using ok by (simp add: ledger_ok_def x)
      moreover have "hm_get (dl_by_order g1) order =
          (case hm_get (dl_by_order g) order of None \<Rightarrow> None | Some v \<Rightarrow> if v = dr_id x then None else Some v)"
        using get_filter_values [of "dl_by_order g" "dr_id x" order] ok True by (simp add: g1_def evicted_def x ledger_ok_def)
      ultimately show ?thesis using o old True
        by (auto simp: g1_def evicted_def x r_def split: option.splits)
    qed
  qed
  have h': "history_step ddiv (dl_capacity g) (Recorded i t sy s q m e) h = (fst h @ [r], snd h)" by (simp add: r_def)
  have g2: "dl_records ?g2 = dl_records g1 @ [r]" "dl_by_order ?g2 = dl_by_order g1" "dl_capacity ?g2 = dl_capacity g"
    using e1(3) by simp_all
  have "distinct (map dr_id (fst h @ [r])) \<and> (\<forall>order d. snd h order = Some d \<longrightarrow> d \<in> dr_id ` set (fst h @ [r]))"
    using assms by (auto simp: simulates_def r_def)
  then show ?thesis unfolding rec h' simulates_def fst_conv snd_conv g2 using ok2 rs2 bo by simp
qed


lemma simulates_bind:
  assumes "simulates g h"
  shows "simulates (snd (bind_order i order g)) (history_step ddiv (dl_capacity g) (Bound i order) h)"
proof -
  have ok: "ledger_ok g" and rs: "dl_records g = retained (dl_capacity g) (fst h)" using assms by (simp_all add: simulates_def)
  have c: "hm_contains (dl_by_id g) i \<longleftrightarrow> i \<in> dr_id ` set (retained (dl_capacity g) (fst h))"
  proof -
    have "i \<in> dr_id ` set (dl_records g) \<longleftrightarrow> (\<exists>k<length (dl_records g). dr_id (dl_records g ! k) = i)"
      by (auto simp: set_map [symmetric] in_set_conv_nth simp del: set_map)
    moreover have "hm_contains (dl_by_id g) i \<longleftrightarrow> hm_get (dl_by_id g) i \<noteq> None" by (simp add: hm_contains_def)
    ultimately show ?thesis using ok unfolding rs [symmetric] ledger_ok_def by auto
  qed
  show ?thesis
  proof (cases "i \<in> dr_id ` set (retained (dl_capacity g) (fst h))")
    case True
    have "i \<in> dr_id ` set (fst h)" using True by (auto dest: set_retained)
    moreover have "hm_get (hm_insert order i (dl_by_order g)) o' = (if o' = order then Some i else hm_get (dl_by_order g) o')" for o'
      by (simp add: hm_get_def hm_insert_def update_conv')
    moreover have "ledger_ok (g\<lparr>dl_by_order := hm_insert order i (dl_by_order g)\<rparr>)"
      using ok by (simp add: ledger_ok_def hm_ok_def hm_insert_def distinct_update)
    ultimately show ?thesis using assms True c unfolding rs [symmetric]
      by (simp add: bind_order_def simulates_def cong: option.case_cong)
  qed (use assms c in \<open>simp add: bind_order_def\<close>)
qed

lemma bound_offset:
  assumes "simulates g h"
  shows "Option.bind (hm_get (dl_by_order g) order) (\<lambda>i. dl_offset i g) = Some k \<longleftrightarrow>
    k < length (dl_records g) \<and> snd h order = Some (dr_id (dl_records g ! k))"
  using assms offset_iff [of g]
  by (auto simp: simulates_def bind_eq_Some_conv split: option.splits if_splits)

lemma update_is_map:
  assumes "distinct (map dr_id xs)" and "k < length xs"
  shows "xs[k := f (xs ! k)] = map (\<lambda>r. if dr_id r = dr_id (xs ! k) then f r else r) xs"
  using assms by (intro nth_equalityI) (auto simp: nth_list_update distinct_conv_nth)

lemma simulates_fill:
  assumes "simulates g h"
  shows "simulates (snd (dl_on_fill ddiv order t s p q g)) (history_step ddiv (dl_capacity g) (Resolved order t s p q) h)"
proof -
  have ok: "ledger_ok g" and rs: "dl_records g = retained (dl_capacity g) (fst h)" using assms by (simp_all add: simulates_def)
  let ?f = "\<lambda>r. if snd h order = Some (dr_id r) \<and> r \<in> set (retained (dl_capacity g) (fst h)) \<and> 0 < dr_mid_at_decision r
               then resolve_cost (fill_cost ddiv t s p q) r else r"
  have ids: "dr_id (?f r) = dr_id r" for r by simp
  have hist: "history_step ddiv (dl_capacity g) (Resolved order t s p q) h = (map ?f (fst h), snd h)" by simp
  have recs: "dl_records (snd (dl_on_fill ddiv order t s p q g)) = map ?f (dl_records g)"
  proof (cases "Option.bind (hm_get (dl_by_order g) order) (\<lambda>i. dl_offset i g)")
    case None
    then have "\<And>k. k < length (dl_records g) \<Longrightarrow> snd h order \<noteq> Some (dr_id (dl_records g ! k))"
      using bound_offset [OF assms, of order] by auto
    then have "map ?f (dl_records g) = dl_records g"
      by (intro map_idI) (auto simp: in_set_conv_nth)
    then show ?thesis using None by (simp add: dl_on_fill_def)
  next
    case (Some k)
    note k = bound_offset [OF assms, of order k, unfolded Some, simplified]
    have "map ?f (dl_records g) = map (\<lambda>r. if dr_id r = dr_id (dl_records g ! k)
        then (if 0 < dr_mid_at_decision r then resolve_cost (fill_cost ddiv t s p q) r else r) else r) (dl_records g)"
      using k by (intro map_cong) (auto simp: rs [symmetric])
    also have "\<dots> = (dl_records g)[k := (if 0 < dr_mid_at_decision (dl_records g ! k)
        then resolve_cost (fill_cost ddiv t s p q) (dl_records g ! k) else dl_records g ! k)]"
      using k ok by (subst update_is_map [symmetric]) (auto simp: ledger_ok_def)
    finally show ?thesis using Some by (auto simp: dl_on_fill_def resolve_cost_def Let_def not_less)
  qed
  have rest: "dl_by_id (snd (dl_on_fill ddiv order t s p q g)) = dl_by_id g"
    "dl_by_order (snd (dl_on_fill ddiv order t s p q g)) = dl_by_order g"
    "dl_capacity (snd (dl_on_fill ddiv order t s p q g)) = dl_capacity g"
    "dl_next_rank (snd (dl_on_fill ddiv order t s p q g)) = dl_next_rank g"
    "dl_front_rank (snd (dl_on_fill ddiv order t s p q g)) = dl_front_rank g"
    by (auto simp: dl_on_fill_def Let_def split: option.splits)
  have same_ids: "map dr_id (map ?f xs) = map dr_id xs" for xs by simp
  have im: "dr_id ` set (map ?f xs) = dr_id ` set xs" for xs by (simp only: set_map [symmetric] same_ids)
  have "ledger_ok (snd (dl_on_fill ddiv order t s p q g))"
    using ok unfolding ledger_ok_def recs rest same_ids length_map by (simp add: ids cong: conj_cong)
  then show ?thesis
    using assms unfolding simulates_def hist fst_conv snd_conv recs rest im same_ids
    by (simp add: map_retained rs)
qed

primrec recorded_ids :: "ledger_op list \<Rightarrow> uuid list" where
  "recorded_ids [] = []"
| "recorded_ids (a # ops) = (case a of Recorded i t sy s q m e \<Rightarrow> [i] | _ \<Rightarrow> []) @ recorded_ids ops"

lemma step_capacity: "ledger_ok g \<Longrightarrow> dl_capacity (ledger_step ddiv a g) = dl_capacity g"
  using evicted_ok(3) [of g] evict_from_ok [of g]
  by (cases a) (auto simp: record_decision_def bind_order_def dl_on_fill_def Let_def split: option.splits)

lemma history_ids:
  "map dr_id (fst (history_step ddiv cap a h)) = map dr_id (fst h) @ recorded_ids [a]"
  by (cases a) auto

lemma simulates_run:
  assumes "simulates g h" and "distinct (map dr_id (fst h) @ recorded_ids ops)"
  shows "simulates (fold (ledger_step ddiv) ops g) (fold (history_step ddiv (dl_capacity g)) ops h) \<and>
    dl_capacity (fold (ledger_step ddiv) ops g) = dl_capacity g"
  using assms
proof (induction ops arbitrary: g h)
  case (Cons a ops)
  have ok: "ledger_ok g" using Cons.prems by (simp add: simulates_def)
  have "simulates (ledger_step ddiv a g) (history_step ddiv (dl_capacity g) a h)"
  proof (cases a)
    case (Recorded i t sy s q m e)
    then have "i \<notin> dr_id ` set (fst h)" using Cons.prems(2) by auto
    then show ?thesis using simulates_record [OF Cons.prems(1)] by (simp add: Recorded)
  next
    case (Bound i order)
    then show ?thesis using simulates_bind [OF Cons.prems(1), of i order ddiv] by simp
  next
    case (Resolved order t s p q)
    then show ?thesis using simulates_fill [OF Cons.prems(1), of ddiv order t s p q] by simp
  qed
  moreover have "distinct (map dr_id (fst (history_step ddiv (dl_capacity g) a h)) @ recorded_ids ops)"
    using Cons.prems(2) by (simp add: history_ids del: history_step.simps)
  ultimately show ?case
    using Cons.IH [of "ledger_step ddiv a g" "history_step ddiv (dl_capacity g) a h"] step_capacity [OF ok, of ddiv a]
    by (simp del: history_step.simps ledger_step.simps)
qed simp

text \<open>
  C40: the ring is the end of the history. With identifiers that are all different, after any
  decisions, bindings and fills the ledger holds exactly the last decisions up to its capacity, each
  with the costs of all the fills resolved to it since; looking one up by its identifier finds it there or nowhere,
  and a fill is costed against the decision its order was last bound to as long as that one is held.
\<close>

theorem ledger_refines_history:
  assumes "dl_new cap = Some g0" and "distinct (recorded_ids ops)"
  shows "let g = fold (ledger_step ddiv) ops g0;
             h = fold (history_step ddiv cap) ops ([], \<lambda>_. None);
             ring = retained cap (fst h)
         in dl_records g = ring \<and> (\<forall>i. dl_get i g = List.find (\<lambda>r. dr_id r = i) ring) \<and>
            (\<forall>order t s p q. fst (dl_on_fill ddiv order t s p q g) =
               Option.bind (snd h order) (\<lambda>i. Option.bind (List.find (\<lambda>r. dr_id r = i) ring)
                 (\<lambda>r. if 0 < dr_mid_at_decision r then Some (fill_cost ddiv t s p q r) else None)))"
proof -
  define g where "g = fold (ledger_step ddiv) ops g0"
  define h where "h = fold (history_step ddiv cap) ops ([], \<lambda>_. None)"
  have g0: "simulates g0 ([], \<lambda>_. None)" "dl_capacity g0 = cap"
    using assms(1) by (auto simp: dl_new_def simulates_def ledger_ok_def retained_def hm_ok_def hm_get_def split: if_splits)
  have sim: "simulates g h" using simulates_run [OF g0(1), of ops ddiv] assms(2) g0(2) by (simp add: g_def h_def)
  have ok: "ledger_ok g" using sim by (simp add: simulates_def)
  have cap: "dl_capacity g = cap" using simulates_run [OF g0(1), of ops ddiv] assms(2) g0(2) by (simp add: g_def)
  have rs: "dl_records g = retained cap (fst h)" using sim cap by (simp add: simulates_def)
  have "fst (dl_on_fill ddiv order t s p q g) =
      Option.bind (snd h order) (\<lambda>i. Option.bind (dl_get i g)
        (\<lambda>r. if 0 < dr_mid_at_decision r then Some (fill_cost ddiv t s p q r) else None))" for order t s p q
  proof -
    have o: "hm_get (dl_by_order g) order = (case snd h order of None \<Rightarrow> None | Some i \<Rightarrow> if i \<in> dr_id ` set (dl_records g) then Some i else None)"
      using sim by (simp add: simulates_def)
    have "dl_offset i g = None" if "i \<notin> dr_id ` set (dl_records g)" for i
      using offset_iff [OF ok, of i] that by (metis image_eqI not_None_eq nth_mem)
    then show ?thesis unfolding dl_on_fill_def o
      by (auto simp: dl_get_def Let_def not_less split: option.splits)
  qed
  then show ?thesis unfolding Let_def g_def [symmetric] h_def [symmetric] rs [symmetric] get_is_find [OF ok, symmetric] by blast
qed

definition demo_decisions :: "ledger_op list" where
  "demo_decisions = [Recorded 1 0 ''BTCUSDT'' Buy 1 100 None, Bound 1 7, Recorded 2 0 ''BTCUSDT'' Buy 1 100 (Some 5),
     Bound 2 8, Recorded 3 0 ''BTCUSDT'' Sell 1 100 None]"

text \<open>Room for two: the first decision is gone with its order, the second still costs its fills.\<close>

theorem ledger_refines_history_witness:
  "\<exists>g0. dl_new 2 = Some g0 \<and>
     fst (dl_on_fill (/) 7 5 Buy 101 1 (fold (ledger_step (/)) demo_decisions g0)) = None \<and>
     map_option rc_realized_cost_bps (fst (dl_on_fill (/) 8 5 Buy 101 1 (fold (ledger_step (/)) demo_decisions g0))) = Some 100"
proof -
  obtain g0 where g0: "dl_new 2 = Some g0" by (simp add: dl_new_def)
  have d: "distinct (recorded_ids demo_decisions)" by (simp add: demo_decisions_def)
  note r = ledger_refines_history [OF g0 d, of "(/)", unfolded Let_def, THEN conjunct2, THEN conjunct2, rule_format]
  have h: "fst (fold (history_step (/) 2) demo_decisions ([], \<lambda>_. None)) =
      [\<lparr>dr_id = 1, dr_tick_ms = 0, dr_symbol = ''BTCUSDT'', dr_side = Buy, dr_target_qty = 1, dr_mid_at_decision = 100, dr_expected_cost_bps = None, dr_resolved = []\<rparr>,
       \<lparr>dr_id = 2, dr_tick_ms = 0, dr_symbol = ''BTCUSDT'', dr_side = Buy, dr_target_qty = 1, dr_mid_at_decision = 100, dr_expected_cost_bps = Some 5, dr_resolved = []\<rparr>,
       \<lparr>dr_id = 3, dr_tick_ms = 0, dr_symbol = ''BTCUSDT'', dr_side = Sell, dr_target_qty = 1, dr_mid_at_decision = 100, dr_expected_cost_bps = None, dr_resolved = []\<rparr>]"
    "snd (fold (history_step (/) 2) demo_decisions ([], \<lambda>_. None)) 7 = Some 1"
    "snd (fold (history_step (/) 2) demo_decisions ([], \<lambda>_. None)) 8 = Some 2"
    by (simp_all add: demo_decisions_def retained_def)
  show ?thesis using g0 by (intro exI [of _ g0]) (simp add: r h retained_def fill_cost_def)
qed

end
