(* ===== verification/Spec2Isabelle.thy ===== *)
theory Spec2Isabelle
  imports Book_Keeper Balance_Cache Order_Lifecycle Order_Id_Map Margin_Guard Inventory Fix_Session Graph_Nodes
    Lease_Protocol Engine_Factory Order_Emulator Dca_Planner Sor_Dispatch Portfolio
    Funding_Arb Reconciliation Quote_Gates Persistence Decision_Ledger
begin

text \<open>
  A verification library for the market maker in \<^verbatim>\<open>src/\<close>: a Rust workspace that keeps two-sided quotes
  on crypto venues. An engine per symbol consumes market data, asks a strategy (hard-wired, or a graph
  authored by an operator) for quotes, and moves its live orders to them, under a set of risk guards.

  \<^bold>\<open>Parts and how they interact.\<close> Venue adapters deliver \<^verbatim>\<open>MarketEvent\<close>s to the book keeper, which maintains
  a local order book and asks for a resynchronisation when updates were lost. On every refresh the
  engine sweeps the circuit breaker and the exposure manager, evaluates the strategy graph, and hands
  the desired quotes to the order manager. The order manager diffs them against its live orders and
  issues amends, batched cancels and placements through the \<^verbatim>\<open>ExchangeConnector\<close> interface; fills come
  back into the order manager, the inventory manager and the balance cache. The kill switch and the
  margin guard watch pnl, position value, message rate, errors and margin, and stop the rest.
  FIX venues are driven through a session layer over a message codec.
  Around an engine: the smart order router splits an amount over venues, the order emulator holds stops
  the venue lacks, the planner slices the reduction of a position, the arbitrage driver trades a pair of
  legs, the portfolio adds up fills of all engines, the reconciliation compares orders and balances with
  the venue, and the profit tracker, the decision ledger, the audit log and the checkpoints record what happened.

  Engines run in an agent. The agent registers with a controller, holds a lease that the controller
  renews, and brings its engines into line with the deployments the controller sends; when a lease runs
  out the agent tells its engines to stop, and an observing runner is to walk the fail ladder of kill levels. The controller admits an agent by the
  fingerprint an operator approved and hands it the credentials its tenant may use.

  \<^bold>\<open>Theories.\<close> Each opens with its own correspondence to the source.
  \<^item> \<^verbatim>\<open>Mm_Prelude\<close>: machine integers, decimals, generic lemmas, and the locale \<open>decimal_division\<close>
    for the rounding of \<^verbatim>\<open>Decimal\<close> division, interpreted on exact and on rounded division.
  \<^item> \<^verbatim>\<open>Std_Maps\<close>: \<^verbatim>\<open>HashMap\<close> and \<^verbatim>\<open>BTreeMap\<close> as association lists under one locale \<open>std_map\<close>; a hash map is
    insertion-ordered in the model and wherever the code iterates one the order is an argument.
    \<^verbatim>\<open>Std_Text\<close>: parsing and printing of numbers.
  \<^item> \<^verbatim>\<open>Common_Types\<close>, \<^verbatim>\<open>Order_Book\<close>, \<^verbatim>\<open>Book_Keeper\<close>: \<^verbatim>\<open>crates/common\<close> (\<^verbatim>\<open>types.rs\<close>, \<^verbatim>\<open>orderbook.rs\<close>) and
    \<^verbatim>\<open>crates/engine/src/book_keeper.rs\<close>.
  \<^item> \<^verbatim>\<open>Balance_Cache\<close>, \<^verbatim>\<open>Order_Id_Map\<close>: the files of the same names in \<^verbatim>\<open>crates/engine/src\<close>.
  \<^item> \<^verbatim>\<open>Connector\<close>: the order-entry methods of \<^verbatim>\<open>ExchangeConnector\<close> as a record of functions over a venue
    state, the contract the engine relies on as a locale, and the in-memory connector of
    \<^verbatim>\<open>test_support.rs\<close> that satisfies it.
  \<^item> \<^verbatim>\<open>Order_Manager\<close> (all operations of \<^verbatim>\<open>order_manager.rs\<close>), \<^verbatim>\<open>Order_Diff\<close>, \<^verbatim>\<open>Order_Execution\<close>,
    \<^verbatim>\<open>Order_Lifecycle\<close> (what the diff, its execution, cancel-all, fills and paper matching achieve).
  \<^item> \<^verbatim>\<open>Kill_Switch\<close>, \<^verbatim>\<open>Margin_Guard\<close>, \<^verbatim>\<open>Circuit_Breaker\<close>, \<^verbatim>\<open>Inventory\<close>: \<^verbatim>\<open>crates/risk/src\<close>, and the sweep of
    \<^verbatim>\<open>refresh_quotes\<close> in \<^verbatim>\<open>market_maker.rs\<close> that drives the breaker.
  \<^item> \<^verbatim>\<open>Fix_Message\<close>, \<^verbatim>\<open>Fix_Session\<close>: \<^verbatim>\<open>crates/protocols/fix/src\<close>.
  \<^item> \<^verbatim>\<open>Strategy_Graph\<close>, \<^verbatim>\<open>Graph_Evaluator\<close>, \<^verbatim>\<open>Graph_Nodes\<close>: \<^verbatim>\<open>crates/strategy-graph/src\<close> (\<^verbatim>\<open>graph.rs\<close>,
    \<^verbatim>\<open>evaluator.rs\<close>, \<^verbatim>\<open>types.rs\<close>, \<^verbatim>\<open>node.rs\<close> and the arithmetic, logic and sink nodes).
  \<^item> \<^verbatim>\<open>Std_Json\<close>, \<^verbatim>\<open>Text_Codec\<close>: the values of \<^verbatim>\<open>serde_json\<close>, and the contract of its text form with an
    instance of it; bodies and stored records are read from these.
  \<^item> \<^verbatim>\<open>Order_Emulator\<close>, \<^verbatim>\<open>Dca_Planner\<close>, \<^verbatim>\<open>Protections\<close>, \<^verbatim>\<open>Pnl_Tracker\<close>, \<^verbatim>\<open>Decision_Ledger\<close>, \<^verbatim>\<open>Audit_Log\<close>: the
    files of \<^verbatim>\<open>crates/risk/src\<close> with these subjects (\<^verbatim>\<open>dca.rs\<close>, \<^verbatim>\<open>pnl.rs\<close>, \<^verbatim>\<open>audit.rs\<close> with \<^verbatim>\<open>audit_reader.rs\<close>),
    each with the lines of \<^verbatim>\<open>market_maker.rs\<close> that drive it.
  \<^item> \<^verbatim>\<open>Reconciliation\<close> (\<^verbatim>\<open>reconciliation.rs\<close>, \<^verbatim>\<open>inventory_drift.rs\<close> and the cycle of the engine) and \<^verbatim>\<open>Quote_Gates\<close>
    (\<^verbatim>\<open>per_client_circuit.rs\<close>, \<^verbatim>\<open>volume_limit.rs\<close> and what \<^verbatim>\<open>refresh_quotes\<close> does before and after the strategy).
  \<^item> \<^verbatim>\<open>Sor_Router\<close>, \<^verbatim>\<open>Sor_Dispatch\<close>: \<^verbatim>\<open>crates/engine/src/sor\<close> and \<^verbatim>\<open>connector_bundle.rs\<close>. \<^verbatim>\<open>Portfolio\<close>:
    \<^verbatim>\<open>crates/portfolio/src\<close>. \<^verbatim>\<open>Funding_Arb\<close>: \<^verbatim>\<open>funding_arb.rs\<close> and \<^verbatim>\<open>funding_arb_driver.rs\<close> of
    \<^verbatim>\<open>crates/strategy/src\<close> with \<^verbatim>\<open>crates/persistence/src/funding.rs\<close>. \<^verbatim>\<open>Persistence\<close>: \<^verbatim>\<open>checkpoint.rs\<close> and
    \<^verbatim>\<open>fill_replay.rs\<close> of \<^verbatim>\<open>crates/persistence/src\<close>.
  \<^item> \<^verbatim>\<open>Fail_Ladder\<close>, \<^verbatim>\<open>Control_Messages\<close>: \<^verbatim>\<open>crates/control/src\<close>. \<^verbatim>\<open>Approval_Store\<close>, \<^verbatim>\<open>Credential_Vault\<close>,
    \<^verbatim>\<open>Agent_Session\<close>: \<^verbatim>\<open>crates/controller/src\<close>. \<^verbatim>\<open>Credential_Catalog\<close>, \<^verbatim>\<open>Strategy_Registry\<close>, \<^verbatim>\<open>Engine_Factory\<close>,
    \<^verbatim>\<open>Lease_Client\<close>: \<^verbatim>\<open>crates/agent/src\<close>; the registry sees its engines through the locale \<open>engine_hosting\<close>,
    which the real factory satisfies: starting one, and telling one to stop. An engine told to stop is a task whose
    cancellation was requested; it may be alive until it next waits. \<^verbatim>\<open>Lease_Protocol\<close>: both ends of the lease with the channel between.

  \<^bold>\<open>What the theorems show.\<close>
  \<^item> Orders: the diff computes exactly the levels to add and remove, whatever the hash order; executing
    it against a venue that keeps its contract leaves the price index equal to the desired levels up to reported failures; cancel-all returns
    success only when the venue reports nothing open; paper matching fills exactly the crossed orders.
  \<^item> Data: the book keeper asks for a resynchronisation exactly when the update sequence has a gap; a
    delta is an overlay of the book; a sweep is best execution; the id map stays a bijection;
    reservations never exceed the balance.
  \<^item> Risk: the kill switch only escalates; a runaway message rate or error burst stops new orders; the
    margin guard fails safe on stale data; quotes are refreshed only when every guard passes, but for breaches the
    tripped breaker masks for one refresh, which the theorem names; pnl is
    cash flow plus position value.
  \<^item> FIX: decoding inverts encoding; application messages are delivered in order; outgoing numbers are
    consecutive; a silent peer is disconnected within a bounded number of ticks.
  \<^item> Graphs: validation terminates and accepts exactly the well-typed acyclic graphs within the depth
    bound; a tick solves the dataflow equations of the graph, independently of hash order, and every
    port receives a value of its type.
  \<^item> Control: authority needs an operator's approval; without it an agent is not authorised once the lifetime of
    a lease has passed, whatever is lost on the channel; a round of renewal extends the lease; the registry
    converges to the deployments wanted and every engine outside them is told to stop, as are all engines
    when the session ends in an error; the ladder of an observing runner that lost authority is
    never walked, because each turn of its loop restarts the timer of the rung.
  \<^item> Execution: the greedy route is optimal; a plan ends at its target; an emulated order acts once; after a
    reconciliation the engine tracks exactly the venue's orders.
  \<^item> Accounts: the position of the portfolio is that of the inventory; the attributed profit is the cash
    flow up to a term the theorem names; the decision ledger is the end of the unbounded history.
  \<^item> Records: the files the audit log writes verify, over rotation and restart, and the last digest of a readable
    file commits to every row; a checkpoint survives a restart. The laws of the text form are asked only of
    what \<^verbatim>\<open>serde_json\<close> keeps to: values without floating-point numbers nested at most 127 deep, and for rows that
    run into each other, objects.
  Where modelling showed that the code departs from its documentation or intent, the departure is
  stated as a theorem about the code as it is (for instance \<^verbatim>\<open>oversized_ack_panics\<close>,
  \<^verbatim>\<open>exposure_heal_masks_drawdown\<close>, \<^verbatim>\<open>resend_gap_grows\<close>).

  \<^bold>\<open>Conventions and bounds.\<close> Integers whose wrap-around or saturation can matter are words of their
  width; counters bounded by memory are naturals. \<^verbatim>\<open>Decimal\<close> is a rational number, with division an
  argument \<open>ddiv\<close> constrained by \<open>decimal_division\<close>: rounding of products and the 96-bit overflow are
  outside the model. Panics are values. Every loop is a total function except the drain of a
  stopped runner, a partial function that is proved to return; the sample reader of JSON recurses on a
  bound, the length of its text, which is proved to be enough.
  Calls to a venue are functions of a venue state, so failures and partial acknowledgements of every
  shape are covered. Clocks are arguments; the timers of the observing runner are deadlines in its state, and
  its task may be late by a bound the theorem takes. Concurrency appears as the order of calls: all modelled
  components are owned by one task.

  \<^bold>\<open>Not modelled.\<close> The venue adapters (but for the capabilities the router and the factory read), the
  HTTP and web-socket transports, the endpoints of the controller, the dashboard, the on-chain and
  sentiment collectors and the server are input and output around these parts. The quoting strategies,
  the indicators, the toxicity and volatility estimators and the optimiser compute largely in floating point
  or with transcendental functions. The main loop of \<^verbatim>\<open>market_maker.rs\<close> is modelled only where it composes the
  parts above. Digests, signatures, encryption and the text form of JSON are arguments with their
  documented laws. Log lines and metrics are left out throughout.
\<close>

end
